(* ===== verification/Prelude.thy ===== *)
theory Prelude
  imports Main "HOL-Library.Word"
begin

text \<open>
  What every theory of the development shares: the collections its proofs draw on, the type
  synonyms of the model, and lemmas on lists, options and words that are about no component in
  particular.

  \<^item> \<open>js_defs\<close> collects the definitions of the JavaScript value operations (theory
    \<open>JsValue\<close>), \<open>dom_defs\<close> those of the page operations (theory \<open>Dom\<close>); a component's proof
    unfolds them with \<open>simp add: dom_defs\<close>.
  \<^item> \<open>inv_intros\<close> collects the preservation lemmas of the state machines.
\<close>

named_theorems js_defs \<open>definitions of the JavaScript value operations\<close>
named_theorems dom_defs \<open>definitions of the page and element operations\<close>
named_theorems inv_intros \<open>preservation of the invariants of the state machines\<close>

unbundle bit_operations_syntax

text \<open>
  An uncaught JavaScript exception, as far as the modelled code can raise one: reading or calling
  a property of \<open>undefined\<close> or \<open>null\<close>, decoding a malformed escape, or a variable that is not there.
\<close>

datatype js_error = TypeError | URIError | ReferenceError

subsection \<open>Lists\<close>

text \<open>Writing an array element: JavaScript extends the array, with holes, when the index is past its end.\<close>

definition arr_set :: "'a option list \<Rightarrow> nat \<Rightarrow> 'a \<Rightarrow> 'a option list" where
  "arr_set xs i v =
     (if i < length xs then xs[i := Some v]
      else xs @ replicate (i - length xs) None @ [Some v])"

lemma length_arr_set [simp]: "length (arr_set xs i v) = max (length xs) (Suc i)"
  by (auto simp: arr_set_def)

lemma nth_arr_set:
  "j < length (arr_set xs i v) \<Longrightarrow>
     arr_set xs i v ! j = (if j = i then Some v else if j < length xs then xs ! j else None)"
  by (auto simp: arr_set_def nth_append nth_Cons')

text \<open>\<open>Array.prototype.splice(i, 1)\<close>: removes the element at \<open>i\<close>; a negative \<open>i\<close> counts from the end.\<close>

definition splice1 :: "int \<Rightarrow> 'a list \<Rightarrow> 'a list" where
  "splice1 i xs =
     (let n = int (length xs); s = nat (if i < 0 then max (n + i) 0 else min i n)
      in take s xs @ drop (Suc s) xs)"

text \<open>\<open>$.inArray(x, xs)\<close>: the first index of \<open>x\<close>, or \<open>-1\<close>.\<close>

fun in_array_from :: "int \<Rightarrow> 'a \<Rightarrow> 'a list \<Rightarrow> int" where
  "in_array_from i x [] = -1"
| "in_array_from i x (y # ys) = (if y = x then i else in_array_from (i + 1) x ys)"

definition in_array :: "'a \<Rightarrow> 'a list \<Rightarrow> int" where
  "in_array x xs = in_array_from 0 x xs"

lemma in_array_from_notin: "x \<notin> set xs \<Longrightarrow> in_array_from i x xs = -1"
  by (induction xs arbitrary: i) auto

lemma in_array_from_in: "x \<in> set xs \<Longrightarrow> i \<le> in_array_from i x xs"
  by (induction xs arbitrary: i) (auto, smt (verit))

lemma in_array_neg_iff: "in_array x xs = -1 \<longleftrightarrow> x \<notin> set xs"
proof (cases "x \<in> set xs")
  case True
  from in_array_from_in [OF this, of 0] show ?thesis using True by (simp add: in_array_def)
next
  case False
  then show ?thesis by (simp add: in_array_def in_array_from_notin)
qed

lemma splice1_minus_one: "splice1 (-1) xs = butlast xs"
  by (cases xs rule: rev_cases) (auto simp: splice1_def Let_def nat_diff_distrib')

lemma splice1_at: "i < length xs \<Longrightarrow> splice1 (int i) xs = take i xs @ drop (Suc i) xs"
  by (simp add: splice1_def Let_def)

lemma in_array_from_shift: "x \<in> set xs \<Longrightarrow> in_array_from i x xs = i + in_array_from 0 x xs"
proof (induction xs arbitrary: i)
  case Nil
  then show ?case by simp
next
  case (Cons y ys)
  show ?case
  proof (cases "y = x")
    case False
    with Cons.prems have "x \<in> set ys" by simp
    then show ?thesis
      using Cons.IH [of "i + 1"] Cons.IH [of 1] False by simp
  qed simp
qed

text \<open>Removing the element that \<open>in_array\<close> found is removing its first occurrence.\<close>

lemma splice1_in_array: "x \<in> set xs \<Longrightarrow> splice1 (in_array x xs) xs = remove1 x xs"
proof (induction xs)
  case Nil
  then show ?case by simp
next
  case (Cons y ys)
  show ?case
  proof (cases "y = x")
    case True
    then show ?thesis by (simp add: in_array_def splice1_def Let_def)
  next
    case False
    with Cons.prems have x: "x \<in> set ys" by simp
    define k where "k = in_array x ys"
    have k0: "0 \<le> k" using in_array_from_in [OF x, of 0] by (simp add: k_def in_array_def)
    have eq: "in_array x (y # ys) = k + 1"
      using in_array_from_shift [OF x, of 1] False by (simp add: in_array_def k_def)
    have "splice1 (k + 1) (y # ys) = y # splice1 k ys"
      using k0 by (auto simp: splice1_def Let_def nat_add_distrib min_def)
    with Cons.IH [OF x] False eq show ?thesis by (simp add: k_def)
  qed
qed

end
