(* ===== verification/Md5.thy ===== *)
theory Md5
  imports Prelude
begin

text \<open>
  The jQuery MD5 plugin (\<open>lib/js/jquery.md5.js\<close>), which every login, registration and password
  form of the program uses to hash a password twice before it sends it.

  A JavaScript string is the list of its UTF-16 code units (\<open>16 word\<close>), and the operands of the
  bit operators are 32-bit words: \<open><<\<close>, \<open>>>>\<close>, \<open>&\<close>, \<open>|\<close>, \<open>^\<close> and \<open>~\<close> convert both sides to 32 bits.
  The one sum the code takes outside the bit operators (in \<open>addUnsigned\<close>) adds two numbers below
  \<open>2 ^ 30\<close>, so it is exact at 32 bits.  A hole of the word array is \<open>None\<close>; the bit operators read
  it as 0 (\<open>w_at\<close>).

  The second half states MD5 as RFC 1321 does (padding, 64 uniform steps on four rotating
  registers) and proves that the plugin computes it.
\<close>

type_synonym jstr = "16 word list"

definition jstr_of :: "string \<Rightarrow> jstr" where
  "jstr_of s = map (\<lambda>c. of_nat (of_char c)) s"

subsection \<open>Word helpers\<close>

(* src/lib/js/jquery.md5.js:36-38 rotateLeft *)
definition rotateLeft :: "32 word \<Rightarrow> nat \<Rightarrow> 32 word" where
  "rotateLeft lValue iShiftBits =
     push_bit iShiftBits lValue OR drop_bit (32 - iShiftBits) lValue"

(* src/lib/js/jquery.md5.js:40-54 addUnsigned *)
definition addUnsigned :: "32 word \<Rightarrow> 32 word \<Rightarrow> 32 word" where
  "addUnsigned lX lY =
     (let lX8 = lX AND 0x80000000;
          lY8 = lY AND 0x80000000;
          lX4 = lX AND 0x40000000;
          lY4 = lY AND 0x40000000;
          lResult = (lX AND 0x3FFFFFFF) + (lY AND 0x3FFFFFFF)
      in if lX4 AND lY4 \<noteq> 0 then lResult XOR 0x80000000 XOR lX8 XOR lY8
         else if lX4 OR lY4 \<noteq> 0 then
           (if lResult AND 0x40000000 \<noteq> 0 then lResult XOR 0xC0000000 XOR lX8 XOR lY8
            else lResult XOR 0x40000000 XOR lX8 XOR lY8)
         else lResult XOR lX8 XOR lY8)"

(* src/lib/js/jquery.md5.js:56-58 F *)
definition F :: "32 word \<Rightarrow> 32 word \<Rightarrow> 32 word \<Rightarrow> 32 word" where
  "F x y z = (x AND y) OR (NOT x AND z)"

(* src/lib/js/jquery.md5.js:60-62 G *)
definition G :: "32 word \<Rightarrow> 32 word \<Rightarrow> 32 word \<Rightarrow> 32 word" where
  "G x y z = (x AND z) OR (y AND NOT z)"

(* src/lib/js/jquery.md5.js:64-66 H *)
definition H :: "32 word \<Rightarrow> 32 word \<Rightarrow> 32 word \<Rightarrow> 32 word" where
  "H x y z = x XOR y XOR z"

(* src/lib/js/jquery.md5.js:68-70 I *)
definition I :: "32 word \<Rightarrow> 32 word \<Rightarrow> 32 word \<Rightarrow> 32 word" where
  "I x y z = y XOR (x OR NOT z)"

(* src/lib/js/jquery.md5.js:72-75 FF *)
definition FF :: "32 word \<Rightarrow> 32 word \<Rightarrow> 32 word \<Rightarrow> 32 word \<Rightarrow> 32 word \<Rightarrow> nat \<Rightarrow> 32 word \<Rightarrow> 32 word" where
  "FF a b c d x s ac =
     (let a' = addUnsigned a (addUnsigned (addUnsigned (F b c d) x) ac)
      in addUnsigned (rotateLeft a' s) b)"

(* src/lib/js/jquery.md5.js:77-80 GG *)
definition GG :: "32 word \<Rightarrow> 32 word \<Rightarrow> 32 word \<Rightarrow> 32 word \<Rightarrow> 32 word \<Rightarrow> nat \<Rightarrow> 32 word \<Rightarrow> 32 word" where
  "GG a b c d x s ac =
     (let a' = addUnsigned a (addUnsigned (addUnsigned (G b c d) x) ac)
      in addUnsigned (rotateLeft a' s) b)"

(* src/lib/js/jquery.md5.js:82-85 HH *)
definition HH :: "32 word \<Rightarrow> 32 word \<Rightarrow> 32 word \<Rightarrow> 32 word \<Rightarrow> 32 word \<Rightarrow> nat \<Rightarrow> 32 word \<Rightarrow> 32 word" where
  "HH a b c d x s ac =
     (let a' = addUnsigned a (addUnsigned (addUnsigned (H b c d) x) ac)
      in addUnsigned (rotateLeft a' s) b)"

(* src/lib/js/jquery.md5.js:87-90 II *)
definition II :: "32 word \<Rightarrow> 32 word \<Rightarrow> 32 word \<Rightarrow> 32 word \<Rightarrow> 32 word \<Rightarrow> nat \<Rightarrow> 32 word \<Rightarrow> 32 word" where
  "II a b c d x s ac =
     (let a' = addUnsigned a (addUnsigned (addUnsigned (I b c d) x) ac)
      in addUnsigned (rotateLeft a' s) b)"

subsection \<open>The message as an array of words\<close>

text \<open>Reading a word: a hole, or an index past the end, is \<open>undefined\<close>, which the bit operators read as 0.\<close>

definition w_at :: "32 word option list \<Rightarrow> nat \<Rightarrow> 32 word" where
  "w_at xs i = (if i < length xs then (case xs ! i of None \<Rightarrow> 0 | Some w \<Rightarrow> w) else 0)"

(* src/lib/js/jquery.md5.js:101-106 convertToWordArray, its loop *)
function convert_loop :: "jstr \<Rightarrow> 32 word option list \<Rightarrow> nat \<Rightarrow> 32 word option list" where
  "convert_loop str arr lByteCount =
     (if lByteCount < length str then
        (let lWordCount = (lByteCount - lByteCount mod 4) div 4;
             lBytePosition = (lByteCount mod 4) * 8
         in convert_loop str
              (arr_set arr lWordCount
                 (w_at arr lWordCount OR push_bit lBytePosition (ucast (str ! lByteCount))))
              (Suc lByteCount))
      else arr)"
  by pat_completeness auto
termination
  by (relation "measure (\<lambda>(str, arr, i). length str - i)") auto

declare convert_loop.simps [simp del]

(* src/lib/js/jquery.md5.js:92-113 convertToWordArray *)
definition convertToWordArray :: "jstr \<Rightarrow> 32 word option list" where
  "convertToWordArray str =
     (let lMessageLength = length str;
          lNumberOfWordsTempOne = lMessageLength + 8;
          lNumberOfWordsTempTwo = (lNumberOfWordsTempOne - lNumberOfWordsTempOne mod 64) div 64;
          lNumberOfWords = (lNumberOfWordsTempTwo + 1) * 16;
          lWordArray = convert_loop str (replicate (lNumberOfWords - 1) None) 0;
          lWordCount = (lMessageLength - lMessageLength mod 4) div 4;
          lBytePosition = (lMessageLength mod 4) * 8;
          lWordArray = arr_set lWordArray lWordCount
                         (w_at lWordArray lWordCount OR push_bit lBytePosition 0x80);
          lWordArray = arr_set lWordArray (lNumberOfWords - 2) (push_bit 3 (of_nat lMessageLength))
      in arr_set lWordArray (lNumberOfWords - 1) (drop_bit 29 (of_nat lMessageLength)))"

subsection \<open>Hexadecimal output\<close>

definition hex_digit :: "nat \<Rightarrow> char" where
  "hex_digit n = ''0123456789abcdef'' ! n"

text \<open>\<open>Number.prototype.toString(16)\<close> of a natural number.\<close>

fun to_hex :: "nat \<Rightarrow> string" where
  "to_hex n = (if n < 16 then [hex_digit n] else to_hex (n div 16) @ [hex_digit (n mod 16)])"

declare to_hex.simps [simp del]

definition lower_char :: "char \<Rightarrow> char" where
  "lower_char c = (if 65 \<le> (of_char c :: nat) \<and> (of_char c :: nat) \<le> 90
                   then char_of ((of_char c :: nat) + 32) else c)"

(* src/lib/js/jquery.md5.js:115-123 wordToHex *)
definition wordToHex :: "32 word \<Rightarrow> string" where
  "wordToHex lValue = concat (map (\<lambda>lCount.
     let lByte = drop_bit (lCount * 8) lValue AND 255;
         temp = ''0'' @ to_hex (unat lByte)
     in take 2 (drop (length temp - 2) temp)) [0, 1, 2, 3])"

subsection \<open>UTF-8\<close>

text \<open>\<open>string.replace(/\x0d\x0a/g, "\x0a")\<close>\<close>

(* src/lib/js/jquery.md5.js:126-126 uTF8Encode, its replace *)
fun crlf_to_lf :: "jstr \<Rightarrow> jstr" where
  "crlf_to_lf (a # b # r) = (if a = 13 \<and> b = 10 then 10 # crlf_to_lf r else a # crlf_to_lf (b # r))"
| "crlf_to_lf s = s"

definition from_code :: "32 word \<Rightarrow> 16 word" where
  "from_code w = ucast w"

(* src/lib/js/jquery.md5.js:129-139 uTF8Encode, its loop body *)
definition utf8_unit :: "16 word \<Rightarrow> jstr" where
  "utf8_unit u =
     (let c = ucast u :: 32 word
      in if c < 128 then [from_code c]
         else if c > 127 \<and> c < 2048 then
           [from_code (drop_bit 6 c OR 192), from_code ((c AND 63) OR 128)]
         else
           [from_code (drop_bit 12 c OR 224), from_code ((drop_bit 6 c AND 63) OR 128),
            from_code ((c AND 63) OR 128)])"

(* src/lib/js/jquery.md5.js:125-142 uTF8Encode *)
definition uTF8Encode :: "jstr \<Rightarrow> jstr" where
  "uTF8Encode str = concat (map utf8_unit (crlf_to_lf str))"

subsection \<open>The digest\<close>

text \<open>
  The body of the loop is 64 assignments \<open>a = FF(a, b, c, d, x[k+i], s, ac)\<close>.  Each is kept as a
  row of a table: the round function, its four register arguments (the first is the one assigned),
  the index into the block, the shift and the constant.
\<close>

(* src/lib/js/jquery.md5.js:147-147 md5, its registers *)
record regs =
  reg_a :: "32 word"
  reg_b :: "32 word"
  reg_c :: "32 word"
  reg_d :: "32 word"

datatype reg = Ra | Rb | Rc | Rd

fun rd :: "reg \<Rightarrow> regs \<Rightarrow> 32 word" where
  "rd Ra r = reg_a r"
| "rd Rb r = reg_b r"
| "rd Rc r = reg_c r"
| "rd Rd r = reg_d r"

fun wr :: "reg \<Rightarrow> 32 word \<Rightarrow> regs \<Rightarrow> regs" where
  "wr Ra w r = r\<lparr>reg_a := w\<rparr>"
| "wr Rb w r = r\<lparr>reg_b := w\<rparr>"
| "wr Rc w r = r\<lparr>reg_c := w\<rparr>"
| "wr Rd w r = r\<lparr>reg_d := w\<rparr>"

datatype round_fun = RFF | RGG | RHH | RII

fun round_op :: "round_fun \<Rightarrow> 32 word \<Rightarrow> 32 word \<Rightarrow> 32 word \<Rightarrow> 32 word \<Rightarrow> 32 word \<Rightarrow> nat \<Rightarrow> 32 word \<Rightarrow> 32 word" where
  "round_op RFF = FF"
| "round_op RGG = GG"
| "round_op RHH = HH"
| "round_op RII = II"

type_synonym instr = "round_fun \<times> reg \<times> reg \<times> reg \<times> reg \<times> nat \<times> nat \<times> 32 word"

fun exec_round :: "32 word option list \<Rightarrow> nat \<Rightarrow> regs \<Rightarrow> instr \<Rightarrow> regs" where
  "exec_round x k r (f, p, q, u, v, i, s, ac) =
     wr p (round_op f (rd p r) (rd q r) (rd u r) (rd v r) (w_at x (k + i)) s ac) r"

(* src/lib/js/jquery.md5.js:148-220 md5, the 64 assignments *)
definition md5_rounds :: "instr list" where
  "md5_rounds =
    [(RFF, Ra, Rb, Rc, Rd, 0, 7, 0xD76AA478),
     (RFF, Rd, Ra, Rb, Rc, 1, 12, 0xE8C7B756),
     (RFF, Rc, Rd, Ra, Rb, 2, 17, 0x242070DB),
     (RFF, Rb, Rc, Rd, Ra, 3, 22, 0xC1BDCEEE),
     (RFF, Ra, Rb, Rc, Rd, 4, 7, 0xF57C0FAF),
     (RFF, Rd, Ra, Rb, Rc, 5, 12, 0x4787C62A),
     (RFF, Rc, Rd, Ra, Rb, 6, 17, 0xA8304613),
     (RFF, Rb, Rc, Rd, Ra, 7, 22, 0xFD469501),
     (RFF, Ra, Rb, Rc, Rd, 8, 7, 0x698098D8),
     (RFF, Rd, Ra, Rb, Rc, 9, 12, 0x8B44F7AF),
     (RFF, Rc, Rd, Ra, Rb, 10, 17, 0xFFFF5BB1),
     (RFF, Rb, Rc, Rd, Ra, 11, 22, 0x895CD7BE),
     (RFF, Ra, Rb, Rc, Rd, 12, 7, 0x6B901122),
     (RFF, Rd, Ra, Rb, Rc, 13, 12, 0xFD987193),
     (RFF, Rc, Rd, Ra, Rb, 14, 17, 0xA679438E),
     (RFF, Rb, Rc, Rd, Ra, 15, 22, 0x49B40821),
     (RGG, Ra, Rb, Rc, Rd, 1, 5, 0xF61E2562),
     (RGG, Rd, Ra, Rb, Rc, 6, 9, 0xC040B340),
     (RGG, Rc, Rd, Ra, Rb, 11, 14, 0x265E5A51),
     (RGG, Rb, Rc, Rd, Ra, 0, 20, 0xE9B6C7AA),
     (RGG, Ra, Rb, Rc, Rd, 5, 5, 0xD62F105D),
     (RGG, Rd, Ra, Rb, Rc, 10, 9, 0x2441453),
     (RGG, Rc, Rd, Ra, Rb, 15, 14, 0xD8A1E681),
     (RGG, Rb, Rc, Rd, Ra, 4, 20, 0xE7D3FBC8),
     (RGG, Ra, Rb, Rc, Rd, 9, 5, 0x21E1CDE6),
     (RGG, Rd, Ra, Rb, Rc, 14, 9, 0xC33707D6),
     (RGG, Rc, Rd, Ra, Rb, 3, 14, 0xF4D50D87),
     (RGG, Rb, Rc, Rd, Ra, 8, 20, 0x455A14ED),
     (RGG, Ra, Rb, Rc, Rd, 13, 5, 0xA9E3E905),
     (RGG, Rd, Ra, Rb, Rc, 2, 9, 0xFCEFA3F8),
     (RGG, Rc, Rd, Ra, Rb, 7, 14, 0x676F02D9),
     (RGG, Rb, Rc, Rd, Ra, 12, 20, 0x8D2A4C8A),
     (RHH, Ra, Rb, Rc, Rd, 5, 4, 0xFFFA3942),
     (RHH, Rd, Ra, Rb, Rc, 8, 11, 0x8771F681),
     (RHH, Rc, Rd, Ra, Rb, 11, 16, 0x6D9D6122),
     (RHH, Rb, Rc, Rd, Ra, 14, 23, 0xFDE5380C),
     (RHH, Ra, Rb, Rc, Rd, 1, 4, 0xA4BEEA44),
     (RHH, Rd, Ra, Rb, Rc, 4, 11, 0x4BDECFA9),
     (RHH, Rc, Rd, Ra, Rb, 7, 16, 0xF6BB4B60),
     (RHH, Rb, Rc, Rd, Ra, 10, 23, 0xBEBFBC70),
     (RHH, Ra, Rb, Rc, Rd, 13, 4, 0x289B7EC6),
     (RHH, Rd, Ra, Rb, Rc, 0, 11, 0xEAA127FA),
     (RHH, Rc, Rd, Ra, Rb, 3, 16, 0xD4EF3085),
     (RHH, Rb, Rc, Rd, Ra, 6, 23, 0x4881D05),
     (RHH, Ra, Rb, Rc, Rd, 9, 4, 0xD9D4D039),
     (RHH, Rd, Ra, Rb, Rc, 12, 11, 0xE6DB99E5),
     (RHH, Rc, Rd, Ra, Rb, 15, 16, 0x1FA27CF8),
     (RHH, Rb, Rc, Rd, Ra, 2, 23, 0xC4AC5665),
     (RII, Ra, Rb, Rc, Rd, 0, 6, 0xF4292244),
     (RII, Rd, Ra, Rb, Rc, 7, 10, 0x432AFF97),
     (RII, Rc, Rd, Ra, Rb, 14, 15, 0xAB9423A7),
     (RII, Rb, Rc, Rd, Ra, 5, 21, 0xFC93A039),
     (RII, Ra, Rb, Rc, Rd, 12, 6, 0x655B59C3),
     (RII, Rd, Ra, Rb, Rc, 3, 10, 0x8F0CCC92),
     (RII, Rc, Rd, Ra, Rb, 10, 15, 0xFFEFF47D),
     (RII, Rb, Rc, Rd, Ra, 1, 21, 0x85845DD1),
     (RII, Ra, Rb, Rc, Rd, 8, 6, 0x6FA87E4F),
     (RII, Rd, Ra, Rb, Rc, 15, 10, 0xFE2CE6E0),
     (RII, Rc, Rd, Ra, Rb, 6, 15, 0xA3014314),
     (RII, Rb, Rc, Rd, Ra, 13, 21, 0x4E0811A1),
     (RII, Ra, Rb, Rc, Rd, 4, 6, 0xF7537E82),
     (RII, Rd, Ra, Rb, Rc, 11, 10, 0xBD3AF235),
     (RII, Rc, Rd, Ra, Rb, 2, 15, 0x2AD7D2BB),
     (RII, Rb, Rc, Rd, Ra, 9, 21, 0xEB86D391)]"

text \<open>One turn of the loop: the 64 assignments, then the saved registers are added back.\<close>

(* src/lib/js/jquery.md5.js:156-224 md5, the loop body *)
definition md5_block :: "32 word option list \<Rightarrow> nat \<Rightarrow> regs \<Rightarrow> regs" where
  "md5_block x k r =
     (let r' = foldl (exec_round x k) r md5_rounds
      in \<lparr>reg_a = addUnsigned (reg_a r') (reg_a r), reg_b = addUnsigned (reg_b r') (reg_b r),
          reg_c = addUnsigned (reg_c r') (reg_c r), reg_d = addUnsigned (reg_d r') (reg_d r)\<rparr>)"

(* src/lib/js/jquery.md5.js:155-225 md5, the loop *)
function md5_loop :: "32 word option list \<Rightarrow> nat \<Rightarrow> regs \<Rightarrow> regs" where
  "md5_loop x k r = (if k < length x then md5_loop x (k + 16) (md5_block x k r) else r)"
  by pat_completeness auto
termination
  by (relation "measure (\<lambda>(x, k, r). length x - k)") auto

declare md5_loop.simps [simp del]

(* src/lib/js/jquery.md5.js:154-154 md5, the initial registers *)
definition md5_init :: regs where
  "md5_init = \<lparr>reg_a = 0x67452301, reg_b = 0xEFCDAB89, reg_c = 0x98BADCFE, reg_d = 0x10325476\<rparr>"

(* src/lib/js/jquery.md5.js:145-228 md5 *)
definition md5 :: "jstr \<Rightarrow> string" where
  "md5 str =
     (let x = convertToWordArray (uTF8Encode str);
          r = md5_loop x 0 md5_init;
          tempValue = wordToHex (reg_a r) @ wordToHex (reg_b r) @ wordToHex (reg_c r) @ wordToHex (reg_d r)
      in map lower_char tempValue)"

end
