(* ===== verification/Md5_Correct.thy ===== *)
theory Md5_Correct
  imports Md5
begin

text \<open>
  The plugin of theory \<open>Md5\<close> computes MD5.  RFC 1321 is stated here on its own terms: the padded
  message as bytes (\<open>rfc_padded\<close>), its little-endian words (\<open>rfc_words\<close>), 64 uniform steps on a
  quadruple that rotates (\<open>rfc_step\<close>), and the digest printed low-order byte first (\<open>rfc_print\<close>).
  The lemmas go up the plugin: its 32-bit addition and rotation, the table of 64 assignments (one
  step each, with the registers rotated, \<open>exec_round_rfc\<close>), the block, the word array, the loop.
  A decoder for UTF-8 gives the round trip of \<open>uTF8Encode\<close>.
\<close>

subsection \<open>Addition and rotation\<close>

lemma xor_top: "(push_bit 30 s + m) XOR push_bit 30 t = push_bit 30 (s XOR t) + m"
  if "take_bit 30 m = m" for s t m :: "32 word"
proof -
  have b: "\<not> bit m n" if "30 \<le> n" for n
    using \<open>take_bit 30 m = m\<close> that by (metis bit_take_bit_iff not_le)
  have 1: "push_bit 30 u + m = push_bit 30 u OR m" for u
    by (rule disjunctive_add_eq_or, rule bit_eqI) (use b in \<open>auto simp: bit_simps\<close>)
  show ?thesis
    unfolding 1 by (rule bit_eqI) (use b in \<open>auto simp: bit_simps\<close>)
qed


lemma two_bits: "drop_bit 30 w \<in> {0,1,2,3}" for w :: "32 word"
proof -
  have "unat (drop_bit 30 w) < 4" 
    using unsigned_less[of w, where ?'a=nat] by (simp only: unat_drop_bit_eq) (simp add: drop_bit_eq_div less_mult_imp_div_less)
  then have "unat (drop_bit 30 w) = 0 \<or> unat (drop_bit 30 w) = 1 \<or> unat (drop_bit 30 w) = 2 \<or> unat (drop_bit 30 w) = 3" by arith
  then show ?thesis 
    by (auto simp: word_unat_eq_iff)
qed
lemma and_top: "w AND push_bit 30 k = push_bit 30 (drop_bit 30 w AND k)" for w :: "32 word"
  by (rule bit_eqI) (auto simp: bit_simps)
lemma and_low: "w AND 0x3FFFFFFF = take_bit 30 w" for w :: "32 word"
  by (simp add: take_bit_eq_mask mask_eq_exp_minus_1)

lemma addUnsigned_plus: "addUnsigned x y = x + y"
proof -
  define m where "m = take_bit 30 x"
  define n where "n = take_bit 30 y"
  define s where "s = drop_bit 30 x"
  define t where "t = drop_bit 30 y"
  define c where "c = drop_bit 30 (m + n)"
  define r where "r = take_bit 30 (m + n)"
  have x: "x = push_bit 30 s + m" and y: "y = push_bit 30 t + n" and mn: "m + n = push_bit 30 c + r"
    by (simp_all only: m_def n_def s_def t_def c_def r_def bits_ident)
  have r: "take_bit 30 r = r" by (simp add: r_def)
  have st: "s \<in> {0,1,2,3}" "t \<in> {0,1,2,3}"
    by (simp_all only: s_def t_def two_bits)
  have "unat m < 2 ^ 30" "unat n < 2 ^ 30"
    by (simp_all only: m_def n_def unsigned_take_bit_eq) (simp_all add: take_bit_eq_mod)
  then have "unat (m + n) < 2 ^ 31" by (simp add: unat_word_ariths)
  then have "unat c < 2" by (simp only: c_def unat_drop_bit_eq) (simp add: drop_bit_eq_div less_mult_imp_div_less)
  then have c: "c \<in> {0, 1}" 
    by (auto simp: word_unat_eq_iff less_Suc_eq numeral_2_eq_2)
  have sum: "x + y = push_bit 30 (s + t + c) + r"
  proof -
    have "x + y = push_bit 30 s + push_bit 30 t + (m + n)" using x y by simp
    then show ?thesis by (simp add: mn push_bit_eq_mult distrib_left distrib_right)
  qed
  have top: "w AND 0x80000000 = push_bit 30 (drop_bit 30 w AND 2)"
    "w AND 0x40000000 = push_bit 30 (drop_bit 30 w AND 1)" for w :: "32 word"
    using and_top [of w 2] and_top [of w 1] by simp_all
  have dr: "drop_bit 30 (push_bit 30 c + r) = c" using mn by (simp add: c_def)
  have xr: "(push_bit 30 u + r) XOR 0x80000000 = push_bit 30 (u XOR 2) + r"
    "(push_bit 30 u + r) XOR 0x40000000 = push_bit 30 (u XOR 1) + r"
    "(push_bit 30 u + r) XOR 0xC0000000 = push_bit 30 (u XOR 3) + r" for u
    using xor_top [OF r, of u 2] xor_top [OF r, of u 1] xor_top [OF r, of u 3] by simp_all
  have "addUnsigned x y =
     (if push_bit 30 (s AND 1) AND push_bit 30 (t AND 1) \<noteq> 0 then push_bit 30 (((c XOR 2) XOR (s AND 2)) XOR (t AND 2)) + r
      else if push_bit 30 (s AND 1) OR push_bit 30 (t AND 1) \<noteq> 0 then
        (if push_bit 30 (c AND 1) \<noteq> 0 then push_bit 30 (((c XOR 3) XOR (s AND 2)) XOR (t AND 2)) + r
         else push_bit 30 (((c XOR 1) XOR (s AND 2)) XOR (t AND 2)) + r)
      else push_bit 30 ((c XOR (s AND 2)) XOR (t AND 2)) + r)"
    unfolding addUnsigned_def Let_def xor.assoc [symmetric] and_low m_def[symmetric] n_def[symmetric] mn top s_def[symmetric] t_def[symmetric] dr xr xor_top [OF r]
    by (simp only:)
  also have "\<dots> = push_bit 30 (s + t + c) + r"
    using st c by (simp only: insert_iff empty_iff, elim disjE; simp)
  finally show ?thesis using sum by simp
qed

lemma addUnsigned_eq [simp]: "addUnsigned = (+)"
  by (intro ext addUnsigned_plus)

lemma rot_index:
  "n < 32 \<Longrightarrow> k < 32 \<Longrightarrow> (k + 32 - n) mod 32 = (if n \<le> k then k - n else k + 32 - n)" for k n :: nat
  by (auto simp: mod_if)

lemma rotateLeft_eq:
  assumes "0 < n" "n < 32"
  shows "rotateLeft w n = word_rotl n w"
proof (rule bit_word_eqI)
  fix k assume "k < LENGTH(32)"
  then have k: "k < 32" by simp
  show "bit (rotateLeft w n) k = bit (word_rotl n w) k"
  proof (cases "n \<le> k")
    case True
    moreover have "\<not> bit w (32 - n + k)" using True by (auto dest: bit_imp_le_length)
    ultimately show ?thesis
      using assms k rot_index [OF assms(2) k] by (simp add: rotateLeft_def bit_simps bit_word_rotl_iff)
  next
    case False
    then have "k + 32 - n = 32 - n + k" using assms by simp
    then show ?thesis
      using assms k False rot_index [OF assms(2) k]
      by (simp add: rotateLeft_def bit_simps bit_word_rotl_iff del: add_2_eq_Suc add_2_eq_Suc')
  qed
qed

subsection \<open>The steps of RFC 1321\<close>

definition rfc_F :: "nat \<Rightarrow> 32 word \<Rightarrow> 32 word \<Rightarrow> 32 word \<Rightarrow> 32 word" where
  "rfc_F i x y z = (if i < 16 then (x AND y) OR (NOT x AND z)
                    else if i < 32 then (x AND z) OR (y AND NOT z)
                    else if i < 48 then x XOR y XOR z
                    else y XOR (x OR NOT z))"

definition rfc_g :: "nat \<Rightarrow> nat" where
  "rfc_g i = (if i < 16 then i else if i < 32 then (5 * i + 1) mod 16
              else if i < 48 then (3 * i + 5) mod 16 else (7 * i) mod 16)"

definition rfc_s :: "nat \<Rightarrow> nat" where
  "rfc_s i = [[7, 12, 17, 22], [5, 9, 14, 20], [4, 11, 16, 23], [6, 10, 15, 21]] ! (i div 16) ! (i mod 4)"

definition rfc_K :: "32 word list" where
  "rfc_K =
    [0xd76aa478, 0xe8c7b756, 0x242070db, 0xc1bdceee, 0xf57c0faf, 0x4787c62a, 0xa8304613, 0xfd469501,
     0x698098d8, 0x8b44f7af, 0xffff5bb1, 0x895cd7be, 0x6b901122, 0xfd987193, 0xa679438e, 0x49b40821,
     0xf61e2562, 0xc040b340, 0x265e5a51, 0xe9b6c7aa, 0xd62f105d, 0x2441453, 0xd8a1e681, 0xe7d3fbc8,
     0x21e1cde6, 0xc33707d6, 0xf4d50d87, 0x455a14ed, 0xa9e3e905, 0xfcefa3f8, 0x676f02d9, 0x8d2a4c8a,
     0xfffa3942, 0x8771f681, 0x6d9d6122, 0xfde5380c, 0xa4beea44, 0x4bdecfa9, 0xf6bb4b60, 0xbebfbc70,
     0x289b7ec6, 0xeaa127fa, 0xd4ef3085, 0x4881d05, 0xd9d4d039, 0xe6db99e5, 0x1fa27cf8, 0xc4ac5665,
     0xf4292244, 0x432aff97, 0xab9423a7, 0xfc93a039, 0x655b59c3, 0x8f0ccc92, 0xffeff47d, 0x85845dd1,
     0x6fa87e4f, 0xfe2ce6e0, 0xa3014314, 0x4e0811a1, 0xf7537e82, 0xbd3af235, 0x2ad7d2bb, 0xeb86d391]"

type_synonym quad = "32 word \<times> 32 word \<times> 32 word \<times> 32 word"

fun rfc_step :: "(nat \<Rightarrow> 32 word) \<Rightarrow> quad \<Rightarrow> nat \<Rightarrow> quad" where
  "rfc_step X (a, b, c, d) i =
     (d, b + word_rotl (rfc_s i) (a + rfc_F i b c d + X (rfc_g i) + rfc_K ! i), b, c)"

fun quad_add :: "quad \<Rightarrow> quad \<Rightarrow> quad" where
  "quad_add (a, b, c, d) (a', b', c', d') = (a + a', b + b', c + c', d + d')"

definition rfc_block :: "(nat \<Rightarrow> 32 word) \<Rightarrow> quad \<Rightarrow> quad" where
  "rfc_block X q = quad_add (foldl (rfc_step X) q [0..<64]) q"

definition quad_of :: "regs \<Rightarrow> quad" where
  "quad_of r = (reg_a r, reg_b r, reg_c r, reg_d r)"

fun round_kind :: "nat \<Rightarrow> round_fun" where
  "round_kind i = (if i < 16 then RFF else if i < 32 then RGG else if i < 48 then RHH else RII)"

definition round_regs :: "nat \<Rightarrow> reg \<times> reg \<times> reg \<times> reg" where
  "round_regs i = [(Ra, Rb, Rc, Rd), (Rd, Ra, Rb, Rc), (Rc, Rd, Ra, Rb), (Rb, Rc, Rd, Ra)] ! (i mod 4)"

definition rfc_instr :: "nat \<Rightarrow> instr" where
  "rfc_instr i = (case round_regs i of (p, q, u, v) \<Rightarrow> (round_kind i, p, q, u, v, rfc_g i, rfc_s i, rfc_K ! i))"

lemma md5_rounds_rfc: "md5_rounds = map rfc_instr [0..<64]"
  by code_simp

text \<open>Before step i the four registers hold the rotating quadruple, in the order of round i.\<close>

definition rotated :: "nat \<Rightarrow> regs \<Rightarrow> quad" where
  "rotated i r = (case round_regs i of (p, q, u, v) \<Rightarrow> (rd p r, rd q r, rd u r, rd v r))"

lemma rfc_s_range: "i < 64 \<Longrightarrow> 0 < rfc_s i \<and> rfc_s i < 32"
proof -
  have "\<forall>i \<in> set [0..<64]. 0 < rfc_s i \<and> rfc_s i < 32" by code_simp
  then show "i < 64 \<Longrightarrow> 0 < rfc_s i \<and> rfc_s i < 32" by simp
qed

lemma round_op_eq:
  assumes "i < 64"
  shows "round_op (round_kind i) a b c d x (rfc_s i) ac = b + word_rotl (rfc_s i) (a + rfc_F i b c d + x + ac)"
  using rfc_s_range [OF assms]
  by (simp add: FF_def GG_def HH_def II_def F_def G_def H_def I_def rfc_F_def rotateLeft_eq ac_simps)

lemma exec_round_rfc:
  assumes "i < 64"
  shows "rotated (Suc i) (exec_round x k r (rfc_instr i)) = rfc_step (\<lambda>j. w_at x (k + j)) (rotated i r) i"
proof -
  have "i mod 4 \<in> {0, 1, 2, 3}" by auto
  then consider "i mod 4 = 0" "Suc i mod 4 = 1" | "i mod 4 = 1" "Suc i mod 4 = 2" 
   | "i mod 4 = 2" "Suc i mod 4 = 3" | "i mod 4 = 3" "Suc i mod 4 = 0"
    by (fastforce simp: mod_Suc)
  then show ?thesis
    by cases (simp_all add: rotated_def rfc_instr_def round_regs_def round_op_eq [OF assms] del: round_kind.simps)
qed

lemma exec_rounds_rfc:
  "n \<le> 64 \<Longrightarrow> rotated n (foldl (exec_round x k) r (map rfc_instr [0..<n]))
     = foldl (rfc_step (\<lambda>j. w_at x (k + j))) (rotated 0 r) [0..<n]"
proof (induction n)
  case 0
  then show ?case by simp
next
  case (Suc n)
  then show ?case by (simp add: exec_round_rfc)
qed

lemma rotated_0: "rotated 0 r = quad_of r" and rotated_64: "rotated 64 r = quad_of r"
  by (simp_all add: rotated_def round_regs_def quad_of_def)

lemma md5_block_rfc: "quad_of (md5_block x k r) = rfc_block (\<lambda>j. w_at x (k + j)) (quad_of r)"
proof -
  have "foldl (rfc_step (\<lambda>j. w_at x (k + j))) (quad_of r) [0..<64]
      = quad_of (foldl (exec_round x k) r md5_rounds)"
    using exec_rounds_rfc [of 64 x k r] by (simp only: md5_rounds_rfc rotated_0 rotated_64 order_refl)
  then show ?thesis by (simp add: md5_block_def Let_def rfc_block_def) (simp add: quad_of_def)
qed
subsection \<open>Padding\<close>

text \<open>Padding and the message words, as the RFC states them.\<close>

definition le32 :: "(nat \<Rightarrow> 32 word) \<Rightarrow> nat \<Rightarrow> 32 word" where
  "le32 f j = f (4 * j) OR push_bit 8 (f (4 * j + 1)) OR push_bit 16 (f (4 * j + 2)) OR push_bit 24 (f (4 * j + 3))"

definition rfc_padded :: "32 word list \<Rightarrow> 32 word list" where
  "rfc_padded bs = bs @ [0x80] @ replicate ((119 - length bs mod 64) mod 64) 0"

definition rfc_words :: "32 word list \<Rightarrow> 32 word list" where
  "rfc_words bs = map (le32 (\<lambda>p. rfc_padded bs ! p)) [0..<length (rfc_padded bs) div 4]
     @ [of_nat (8 * length bs), of_nat (8 * length bs div 2 ^ 32)]"

definition rfc_digest :: "32 word list \<Rightarrow> quad" where
  "rfc_digest bs = foldl (\<lambda>q b. rfc_block (\<lambda>j. rfc_words bs ! (16 * b + j)) q)
     (0x67452301, 0xEFCDAB89, 0x98BADCFE, 0x10325476) [0..<length (rfc_words bs) div 16]"

definition hex_byte :: "nat \<Rightarrow> string" where
  "hex_byte b = [hex_digit (b div 16), hex_digit (b mod 16)]"

definition rfc_hex :: "32 word \<Rightarrow> string" where
  "rfc_hex w = concat (map (\<lambda>k. hex_byte (unat w div 256 ^ k mod 256)) [0..<4])"

fun rfc_print :: "quad \<Rightarrow> string" where
  "rfc_print (a, b, c, d) = rfc_hex a @ rfc_hex b @ rfc_hex c @ rfc_hex d"

lemma length_rfc_padded: "length (rfc_padded bs) = 64 * ((length bs + 8) div 64) + 56"
proof -
  define q r where "q = length bs div 64" and "r = length bs mod 64"
  then have n: "length bs = 64 * q + r" and r: "r < 64" by simp_all
  show ?thesis
  proof (cases "r \<le> 55")
    case True
    have "(119 - r) mod 64 = 55 - r" using True by (simp add: mod_if)
    moreover have "(length bs + 8) div 64 = q" using n True by simp
    ultimately show ?thesis using n True r by (simp add: rfc_padded_def r_def [symmetric])
  next
    case False
    have "(119 - r) mod 64 = 119 - r" using False r by simp
    moreover have "(length bs + 8) div 64 = Suc q" using n False r by simp
    ultimately show ?thesis using n False r by (simp add: rfc_padded_def r_def [symmetric])
  qed
qed

lemma length_rfc_words: "length (rfc_words bs) = 16 * ((length bs + 8) div 64 + 1)"
  by (simp add: rfc_words_def length_rfc_padded)

lemma w_at_arr_set: "w_at (arr_set xs i v) j = (if j = i then v else w_at xs j)"
  by (auto simp: w_at_def nth_arr_set)


lemma le32_upd:
  assumes "r < 4" "f (4 * q + r) = 0"
  shows "le32 (f(4 * q + r := v)) j = (if j = q then le32 f q OR push_bit (r * 8) v else le32 f j)"
proof -
  from assms(1) consider "r = 0" | "r = 1" | "r = 2" | "r = 3" by linarith
  then show ?thesis
  proof cases
    case 1 then show ?thesis using assms by (auto simp: le32_def ac_simps) 
  next
    case 2 
    have "4 * q + 1 \<noteq> 4 * j" "4 * q + 1 \<noteq> 4 * j + 2" "4 * q + 1 \<noteq> 4 * j + 3" by presburger+
    then show ?thesis using assms 2 by (auto simp: le32_def ac_simps) 
  next
    case 3 
    have "4 * q + 2 \<noteq> 4 * j" "4 * q + 2 \<noteq> 4 * j + 1" "4 * q + 2 \<noteq> 4 * j + 3" by presburger+
    then show ?thesis using assms 3 by (auto simp: le32_def ac_simps) 
  next
    case 4
    have "4 * q + 3 \<noteq> 4 * j" "4 * q + 3 \<noteq> 4 * j + 1" "4 * q + 3 \<noteq> 4 * j + 2" by presburger+
    then show ?thesis using assms 4 by (auto simp: le32_def ac_simps) 
  qed
qed
lemma le32_upd_div:
  assumes "f i = 0"
  shows "le32 (f(i := v)) j = (if j = i div 4 then le32 f j OR push_bit (i mod 4 * 8) v else le32 f j)"
  using le32_upd [of "i mod 4" f "i div 4" v j] assms by auto

definition byte_upto :: "jstr \<Rightarrow> nat \<Rightarrow> nat \<Rightarrow> 32 word" where
  "byte_upto s i p = (if p < i \<and> p < length s then ucast (s ! p) else 0)"

lemma byte_upto_Suc: "i < length s \<Longrightarrow> byte_upto s (Suc i) = (byte_upto s i)(i := ucast (s ! i))"
  by (auto simp: byte_upto_def less_Suc_eq)

lemma index_words: "(i - i mod 4) div 4 = i div 4" for i :: nat
  by (simp add: minus_mod_eq_mult_div)

lemma w_at_convert_loop:
  "i \<le> length s \<Longrightarrow> (\<forall>j. w_at arr j = le32 (byte_upto s i) j) \<Longrightarrow>
     w_at (convert_loop s arr i) j = le32 (byte_upto s (length s)) j"
proof (induction s arr i rule: convert_loop.induct)
  case (1 s arr i)
  show ?case
  proof (cases "i < length s")
    case True
    let ?arr = "arr_set arr (i div 4) (w_at arr (i div 4) OR push_bit ((i mod 4) * 8) (ucast (s ! i)))"
    have "byte_upto s i i = 0" by (simp add: byte_upto_def)
    then have "w_at ?arr j = le32 (byte_upto s (Suc i)) j" for j
      unfolding byte_upto_Suc [OF True]
      using "1.prems"(2) by (subst le32_upd_div) (simp_all add: w_at_arr_set)
    then show ?thesis
      using "1.IH" [OF True refl refl] True
      by (subst convert_loop.simps) (simp add: index_words Let_def)
  next
    case False
    with "1.prems" show ?thesis by (subst convert_loop.simps) simp
  qed
qed

lemma length_convert_loop:
  "length s \<le> 4 * length arr \<Longrightarrow> length (convert_loop s arr i) = length arr"
proof (induction s arr i rule: convert_loop.induct)
  case (1 s arr i)
  show ?case
  proof (cases "i < length s")
    case True
    then have "i div 4 < length arr" using "1.prems" by simp
    then show ?thesis
      using "1.IH" [OF True refl refl] True "1.prems"
      by (subst convert_loop.simps) (simp add: index_words max_def Let_def)
  next
    case False
    then show ?thesis by (subst convert_loop.simps) simp
  qed
qed

definition units :: "jstr \<Rightarrow> 32 word list" where
  "units s = map ucast s"

lemma length_units [simp]: "length (units s) = length s"
  by (simp add: units_def)

lemma words_count: "(length s + 8 - (length s + 8) mod 64) div 64 = (length s + 8) div 64"
  by (simp add: minus_mod_eq_mult_div)

lemma length_convertToWordArray: "length (convertToWordArray s) = length (rfc_words (units s))"
proof -
  define n where "n = ((length s + 8) div 64 + 1) * 16"
  have n: "length s div 4 < n - 1" "length s \<le> 4 * length (replicate (n - 1) (None :: 32 word option))"
    by (simp_all add: n_def)
  have "16 \<le> n" by (simp add: n_def)
  then have "length (convertToWordArray s) = n"
    unfolding convertToWordArray_def Let_def words_count n_def [symmetric] index_words length_arr_set
      length_convert_loop [OF n(2)] using n(1) by (auto simp: max_def)
  then show ?thesis by (simp add: length_rfc_words n_def)
qed

lemma rfc_padded_nth:
  "p < length (rfc_padded (units s)) \<Longrightarrow>
     rfc_padded (units s) ! p = ((byte_upto s (length s))(length s := 0x80)) p"
  by (auto simp: rfc_padded_def nth_append byte_upto_def units_def nth_Cons')

lemma w_at_convertToWordArray:
  assumes "length s < 2 ^ 32" "i < length (rfc_words (units s))"
  shows "w_at (convertToWordArray s) i = rfc_words (units s) ! i"
proof -
  define n where "n = ((length s + 8) div 64 + 1) * 16"
  have n: "length (rfc_words (units s)) = n" by (simp add: length_rfc_words n_def)
  define arr where "arr = convert_loop s (replicate (n - 1) None) 0"
  have "w_at (replicate (n - 1) None) j = le32 (byte_upto s 0) j" for j
    by (simp add: w_at_def byte_upto_def le32_def)
  then have body: "w_at arr j = le32 (byte_upto s (length s)) j" for j
    by (simp add: arr_def w_at_convert_loop)
  have byte0: "byte_upto s (length s) (length s) = 0" by (simp add: byte_upto_def)
  let ?f = "(byte_upto s (length s))(length s := 0x80)"
  define brr where "brr = arr_set arr (length s div 4)
    (w_at arr (length s div 4) OR push_bit ((length s mod 4) * 8) 0x80)"
  have mark: "w_at brr j = le32 ?f j" for j
    by (subst le32_upd_div) (simp_all add: byte0 brr_def w_at_arr_set body)
  have conv: "w_at (convertToWordArray s) i =
      (if i = n - 1 then drop_bit 29 (of_nat (length s))
       else if i = n - 2 then push_bit 3 (of_nat (length s)) else le32 ?f i)"
    unfolding convertToWordArray_def Let_def words_count n_def [symmetric] index_words
      arr_def [symmetric] brr_def [symmetric] w_at_arr_set [of _ "n - 1"] w_at_arr_set [of _ "n - 2"] mark
    by (rule refl)
  have lo: "of_nat (8 * length s) = (push_bit 3 (of_nat (length s)) :: 32 word)"
    by (simp add: push_bit_eq_mult)
  have hi: "of_nat (8 * length s div 2 ^ 32) = (drop_bit 29 (of_nat (length s)) :: 32 word)"
  proof (rule word_unat_eq_iff [THEN iffD2])
    have "8 * length s div 2 ^ 32 = length s div 2 ^ 29" by (simp add: div_mult2_eq [symmetric])
    moreover have "length s div 2 ^ 29 < 2 ^ 32" using assms(1) by (simp add: div_less_iff_less_mult)
    ultimately show "unat (of_nat (8 * length s div 2 ^ 32) :: 32 word) = unat (drop_bit 29 (of_nat (length s)) :: 32 word)"
      using assms(1) by (simp only: unat_drop_bit_eq) (simp add: unat_of_nat drop_bit_eq_div)
  qed
  have p: "length (rfc_padded (units s)) div 4 = n - 2"
    by (simp add: length_rfc_padded n_def)
  show ?thesis
  proof (cases "i < n - 2")
    case True
    then have "4 * i + 3 < length (rfc_padded (units s))" by (simp add: length_rfc_padded n_def)
    then have "le32 (\<lambda>p. rfc_padded (units s) ! p) i = le32 ?f i"
      by (simp add: le32_def rfc_padded_nth del: fun_upd_apply)
    moreover have "i \<noteq> n - 1" "i \<noteq> n - 2" using True by simp_all
    ultimately show ?thesis using True by (simp only: conv if_False) (simp add: rfc_words_def p nth_append)
  next
    case False
    then have "i = n - 2 \<or> i = n - 1" using assms(2) n by linarith
    moreover have "2 \<le> n" by (simp add: n_def)
    ultimately show ?thesis
      using lo hi by (auto simp: conv rfc_words_def p nth_append nth_Cons')
  qed
qed

lemma rfc_g_less: "i < 64 \<Longrightarrow> rfc_g i < 16"
  by (auto simp: rfc_g_def)

lemma rfc_block_cong:
  assumes "\<And>j. j < 16 \<Longrightarrow> X j = Y j"
  shows "rfc_block X q = rfc_block Y q"
proof -
  have "foldl (rfc_step X) q [0..<n] = foldl (rfc_step Y) q [0..<n]" if "n \<le> 64" for n
    using that
  proof (induction n)
    case (Suc n)
    then have "X (rfc_g n) = Y (rfc_g n)" by (intro assms rfc_g_less) simp
    with Suc show ?case by (cases "foldl (rfc_step Y) q [0..<n]") simp
  qed simp
  then show ?thesis by (simp add: rfc_block_def)
qed

lemma md5_loop_rfc:
  assumes "length x = 16 * m" "length ws = 16 * m" "\<And>i. i < 16 * m \<Longrightarrow> w_at x i = ws ! i" "b \<le> m"
  shows "quad_of (md5_loop x (16 * b) r)
       = foldl (\<lambda>q b. rfc_block (\<lambda>j. ws ! (16 * b + j)) q) (quad_of r) [b..<m]"
  using assms(4)
proof (induction "m - b" arbitrary: b r)
  case 0
  then show ?case using assms(1) by (subst md5_loop.simps) simp
next
  case (Suc d)
  then have b: "b < m" by simp
  have "quad_of (md5_block x (16 * b) r) = rfc_block (\<lambda>j. ws ! (16 * b + j)) (quad_of r)"
    unfolding md5_block_rfc using b assms(3) by (intro rfc_block_cong) auto
  moreover have "quad_of (md5_loop x (16 * Suc b) (md5_block x (16 * b) r))
      = foldl (\<lambda>q b. rfc_block (\<lambda>j. ws ! (16 * b + j)) q) (quad_of (md5_block x (16 * b) r)) [Suc b..<m]"
    using Suc b by (intro Suc.hyps(1)) auto
  ultimately show ?case
    using b assms(1) by (subst md5_loop.simps) (simp add: upt_rec [of b m] add.commute)
qed

lemma to_hex_byte: "n < 256 \<Longrightarrow> to_hex n = (if n < 16 then [hex_digit n] else hex_byte n)"
  by (subst to_hex.simps, subst to_hex.simps) (auto simp: hex_byte_def)

lemma last_two_hex:
  assumes "n < 256"
  shows "(let temp = ''0'' @ to_hex n in take 2 (drop (length temp - 2) temp)) = hex_byte n"
proof (cases "n < 16")
  case True
  then show ?thesis using assms by (simp add: to_hex_byte hex_byte_def hex_digit_def)
next
  case False
  then show ?thesis using assms by (simp add: to_hex_byte hex_byte_def)
qed

lemma byte_of_word: "unat (drop_bit (k * 8) w AND 255) = unat w div 256 ^ k mod 256" for w :: "32 word"
proof -
  have "w' AND 255 = take_bit 8 w'" for w' :: "32 word"
    by (simp add: take_bit_eq_mask mask_eq_exp_minus_1)
  then have "unat (drop_bit (k * 8) w AND 255) = unat w div 2 ^ (k * 8) mod 2 ^ 8"
    by (simp only: unsigned_take_bit_eq unat_drop_bit_eq) (simp only: drop_bit_eq_div take_bit_eq_mod)
  moreover have "2 ^ (k * 8) = (256 :: nat) ^ k"
    using power_mult [of "2 :: nat" 8 k] by (simp add: mult.commute)
  ultimately show ?thesis by simp
qed

lemma wordToHex_rfc: "wordToHex w = rfc_hex w"
proof -
  have "[0, 1, 2, 3] = [0..<4::nat]" by (simp add: upt_rec)
  then show ?thesis
    unfolding wordToHex_def rfc_hex_def Let_def [of "drop_bit _ _ AND _"] byte_of_word
    by (simp only: last_two_hex mod_less_divisor)
qed

definition hex_alphabet :: "string" where "hex_alphabet = ''0123456789abcdef''"

lemma hex_digit_in: "n < 16 \<Longrightarrow> hex_digit n \<in> set hex_alphabet"
  by (simp add: hex_digit_def hex_alphabet_def nth_mem del: list.set)

lemma lower_hex: "c \<in> set hex_alphabet \<Longrightarrow> lower_char c = c"
  by (auto simp: hex_alphabet_def lower_char_def)

lemma rfc_hex_set: "set (rfc_hex w) \<subseteq> set hex_alphabet"
  by (auto simp: rfc_hex_def hex_byte_def intro!: hex_digit_in)

lemma length_rfc_hex: "length (rfc_hex w) = 8"
  by (simp add: rfc_hex_def hex_byte_def upt_rec)

lemma md5_print: "md5 s = rfc_print (quad_of (md5_loop (convertToWordArray (uTF8Encode s)) 0 md5_init))"
proof -
  have "map lower_char xs = xs" if "set xs \<subseteq> set hex_alphabet" for xs
    using that by (induction xs) (simp_all add: lower_hex)
  then show ?thesis
    by (simp add: md5_def Let_def quad_of_def wordToHex_rfc rfc_hex_set)
qed

lemma md5_rfc:
  assumes "length (uTF8Encode s) < 2 ^ 32"
  shows "md5 s = rfc_print (rfc_digest (units (uTF8Encode s)))"
proof -
  let ?u = "uTF8Encode s"
  define m where "m = (length ?u + 8) div 64 + 1"
  have ws: "length (rfc_words (units ?u)) = 16 * m" by (simp add: length_rfc_words m_def)
  have "quad_of (md5_loop (convertToWordArray ?u) (16 * 0) md5_init)
      = foldl (\<lambda>q b. rfc_block (\<lambda>j. rfc_words (units ?u) ! (16 * b + j)) q) (quad_of md5_init) [0..<m]"
    using ws w_at_convertToWordArray [OF assms]
    by (intro md5_loop_rfc) (simp_all add: length_convertToWordArray)
  then show ?thesis by (simp add: md5_print rfc_digest_def ws quad_of_def md5_init_def)
qed

lemma length_md5: "length (md5 s) = 32"
  by (cases "quad_of (md5_loop (convertToWordArray (uTF8Encode s)) 0 md5_init)")
     (simp add: md5_print length_rfc_hex)

lemma md5_alphabet: "set (md5 s) \<subseteq> set hex_alphabet"
  by (cases "quad_of (md5_loop (convertToWordArray (uTF8Encode s)) 0 md5_init)")
     (simp add: md5_print rfc_hex_set)

fun utf8_dec :: "jstr \<Rightarrow> jstr option" where
  "utf8_dec [] = Some []"
| "utf8_dec (b # r) =
     (if b < 0x80 then map_option ((#) b) (utf8_dec r)
      else if b AND 0xE0 = 0xC0 then
        (case r of b1 # r' \<Rightarrow> map_option ((#) (push_bit 6 (b AND 0x1F) OR (b1 AND 0x3F))) (utf8_dec r') | _ \<Rightarrow> None)
      else if b AND 0xF0 = 0xE0 then
        (case r of b1 # b2 # r' \<Rightarrow>
           map_option ((#) (push_bit 12 (b AND 0x0F) OR push_bit 6 (b1 AND 0x3F) OR (b2 AND 0x3F))) (utf8_dec r')
         | _ \<Rightarrow> None)
      else None)"


lemma word_less_pow:
  fixes w :: "16 word"
  assumes "k < 16"
  shows "w < 2 ^ k \<longleftrightarrow> (\<forall>n. k \<le> n \<longrightarrow> \<not> bit w n)"
proof -
  have "unat (2 ^ k :: 16 word) = 2 ^ k" 
  proof -
    have "(2 ^ k :: nat) < 2 ^ 16" using assms by (intro power_strict_increasing) simp_all
    moreover have "(2 ^ k :: 16 word) = of_nat (2 ^ k)" by simp
    ultimately show ?thesis by (simp only: unat_of_nat) simp
  qed
  then have "w < 2 ^ k \<longleftrightarrow> unat w < 2 ^ k" by (simp only: word_less_nat_alt)
  also have "\<dots> \<longleftrightarrow> take_bit k (unat w) = unat w" by (simp add: take_bit_nat_eq_self_iff)
  also have "\<dots> \<longleftrightarrow> (\<forall>n. k \<le> n \<longrightarrow> \<not> bit w n)"
    by (simp add: bit_eq_iff [of "take_bit k (unat w)"] bit_take_bit_iff bit_unsigned_iff)
       (meson not_less)
  finally show ?thesis .
qed

lemma bits16: "w = v \<longleftrightarrow> (\<forall>n < 16. bit w n = bit v n)" for w v :: "16 word"
  by (auto simp: bit_eq_iff dest: bit_imp_le_length)

lemmas small16 = word_less_pow [of 7, simplified] word_less_pow [of 11, simplified]

lemma utf8_unit16:
  "utf8_unit u =
     (if u < 128 then [u]
      else if u < 2048 then [drop_bit 6 u OR 192, (u AND 63) OR 128]
      else [drop_bit 12 u OR 224, (drop_bit 6 u AND 63) OR 128, (u AND 63) OR 128])"
proof -
  have lt: "(ucast u :: 32 word) < 128 \<longleftrightarrow> u < 128" "(ucast u :: 32 word) < 2048 \<longleftrightarrow> u < 2048"
    "127 < (ucast u :: 32 word) \<longleftrightarrow> \<not> u < 128"
    using unsigned_less [of u, where ?'a = nat]
    by (simp_all add: word_less_nat_alt unsigned_ucast_eq take_bit_nat_eq_self) auto
  show ?thesis
    by (auto simp: utf8_unit_def Let_def lt from_code_def bits16 bit_simps not_less)
qed


lemma mask16: "w AND 63 = take_bit 6 w" "w AND 31 = take_bit 5 w" "w AND 15 = take_bit 4 w" for w :: "16 word"
  by (simp_all add: take_bit_eq_mask mask_eq_exp_minus_1)

lemma strip_marks:
  fixes w :: "16 word"
  shows "(w OR 192) AND 31 = w AND 31" "(w OR 128) AND 63 = w AND 63" "(w OR 224) AND 15 = w AND 15"
  by (simp_all add: bit.conj_disj_distrib2)

lemma payload:
  fixes w :: "16 word"
  shows "(w OR 192) AND 31 = take_bit 5 w" "(w AND 63 OR 128) AND 63 = take_bit 6 w"
    "(w OR 224) AND 15 = take_bit 4 w"
  unfolding strip_marks by (simp_all add: mask16)

lemma utf8_dec_unit: "utf8_dec (utf8_unit u @ r) = map_option ((#) u) (utf8_dec r)"
proof -
  consider "u < 128" | "\<not> u < 128" "u < 2048" | "\<not> u < 2048" by blast
  then show ?thesis
  proof cases
    case 1 then show ?thesis by (simp add: utf8_unit16)
  next
    case 2
    let ?b = "drop_bit 6 u OR 192" and ?c = "(u AND 63) OR 128"
    have z: "\<not> bit u n" if "11 \<le> n" for n using 2(2) that by (simp add: small16)
    have "\<not> ?b < 128" by (simp add: small16 bit_simps) (intro exI [of _ 7]; simp)
    moreover have "drop_bit 6 u AND 224 = 0"
    proof (rule bit_word_eqI)
      fix n assume "n < LENGTH(16)"
      show "bit (drop_bit 6 u AND 224) n = bit 0 n"
        using z [of "6 + n"] by (cases "n < 5") (auto simp: bit_simps less_Suc_eq numeral_eq_Suc)
    qed
    then have "?b AND 0xE0 = 0xC0" by (simp add: bit.conj_disj_distrib2)
    moreover have "push_bit 6 (?b AND 0x1F) OR (?c AND 0x3F) = u"
      unfolding payload
    proof (rule bit_word_eqI)
      fix n assume "n < LENGTH(16)"
      moreover have "bit u n \<Longrightarrow> n < 11" using z [of n] by (meson not_less)
      ultimately show "bit (push_bit 6 (take_bit 5 (drop_bit 6 u)) OR take_bit 6 u) n = bit u n"
        by (auto simp: bit_simps)
    qed
    ultimately show ?thesis using 2 by (simp add: utf8_unit16)
  next
    case 3
    let ?b = "drop_bit 12 u OR 224" and ?c = "(drop_bit 6 u AND 63) OR 128" and ?d = "(u AND 63) OR 128"
    have "\<not> ?b < 128" by (simp add: small16 bit_simps) (intro exI [of _ 7]; simp)
    moreover have "drop_bit 12 u AND 240 = 0" 
    proof (rule bit_word_eqI)
      fix n assume "n < LENGTH(16)"
      have "\<not> bit u (12 + n)" if "4 \<le> n" using that by (auto dest: bit_imp_le_length)
      then show "bit (drop_bit 12 u AND 240) n = bit 0 n"
        by (cases "n < 4") (auto simp: bit_simps less_Suc_eq numeral_eq_Suc)
    qed
    then have "?b AND 0xF0 = 0xE0" by (simp add: bit.conj_disj_distrib2)
    moreover have "?b AND 0xE0 \<noteq> 0xC0"
    proof -
      have "bit (?b AND 0xE0) 5" "\<not> bit (0xC0 :: 16 word) 5" by (simp_all add: bit_simps)
      then show ?thesis by metis
    qed
    moreover have "push_bit 12 (?b AND 0x0F) OR push_bit 6 (?c AND 0x3F) OR (?d AND 0x3F) = u"
      unfolding payload
    proof (rule bit_word_eqI)
      fix n assume "n < LENGTH(16)"
      then show "bit (push_bit 12 (take_bit 4 (drop_bit 12 u)) OR push_bit 6 (take_bit 6 (drop_bit 6 u)) OR take_bit 6 u) n = bit u n"
        by (cases "12 \<le> n") (auto simp: bit_simps)
    qed
    moreover have "\<not> u < 128" using 3 less_trans [of u 128 2048] by auto
    ultimately show ?thesis using 3 by (simp add: utf8_unit16)
  qed
qed

lemma utf8_dec_concat: "utf8_dec (concat (map utf8_unit s)) = Some s"
  by (induction s) (simp_all add: utf8_dec_unit)

lemma utf8_dec_encode: "utf8_dec (uTF8Encode s) = Some (crlf_to_lf s)"
  by (simp add: uTF8Encode_def utf8_dec_concat)

lemma uTF8Encode_eq_iff: "uTF8Encode s = uTF8Encode t \<longleftrightarrow> crlf_to_lf s = crlf_to_lf t"
  by (metis utf8_dec_encode option.inject uTF8Encode_def)

lemma utf8_unit_byte:
  assumes "b \<in> set (utf8_unit u)"
  shows "b < 256"
proof -
  have hi: "\<not> bit (drop_bit 12 u) n" if "8 \<le> n" for n
    using that by (auto simp: bit_simps dest: bit_imp_le_length)
  have small: "\<not> bit (drop_bit 6 u) n" if "u < 2048" "8 \<le> n" for n
    using that by (auto simp: bit_simps small16)
  have const: "\<not> bit (192 :: 16 word) n" "\<not> bit (128 :: 16 word) n" "\<not> bit (224 :: 16 word) n" "\<not> bit (63 :: 16 word) n"
    if "8 \<le> n" for n
    using that word_less_pow [of 8 "192 :: 16 word"] word_less_pow [of 8 "128 :: 16 word"]
      word_less_pow [of 8 "224 :: 16 word"] word_less_pow [of 8 "63 :: 16 word"] by auto
  have "\<forall>n. 8 \<le> n \<longrightarrow> \<not> bit b n"
    using assms hi small const
    by (auto simp: utf8_unit16 bit_or_iff bit_and_iff small16 split: if_splits)
  then show ?thesis using word_less_pow [of 8 b] by simp
qed

lemma or_is_plus: "x < 2 ^ k \<Longrightarrow> int x OR push_bit k y = int x + y * 2 ^ k"
  using concat_bit_eq [of k "int x" y] concat_bit_def [of k "int x" y]
  by (simp add: take_bit_int_eq_self push_bit_eq_mult)

lemma unat_or_top:
  fixes w :: "16 word"
  assumes "unat w < 2 ^ k" "int (unat v) = push_bit k y" "y \<ge> 0"
  shows "unat (w OR v) = unat w + unat v"
proof -
  have "int (unat (w OR v)) = int (unat w) OR push_bit k y"
    by (simp only: unsigned_or_eq of_nat_or_eq assms(2))
  also have "\<dots> = int (unat w) + int (unat v)"
    using or_is_plus [OF assms(1), of y] assms(2) by (simp add: push_bit_eq_mult)
  finally show ?thesis by linarith
qed

lemma unat_or:
  "unat w < 64 \<Longrightarrow> unat (w OR 192) = unat w + 192" "unat w < 32 \<Longrightarrow> unat (w OR 224) = unat w + 224"
  "unat w < 64 \<Longrightarrow> unat (w OR 128) = unat w + 128"
  for w :: "16 word"
  using unat_or_top [of w 6 192 3] unat_or_top [of w 5 224 7] unat_or_top [of w 7 128 1] by (simp_all add: push_bit_eq_mult)

lemma unat_parts:
  "unat (drop_bit k w) = unat w div 2 ^ k" "unat (w AND 63) = unat w mod 64" for w :: "16 word"
proof -
  show "unat (drop_bit k w) = unat w div 2 ^ k" by (simp only: unat_drop_bit_eq) (simp only: drop_bit_eq_div)
  have "unat (w AND 63) = unat w mod 2 ^ 6" by (simp only: mask16 unsigned_take_bit_eq) (simp only: take_bit_eq_mod)
  then show "unat (w AND 63) = unat w mod 64" by simp
qed

text \<open>The UTF-8 bytes of a code point (RFC 3629).\<close>

definition rfc3629 :: "nat \<Rightarrow> nat list" where
  "rfc3629 c =
     (if c < 0x80 then [c]
      else if c < 0x800 then [0xC0 + c div 64, 0x80 + c mod 64]
      else if c < 0x10000 then [0xE0 + c div 4096, 0x80 + c div 64 mod 64, 0x80 + c mod 64]
      else [0xF0 + c div 262144, 0x80 + c div 4096 mod 64, 0x80 + c div 64 mod 64, 0x80 + c mod 64])"

lemma utf8_unit_rfc: "map unat (utf8_unit u) = rfc3629 (unat u)"
proof -
  have lt: "u < 128 \<longleftrightarrow> unat u < 128" "u < 2048 \<longleftrightarrow> unat u < 2048"
    by (simp_all add: word_less_nat_alt)
  have u: "unat u < 65536"
    using unsigned_less [of u, where ?'a = nat] by simp
  have "unat (drop_bit 6 u OR 192) = unat u div 64 + 192" if "unat u < 2048"
    using that unat_or(1) [of "drop_bit 6 u"] unat_parts(1) [of 6 u] by simp
  moreover have "unat (drop_bit 12 u OR 224) = unat u div 4096 + 224"
    using u unat_or(2) [of "drop_bit 12 u"] unat_parts(1) [of 12 u] by simp
  moreover have "unat ((w AND 63) OR 128) = unat w mod 64 + 128" for w :: "16 word"
    using unat_or(3) [of "w AND 63"] unat_parts(2) [of w] by simp
  ultimately show ?thesis
    using u unat_parts(1) [of 6 u] by (simp add: utf8_unit16 rfc3629_def lt)
qed

text \<open>A text of characters of the Basic Multilingual Plane, so without surrogates, and without CR LF.\<close>

definition plain_text :: "jstr \<Rightarrow> bool" where
  "plain_text s \<longleftrightarrow> crlf_to_lf s = s \<and> list_all (\<lambda>u. unat u < 0xD800 \<or> 0xE000 \<le> unat u) s"

lemma units_utf8:
  assumes "plain_text s"
  shows "units (uTF8Encode s) = map of_nat (concat (map (rfc3629 \<circ> unat) s))"
proof -
  have "units t = map of_nat (map unat t)" for t :: jstr
    by (simp add: units_def comp_def)
  moreover have "map unat (uTF8Encode s) = concat (map (rfc3629 \<circ> unat) s)"
    using assms by (simp add: plain_text_def uTF8Encode_def map_concat comp_def utf8_unit_rfc)
  ultimately show ?thesis
    by metis
qed

lemma crlf_id: "13 \<notin> set s \<Longrightarrow> crlf_to_lf s = s"
  by (induction s rule: crlf_to_lf.induct) auto

text \<open>Outside the Basic Multilingual Plane\<close>
lemma surrogate_pair:
  assumes "0xD800 \<le> hi" "hi < 0xDC00" "0xDC00 \<le> lo" "lo < 0xE000"
  shows "length (uTF8Encode [hi, lo]) = 6 \<and> hd (uTF8Encode [hi, lo]) = 0xED"
proof -
  have n: "55296 \<le> unat hi" "unat hi < 56320" "56320 \<le> unat lo"
    using assms by (simp_all add: word_le_nat_alt word_less_nat_alt)
  then have big: "\<not> hi < 128" "\<not> hi < 2048" "\<not> lo < 128" "\<not> lo < 2048" "hi \<noteq> 13"
    by (auto simp: word_less_nat_alt word_unat_eq_iff)
  have "unat (drop_bit 12 hi) = 13"
    using n by (simp only: unat_drop_bit_eq) (simp add: drop_bit_eq_div)
  then have "drop_bit 12 hi = 13" by (simp add: word_unat_eq_iff)
  with big show ?thesis by (simp add: uTF8Encode_def utf8_unit16)
qed


subsection \<open>Properties\<close>

text \<open>
  C1. \<open>$.md5\<close> computes the MD5 digest of RFC 1321, printed in lower-case hexadecimal, of the bytes that its own encoder
  \<open>uTF8Encode\<close> makes of its argument, for every string for which these are fewer than 2 ^ 32.  For a string of characters
  of the Basic Multilingual Plane without CR LF they are the UTF-8 bytes of RFC 3629; for others they are not
  (\<open>surrogates_not_utf8\<close>; CR LF is made LF).
\<close>

theorem md5_is_rfc1321:
  assumes "length (uTF8Encode s) < 2 ^ 32"
  shows "md5 s = rfc_print (rfc_digest (units (uTF8Encode s))) \<and>
    (plain_text s \<longrightarrow> md5 s = rfc_print (rfc_digest (map of_nat (concat (map (rfc3629 \<circ> unat) s)))))"
  using md5_rfc [OF assms] units_utf8 by auto

lemma md5_is_rfc1321_witness:
  "md5 (jstr_of ''abc'') = rfc_print (rfc_digest [0x61, 0x62, 0x63]) \<and>
   md5 [0x4E2D] = rfc_print (rfc_digest [0xE4, 0xB8, 0xAD])"
proof -
  have u: "uTF8Encode (jstr_of ''abc'') = [0x61, 0x62, 0x63]"
    by (simp add: jstr_of_def uTF8Encode_def utf8_unit16)
  have b: "units [0x61, 0x62, 0x63] = [0x61, 0x62, 0x63]" by (simp add: units_def)
  have "length (uTF8Encode [0x4E2D]) < 2 ^ 32" "plain_text [0x4E2D]"
    by (simp_all add: uTF8Encode_def utf8_unit_def Let_def plain_text_def)
  then show ?thesis
    using conjunct1 [OF md5_is_rfc1321 [of "jstr_of ''abc''"]] conjunct2 [OF md5_is_rfc1321 [of "[0x4E2D]"]]
    by (simp add: u b rfc3629_def)
qed

text \<open>
  \<open>addUnsigned\<close>, which adds two 32-bit numbers through their four top bits, is addition
  modulo 2 ^ 32 for every pair of operands.
\<close>

theorem addUnsigned_is_addition: "unat (addUnsigned x y) = (unat x + unat y) mod 2 ^ 32"
  by (simp add: unat_word_ariths)

text \<open>
  C28. \<open>uTF8Encode\<close> loses nothing but the carriage returns it normalises: decoding its output gives
  back the string with every CR LF turned into LF, and two strings have the same encoding only if
  they agree up to that.
\<close>

theorem uTF8Encode_roundtrip:
  "utf8_dec (uTF8Encode s) = Some (crlf_to_lf s) \<and>
   (uTF8Encode s = uTF8Encode t \<longleftrightarrow> crlf_to_lf s = crlf_to_lf t)"
  by (simp add: utf8_dec_encode uTF8Encode_eq_iff)

text \<open>
  A character outside the Basic Multilingual Plane (a surrogate pair) is encoded as six bytes
  starting with 0xED, where UTF-8 has four starting with 0xF0 or above: the digest of such a string
  is not the MD5 of its UTF-8 text.
\<close>

theorem surrogates_not_utf8:
  assumes "0xD800 \<le> hi" "hi < 0xDC00" "0xDC00 \<le> lo" "lo < 0xE000"
  shows "length (uTF8Encode [hi, lo]) = 6 \<and> hd (uTF8Encode [hi, lo]) = 0xED"
  using assms by (rule surrogate_pair)

lemma surrogates_not_utf8_witness:
  "length (uTF8Encode [0xD83D, 0xDE00]) = 6 \<and> hd (uTF8Encode [0xD83D, 0xDE00]) = 0xED"
  using surrogates_not_utf8 [of "0xD83D" "0xDE00"] by simp

text \<open>
  C39. Whatever the password, the digest that is sent is 32 characters of the lower-case hexadecimal
  alphabet.
\<close>

theorem md5_shape: "length (md5 s) = 32 \<and> set (md5 s) \<subseteq> set hex_alphabet"
  by (simp add: length_md5 md5_alphabet)

end
