(* ===== verification/JsValue.thy ===== *)
theory JsValue
  imports Prelude Complex_Main
begin

text \<open>
  JavaScript values as the program's JSON replies and page data hold them, with the language's
  conversions: truth of a value, \<open>ToNumber\<close>, \<open>ToString\<close>, the loose equality \<open>==\<close>, the comparisons,
  \<open>parseInt\<close>, \<open>parseFloat\<close> and property access.

  Numbers are exact rationals with the two infinities and \<open>NaN\<close>; the rounding of the double format
  is not modelled.  A string is kept as the UTF-8 bytes of its text, the Chinese literals of the
  pages as the bytes of the source files; where the code counts characters or hands them to the MD5
  plugin, \<open>utf16\<close> gives the UTF-16 units that JavaScript sees (\<open>js_len\<close> is \<open>.length\<close>).
  Two objects or arrays are never equal under \<open>==\<close> (they are compared by identity, and the program
  never compares one with itself).
\<close>

datatype jnum = NaN | PInf | NInf | Fin rat

datatype jsv =
    JUndef
  | JNull
  | JBool bool
  | JNum jnum
  | JStr string
  | JArr "jsv list"
  | JObj "(string \<times> jsv) list"

definition jint :: "int \<Rightarrow> jsv" where
  "jint n = JNum (Fin (of_int n))"

subsection \<open>Text\<close>

abbreviation byte :: "char \<Rightarrow> nat" where
  "byte \<equiv> of_char"

text \<open>The UTF-16 units of a text given by its UTF-8 bytes; four bytes are a surrogate pair.\<close>

fun utf16 :: "string \<Rightarrow> 16 word list" where
  "utf16 [] = []"
| "utf16 (a # s) =
     (if byte a < 0x80 then of_nat (byte a) # utf16 s
      else if byte a < 0xE0 then
        (case s of
           b # r \<Rightarrow> of_nat ((byte a - 0xC0) * 64 + (byte b - 0x80)) # utf16 r
         | [] \<Rightarrow> [of_nat (byte a)])
      else if byte a < 0xF0 then
        (case s of
           b # c # r \<Rightarrow> of_nat ((byte a - 0xE0) * 4096 + (byte b - 0x80) * 64 + (byte c - 0x80)) # utf16 r
         | _ \<Rightarrow> [of_nat (byte a)])
      else
        (case s of
           b # c # d # r \<Rightarrow>
             (let p = (byte a - 0xF0) * 262144 + (byte b - 0x80) * 4096 + (byte c - 0x80) * 64 + (byte d - 0x80) - 0x10000
              in of_nat (0xD800 + p div 1024) # of_nat (0xDC00 + p mod 1024) # utf16 r)
         | _ \<Rightarrow> [of_nat (byte a)]))"

definition js_len :: "string \<Rightarrow> nat" where
  "js_len s = length (utf16 s)"

definition ascii :: "char \<Rightarrow> bool" where
  "ascii c \<longleftrightarrow> byte c < 128"

lemma utf16_eq_Nil [simp]: "utf16 s = [] \<longleftrightarrow> s = []"
  by (cases s) (auto split: list.splits simp: Let_def)

lemma js_len_0 [simp]: "js_len s = 0 \<longleftrightarrow> s = []" "js_len [] = 0"
  by (simp_all add: js_len_def)

lemma js_len_pos [simp]: "0 < js_len s \<longleftrightarrow> s \<noteq> []"
  by (simp add: js_len_def)

lemma utf16_ascii: "list_all ascii s \<Longrightarrow> utf16 s = map (\<lambda>c. of_nat (byte c)) s"
  by (induction s) (simp_all add: ascii_def)

lemma js_len_ascii: "list_all ascii s \<Longrightarrow> js_len s = length s"
  by (simp add: js_len_def utf16_ascii)

subsection \<open>Decimal digits\<close>

definition is_digit :: "char \<Rightarrow> bool" where
  "is_digit c \<longleftrightarrow> 48 \<le> (of_char c :: nat) \<and> (of_char c :: nat) \<le> 57"

definition digit_val :: "char \<Rightarrow> nat" where
  "digit_val c = of_char c - 48"

definition digit_chr :: "nat \<Rightarrow> char" where
  "digit_chr d = char_of (48 + d)"

fun nat_str :: "nat \<Rightarrow> string" where
  "nat_str n = (if n < 10 then [digit_chr n] else nat_str (n div 10) @ [digit_chr (n mod 10)])"

declare nat_str.simps [simp del]

definition int_str :: "int \<Rightarrow> string" where
  "int_str i = (if i < 0 then CHR ''-'' # nat_str (nat (- i)) else nat_str (nat i))"

definition dec_val :: "string \<Rightarrow> nat" where
  "dec_val s = foldl (\<lambda>a c. 10 * a + digit_val c) 0 s"

lemma digit_chr_val [simp]: "d < 10 \<Longrightarrow> digit_val (digit_chr d) = d"
  by (simp add: digit_val_def digit_chr_def)

lemma digit_chr_digit [simp]: "d < 10 \<Longrightarrow> is_digit (digit_chr d)"
  by (simp add: is_digit_def digit_chr_def)

lemma nat_str_digits: "\<forall>c \<in> set (nat_str n). is_digit c"
  by (induction n rule: nat_str.induct) (subst nat_str.simps, auto)

lemma dec_val_snoc: "dec_val (s @ [c]) = 10 * dec_val s + digit_val c"
  by (simp add: dec_val_def)

lemma dec_val_nat_str [simp]: "dec_val (nat_str n) = n"
proof (induction n rule: nat_str.induct)
  case (1 n)
  show ?case
  proof (cases "n < 10")
    case True
    then show ?thesis by (subst nat_str.simps) (simp add: dec_val_def)
  next
    case False
    with 1 show ?thesis by (subst nat_str.simps) (simp add: dec_val_snoc)
  qed
qed

lemma nat_str_not_Nil [simp]: "nat_str n \<noteq> []"
  by (subst nat_str.simps) simp

lemma nat_str_inj: "nat_str m = nat_str n \<longleftrightarrow> m = n"
  by (metis dec_val_nat_str)

subsection \<open>Numbers from strings\<close>

definition is_space :: "char \<Rightarrow> bool" where
  "is_space c \<longleftrightarrow> (of_char c :: nat) \<in> {9, 10, 11, 12, 13, 32}"

definition js_trim :: "string \<Rightarrow> string" where
  "js_trim s = rev (dropWhile is_space (rev (dropWhile is_space s)))"

definition is_hex :: "char \<Rightarrow> bool" where
  "is_hex c \<longleftrightarrow> is_digit c \<or> (of_char c :: nat) \<in> {65..70} \<or> (of_char c :: nat) \<in> {97..102}"

definition hex_val :: "char \<Rightarrow> nat" where
  "hex_val c = (let n = (of_char c :: nat) in if n < 58 then n - 48 else if n < 71 then n - 55 else n - 87)"

definition hexs_val :: "string \<Rightarrow> nat" where
  "hexs_val s = foldl (\<lambda>a c. 16 * a + hex_val c) 0 s"

text \<open>A sign in front of a numeral: the factor and the rest.\<close>

fun take_sign :: "string \<Rightarrow> rat \<times> string" where
  "take_sign [] = (1, [])"
| "take_sign (c # s) = (if c = CHR ''-'' then (-1, s) else if c = CHR ''+'' then (1, s) else (1, c # s))"

definition scale10 :: "rat \<Rightarrow> int \<Rightarrow> rat" where
  "scale10 q e = (if 0 \<le> e then q * 10 ^ nat e else q / 10 ^ nat (- e))"

text \<open>The longest exponent part at the front of a string, its value and the rest.\<close>

definition take_exp :: "string \<Rightarrow> int \<times> string" where
  "take_exp s = (case s of
       [] \<Rightarrow> (0, [])
     | c # t \<Rightarrow>
         (if c = CHR ''e'' \<or> c = CHR ''E'' then
            (let (neg, u) = (case t of [] \<Rightarrow> (False, [])
                             | d # u \<Rightarrow> if d = CHR ''-'' then (True, u)
                                        else if d = CHR ''+'' then (False, u) else (False, t));
                 ds = takeWhile is_digit u
             in if ds = [] then (0, s)
                else ((if neg then - int (dec_val ds) else int (dec_val ds)), dropWhile is_digit u))
          else (0, s)))"

text \<open>The longest unsigned decimal literal at the front of a string.\<close>

definition take_decimal :: "string \<Rightarrow> (rat \<times> string) option" where
  "take_decimal s =
     (let ip = takeWhile is_digit s; r1 = dropWhile is_digit s;
          (fp, r2) = (case r1 of [] \<Rightarrow> ([], [])
                      | c # t \<Rightarrow> if c = CHR ''.'' then (takeWhile is_digit t, dropWhile is_digit t) else ([], r1))
      in if ip = [] \<and> fp = [] then None
         else (let (e, r3) = take_exp r2
               in Some (scale10 (of_nat (dec_val (ip @ fp))) (e - int (length fp)), r3)))"

text \<open>\<open>ToNumber\<close> of a string: a whole literal, or \<open>NaN\<close>; the empty string is 0.\<close>

definition str_to_num :: "string \<Rightarrow> jnum" where
  "str_to_num s0 =
     (let s = js_trim s0
      in if s = [] then Fin 0
         else if take 2 s \<in> {''0x'', ''0X''} then
           (if length s > 2 \<and> list_all is_hex (drop 2 s) then Fin (of_nat (hexs_val (drop 2 s))) else NaN)
         else (let (sg, t) = take_sign s
               in if t = ''Infinity'' then (if sg < 0 then NInf else PInf)
                  else (case take_decimal t of
                          Some (q, []) \<Rightarrow> Fin (sg * q)
                        | _ \<Rightarrow> NaN)))"

text \<open>\<open>parseFloat\<close>: the longest literal in front.\<close>

definition parseFloat :: "string \<Rightarrow> jnum" where
  "parseFloat s0 =
     (let (sg, t) = take_sign (dropWhile is_space s0)
      in if take 8 t = ''Infinity'' then (if sg < 0 then NInf else PInf)
         else (case take_decimal t of Some (q, _) \<Rightarrow> Fin (sg * q) | None \<Rightarrow> NaN))"

text \<open>\<open>parseInt\<close> without a radix: decimal digits in front, or hexadecimal ones after \<open>0x\<close>.\<close>

definition parseInt :: "string \<Rightarrow> jnum" where
  "parseInt s0 =
     (let (sg, t) = take_sign (dropWhile is_space s0)
      in if take 2 t \<in> {''0x'', ''0X''} then
           (let ds = takeWhile is_hex (drop 2 t)
            in if ds = [] then NaN else Fin (sg * of_nat (hexs_val ds)))
         else (let ds = takeWhile is_digit t
               in if ds = [] then NaN else Fin (sg * of_nat (dec_val ds))))"

subsection \<open>Strings from numbers\<close>

text \<open>At most \<open>n\<close> decimals of a fraction below 1, stopping where the expansion ends.\<close>

fun frac_digits :: "nat \<Rightarrow> rat \<Rightarrow> string" where
  "frac_digits 0 q = []"
| "frac_digits (Suc n) q =
     (if q = 0 then [] else digit_chr (nat \<lfloor>10 * q\<rfloor>) # frac_digits n (10 * q - of_int \<lfloor>10 * q\<rfloor>))"

text \<open>
  \<open>ToString\<close> of a finite number, exact for the numbers with at most 17 decimals from \<open>10^-6\<close> up to
  \<open>10^21\<close> and their negatives, and for 0 (the coordinates and amounts of the program have at most 14 decimals).
\<close>

definition rat_str :: "rat \<Rightarrow> string" where
  "rat_str q =
     (let a = \<bar>q\<bar>; i = \<lfloor>a\<rfloor>; fr = frac_digits 17 (a - of_int i)
      in (if q < 0 then ''-'' else '''') @ nat_str (nat i) @ (if fr = [] then '''' else CHR ''.'' # fr))"

fun num_str :: "jnum \<Rightarrow> string" where
  "num_str NaN = ''NaN''"
| "num_str PInf = ''Infinity''"
| "num_str NInf = ''-Infinity''"
| "num_str (Fin q) = rat_str q"

lemma rat_str_int [simp]: "rat_str (of_int i) = int_str i"
  by (auto simp: rat_str_def int_str_def Let_def numeral_eq_Suc simp flip: of_int_minus of_int_abs)

lemma rat_str_nat [simp]: "rat_str (of_nat n) = nat_str n"
  using rat_str_int [of "int n"] by (simp add: int_str_def)

fun join :: "string \<Rightarrow> string list \<Rightarrow> string" where
  "join sep [] = []"
| "join sep [x] = x"
| "join sep (x # xs) = x @ sep @ join sep xs"

text \<open>\<open>s.split(c)\<close> for a one-character separator: one piece more than there are separators.\<close>

fun split_on :: "char \<Rightarrow> string \<Rightarrow> string list" where
  "split_on c [] = [[]]"
| "split_on c (x # xs) =
     (if x = c then [] # split_on c xs
      else (case split_on c xs of y # ys \<Rightarrow> (x # y) # ys | [] \<Rightarrow> [[x]]))"

lemma split_on_plain: "c \<notin> set s \<Longrightarrow> split_on c s = [s]"
  by (induction s) auto

lemma split_on_sep: "c \<notin> set s \<Longrightarrow> split_on c (s @ c # r) = s # split_on c r"
  by (induction s) auto

fun to_str :: "jsv \<Rightarrow> string" where
  "to_str JUndef = ''undefined''"
| "to_str JNull = ''null''"
| "to_str (JBool b) = (if b then ''true'' else ''false'')"
| "to_str (JNum n) = num_str n"
| "to_str (JStr s) = s"
| "to_str (JArr vs) = join '','' (map (\<lambda>v. if v = JUndef \<or> v = JNull then '''' else to_str v) vs)"
| "to_str (JObj _) = ''[object Object]''"

subsection \<open>Conversions and comparisons\<close>

fun to_num :: "jsv \<Rightarrow> jnum" where
  "to_num JUndef = NaN"
| "to_num JNull = Fin 0"
| "to_num (JBool b) = Fin (if b then 1 else 0)"
| "to_num (JNum n) = n"
| "to_num (JStr s) = str_to_num s"
| "to_num v = str_to_num (to_str v)"

fun truthy :: "jsv \<Rightarrow> bool" where
  "truthy JUndef = False"
| "truthy JNull = False"
| "truthy (JBool b) = b"
| "truthy (JNum n) = (n \<noteq> NaN \<and> n \<noteq> Fin 0)"
| "truthy (JStr s) = (s \<noteq> [])"
| "truthy _ = True"

fun num_eq :: "jnum \<Rightarrow> jnum \<Rightarrow> bool" where
  "num_eq NaN _ = False"
| "num_eq _ NaN = False"
| "num_eq a b = (a = b)"

fun num_lt :: "jnum \<Rightarrow> jnum \<Rightarrow> bool" where
  "num_lt NaN _ = False"
| "num_lt _ NaN = False"
| "num_lt (Fin a) (Fin b) = (a < b)"
| "num_lt NInf b = (b \<noteq> NInf)"
| "num_lt PInf _ = False"
| "num_lt (Fin _) b = (b = PInf)"

fun is_prim :: "jsv \<Rightarrow> bool" where
  "is_prim (JArr _) = False"
| "is_prim (JObj _) = False"
| "is_prim _ = True"

text \<open>\<open>v == w\<close>\<close>

fun loose_eq :: "jsv \<Rightarrow> jsv \<Rightarrow> bool" where
  "loose_eq JUndef w = (w = JUndef \<or> w = JNull)"
| "loose_eq JNull w = (w = JUndef \<or> w = JNull)"
| "loose_eq v JUndef = False"
| "loose_eq v JNull = False"
| "loose_eq (JStr s) (JStr t) = (s = t)"
| "loose_eq v w =
     (if \<not> is_prim v \<and> \<not> is_prim w then False
      else if is_prim v \<and> is_prim w then num_eq (to_num v) (to_num w)
      else (case (if is_prim v then v else w) of
              JStr s \<Rightarrow> s = to_str (if is_prim v then w else v)
            | p \<Rightarrow> num_eq (to_num p) (str_to_num (to_str (if is_prim v then w else v)))))"

text \<open>\<open>v < w\<close>: two strings are compared as strings, everything else as numbers.\<close>

fun str_lt :: "string \<Rightarrow> string \<Rightarrow> bool" where
  "str_lt _ [] = False"
| "str_lt [] (_ # _) = True"
| "str_lt (a # s) (b # t) =
     ((of_char a :: nat) < of_char b \<or> (a = b \<and> str_lt s t))"

definition js_lt :: "jsv \<Rightarrow> jsv \<Rightarrow> bool" where
  "js_lt v w = (case (if is_prim v then v else JStr (to_str v), if is_prim w then w else JStr (to_str w)) of
       (JStr s, JStr t) \<Rightarrow> str_lt s t
     | (a, b) \<Rightarrow> num_lt (to_num a) (to_num b))"

text \<open>\<open>v < n\<close> and \<open>v > n\<close> for an integer literal \<open>n\<close>.\<close>

definition lt_int :: "jsv \<Rightarrow> int \<Rightarrow> bool" where
  "lt_int v n = num_lt (to_num v) (Fin (of_int n))"

definition gt_int :: "jsv \<Rightarrow> int \<Rightarrow> bool" where
  "gt_int v n = num_lt (Fin (of_int n)) (to_num v)"

subsection \<open>Properties of objects\<close>

text \<open>Reading a property: \<open>undefined\<close> and \<open>null\<close> throw, a missing property is \<open>undefined\<close>.\<close>

fun js_get :: "jsv \<Rightarrow> string \<Rightarrow> js_error + jsv" where
  "js_get JUndef _ = Inl TypeError"
| "js_get JNull _ = Inl TypeError"
| "js_get (JObj ps) k = Inr (case map_of ps k of Some v \<Rightarrow> v | None \<Rightarrow> JUndef)"
| "js_get (JArr vs) k =
     (if k = ''length'' then Inr (jint (int (length vs)))
      else case parseInt k of
             Fin q \<Rightarrow> (let i = nat \<lfloor>q\<rfloor> in
                Inr (if k = nat_str i \<and> i < length vs then vs ! i else JUndef))
           | _ \<Rightarrow> Inr JUndef)"
| "js_get _ _ = Inr JUndef"

text \<open>What follows an expression that may throw.\<close>

definition bind_sum :: "'e + 'a \<Rightarrow> ('a \<Rightarrow> 'e + 'b) \<Rightarrow> 'e + 'b" where
  "bind_sum r f = (case r of Inl e \<Rightarrow> Inl e | Inr a \<Rightarrow> f a)"

lemma bind_sum_simps [simp]: "bind_sum (Inl e) f = Inl e" "bind_sum (Inr a) f = f a"
  by (simp_all add: bind_sum_def)

text \<open>A property of a value that is known to be an object: what the callbacks read off their data.\<close>

definition fld :: "jsv \<Rightarrow> string \<Rightarrow> jsv" where
  "fld v k = (case js_get v k of Inr w \<Rightarrow> w | Inl _ \<Rightarrow> JUndef)"

definition is_one :: "jsv \<Rightarrow> bool" where
  "is_one v = loose_eq v (jint 1)"

lemmas [js_defs] = jint_def is_one_def fld_def lt_int_def gt_int_def js_lt_def

lemma fld_JObj [simp]: "fld (JObj ps) k = (case map_of ps k of Some v \<Rightarrow> v | None \<Rightarrow> JUndef)"
  by (simp add: fld_def)

lemma num_eq_Fin [simp]: "num_eq (Fin a) (Fin b) \<longleftrightarrow> a = b"
  by simp

lemma truthy_jint [simp]: "truthy (jint n) \<longleftrightarrow> n \<noteq> 0"
  by (simp add: jint_def)

lemma is_one_values [simp]:
  "is_one (jint 1)" "\<not> is_one (jint 0)" "\<not> is_one JUndef" "\<not> is_one JNull"
  by (simp_all add: is_one_def jint_def)

lemma is_one_str_1 [simp]: "is_one (JStr ''1'')"
  by (simp add: is_one_def jint_def str_to_num_def Let_def js_trim_def is_space_def take_decimal_def
      take_exp_def is_digit_def scale10_def dec_val_def digit_val_def)

lemma lt_int_jint [simp]: "lt_int (jint a) b \<longleftrightarrow> a < b"
  by (simp add: lt_int_def jint_def)

lemma gt_int_jint [simp]: "gt_int (jint a) b \<longleftrightarrow> b < a"
  by (simp add: gt_int_def jint_def)

subsection \<open>Reading back printed numbers\<close>

lemma is_digit_not_space: "is_digit c \<Longrightarrow> \<not> is_space c"
  by (auto simp: is_digit_def is_space_def)

lemma nat_str_head: "\<exists>c u. nat_str n = c # u \<and> is_digit c \<and> list_all is_digit u"
  using nat_str_digits [of n] by (cases "nat_str n") (auto simp: list_all_iff)

lemma parseInt_nat_str [simp]: "parseInt (nat_str n) = Fin (of_nat n)"
proof -
  obtain c u where cu: "nat_str n = c # u" "is_digit c" "list_all is_digit u"
    using nat_str_head by blast
  have neq: "c \<noteq> CHR ''-''" "c \<noteq> CHR ''+''" using cu(2) by (auto simp: is_digit_def)
  have nx: "take 2 (c # u) \<notin> {''0x'', ''0X''}"
    using cu(3) by (cases u) (auto simp: is_digit_def)
  have tw: "takeWhile is_digit (c # u) = c # u"
    using cu by (simp add: list_all_iff takeWhile_eq_all_conv)
  have dw: "dropWhile is_space (c # u) = c # u" using cu(2) by (simp add: is_digit_not_space)
  have "dec_val (c # u) = n" using cu(1) dec_val_nat_str by metis
  moreover have "take_sign (c # u) = (1, c # u)" using neq by simp
  ultimately show ?thesis
    unfolding parseInt_def cu(1) dw
    by (simp only: prod.case Let_def nx if_False tw list.distinct mult_1)
qed

lemma parseInt_int_str [simp]: "parseInt (int_str n) = Fin (of_int n)"
proof (cases "n < 0")
  case True
  have np: "dec_val (nat_str (nat (- n))) = nat (- n)" by simp
  obtain c u where cu: "nat_str (nat (- n)) = c # u" "is_digit c" "list_all is_digit u"
    using nat_str_head by blast
  have nx: "take 2 (c # u) \<notin> {''0x'', ''0X''}"
    using cu(3) by (cases u) (auto simp: is_digit_def)
  have tw: "takeWhile is_digit (c # u) = c # u"
    using cu by (simp add: list_all_iff takeWhile_eq_all_conv)
  have "int_str n = CHR ''-'' # c # u" using True cu(1) by (simp add: int_str_def)
  moreover have "dropWhile is_space (CHR ''-'' # c # u) = CHR ''-'' # c # u" by (simp add: is_space_def)
  moreover have "take_sign (CHR ''-'' # c # u) = (-1, c # u)" by simp
  ultimately have "parseInt (int_str n) = Fin (-1 * of_nat (dec_val (c # u)))"
    unfolding parseInt_def by (simp only: prod.case Let_def nx if_False tw list.distinct)
  then show ?thesis using True np by (simp add: cu(1))
qed (simp add: int_str_def)

end
