(* ===== verification/Dom.thy ===== *)
theory Dom
  imports JsValue
begin

text \<open>
  The page a script works on.  A component names the elements it looks up in its \<open>init\<close> by a
  datatype of its own (one constructor per field of \<open>o\<close>), and its page maps those names to
  elements.  An element keeps what the scripts read and write: its value, its markup, its classes,
  whether it is shown, its attributes, and the children the script appends (class and markup).
  \<open>fadeIn\<close>/\<open>fadeOut\<close> stand for the visibility they end with.  The requests a script sends, the alerts
  it raises and the exceptions it does not catch are logs, oldest first.
\<close>

record elem =
  e_val :: string
  e_html :: string
  e_cls :: "string set"
  e_shown :: bool
  e_attrs :: "string \<Rightarrow> string option"
  e_kids :: "(string \<times> string) list"

definition blank :: elem where
  "blank = \<lparr>e_val = '''', e_html = '''', e_cls = {}, e_shown = True, e_attrs = (\<lambda>_. None), e_kids = []\<rparr>"

datatype http = GET | POST | PUT

record request =
  r_method :: http
  r_url :: string
  r_params :: "(string \<times> jsv) list"

record 'i page =
  dom :: "'i \<Rightarrow> elem"
  reqs :: "request list"
  alerts :: "string list"
  thrown :: "js_error list"

definition on :: "'i \<Rightarrow> (elem \<Rightarrow> elem) \<Rightarrow> ('i, 'z) page_scheme \<Rightarrow> ('i, 'z) page_scheme" where
  "on i f s = s\<lparr>dom := (dom s)(i := f (dom s i))\<rparr>"

definition set_val :: "string \<Rightarrow> elem \<Rightarrow> elem" where
  "set_val v e = e\<lparr>e_val := v\<rparr>"

definition set_html :: "string \<Rightarrow> elem \<Rightarrow> elem" where
  "set_html v e = e\<lparr>e_html := v\<rparr>"

text \<open>\<open>e.text(v)\<close>: the markup that shows \<open>v\<close>.\<close>

definition escape_text :: "string \<Rightarrow> string" where
  "escape_text v = concat (map (\<lambda>c. if c = CHR ''&'' then ''&amp;'' else if c = CHR ''<'' then ''&lt;''
                                 else if c = CHR ''>'' then ''&gt;'' else [c]) v)"

definition set_text :: "string \<Rightarrow> elem \<Rightarrow> elem" where
  "set_text v e = e\<lparr>e_html := escape_text v, e_kids := []\<rparr>"

definition add_class :: "string \<Rightarrow> elem \<Rightarrow> elem" where
  "add_class c e = e\<lparr>e_cls := insert c (e_cls e)\<rparr>"

definition remove_class :: "string \<Rightarrow> elem \<Rightarrow> elem" where
  "remove_class c e = e\<lparr>e_cls := e_cls e - {c}\<rparr>"

definition show_el :: "elem \<Rightarrow> elem" where
  "show_el e = e\<lparr>e_shown := True\<rparr>"

definition hide_el :: "elem \<Rightarrow> elem" where
  "hide_el e = e\<lparr>e_shown := False\<rparr>"

definition set_attr :: "string \<Rightarrow> string \<Rightarrow> elem \<Rightarrow> elem" where
  "set_attr k v e = e\<lparr>e_attrs := (e_attrs e)(k := Some v)\<rparr>"

definition remove_attr :: "string \<Rightarrow> elem \<Rightarrow> elem" where
  "remove_attr k e = e\<lparr>e_attrs := (e_attrs e)(k := None)\<rparr>"

text \<open>\<open>$('.c', p).remove()\<close> and \<open>$('<span class="c">'+ m +'</span>').appendTo(p)\<close>\<close>

definition remove_kids :: "string \<Rightarrow> elem \<Rightarrow> elem" where
  "remove_kids c e = e\<lparr>e_kids := filter (\<lambda>k. fst k \<noteq> c) (e_kids e)\<rparr>"

definition append_kid :: "string \<Rightarrow> string \<Rightarrow> elem \<Rightarrow> elem" where
  "append_kid c m e = e\<lparr>e_kids := e_kids e @ [(c, m)]\<rparr>"

definition prepend_kid :: "string \<Rightarrow> string \<Rightarrow> elem \<Rightarrow> elem" where
  "prepend_kid c m e = e\<lparr>e_kids := (c, m) # e_kids e\<rparr>"

definition empty_el :: "elem \<Rightarrow> elem" where
  "empty_el e = e\<lparr>e_html := '''', e_kids := []\<rparr>"

definition send :: "http \<Rightarrow> string \<Rightarrow> (string \<times> jsv) list \<Rightarrow> ('i, 'z) page_scheme \<Rightarrow> ('i, 'z) page_scheme" where
  "send m u ps s = s\<lparr>reqs := reqs s @ [\<lparr>r_method = m, r_url = u, r_params = ps\<rparr>]\<rparr>"

definition alert :: "string \<Rightarrow> ('i, 'z) page_scheme \<Rightarrow> ('i, 'z) page_scheme" where
  "alert m s = s\<lparr>alerts := alerts s @ [m]\<rparr>"

definition raise :: "js_error \<Rightarrow> ('i, 'z) page_scheme \<Rightarrow> ('i, 'z) page_scheme" where
  "raise e s = s\<lparr>thrown := thrown s @ [e]\<rparr>"

definition throw :: "('i, 'z) page_scheme \<Rightarrow> ('i, 'z) page_scheme" where
  "throw s = raise TypeError s"

lemmas [dom_defs] = on_def set_val_def set_html_def add_class_def remove_class_def show_el_def hide_el_def
  set_attr_def remove_attr_def remove_kids_def append_kid_def prepend_kid_def empty_el_def
  send_def alert_def raise_def throw_def set_text_def

text \<open>\<open>a || b\<close> and \<open>a && b\<close> as values\<close>

definition js_or :: "jsv \<Rightarrow> jsv \<Rightarrow> jsv" where
  "js_or a b = (if truthy a then a else b)"

text \<open>\<open>alert(data.errmsg || fallback)\<close>\<close>

definition errmsg_or :: "jsv \<Rightarrow> string \<Rightarrow> string" where
  "errmsg_or data fallback = to_str (js_or (fld data ''errmsg'') (JStr fallback))"

subsection \<open>Frame lemmas\<close>

lemma e_val_ops [simp]:
  "e_val (set_val v e) = v" "e_val (set_html v e) = e_val e" "e_val (add_class c e) = e_val e"
  "e_val (remove_class c e) = e_val e" "e_val (show_el e) = e_val e" "e_val (hide_el e) = e_val e"
  "e_val (set_text v e) = e_val e" "e_val (append_kid c m e) = e_val e" "e_val (remove_kids c e) = e_val e"
  by (simp_all add: dom_defs)

lemma dom_on [simp]: "dom (on i f s) j = (if j = i then f (dom s i) else dom s j)"
  by (simp add: on_def)

lemma on_frame [simp]:
  "reqs (on i f s) = reqs s" "alerts (on i f s) = alerts s" "thrown (on i f s) = thrown s"
  "page.more (on i f s) = page.more s"
  by (simp_all add: on_def)

lemma send_frame [simp]:
  "dom (send m u ps s) = dom s" "alerts (send m u ps s) = alerts s" "thrown (send m u ps s) = thrown s"
  "reqs (send m u ps s) = reqs s @ [\<lparr>r_method = m, r_url = u, r_params = ps\<rparr>]"
  "page.more (send m u ps s) = page.more s"
  by (simp_all add: send_def)

lemma alert_frame [simp]:
  "dom (alert m s) = dom s" "reqs (alert m s) = reqs s" "thrown (alert m s) = thrown s"
  "alerts (alert m s) = alerts s @ [m]" "page.more (alert m s) = page.more s"
  by (simp_all add: alert_def)

lemma raise_frame [simp]:
  "dom (raise e s) = dom s" "reqs (raise e s) = reqs s" "alerts (raise e s) = alerts s"
  "thrown (raise e s) = thrown s @ [e]" "page.more (raise e s) = page.more s"
  by (simp_all add: raise_def)

lemma throw_frame [simp]:
  "dom (throw s) = dom s" "reqs (throw s) = reqs s" "alerts (throw s) = alerts s"
  "thrown (throw s) = thrown s @ [TypeError]" "page.more (throw s) = page.more s"
  by (simp_all add: throw_def)

end
