(* ===== verification/Regex.thy ===== *)
theory Regex
  imports Prelude
begin

text \<open>
  Regular expressions as the validators use them: \<open>/^...$/.test(s)\<close> with characters, classes,
  groups, alternatives and counted repetition.  Such a test asks whether the whole string is in the
  language of the expression; it is decided by derivatives (\<open>rx_test\<close>), and \<open>rx_test_lang\<close> says
  that this is membership.
\<close>

datatype rx =
    RNone
  | REps
  | RSet "char \<Rightarrow> bool"
  | RSeq rx rx
  | RAlt rx rx
  | RStar rx

fun lang :: "rx \<Rightarrow> string set" where
  "lang RNone = {}"
| "lang REps = {[]}"
| "lang (RSet p) = {[c] | c. p c}"
| "lang (RSeq r s) = {u @ v | u v. u \<in> lang r \<and> v \<in> lang s}"
| "lang (RAlt r s) = lang r \<union> lang s"
| "lang (RStar r) = {concat us | us. set us \<subseteq> lang r}"

fun nullable :: "rx \<Rightarrow> bool" where
  "nullable RNone = False"
| "nullable REps = True"
| "nullable (RSet p) = False"
| "nullable (RSeq r s) = (nullable r \<and> nullable s)"
| "nullable (RAlt r s) = (nullable r \<or> nullable s)"
| "nullable (RStar r) = True"

fun deriv :: "char \<Rightarrow> rx \<Rightarrow> rx" where
  "deriv c RNone = RNone"
| "deriv c REps = RNone"
| "deriv c (RSet p) = (if p c then REps else RNone)"
| "deriv c (RSeq r s) =
     (if nullable r then RAlt (RSeq (deriv c r) s) (deriv c s) else RSeq (deriv c r) s)"
| "deriv c (RAlt r s) = RAlt (deriv c r) (deriv c s)"
| "deriv c (RStar r) = RSeq (deriv c r) (RStar r)"

fun rx_test :: "rx \<Rightarrow> string \<Rightarrow> bool" where
  "rx_test r [] = nullable r"
| "rx_test r (c # s) = rx_test (deriv c r) s"

text \<open>\<open>r+\<close>, \<open>r?\<close>, \<open>r{n}\<close>, \<open>r{m,n}\<close>, a sequence, a literal character\<close>

definition rplus :: "rx \<Rightarrow> rx" where
  "rplus r = RSeq r (RStar r)"

definition ropt :: "rx \<Rightarrow> rx" where
  "ropt r = RAlt REps r"

fun rpow :: "nat \<Rightarrow> rx \<Rightarrow> rx" where
  "rpow 0 r = REps"
| "rpow (Suc n) r = RSeq r (rpow n r)"

fun rupto :: "nat \<Rightarrow> rx \<Rightarrow> rx" where
  "rupto 0 r = REps"
| "rupto (Suc n) r = RAlt REps (RSeq r (rupto n r))"

definition rrange :: "nat \<Rightarrow> nat \<Rightarrow> rx \<Rightarrow> rx" where
  "rrange m n r = RSeq (rpow m r) (rupto (n - m) r)"

fun rseq :: "rx list \<Rightarrow> rx" where
  "rseq [] = REps"
| "rseq (r # rs) = RSeq r (rseq rs)"

fun ralt :: "rx list \<Rightarrow> rx" where
  "ralt [] = RNone"
| "ralt (r # rs) = RAlt r (ralt rs)"

definition rchr :: "char \<Rightarrow> rx" where
  "rchr c = RSet (\<lambda>d. d = c)"

definition rstr :: "string \<Rightarrow> rx" where
  "rstr s = rseq (map rchr s)"

subsection \<open>The test decides membership\<close>

lemma nullable_lang: "nullable r \<longleftrightarrow> [] \<in> lang r"
  by (induction r) (auto intro: exI [of _ "[]"])

lemma deriv_lang: "v \<in> lang (deriv c r) \<longleftrightarrow> c # v \<in> lang r"
proof (induction r arbitrary: v)
  case (RSeq r s)
  show ?case
  proof
    assume "v \<in> lang (deriv c (RSeq r s))"
    then show "c # v \<in> lang (RSeq r s)"
      using RSeq by (auto simp: nullable_lang split: if_splits) (metis append_Cons)+
  next
    assume "c # v \<in> lang (RSeq r s)"
    then obtain x y where xy: "c # v = x @ y" "x \<in> lang r" "y \<in> lang s" by auto
    show "v \<in> lang (deriv c (RSeq r s))"
    proof (cases x)
      case Nil
      with xy RSeq show ?thesis by (auto simp: nullable_lang)
    next
      case (Cons a x')
      with xy have "a = c" "v = x' @ y" by auto
      with xy Cons RSeq have "x' \<in> lang (deriv c r)" by simp
      with xy \<open>v = x' @ y\<close> show ?thesis by auto
    qed
  qed
next
  case (RStar r)
  show ?case
  proof
    assume "v \<in> lang (deriv c (RStar r))"
    then obtain x us where "v = x @ concat us" "c # x \<in> lang r" "set us \<subseteq> lang r"
      using RStar by auto
    then have "c # v = concat ((c # x) # us) \<and> set ((c # x) # us) \<subseteq> lang r" by simp
    then show "c # v \<in> lang (RStar r)" by (simp only: lang.simps mem_Collect_eq) blast
  next
    assume "c # v \<in> lang (RStar r)"
    then obtain us where us: "c # v = concat us" "set us \<subseteq> lang r" by auto
    define ws where "ws = dropWhile (\<lambda>u. u = []) us"
    have cw: "concat ws = concat us"
    proof -
      have "concat (takeWhile (\<lambda>u. u = []) us) = []" by (auto dest: set_takeWhileD)
      then show ?thesis
        using concat_append [of "takeWhile (\<lambda>u. u = []) us" ws] by (simp add: ws_def)
    qed
    then have "ws \<noteq> []" using us(1) by (metis concat.simps(1) list.distinct(1))
    then obtain w rest where w: "ws = w # rest" "w \<noteq> []"
      using hd_dropWhile [of "\<lambda>u. u = []" us] by (cases ws) (auto simp: ws_def)
    have cv: "c # v = w @ concat rest" using us(1) cw w(1) by simp
    then obtain x where x: "w = c # x" "v = x @ concat rest" using w(2) by (cases w) auto
    have "set ws \<subseteq> lang r" using us(2) by (auto simp: ws_def dest: set_dropWhileD)
    with w x RStar show "v \<in> lang (deriv c (RStar r))" by auto
  qed
qed auto

theorem rx_test_lang: "rx_test r s \<longleftrightarrow> s \<in> lang r"
  by (induction s arbitrary: r) (simp_all add: nullable_lang deriv_lang)

subsection \<open>Languages of the derived forms\<close>

lemma lang_seq_set: "s \<in> lang (RSeq (RSet p) r) \<longleftrightarrow> (\<exists>c v. s = c # v \<and> p c \<and> v \<in> lang r)"
proof
  assume "\<exists>c v. s = c # v \<and> p c \<and> v \<in> lang r"
  then obtain c v where "s = [c] @ v" "[c] \<in> lang (RSet p)" "v \<in> lang r" by auto
  then show "s \<in> lang (RSeq (RSet p) r)" by (simp only: lang.simps(4) mem_Collect_eq) blast
qed auto

lemma lang_rpow_set: "s \<in> lang (rpow n (RSet p)) \<longleftrightarrow> length s = n \<and> list_all p s"
proof (induction n arbitrary: s)
  case (Suc n)
  show ?case by (cases s) (auto simp: Suc.IH lang_seq_set simp del: lang.simps(4))
qed auto

lemma lang_rupto_set: "s \<in> lang (rupto n (RSet p)) \<longleftrightarrow> length s \<le> n \<and> list_all p s"
proof (induction n arbitrary: s)
  case (Suc n)
  show ?case by (cases s) (auto simp: Suc.IH lang_seq_set simp del: lang.simps(4))
qed auto

lemma lang_star_set: "s \<in> lang (RStar (RSet p)) \<longleftrightarrow> list_all p s"
proof
  assume "s \<in> lang (RStar (RSet p))"
  then obtain us where "s = concat us" "\<forall>u \<in> set us. \<exists>c. u = [c] \<and> p c" by auto
  then show "list_all p s" by (induction us arbitrary: s) auto
next
  assume "list_all p s"
  then have "s = concat (map (\<lambda>c. [c]) s) \<and> set (map (\<lambda>c. [c]) s) \<subseteq> lang (RSet p)"
    by (auto simp: list_all_iff)
  then show "s \<in> lang (RStar (RSet p))" by (simp only: lang.simps mem_Collect_eq) blast
qed

lemma lang_plus_set: "s \<in> lang (rplus (RSet p)) \<longleftrightarrow> s \<noteq> [] \<and> list_all p s"
proof -
  have "s \<in> lang (rplus (RSet p)) \<longleftrightarrow> (\<exists>c v. s = c # v \<and> p c \<and> v \<in> lang (RStar (RSet p)))"
    by (simp add: rplus_def lang_seq_set del: lang.simps)
  then show ?thesis by (cases s) (auto simp: lang_star_set simp del: lang.simps)
qed

lemma lang_rrange_set:
  "m \<le> n \<Longrightarrow> s \<in> lang (rrange m n (RSet p)) \<longleftrightarrow> m \<le> length s \<and> length s \<le> n \<and> list_all p s"
proof -
  assume mn: "m \<le> n"
  have "s \<in> lang (rrange m n (RSet p)) \<longleftrightarrow>
      (\<exists>u v. s = u @ v \<and> (length u = m \<and> list_all p u) \<and> (length v \<le> n - m \<and> list_all p v))"
    by (auto simp: rrange_def lang_rpow_set lang_rupto_set)
  also have "\<dots> \<longleftrightarrow> m \<le> length s \<and> length s \<le> n \<and> list_all p s"
  proof
    assume "m \<le> length s \<and> length s \<le> n \<and> list_all p s"
    then have "s = take m s @ drop m s \<and> (length (take m s) = m \<and> list_all p (take m s)) \<and>
        (length (drop m s) \<le> n - m \<and> list_all p (drop m s))"
      by (auto simp: list_all_iff dest: in_set_takeD in_set_dropD)
    then show "\<exists>u v. s = u @ v \<and> (length u = m \<and> list_all p u) \<and> (length v \<le> n - m \<and> list_all p v)"
      by blast
  qed (use mn in auto)
  finally show ?thesis .
qed

lemma lang_rchr [simp]: "s \<in> lang (rchr c) \<longleftrightarrow> s = [c]"
  by (auto simp: rchr_def)

lemma lang_rstr: "s \<in> lang (rstr t) \<longleftrightarrow> s = t"
  by (induction t arbitrary: s) (auto simp: rstr_def)

end
