(* ===== verification/Validate.thy ===== *)
theory Validate
  imports Dom Regex
begin

text \<open>
  Form validation: \<open>$.fn.inputval\<close> (\<open>lib/js/jquery.mninpval.js\<close>), which every submit handler of the
  program asks before it sends anything, the blinking of a rejected field
  (\<open>lib/js/jquery.bmoon.js\<close>), and the older form validator (\<open>lib/js/jquery.formval.js\<close>).

  A field is an element; the rules that apply to it are its classes (\<open>vrequire\<close>, \<open>vint\<close>, \dots) and
  its attributes (\<open>vmax\<close>, \<open>vmin\<close>, \<open>verrmsg\<close>).
\<close>

subsection \<open>Character classes and expressions\<close>

definition is_lower :: "char \<Rightarrow> bool" where
  "is_lower c \<longleftrightarrow> 97 \<le> (of_char c :: nat) \<and> (of_char c :: nat) \<le> 122"

definition is_upper :: "char \<Rightarrow> bool" where
  "is_upper c \<longleftrightarrow> 65 \<le> (of_char c :: nat) \<and> (of_char c :: nat) \<le> 90"

definition is_alnum :: "char \<Rightarrow> bool" where
  "is_alnum c \<longleftrightarrow> is_lower c \<or> is_upper c \<or> is_digit c"

definition in_set :: "string \<Rightarrow> char \<Rightarrow> bool" where
  "in_set cs c \<longleftrightarrow> c \<in> set cs"

text \<open>
  \<open>.\<close> matches every character but a line terminator: LF, CR, U+2028 and U+2029; the bytes of the last two are E2 80 A8 and
  E2 80 A9.
\<close>

definition byte_in :: "nat set \<Rightarrow> char \<Rightarrow> bool" where
  "byte_in bs c \<longleftrightarrow> of_char c \<in> bs"

definition rx_dot :: rx where
  "rx_dot = ralt
     [RSet (\<lambda>c. \<not> byte_in {0x0A, 0x0D, 0xE2} c),
      RSeq (RSet (byte_in {0xE2})) (RSet (\<lambda>c. \<not> byte_in {0x80} c)),
      RSeq (RSet (byte_in {0xE2})) (RSeq (RSet (byte_in {0x80})) (RSet (\<lambda>c. \<not> byte_in {0xA8, 0xA9} c)))]"

definition rdigit :: rx where
  "rdigit = RSet is_digit"

(* src/lib/js/jquery.mninpval.js:56-56 inputval, vdate *)
definition rx_vdate :: rx where
  "rx_vdate = rseq
     [ralt [rdigit, RSeq (rchr CHR ''1'') (RSet (in_set ''0,1,2'')),
            RSeq (rchr CHR ''0'') (RSet (in_set ''123456789''))],
      ralt [rchr CHR ''-'', rchr CHR ''/'', rchr CHR ''.''],
      ralt [RSet (in_set ''0123456789''), RSeq (RSet (in_set ''0,1,2'')) (RSet (in_set ''0123456789'')),
            RSeq (rchr CHR ''3'') (RSet (in_set ''0,1''))],
      ralt [rchr CHR ''-'', rchr CHR ''/'', rchr CHR ''.''],
      rpow 4 rdigit]"

(* src/lib/js/jquery.mninpval.js:65-65 inputval, vemail *)
definition rx_vemail :: rx where
  "rx_vemail = rseq
     [rplus (RSet (\<lambda>c. is_alnum c \<or> in_set ''_.-+'' c)), rchr CHR ''@'',
      rplus (RSeq (rplus (RSet (\<lambda>c. is_alnum c \<or> c = CHR ''-''))) (rchr CHR ''.'')),
      rplus (rrange 2 4 (RSet is_alnum))]"

(* src/lib/js/jquery.mninpval.js:74-74 inputval, vint *)
definition rx_vint :: rx where
  "rx_vint = rrange 1 10 rdigit"

(* src/lib/js/jquery.mninpval.js:84-84 inputval, vphone *)
definition rx_vphone :: rx where
  "rx_vphone = rplus (RSet (\<lambda>c. is_digit c \<or> c = CHR ''-''))"

(* src/lib/js/jquery.mninpval.js:93-93 inputval, vname *)
definition rx_vname :: rx where
  "rx_vname = RStar (RSet (\<lambda>c. is_alnum c \<or> in_set ''.-'' c \<or> (of_char c :: nat) = 39))"

(* src/lib/js/jquery.mninpval.js:102-102 inputval, vurl *)
definition rx_vurl :: rx where
  "rx_vurl = RSeq (rstr ''http://'') (RStar rx_dot)"

(* src/lib/js/jquery.mninpval.js:111-111 inputval, vip *)
definition rx_vip :: rx where
  "rx_vip = RSeq (rpow 3 (RSeq (rrange 1 3 rdigit) (rchr CHR ''.''))) (rrange 1 3 rdigit)"

subsection \<open>The blink of a rejected field\<close>

definition toggle_class :: "string \<Rightarrow> elem \<Rightarrow> elem" where
  "toggle_class c e = (if c \<in> e_cls e then remove_class c e else add_class c e)"

text \<open>
  \<open>mblink\<close> with \<open>time > 0\<close>: the class is toggled every \<open>interval\<close> for \<open>interval*2*time\<close>, then the timer
  is cleared and, with \<open>leaveClass\<close>, the class is set.  \<open>blink_ticks n\<close> is the element after \<open>n\<close>
  toggles, \<open>mblink\<close> the element when the blink is over.
\<close>

(* src/lib/js/jquery.bmoon.js:12-16 mblink, the interval *)
definition blink_ticks :: "string \<Rightarrow> nat \<Rightarrow> elem \<Rightarrow> elem" where
  "blink_ticks c n e = (toggle_class c ^^ n) e"

(* src/lib/js/jquery.bmoon.js:10-24 mblink *)
definition mblink :: "string \<Rightarrow> bool \<Rightarrow> nat \<Rightarrow> elem \<Rightarrow> elem" where
  "mblink c leaveClass time e =
     (let e' = blink_ticks c (2 * time) e in if leaveClass then add_class c e' else e')"

subsection \<open>inputval\<close>

(* src/lib/js/jquery.mninpval.js:5-16 reportErr *)
definition reportErr :: "'i \<Rightarrow> string option \<Rightarrow> ('i, 'z) page_scheme \<Rightarrow> ('i, 'z) page_scheme" where
  "reportErr i errmsg s =
     (let s1 = (case errmsg of Some m \<Rightarrow> if m = [] then s else alert m s | None \<Rightarrow> s)
      in on i (mblink ''invalid'' True 3) (on i (remove_class ''valid'') s1))"

definition len_over :: "string \<Rightarrow> string \<Rightarrow> bool" where
  "len_over v a \<longleftrightarrow> num_lt (str_to_num a) (Fin (of_nat (js_len v)))"

definition len_under :: "string \<Rightarrow> string \<Rightarrow> bool" where
  "len_under v a \<longleftrightarrow> num_lt (Fin (of_nat (js_len v))) (str_to_num a)"

text \<open>The class rules, in the order the code tests them.\<close>

(* src/lib/js/jquery.mninpval.js:55-117 inputval, the class rules *)
definition class_rules :: "(string \<times> rx) list" where
  "class_rules =
     [(''vdate'', rx_vdate), (''vemail'', rx_vemail), (''vint'', rx_vint), (''vphone'', rx_vphone),
      (''vname'', rx_vname), (''vurl'', rx_vurl), (''vip'', rx_vip)]"

(* src/lib/js/jquery.mninpval.js:39-53 inputval, vmax and vmin *)
definition len_ok :: "elem \<Rightarrow> bool" where
  "len_ok e \<longleftrightarrow>
     \<not> (case e_attrs e ''vmax'' of Some a \<Rightarrow> len_over (e_val e) a | None \<Rightarrow> False) \<and>
     \<not> (case e_attrs e ''vmin'' of Some a \<Rightarrow> len_under (e_val e) a | None \<Rightarrow> False)"

text \<open>One turn of the \<open>each\<close> loop: whether the field passes, and the page after it.\<close>

(* src/lib/js/jquery.mninpval.js:18-122 inputval, the function given to each *)
definition check_field :: "'i \<Rightarrow> ('i, 'z) page_scheme \<Rightarrow> bool \<times> ('i, 'z) page_scheme" where
  "check_field i s =
     (let e = dom s i; msg = e_attrs e ''verrmsg''; val = e_val e;
          bad = (False, reportErr i msg s);
          good = (True, on i (add_class ''valid'') (on i (remove_class ''invalid'') s))
      in if ''vrequire'' \<in> e_cls e \<and> js_len val \<le> 0 then bad
         else if ''vrequire'' \<notin> e_cls e \<and> js_len val = 0 then good
         else if \<not> len_ok e then bad
         else if list_all (\<lambda>(c, r). c \<in> e_cls e \<longrightarrow> rx_test r val) class_rules then good
         else bad)"

(* src/lib/js/jquery.mninpval.js:2-125 inputval *)
fun inputval :: "'i list \<Rightarrow> ('i, 'z) page_scheme \<Rightarrow> bool \<times> ('i, 'z) page_scheme" where
  "inputval [] s = (True, s)"
| "inputval (i # is) s =
     (case check_field i s of (True, s') \<Rightarrow> inputval is s' | (False, s') \<Rightarrow> (False, s'))"

subsection \<open>The form validator of formval\<close>

(* src/lib/js/jquery.formval.js:54-54 validate, vphone *)
definition rx_us_phone :: rx where
  "rx_us_phone = rseq
     [ropt (rchr CHR ''(''), RSet (in_set ''23456789''), rpow 2 rdigit, RSet (in_set '' -)''),
      ropt (rchr CHR '' ''), rpow 3 rdigit, ropt (RSet (in_set ''- '')), rpow 4 rdigit]"

(* src/lib/js/jquery.formval.js:58-58 validate, vzip *)
definition rx_vzip :: rx where
  "rx_vzip = rpow 5 rdigit"

(* src/lib/js/jquery.formval.js:62-62 validate, vstate *)
definition rx_vstate :: rx where
  "rx_vstate = rpow 2 (RSet (\<lambda>c. is_lower c \<or> is_upper c))"

(* src/lib/js/jquery.formval.js:66-66 validate, vname *)
definition rx_form_name :: rx where
  "rx_form_name = RStar (RSet (\<lambda>c. is_lower c \<or> is_upper c \<or> c = CHR '' '' \<or> (of_char c :: nat) = 39))"

(* src/lib/js/jquery.formval.js:42-83 validate, the tests *)
definition form_field_ok :: "elem \<Rightarrow> bool" where
  "form_field_ok e =
     (let v = e_val e;
          over = (\<lambda>a. num_lt (parseInt a) (Fin (of_nat (js_len v))) \<or> (''is_required'' \<in> e_cls e \<and> v = []))
      in if ''vdate'' \<in> e_cls e then rx_test rx_vdate v
         else if ''vemail'' \<in> e_cls e then rx_test rx_vemail v
         else if ''vphone'' \<in> e_cls e then rx_test rx_us_phone v
         else if ''vzip'' \<in> e_cls e then rx_test rx_vzip v
         else if ''vstate'' \<in> e_cls e then rx_test rx_vstate v
         else if ''vname'' \<in> e_cls e then rx_test rx_form_name v
         else if ''vint'' \<in> e_cls e then rx_test rx_vint v
         else (case e_attrs e ''maxlen'' of
                 Some a \<Rightarrow> \<not> over a
               | None \<Rightarrow> (case e_attrs e ''minlen'' of
                   Some a \<Rightarrow> \<not> over a
                 | None \<Rightarrow> js_len v \<noteq> 0)))"

(* src/lib/js/jquery.formval.js:41-92 validate *)
definition form_validate :: "elem \<Rightarrow> elem" where
  "form_validate e =
     (if form_field_ok e then add_class ''valid'' (remove_class ''invalid'' e)
      else add_class ''invalid'' (remove_class ''valid'' e))"

text \<open>\<open>validateForm\<close>: validates the required inputs and asks whether one of them is marked.\<close>

(* src/lib/js/jquery.formval.js:32-39 validateForm *)
definition validateForm :: "'i list \<Rightarrow> ('i, 'z) page_scheme \<Rightarrow> bool \<times> ('i, 'z) page_scheme" where
  "validateForm inputs s =
     (let required = filter (\<lambda>i. ''is_required'' \<in> e_cls (dom s i)) inputs;
          s' = fold (\<lambda>i. on i form_validate) required s
      in (\<not> list_ex (\<lambda>i. ''invalid'' \<in> e_cls (dom s' i))
             (filter (\<lambda>i. ''is_required'' \<in> e_cls (dom s' i)) inputs), s'))"

subsection \<open>What the expressions accept\<close>

lemma vint_iff: "rx_test rx_vint s \<longleftrightarrow> 1 \<le> length s \<and> length s \<le> 10 \<and> list_all is_digit s"
  by (simp add: rx_test_lang rx_vint_def rdigit_def lang_rrange_set)

lemma vphone_iff: "rx_test rx_vphone s \<longleftrightarrow> s \<noteq> [] \<and> list_all (\<lambda>c. is_digit c \<or> c = CHR ''-'') s"
  by (simp add: rx_test_lang rx_vphone_def lang_plus_set)

definition line_char :: "string \<Rightarrow> bool" where
  "line_char u \<longleftrightarrow> (case u of
       [c] \<Rightarrow> \<not> byte_in {0x0A, 0x0D, 0xE2} c
     | [a, c] \<Rightarrow> byte_in {0xE2} a \<and> \<not> byte_in {0x80} c
     | [a, b, c] \<Rightarrow> byte_in {0xE2} a \<and> byte_in {0x80} b \<and> \<not> byte_in {0xA8, 0xA9} c
     | _ \<Rightarrow> False)"

lemma lang_set_then: "u \<in> lang (RSeq (RSet p) r) \<longleftrightarrow> (\<exists>c v. u = c # v \<and> p c \<and> v \<in> lang r)"
  unfolding lang.simps mem_Collect_eq by (metis append_Cons append_Nil)

lemma lang_dot: "lang rx_dot = Collect line_char"
proof (rule set_eqI)
  fix u
  show "u \<in> lang rx_dot \<longleftrightarrow> u \<in> Collect line_char"
    unfolding rx_dot_def ralt.simps lang.simps(5) Un_iff lang_set_then
    by (auto simp: line_char_def split: list.splits)
qed

lemma vurl_iff: "rx_test rx_vurl s \<longleftrightarrow> (\<exists>us. s = ''http://'' @ concat us \<and> list_all line_char us)"
proof -
  have "t \<in> lang (RStar rx_dot) \<longleftrightarrow> (\<exists>us. t = concat us \<and> list_all line_char us)" for t
    by (auto simp: lang_dot list_all_iff)
  then show ?thesis by (simp add: rx_test_lang rx_vurl_def lang_rstr del: lang.simps(6)) blast
qed

lemma vzip_iff: "rx_test rx_vzip s \<longleftrightarrow> length s = 5 \<and> list_all is_digit s"
  by (simp add: rx_test_lang rx_vzip_def rdigit_def lang_rpow_set del: rpow.simps)

lemma lang_seq_iff: "s \<in> lang (RSeq q r) \<longleftrightarrow> (\<exists>u v. s = u @ v \<and> u \<in> lang q \<and> v \<in> lang r)"
  by simp

lemma lang_seq_assoc: "lang (RSeq (RSeq q r) t) = lang (RSeq q (RSeq r t))"
proof (rule set_eqI)
  fix s
  show "s \<in> lang (RSeq (RSeq q r) t) \<longleftrightarrow> s \<in> lang (RSeq q (RSeq r t))"
    unfolding lang_seq_iff by (metis append_assoc)
qed

lemma lang_seq_eps [simp]: "lang (RSeq REps r) = lang r"
  by auto

definition octet :: "string \<Rightarrow> bool" where
  "octet x \<longleftrightarrow> 1 \<le> length x \<and> length x \<le> 3 \<and> list_all is_digit x"

lemma lang_octet_dot:
  "s \<in> lang (RSeq (rrange 1 3 rdigit) (RSeq (rchr CHR ''.'') r)) \<longleftrightarrow>
     (\<exists>a t. s = a @ ''.'' @ t \<and> octet a \<and> t \<in> lang r)"
  unfolding lang_seq_iff lang_rchr rdigit_def octet_def by (simp add: lang_rrange_set) metis

lemma lang_octets_Suc:
  "s \<in> lang (RSeq (rpow (Suc n) (RSeq (rrange 1 3 rdigit) (rchr CHR ''.''))) r) \<longleftrightarrow>
     (\<exists>a t. s = a @ ''.'' @ t \<and> octet a \<and> t \<in> lang (RSeq (rpow n (RSeq (rrange 1 3 rdigit) (rchr CHR ''.''))) r))"
  by (simp only: rpow.simps lang_seq_assoc lang_octet_dot)

lemma rpow_3: "rpow 3 r = rpow (Suc (Suc (Suc 0))) r"
  by (simp only: numeral_3_eq_3)

lemma vip_iff:
  "rx_test rx_vip s \<longleftrightarrow>
     (\<exists>a b c d. s = a @ ''.'' @ b @ ''.'' @ c @ ''.'' @ d \<and> octet a \<and> octet b \<and> octet c \<and> octet d)"
proof -
  have o: "d \<in> lang (rrange 1 3 rdigit) \<longleftrightarrow> octet d" for d
    by (simp add: rdigit_def lang_rrange_set octet_def)
  have "rx_test rx_vip s \<longleftrightarrow>
      (\<exists>a t. s = a @ ''.'' @ t \<and> octet a \<and> (\<exists>b u. t = b @ ''.'' @ u \<and> octet b \<and> (\<exists>c d. u = c @ ''.'' @ d \<and> octet c \<and> octet d)))"
    unfolding rx_test_lang rx_vip_def rpow_3 lang_octets_Suc
    by (simp only: rpow.simps lang_seq_eps o)
  then show ?thesis by blast
qed

subsection \<open>The validation loop\<close>

text \<open>Whether a field satisfies its rules: the condition \<open>check_field\<close> decides.\<close>

definition field_ok :: "elem \<Rightarrow> bool" where
  "field_ok e \<longleftrightarrow>
     (if e_val e = [] then ''vrequire'' \<notin> e_cls e
      else len_ok e \<and> (\<forall>(c, r) \<in> set class_rules. c \<in> e_cls e \<longrightarrow> e_val e \<in> lang r))"

definition mark_valid :: "elem \<Rightarrow> elem" where
  "mark_valid e = add_class ''valid'' (remove_class ''invalid'' e)"

lemma on_on: "on i f (on i g s) = on i (f \<circ> g) s"
  by (simp add: on_def)

lemma check_field_eq:
  "check_field i s =
     (if field_ok (dom s i) then (True, on i mark_valid s)
      else (False, reportErr i (e_attrs (dom s i) ''verrmsg'') s))"
proof -
  have rules: "list_all (\<lambda>(c, r). c \<in> e_cls e \<longrightarrow> rx_test r (e_val e)) class_rules \<longleftrightarrow>
      (\<forall>(c, r) \<in> set class_rules. c \<in> e_cls e \<longrightarrow> e_val e \<in> lang r)" for e
    by (simp add: list_all_iff rx_test_lang)
  have mark: "on i (add_class ''valid'') (on i (remove_class ''invalid'') s) = on i mark_valid s"
    by (simp add: on_on comp_def mark_valid_def [abs_def])
  show ?thesis
    by (auto simp: check_field_def Let_def rules mark field_ok_def)
qed

lemma mark_valid_same [simp]:
  "e_val (mark_valid e) = e_val e" "e_attrs (mark_valid e) = e_attrs e" "e_kids (mark_valid e) = e_kids e"
  by (simp_all add: mark_valid_def dom_defs)

lemma class_rules_names: "(c, r) \<in> set class_rules \<Longrightarrow> c \<notin> {''valid'', ''invalid''}"
  by (auto simp: class_rules_def)

lemma mark_valid_other: "c \<notin> {''valid'', ''invalid''} \<Longrightarrow> c \<in> e_cls (mark_valid e) \<longleftrightarrow> c \<in> e_cls e"
  by (auto simp: mark_valid_def dom_defs)

lemma field_ok_mark_valid [simp]: "field_ok (mark_valid e) = field_ok e"
proof -
  have "(c \<in> e_cls (mark_valid e)) = (c \<in> e_cls e)" if "(c, r) \<in> set class_rules" for c r
    using class_rules_names [OF that] by (rule mark_valid_other)
  then have "(\<forall>(c, r) \<in> set class_rules. c \<in> e_cls (mark_valid e) \<longrightarrow> v \<in> lang r)
      = (\<forall>(c, r) \<in> set class_rules. c \<in> e_cls e \<longrightarrow> v \<in> lang r)" for v
    by (intro ball_cong) auto
  moreover have "''vrequire'' \<in> e_cls (mark_valid e) \<longleftrightarrow> ''vrequire'' \<in> e_cls e"
    by (rule mark_valid_other) simp
  ultimately show ?thesis by (simp only: field_ok_def len_ok_def mark_valid_same)
qed

lemma inputval_fst: "fst (inputval is s) \<longleftrightarrow> (\<forall>i \<in> set is. field_ok (dom s i))"
proof (induction "is" arbitrary: s)
  case (Cons i "is")
  have "field_ok (dom (on i mark_valid s) j) = field_ok (dom s j)" for j by simp
  then show ?case by (auto simp: check_field_eq Cons.IH)
qed simp

lemma inputval_true: "fst (inputval is s) \<Longrightarrow> snd (inputval is s) = fold (\<lambda>i. on i mark_valid) is s"
  by (induction "is" arbitrary: s) (auto simp: check_field_eq split: if_splits)

text \<open>On failure the fields before the first bad one are marked and that one is reported.\<close>

lemma inputval_false:
  assumes "list_all (\<lambda>i. field_ok (dom s i)) us" "\<not> field_ok (dom s i)"
  shows "inputval (us @ i # vs) s =
    (False, reportErr i (e_attrs (dom s i) ''verrmsg'') (fold (\<lambda>j. on j mark_valid) us s))"
  using assms
proof (induction us arbitrary: s)
  case Nil
  then show ?case by (simp add: check_field_eq)
next
  case (Cons u us)
  let ?s = "on u mark_valid s"
  have "list_all (\<lambda>i. field_ok (dom ?s i)) us" "\<not> field_ok (dom ?s i)"
    using Cons.prems by (auto simp: list_all_iff)
  moreover have "e_attrs (dom ?s i) = e_attrs (dom s i)" by simp
  ultimately show ?case using Cons by (simp add: check_field_eq)
qed

lemma fold_on_frame [simp]:
  "reqs (fold (\<lambda>i. on i f) is s) = reqs s" "alerts (fold (\<lambda>i. on i f) is s) = alerts s"
  "thrown (fold (\<lambda>i. on i f) is s) = thrown s" "page.more (fold (\<lambda>i. on i f) is s) = page.more s"
  by (induction "is" arbitrary: s) simp_all

lemma reportErr_frame [simp]:
  "reqs (reportErr i m s) = reqs s" "thrown (reportErr i m s) = thrown s"
  "page.more (reportErr i m s) = page.more s"
  "j \<noteq> i \<Longrightarrow> dom (reportErr i m s) j = dom s j"
  by (simp_all add: reportErr_def Let_def split: option.splits)

lemma inputval_frame [simp]:
  "reqs (snd (inputval is s)) = reqs s" "thrown (snd (inputval is s)) = thrown s"
  "page.more (snd (inputval is s)) = page.more s"
  by (induction "is" arbitrary: s) (simp_all add: check_field_eq)

lemma inputval_other: "j \<notin> set is \<Longrightarrow> dom (snd (inputval is s)) j = dom s j"
  by (induction "is" arbitrary: s) (auto simp: check_field_eq)

lemma mblink_invalid: "''invalid'' \<in> e_cls (mblink ''invalid'' True n e)"
  by (simp add: mblink_def Let_def dom_defs)


lemma inputval_split:
  "inputval is s =
     (case dropWhile (\<lambda>i. field_ok (dom s i)) is of
        [] \<Rightarrow> (True, fold (\<lambda>i. on i mark_valid) is s)
      | i # _ \<Rightarrow> (False, reportErr i (e_attrs (dom s i) ''verrmsg'')
                        (fold (\<lambda>j. on j mark_valid) (takeWhile (\<lambda>i. field_ok (dom s i)) is) s)))"
proof (cases "dropWhile (\<lambda>i. field_ok (dom s i)) is")
  case Nil
  then have "fst (inputval is s)" by (simp add: inputval_fst dropWhile_eq_Nil_conv)
  then have "inputval is s = (True, fold (\<lambda>i. on i mark_valid) is s)"
    using inputval_true by (metis prod.collapse)
  then show ?thesis by (simp only: Nil list.case)
next
  case (Cons i vs)
  let ?us = "takeWhile (\<lambda>i. field_ok (dom s i)) is"
  have "is = ?us @ i # vs" using Cons by (metis takeWhile_dropWhile_id)
  moreover have "list_all (\<lambda>i. field_ok (dom s i)) ?us"
    by (auto simp: list_all_iff dest: set_takeWhileD)
  moreover have "\<not> field_ok (dom s i)" using Cons by (simp add: dropWhile_eq_Cons_conv)
  ultimately have "inputval is s =
      (False, reportErr i (e_attrs (dom s i) ''verrmsg'') (fold (\<lambda>j. on j mark_valid) ?us s))"
    using inputval_false by metis
  then show ?thesis by (simp only: Cons list.case)
qed

text \<open>An input with one length limit and nothing else that the form validator looks at.\<close>

definition limited_input :: "string \<Rightarrow> nat \<Rightarrow> string \<Rightarrow> elem" where
  "limited_input attr n v =
     blank\<lparr>e_val := v, e_cls := {''is_required''}, e_attrs := [attr \<mapsto> nat_str n]\<rparr>"

lemma form_limits:
  "form_field_ok (limited_input ''maxlen'' n v) \<longleftrightarrow> v \<noteq> [] \<and> js_len v \<le> n"
  "form_field_ok (limited_input ''minlen'' n v) \<longleftrightarrow> v \<noteq> [] \<and> js_len v \<le> n"
  by (auto simp: form_field_ok_def limited_input_def blank_def Let_def not_less)

declare inputval.simps [simp del]

subsection \<open>Properties\<close>

text \<open>
  C5. \<open>inputval\<close> on any list of fields: it walks the fields in order, marks the ones that satisfy
  their rules \<open>valid\<close> and stops at the first that does not, which it reports (its \<open>verrmsg\<close> is
  alerted, \<open>valid\<close> is taken off and \<open>invalid\<close> is left on it); it answers true exactly when there is no
  such field.  What a field must satisfy is \<open>field_ok\<close>: the required ones are not empty, an optional
  empty one passes, and any other value is within its length limits and in the language of the
  expression of each of its classes.
\<close>

theorem inputval_walks_to_first_bad:
  "inputval is s =
     (case dropWhile (\<lambda>i. field_ok (dom s i)) is of
        [] \<Rightarrow> (True, fold (\<lambda>i. on i mark_valid) is s)
      | i # _ \<Rightarrow> (False, reportErr i (e_attrs (dom s i) ''verrmsg'')
                        (fold (\<lambda>j. on j mark_valid) (takeWhile (\<lambda>i. field_ok (dom s i)) is) s)))"
  by (rule inputval_split)

text \<open>
  What the rules accept: \<open>vint\<close> one to ten digits, \<open>vphone\<close> digits and dashes, \<open>vurl\<close> any characters but
  line terminators behind http://, \<open>vip\<close> four groups of one to three digits (so 999.999.999.999 too); and
  \<open>vdate\<close>, whose character classes hold commas, accepts 1,/,0/0000.
\<close>

theorem rule_languages:
  "(rx_test rx_vint v \<longleftrightarrow> 1 \<le> length v \<and> length v \<le> 10 \<and> list_all is_digit v) \<and>
   (rx_test rx_vphone v \<longleftrightarrow> v \<noteq> [] \<and> list_all (\<lambda>c. is_digit c \<or> c = CHR ''-'') v) \<and>
   (rx_test rx_vurl v \<longleftrightarrow> (\<exists>us. v = ''http://'' @ concat us \<and> list_all line_char us)) \<and>
   (rx_test rx_vip v \<longleftrightarrow>
      (\<exists>a b c d. v = a @ ''.'' @ b @ ''.'' @ c @ ''.'' @ d \<and> octet a \<and> octet b \<and> octet c \<and> octet d)) \<and>
   rx_test rx_vdate ''1,/,0/0000''"
proof -
  have "rx_test rx_vdate ''1,/,0/0000''" by code_simp
  then show ?thesis by (simp only: vint_iff vphone_iff vurl_iff vip_iff)
qed

text \<open>
  The form validator of \<open>jquery.formval.js\<close> tests a \<open>minlen\<close> limit the way it tests \<open>maxlen\<close>: a
  required input with \<open>minlen\<close> n is accepted exactly when it is not empty and at most n long, so a
  value that is long enough is refused and one that is too short passes.
\<close>

theorem minlen_is_tested_as_maxlen:
  "(form_field_ok (limited_input ''minlen'' n v) \<longleftrightarrow> v \<noteq> [] \<and> js_len v \<le> n) \<and>
   (form_field_ok (limited_input ''maxlen'' n v) \<longleftrightarrow> v \<noteq> [] \<and> js_len v \<le> n)"
  by (simp only: form_limits)

end
