(* ===== verification/FormPanel.thy ===== *)
theory FormPanel
  imports Validate Md5_Correct
begin

text \<open>
  The exchange that every form of the site repeats: a click clears the panel (the parent of the
  button), marks it \<open>loading\<close> and sends a request; the callback takes \<open>loading\<close> off and marks the
  panel \<open>success\<close> or \<open>error\<close>, with the server's message appended in the second case.

  \<open>panel_begin\<close>, \<open>panel_done\<close> and \<open>settle\<close> are that idiom; the handlers of the pages are written
  with them.  The locale \<open>form_panel\<close> states the contract on any such pair of handlers and proves
  what follows from it once: the outcome of an exchange, what a second click does before the first
  reply, and which messages are left after a series of attempts.  Each form of the site is an
  interpretation, in the theory of its page.
\<close>

definition utf8 :: "nat list \<Rightarrow> string" where
  "utf8 bs = map char_of bs"

definition panel_begin :: "string \<Rightarrow> elem \<Rightarrow> elem" where
  "panel_begin clear e =
     add_class ''loading'' (remove_class ''error'' (remove_class ''success'' (remove_kids clear e)))"

definition panel_done :: "bool \<Rightarrow> (string \<times> string) list \<Rightarrow> elem \<Rightarrow> elem" where
  "panel_done ok msgs e =
     fold (\<lambda>(c, m). append_kid c m) msgs
       (add_class (if ok then ''success'' else ''error'') (remove_class ''loading'' e))"

definition add_note :: "'i \<Rightarrow> string \<Rightarrow> string \<Rightarrow> ('i, 'z) page_scheme \<Rightarrow> ('i, 'z) page_scheme" where
  "add_note p c m s = on p (append_kid c m) s"

definition errmsg :: "jsv \<Rightarrow> string" where
  "errmsg data = to_str (fld data ''errmsg'')"

text \<open>
  The skeleton of a callback: \<open>loading\<close> is taken off first, then \<open>data.success\<close> is read (a reply
  that is \<open>null\<close> throws there), then one of the two branches runs.
\<close>

definition settle :: "'i \<Rightarrow> jsv \<Rightarrow> (('i, 'z) page_scheme \<Rightarrow> ('i, 'z) page_scheme)
    \<Rightarrow> (('i, 'z) page_scheme \<Rightarrow> ('i, 'z) page_scheme) \<Rightarrow> ('i, 'z) page_scheme \<Rightarrow> ('i, 'z) page_scheme" where
  "settle p data yes no s =
     (let s1 = on p (remove_class ''loading'') s
      in if data = JUndef \<or> data = JNull then throw s1
         else if is_one (fld data ''success'') then yes (on p (add_class ''success'') s1)
         else no (on p (add_class ''error'') s1))"

definition is_reply :: "jsv \<Rightarrow> bool" where
  "is_reply data \<longleftrightarrow> data \<noteq> JUndef \<and> data \<noteq> JNull"

definition success :: "jsv \<Rightarrow> bool" where
  "success data \<longleftrightarrow> is_one (fld data ''success'')"

text \<open>\<open>$.md5($.md5(v))\<close>, the form in which every password leaves the page.\<close>

definition md5md5 :: "string \<Rightarrow> string" where
  "md5md5 v = md5 (jstr_of (md5 (utf16 v)))"

lemmas panel_defs = panel_begin_def panel_done_def add_note_def settle_def Let_def

subsection \<open>Phases of a panel\<close>

datatype phase = Loading | Succeeded | Failed

fun in_phase :: "phase \<Rightarrow> elem \<Rightarrow> bool" where
  "in_phase Loading e = (''loading'' \<in> e_cls e \<and> ''success'' \<notin> e_cls e \<and> ''error'' \<notin> e_cls e)"
| "in_phase Succeeded e = (''loading'' \<notin> e_cls e \<and> ''success'' \<in> e_cls e \<and> ''error'' \<notin> e_cls e)"
| "in_phase Failed e = (''loading'' \<notin> e_cls e \<and> ''success'' \<notin> e_cls e \<and> ''error'' \<in> e_cls e)"

lemma panel_begin_phase: "in_phase Loading (panel_begin c e)"
  by (simp add: panel_begin_def dom_defs)

lemma fold_append_kid:
  "fold (\<lambda>(c, m). append_kid c m) ns e = e\<lparr>e_kids := e_kids e @ ns\<rparr>"
  by (induction ns arbitrary: e) (auto simp: append_kid_def)

lemma panel_done_cls:
  "e_cls (panel_done ok ns e) = insert (if ok then ''success'' else ''error'') (e_cls e - {''loading''})"
  by (simp add: panel_done_def fold_append_kid dom_defs)

lemma panel_done_kids: "e_kids (panel_done ok ns e) = e_kids e @ ns"
  by (simp add: panel_done_def fold_append_kid dom_defs)

lemma panel_begin_kids: "e_kids (panel_begin c e) = filter (\<lambda>k. fst k \<noteq> c) (e_kids e)"
  by (simp add: panel_begin_def dom_defs)

lemma panel_begin_cls: "e_cls (panel_begin c e) = insert ''loading'' (e_cls e - {''success'', ''error''})"
  by (auto simp: panel_begin_def dom_defs)

lemma panel_done_phase:
  "in_phase Loading e \<Longrightarrow> in_phase (if ok then Succeeded else Failed) (panel_done ok ns e)"
  by (simp add: panel_done_cls)

subsection \<open>The contract\<close>

text \<open>A series of attempts, each answered before the next, and that each click was let through.\<close>

fun exchanges :: "('s \<Rightarrow> 's) \<Rightarrow> ('d \<Rightarrow> 's \<Rightarrow> 's) \<Rightarrow> 'd list \<Rightarrow> 's \<Rightarrow> 's" where
  "exchanges submit reply [] s = s"
| "exchanges submit reply (d # ds) s = exchanges submit reply ds (reply d (submit s))"

fun all_ready :: "('s \<Rightarrow> bool) \<Rightarrow> ('d \<Rightarrow> bool) \<Rightarrow> ('s \<Rightarrow> 's) \<Rightarrow> ('d \<Rightarrow> 's \<Rightarrow> 's) \<Rightarrow> 'd list \<Rightarrow> 's \<Rightarrow> bool" where
  "all_ready ready valid submit reply [] s = True"
| "all_ready ready valid submit reply (d # ds) s =
     (ready s \<and> valid d \<and> all_ready ready valid submit reply ds (reply d (submit s)))"

text \<open>It is enough that the first click is let through, when neither a click nor a reply changes that.\<close>

lemma all_ready_stable:
  assumes "\<And>s d. ready s \<Longrightarrow> ready (reply d (submit s))"
  shows "ready s \<Longrightarrow> list_all valid ds \<Longrightarrow> all_ready ready valid submit reply ds s"
  by (induction ds arbitrary: s) (simp_all add: assms)

locale form_panel =
  fixes panel :: "'s \<Rightarrow> elem"
    and clear :: string
    and ready :: "'s \<Rightarrow> bool"
    and submit :: "'s \<Rightarrow> 's"
    and reply :: "jsv \<Rightarrow> 's \<Rightarrow> 's"
    and valid :: "jsv \<Rightarrow> bool"
    and accepted :: "jsv \<Rightarrow> bool"
    and msgs :: "jsv \<Rightarrow> (string \<times> string) list"
  assumes submit_ready: "ready s \<Longrightarrow> panel (submit s) = panel_begin clear (panel s)"
    and submit_refused: "\<not> ready s \<Longrightarrow> panel (submit s) = panel s"
    and reply_done: "valid d \<Longrightarrow> panel (reply d s) = panel_done (accepted d) (msgs d) (panel s)"
begin

text \<open>One exchange, from a click that passes validation to its reply.\<close>

definition attempt :: "jsv \<Rightarrow> 's \<Rightarrow> 's" where
  "attempt d s = reply d (submit s)"

lemma exchange_phase:
  "ready s \<Longrightarrow> valid d \<Longrightarrow> in_phase (if accepted d then Succeeded else Failed) (panel (attempt d s))"
  unfolding attempt_def by (simp only: submit_ready reply_done panel_done_phase panel_begin_phase)

lemma exchange_notes:
  "ready s \<Longrightarrow> valid d \<Longrightarrow>
     e_kids (panel (attempt d s)) = filter (\<lambda>k. fst k \<noteq> clear) (e_kids (panel s)) @ msgs d"
  unfolding attempt_def by (simp only: submit_ready reply_done panel_done_kids panel_begin_kids)

text \<open>A second click before the first reply: the two replies fall on the same panel.\<close>

lemma overlap:
  assumes "ready s" "ready (submit s)" "valid d" "valid d'" "accepted d" "\<not> accepted d'"
  shows "{''success'', ''error''} \<subseteq> e_cls (panel (reply d' (reply d (submit (submit s)))))"
  using assms by (auto simp: submit_ready reply_done panel_done_cls)

lemma attempts_snoc: "exchanges submit reply (ds @ [d]) s = attempt d (exchanges submit reply ds s)"
  by (induction ds arbitrary: s) (simp_all add: attempt_def)

lemma all_ready_snoc:
  "all_ready ready valid submit reply (ds @ [d]) s \<longleftrightarrow>
     all_ready ready valid submit reply ds s \<and> ready (exchanges submit reply ds s) \<and> valid d"
  by (induction ds arbitrary: s) auto

lemma attempts_last_phase:
  "all_ready ready valid submit reply (ds @ [d]) s \<Longrightarrow>
     in_phase (if accepted d then Succeeded else Failed) (panel (exchanges submit reply (ds @ [d]) s))"
  by (simp only: attempts_snoc all_ready_snoc exchange_phase)

text \<open>When the click clears what the replies append, only the last reply's messages are left.\<close>

lemma attempts_cleared:
  assumes "\<And>d. set (map fst (msgs d)) \<subseteq> {clear}"
    and "all_ready ready valid submit reply (ds @ [d]) s"
    and "\<And>k. k \<in> set (e_kids (panel s)) \<Longrightarrow> fst k = clear"
  shows "e_kids (panel (exchanges submit reply (ds @ [d]) s)) = msgs d"
proof -
  have "k \<in> set (e_kids (panel (exchanges submit reply ds s))) \<Longrightarrow> fst k = clear" if "all_ready ready valid submit reply ds s" for k ds
    using that
  proof (induction ds arbitrary: k rule: rev_induct)
    case Nil
    then show ?case using assms(3) by simp
  next
    case (snoc x xs)
    then show ?case using assms(1) [of x]
      by (auto simp: attempts_snoc all_ready_snoc exchange_notes image_subset_iff)
  qed
  then show ?thesis
    using assms(2) by (auto simp: attempts_snoc all_ready_snoc exchange_notes filter_empty_conv)
qed

text \<open>When the click clears another class than the replies append, the messages pile up.\<close>

lemma attempts_pile_up:
  assumes "\<And>d. clear \<notin> set (map fst (msgs d))"
    and "clear \<notin> fst ` set (e_kids (panel s))"
    and "all_ready ready valid submit reply ds s"
  shows "e_kids (panel (exchanges submit reply ds s)) = e_kids (panel s) @ concat (map msgs ds)"
  using assms(2,3)
proof (induction ds arbitrary: s)
  case Nil
  then show ?case by simp
next
  case (Cons d ds)
  from Cons.prems have rd: "ready s" "valid d" "all_ready ready valid submit reply ds (attempt d s)"
    by (simp_all add: attempt_def)
  have "filter (\<lambda>k. fst k \<noteq> clear) (e_kids (panel s)) = e_kids (panel s)"
    using Cons.prems(1) by (force simp: filter_id_conv)
  then have kids: "e_kids (panel (attempt d s)) = e_kids (panel s) @ msgs d"
    by (simp add: exchange_notes rd)
  moreover have "clear \<notin> fst ` set (e_kids (panel (attempt d s)))"
    using Cons.prems(1) assms(1) [of d] by (auto simp: kids)
  ultimately show ?case using Cons.IH [of "attempt d s"] rd(3) by (simp add: attempt_def)
qed

end

text \<open>
  The same contract with the requests: a click that passes validation sends one request, any other
  click none.
\<close>

locale form_request = form_panel +
  fixes sent :: "'a \<Rightarrow> request list"
    and query :: "'a \<Rightarrow> request"
  assumes submit_sends: "ready s \<Longrightarrow> sent (submit s) = sent s @ [query s]"
    and submit_silent: "\<not> ready s \<Longrightarrow> sent (submit s) = sent s"
    and reply_silent: "sent (reply d s) = sent s"
begin

lemma sent_count: "length (sent (submit s)) = length (sent s) + (if ready s then 1 else 0)"
  by (simp add: submit_sends submit_silent)

lemma attempts_sent:
  "all_ready ready valid submit reply ds s \<Longrightarrow>
     length (sent (exchanges submit reply ds s)) = length (sent s) + length ds"
  by (induction ds arbitrary: s) (simp_all add: submit_sends reply_silent)

lemma double_click:
  "ready s \<Longrightarrow> ready (submit s) \<Longrightarrow> sent (submit (submit s)) = sent s @ [query s, query (submit s)]"
  by (simp add: submit_sends)

end

subsection \<open>The idiom meets the contract\<close>

lemma settle_panel:
  assumes "is_reply d"
    and "\<And>s. dom (yes s) p = fold (\<lambda>(c, m). append_kid c m) ys (dom s p)"
    and "\<And>s. dom (no s) p = fold (\<lambda>(c, m). append_kid c m) ns (dom s p)"
  shows "dom (settle p d yes no s) p = panel_done (success d) (if success d then ys else ns) (dom s p)"
  using assms by (simp add: settle_def Let_def is_reply_def success_def panel_done_def)

lemma add_note_dom [simp]: "dom (add_note p c m s) q = (if q = p then append_kid c m (dom s q) else dom s q)"
  by (simp add: add_note_def)

lemma add_note_frame [simp]:
  "reqs (add_note p c m s) = reqs s" "alerts (add_note p c m s) = alerts s" "thrown (add_note p c m s) = thrown s"
  "page.more (add_note p c m s) = page.more s"
  by (simp_all add: add_note_def)

lemma settle_other:
  assumes "q \<noteq> p" "\<And>s. dom (yes s) q = dom s q" "\<And>s. dom (no s) q = dom s q"
  shows "dom (settle p d yes no s) q = dom s q"
  using assms by (simp add: settle_def Let_def)

subsection \<open>Pages as machines\<close>

text \<open>
  A page is driven by events: what the user types and clicks, the replies as they come in, and the
  timers.  \<open>step\<close> is the page's handler for each; an invariant of every step holds after any
  sequence of events.
\<close>

locale machine =
  fixes step :: "'e \<Rightarrow> 's \<Rightarrow> 's"
    and inv :: "'s \<Rightarrow> bool"
  assumes step_inv: "inv s \<Longrightarrow> inv (step e s)"
begin

lemma run_inv: "inv s \<Longrightarrow> inv (fold step es s)"
  by (induction es arbitrary: s) (simp_all add: step_inv)

end

text \<open>A program that follows a simpler one step by step.\<close>

locale simulation =
  fixes cstep :: "'e \<Rightarrow> 's \<Rightarrow> 's" and astep :: "'e \<Rightarrow> 'a \<Rightarrow> 'a" and rel :: "'s \<Rightarrow> 'a \<Rightarrow> bool"
  assumes step_rel: "rel s a \<Longrightarrow> rel (cstep e s) (astep e a)"
begin

lemma run_rel: "rel s a \<Longrightarrow> rel (fold cstep es s) (fold astep es a)"
  by (induction es arbitrary: s a) (simp_all add: step_rel)

end

subsection \<open>Passwords in requests\<close>

definition md5_hex :: "string \<Rightarrow> bool" where
  "md5_hex h \<longleftrightarrow> length h = 32 \<and> set h \<subseteq> set hex_alphabet"

text \<open>A parameter named as the passwords are holds a digest.\<close>

definition param_hashed :: "string \<times> jsv \<Rightarrow> bool" where
  "param_hashed = (\<lambda>(k, v). if k = ''asn'' \<or> k = ''msn'' then (case v of JStr h \<Rightarrow> md5_hex h | _ \<Rightarrow> False) else True)"

definition hashed :: "request \<Rightarrow> bool" where
  "hashed r \<longleftrightarrow> list_all param_hashed (r_params r)"

lemma md5_hex_md5md5 [simp]: "md5_hex (md5md5 v)"
  by (simp add: md5_hex_def md5md5_def length_md5 md5_alphabet)

definition all_hashed :: "('i, 'z) page_scheme \<Rightarrow> bool" where
  "all_hashed s \<longleftrightarrow> list_all hashed (reqs s)"

text \<open>Only a request can break it.\<close>

lemma all_hashed_on [simp]: "all_hashed (on i f s) = all_hashed s"
  by (simp add: all_hashed_def)

lemma all_hashed_frame [simp]:
  "all_hashed (alert m s) = all_hashed s" "all_hashed (raise e s) = all_hashed s"
  "all_hashed (throw s) = all_hashed s" "all_hashed (add_note p c m s) = all_hashed s"
  "all_hashed (snd (inputval is s)) = all_hashed s"
  by (simp_all add: all_hashed_def)

lemma all_hashed_send [simp]:
  "all_hashed (send m u ps s) \<longleftrightarrow> all_hashed s \<and> list_all param_hashed ps"
  by (simp add: all_hashed_def hashed_def)

lemma all_hashed_settle:
  assumes "\<And>s. all_hashed (yes s) = all_hashed s" "\<And>s. all_hashed (no s) = all_hashed s"
  shows "all_hashed (settle p d yes no s) = all_hashed s"
  by (simp add: settle_def Let_def assms)

lemma all_hashed_fresh: "all_hashed (s\<lparr>reqs := []\<rparr>)"
  by (simp add: all_hashed_def)

text \<open>A submit handler: validation first, the rest only when it passed.\<close>

definition when_valid :: "'i list \<Rightarrow> (('i, 'z) page_scheme \<Rightarrow> ('i, 'z) page_scheme) \<Rightarrow>
    ('i, 'z) page_scheme \<Rightarrow> ('i, 'z) page_scheme" where
  "when_valid vals k s = (case inputval vals s of (True, s1) \<Rightarrow> k s1 | (False, s1) \<Rightarrow> s1)"

lemma when_valid_eq:
  "when_valid vals k s =
     (if \<forall>i \<in> set vals. field_ok (dom s i) then k (fold (\<lambda>i. on i mark_valid) vals s)
      else snd (inputval vals s))"
  using inputval_true [of vals s]
  by (auto simp: when_valid_def inputval_fst [symmetric] split: prod.splits bool.splits)

lemma fold_mark_dom: "i \<notin> set vals \<Longrightarrow> dom (fold (\<lambda>i. on i mark_valid) vals s) i = dom s i"
  by (induction vals arbitrary: s) simp_all

lemma fold_mark_val [simp]: "e_val (dom (fold (\<lambda>i. on i mark_valid) vals s) i) = e_val (dom s i)"
  by (induction vals arbitrary: s) simp_all

lemma all_hashed_fold_mark [simp]: "all_hashed (fold (\<lambda>i. on i mark_valid) vals s) = all_hashed s"
  by (simp add: all_hashed_def)

definition ready :: "'i list \<Rightarrow> ('i, 'z) page_scheme \<Rightarrow> bool" where
  "ready vals s \<longleftrightarrow> (\<forall>i \<in> set vals. field_ok (dom s i))"

text \<open>The usual form: once its fields pass, the panel is marked and the request goes out.\<close>

lemma form_submit_panel:
  "p \<notin> set vals \<Longrightarrow> dom (when_valid vals (\<lambda>s. send m u (ps s) (on p (panel_begin c) s)) s) p =
     (if ready vals s then panel_begin c (dom s p) else dom s p)"
  by (simp add: when_valid_eq ready_def fold_mark_dom inputval_other)

lemma form_submit_reqs:
  "reqs (when_valid vals (\<lambda>s. send m u (ps s) (on p (panel_begin c) s)) s) =
     (if ready vals s
      then reqs s @ [\<lparr>r_method = m, r_url = u, r_params = ps (fold (\<lambda>i. on i mark_valid) vals s)\<rparr>]
      else reqs s)"
  by (simp add: when_valid_eq ready_def)

lemma fold_one_note: "fold (\<lambda>(c, m). append_kid c m) [(c, m)] e = append_kid c m e"
  by simp

end
