(* ===== verification/Utl.thy ===== *)
theory Utl
  imports JsValue
begin

text \<open>
  The utilities of \<open>lib/js/bmoon.js\<close>: random names, the class name of a value, HTML escaping, the
  query string, and \<open>after\<close>, which every page uses to wait for a variable that a later script sets.
  The library's \<open>encodeURIComponent\<close> and \<open>decodeURIComponent\<close> are defined on UTF-8 bytes.
\<close>

subsection \<open>URI components\<close>

definition alpha_num :: "char \<Rightarrow> bool" where
  "alpha_num c \<longleftrightarrow> is_digit c \<or> byte c \<in> {65..90} \<or> byte c \<in> {97..122}"

definition uri_unreserved :: "char \<Rightarrow> bool" where
  "uri_unreserved c \<longleftrightarrow> alpha_num c \<or> byte c \<in> {45, 95, 46, 33, 126, 42, 39, 40, 41}"

definition hex_up :: "nat \<Rightarrow> char" where
  "hex_up n = char_of (if n < 10 then 48 + n else 55 + n)"

definition pct_enc :: "char \<Rightarrow> string" where
  "pct_enc c = [CHR ''%'', hex_up (byte c div 16), hex_up (byte c mod 16)]"

definition encodeURIComponent :: "string \<Rightarrow> string" where
  "encodeURIComponent s = concat (map (\<lambda>c. if uri_unreserved c then [c] else pct_enc c) s)"

definition pct_byte :: "string \<Rightarrow> (nat \<times> string) option" where
  "pct_byte s = (case s of
       p # h # l # r \<Rightarrow>
         if p = CHR ''%'' \<and> is_hex h \<and> is_hex l then Some (16 * hex_val h + hex_val l, r) else None
     | _ \<Rightarrow> None)"

text \<open>\<open>n\<close> continuation bytes of a UTF-8 sequence.\<close>

fun pct_conts :: "nat \<Rightarrow> string \<Rightarrow> (nat list \<times> string) option" where
  "pct_conts 0 s = Some ([], s)"
| "pct_conts (Suc n) s = (case pct_byte s of
       Some (b, r) \<Rightarrow> if b div 64 = 2 then map_option (\<lambda>(bs, r'). (b # bs, r')) (pct_conts n r) else None
     | None \<Rightarrow> None)"

definition lead_conts :: "nat \<Rightarrow> nat option" where
  "lead_conts b = (if b < 0xC2 then None else if b < 0xE0 then Some 1 else if b < 0xF0 then Some 2
                   else if b < 0xF5 then Some 3 else None)"

text \<open>The overlong forms, the surrogates and the values above 0x10FFFF are malformed.\<close>

definition seq_ok :: "nat \<Rightarrow> nat list \<Rightarrow> bool" where
  "seq_ok b bs \<longleftrightarrow>
     \<not> (b = 0xE0 \<and> hd bs < 0xA0) \<and> \<not> (b = 0xED \<and> hd bs \<ge> 0xA0) \<and>
     \<not> (b = 0xF0 \<and> hd bs < 0x90) \<and> \<not> (b = 0xF4 \<and> hd bs \<ge> 0x90)"

lemma pct_byte_length: "pct_byte s = Some (b, r) \<Longrightarrow> length r < length s"
  by (auto simp: pct_byte_def split: list.splits if_splits)

lemma pct_conts_length: "pct_conts n s = Some (bs, r) \<Longrightarrow> length r \<le> length s"
proof (induction n arbitrary: s bs r)
  case (Suc n)
  then show ?case
    by (auto split: option.splits if_splits dest!: pct_byte_length intro: le_trans less_imp_le)
      (meson le_less_trans less_imp_le)
qed simp

function decodeURIComponent :: "string \<Rightarrow> js_error + string" where
  "decodeURIComponent [] = Inr []"
| "decodeURIComponent (c # s) =
     (if c \<noteq> CHR ''%'' then map_sum id ((#) c) (decodeURIComponent s)
      else case pct_byte (c # s) of
             None \<Rightarrow> Inl URIError
           | Some (b, r) \<Rightarrow>
               (if b < 128 then map_sum id ((#) (char_of b)) (decodeURIComponent r)
                else case lead_conts b of
                       None \<Rightarrow> Inl URIError
                     | Some n \<Rightarrow>
                         (case pct_conts n r of
                            None \<Rightarrow> Inl URIError
                          | Some (bs, r') \<Rightarrow>
                              (if seq_ok b bs
                               then map_sum id ((@) (map char_of (b # bs))) (decodeURIComponent r')
                               else Inl URIError))))"
  by pat_completeness auto
termination
proof (relation "measure length", goal_cases)
  case (4 c s x2 b r n a bs r')
  then show ?case using pct_byte_length pct_conts_length by fastforce
next
  case (3 c s x2 b r)
  then show ?case using pct_byte_length by fastforce
qed auto

subsection \<open>Random words\<close>

text \<open>\<open>s.charAt(Math.floor(Math.random() * n))\<close> for a draw \<open>r\<close> of \<open>Math.random\<close>.\<close>

definition pick :: "string \<Rightarrow> nat \<Rightarrow> rat \<Rightarrow> string" where
  "pick s n r = (let i = \<lfloor>r * of_nat n\<rfloor> in if 0 \<le> i \<and> nat i < length s then [s ! nat i] else [])"

definition base_str :: string where
  "base_str = ''ABCDEFGHIJKLMNOPQRSTUVWXYZabcdefghijklmnopqrstuvwxyz0123456789''"

text \<open>The draws are the list \<open>rs\<close>, one per turn of the loop.\<close>

(* src/lib/js/bmoon.js:5-9 randomWord *)
definition randomWord :: "rat list \<Rightarrow> string" where
  "randomWord rs = concat (map (pick base_str 62) rs)"

(* src/lib/js/bmoon.js:11-25 randomName *)
definition randomName :: "rat \<Rightarrow> rat \<Rightarrow> rat list \<Rightarrow> string" where
  "randomName r1 r2 rs =
     (let S = ''ABCDEFGHIJKLMNOPQRSTUVWXYZ''; s = ''abcdefghjkmnpqrstuvwxyz''
      in pick s 23 r1 @ pick s 23 r2 @ ''_'' @ concat (map (pick S 26) (take 5 rs)))"

subsection \<open>Values and markup\<close>

fun class_name :: "jsv \<Rightarrow> string" where
  "class_name JUndef = ''Undefined''"
| "class_name JNull = ''Null''"
| "class_name (JBool _) = ''Boolean''"
| "class_name (JNum _) = ''Number''"
| "class_name (JStr _) = ''String''"
| "class_name (JArr _) = ''Array''"
| "class_name (JObj _) = ''Object''"

(* src/lib/js/bmoon.js:35-37 type *)
definition utl_type :: "jsv \<Rightarrow> jsv" where
  "utl_type v = (if truthy v then JStr (class_name v) else JBool False)"

text \<open>\<open>bmoon.utl.type(v) == 'Object'\<close>\<close>

definition is_type :: "string \<Rightarrow> jsv \<Rightarrow> bool" where
  "is_type t v = loose_eq (utl_type v) (JStr t)"

lemma is_type_by:
  assumes "str_to_num t = NaN"
  shows "is_type t v \<longleftrightarrow> truthy v \<and> class_name v = t"
  using assms by (simp add: is_type_def utl_type_def)

lemma is_type_iff [simp]:
  "is_type ''Number'' v \<longleftrightarrow> truthy v \<and> class_name v = ''Number''"
  "is_type ''Object'' v \<longleftrightarrow> truthy v \<and> class_name v = ''Object''"
  "is_type ''Array'' v \<longleftrightarrow> truthy v \<and> class_name v = ''Array''"
  "is_type ''String'' v \<longleftrightarrow> truthy v \<and> class_name v = ''String''"
  "is_type ''Function'' v \<longleftrightarrow> truthy v \<and> class_name v = ''Function''"
  by (rule is_type_by, code_simp)+

fun replace_char :: "char \<Rightarrow> string \<Rightarrow> string \<Rightarrow> string" where
  "replace_char c t [] = []"
| "replace_char c t (x # xs) = (if x = c then t @ replace_char c t xs else x # replace_char c t xs)"

abbreviation dquote :: char where
  "dquote \<equiv> CHR 0x22"

text \<open>Markup: an attribute in its quotes, a span of a class.\<close>

definition quoted :: "string \<Rightarrow> string" where
  "quoted s = [dquote] @ s @ [dquote]"

definition span_of :: "string \<Rightarrow> string \<Rightarrow> string" where
  "span_of cls s = ''<span class='' @ quoted cls @ ''>'' @ s @ ''</span>''"

(* src/lib/js/bmoon.js:39-42 stripHTML *)
definition stripHTML :: "string \<Rightarrow> string" where
  "stripHTML s = replace_char dquote ''&quot;'' (replace_char CHR ''<'' ''&lt;'' (replace_char CHR ''>'' ''&gt;'' s))"

subsection \<open>The query string\<close>

definition lower :: "char \<Rightarrow> char" where
  "lower c = (if byte c \<in> {65..90} then char_of (byte c + 32) else c)"

text \<open>
  The expression \<open>(^|\?|&)name=([^&]*)(\s|&|$)\<close> with flag \<open>i\<close>: its second group runs to the next
  \<open>&\<close> or to the end, where the third one always matches, so a match is found where \<open>name=\<close> is.
\<close>

definition qs_at :: "string \<Rightarrow> string \<Rightarrow> string option" where
  "qs_at n s =
     (let k = n @ ''=''
      in if map lower (take (length k) s) = map lower k
         then Some (takeWhile (\<lambda>c. c \<noteq> CHR ''&'') (drop (length k) s)) else None)"

fun qs_find :: "string \<Rightarrow> string \<Rightarrow> string option" where
  "qs_find n [] = None"
| "qs_find n (c # s) =
     (case (if c = CHR ''?'' \<or> c = CHR ''&'' then qs_at n s else None) of
        Some v \<Rightarrow> Some v
      | None \<Rightarrow> qs_find n s)"

(* src/lib/js/bmoon.js:50-54 getQueryString *)
definition getQueryString :: "string \<Rightarrow> string \<Rightarrow> js_error + string" where
  "getQueryString name href =
     (case (case qs_at name href of Some v \<Rightarrow> Some v | None \<Rightarrow> qs_find name href) of
        Some v \<Rightarrow> decodeURIComponent (replace_char CHR ''+'' '' '' v)
      | None \<Rightarrow> Inr [])"

subsection \<open>Waiting for a variable\<close>

text \<open>
  One call of \<open>after\<close>: whether its condition holds now, the limit, and the counter \<open>exetime\<close>, which
  all the callers on a page share.  \<open>parseInt(exetime * (100 / 1000))\<close> is \<open>exetime div 10\<close>.
\<close>

datatype poll = Gave_up | Ran | Later

(* src/lib/js/bmoon.js:92-111 after *)
definition after :: "bool \<Rightarrow> nat \<Rightarrow> nat \<Rightarrow> poll \<times> nat" where
  "after until sec0 exetime =
     (let sec = (if sec0 = 0 then 10 else sec0)
      in if exetime div 10 > sec then (Gave_up, 0)
         else if until then (Ran, 0)
         else (Later, Suc exetime))"

text \<open>
  A caller alone on its page, the condition's value given for each poll: how the waiting ends and
  at which poll.
\<close>

(* src/lib/js/bmoon.js:105-110 after, its timer *)
function after_loop :: "(nat \<Rightarrow> bool) \<Rightarrow> nat \<Rightarrow> nat \<Rightarrow> nat \<Rightarrow> poll \<times> nat" where
  "after_loop until sec exetime k =
     (case after (until k) sec exetime of
        (Later, e) \<Rightarrow> after_loop until sec e (Suc k)
      | (r, e) \<Rightarrow> (r, k))"
  by pat_completeness auto
termination
  by (relation "measure (\<lambda>(u, sec, e, k). 10 * (Suc (if sec = 0 then 10 else sec)) - e)")
    (auto simp: after_def Let_def split: if_splits)

declare after_loop.simps [simp del]

text \<open>One round of \<open>m\<close> callers that all wait for something that is not there yet.\<close>

fun after_round :: "nat \<Rightarrow> nat \<Rightarrow> nat \<Rightarrow> poll list \<times> nat" where
  "after_round 0 sec e = ([], e)"
| "after_round (Suc m) sec e =
     (let (r, e1) = after False sec e; (rs, e2) = after_round m sec e1 in (r # rs, e2))"

subsection \<open>Lemmas: waiting\<close>

definition limit :: "nat \<Rightarrow> nat" where
  "limit sec = 10 * Suc (if sec = 0 then 10 else sec)"

lemma after_limit:
  "after until sec e = (if limit sec \<le> e then (Gave_up, 0) else if until then (Ran, 0) else (Later, Suc e))"
  by (auto simp: after_def limit_def Let_def)

lemma find_upt_step:
  "k < n \<Longrightarrow> find u [k..<n] = (if u k then Some k else find u [Suc k..<n])"
  by (simp add: upt_conv_Cons)

lemma after_loop_find:
  "e + d = limit sec \<Longrightarrow>
     after_loop until sec e k =
       (case find until [k..<k + d] of Some j \<Rightarrow> (Ran, j) | None \<Rightarrow> (Gave_up, k + d))"
proof (induction d arbitrary: e k)
  case 0
  then show ?case by (subst after_loop.simps) (simp add: after_limit)
next
  case (Suc d)
  have sh: "Suc k + d = k + Suc d" and pre: "Suc e + d = limit sec" using Suc.prems by simp_all
  have IH: "after_loop until sec (Suc e) (Suc k) =
      (case find until [Suc k..<k + Suc d] of Some j \<Rightarrow> (Ran, j) | None \<Rightarrow> (Gave_up, k + Suc d))"
    using Suc.IH [OF pre, of "Suc k"] by (simp only: sh)
  have "\<not> limit sec \<le> e" using Suc.prems by simp
  then show ?case
    by (subst after_loop.simps) (simp add: after_limit find_upt_step IH del: upt_Suc)
qed

lemma after_round_waits:
  "e + m \<le> limit sec \<Longrightarrow> after_round m sec e = (replicate m Later, e + m)"
  by (induction m arbitrary: e) (simp_all add: after_limit)

lemma after_rounds_wait:
  "r * m \<le> limit sec \<Longrightarrow> ((\<lambda>e. snd (after_round m sec e)) ^^ r) 0 = r * m"
proof (induction r)
  case (Suc r)
  then have "r * m + m \<le> limit sec" by simp
  moreover from this have "r * m \<le> limit sec" by linarith
  ultimately show ?case using Suc.IH by (simp add: after_round_waits)
qed simp

lemma after_round_gives_up:
  "e + k = limit sec \<Longrightarrow> k < m \<Longrightarrow> fst (after_round m sec e) ! k = Gave_up"
proof (induction k arbitrary: e m)
  case 0
  then show ?case by (cases m) (simp_all add: after_limit Let_def split: prod.splits)
next
  case (Suc k)
  then obtain m' where m: "m = Suc m'" "k < m'" by (cases m) auto
  have "fst (after_round m' sec (Suc e)) ! k = Gave_up" using Suc.IH [of "Suc e" m'] Suc.prems m by simp
  moreover have "\<not> limit sec \<le> e" using Suc.prems by simp
  ultimately show ?case by (cases "after_round m' sec (Suc e)") (simp add: m after_limit)
qed

subsection \<open>Lemmas: components\<close>

lemma byte_div16: "byte (c :: char) div 16 < 16" "byte c mod 16 < 16"
  using nat_of_char_less_256 [of c] by (simp_all add: less_mult_imp_div_less)

lemma hex_up_ok: "n < 16 \<Longrightarrow> is_hex (hex_up n) \<and> hex_val (hex_up n) = n"
  by (auto simp: hex_up_def is_hex_def is_digit_def hex_val_def Let_def)

lemma pct_byte_enc: "pct_byte (pct_enc c @ r) = Some (byte c, r)"
  by (simp add: pct_byte_def pct_enc_def hex_up_ok byte_div16)

lemma decode_plain: "c \<noteq> CHR ''%'' \<Longrightarrow> decodeURIComponent (c # s) = map_sum id ((#) c) (decodeURIComponent s)"
  by simp

lemma decode_pct: "ascii c \<Longrightarrow> decodeURIComponent (pct_enc c @ s) = map_sum id ((#) c) (decodeURIComponent s)"
proof -
  assume c: "ascii c"
  have b: "pct_byte (pct_enc c @ s) = Some (byte c, s)" by (rule pct_byte_enc)
  have e: "pct_enc c @ s = CHR ''%'' # (tl (pct_enc c) @ s)" by (simp add: pct_enc_def)
  show ?thesis
    using b c unfolding e by (simp add: ascii_def)
qed

lemma unreserved_plain: "uri_unreserved c \<Longrightarrow> c \<noteq> CHR ''%'' \<and> c \<noteq> CHR ''+'' \<and> c \<noteq> CHR ''&''"
  by (auto simp: uri_unreserved_def alpha_num_def is_digit_def)

lemma encode_Cons:
  "encodeURIComponent (c # s) = (if uri_unreserved c then [c] else pct_enc c) @ encodeURIComponent s"
  by (simp add: encodeURIComponent_def)

lemma encode_Nil [simp]: "encodeURIComponent [] = []"
  by (simp add: encodeURIComponent_def)

lemma decode_encode: "list_all ascii s \<Longrightarrow> decodeURIComponent (encodeURIComponent s) = Inr s"
proof (induction s)
  case (Cons c s)
  then show ?case
    by (simp only: encode_Cons)
      (auto simp: decode_pct decode_plain unreserved_plain simp del: decodeURIComponent.simps(2))
qed simp

lemma byte_hex_up: "n < 16 \<Longrightarrow> byte (hex_up n) = (if n < 10 then 48 + n else 55 + n)"
  by (simp add: hex_up_def)

lemma hex_up_plain:
  assumes "n < 16"
  shows "hex_up n \<noteq> CHR ''+''" "hex_up n \<noteq> CHR ''&''" "hex_up n \<noteq> CHR '';''" "\<not> is_space (hex_up n)"
  using byte_hex_up [OF assms] assms
  by (auto simp: is_space_def split: if_splits dest: arg_cong [where f = "byte"])

lemma encode_chars:
  "c \<in> set (encodeURIComponent s) \<Longrightarrow> uri_unreserved c \<or> c = CHR ''%'' \<or> (\<exists>n < 16. c = hex_up n)"
  by (induction s) (auto simp: encode_Cons pct_enc_def byte_div16 split: if_splits intro: byte_div16)

lemma encode_no_plus: "CHR ''+'' \<notin> set (encodeURIComponent s)"
  by (auto dest!: encode_chars dest: unreserved_plain hex_up_plain)

lemma encode_no_amp: "CHR ''&'' \<notin> set (encodeURIComponent s)"
  by (auto dest!: encode_chars dest: unreserved_plain hex_up_plain)

lemma replace_char_none: "c \<notin> set s \<Longrightarrow> replace_char c t s = s"
  by (induction s) auto

lemma takeWhile_neq: "c \<notin> set s \<Longrightarrow> takeWhile (\<lambda>x. x \<noteq> c) (s @ c # r) = s"
  by (induction s) auto

lemma qs_at_hit: "CHR ''&'' \<notin> set v \<Longrightarrow> qs_at n (n @ ''='' @ v @ ''&'' @ rest) = Some v"
  by (simp add: qs_at_def Let_def takeWhile_neq)

lemma lower_eq: "lower c = CHR ''='' \<Longrightarrow> c = CHR ''=''"
proof -
  assume a: "lower c = CHR ''=''"
  show ?thesis
  proof (cases "byte c \<in> {65..90}")
    case True
    then have "lower c = char_of (byte c + 32)" by (simp add: lower_def)
    then have "byte (lower c) = byte c + 32" using True by simp
    moreover have "byte (lower c) = 61" by (simp only: a) simp
    ultimately show ?thesis using True by simp
  next
    case False
    then have "lower c = c" by (simp only: lower_def if_False)
    then show ?thesis using a by simp
  qed
qed

lemma qs_at_needs_eq:
  assumes "CHR ''='' \<notin> set s" "length n < length s"
  shows "qs_at n (s @ r) = None"
proof -
  let ?k = "n @ ''=''"
  have t: "take (length ?k) (s @ r) = take (length ?k) s" using assms(2) by simp
  have "map lower (take (length ?k) s) \<noteq> map lower ?k"
  proof
    assume "map lower (take (length ?k) s) = map lower ?k"
    then have "lower CHR ''='' \<in> lower ` set (take (length ?k) s)"
      by (metis in_set_conv_decomp list.set_map imageI)
    moreover have "lower CHR ''='' = CHR ''=''" by (simp add: lower_def)
    ultimately obtain c where "c \<in> set (take (length ?k) s)" "lower c = CHR ''=''" by auto
    then have "CHR ''='' \<in> set s" using lower_eq set_take_subset by fastforce
    then show False using assms(1) by simp
  qed
  then show ?thesis by (simp only: qs_at_def Let_def t if_False)
qed

lemma qs_find_skip:
  "CHR ''?'' \<notin> set s \<Longrightarrow> CHR ''&'' \<notin> set s \<Longrightarrow> qs_find n (s @ CHR ''?'' # r) =
     (case qs_at n r of Some v \<Rightarrow> Some v | None \<Rightarrow> qs_find n r)"
  by (induction s) auto

lemma replace_char_set: "c \<notin> set t \<Longrightarrow> c \<notin> set (replace_char c t s)"
  by (induction s) auto

lemma replace_char_subset: "set (replace_char c t s) \<subseteq> set s \<union> set t"
  by (induction s) auto

lemma stripHTML_clean: "set (stripHTML s) \<inter> {CHR ''<'', CHR ''>'', dquote} = {}"
proof -
  let ?a = "replace_char CHR ''>'' ''&gt;'' s"
  let ?b = "replace_char CHR ''<'' ''&lt;'' ?a"
  have "CHR ''>'' \<notin> set ?a" by (rule replace_char_set) simp
  then have "CHR ''>'' \<notin> set ?b" using replace_char_subset [of "CHR ''<''" "''&lt;''" ?a] by auto
  moreover have "CHR ''<'' \<notin> set ?b" by (rule replace_char_set) simp
  moreover have "dquote \<notin> set (stripHTML s)"
    unfolding stripHTML_def by (rule replace_char_set) simp
  moreover have "set (stripHTML s) \<subseteq> set ?b \<union> set ''&quot;''"
    unfolding stripHTML_def by (rule replace_char_subset)
  ultimately show ?thesis by auto
qed

lemma stripHTML_idem: "stripHTML (stripHTML s) = stripHTML s"
  using stripHTML_clean [of s] by (subst (1) stripHTML_def) (simp add: replace_char_none)

subsection \<open>Properties\<close>

text \<open>
  C26. Waiting ends: a caller of \<open>after\<close> alone on its page runs its function at the first poll at
  which the condition holds, provided that comes within ten times its limit in seconds plus ten
  polls (110 for the limit of 10 that the pages use), and gives up exactly there otherwise.
\<close>

theorem after_runs_or_gives_up:
  "after_loop until sec 0 0 =
     (case find until [0..<limit sec] of
        Some k \<Rightarrow> (Ran, k)
      | None \<Rightarrow> (Gave_up, limit sec))"
  using after_loop_find [of 0 "limit sec" sec until 0] by (simp only: add_0)

text \<open>
  The counter is one for the page: with \<open>m\<close> callers waiting, \<open>r\<close> rounds advance it by \<open>r * m\<close>, so
  in the round where it meets the limit a caller gives up although it has waited only \<open>r\<close> rounds,
  an \<open>m\<close>-th of its limit.
\<close>

theorem after_limit_is_shared:
  assumes "r * m + k = limit sec" "k < m"
  shows "((\<lambda>e. snd (after_round m sec e)) ^^ r) 0 = r * m \<and>
         fst (after_round m sec (r * m)) ! k = Gave_up"
  using assms by (intro conjI after_rounds_wait after_round_gives_up [of _ _ sec]) simp_all

lemma after_limit_is_shared_witness:
  "((\<lambda>e. snd (after_round 2 10 e)) ^^ 55) 0 = 55 * 2 \<and> fst (after_round 2 10 (55 * 2)) ! 0 = Gave_up"
  by (rule after_limit_is_shared) (simp_all add: limit_def)

text \<open>
  A parameter that was put into a link with \<open>encodeURIComponent\<close> is read back by
  \<open>getQueryString\<close>, whatever follows it, for ASCII text.
\<close>

theorem getQueryString_roundtrip:
  assumes "list_all ascii v" "set base \<inter> {CHR ''?'', CHR ''&'', CHR ''=''} = {}" "length name < length base"
  shows "getQueryString name (base @ ''?'' @ name @ ''='' @ encodeURIComponent v @ ''&'' @ rest) = Inr v"
proof -
  let ?r = "name @ ''='' @ encodeURIComponent v @ ''&'' @ rest"
  have "qs_at name (base @ CHR ''?'' # ?r) = None"
    using assms(2,3) by (intro qs_at_needs_eq) auto
  moreover have "qs_at name ?r = Some (encodeURIComponent v)"
    by (rule qs_at_hit [OF encode_no_amp])
  then have "qs_find name (base @ CHR ''?'' # ?r) = Some (encodeURIComponent v)"
    using assms(2) qs_find_skip [of base name ?r] by simp
  ultimately show ?thesis
    by (simp add: getQueryString_def replace_char_none encode_no_plus decode_encode assms(1))
qed

lemma getQueryString_roundtrip_witness:
  "getQueryString ''loginref''
     (''http://bomdoo.com'' @ ''?'' @ ''loginref'' @ ''='' @ encodeURIComponent ''/oms?a=1 b'' @ ''&'' @ ''x=2'')
   = Inr ''/oms?a=1 b''"
  by (rule getQueryString_roundtrip) (simp_all add: ascii_def)

text \<open>
  The text \<open>stripHTML\<close> returns holds no angle bracket and no double quote, and stripping it
  again changes nothing: the ampersand is left alone, so a text that was escaped before is not
  told from one that was not.
\<close>

theorem stripHTML_safe_and_idempotent:
  "set (stripHTML s) \<inter> {CHR ''<'', CHR ''>'', dquote} = {} \<and> stripHTML (stripHTML s) = stripHTML s"
  by (simp only: stripHTML_clean stripHTML_idem)

end
