(* ===== verification/Cookie.thy ===== *)
theory Cookie
  imports Utl
begin

text \<open>
  The cookie plugin (\<open>lib/js/jquery.cookie.js\<close>).  What it assigns to \<open>document.cookie\<close> is kept as the
  record of the assigned string's fields; the browser's side, a jar in which a cookie replaces the
  one of the same name, path and domain and an expiry date in the past deletes it, is \<open>jar_store\<close>,
  and what it shows of the jar is \<open>document_cookie\<close>.  An expiry is a number of days (the program
  never passes a \<open>Date\<close>).
\<close>

record options =
  op_expires :: "int option"
  op_path :: string
  op_domain :: string
  op_secure :: bool

definition no_options :: options where
  "no_options = \<lparr>op_expires = None, op_path = '''', op_domain = '''', op_secure = False\<rparr>"

record set_cookie =
  sc_name :: string
  sc_value :: string
  sc_expires :: "int option"
  sc_path :: "string option"
  sc_domain :: "string option"
  sc_secure :: bool

(* src/lib/js/jquery.cookie.js:56-80 jQuery.cookie, with a value *)
definition cookie_set :: "string \<Rightarrow> string option \<Rightarrow> options \<Rightarrow> set_cookie" where
  "cookie_set name value opts =
     (let (value, days) = (case value of
            None \<Rightarrow> ('''', Some (-1))
          | Some v \<Rightarrow> (v, op_expires opts));
          expires = (case days of Some d \<Rightarrow> if d = 0 then None else Some d | None \<Rightarrow> None);
          path = (if op_path opts = [] then None else Some (op_path opts));
          domain = (if op_domain opts = [] then None else Some (op_domain opts))
      in \<lparr>sc_name = name, sc_value = encodeURIComponent value, sc_expires = expires,
          sc_path = path, sc_domain = domain, sc_secure = op_secure opts\<rparr>)"

fun cookie_scan :: "string \<Rightarrow> string list \<Rightarrow> js_error + string option" where
  "cookie_scan name [] = Inr None"
| "cookie_scan name (c # cs) =
     (let cookie = js_trim c
      in if take (length name + 1) cookie = name @ ''=''
         then map_sum id Some (decodeURIComponent (drop (length name + 1) cookie))
         else cookie_scan name cs)"

(* src/lib/js/jquery.cookie.js:81-95 jQuery.cookie, without a value *)
definition cookie_get :: "string \<Rightarrow> string \<Rightarrow> js_error + string option" where
  "cookie_get name document_cookie =
     (if document_cookie \<noteq> [] then cookie_scan name (split_on CHR '';'' document_cookie)
      else Inr None)"

subsection \<open>The browser's jar\<close>

record cookie =
  ck_name :: string
  ck_value :: string
  ck_path :: "string option"
  ck_domain :: "string option"

type_synonym jar = "cookie list"

definition same_slot :: "set_cookie \<Rightarrow> cookie \<Rightarrow> bool" where
  "same_slot sc c \<longleftrightarrow> ck_name c = sc_name sc \<and> ck_path c = sc_path sc \<and> ck_domain c = sc_domain sc"

definition jar_store :: "set_cookie \<Rightarrow> jar \<Rightarrow> jar" where
  "jar_store sc jar =
     (let rest = filter (\<lambda>c. \<not> same_slot sc c) jar
      in if (case sc_expires sc of Some d \<Rightarrow> d < 0 | None \<Rightarrow> False) then rest
         else rest @ [\<lparr>ck_name = sc_name sc, ck_value = sc_value sc, ck_path = sc_path sc,
                       ck_domain = sc_domain sc\<rparr>])"

definition show_cookie :: "cookie \<Rightarrow> string" where
  "show_cookie c = ck_name c @ ''='' @ ck_value c"

definition document_cookie :: "jar \<Rightarrow> string" where
  "document_cookie jar = join ''; '' (map show_cookie jar)"

text \<open>\<open>$.cookie(n)\<close> and \<open>$.cookie(n, v, opts)\<close> on a jar\<close>

definition get_cookie :: "string \<Rightarrow> jar \<Rightarrow> js_error + string option" where
  "get_cookie name jar = cookie_get name (document_cookie jar)"

definition put_cookie :: "string \<Rightarrow> string option \<Rightarrow> options \<Rightarrow> jar \<Rightarrow> jar" where
  "put_cookie name v opts jar = jar_store (cookie_set name v opts) jar"

subsection \<open>Lemmas\<close>

definition cookie_char :: "char \<Rightarrow> bool" where
  "cookie_char c \<longleftrightarrow> uri_unreserved c \<or> c = CHR ''%''"

definition cookie_ok :: "cookie \<Rightarrow> bool" where
  "cookie_ok c \<longleftrightarrow> list_all uri_unreserved (ck_name c) \<and> ck_name c \<noteq> [] \<and> list_all cookie_char (ck_value c)"

lemma unreserved_not: "uri_unreserved c \<Longrightarrow> c \<noteq> CHR '';'' \<and> c \<noteq> CHR ''='' \<and> \<not> is_space c"
  by (auto simp: uri_unreserved_def alpha_num_def is_digit_def is_space_def)

lemma cookie_char_not: "cookie_char c \<Longrightarrow> c \<noteq> CHR '';'' \<and> \<not> is_space c"
  using unreserved_not by (auto simp: cookie_char_def is_space_def)

lemma hex_up_unreserved: "n < 16 \<Longrightarrow> uri_unreserved (hex_up n)"
  by (auto simp: uri_unreserved_def alpha_num_def is_digit_def byte_hex_up)

lemma encode_cookie_chars: "list_all cookie_char (encodeURIComponent s)"
  using encode_chars hex_up_unreserved by (force simp: list_all_iff cookie_char_def)

lemma show_cookie_chars: "cookie_ok c \<Longrightarrow> x \<in> set (show_cookie c) \<Longrightarrow> x \<noteq> CHR '';'' \<and> \<not> is_space x"
  using unreserved_not cookie_char_not
  by (auto simp: cookie_ok_def show_cookie_def list_all_iff is_space_def)

lemma dropWhile_none: "\<forall>x \<in> set s. \<not> P x \<Longrightarrow> dropWhile P s = s"
  by (cases s) auto

lemma trim_plain: "\<forall>x \<in> set s. \<not> is_space x \<Longrightarrow> js_trim s = s"
  by (simp add: js_trim_def dropWhile_none)

lemma trim_space: "\<forall>x \<in> set s. \<not> is_space x \<Longrightarrow> js_trim (CHR '' '' # s) = s"
  using trim_plain [of s] by (simp add: js_trim_def is_space_def)

lemma split_join:
  "list_all cookie_ok jar \<Longrightarrow>
     split_on CHR '';'' (join ''; '' (map show_cookie jar)) =
       (case jar of [] \<Rightarrow> [[]] | c # cs \<Rightarrow> show_cookie c # map (\<lambda>c. CHR '' '' # show_cookie c) cs)"
proof (induction jar)
  case (Cons c cs)
  have c: "CHR '';'' \<notin> set (show_cookie c)" using Cons.prems show_cookie_chars by force
  show ?case
  proof (cases cs)
    case Nil
    then show ?thesis using c by (simp add: split_on_plain)
  next
    case Cons2: (Cons d ds)
    then show ?thesis using Cons c by (simp add: split_on_sep)
  qed
qed simp

lemma name_match:
  assumes "CHR ''='' \<notin> set n" "CHR ''='' \<notin> set name"
  shows "take (length name + 1) (n @ ''='' @ v) = name @ ''='' \<longleftrightarrow> n = name"
proof
  assume eq: "take (length name + 1) (n @ ''='' @ v) = name @ ''=''"
  then have "n @ ''='' @ v = (name @ ''='') @ drop (length name + 1) (n @ ''='' @ v)"
    by (metis append_take_drop_id)
  then have e: "n @ CHR ''='' # v = name @ CHR ''='' # drop (length name + 1) (n @ ''='' @ v)" by simp
  have "takeWhile (\<lambda>c. c \<noteq> CHR ''='') (n @ CHR ''='' # v) = n" by (rule takeWhile_neq [OF assms(1)])
  with e show "n = name" using takeWhile_neq [OF assms(2)] by metis
qed simp

lemma cookie_scan_find:
  assumes "list_all cookie_ok jar" "CHR ''='' \<notin> set name"
    and "\<And>c. c \<in> set jar \<Longrightarrow> js_trim (f c) = show_cookie c"
  shows "cookie_scan name (map f jar) =
    (case find (\<lambda>c. ck_name c = name) jar of
       None \<Rightarrow> Inr None | Some c \<Rightarrow> map_sum id Some (decodeURIComponent (ck_value c)))"
  using assms(1,3)
proof (induction jar)
  case (Cons c cs)
  have n: "CHR ''='' \<notin> set (ck_name c)"
    using Cons.prems(1) unreserved_not by (force simp: cookie_ok_def list_all_iff)
  have t: "js_trim (f c) = ck_name c @ ''='' @ ck_value c"
    using Cons.prems(2) [of c] by (simp add: show_cookie_def)
  show ?case
  proof (cases "ck_name c = name")
    case True
    then show ?thesis by (simp add: t Let_def)
  next
    case False
    then have "take (length name + 1) (js_trim (f c)) \<noteq> name @ ''=''"
      unfolding t using name_match [OF n assms(2)] by blast
    then show ?thesis using Cons False by (simp add: Let_def)
  qed
qed simp

lemma get_cookie_find:
  assumes "list_all cookie_ok jar" "CHR ''='' \<notin> set name"
  shows "get_cookie name jar =
    (case find (\<lambda>c. ck_name c = name) jar of
       None \<Rightarrow> Inr None | Some c \<Rightarrow> map_sum id Some (decodeURIComponent (ck_value c)))"
proof (cases jar)
  case Nil
  then show ?thesis by (simp add: get_cookie_def cookie_get_def document_cookie_def)
next
  case (Cons c cs)
  have "document_cookie jar \<noteq> []"
    using Cons assms(1) by (cases cs) (auto simp: document_cookie_def show_cookie_def)
  moreover have "js_trim (show_cookie d) = show_cookie d \<and> js_trim (CHR '' '' # show_cookie d) = show_cookie d"
    if "d \<in> set jar" for d
  proof -
    have "\<forall>x \<in> set (show_cookie d). \<not> is_space x"
      using that assms(1) show_cookie_chars by (auto simp: list_all_iff)
    then show ?thesis by (intro conjI trim_plain trim_space)
  qed
  moreover have "cookie_scan name (show_cookie c # map (\<lambda>c. CHR '' '' # show_cookie c) cs) =
     cookie_scan name (map show_cookie jar)"
    using cookie_scan_find [of cs name show_cookie] cookie_scan_find [of cs name "\<lambda>c. CHR '' '' # show_cookie c"]
      Cons calculation(2) assms by (simp add: Let_def)
  moreover have "split_on CHR '';'' (document_cookie jar) =
      show_cookie c # map (\<lambda>c. CHR '' '' # show_cookie c) cs"
    unfolding document_cookie_def Cons using split_join [OF assms(1), unfolded Cons] by (simp only: list.case)
  moreover have "cookie_scan name (map show_cookie jar) =
      (case find (\<lambda>c. ck_name c = name) jar of
         None \<Rightarrow> Inr None | Some c \<Rightarrow> map_sum id Some (decodeURIComponent (ck_value c)))"
    using calculation(2) by (intro cookie_scan_find assms) blast
  ultimately show ?thesis by (simp only: get_cookie_def cookie_get_def if_True not_False_eq_True)
qed

text \<open>A jar in which a name is bound in one slot only, the one the given options name.\<close>

definition one_slot :: "string \<Rightarrow> options \<Rightarrow> jar \<Rightarrow> bool" where
  "one_slot name opts jar \<longleftrightarrow>
     list_all (\<lambda>c. ck_name c = name \<longrightarrow> same_slot (cookie_set name None opts) c) jar"

lemma same_slot_value: "same_slot (cookie_set name v opts) c = same_slot (cookie_set name None opts) c"
  by (simp add: same_slot_def cookie_set_def Let_def split: option.splits)

lemma find_rest: "one_slot name opts jar \<Longrightarrow>
   find (\<lambda>c. ck_name c = name) (filter (\<lambda>c. \<not> same_slot (cookie_set name v opts) c) jar) = None"
  by (auto simp: find_None_iff one_slot_def list_all_iff same_slot_value [of name v])

lemma find_append: "find P (xs @ ys) = (case find P xs of None \<Rightarrow> find P ys | Some x \<Rightarrow> Some x)"
  by (induction xs) auto

lemma put_value:
  assumes "list_all cookie_ok jar" "list_all uri_unreserved name" "name \<noteq> []" "list_all ascii v"
    "one_slot name opts jar" "case op_expires opts of Some d \<Rightarrow> 0 \<le> d | None \<Rightarrow> True"
  shows "get_cookie name (put_cookie name (Some v) opts jar) = Inr (Some v)"
proof -
  let ?sc = "cookie_set name (Some v) opts"
  let ?rest = "filter (\<lambda>c. \<not> same_slot ?sc c) jar"
  let ?new = "\<lparr>ck_name = name, ck_value = encodeURIComponent v, ck_path = sc_path ?sc, ck_domain = sc_domain ?sc\<rparr>"
  have put: "put_cookie name (Some v) opts jar = ?rest @ [?new]"
    using assms(6)
    by (auto simp: put_cookie_def jar_store_def cookie_set_def Let_def split: option.splits)
  have "list_all cookie_ok (?rest @ [?new])"
    using assms(1,2,3) encode_cookie_chars by (auto simp: list_all_iff cookie_ok_def)
  moreover have "CHR ''='' \<notin> set name" using assms(2) unreserved_not by (force simp: list_all_iff)
  ultimately show ?thesis
    unfolding put using find_rest [OF assms(5)] assms(4)
    by (simp add: get_cookie_find find_append decode_encode)
qed

lemma put_null:
  assumes "list_all cookie_ok jar" "CHR ''='' \<notin> set name" "one_slot name opts jar"
  shows "get_cookie name (put_cookie name None opts jar) = Inr None"
proof -
  have "put_cookie name None opts jar = filter (\<lambda>c. \<not> same_slot (cookie_set name None opts) c) jar"
    by (simp add: put_cookie_def jar_store_def cookie_set_def Let_def)
  moreover have "list_all cookie_ok (filter (\<lambda>c. \<not> same_slot (cookie_set name None opts) c) jar)"
    using assms(1) by (auto simp: list_all_iff)
  ultimately show ?thesis using find_rest [OF assms(3)] by (simp add: get_cookie_find assms(2))
qed

lemma put_other:
  assumes "list_all cookie_ok jar" "CHR ''='' \<notin> set name" "other \<noteq> name" "CHR ''='' \<notin> set other"
  shows "get_cookie other (put_cookie name None opts jar) = get_cookie other jar"
proof -
  have "find (\<lambda>c. ck_name c = other) (filter (\<lambda>c. \<not> same_slot sc c) jar) = find (\<lambda>c. ck_name c = other) jar"
    if "sc_name sc = name" for sc
    using that assms(3) by (induction jar) (auto simp: same_slot_def)
  moreover have "sc_name (cookie_set name None opts) = name" by (simp add: cookie_set_def Let_def)
  moreover have "put_cookie name None opts jar = filter (\<lambda>c. \<not> same_slot (cookie_set name None opts) c) jar"
    by (simp add: put_cookie_def jar_store_def cookie_set_def Let_def)
  moreover have "list_all cookie_ok (filter (\<lambda>c. \<not> same_slot (cookie_set name None opts) c) jar)"
    using assms(1) by (auto simp: list_all_iff)
  ultimately show ?thesis by (simp add: get_cookie_find assms)
qed

subsection \<open>Properties\<close>



end
