(* ===== verification/Login.thy ===== *)
theory Login
  imports FormPanel Cookie
begin

text \<open>
  Logging in and out: \<open>bmoon.lcs\<close> of the chat site (\<open>pop/fly/js/bmoon.lcs.js\<close>) and the login part of
  \<open>bmoon.dida\<close> of the travel site (\<open>dida/fly/js/bmoon.dida.js\<close>).

  The state is the page of the layout with the cookie jar, the \<open>loginref\<close> parameter, the address of
  the page, whether it has an element \<open>#content\<close> (the layouts do not), and the navigations made.  The validated fields are those the layouts give the class
  \<open>VAL_LOGIN\<close> (\<open>pop/tpl/layout.html\<close>, \<open>dida/tpl/layout.html\<close>).  The timers that follow a login are
  events of their own.
\<close>

subsection \<open>bmoon.lcs\<close>

(* src/pop/fly/js/bmoon.lcs.js:12-25 init *)
datatype lcs_el = L_aname | L_member | L_guest | L_loginaname | L_loginasn | L_overlay | L_content

record lcs = "lcs_el page" +
  l_jar :: jar
  l_loginref :: string
  l_href :: string
  l_has_content :: bool
  l_went :: "string list"

definition site_domain :: string where
  "site_domain = ''bomdoo.com''"

definition site_cookie :: options where
  "site_cookie = no_options\<lparr>op_path := ''/'', op_domain := site_domain\<rparr>"

(* src/pop/fly/js/bmoon.lcs.js:88-101 loginCheck *)
definition loginCheck :: "lcs \<Rightarrow> lcs" where
  "loginCheck s = (case get_cookie ''aname_esc'' (l_jar s) of
       Inl e \<Rightarrow> raise e s
     | Inr (Some aname) \<Rightarrow>
         on L_loginaname (set_val aname) (on L_member show_el (on L_guest hide_el (on L_aname (set_text aname) s)))
     | Inr None \<Rightarrow> on L_guest show_el (on L_member hide_el s))"

(* src/pop/fly/js/bmoon.lcs.js:56-65 login *)
definition login :: "lcs \<Rightarrow> lcs" where
  "login = when_valid [L_loginaname, L_loginasn] (\<lambda>s.
     let aname = e_val (dom s L_loginaname); asn = md5md5 (e_val (dom s L_loginasn))
     in send GET ''/json/app/login'' [(''aname'', JStr aname), (''asn'', JStr asn)] s)"

text \<open>The callback: true when it leaves the timer that loads the next page.\<close>

(* src/pop/fly/js/bmoon.lcs.js:65-72 login, its callback *)
definition login_reply :: "jsv \<Rightarrow> lcs \<Rightarrow> bool \<times> lcs" where
  "login_reply data s =
     (if data = JUndef \<or> data = JNull then (False, throw s)
      else if \<not> is_one (fld data ''success'') \<or> \<not> truthy (fld data ''aname'') then
        (False, alert (errmsg_or data (utf8 [230, 147, 141, 228, 189, 156, 229, 164, 177, 232, 180, 165, 239, 188, 140, 32, 232, 175, 183, 231, 168, 141, 229, 144, 142, 229, 134, 141, 232, 175, 149])) s)
      else (True, on L_overlay hide_el s))"

(* src/pop/fly/js/bmoon.lcs.js:71-71 login, its timer *)
definition login_go :: "lcs \<Rightarrow> lcs" where
  "login_go s = s\<lparr>l_went := l_went s @ [if l_loginref s \<noteq> [] then l_loginref s else l_href s]\<rparr>"

(* src/pop/fly/js/bmoon.lcs.js:75-86 logout *)
definition logout :: "lcs \<Rightarrow> lcs" where
  "logout s =
     (let s1 = send GET ''/json/app/logout'' [] s;
          s2 = s1\<lparr>l_jar := put_cookie ''masn'' None site_cookie (put_cookie ''asn'' None site_cookie
                 (put_cookie ''aname_esc'' None site_cookie (put_cookie ''aname'' None site_cookie (l_jar s1))))\<rparr>
      in loginCheck (on L_loginaname (set_val '''') s2))"

(* src/pop/fly/js/bmoon.lcs.js:30-46 onready *)
definition lcs_onready :: "lcs \<Rightarrow> lcs" where
  "lcs_onready s =
     (let s1 = loginCheck s
      in if thrown s1 \<noteq> thrown s then s1
         else (case getQueryString ''loginref'' (l_href s1) of
             Inl e \<Rightarrow> raise e s1
           | Inr ref \<Rightarrow>
               (let s2 = s1\<lparr>l_loginref := ref\<rparr>;
                    s3 = (if ref \<noteq> [] then on L_overlay show_el s2 else s2)
                in case getQueryString ''vikierr'' (l_href s3) of
                     Inl e \<Rightarrow> raise e s3
                   | Inr vikierr \<Rightarrow>
                       (if vikierr \<noteq> [] \<and> l_has_content s3 then
                          on L_content (append_kid ''text-error'' vikierr) (on L_content empty_el s3)
                        else s3))))"

text \<open>What can happen on the page; the server's replies also set cookies (\<open>SetJar\<close>).\<close>

datatype lcs_ev = LType lcs_el string | LClickLogin | LLoginReply jsv | LLoginTimer | LClickLogout | LSetJar jar | LReady

(* src/pop/fly/js/bmoon.lcs.js:48-54 bindClick *)
fun lcs_step :: "lcs_ev \<Rightarrow> lcs \<Rightarrow> lcs" where
  "lcs_step (LType i v) s = on i (set_val v) s"
| "lcs_step LClickLogin s = login s"
| "lcs_step (LLoginReply d) s = snd (login_reply d s)"
| "lcs_step LLoginTimer s = login_go s"
| "lcs_step LClickLogout s = logout s"
| "lcs_step (LSetJar j) s = s\<lparr>l_jar := j\<rparr>"
| "lcs_step LReady s = lcs_onready s"

subsection \<open>The login of bmoon.dida\<close>

(* src/dida/fly/js/bmoon.dida.js:42-58 init *)
datatype did_el = D_content | D_mnick | D_member | D_guest | D_loginhint | D_loginmname | D_loginmsn | D_overlay

text \<open>
  \<open>d_bound\<close> tells whether the page has the login link: on another site's page \<open>init\<close> returns before
  it looks any element up.
\<close>

record dida = "did_el page" +
  d_bound :: bool
  d_jar :: jar
  d_loginref :: string
  d_href :: string
  d_has_content :: bool
  d_reload :: bool
  d_went :: "string list"

definition dida_domain :: string where
  "dida_domain = ''dididada.org''"

definition dida_cookie :: options where
  "dida_cookie = no_options\<lparr>op_path := ''/'', op_domain := dida_domain\<rparr>"

text \<open>\<open>val(null)\<close> empties a field.\<close>

(* src/dida/fly/js/bmoon.dida.js:121-138 loginCheck *)
definition dida_loginCheck :: "dida \<Rightarrow> bool \<times> dida" where
  "dida_loginCheck s =
     (case get_cookie ''mnick_esc'' (d_jar s) of
        Inl e \<Rightarrow> (False, raise e s)
      | Inr mnick \<Rightarrow>
          (case get_cookie ''mname'' (d_jar s) of
             Inl e \<Rightarrow> (False, raise e s)
           | Inr mname \<Rightarrow>
               (case mnick of
                  Some v \<Rightarrow>
                    (True, on D_loginmname (set_val (case mname of Some m \<Rightarrow> m | None \<Rightarrow> ''''))
                       (on D_member show_el (on D_guest hide_el (on D_mnick (set_text v) s))))
                | None \<Rightarrow> (False, on D_guest show_el (on D_member hide_el s)))))"

(* src/dida/fly/js/bmoon.dida.js:88-96 login *)
definition dida_login :: "dida \<Rightarrow> dida" where
  "dida_login = when_valid [D_loginmname, D_loginmsn] (\<lambda>s.
     let mname = e_val (dom s D_loginmname); msn = md5md5 (e_val (dom s D_loginmsn))
     in send GET ''/json/member/login'' [(''mname'', JStr mname), (''msn'', JStr msn)] s)"

(* src/dida/fly/js/bmoon.dida.js:96-104 login, its callback *)
definition dida_login_reply :: "jsv \<Rightarrow> dida \<Rightarrow> bool \<times> dida" where
  "dida_login_reply data s =
     (if data = JUndef \<or> data = JNull then (False, throw s)
      else if \<not> is_one (fld data ''success'') \<or> \<not> truthy (fld data ''mname'') then
        (False, alert (errmsg_or data (utf8 [230, 147, 141, 228, 189, 156, 229, 164, 177, 232, 180, 165, 239, 188, 140, 32, 232, 175, 183, 231, 168, 141, 229, 144, 142, 229, 134, 141, 232, 175, 149])) s)
      else (let s1 = snd (dida_loginCheck (on D_overlay hide_el s))
            in (d_reload s1 \<and> thrown s1 = thrown s, s1)))"

(* src/dida/fly/js/bmoon.dida.js:103-103 login, its timer *)
definition dida_login_go :: "dida \<Rightarrow> dida" where
  "dida_login_go s = s\<lparr>d_went := d_went s @ [if d_loginref s \<noteq> [] then d_loginref s else d_href s]\<rparr>"

(* src/dida/fly/js/bmoon.dida.js:107-119 logout *)
definition dida_logout :: "dida \<Rightarrow> dida" where
  "dida_logout s =
     (let s1 = send GET ''/json/member/logout'' [] s;
          s2 = s1\<lparr>d_jar := put_cookie ''msn'' None dida_cookie (put_cookie ''mnick_esc'' None dida_cookie
                 (put_cookie ''mnick'' None dida_cookie (put_cookie ''mname'' None dida_cookie (d_jar s1))))\<rparr>
      in snd (dida_loginCheck (on D_loginmname (set_val '''') s2)))"

(* src/dida/fly/js/bmoon.dida.js:64-78 onready *)
definition dida_onready :: "dida \<Rightarrow> dida" where
  "dida_onready s =
     (let s1 = (if d_bound s then snd (dida_loginCheck s) else s)
      in if thrown s1 \<noteq> thrown s then s1
         else (case getQueryString ''loginref'' (d_href s1) of
             Inl e \<Rightarrow> raise e s1
           | Inr ref \<Rightarrow>
               (let s2 = s1\<lparr>d_loginref := ref\<rparr>;
                    s3 = (if ref \<noteq> [] \<and> d_bound s2 then on D_overlay show_el s2 else s2)
                in case getQueryString ''vikierr'' (d_href s3) of
                     Inl e \<Rightarrow> raise e s3
                   | Inr vikierr \<Rightarrow>
                       (if vikierr \<noteq> [] \<and> d_bound s3 \<and> d_has_content s3 then
                          on D_content (append_kid ''text-error'' vikierr) (on D_content empty_el s3)
                        else s3))))"

datatype dida_ev = DType did_el string | DClickLogin | DLoginReply jsv | DLoginTimer | DClickLogout | DSetJar jar | DReady

(* src/dida/fly/js/bmoon.dida.js:80-86 bindClick *)
fun dida_step :: "dida_ev \<Rightarrow> dida \<Rightarrow> dida" where
  "dida_step (DType i v) s = on i (set_val v) s"
| "dida_step DClickLogin s = (if d_bound s then dida_login s else s)"
| "dida_step (DLoginReply d) s = snd (dida_login_reply d s)"
| "dida_step DLoginTimer s = dida_login_go s"
| "dida_step DClickLogout s = (if d_bound s then dida_logout s else s)"
| "dida_step (DSetJar j) s = s\<lparr>d_jar := j\<rparr>"
| "dida_step DReady s = dida_onready s"

subsection \<open>Lemmas\<close>

lemma put_cookie_None: "put_cookie n None opts jar = filter (\<lambda>c. \<not> same_slot (cookie_set n None opts) c) jar"
  by (simp add: put_cookie_def jar_store_def cookie_set_def Let_def)

definition clear_cookies :: "string list \<Rightarrow> options \<Rightarrow> jar \<Rightarrow> jar" where
  "clear_cookies ns opts jar = fold (\<lambda>n. put_cookie n None opts) ns jar"

lemma clear_cookies_subset: "set (clear_cookies ns opts jar) \<subseteq> set jar"
proof (induction ns arbitrary: jar)
  case (Cons n ns)
  have "set (clear_cookies ns opts (put_cookie n None opts jar)) \<subseteq> set (put_cookie n None opts jar)"
    by (rule Cons.IH)
  then show ?case by (auto simp: clear_cookies_def put_cookie_None)
qed (simp add: clear_cookies_def)

lemma clear_cookies_ok: "list_all cookie_ok jar \<Longrightarrow> list_all cookie_ok (clear_cookies ns opts jar)"
  using clear_cookies_subset by (fastforce simp: list_all_iff)

lemma clear_cookies_gone:
  "n \<in> set ns \<Longrightarrow> one_slot n opts jar \<Longrightarrow> c \<in> set (clear_cookies ns opts jar) \<Longrightarrow> ck_name c \<noteq> n"
proof (induction ns arbitrary: jar)
  case (Cons m ns)
  have slot: "one_slot n opts (put_cookie m None opts jar)"
    using Cons.prems(2) by (auto simp: one_slot_def put_cookie_None list_all_iff)
  have rest: "c \<in> set (clear_cookies ns opts (put_cookie m None opts jar))"
    using Cons.prems(3) by (simp add: clear_cookies_def)
  show ?case
  proof (cases "n \<in> set ns")
    case True
    then show ?thesis using Cons.IH slot rest by blast
  next
    case False
    with Cons.prems(1) have "m = n" by simp
    moreover from rest clear_cookies_subset have "c \<in> set (put_cookie m None opts jar)" by blast
    ultimately show ?thesis
      using Cons.prems(2) by (auto simp: put_cookie_None one_slot_def list_all_iff)
  qed
qed simp

lemma get_cleared:
  assumes "list_all cookie_ok jar" "n \<in> set ns" "one_slot n opts jar" "CHR ''='' \<notin> set n"
  shows "get_cookie n (clear_cookies ns opts jar) = Inr None"
proof -
  have "find (\<lambda>c. ck_name c = n) (clear_cookies ns opts jar) = None"
    using clear_cookies_gone [OF assms(2,3)] by (auto simp: find_None_iff)
  then show ?thesis using assms clear_cookies_ok by (simp add: get_cookie_find)
qed

definition pop_cookies :: "string list" where
  "pop_cookies = [''aname'', ''aname_esc'', ''asn'', ''masn'']"

definition dida_cookies :: "string list" where
  "dida_cookies = [''mname'', ''mnick'', ''mnick_esc'', ''msn'']"

lemma logout_eq:
  "logout s = loginCheck (on L_loginaname (set_val '''')
     ((send GET ''/json/app/logout'' [] s)\<lparr>l_jar := clear_cookies pop_cookies site_cookie (l_jar s)\<rparr>))"
  by (simp add: logout_def clear_cookies_def pop_cookies_def Let_def send_def)

lemma dida_logout_eq:
  "dida_logout s = snd (dida_loginCheck (on D_loginmname (set_val '''')
     ((send GET ''/json/member/logout'' [] s)\<lparr>d_jar := clear_cookies dida_cookies dida_cookie (d_jar s)\<rparr>)))"
  by (simp add: dida_logout_def clear_cookies_def dida_cookies_def Let_def send_def)

lemma on_jar [simp]: "l_jar (on i f s) = l_jar s" "d_jar (on j g t) = d_jar t"
  by (simp_all add: on_def)

lemma raise_jar [simp]: "l_jar (raise e s) = l_jar s" "d_jar (raise e t) = d_jar t"
  by (simp_all add: raise_def)

lemma loginCheck_jar [simp]: "l_jar (loginCheck s) = l_jar s"
  by (auto simp: loginCheck_def split: sum.splits option.splits)

lemma dida_loginCheck_jar [simp]: "d_jar (snd (dida_loginCheck s)) = d_jar s"
  by (auto simp: dida_loginCheck_def split: sum.splits option.splits)

lemma loginCheck_guest:
  assumes "get_cookie ''aname_esc'' (l_jar s) = Inr None"
  shows "e_shown (dom (loginCheck s) L_guest) \<and> \<not> e_shown (dom (loginCheck s) L_member) \<and>
    e_val (dom (loginCheck s) L_loginaname) = e_val (dom s L_loginaname)"
  using assms by (simp add: loginCheck_def dom_defs)

lemma dida_loginCheck_guest:
  assumes "get_cookie ''mnick_esc'' (d_jar s) = Inr None" "get_cookie ''mname'' (d_jar s) = Inr None"
  shows "e_shown (dom (snd (dida_loginCheck s)) D_guest) \<and> \<not> e_shown (dom (snd (dida_loginCheck s)) D_member) \<and>
    e_val (dom (snd (dida_loginCheck s)) D_loginmname) = e_val (dom s D_loginmname)"
  using assms by (simp add: dida_loginCheck_def dom_defs)

text \<open>No request of either page carries a password in the clear.\<close>

lemma all_hashed_fields [simp]:
  "all_hashed (s\<lparr>l_jar := j\<rparr>) = all_hashed s" "all_hashed (s\<lparr>l_loginref := r\<rparr>) = all_hashed s"
  "all_hashed (s\<lparr>l_went := w\<rparr>) = all_hashed s"
  "all_hashed (t\<lparr>d_jar := j\<rparr>) = all_hashed t" "all_hashed (t\<lparr>d_loginref := r\<rparr>) = all_hashed t"
  "all_hashed (t\<lparr>d_went := w\<rparr>) = all_hashed t"
  by (simp_all add: all_hashed_def)

lemma all_hashed_loginCheck [simp]:
  "all_hashed (loginCheck s) = all_hashed s" "all_hashed (snd (dida_loginCheck t)) = all_hashed t"
  by (auto simp: loginCheck_def dida_loginCheck_def split: sum.splits option.splits)

lemma lcs_step_hashed: "all_hashed s \<Longrightarrow> all_hashed (lcs_step e s)"
  by (cases e)
    (auto simp: login_def when_valid_eq param_hashed_def Let_def login_reply_def login_go_def logout_def
      lcs_onready_def split: sum.splits)

lemma dida_step_hashed: "all_hashed s \<Longrightarrow> all_hashed (dida_step e s)"
  by (cases e)
    (auto simp: dida_login_def when_valid_eq param_hashed_def Let_def dida_login_reply_def dida_login_go_def
      dida_logout_def dida_onready_def split: sum.splits)

interpretation lcs: machine lcs_step "all_hashed :: lcs \<Rightarrow> bool"
  by unfold_locales (rule lcs_step_hashed)

interpretation dida: machine dida_step "all_hashed :: dida \<Rightarrow> bool"
  by unfold_locales (rule dida_step_hashed)

subsection \<open>Properties\<close>


definition fresh_lcs :: "string \<Rightarrow> jar \<Rightarrow> lcs" where
  "fresh_lcs href jar = \<lparr>dom = (\<lambda>_. blank), reqs = [], alerts = [], thrown = [], l_jar = jar, l_loginref = '''',
     l_href = href, l_has_content = False, l_went = []\<rparr>"

definition fresh_dida :: "string \<Rightarrow> jar \<Rightarrow> dida" where
  "fresh_dida href jar = \<lparr>dom = (\<lambda>_. blank), reqs = [], alerts = [], thrown = [], d_bound = True, d_jar = jar,
     d_loginref = '''', d_href = href, d_has_content = False, d_reload = True, d_went = []\<rparr>"


end
