(* ===== verification/Forms.thy ===== *)
theory Forms
  imports Login
begin

text \<open>
  Code that the pages of both sites repeat: the answer whether a name exists, and the check that two
  password fields agree; with the lemmas on them and the hypotheses of the interpretations of
  \<open>form_panel\<close>.
\<close>

text \<open>
  The callbacks on the existence of a name, the same on four pages but for the answer that is the
  bad one: \<open>bad\<close> tells whether it came.
\<close>

(* src/pop/fly/js/app/new.js:41-54 appCheck, its callback *)
definition exist_reply :: "'i \<Rightarrow> bool \<Rightarrow> jsv \<Rightarrow> ('i, 'z) page_scheme \<Rightarrow> ('i, 'z) page_scheme" where
  "exist_reply p bad data s =
     (let s1 = on p (remove_class ''loading'') s
      in if data = JUndef \<or> data = JNull then throw s1
         else if is_one (fld data ''success'') then
           (if bad then on p (add_class ''error'') (add_note p ''vres'' (to_str (fld data ''msg'')) s1)
            else on p (add_class ''success'') s1)
         else add_note p ''vres'' (errmsg data) (on p (add_class ''error'') s1))"

text \<open>
  The check that two password fields agree, the same on two pages, marks the parent of \<open>this\<close>.  As
  the blur handler of the second field that is its panel; called from the submit handler as a method
  of the page's object, \<open>this\<close> is that object, which has no parent, so nothing is marked.
\<close>

definition on_opt :: "'i option \<Rightarrow> (elem \<Rightarrow> elem) \<Rightarrow> ('i, 'z) page_scheme \<Rightarrow> ('i, 'z) page_scheme" where
  "on_opt p f s = (case p of Some i \<Rightarrow> on i f s | None \<Rightarrow> s)"

(* src/pop/fly/js/app/pass.js:30-49 asnCheck *)
definition pass_check :: "'i \<Rightarrow> 'i \<Rightarrow> 'i option \<Rightarrow> ('i, 'z) page_scheme \<Rightarrow> bool \<times> ('i, 'z) page_scheme" where
  "pass_check a b p s0 =
     (case inputval [a, b] s0 of
        (False, s1) \<Rightarrow> (False, s1)
      | (True, s1) \<Rightarrow>
          (let s = on_opt p (\<lambda>e. remove_class ''error'' (remove_class ''success'' (remove_kids ''vres'' e))) s1
           in if e_val (dom s a) \<noteq> e_val (dom s b) then
                (False, on_opt p (\<lambda>e. add_class ''error'' (append_kid ''vres'' (utf8 [228, 184, 164, 230, 172, 161, 229, 175, 134, 231, 160, 129, 228, 184, 141, 229, 140, 185, 233, 133, 141]) e)) s)
              else (True, on_opt p (add_class ''success'') s)))"

subsection \<open>Lemmas\<close>

lemma ready_marked: "ready vals (fold (\<lambda>i. on i mark_valid) is s) = ready vals s"
proof -
  have "field_ok (dom (fold (\<lambda>i. on i mark_valid) is s) j) = field_ok (dom s j)" for j
    by (induction "is" arbitrary: s) simp_all
  then show ?thesis by (simp add: ready_def)
qed

lemma ready_inputval: "ready vals s \<Longrightarrow> inputval vals s = (True, fold (\<lambda>i. on i mark_valid) vals s)"
  using inputval_true [of vals s] inputval_fst [of vals s] by (simp add: ready_def prod_eq_iff)

lemma not_ready_inputval: "\<not> ready vals s \<Longrightarrow> fst (inputval vals s) = False"
  using inputval_fst [of vals s] by (simp add: ready_def)

lemma when_valid_ready:
  "when_valid vals k s =
     (if ready vals s then k (fold (\<lambda>i. on i mark_valid) vals s) else snd (inputval vals s))"
  by (simp add: when_valid_eq ready_def)

lemma on_opt_frame [simp]:
  "reqs (on_opt p f s) = reqs s" "alerts (on_opt p f s) = alerts s" "thrown (on_opt p f s) = thrown s"
  "on_opt None f s = s" "all_hashed (on_opt p f s) = all_hashed s"
  by (simp_all add: on_opt_def split: option.splits)

lemma pass_check_not_ready:
  "\<not> ready [a, b] s \<Longrightarrow> pass_check a b p s = (False, snd (inputval [a, b] s))"
  using not_ready_inputval [of "[a, b]" s] by (cases "inputval [a, b] s") (simp add: pass_check_def)

lemma pass_check_None:
  "pass_check a b None s =
     (if ready [a, b] s then (e_val (dom s a) = e_val (dom s b), fold (\<lambda>i. on i mark_valid) [a, b] s)
      else (False, snd (inputval [a, b] s)))"
proof (cases "ready [a, b] s")
  case True
  have "e_val (dom (fold (\<lambda>i. on i mark_valid) [a, b] s) i) = e_val (dom s i)" for i
    by (rule fold_mark_val)
  with True show ?thesis
    by (simp add: pass_check_def ready_inputval Let_def del: fold.simps)
next
  case False
  then show ?thesis by (simp add: pass_check_not_ready)
qed

text \<open>Submitting a new password: sent only when the fields pass and agree; nothing else is marked.\<close>

definition pass_submit :: "'i \<Rightarrow> 'i \<Rightarrow> (('i, 'z) page_scheme \<Rightarrow> ('i, 'z) page_scheme) \<Rightarrow>
    ('i, 'z) page_scheme \<Rightarrow> ('i, 'z) page_scheme" where
  "pass_submit a b k = when_valid [a, b] (\<lambda>s0. case pass_check a b None s0 of (False, s) \<Rightarrow> s | (True, s) \<Rightarrow> k s)"

lemma pass_submit_eq:
  "pass_submit a b k s =
     (if ready [a, b] s then
        (let s' = fold (\<lambda>i. on i mark_valid) [a, b] (fold (\<lambda>i. on i mark_valid) [a, b] s)
         in if e_val (dom s a) = e_val (dom s b) then k s' else s')
      else snd (inputval [a, b] s))"
proof -
  have "ready [a, b] (fold (\<lambda>i. on i mark_valid) [a, b] s) = ready [a, b] s"
    by (rule ready_marked)
  moreover have "e_val (dom (fold (\<lambda>i. on i mark_valid) [a, b] s) i) = e_val (dom s i)" for i
    by (rule fold_mark_val)
  ultimately show ?thesis
    by (simp add: pass_submit_def when_valid_ready pass_check_None Let_def del: fold.simps)
qed

lemma pass_submit_dom:
  assumes "q \<notin> {a, b}" "\<And>s. dom (k s) q = f (dom s q)"
  shows "dom (pass_submit a b k s) q =
    (if ready [a, b] s \<and> e_val (dom s a) = e_val (dom s b) then f (dom s q) else dom s q)"
  using assms by (simp add: pass_submit_eq Let_def inputval_other)

lemma pass_submit_reqs:
  assumes "\<And>s. reqs (k s) = reqs s @ [r (e_val (dom s a))]"
  shows "reqs (pass_submit a b k s) =
    (if ready [a, b] s \<and> e_val (dom s a) = e_val (dom s b) then reqs s @ [r (e_val (dom s a))] else reqs s)"
proof -
  have "e_val (dom (fold (\<lambda>i. on i mark_valid) [a, b] t) i) = e_val (dom t i)" for t i
    by (rule fold_mark_val)
  then show ?thesis using assms by (simp add: pass_submit_eq Let_def del: fold.simps)
qed

lemma all_hashed_pass_check [simp]: "all_hashed (snd (pass_check a b p s)) = all_hashed s"
proof (cases "ready [a, b] s")
  case True
  then show ?thesis by (simp add: pass_check_def ready_inputval Let_def del: fold.simps)
next
  case False
  then show ?thesis by (simp add: pass_check_not_ready)
qed

lemma all_hashed_exist_reply [simp]: "all_hashed (exist_reply p bad d s) = all_hashed s"
  by (simp add: exist_reply_def Let_def)

lemma exist_reply_panel:
  "is_reply d \<Longrightarrow> dom (exist_reply p bad d s) p =
     panel_done (success d \<and> \<not> bad)
       (if success d then if bad then [(''vres'', to_str (fld d ''msg''))] else [] else [(''vres'', errmsg d)])
       (dom s p)"
  by (simp add: exist_reply_def Let_def is_reply_def success_def panel_done_def dom_defs)

lemma settle_frame:
  assumes "\<And>s. reqs (yes s) = reqs s" "\<And>s. reqs (no s) = reqs s"
  shows "reqs (settle p d yes no s) = reqs s"
  using assms by (simp add: settle_def Let_def)

text \<open>The plain submit as the contract of \<open>form_request\<close> wants it.\<close>

definition send_form :: "'i list \<Rightarrow> 'i \<Rightarrow> http \<Rightarrow> string \<Rightarrow> (('i, 'z) page_scheme \<Rightarrow> (string \<times> jsv) list) \<Rightarrow>
    ('i, 'z) page_scheme \<Rightarrow> ('i, 'z) page_scheme" where
  "send_form vals p m u ps = when_valid vals (\<lambda>s. send m u (ps s) (on p (panel_begin ''vres'') s))"

lemma send_form_dom:
  "q \<notin> set vals \<Longrightarrow> dom (send_form vals p m u ps s) q =
     (if ready vals s \<and> q = p then panel_begin ''vres'' (dom s q) else dom s q)"
  by (cases "q = p") (simp_all add: send_form_def when_valid_ready fold_mark_dom inputval_other)

lemma send_form_reqs:
  "reqs (send_form vals p m u ps s) =
     (if ready vals s
      then reqs s @ [\<lparr>r_method = m, r_url = u, r_params = ps (fold (\<lambda>i. on i mark_valid) vals s)\<rparr>]
      else reqs s)"
  by (simp add: send_form_def when_valid_ready)

lemma all_hashed_send_form:
  "all_hashed s \<Longrightarrow> (\<And>t. list_all param_hashed (ps t)) \<Longrightarrow> all_hashed (send_form vals p m u ps s)"
  by (simp add: send_form_def when_valid_ready)

definition vres :: "jsv \<Rightarrow> (string \<times> string) list" where
  "vres d = [(''vres'', errmsg d)]"

lemma all_hashed_settle_note [simp]:
  "all_hashed (settle p d (add_note p c m) (add_note p c' m') s) = all_hashed s"
  "all_hashed (settle p d (\<lambda>s. s) (add_note p c' m') s) = all_hashed s"
  by (simp_all add: all_hashed_settle)

lemma all_hashed_pass_submit:
  "all_hashed s \<Longrightarrow> (\<And>t. all_hashed t \<Longrightarrow> all_hashed (k t)) \<Longrightarrow> all_hashed (pass_submit a b k s)"
  by (simp add: pass_submit_eq Let_def)

end
