(* ===== verification/PopApp.thy ===== *)
theory PopApp
  imports Forms
begin

text \<open>
  The account pages of the chat site (\<open>pop/fly/js/app/\<close>): charging, the e-mail address, registering
  an application, changing and resetting the password.  Each page has a datatype of the elements
  its \<open>init\<close> looks up and of the parents its handlers mark, one definition per handler and per
  callback, and an event datatype with the step its \<open>bindClick\<close> sets up.  The fields a submit
  validates are those of its class in the page's template (\<open>pop/tpl/app/\<close>, \<open>pop/pager/app/\<close>).

  Each form is an interpretation of \<open>form_panel\<close> or \<open>form_request\<close>.
\<close>

subsection \<open>charge.js\<close>

(* src/pop/fly/js/app/charge.js:9-11 init *)
datatype charge_el = Mpre | CgLink | CgSubmit | CgPanel

(* src/pop/fly/js/app/charge.js:26-29 bindClick, blur of mpre *)
definition mpre_blur :: "charge_el page \<Rightarrow> charge_el page" where
  "mpre_blur s = on CgSubmit show_el (on CgLink show_el s)"

(* src/pop/fly/js/app/charge.js:33-43 charge *)
definition charge :: "charge_el page \<Rightarrow> charge_el page" where
  "charge = send_form [Mpre] CgPanel POST ''/json/app/charge'' (\<lambda>s.
     [(''_op'', JStr ''add''), (''mpre'', JStr (e_val (dom s Mpre)))])"

(* src/pop/fly/js/app/charge.js:43-52 charge, its callback *)
definition charge_reply :: "jsv \<Rightarrow> charge_el page \<Rightarrow> charge_el page" where
  "charge_reply data = settle CgPanel data
     (add_note CgPanel ''vres'' (utf8 [231, 148, 179, 232, 175, 183, 229, 133, 133, 229, 128, 188, 230, 136, 144, 229, 138, 159, 239, 188, 140, 230, 146, 173, 232, 177, 134, 229, 183, 165, 228, 189, 156, 228, 186, 186, 229, 145, 152, 228, 188, 154, 229, 156, 168, 49, 228, 184, 170, 229, 183, 165, 228, 189, 156, 230, 151, 165, 229, 134, 133, 231, 161, 174, 232, 174, 164, 228, 189, 160, 231, 154, 132, 228, 187, 152, 230, 172, 190, 227, 128, 130]))
     (add_note CgPanel ''vres'' (errmsg data))"

datatype charge_ev = CgType string | CgBlur | CgClick | CgReply jsv

(* src/pop/fly/js/app/charge.js:23-31 bindClick *)
fun charge_step :: "charge_ev \<Rightarrow> charge_el page \<Rightarrow> charge_el page" where
  "charge_step (CgType v) s = on Mpre (set_val v) s"
| "charge_step CgBlur s = mpre_blur s"
| "charge_step CgClick s = charge s"
| "charge_step (CgReply d) s = charge_reply d s"

subsection \<open>info.js\<close>

(* src/pop/fly/js/app/info.js:9-10 init *)
datatype info_el = InEmail | InEmailmod | InPanel

(* src/pop/fly/js/app/info.js:26-28 bindClick, blur of email *)
definition email_blur :: "info_el page \<Rightarrow> info_el page" where
  "email_blur s = on InEmail (set_attr ''disabled'' ''disabled'') s"

(* src/pop/fly/js/app/info.js:29-31 bindClick, click of email-mod *)
definition emailmod_click :: "info_el page \<Rightarrow> info_el page" where
  "emailmod_click s = on InEmail (remove_attr ''disabled'') s"

(* src/pop/fly/js/app/info.js:34-44 modEmail *)
definition modEmail :: "info_el page \<Rightarrow> info_el page" where
  "modEmail = send_form [InEmail] InPanel POST ''/json/oms/edit'' (\<lambda>s.
     [(''_op'', JStr ''mod''), (''email'', JStr (e_val (dom s InEmail)))])"

(* src/pop/fly/js/app/info.js:44-52 modEmail, its callback *)
definition modEmail_reply :: "jsv \<Rightarrow> info_el page \<Rightarrow> info_el page" where
  "modEmail_reply data = settle InPanel data (\<lambda>s. s) (add_note InPanel ''vres'' (errmsg data))"

text \<open>The user can type only while the field is not disabled.\<close>

datatype info_ev = InType string | InBlur | InModClick | InReply jsv

(* src/pop/fly/js/app/info.js:22-32 bindClick *)
fun info_step :: "info_ev \<Rightarrow> info_el page \<Rightarrow> info_el page" where
  "info_step (InType v) s =
     (if e_attrs (dom s InEmail) ''disabled'' = None then modEmail (on InEmail (set_val v) s) else s)"
| "info_step InBlur s = email_blur s"
| "info_step InModClick s = emailmod_click s"
| "info_step (InReply d) s = modEmail_reply d s"

subsection \<open>new.js\<close>

(* src/pop/fly/js/app/new.js:9-12 init *)
datatype new_el = NwAname | NwEmail | NwAsn | NwAnamePanel | NwSubmitPanel | NwAdd | NwCopy

text \<open>The page together with the login part of its layout.\<close>

record app_new = "new_el page" +
  nw_lcs :: lcs

(* src/pop/fly/js/app/new.js:31-41 appCheck *)
definition appCheck :: "app_new \<Rightarrow> app_new" where
  "appCheck s =
     (let aname = e_val (dom s NwAname)
      in if 0 < js_len aname then
           send GET ''/json/app/exist'' [(''aname'', JStr aname)] (on NwAnamePanel (panel_begin ''vres'') s)
         else s)"

(* src/pop/fly/js/app/new.js:41-54 appCheck, its callback *)
definition appCheck_reply :: "jsv \<Rightarrow> app_new \<Rightarrow> app_new" where
  "appCheck_reply data = exist_reply NwAnamePanel (is_one (fld data ''exist'')) data"

(* src/pop/fly/js/app/new.js:58-72 appAdd *)
definition appAdd :: "app_new \<Rightarrow> app_new" where
  "appAdd = when_valid [NwAname, NwEmail, NwAsn] (\<lambda>s0.
     let s = on NwAsn (set_val (md5md5 (e_val (dom s0 NwAsn)))) s0;
         aname = e_val (dom s NwAname); email = e_val (dom s NwEmail); asn = e_val (dom s NwAsn)
     in send POST ''/json/app/new''
          [(''_op'', JStr ''add''), (''aname'', JStr aname), (''email'', JStr email), (''asn'', JStr asn)]
          (on NwSubmitPanel (panel_begin ''vres'') s))"

(* src/pop/fly/js/app/new.js:72-85 appAdd, its callback *)
definition appAdd_reply :: "jsv \<Rightarrow> app_new \<Rightarrow> app_new" where
  "appAdd_reply data s =
     (let s1 = on NwSubmitPanel (remove_class ''loading'') s
      in if data = JUndef \<or> data = JNull then throw s1
         else if \<not> is_one (fld data ''success'') \<or> \<not> truthy (fld data ''aname'') then
           add_note NwSubmitPanel ''vres'' (errmsg data) (on NwSubmitPanel (add_class ''error'') s1)
         else on NwSubmitPanel (add_class ''success'') s1)"

(* src/pop/fly/js/app/new.js:79-83 appAdd, its timer *)
definition appAdd_done :: "app_new \<Rightarrow> app_new" where
  "appAdd_done s = (on NwCopy show_el (on NwAdd hide_el s))\<lparr>nw_lcs := loginCheck (nw_lcs s)\<rparr>"

datatype new_ev = NwType new_el string | NwBlur | NwCheckReply jsv | NwClick | NwAddReply jsv | NwTimer | NwLcs lcs_ev

(* src/pop/fly/js/app/new.js:24-29 bindClick *)
fun new_step :: "new_ev \<Rightarrow> app_new \<Rightarrow> app_new" where
  "new_step (NwType i v) s = on i (set_val v) s"
| "new_step NwBlur s = appCheck s"
| "new_step (NwCheckReply d) s = appCheck_reply d s"
| "new_step NwClick s = appAdd s"
| "new_step (NwAddReply d) s = appAdd_reply d s"
| "new_step NwTimer s = appAdd_done s"
| "new_step (NwLcs e) s = s\<lparr>nw_lcs := lcs_step e (nw_lcs s)\<rparr>"

subsection \<open>pass.js\<close>

(* src/pop/fly/js/app/pass.js:9-11 init *)
datatype pass_el = PsAsn | PsAsnr | PsAsnrPanel | PsSubmitPanel

(* src/pop/fly/js/app/pass.js:30-49 asnCheck *)
definition asnCheck :: "pass_el option \<Rightarrow> pass_el page \<Rightarrow> bool \<times> pass_el page" where
  "asnCheck = pass_check PsAsn PsAsnr"

(* src/pop/fly/js/app/pass.js:51-62 appPass *)
definition appPass :: "pass_el page \<Rightarrow> pass_el page" where
  "appPass = pass_submit PsAsn PsAsnr (\<lambda>s.
     let asn = md5md5 (e_val (dom s PsAsn))
     in send POST ''/json/oms/edit'' [(''_op'', JStr ''mod''), (''asn'', JStr asn)]
          (on PsSubmitPanel (panel_begin ''vres'') s))"

(* src/pop/fly/js/app/pass.js:62-70 appPass, its callback *)
definition appPass_reply :: "jsv \<Rightarrow> pass_el page \<Rightarrow> pass_el page" where
  "appPass_reply data = settle PsSubmitPanel data (\<lambda>s. s) (add_note PsSubmitPanel ''vres'' (errmsg data))"

datatype pass_ev = PsType pass_el string | PsBlur | PsClick | PsReply jsv

(* src/pop/fly/js/app/pass.js:23-28 bindClick *)
fun pass_step :: "pass_ev \<Rightarrow> pass_el page \<Rightarrow> pass_el page" where
  "pass_step (PsType i v) s = on i (set_val v) s"
| "pass_step PsBlur s = snd (asnCheck (Some PsAsnrPanel) s)"
| "pass_step PsClick s = appPass s"
| "pass_step (PsReply d) s = appPass_reply d s"

subsection \<open>reset.js\<close>

(* src/pop/fly/js/app/reset.js:9-10 init *)
datatype reset_el = RsAname | RsAnamePanel | RsSubmitPanel

(* src/pop/fly/js/app/reset.js:29-39 appCheck *)
definition reset_appCheck :: "reset_el page \<Rightarrow> reset_el page" where
  "reset_appCheck s =
     (let aname = e_val (dom s RsAname)
      in if 0 < js_len aname then
           send GET ''/json/app/exist'' [(''aname'', JStr aname)] (on RsAnamePanel (panel_begin ''vres'') s)
         else s)"

(* src/pop/fly/js/app/reset.js:39-52 appCheck, its callback *)
definition reset_appCheck_reply :: "jsv \<Rightarrow> reset_el page \<Rightarrow> reset_el page" where
  "reset_appCheck_reply data = exist_reply RsAnamePanel (loose_eq (fld data ''exist'') (jint 0)) data"

(* src/pop/fly/js/app/reset.js:56-66 appReset *)
definition appReset :: "reset_el page \<Rightarrow> reset_el page" where
  "appReset = send_form [RsAname] RsSubmitPanel GET ''/json/app/reset'' (\<lambda>s.
     [(''aname'', JStr (e_val (dom s RsAname)))])"

(* src/pop/fly/js/app/reset.js:66-75 appReset, its callback *)
definition appReset_reply :: "jsv \<Rightarrow> reset_el page \<Rightarrow> reset_el page" where
  "appReset_reply data = settle RsSubmitPanel data
     (add_note RsSubmitPanel ''vres'' (utf8 [233, 130, 174, 228, 187, 182, 229, 143, 145, 233, 128, 129, 230, 136, 144, 229, 138, 159, 239, 188, 140, 228, 184, 128, 229, 136, 134, 233, 146, 159, 229, 183, 166, 229, 143, 179, 233, 128, 129, 232, 190, 190, 227, 128, 130]))
     (add_note RsSubmitPanel ''vres'' (errmsg data))"

datatype reset_ev = RsType string | RsClick | RsReply jsv

(* src/pop/fly/js/app/reset.js:22-27 bindClick *)
fun reset_step :: "reset_ev \<Rightarrow> reset_el page \<Rightarrow> reset_el page" where
  "reset_step (RsType v) s = on RsAname (set_val v) s"
| "reset_step RsClick s = appReset s"
| "reset_step (RsReply d) s = appReset_reply d s"

subsection \<open>The forms meet the contract\<close>

definition charge_msgs :: "jsv \<Rightarrow> (string \<times> string) list" where
  "charge_msgs d = (if success d
     then [(''vres'', (utf8 [231, 148, 179, 232, 175, 183, 229, 133, 133, 229, 128, 188, 230, 136, 144, 229, 138, 159, 239, 188, 140, 230, 146, 173, 232, 177, 134, 229, 183, 165, 228, 189, 156, 228, 186, 186, 229, 145, 152, 228, 188, 154, 229, 156, 168, 49, 228, 184, 170, 229, 183, 165, 228, 189, 156, 230, 151, 165, 229, 134, 133, 231, 161, 174, 232, 174, 164, 228, 189, 160, 231, 154, 132, 228, 187, 152, 230, 172, 190, 227, 128, 130]))] else vres d)"

definition charge_query :: "charge_el page \<Rightarrow> request" where
  "charge_query s = \<lparr>r_method = POST, r_url = ''/json/app/charge'',
     r_params = [(''_op'', JStr ''add''), (''mpre'', JStr (e_val (dom s Mpre)))]\<rparr>"

lemma charge_reply_dom: "is_reply d \<Longrightarrow> dom (charge_reply d s) CgPanel = panel_done (success d) (charge_msgs d) (dom s CgPanel)"
  unfolding charge_reply_def by (subst settle_panel) (auto simp: charge_msgs_def vres_def)

lemma charge_reply_reqs: "reqs (charge_reply d s) = reqs s"
  by (simp add: charge_reply_def settle_frame)

interpretation charge: form_request "\<lambda>s. dom s CgPanel" "''vres''" "ready [Mpre]" charge charge_reply
    is_reply success charge_msgs reqs charge_query
  by unfold_locales
    (simp_all add: charge_def send_form_dom send_form_reqs charge_query_def charge_reply_dom
      charge_reply_reqs del: fold.simps)

interpretation modEmail: form_panel "\<lambda>s. dom s InPanel" "''vres''" "ready [InEmail]" modEmail modEmail_reply
    is_reply success "\<lambda>d. if success d then [] else vres d"
  by unfold_locales
    (simp_all add: modEmail_def send_form_dom modEmail_reply_def settle_panel [where ys = "[]"] vres_def)

definition app_ok :: "jsv \<Rightarrow> bool" where
  "app_ok d \<longleftrightarrow> success d \<and> truthy (fld d ''aname'')"

lemma appAdd_panel:
  "dom (appAdd s) NwSubmitPanel =
     (if ready [NwAname, NwEmail, NwAsn] s then panel_begin ''vres'' (dom s NwSubmitPanel)
      else dom s NwSubmitPanel)"
  by (simp add: appAdd_def when_valid_ready Let_def inputval_other)

lemma appAdd_reply_panel:
  "is_reply d \<Longrightarrow> dom (appAdd_reply d s) NwSubmitPanel =
     panel_done (app_ok d) (if app_ok d then [] else vres d) (dom s NwSubmitPanel)"
  by (auto simp: appAdd_reply_def Let_def is_reply_def success_def app_ok_def panel_done_def vres_def)

interpretation appAdd: form_panel "\<lambda>s. dom s NwSubmitPanel" "''vres''" "ready [NwAname, NwEmail, NwAsn]"
    appAdd appAdd_reply is_reply app_ok "\<lambda>d. if app_ok d then [] else vres d"
  by unfold_locales (simp_all add: appAdd_panel appAdd_reply_panel)

interpretation appCheck: form_panel "\<lambda>s. dom s NwAnamePanel" "''vres''" "\<lambda>s. e_val (dom s NwAname) \<noteq> []"
    appCheck appCheck_reply is_reply "\<lambda>d. success d \<and> \<not> is_one (fld d ''exist'')"
    "\<lambda>d. if success d then if is_one (fld d ''exist'') then [(''vres'', to_str (fld d ''msg''))] else [] else vres d"
  by unfold_locales (simp_all add: appCheck_def appCheck_reply_def Let_def exist_reply_panel vres_def)

interpretation appPass: form_panel "\<lambda>s. dom s PsSubmitPanel" "''vres''"
    "\<lambda>s. ready [PsAsn, PsAsnr] s \<and> e_val (dom s PsAsn) = e_val (dom s PsAsnr)"
    appPass appPass_reply is_reply success "\<lambda>d. if success d then [] else vres d"
  by unfold_locales
    (auto simp: appPass_def pass_submit_dom [where f = "panel_begin ''vres''"] appPass_reply_def
      settle_panel [where ys = "[]"] vres_def Let_def)

interpretation appReset: form_panel "\<lambda>s. dom s RsSubmitPanel" "''vres''" "ready [RsAname]" appReset appReset_reply
    is_reply success
    "\<lambda>d. if success d then [(''vres'', (utf8 [233, 130, 174, 228, 187, 182, 229, 143, 145, 233, 128, 129, 230, 136, 144, 229, 138, 159, 239, 188, 140, 228, 184, 128, 229, 136, 134, 233, 146, 159, 229, 183, 166, 229, 143, 179, 233, 128, 129, 232, 190, 190, 227, 128, 130]))] else vres d"
  by unfold_locales
    (auto simp: appReset_def send_form_dom appReset_reply_def settle_panel vres_def)

interpretation resetCheck: form_panel "\<lambda>s. dom s RsAnamePanel" "''vres''" "\<lambda>s. e_val (dom s RsAname) \<noteq> []"
    reset_appCheck reset_appCheck_reply is_reply "\<lambda>d. success d \<and> \<not> loose_eq (fld d ''exist'') (jint 0)"
    "\<lambda>d. if success d then if loose_eq (fld d ''exist'') (jint 0) then [(''vres'', to_str (fld d ''msg''))] else [] else vres d"
  by unfold_locales (simp_all add: reset_appCheck_def reset_appCheck_reply_def Let_def exist_reply_panel vres_def)

subsection \<open>Passwords\<close>

lemma nw_lcs_more: "page.more s = page.more t \<Longrightarrow> nw_lcs s = nw_lcs t"
  by (cases s; cases t) simp

lemma nw_lcs_frame [simp]:
  "nw_lcs (on i f s) = nw_lcs s" "nw_lcs (send m u ps s) = nw_lcs s" "nw_lcs (throw s) = nw_lcs s"
  "nw_lcs (add_note p c t s) = nw_lcs s" "nw_lcs (snd (inputval is s)) = nw_lcs s"
  "nw_lcs (fold (\<lambda>i. on i mark_valid) is s) = nw_lcs s"
  by (rule nw_lcs_more, simp)+

lemma app_new_more [simp]: "all_hashed (s\<lparr>nw_lcs := x\<rparr>) = all_hashed (s :: app_new)"
  by (cases s) (simp add: all_hashed_def)

definition app_new_hashed :: "app_new \<Rightarrow> bool" where
  "app_new_hashed s \<longleftrightarrow> all_hashed s \<and> all_hashed (nw_lcs s)"

lemma new_step_hashed: "app_new_hashed s \<Longrightarrow> app_new_hashed (new_step e s)"
  by (cases e)
    (auto simp: app_new_hashed_def appCheck_def appCheck_reply_def appAdd_def when_valid_ready Let_def
      param_hashed_def appAdd_reply_def appAdd_done_def exist_reply_def lcs_step_hashed)

lemma pass_step_hashed: "all_hashed s \<Longrightarrow> all_hashed (pass_step e s)"
  by (cases e)
    (auto simp: asnCheck_def appPass_def appPass_reply_def param_hashed_def Let_def intro!: all_hashed_pass_submit)

interpretation app_new: machine new_step app_new_hashed
  by unfold_locales (rule new_step_hashed)

interpretation app_pass: machine pass_step "all_hashed :: pass_el page \<Rightarrow> bool"
  by unfold_locales (rule pass_step_hashed)

lemma appAdd_reqs:
  "reqs (appAdd s) = (if ready [NwAname, NwEmail, NwAsn] s
     then reqs s @ [\<lparr>r_method = POST, r_url = ''/json/app/new'',
       r_params = [(''_op'', JStr ''add''), (''aname'', JStr (e_val (dom s NwAname))),
         (''email'', JStr (e_val (dom s NwEmail))), (''asn'', JStr (md5md5 (e_val (dom s NwAsn))))]\<rparr>]
     else reqs s)"
  using fold_mark_val [of "[NwAname, NwEmail, NwAsn]" s]
  by (simp add: appAdd_def when_valid_ready Let_def del: fold.simps)

lemma appAdd_asn:
  "ready [NwAname, NwEmail, NwAsn] s \<Longrightarrow> e_val (dom (appAdd s) NwAsn) = md5md5 (e_val (dom s NwAsn))"
  using fold_mark_val [of "[NwAname, NwEmail, NwAsn]" s]
  by (simp add: appAdd_def when_valid_ready Let_def del: fold.simps)

lemma appAdd_reply_frame:
  "reqs (appAdd_reply d s) = reqs s" "dom (appAdd_reply d s) NwAsn = dom s NwAsn"
  by (simp_all add: appAdd_reply_def Let_def)

lemma appPass_reqs:
  "reqs (appPass s) = (if ready [PsAsn, PsAsnr] s \<and> e_val (dom s PsAsn) = e_val (dom s PsAsnr)
     then reqs s @ [\<lparr>r_method = POST, r_url = ''/json/oms/edit'',
       r_params = [(''_op'', JStr ''mod''), (''asn'', JStr (md5md5 (e_val (dom s PsAsn))))]\<rparr>]
     else reqs s)"
  unfolding appPass_def
  by (subst pass_submit_reqs [where r = "\<lambda>v. \<lparr>r_method = POST, r_url = ''/json/oms/edit'',
       r_params = [(''_op'', JStr ''mod''), (''asn'', JStr (md5md5 v))]\<rparr>"]) (simp_all add: Let_def)

lemma appPass_other:
  "q \<notin> {PsAsn, PsAsnr, PsSubmitPanel} \<Longrightarrow> dom (appPass s) q = dom s q"
  unfolding appPass_def by (subst pass_submit_dom [where f = id]) (auto simp: Let_def)

text \<open>Whether the charge form lets a click through depends on its field, which nothing but typing changes.\<close>

lemma charge_ready: "ready [Mpre] s \<Longrightarrow> ready [Mpre] (charge_reply d (charge s))"
  by (simp add: ready_def charge_reply_def settle_def charge_def send_form_def when_valid_ready
      Let_def check_field_eq inputval.simps split: prod.splits)

lemma charge_click_ready: "ready [Mpre] s \<Longrightarrow> ready [Mpre] (charge s)"
  by (simp add: ready_def charge_def send_form_def when_valid_ready)

lemma charge_all_ready:
  "ready [Mpre] s \<Longrightarrow> list_all is_reply ds \<Longrightarrow> all_ready (ready [Mpre]) is_reply charge charge_reply ds s"
  by (rule all_ready_stable) (rule charge_ready)

definition charge_page :: "string \<Rightarrow> charge_el page" where
  "charge_page v = \<lparr>dom = (\<lambda>_. blank)(Mpre := blank\<lparr>e_val := v, e_cls := {''vrequire'', ''vint''}\<rparr>),
     reqs = [], alerts = [], thrown = []\<rparr>"

lemma charge_page_ready: "ready [Mpre] (charge_page ''12'')"
proof -
  have "''12'' \<in> lang rx_vint"
    using vint_iff [of "''12''"] by (simp only: rx_test_lang) (simp add: is_digit_def)
  then show ?thesis
    by (simp add: ready_def charge_page_def field_ok_def len_ok_def blank_def class_rules_def)
qed

subsection \<open>Properties\<close>

text \<open>
  Charging, on a page whose amount passes its rules: after any number of clicks that are
  answered one after the other, the last reply alone shows. The panel is marked as it says and
  nothing else, the only message is its message, and every click sent one request.
\<close>

theorem charge_attempts:
  assumes "ready [Mpre] s" "list_all is_reply (ds @ [d])"
    and "list_all (\<lambda>k. fst k = ''vres'') (e_kids (dom s CgPanel))"
  shows "in_phase (if success d then Succeeded else Failed)
           (dom (exchanges charge charge_reply (ds @ [d]) s) CgPanel) \<and>
         e_kids (dom (exchanges charge charge_reply (ds @ [d]) s) CgPanel) = charge_msgs d \<and>
         length (reqs (exchanges charge charge_reply (ds @ [d]) s)) = length (reqs s) + length (ds @ [d])"
  using charge_all_ready [OF assms(1,2)] assms(3)
  by (intro conjI charge.attempts_last_phase charge.attempts_cleared charge.attempts_sent)
    (auto simp: charge_msgs_def vres_def list_all_iff)

lemma charge_attempts_witness:
  "in_phase Failed (dom (exchanges charge charge_reply ([JObj [(''success'', jint 1)]] @ [JObj [(''errmsg'', JStr ''no'')]])
      (charge_page ''12'')) CgPanel) \<and>
   e_kids (dom (exchanges charge charge_reply ([JObj [(''success'', jint 1)]] @ [JObj [(''errmsg'', JStr ''no'')]])
      (charge_page ''12'')) CgPanel) = [(''vres'', ''no'')] \<and>
   length (reqs (exchanges charge charge_reply ([JObj [(''success'', jint 1)]] @ [JObj [(''errmsg'', JStr ''no'')]])
      (charge_page ''12''))) = 2"
proof -
  have "\<not> success (JObj [(''errmsg'', JStr ''no'')])" "charge_msgs (JObj [(''errmsg'', JStr ''no'')]) = [(''vres'', ''no'')]"
    by (simp_all add: success_def charge_msgs_def vres_def errmsg_def)
  then show ?thesis
    using charge_attempts [of "charge_page ''12''" "[JObj [(''success'', jint 1)]]" "JObj [(''errmsg'', JStr ''no'')]",
        OF charge_page_ready]
    by (simp add: is_reply_def charge_page_def blank_def del: exchanges.simps)
qed

text \<open>
  Nothing stops a second click before the first reply: two requests go out with the same
  amount, and when the first is accepted and the second refused the panel is marked success and
  error at once.
\<close>

theorem charge_double_click:
  assumes "ready [Mpre] s" "is_reply d" "is_reply d'" "success d" "\<not> success d'"
  shows "reqs (charge (charge s)) = reqs s @ [charge_query s, charge_query s] \<and>
         {''success'', ''error''} \<subseteq> e_cls (dom (charge_reply d' (charge_reply d (charge (charge s)))) CgPanel)"
proof -
  have "charge_query (charge s) = charge_query s"
    using assms(1) by (simp add: charge_query_def charge_def send_form_def when_valid_ready)
  then show ?thesis
    using charge.double_click [OF assms(1) charge_click_ready [OF assms(1)]]
      charge.overlap [OF assms(1) charge_click_ready [OF assms(1)] assms(2-5)] by simp
qed

lemma charge_double_click_witness:
  "reqs (charge (charge (charge_page ''12''))) =
     reqs (charge_page ''12'') @ [charge_query (charge_page ''12''), charge_query (charge_page ''12'')] \<and>
   {''success'', ''error''} \<subseteq> e_cls (dom (charge_reply (JObj []) (charge_reply (JObj [(''success'', jint 1)])
      (charge (charge (charge_page ''12''))))) CgPanel)"
  by (rule charge_double_click [OF charge_page_ready]) (simp_all add: is_reply_def success_def)

end
