(* ===== verification/DidaMember.thy ===== *)
theory DidaMember
  imports Forms
begin

text \<open>
  The member pages of the travel site (\<open>dida/fly/js/member/\<close>): registering, changing and resetting
  the password.  They are written like the account pages of the chat site (theory \<open>PopApp\<close>) and
  modelled the same way; the validated fields are those of the templates in \<open>dida/tpl/member/\<close>.
\<close>

subsection \<open>regist.js\<close>

(* src/dida/fly/js/member/regist.js:9-12 init *)
datatype regist_el = RgMnick | RgMname | RgMsn | RgMnamePanel | RgSubmitPanel

record regist = "regist_el page" +
  rg_dida :: dida

(* src/dida/fly/js/member/regist.js:31-40 memberCheck *)
definition memberCheck :: "regist \<Rightarrow> regist" where
  "memberCheck s =
     (let mname = e_val (dom s RgMname)
      in if 0 < js_len mname then
           send GET ''/json/member/exist'' [(''mname'', JStr mname)] (on RgMnamePanel (panel_begin ''vres'') s)
         else s)"

(* src/dida/fly/js/member/regist.js:40-53 memberCheck, its callback *)
definition memberCheck_reply :: "jsv \<Rightarrow> regist \<Rightarrow> regist" where
  "memberCheck_reply data = exist_reply RgMnamePanel (is_one (fld data ''exist'')) data"

(* src/dida/fly/js/member/regist.js:57-71 memberAdd *)
definition memberAdd :: "regist \<Rightarrow> regist" where
  "memberAdd = when_valid [RgMnick, RgMname, RgMsn] (\<lambda>s0.
     let s = on RgMsn (set_val (md5md5 (e_val (dom s0 RgMsn)))) s0;
         mnick = e_val (dom s RgMnick); mname = e_val (dom s RgMname); msn = e_val (dom s RgMsn)
     in send POST ''/json/member/new''
          [(''_op'', JStr ''add''), (''mnick'', JStr mnick), (''mname'', JStr mname), (''msn'', JStr msn)]
          (on RgSubmitPanel (panel_begin ''vres'') s))"

(* src/dida/fly/js/member/regist.js:71-83 memberAdd, its callback *)
definition memberAdd_reply :: "jsv \<Rightarrow> regist \<Rightarrow> regist" where
  "memberAdd_reply data s =
     (let s1 = on RgSubmitPanel (remove_class ''loading'') s
      in if data = JUndef \<or> data = JNull then throw s1
         else if \<not> is_one (fld data ''success'') \<or> \<not> truthy (fld data ''mnick'') then
           add_note RgSubmitPanel ''vres'' (errmsg data) (on RgSubmitPanel (add_class ''error'') s1)
         else on RgSubmitPanel (add_class ''success'') s1)"

(* src/dida/fly/js/member/regist.js:78-81 memberAdd, its timer *)
definition memberAdd_done :: "regist \<Rightarrow> regist" where
  "memberAdd_done s = s\<lparr>rg_dida := snd (dida_loginCheck (rg_dida s))\<rparr>"

datatype regist_ev = RgType regist_el string | RgBlur | RgCheckReply jsv | RgClick | RgAddReply jsv | RgTimer | RgDida dida_ev

(* src/dida/fly/js/member/regist.js:24-29 bindClick *)
fun regist_step :: "regist_ev \<Rightarrow> regist \<Rightarrow> regist" where
  "regist_step (RgType i v) s = on i (set_val v) s"
| "regist_step RgBlur s = memberCheck s"
| "regist_step (RgCheckReply d) s = memberCheck_reply d s"
| "regist_step RgClick s = memberAdd s"
| "regist_step (RgAddReply d) s = memberAdd_reply d s"
| "regist_step RgTimer s = memberAdd_done s"
| "regist_step (RgDida e) s = s\<lparr>rg_dida := dida_step e (rg_dida s)\<rparr>"

subsection \<open>pass.js\<close>

(* src/dida/fly/js/member/pass.js:9-11 init *)
datatype mpass_el = MpMsn | MpMsnr | MpMsnrPanel | MpSubmitPanel

(* src/dida/fly/js/member/pass.js:30-49 msnCheck *)
definition msnCheck :: "mpass_el option \<Rightarrow> mpass_el page \<Rightarrow> bool \<times> mpass_el page" where
  "msnCheck = pass_check MpMsn MpMsnr"

(* src/dida/fly/js/member/pass.js:51-62 memberPass *)
definition memberPass :: "mpass_el page \<Rightarrow> mpass_el page" where
  "memberPass = pass_submit MpMsn MpMsnr (\<lambda>s.
     let msn = md5md5 (e_val (dom s MpMsn))
     in send POST ''/json/member/edit'' [(''_op'', JStr ''mod''), (''msn'', JStr msn)]
          (on MpSubmitPanel (panel_begin ''vres'') s))"

(* src/dida/fly/js/member/pass.js:62-70 memberPass, its callback *)
definition memberPass_reply :: "jsv \<Rightarrow> mpass_el page \<Rightarrow> mpass_el page" where
  "memberPass_reply data = settle MpSubmitPanel data (\<lambda>s. s) (add_note MpSubmitPanel ''vres'' (errmsg data))"

datatype mpass_ev = MpType mpass_el string | MpBlur | MpClick | MpReply jsv

(* src/dida/fly/js/member/pass.js:23-28 bindClick *)
fun mpass_step :: "mpass_ev \<Rightarrow> mpass_el page \<Rightarrow> mpass_el page" where
  "mpass_step (MpType i v) s = on i (set_val v) s"
| "mpass_step MpBlur s = snd (msnCheck (Some MpMsnrPanel) s)"
| "mpass_step MpClick s = memberPass s"
| "mpass_step (MpReply d) s = memberPass_reply d s"

subsection \<open>reset.js\<close>

(* src/dida/fly/js/member/reset.js:9-10 init *)
datatype mreset_el = MrMname | MrMnamePanel | MrSubmitPanel

(* src/dida/fly/js/member/reset.js:29-39 memberCheck *)
definition reset_memberCheck :: "mreset_el page \<Rightarrow> mreset_el page" where
  "reset_memberCheck s =
     (let mname = e_val (dom s MrMname)
      in if 0 < js_len mname then
           send GET ''/json/member/exist'' [(''mname'', JStr mname)] (on MrMnamePanel (panel_begin ''vres'') s)
         else s)"

(* src/dida/fly/js/member/reset.js:39-52 memberCheck, its callback *)
definition reset_memberCheck_reply :: "jsv \<Rightarrow> mreset_el page \<Rightarrow> mreset_el page" where
  "reset_memberCheck_reply data = exist_reply MrMnamePanel (loose_eq (fld data ''exist'') (jint 0)) data"

(* src/dida/fly/js/member/reset.js:56-66 memberReset *)
definition memberReset :: "mreset_el page \<Rightarrow> mreset_el page" where
  "memberReset = send_form [MrMname] MrSubmitPanel GET ''/json/member/reset'' (\<lambda>s.
     [(''mname'', JStr (e_val (dom s MrMname)))])"

(* src/dida/fly/js/member/reset.js:66-75 memberReset, its callback *)
definition memberReset_reply :: "jsv \<Rightarrow> mreset_el page \<Rightarrow> mreset_el page" where
  "memberReset_reply data = settle MrSubmitPanel data
     (add_note MrSubmitPanel ''vres'' (utf8 [233, 130, 174, 228, 187, 182, 228, 184, 128, 229, 136, 134, 233, 146, 159, 233, 128, 129, 232, 190, 190, 239, 188, 140, 232, 175, 183, 228, 190, 157, 233, 130, 174, 228, 187, 182, 229, 134, 133, 229, 174, 185, 229, 174, 140, 230, 136, 144, 229, 175, 134, 231, 160, 129, 233, 135, 141, 231, 189, 174, 227, 128, 130]))
     (add_note MrSubmitPanel ''vres'' (errmsg data))"

datatype mreset_ev = MrType string | MrClick | MrReply jsv

(* src/dida/fly/js/member/reset.js:22-27 bindClick *)
fun mreset_step :: "mreset_ev \<Rightarrow> mreset_el page \<Rightarrow> mreset_el page" where
  "mreset_step (MrType v) s = on MrMname (set_val v) s"
| "mreset_step MrClick s = memberReset s"
| "mreset_step (MrReply d) s = memberReset_reply d s"

subsection \<open>The forms meet the contract\<close>

definition member_ok :: "jsv \<Rightarrow> bool" where
  "member_ok d \<longleftrightarrow> success d \<and> truthy (fld d ''mnick'')"

lemma memberAdd_panel:
  "dom (memberAdd s) RgSubmitPanel =
     (if ready [RgMnick, RgMname, RgMsn] s then panel_begin ''vres'' (dom s RgSubmitPanel)
      else dom s RgSubmitPanel)"
  by (simp add: memberAdd_def when_valid_ready Let_def inputval_other)

lemma memberAdd_reply_panel:
  "is_reply d \<Longrightarrow> dom (memberAdd_reply d s) RgSubmitPanel =
     panel_done (member_ok d) (if member_ok d then [] else vres d) (dom s RgSubmitPanel)"
  by (auto simp: memberAdd_reply_def Let_def is_reply_def success_def member_ok_def panel_done_def vres_def)

interpretation memberAdd: form_panel "\<lambda>s. dom s RgSubmitPanel" "''vres''" "ready [RgMnick, RgMname, RgMsn]"
    memberAdd memberAdd_reply is_reply member_ok "\<lambda>d. if member_ok d then [] else vres d"
  by unfold_locales (simp_all add: memberAdd_panel memberAdd_reply_panel)

interpretation memberCheck: form_panel "\<lambda>s. dom s RgMnamePanel" "''vres''" "\<lambda>s. e_val (dom s RgMname) \<noteq> []"
    memberCheck memberCheck_reply is_reply "\<lambda>d. success d \<and> \<not> is_one (fld d ''exist'')"
    "\<lambda>d. if success d then if is_one (fld d ''exist'') then [(''vres'', to_str (fld d ''msg''))] else [] else vres d"
  by unfold_locales (simp_all add: memberCheck_def memberCheck_reply_def Let_def exist_reply_panel vres_def)

interpretation memberPass: form_panel "\<lambda>s. dom s MpSubmitPanel" "''vres''"
    "\<lambda>s. ready [MpMsn, MpMsnr] s \<and> e_val (dom s MpMsn) = e_val (dom s MpMsnr)"
    memberPass memberPass_reply is_reply success "\<lambda>d. if success d then [] else vres d"
  by unfold_locales
    (auto simp: memberPass_def pass_submit_dom [where f = "panel_begin ''vres''"] memberPass_reply_def
      settle_panel [where ys = "[]"] vres_def Let_def)

interpretation memberReset: form_panel "\<lambda>s. dom s MrSubmitPanel" "''vres''" "ready [MrMname]"
    memberReset memberReset_reply is_reply success
    "\<lambda>d. if success d then [(''vres'', (utf8 [233, 130, 174, 228, 187, 182, 228, 184, 128, 229, 136, 134, 233, 146, 159, 233, 128, 129, 232, 190, 190, 239, 188, 140, 232, 175, 183, 228, 190, 157, 233, 130, 174, 228, 187, 182, 229, 134, 133, 229, 174, 185, 229, 174, 140, 230, 136, 144, 229, 175, 134, 231, 160, 129, 233, 135, 141, 231, 189, 174, 227, 128, 130]))] else vres d"
  by unfold_locales
    (auto simp: memberReset_def send_form_dom memberReset_reply_def settle_panel vres_def)

interpretation memberResetCheck: form_panel "\<lambda>s. dom s MrMnamePanel" "''vres''" "\<lambda>s. e_val (dom s MrMname) \<noteq> []"
    reset_memberCheck reset_memberCheck_reply is_reply "\<lambda>d. success d \<and> \<not> loose_eq (fld d ''exist'') (jint 0)"
    "\<lambda>d. if success d then if loose_eq (fld d ''exist'') (jint 0) then [(''vres'', to_str (fld d ''msg''))] else [] else vres d"
  by unfold_locales (simp_all add: reset_memberCheck_def reset_memberCheck_reply_def Let_def exist_reply_panel vres_def)

subsection \<open>Passwords\<close>

lemma regist_more [simp]: "all_hashed (s\<lparr>rg_dida := x\<rparr>) = all_hashed (s :: regist)"
  by (cases s) (simp add: all_hashed_def)

definition regist_hashed :: "regist \<Rightarrow> bool" where
  "regist_hashed s \<longleftrightarrow> all_hashed s \<and> all_hashed (rg_dida s)"

lemma rg_dida_more: "page.more s = page.more t \<Longrightarrow> rg_dida s = rg_dida t"
  by (cases s; cases t) simp

lemma rg_dida_frame [simp]:
  "rg_dida (on i f s) = rg_dida s" "rg_dida (send m u ps s) = rg_dida s" "rg_dida (throw s) = rg_dida s"
  "rg_dida (add_note p c t s) = rg_dida s" "rg_dida (snd (inputval is s)) = rg_dida s"
  "rg_dida (fold (\<lambda>i. on i mark_valid) is s) = rg_dida s"
  by (rule rg_dida_more, simp)+

lemma regist_step_hashed: "regist_hashed s \<Longrightarrow> regist_hashed (regist_step e s)"
  by (cases e)
    (auto simp: regist_hashed_def memberCheck_def memberCheck_reply_def memberAdd_def when_valid_ready Let_def
      param_hashed_def memberAdd_reply_def memberAdd_done_def exist_reply_def dida_step_hashed)

lemma mpass_step_hashed: "all_hashed s \<Longrightarrow> all_hashed (mpass_step e s)"
  by (cases e)
    (auto simp: msnCheck_def memberPass_def memberPass_reply_def param_hashed_def Let_def intro!: all_hashed_pass_submit)

interpretation regist: machine regist_step regist_hashed
  by unfold_locales (rule regist_step_hashed)

interpretation mpass: machine mpass_step "all_hashed :: mpass_el page \<Rightarrow> bool"
  by unfold_locales (rule mpass_step_hashed)

lemma memberAdd_reqs:
  "reqs (memberAdd s) = (if ready [RgMnick, RgMname, RgMsn] s
     then reqs s @ [\<lparr>r_method = POST, r_url = ''/json/member/new'',
       r_params = [(''_op'', JStr ''add''), (''mnick'', JStr (e_val (dom s RgMnick))),
         (''mname'', JStr (e_val (dom s RgMname))), (''msn'', JStr (md5md5 (e_val (dom s RgMsn))))]\<rparr>]
     else reqs s)"
  using fold_mark_val [of "[RgMnick, RgMname, RgMsn]" s]
  by (simp add: memberAdd_def when_valid_ready Let_def del: fold.simps)

lemma memberAdd_msn:
  "ready [RgMnick, RgMname, RgMsn] s \<Longrightarrow> e_val (dom (memberAdd s) RgMsn) = md5md5 (e_val (dom s RgMsn))"
  using fold_mark_val [of "[RgMnick, RgMname, RgMsn]" s]
  by (simp add: memberAdd_def when_valid_ready Let_def del: fold.simps)

lemma memberAdd_reply_frame:
  "reqs (memberAdd_reply d s) = reqs s" "dom (memberAdd_reply d s) RgMsn = dom s RgMsn"
  by (simp_all add: memberAdd_reply_def Let_def)

lemma memberPass_reqs:
  "reqs (memberPass s) = (if ready [MpMsn, MpMsnr] s \<and> e_val (dom s MpMsn) = e_val (dom s MpMsnr)
     then reqs s @ [\<lparr>r_method = POST, r_url = ''/json/member/edit'',
       r_params = [(''_op'', JStr ''mod''), (''msn'', JStr (md5md5 (e_val (dom s MpMsn))))]\<rparr>]
     else reqs s)"
  unfolding memberPass_def
  by (subst pass_submit_reqs [where r = "\<lambda>v. \<lparr>r_method = POST, r_url = ''/json/member/edit'',
       r_params = [(''_op'', JStr ''mod''), (''msn'', JStr (md5md5 v))]\<rparr>"]) (simp_all add: Let_def)

lemma memberPass_other:
  "q \<notin> {MpMsn, MpMsnr, MpSubmitPanel} \<Longrightarrow> dom (memberPass s) q = dom s q"
  unfolding memberPass_def by (subst pass_submit_dom [where f = id]) (auto simp: Let_def)

end
