(* ===== verification/Pager.thy ===== *)
theory Pager
  imports Utl Dom
begin

text \<open>
  Paging: \<open>mnnav\<close> (\<open>lib/js/jquery.mnnav.js\<close>), which the list pages of both sites use, the older
  \<open>mnpagenav\<close>, and \<open>mnscrollpage\<close>, which loads a page when a list is scrolled to its edge.

  The page number that a click chose is kept in \<open>document._cpg\<close>, one for the whole page.  Numbers are
  JavaScript's: a total of pages can be \<open>NaN\<close>.
\<close>

definition parse_int :: "jsv \<Rightarrow> jnum" where
  "parse_int v = parseInt (to_str v)"

definition int_num :: "int \<Rightarrow> jnum" where
  "int_num n = Fin (of_int n)"

fun num_add :: "jnum \<Rightarrow> jnum \<Rightarrow> jnum" where
  "num_add (Fin a) (Fin b) = Fin (a + b)"
| "num_add NaN _ = NaN"
| "num_add _ NaN = NaN"
| "num_add PInf NInf = NaN"
| "num_add NInf PInf = NaN"
| "num_add PInf _ = PInf"
| "num_add _ PInf = PInf"
| "num_add NInf _ = NInf"
| "num_add _ NInf = NInf"

text \<open>Quotient of a number by another, as far as the program divides: the divisor is finite.\<close>

fun num_div :: "jnum \<Rightarrow> jnum \<Rightarrow> jnum" where
  "num_div (Fin a) (Fin b) =
     (if b \<noteq> 0 then Fin (a / b) else if 0 < a then PInf else if a < 0 then NInf else NaN)"
| "num_div _ _ = NaN"

text \<open>\<open>parseInt\<close> of a number: its integer part, and \<open>NaN\<close> of the infinities.\<close>

fun num_int :: "jnum \<Rightarrow> jnum" where
  "num_int (Fin q) = int_num (if 0 \<le> q then \<lfloor>q\<rfloor> else \<lceil>q\<rceil>)"
| "num_int _ = NaN"

text \<open>An option that was not given: \<open>$.extend\<close> keeps the default for an undefined value.\<close>

definition dflt :: "jsv \<Rightarrow> jsv \<Rightarrow> jsv" where
  "dflt d v = (if v = JUndef then d else v)"

lemma dflt_jint [simp]: "dflt d (jint n) = jint n"
  by (simp add: dflt_def jint_def)

subsection \<open>mnnav\<close>

datatype goto = Refused | Visit string | Call jnum

record nav_doc =
  nd_cpg :: jsv
  nd_inp :: elem

definition page_url :: "string \<Rightarrow> string \<Rightarrow> string \<Rightarrow> string" where
  "page_url param url pn = url @ (if CHR ''?'' \<in> set url then ''&'' else ''?'') @ param @ ''='' @ pn"

(* src/lib/js/jquery.mnnav.js:6-23 gotoPage *)
definition gotoPage :: "jsv \<Rightarrow> jnum \<Rightarrow> string \<Rightarrow> nav_doc \<Rightarrow> goto \<times> nav_doc" where
  "gotoPage pn0 tpg url s =
     (let pn = parse_int pn0
      in if \<not> truthy (JNum pn) \<or> num_lt pn (Fin 0) \<or> num_lt tpg pn then
           (Refused, s\<lparr>nd_inp := add_class ''invalid'' (nd_inp s)\<rparr>)
         else
           (let s1 = s\<lparr>nd_inp := set_val (num_str pn) (remove_class ''invalid'' (nd_inp s)), nd_cpg := JNum pn\<rparr>
            in if url \<noteq> [] then (Visit (page_url ''_npg'' url (num_str pn)), s1) else (Call pn, s1)))"

text \<open>What the plugin draws: the current page and the total on the left, the links' pages, each a \<open>rel\<close>.\<close>

record nav_view =
  nv_cpg :: jnum
  nv_tpg :: jnum
  nv_first :: jsv
  nv_last :: jsv
  nv_prev :: "jsv option"
  nv_next :: "jsv option"

(* src/lib/js/jquery.mnnav.js:44-59 navCenter *)
definition navCenter :: "jnum \<Rightarrow> jsv \<times> jsv" where
  "navCenter tpg = (JStr ''1'', JStr (num_str tpg))"

(* src/lib/js/jquery.mnnav.js:61-75 navRight *)
definition navRight :: "jnum \<Rightarrow> jnum \<Rightarrow> jsv option \<times> jsv option" where
  "navRight cpg tpg =
     ((if num_lt (Fin 1) cpg then Some (JStr (num_str (num_add (num_int cpg) (Fin (-1))))) else None),
      (if num_lt cpg tpg then Some (JStr (num_str (num_add (num_int cpg) (Fin 1)))) else None))"

(* src/lib/js/jquery.mnnav.js:77-102 mnnav *)
definition mnnav :: "jsv \<Rightarrow> jsv \<Rightarrow> jsv \<Rightarrow> nav_doc \<Rightarrow> nav_view" where
  "mnnav ntt0 npg0 npp0 s =
     (let npp = parse_int (dflt (jint 15) npp0); npg = parse_int (dflt (jint 1) npg0); ntt = parse_int (dflt (jint 0) ntt0);
          cpg = (if is_type ''Number'' (nd_cpg s) then to_num (nd_cpg s) else npg);
          tpg = num_int (num_div (num_add (num_add ntt npp) (Fin (-1))) npp);
          (fst_pg, lst_pg) = navCenter tpg;
          (prev, nxt) = navRight cpg tpg
      in \<lparr>nv_cpg = cpg, nv_tpg = tpg, nv_first = fst_pg, nv_last = lst_pg, nv_prev = prev, nv_next = nxt\<rparr>)"

subsection \<open>mnpagenav\<close>

(* src/lib/js/jquery.mnpagenav.js:2-9 assemUrl *)
definition assemUrl :: "string \<Rightarrow> string \<Rightarrow> string" where
  "assemUrl = page_url ''pg''"

text \<open>A link of the plugin: an address, or a call that first keeps the page in \<open>document.pagenav_pg\<close>.\<close>

datatype pg_link = Href string | CallPage jsv

(* src/lib/js/jquery.mnpagenav.js:10-21 pagePrev *)
definition pagePrev :: "string \<Rightarrow> jnum \<Rightarrow> pg_link" where
  "pagePrev url cpg =
     (let p = num_add cpg (Fin (-1))
      in if url \<noteq> [] then Href (assemUrl url (num_str p)) else CallPage (JNum p))"

(* src/lib/js/jquery.mnpagenav.js:22-33 pageNext *)
definition pageNext :: "string \<Rightarrow> jnum \<Rightarrow> pg_link" where
  "pageNext url cpg =
     (let p = num_add cpg (Fin 1)
      in if url \<noteq> [] then Href (assemUrl url (num_str p)) else CallPage (JNum p))"

text \<open>The click of the jump button on the content of its field; the classes are set as they are spelt.\<close>

(* src/lib/js/jquery.mnpagenav.js:34-62 pageJump *)
definition pageJump :: "string \<Rightarrow> jnum \<Rightarrow> elem \<Rightarrow> pg_link option \<times> elem" where
  "pageJump url totalpage inp =
     (let pg = e_val inp; bad = (None, remove_class ''valie'' (add_class ''invalid'' inp))
      in if pg = [] \<or> \<not> list_all is_digit pg then bad
         else if num_lt (str_to_num pg) (Fin 1) \<or> num_lt totalpage (str_to_num pg) then bad
         else (Some (if url \<noteq> [] then Href (assemUrl url pg) else CallPage (JStr pg)),
               remove_class ''invalie'' (add_class ''valid'' inp)))"

record pagenav_view =
  pv_prev :: "pg_link option"
  pv_cpg :: jnum
  pv_tpg :: jnum
  pv_next :: "pg_link option"

(* src/lib/js/jquery.mnpagenav.js:64-97 mnpagenav *)
definition mnpagenav :: "jsv \<Rightarrow> jsv \<Rightarrow> jsv \<Rightarrow> string \<Rightarrow> jsv \<Rightarrow> pagenav_view" where
  "mnpagenav ttnum pg numperpage url pagenav_pg =
     (let cpg = (if pagenav_pg \<noteq> JUndef then parse_int pagenav_pg else parse_int pg);
          tmppg = num_add (num_add (parse_int ttnum) (parse_int numperpage)) (Fin (-1));
          tpg = num_int (num_div tmppg (to_num numperpage))
      in \<lparr>pv_prev = (if \<not> num_eq cpg (Fin 1) then Some (pagePrev url cpg) else None),
          pv_cpg = cpg, pv_tpg = tpg,
          pv_next = (if \<not> num_eq cpg tpg \<and> \<not> num_eq tpg (Fin 0) then Some (pageNext url cpg) else None)\<rparr>)"

subsection \<open>mnscrollpage\<close>

record scroll =
  sc_ppage :: int
  sc_bound :: bool
  sc_loaded :: "int list"

text \<open>One scroll event; \<open>edge\<close> tells whether the element is at its triggering edge.\<close>

(* src/lib/js/jquery.mnscrollpage.js:16-37 the scroll handler *)
definition scroll_event :: "int \<Rightarrow> bool \<Rightarrow> scroll \<Rightarrow> scroll" where
  "scroll_event scpage edge s =
     (if \<not> sc_bound s then s
      else
        (let s1 = (if sc_ppage s = scpage then s\<lparr>sc_bound := False\<rparr> else s)
         in if edge then s1\<lparr>sc_ppage := sc_ppage s1 + 1, sc_loaded := sc_loaded s1 @ [sc_ppage s1 + 1]\<rparr>
            else s1))"

(* src/lib/js/jquery.mnscrollpage.js:2-15 mnscrollpage *)
definition mnscrollpage :: "int \<Rightarrow> scroll" where
  "mnscrollpage ppage = \<lparr>sc_ppage = ppage, sc_bound = True, sc_loaded = []\<rparr>"

subsection \<open>Lemmas\<close>

lemma parse_int_jint [simp]: "parse_int (jint n) = int_num n" "parse_int (JNum (int_num n)) = int_num n"
  by (simp_all add: parse_int_def jint_def int_num_def)

lemma parse_int_str [simp]: "parse_int (JStr (int_str n)) = int_num n"
  by (simp add: parse_int_def int_num_def)

lemma num_str_int [simp]: "num_str (int_num n) = int_str n"
  by (simp add: int_num_def)

lemma int_num_arith [simp]:
  "num_add (int_num a) (Fin 1) = int_num (a + 1)" "num_add (int_num a) (Fin (- 1)) = int_num (a - 1)"
  "num_add (int_num a) (int_num b) = int_num (a + b)" "num_int (int_num a) = int_num a"
  "num_lt (int_num a) (int_num b) \<longleftrightarrow> a < b" "num_lt (Fin 1) (int_num a) \<longleftrightarrow> 1 < a"
  "num_lt (int_num a) (Fin 0) \<longleftrightarrow> a < 0" "truthy (JNum (int_num a)) \<longleftrightarrow> a \<noteq> 0"
  "int_num a = int_num b \<longleftrightarrow> a = b" "int_num a \<noteq> NaN" "NaN \<noteq> int_num a"
  "int_num a = Fin 0 \<longleftrightarrow> a = 0" "Fin 0 = int_num a \<longleftrightarrow> a = 0"
  by (simp_all add: int_num_def)

lemma num_int_div:
  assumes "0 < b" "0 \<le> a"
  shows "num_int (num_div (int_num a) (int_num b)) = int_num (a div b)"
proof -
  have "\<lfloor>(of_int a :: rat) / of_int b\<rfloor> = a div b" by (rule floor_divide_of_int_eq)
  then show ?thesis using assms by (simp add: int_num_def)
qed

definition pages :: "int \<Rightarrow> int \<Rightarrow> int" where
  "pages ntt npp = (ntt + npp - 1) div npp"

lemma pages_cover:
  assumes "0 < npp" "0 \<le> ntt"
  shows "ntt \<le> pages ntt npp * npp \<and> (pages ntt npp - 1) * npp < ntt \<or> ntt = 0 \<and> pages ntt npp = 0"
proof (cases "ntt = 0")
  case False
  let ?q = "pages ntt npp" and ?r = "(ntt + npp - 1) mod npp"
  have e: "ntt + npp - 1 = ?q * npp + ?r" by (simp add: pages_def)
  have r: "0 \<le> ?r" "?r < npp" using assms by simp_all
  have "(?q - 1) * npp = ?q * npp - npp" by (simp add: algebra_simps)
  then have "ntt \<le> ?q * npp \<and> (?q - 1) * npp < ntt" using e r False assms by linarith
  then show ?thesis by simp
qed (use assms in \<open>simp add: pages_def\<close>)

lemma mnnav_fresh:
  assumes "0 < npp" "0 \<le> ntt" "nd_cpg s = JUndef"
  shows "nv_cpg (mnnav (jint ntt) (jint npg) (jint npp) s) = int_num npg"
    "nv_tpg (mnnav (jint ntt) (jint npg) (jint npp) s) = int_num (pages ntt npp)"
    "nv_first (mnnav (jint ntt) (jint npg) (jint npp) s) = JStr ''1''"
    "nv_last (mnnav (jint ntt) (jint npg) (jint npp) s) = JStr (int_str (pages ntt npp))"
    "nv_prev (mnnav (jint ntt) (jint npg) (jint npp) s) =
       (if 1 < npg then Some (JStr (int_str (npg - 1))) else None)"
    "nv_next (mnnav (jint ntt) (jint npg) (jint npp) s) =
       (if npg < pages ntt npp then Some (JStr (int_str (npg + 1))) else None)"
  using assms
  by (simp_all add: mnnav_def Let_def navCenter_def navRight_def num_int_div pages_def)

lemma gotoPage_int:
  "fst (gotoPage (JStr (int_str n)) (int_num t) [] s) = (if 1 \<le> n \<and> n \<le> t then Call (int_num n) else Refused)"
  by (simp add: gotoPage_def Let_def)

lemma int_str_1: "int_str 1 = ''1''"
  by code_simp

lemma parseInt_cases: "parseInt s = NaN \<or> (\<exists>n. parseInt s = int_num n)"
proof -
  obtain sg u where u: "take_sign (dropWhile is_space s) = (sg, u)" by fastforce
  have "sg = 1 \<or> sg = -1" using u by (cases "dropWhile is_space s") (auto split: if_splits)
  then have "\<exists>n. Fin (sg * of_nat k) = int_num n" for k
    by (auto simp: int_num_def intro: exI [of _ "int k"] exI [of _ "- int k"])
  then show ?thesis by (simp add: parseInt_def u Let_def)
qed

lemma gotoPage_iff:
  "fst (gotoPage pn (int_num t) url s) \<noteq> Refused \<longleftrightarrow> (\<exists>n. parse_int pn = int_num n \<and> 1 \<le> n \<and> n \<le> t)"
  using parseInt_cases [of "to_str pn"]
proof
  assume n: "parseInt (to_str pn) = NaN"
  then show ?thesis by (simp add: gotoPage_def Let_def parse_int_def)
next
  assume "\<exists>n. parseInt (to_str pn) = int_num n"
  then obtain n where n: "parseInt (to_str pn) = int_num n" by blast
  have "1 \<le> n \<longleftrightarrow> n \<noteq> 0 \<and> \<not> n < 0" by linarith
  then show ?thesis by (auto simp: gotoPage_def Let_def parse_int_def n)
qed

lemma gotoPage_keeps:
  assumes "fst (gotoPage pn (int_num t) url s) \<noteq> Refused"
  shows "nv_cpg (mnnav ntt npg npp (snd (gotoPage pn (int_num t) url s))) = parse_int pn"
proof -
  from assms obtain n where n: "parse_int pn = int_num n" "1 \<le> n" "n \<le> t" by (auto simp: gotoPage_iff)
  then have "nd_cpg (snd (gotoPage pn (int_num t) url s)) = JNum (int_num n)"
    by (simp add: gotoPage_def Let_def)
  moreover have "is_type ''Number'' (JNum (int_num n))" using n by simp
  ultimately show ?thesis by (simp add: mnnav_def Let_def n navCenter_def split: prod.splits)
qed

lemma scroll_unbound: "\<not> sc_bound s \<Longrightarrow> fold (scroll_event n) es s = s"
  by (induction es) (simp_all add: scroll_event_def)

lemma scroll_run:
  assumes "sc_ppage s \<le> scpage" "sc_bound s"
  shows "sc_loaded (fold (scroll_event scpage) (replicate n True) s) =
    sc_loaded s @ [sc_ppage s + 1..min (sc_ppage s + int n) (scpage + 1)]"
  using assms
proof (induction n arbitrary: s)
  case (Suc n)
  let ?s = "scroll_event scpage True s"
  have run: "fold (scroll_event scpage) (replicate (Suc n) True) s =
      fold (scroll_event scpage) (replicate n True) ?s" by (simp only: replicate_Suc fold_Cons comp_apply)
  show ?case
  proof (cases "sc_ppage s = scpage")
    case True
    then have u: "\<not> sc_bound ?s" "sc_loaded ?s = sc_loaded s @ [scpage + 1]"
      using Suc.prems by (simp_all add: scroll_event_def)
    have "sc_loaded (fold (scroll_event scpage) (replicate (Suc n) True) s) = sc_loaded s @ [scpage + 1]"
      unfolding run scroll_unbound [OF u(1)] by (rule u(2))
    then show ?thesis using True by (simp del: fold_replicate replicate_Suc)
  next
    case False
    have s: "sc_ppage ?s = sc_ppage s + 1" "sc_bound ?s" "sc_loaded ?s = sc_loaded s @ [sc_ppage s + 1]"
      using False Suc.prems by (simp_all add: scroll_event_def)
    have "sc_ppage ?s \<le> scpage" using s(1) Suc.prems(1) False by simp
    then have "sc_loaded (fold (scroll_event scpage) (replicate n True) ?s) =
        sc_loaded s @ (sc_ppage s + 1) # [sc_ppage s + 1 + 1..min (sc_ppage s + int (Suc n)) (scpage + 1)]"
      using Suc.IH [of ?s] s by (simp add: add.commute add.left_commute)
    moreover have "sc_ppage s + 1 \<le> min (sc_ppage s + int (Suc n)) (scpage + 1)" using Suc.prems False by simp
    ultimately show ?thesis unfolding run by (simp only: upto_rec1)
  qed
qed simp

subsection \<open>Properties\<close>



text \<open>
  \<open>gotoPage\<close> goes to a page exactly when its text reads as an integer from 1 to the total, and
  the page that a click chose is what \<open>mnnav\<close> shows from then on, whatever page number it is given.
\<close>

theorem chosen_page_sticks:
  "(fst (gotoPage pn (int_num t) url s) \<noteq> Refused \<longleftrightarrow> (\<exists>n. parse_int pn = int_num n \<and> 1 \<le> n \<and> n \<le> t)) \<and>
   (if fst (gotoPage pn (int_num t) url s) = Refused
    then nd_cpg (snd (gotoPage pn (int_num t) url s)) = nd_cpg s
    else nv_cpg (mnnav ntt npg npp (snd (gotoPage pn (int_num t) url s))) = parse_int pn)"
proof -
  have "fst (gotoPage pn (int_num t) url s) = Refused \<Longrightarrow> nd_cpg (snd (gotoPage pn (int_num t) url s)) = nd_cpg s"
    by (auto simp: gotoPage_def Let_def split: if_splits)
  then show ?thesis using gotoPage_keeps gotoPage_iff by auto
qed

text \<open>
  \<open>mnscrollpage\<close> given a limit of pages loads one page more than the limit: it unbinds itself at
  the event after the last allowed page and still loads at that event.
\<close>

theorem scroll_loads_one_too_many:
  assumes "ppage \<le> scpage"
  shows "sc_loaded (fold (scroll_event scpage) (replicate n True) (mnscrollpage ppage)) =
         [ppage + 1..min (ppage + int n) (scpage + 1)]"
  using assms scroll_run [of "mnscrollpage ppage" scpage n] by (simp add: mnscrollpage_def)

lemma scroll_loads_one_too_many_witness:
  "sc_loaded (fold (scroll_event 3) (replicate 10 True) (mnscrollpage 0)) = [0 + 1..min (0 + int 10) (3 + 1)]"
  by (rule scroll_loads_one_too_many) simp

end
