(* ===== verification/Table.thy ===== *)
theory Table
  imports Utl Dom
begin

text \<open>
  The table plugin \<open>mntable\<close> (\<open>lib/js/jquery.mntable.js\<close>): a header from the heads, a row per object.
  The heads are an array of titles, or an object from column names to a title or to a title and a
  function that makes the cell.  A plain cell is set with \<open>html\<close>, which on \<open>undefined\<close> reads the
  cell instead and returns a string; appending that string throws, and with it the whole table.
\<close>

datatype head = Title string | Custom string "jsv \<Rightarrow> string \<Rightarrow> jsv \<Rightarrow> js_error + string"

datatype heads = HArr "jsv list" | HObj "(string \<times> head) list"

record table =
  tb_head :: "string list"
  tb_rows :: "(string option \<times> string) list list"
  tb_rown :: nat

fun map_sum_list :: "('a \<Rightarrow> 'e + 'b) \<Rightarrow> 'a list \<Rightarrow> 'e + 'b list" where
  "map_sum_list f [] = Inr []"
| "map_sum_list f (x # xs) = bind_sum (f x) (\<lambda>y. bind_sum (map_sum_list f xs) (\<lambda>ys. Inr (y # ys)))"

text \<open>\<open>$.each(v, \<dots>)\<close>: the elements of an array, the values of an object.\<close>

fun each_vals :: "jsv \<Rightarrow> js_error + jsv list" where
  "each_vals (JArr vs) = Inr vs"
| "each_vals (JObj ps) = Inr (map snd ps)"
| "each_vals JUndef = Inl TypeError"
| "each_vals JNull = Inl TypeError"
| "each_vals _ = Inr []"

(* src/lib/js/jquery.mntable.js:47-64 makeHead *)
fun makeHead :: "heads \<Rightarrow> string list \<times> (string \<times> head) list" where
  "makeHead (HArr vs) =
     (concat (map (\<lambda>v. if is_type ''String'' v then [to_str v]
                       else if is_type ''Array'' v then [to_str (fld v ''0'')] else []) vs), [])"
| "makeHead (HObj hs) =
     (concat (map (\<lambda>(k, h). case h of Title t \<Rightarrow> if t = [] then [] else [t] | Custom t _ \<Rightarrow> [t]) hs), hs)"

definition td_html :: "jsv \<Rightarrow> js_error + string" where
  "td_html v = (if v = JUndef then Inl TypeError else if v = JNull then Inr '''' else Inr (to_str v))"

(* src/lib/js/jquery.mntable.js:67-75 makeSpecRow, one column *)
fun spec_cell :: "jsv \<Rightarrow> string \<times> head \<Rightarrow> js_error + (string option \<times> string)" where
  "spec_cell row (k, Title _) =
     bind_sum (js_get row k) (\<lambda>v. bind_sum (td_html v) (\<lambda>h. Inr (Some k, h)))"
| "spec_cell row (k, Custom _ f) =
     bind_sum (js_get row k) (\<lambda>v. bind_sum (f row k v) (\<lambda>h. Inr (Some k, h)))"

text \<open>A plain column with an empty name has no type and is passed over.\<close>

(* src/lib/js/jquery.mntable.js:66-77 makeSpecRow *)
definition makeSpecRow :: "(string \<times> head) list \<Rightarrow> jsv \<Rightarrow> js_error + (string option \<times> string) list" where
  "makeSpecRow spec row =
     map_sum_list (spec_cell row) (filter (\<lambda>(k, h). \<not> (k = [] \<and> (case h of Title _ \<Rightarrow> True | _ \<Rightarrow> False))) spec)"

(* src/lib/js/jquery.mntable.js:79-92 makeRows *)
definition makeRows :: "(string \<times> head) list \<Rightarrow> jsv \<Rightarrow> js_error + (string option \<times> string) list list" where
  "makeRows spec rows =
     bind_sum (each_vals rows) (\<lambda>rs.
       map_sum_list (\<lambda>row. if spec \<noteq> [] then makeSpecRow spec row
                           else bind_sum (each_vals row) (\<lambda>cs. Inr (map (\<lambda>c. (None, to_str c)) cs))) rs)"

(* src/lib/js/jquery.mntable.js:35-98 mntable *)
definition mntable :: "heads \<Rightarrow> jsv \<Rightarrow> js_error + table" where
  "mntable heads rows =
     (let (ths, spec) = makeHead heads
      in bind_sum (makeRows spec rows) (\<lambda>trs. Inr \<lparr>tb_head = ths, tb_rows = trs, tb_rown = length trs\<rparr>))"

subsection \<open>Lemmas\<close>

lemma map_sum_list_Inr:
  "(\<And>x. x \<in> set xs \<Longrightarrow> f x = Inr (g x)) \<Longrightarrow> map_sum_list f xs = Inr (map g xs)"
  by (induction xs) auto

text \<open>A table of plain columns: what each cell holds, and when the whole is refused.\<close>

definition plain_heads :: "(string \<times> string) list \<Rightarrow> heads" where
  "plain_heads cols = HObj (map (\<lambda>(k, t). (k, Title t)) cols)"

definition has_cols :: "(string \<times> string) list \<Rightarrow> (string \<times> jsv) list \<Rightarrow> bool" where
  "has_cols cols row \<longleftrightarrow> list_all (\<lambda>(k, _). (case map_of row k of None \<Rightarrow> False | Some v \<Rightarrow> v \<noteq> JUndef)) cols"

definition cell_text :: "jsv \<Rightarrow> string" where
  "cell_text v = (if v = JNull then '''' else to_str v)"

definition plain_row :: "(string \<times> string) list \<Rightarrow> (string \<times> jsv) list \<Rightarrow> (string option \<times> string) list" where
  "plain_row cols row = map (\<lambda>(k, _). (Some k, cell_text (the (map_of row k)))) cols"

lemma spec_cell_plain:
  "spec_cell (JObj row) (k, Title t) =
     (case map_of row k of None \<Rightarrow> Inl TypeError
      | Some v \<Rightarrow> if v = JUndef then Inl TypeError else Inr (Some k, cell_text v))"
  by (simp add: td_html_def cell_text_def split: option.splits)

lemma makeSpecRow_plain:
  assumes "list_all (\<lambda>(k, _). k \<noteq> []) cols"
  shows "makeSpecRow (map (\<lambda>(k, t). (k, Title t)) cols) (JObj row) =
    (if has_cols cols row then Inr (plain_row cols row) else Inl TypeError)"
proof -
  have flt: "filter (\<lambda>(k, h). \<not> (k = [] \<and> (case h of Title _ \<Rightarrow> True | _ \<Rightarrow> False))) (map (\<lambda>(k, t). (k, Title t)) cols)
      = map (\<lambda>(k, t). (k, Title t)) cols"
    using assms by (auto simp: filter_id_conv list_all_iff)
  have "map_sum_list (spec_cell (JObj row)) (map (\<lambda>(k, t). (k, Title t)) cols) =
     (if has_cols cols row then Inr (plain_row cols row) else Inl TypeError)"
    by (induction cols)
      (auto simp: has_cols_def plain_row_def spec_cell_plain simp del: spec_cell.simps split: option.splits)
  then show ?thesis by (simp only: makeSpecRow_def flt)
qed

lemma map_sum_list_if:
  "map_sum_list (\<lambda>x. if p x then Inr (g x) else Inl e) xs = (if list_all p xs then Inr (map g xs) else Inl e)"
  by (induction xs) auto

lemma mntable_plain:
  assumes "cols \<noteq> []" "list_all (\<lambda>(k, t). k \<noteq> [] \<and> t \<noteq> []) cols"
  shows "mntable (plain_heads cols) (JArr (map JObj rows)) =
    (if list_all (has_cols cols) rows
     then Inr \<lparr>tb_head = map snd cols, tb_rows = map (plain_row cols) rows, tb_rown = length rows\<rparr>
     else Inl TypeError)"
proof -
  have ks: "list_all (\<lambda>(k, _). k \<noteq> []) cols" using assms(2) by (auto simp: list_all_iff)
  have th: "fst (makeHead (plain_heads cols)) = map snd cols"
    using assms(2) unfolding plain_heads_def by (induction cols) auto
  have row: "(if map (\<lambda>(k, t). (k, Title t)) cols \<noteq> [] then makeSpecRow (map (\<lambda>(k, t). (k, Title t)) cols) (JObj r) else x)
      = (if has_cols cols r then Inr (plain_row cols r) else Inl TypeError)" for r x
    using assms(1) makeSpecRow_plain [OF ks] by simp
  have "map_sum_list (\<lambda>r. if map (\<lambda>(k, t). (k, Title t)) cols \<noteq> [] then makeSpecRow (map (\<lambda>(k, t). (k, Title t)) cols) r
           else bind_sum (each_vals r) (\<lambda>cs. Inr (map (\<lambda>c. (None, to_str c)) cs))) (map JObj rows)
      = (if list_all (has_cols cols) rows then Inr (map (plain_row cols) rows) else Inl TypeError)"
    by (induction rows) (auto simp only: map_sum_list.simps list.map row, auto)
  then have "makeRows (snd (makeHead (plain_heads cols))) (JArr (map JObj rows)) =
      (if list_all (has_cols cols) rows then Inr (map (plain_row cols) rows) else Inl TypeError)"
    by (simp add: makeRows_def plain_heads_def)
  then show ?thesis using th by (cases "makeHead (plain_heads cols)") (simp add: mntable_def)
qed

subsection \<open>Properties\<close>

text \<open>
  A table of named columns: the titles in order, one row per object in order, each cell the text
  of its field (nothing for null); and when one object lacks one field, no table at all but an
  exception.
\<close>

theorem table_all_or_nothing:
  assumes "cols \<noteq> []" "list_all (\<lambda>(k, t). k \<noteq> [] \<and> t \<noteq> []) cols"
  shows "mntable (plain_heads cols) (JArr (map JObj rows)) =
    (if list_all (has_cols cols) rows
     then Inr \<lparr>tb_head = map snd cols, tb_rows = map (plain_row cols) rows, tb_rown = length rows\<rparr>
     else Inl TypeError)"
  using assms by (rule mntable_plain)

lemma table_all_or_nothing_witness:
  "mntable (plain_heads [(''fee'', ''Fee'')]) (JArr (map JObj [[(''fee'', jint 3)], []])) = Inl TypeError"
  by (subst table_all_or_nothing) (simp_all add: has_cols_def)

end
