(* ===== verification/PopOms.thy ===== *)
theory PopOms
  imports Forms Pager Table
begin

text \<open>
  The management pages of the chat site (\<open>pop/fly/js/oms/\<close>): the customer-service accounts, the bill,
  the settings, the statistics tables and the start page.
\<close>

subsection \<open>users.js\<close>

(* src/pop/fly/js/oms/users.js:9-12 init *)
datatype users_el = UsSecy | UsAname | UsEmail | UsAsn | UsSecyPanel | UsSubmitPanel | UsOverlay

text \<open>The rows of the table are kept as their \<open>id\<close> attribute and their cells.\<close>

record users = "users_el page" +
  us_rows :: "(string \<times> string list) list"

definition user_id :: "string \<Rightarrow> string" where
  "user_id aname = ''user-'' @ aname"

text \<open>
  The row's markup is \<open><tr id=user-NAME"></tr>\<close>: the opening quote is missing, so the value runs to
  the closing bracket and the \<open>id\<close> of the row ends with a quote.
\<close>

(* src/pop/fly/js/oms/users.js:19-40 _nodeUser *)
definition nodeUser :: "string \<Rightarrow> string \<Rightarrow> users \<Rightarrow> users" where
  "nodeUser aname email s =
     (if list_ex (\<lambda>r. fst r = user_id aname) (us_rows s) then s
      else s\<lparr>us_rows := us_rows s @ [(user_id aname @ [dquote],
               [aname, email, (utf8 [229, 136, 154, 229, 136, 154]), (utf8 [229, 136, 154, 229, 136, 154]), (utf8 [231, 166, 187, 231, 186, 191]), (utf8 [229, 136, 160, 233, 153, 164])])]\<rparr>)"

text \<open>
  These pages ask \<open>data.success == '1'\<close>, with the string; the callbacks otherwise have the skeleton of
  \<open>settle\<close> and nothing to do on a success but to mark the panel.
\<close>

definition said_done :: "jsv \<Rightarrow> bool" where
  "said_done data \<longleftrightarrow> loose_eq (fld data ''success'') (JStr ''1'')"

definition settle_said :: "'i \<Rightarrow> jsv \<Rightarrow> (('i, 'z) page_scheme \<Rightarrow> ('i, 'z) page_scheme) \<Rightarrow> ('i, 'z) page_scheme \<Rightarrow> ('i, 'z) page_scheme" where
  "settle_said p data no s =
     (let s1 = on p (remove_class ''loading'') s
      in if data = JUndef \<or> data = JNull then throw s1
         else if said_done data then on p (add_class ''success'') s1
         else no (on p (add_class ''error'') s1))"

(* src/pop/fly/js/oms/users.js:69-78 setSecy *)
definition setSecy :: "users \<Rightarrow> users" where
  "setSecy s = send POST ''/json/oms/secy'' [(''_op'', JStr ''mod''), (''aname'', JStr (e_val (dom s UsSecy)))]
     (on UsSecyPanel (panel_begin ''vres'') s)"

(* src/pop/fly/js/oms/users.js:78-86 setSecy, its callback *)
definition setSecy_reply :: "jsv \<Rightarrow> users \<Rightarrow> users" where
  "setSecy_reply data = settle_said UsSecyPanel data (add_note UsSecyPanel ''vres'' (errmsg data))"

(* src/pop/fly/js/oms/users.js:89-104 userAdd *)
definition userAdd :: "users \<Rightarrow> users" where
  "userAdd = when_valid [UsAname, UsEmail, UsAsn] (\<lambda>s0.
     let s = on UsAsn (set_val (md5md5 (e_val (dom s0 UsAsn)))) s0;
         aname = e_val (dom s UsAname); email = e_val (dom s UsEmail); asn = e_val (dom s UsAsn)
     in send POST ''/json/oms/users''
          [(''_op'', JStr ''add''), (''aname'', JStr aname), (''email'', JStr email), (''asn'', JStr asn)]
          (on UsSubmitPanel (panel_begin ''vres'') s))"

(* src/pop/fly/js/oms/users.js:104-116 userAdd, its callback *)
definition userAdd_reply :: "jsv \<Rightarrow> users \<Rightarrow> users" where
  "userAdd_reply data = settle_said UsSubmitPanel data (add_note UsSubmitPanel ''vres'' (errmsg data))"

(* src/pop/fly/js/oms/users.js:108-111 userAdd, its timer *)
definition userAdd_done :: "string \<Rightarrow> string \<Rightarrow> users \<Rightarrow> users" where
  "userAdd_done aname email s = nodeUser aname email (on UsOverlay hide_el s)"

(* src/pop/fly/js/oms/users.js:119-125 userDel *)
definition userDel :: "string \<Rightarrow> bool \<Rightarrow> users \<Rightarrow> users" where
  "userDel aname confirmed s =
     (if confirmed then send POST ''/json/oms/users'' [(''_op'', JStr ''del''), (''aname'', JStr aname)] s else s)"

(* src/pop/fly/js/oms/users.js:125-131 userDel, its callback *)
definition userDel_reply :: "string \<Rightarrow> jsv \<Rightarrow> users \<Rightarrow> users" where
  "userDel_reply aname data s =
     (if data = JUndef \<or> data = JNull then throw s
      else if said_done data then s\<lparr>us_rows := filter (\<lambda>r. fst r \<noteq> user_id aname) (us_rows s)\<rparr>
      else alert (errmsg_or data (utf8 [230, 147, 141, 228, 189, 156, 229, 164, 177, 232, 180, 165, 239, 188, 140, 32, 232, 175, 183, 231, 168, 141, 229, 144, 142, 229, 134, 141, 232, 175, 149])) s)"

datatype users_ev = UsType users_el string | UsSecyChange | UsSecyReply jsv | UsClick | UsAddReply jsv
  | UsAddTimer string string | UsDelClick string bool | UsDelReply string jsv

(* src/pop/fly/js/oms/users.js:50-56 bindClick *)
fun users_step :: "users_ev \<Rightarrow> users \<Rightarrow> users" where
  "users_step (UsType i v) s = on i (set_val v) s"
| "users_step UsSecyChange s = setSecy s"
| "users_step (UsSecyReply d) s = setSecy_reply d s"
| "users_step UsClick s = userAdd s"
| "users_step (UsAddReply d) s = userAdd_reply d s"
| "users_step (UsAddTimer a m) s = userAdd_done a m s"
| "users_step (UsDelClick a c) s = userDel a c s"
| "users_step (UsDelReply a d) s = userDel_reply a d s"

subsection \<open>edit.js\<close>

text \<open>Each check box \<open>i\<close> has its parent panel; \<open>tune\<close> is its attribute.\<close>

(* src/pop/fly/js/oms/edit.js:27-38 changeSet *)
definition changeSet :: "'i \<Rightarrow> string \<Rightarrow> bool \<Rightarrow> 'i page \<Rightarrow> 'i page" where
  "changeSet i tune checked s =
     send POST ''/json/oms/edit''
       [(''_op'', JStr ''mod''), (''tune'', JStr tune), (''tuneop'', jint (if checked then 1 else 0))]
       (on i (panel_begin ''vres'') s)"

(* src/pop/fly/js/oms/edit.js:38-46 changeSet, its callback *)
definition changeSet_reply :: "'i \<Rightarrow> jsv \<Rightarrow> 'i page \<Rightarrow> 'i page" where
  "changeSet_reply i data = settle_said i data (add_note i ''vres'' (errmsg data))"

subsection \<open>bill.js\<close>

(* src/pop/fly/js/oms/bill.js:9-11 init *)
datatype bill_el = BlTms | BlTme

record bill = "bill_el page" +
  bl_table :: "table option"
  bl_doc :: nav_doc
  bl_nav :: "nav_view option"

(* src/pop/fly/js/oms/bill.js:45-51 turnPage *)
definition turnPage :: "jsv \<Rightarrow> bill \<Rightarrow> bill" where
  "turnPage pn s = send GET ''/json/oms/bill''
     [(''tms'', JStr (e_val (dom s BlTms))), (''tme'', JStr (e_val (dom s BlTme))), (''_npg'', pn)] s"

(* src/pop/fly/js/oms/bill.js:56-64 turnPage, the cell of the type *)
definition bill_type :: "jsv \<Rightarrow> string \<Rightarrow> jsv \<Rightarrow> js_error + string" where
  "bill_type row col val = bind_sum (js_get row ''btype'') (\<lambda>t.
     Inr (''<span>'' @ (if loose_eq t (jint 0) then (utf8 [231, 148, 179, 232, 175, 183, 229, 133, 133, 229, 128, 188]) else if loose_eq t (jint 1) then (utf8 [231, 161, 174, 232, 174, 164, 229, 133, 133, 229, 128, 188])
          else if loose_eq t (jint 2) then (utf8 [230, 183, 187, 229, 138, 160, 229, 174, 162, 230, 156, 141, 229, 184, 144, 229, 143, 183]) else if loose_eq t (jint 3) then (utf8 [230, 147, 141, 228, 189, 156, 229, 155, 158, 230, 187, 154])
          else (utf8 [230, 156, 170, 231, 159, 165, 230, 147, 141, 228, 189, 156])) @ ''</span>''))"

(* src/pop/fly/js/oms/bill.js:54-67 turnPage, the heads *)
definition bill_heads :: heads where
  "bill_heads = HObj [(''intime'', Title (utf8 [228, 186, 164, 230, 152, 147, 230, 151, 182, 233, 151, 180])), (''_type'', Custom (utf8 [228, 186, 164, 230, 152, 147, 231, 177, 187, 229, 158, 139]) bill_type),
     (''fee'', Title (utf8 [228, 186, 164, 230, 152, 147, 233, 135, 145, 233, 162, 157])), (''remark'', Title (utf8 [228, 186, 164, 230, 152, 147, 229, 164, 135, 230, 179, 168]))]"

(* src/pop/fly/js/oms/bill.js:51-82 turnPage, its callback *)
definition turnPage_reply :: "jsv \<Rightarrow> bill \<Rightarrow> bill" where
  "turnPage_reply data s =
     (if data = JUndef \<or> data = JNull then throw s
      else if is_one (fld data ''success'') then
        (case mntable bill_heads (fld data ''bills'') of
           Inl e \<Rightarrow> raise e s
         | Inr t \<Rightarrow> s\<lparr>bl_table := Some t,
             bl_nav := Some (mnnav (fld data ''_ntt'') (fld data ''_npg'') (fld data ''_npp'') (bl_doc s))\<rparr>)
      else alert (errmsg_or data (utf8 [232, 142, 183, 229, 143, 150, 230, 149, 176, 230, 141, 174, 229, 164, 177, 232, 180, 165, 239, 188, 140, 232, 175, 183, 231, 168, 141, 229, 144, 142, 229, 134, 141, 232, 175, 149, 239, 188, 129])) s)"

text \<open>A click on a link of the navigation.\<close>

(* src/pop/fly/js/oms/bill.js:73-78 turnPage, the navigation it draws *)
definition nav_click :: "jsv \<Rightarrow> bill \<Rightarrow> bill" where
  "nav_click rel s = (case bl_nav s of
       None \<Rightarrow> s
     | Some v \<Rightarrow> (case gotoPage rel (nv_tpg v) [] (bl_doc s) of
           (Call pn, d) \<Rightarrow> turnPage (JNum pn) (s\<lparr>bl_doc := d\<rparr>)
         | (_, d) \<Rightarrow> s\<lparr>bl_doc := d\<rparr>))"

(* src/pop/fly/js/oms/bill.js:29-31 bindClick *)
definition submit_click :: "bill \<Rightarrow> bill" where
  "submit_click s = turnPage (jint 1) s"

(* src/pop/fly/js/oms/bill.js:34-43 rendNav *)
definition bill_rendNav :: "jsv \<Rightarrow> bill \<Rightarrow> bill" where
  "bill_rendNav mgd s =
     s\<lparr>bl_nav := Some (mnnav (fld mgd ''ntt'') (fld mgd ''npg'') (fld mgd ''npp'') (bl_doc s))\<rparr>"

subsection \<open>stat.js\<close>

record stat =
  st_data :: jsv
  st_table :: "table option"
  st_previous :: jsv
  st_tooltip :: "string option"
  st_thrown :: "js_error list"

definition put_table :: "js_error + table \<Rightarrow> stat \<Rightarrow> stat" where
  "put_table r s = (case r of
       Inl e \<Rightarrow> s\<lparr>st_thrown := st_thrown s @ [e]\<rparr>
     | Inr t \<Rightarrow> s\<lparr>st_table := Some t\<rparr>)"

(* src/pop/fly/js/oms/stat.js:112-127 rendUrl *)
definition rendUrl :: "stat \<Rightarrow> stat" where
  "rendUrl s = put_table (bind_sum (js_get (st_data s) ''url'') (mntable (HObj
     [(''_title'', Custom (utf8 [232, 162, 171, 232, 174, 191, 233, 161, 181, 233, 157, 162, 230, 160, 135, 233, 162, 152]) (\<lambda>row col val.
         bind_sum (js_get row ''href'') (\<lambda>h. bind_sum (js_get row ''title'') (\<lambda>t.
           Inr (''<a target='' @ [dquote] @ ''_blank'' @ [dquote] @ '' href='' @ [dquote] @ to_str h @ [dquote] @ ''>'' @
                to_str t @ ''</a>''))))),
      (''count'', Title (utf8 [232, 174, 191, 233, 151, 174, 230, 172, 161, 230, 149, 176]))]))) s"

(* src/pop/fly/js/oms/stat.js:129-135 rendRefer *)
definition rendRefer :: "stat \<Rightarrow> stat" where
  "rendRefer s = put_table (bind_sum (js_get (st_data s) ''refer'')
     (mntable (HArr [JStr (utf8 [233, 166, 150, 230, 172, 161, 232, 174, 191, 233, 151, 174, 230, 157, 165, 232, 183, 175]), JStr (utf8 [230, 157, 165, 232, 183, 175, 230, 172, 161, 230, 149, 176])]))) s"

(* src/pop/fly/js/oms/stat.js:137-143 rendArea *)
definition rendArea :: "stat \<Rightarrow> stat" where
  "rendArea s = put_table (bind_sum (js_get (st_data s) ''area'')
     (mntable (HArr [JStr (utf8 [231, 148, 168, 230, 136, 183, 230, 137, 128, 229, 156, 168, 231, 156, 129, 228, 187, 189]), JStr (utf8 [231, 148, 168, 230, 136, 183, 228, 184, 170, 230, 149, 176])]))) s"

(* src/pop/fly/js/oms/stat.js:96-110 rendTable *)
definition rendTable :: "string \<Rightarrow> stat \<Rightarrow> stat" where
  "rendTable type s =
     (if type = ''url'' then rendUrl s else if type = ''refer'' then rendRefer s
      else if type = ''area'' then rendArea s else s)"

text \<open>What the plot is given: the two lines.\<close>

definition stat_lines :: "stat \<Rightarrow> js_error + (string \<times> jsv) list" where
  "stat_lines s = bind_sum (js_get (st_data s) ''pv'') (\<lambda>pv. bind_sum (js_get (st_data s) ''uv'') (\<lambda>uv.
     Inr [((utf8 [232, 174, 191, 233, 151, 174, 233, 135, 143]), pv), ((utf8 [231, 148, 168, 230, 136, 183, 233, 135, 143]), uv)]))"

(* src/pop/fly/js/oms/stat.js:47-69 rendStat *)
definition rendStat :: "string \<Rightarrow> jsv \<Rightarrow> stat \<Rightarrow> stat" where
  "rendStat type mgd s =
     (let s1 = s\<lparr>st_data := js_or (st_data s) (fld mgd ''stdata'')\<rparr>
      in case stat_lines s1 of
           Inl e \<Rightarrow> s1\<lparr>st_thrown := st_thrown s1 @ [e]\<rparr>
         | Inr ls \<Rightarrow> rendTable type s1)"

text \<open>
  A hover over the plot, with the point under it; the text of the tooltip (a date in the local time
  zone) is given.
\<close>

(* src/pop/fly/js/oms/stat.js:71-94 plotOver *)
definition plotOver :: "(jsv \<times> string) option \<Rightarrow> stat \<Rightarrow> stat" where
  "plotOver item s = (case item of
       Some (datapoint, tip) \<Rightarrow>
         (if \<not> loose_eq (st_previous s) datapoint then s\<lparr>st_previous := datapoint, st_tooltip := Some tip\<rparr> else s)
     | None \<Rightarrow> s\<lparr>st_tooltip := None, st_previous := JNull\<rparr>)"

lemma one_is_said [simp]: "loose_eq (jint 1) (JStr ''1'')" "loose_eq (JStr ''1'') (JStr ''1'')" "\<not> loose_eq (jint 0) (JStr ''1'')"
  by code_simp+

subsection \<open>The forms meet the contract\<close>

text \<open>The callback is \<open>settle\<close> on a reply that says it with a number.\<close>

definition as_number :: "jsv \<Rightarrow> jsv" where
  "as_number d = (if is_reply d then JObj [(''success'', jint (if said_done d then 1 else 0))] else d)"

lemma settle_said_settle: "settle_said p d no s = settle p (as_number d) (\<lambda>s. s) no s"
  by (auto simp: settle_said_def settle_def as_number_def is_reply_def Let_def)

lemma as_number_reply [simp]: "is_reply (as_number d) = is_reply d" "is_reply d \<Longrightarrow> success (as_number d) = said_done d"
  by (auto simp: as_number_def is_reply_def success_def)

lemma settle_said_panel:
  "is_reply d \<Longrightarrow> dom (settle_said p d (add_note p c m) s) p =
     panel_done (said_done d) (if said_done d then [] else [(c, m)]) (dom s p)"
  by (simp add: settle_said_def is_reply_def Let_def panel_done_def dom_defs)

lemma all_hashed_settle_said [simp]: "all_hashed (settle_said p d (add_note p c m) s) = all_hashed s"
  by (simp add: settle_said_settle)

interpretation setSecy: form_panel "\<lambda>s. dom s UsSecyPanel" "''vres''" "\<lambda>_. True" setSecy setSecy_reply
    is_reply said_done "\<lambda>d. if said_done d then [] else vres d"
  by unfold_locales (simp_all add: setSecy_def setSecy_reply_def settle_said_panel vres_def)

lemma userAdd_panel:
  "dom (userAdd s) UsSubmitPanel =
     (if ready [UsAname, UsEmail, UsAsn] s then panel_begin ''vres'' (dom s UsSubmitPanel)
      else dom s UsSubmitPanel)"
  by (simp add: userAdd_def when_valid_ready Let_def inputval_other)

interpretation userAdd: form_panel "\<lambda>s. dom s UsSubmitPanel" "''vres''" "ready [UsAname, UsEmail, UsAsn]"
    userAdd userAdd_reply is_reply said_done "\<lambda>d. if said_done d then [] else vres d"
  by unfold_locales (simp_all add: userAdd_panel userAdd_reply_def settle_said_panel vres_def)

interpretation changeSet: form_panel "\<lambda>s. dom s i" "''vres''" "\<lambda>_. True" "changeSet i tune checked"
    "changeSet_reply i" is_reply said_done "\<lambda>d. if said_done d then [] else vres d" for i tune checked
  by unfold_locales (simp_all add: changeSet_def changeSet_reply_def settle_said_panel vres_def)

subsection \<open>Passwords\<close>

lemma users_more [simp]: "all_hashed (s\<lparr>us_rows := x\<rparr>) = all_hashed (s :: users)"
  by (cases s) (simp add: all_hashed_def)

lemma users_step_hashed: "all_hashed s \<Longrightarrow> all_hashed (users_step e s)"
  by (cases e)
    (auto simp: setSecy_def setSecy_reply_def userAdd_def when_valid_ready Let_def param_hashed_def
      userAdd_reply_def userAdd_done_def nodeUser_def userDel_def userDel_reply_def)

interpretation users: machine users_step "all_hashed :: users \<Rightarrow> bool"
  by unfold_locales (rule users_step_hashed)

lemma userAdd_reqs:
  "reqs (userAdd s) = (if ready [UsAname, UsEmail, UsAsn] s
     then reqs s @ [\<lparr>r_method = POST, r_url = ''/json/oms/users'',
       r_params = [(''_op'', JStr ''add''), (''aname'', JStr (e_val (dom s UsAname))),
         (''email'', JStr (e_val (dom s UsEmail))), (''asn'', JStr (md5md5 (e_val (dom s UsAsn))))]\<rparr>]
     else reqs s)"
  using fold_mark_val [of "[UsAname, UsEmail, UsAsn]" s]
  by (simp add: userAdd_def when_valid_ready Let_def del: fold.simps)

lemma userAdd_asn:
  "ready [UsAname, UsEmail, UsAsn] s \<Longrightarrow> e_val (dom (userAdd s) UsAsn) = md5md5 (e_val (dom s UsAsn))"
  using fold_mark_val [of "[UsAname, UsEmail, UsAsn]" s]
  by (simp add: userAdd_def when_valid_ready Let_def del: fold.simps)

lemma userAdd_reply_frame:
  "reqs (userAdd_reply d s) = reqs s" "dom (userAdd_reply d s) UsAsn = dom s UsAsn"
  by (simp_all add: userAdd_reply_def settle_said_settle settle_frame settle_other)

subsection \<open>The table of accounts\<close>

lemma us_rows_on [simp]: "us_rows (on i f s) = us_rows s"
  by (simp add: on_def)

lemma user_id_quote [simp]: "user_id a @ [dquote] \<noteq> user_id a"
  by simp

lemma list_ex_none: "\<not> list_ex P xs \<Longrightarrow> filter (\<lambda>x. \<not> P x) xs = xs"
  by (simp add: filter_id_conv list_ex_iff)

lemma userAdd_done_rows:
  "\<not> list_ex (\<lambda>r. fst r = user_id a) (us_rows s) \<Longrightarrow>
     us_rows (userAdd_done a m s) = us_rows s @ [(user_id a @ [dquote], [a, m, (utf8 [229, 136, 154, 229, 136, 154]), (utf8 [229, 136, 154, 229, 136, 154]), (utf8 [231, 166, 187, 231, 186, 191]), (utf8 [229, 136, 160, 233, 153, 164])])]"
  by (simp add: userAdd_done_def nodeUser_def)

lemma userDel_reply_rows:
  "is_reply d \<Longrightarrow> said_done d \<Longrightarrow> us_rows (userDel_reply a d s) = filter (\<lambda>r. fst r \<noteq> user_id a) (us_rows s)"
  by (simp add: userDel_reply_def is_reply_def)

subsection \<open>The bill\<close>

lemma turnPage_frame [simp]:
  "bl_doc (turnPage pn s) = bl_doc s" "bl_nav (turnPage pn s) = bl_nav s"
  by (simp_all add: turnPage_def send_def)

lemma bl_doc_more: "bl_doc (s\<lparr>bl_doc := d\<rparr>) = d" "reqs (s\<lparr>bl_doc := d\<rparr>) = reqs (s :: bill)"
  by (cases s, simp)+

lemma nav_click_doc:
  assumes "bl_nav s = Some v" "nv_tpg v = int_num t" "fst (gotoPage rel (int_num t) [] (bl_doc s)) \<noteq> Refused"
  shows "bl_doc (nav_click rel s) = snd (gotoPage rel (int_num t) [] (bl_doc s))"
  using assms by (auto simp: nav_click_def bl_doc_more split: prod.splits goto.splits)

subsection \<open>Properties\<close>

text \<open>
  A row that was added to the table of accounts cannot be found again: its id ends with a
  quote, so deleting the account that was just created leaves its row in the table, and adding the
  account twice shows it twice.
\<close>

theorem added_account_row_is_lost:
  assumes "\<not> list_ex (\<lambda>r. fst r = user_id a) (us_rows s)" "is_reply d" "said_done d"
  shows "us_rows (userDel_reply a d (userAdd_done a m s)) = us_rows (userAdd_done a m s) \<and>
         length (us_rows (userAdd_done a m (userAdd_done a m s))) = length (us_rows s) + 2"
proof -
  have f: "filter (\<lambda>r. fst r \<noteq> user_id a) (us_rows s) = us_rows s"
    using list_ex_none [OF assms(1)] by simp
  have n: "\<not> list_ex (\<lambda>r. fst r = user_id a) (us_rows (userAdd_done a m s))"
    using assms(1) by (simp add: userAdd_done_rows)
  show ?thesis
    using assms f by (simp add: userDel_reply_rows userAdd_done_rows userAdd_done_rows [OF n])
qed

definition users_page :: users where
  "users_page = \<lparr>dom = (\<lambda>_. blank), reqs = [], alerts = [], thrown = [], us_rows = [(user_id ''bob'', [''bob''])]\<rparr>"

lemma added_account_row_is_lost_witness:
  "us_rows (userDel_reply ''eve'' (JObj [(''success'', jint 1)]) (userAdd_done ''eve'' ''e@x.cn'' users_page)) =
     us_rows (userAdd_done ''eve'' ''e@x.cn'' users_page) \<and>
   length (us_rows (userAdd_done ''eve'' ''e@x.cn'' (userAdd_done ''eve'' ''e@x.cn'' users_page))) =
     length (us_rows users_page) + 2"
  by (rule added_account_row_is_lost) (simp_all add: users_page_def user_id_def is_reply_def said_done_def)

text \<open>
  The bill after a search: a page that was chosen in the navigation stays the current page of
  the navigation when the search button then asks for page 1, whatever page the reply says it is.
\<close>

theorem search_shows_stale_page:
  assumes "bl_nav s = Some v" "nv_tpg v = int_num t" "fst (gotoPage rel (int_num t) [] (bl_doc s)) \<noteq> Refused"
    and "is_reply d" "success d" "mntable bill_heads (fld d ''bills'') = Inr tb"
  shows "map_of (r_params (last (reqs (submit_click (nav_click rel s))))) ''_npg'' = Some (jint 1) \<and>
         map_option nv_cpg (bl_nav (turnPage_reply d (submit_click (nav_click rel s)))) = Some (parse_int rel)"
proof -
  let ?s = "submit_click (nav_click rel s)"
  have "bl_doc ?s = snd (gotoPage rel (int_num t) [] (bl_doc s))"
    using nav_click_doc [OF assms(1-3)] by (simp add: submit_click_def)
  then have "nv_cpg (mnnav (fld d ''_ntt'') (fld d ''_npg'') (fld d ''_npp'') (bl_doc ?s)) = parse_int rel"
    using gotoPage_keeps [OF assms(3)] by simp
  then show ?thesis
    using assms(4-6) by (simp add: turnPage_reply_def is_reply_def success_def submit_click_def turnPage_def)
qed

definition bill_page :: bill where
  "bill_page = \<lparr>dom = (\<lambda>_. blank), reqs = [], alerts = [], thrown = [], bl_table = None,
     bl_doc = \<lparr>nd_cpg = JUndef, nd_inp = blank\<rparr>,
     bl_nav = Some (mnnav (jint 60) (jint 1) (jint 15) \<lparr>nd_cpg = JUndef, nd_inp = blank\<rparr>)\<rparr>"

lemma search_shows_stale_page_witness:
  "map_of (r_params (last (reqs (submit_click (nav_click (jint 3) bill_page))))) ''_npg'' = Some (jint 1) \<and>
   map_option nv_cpg (bl_nav (turnPage_reply
     (JObj [(''success'', jint 1), (''bills'', JArr []), (''_ntt'', jint 20), (''_npg'', jint 1)])
     (submit_click (nav_click (jint 3) bill_page)))) = Some (parse_int (jint 3))"
proof -
  have t: "nv_tpg (mnnav (jint 60) (jint 1) (jint 15) \<lparr>nd_cpg = JUndef, nd_inp = blank\<rparr>) = int_num 4"
    by (subst mnnav_fresh) (simp_all add: pages_def)
  show ?thesis
    by (rule search_shows_stale_page [OF _ t])
      (simp_all add: bill_page_def gotoPage_iff is_reply_def success_def bill_heads_def mntable_def makeRows_def)
qed

end
