(* ===== verification/Chat.thy ===== *)
theory Chat
  imports FormPanel Cookie Pager
begin

text \<open>
  The visitor's chat window (\<open>pop/fly/js/ape/app/bmoon.chat.js\<close>) and the part of \<open>livecs.js\<close> that
  feeds it.  The APE library itself is not in the repository: a pipe is a name, and what the code
  sends is a log of the command, its parameters and the pipe it goes to.

  The window has three boxes: the maximised box, the bar (\<open>mid\<close>) and, when the page allows it, the
  minimised button.  \<open>u_bound\<close> lists the handlers bound to the event that opens the window,
  \<open>u_binders\<close> counts the \<open>mouseout\<close> handlers that bind another one, \<open>u_timers\<close> the pending 50 ms
  timers of \<open>closeChat\<close>.  Times of messages are given by the caller as text.
\<close>

datatype box = Max | Mid | Min

datatype act = Open | Close

text \<open>A command to the chat server: its name, its parameters, and the pipe (\<open>None\<close>: the session's own).\<close>

record command =
  co_name :: string
  co_params :: "(string \<times> jsv) list"
  co_pipe :: "string option"

record chat_opts =
  op_uname :: string
  op_pname :: string
  op_aname :: "string option"
  op_ui :: "string option"
  op_hidemid :: bool
  op_minable :: bool
  op_maxevent :: string

record chat =
  u_opts :: chat_opts
  u_shown :: "box \<Rightarrow> bool"
  u_rendo :: box
  u_bound :: "act list"
  u_binders :: nat
  u_over :: bool
  u_timers :: nat
  u_blink :: bool
  u_dirty :: bool
  u_cookie :: "string option"
  m_admin :: jsv
  m_pipe :: "string option"
  m_input :: string
  m_hint :: string
  m_hint_timers :: "string list"
  m_data :: "string list"
  m_recent :: "string list"
  m_sent :: "command list"
  m_remind :: bool
  m_sounds :: "string list"
  m_thrown :: "js_error list"

subsection \<open>Messages as markup\<close>

text \<open>\<open>s.replace(/<\/?[^>]*>/g, '')\<close>: from a \<open><\<close> to the next \<open>>\<close>, when there is one.\<close>

function strip_tags :: "string \<Rightarrow> string" where
  "strip_tags [] = []"
| "strip_tags (c # s) =
     (if c = CHR ''<'' \<and> CHR ''>'' \<in> set s then strip_tags (tl (dropWhile (\<lambda>x. x \<noteq> CHR ''>'') s))
      else c # strip_tags s)"
  by pat_completeness auto
termination
proof (relation "measure length", goal_cases)
  case (2 c s)
  show ?case using length_dropWhile_le [of "\<lambda>x. x \<noteq> CHR ''>''" s] by (simp add: less_Suc_eq_le)
qed auto

text \<open>What is put between the tags of a message; another type joins as the empty string.\<close>

(* src/pop/fly/js/ape/app/bmoon.chat.js:8-17 _strAction *)
definition strAction :: "string \<Rightarrow> jsv \<Rightarrow> js_error + string" where
  "strAction type data =
     bind_sum (js_get data ''msg'') (\<lambda>m. bind_sum (decodeURIComponent (to_str m)) (\<lambda>d.
       let msg = strip_tags d
       in Inr (if type = ''send'' then msg else if type = ''msg'' then (utf8 [231, 149, 153, 232, 168, 128, 232, 175, 180, 239, 188, 154, 32]) @ msg else '''')))"

(* src/pop/fly/js/ape/app/bmoon.chat.js:20-33 _strMsg *)
definition strMsg :: "chat \<Rightarrow> string \<Rightarrow> string \<Rightarrow> string \<Rightarrow> jsv \<Rightarrow> js_error + string" where
  "strMsg s from type tm data =
     (let uname = (if from = op_uname (u_opts s) then (utf8 [230, 136, 145]) else from)
      in bind_sum (decodeURIComponent uname) (\<lambda>n. bind_sum (strAction type data) (\<lambda>a.
           Inr (''<div class='' @ quoted (''item-'' @ type) @ ''>'' @ span_of ''item-name'' n @
                span_of ''item-time'' tm @ span_of ''item-content'' a @ ''</div>''))))"

definition chat_throw :: "js_error \<Rightarrow> chat \<Rightarrow> chat" where
  "chat_throw e s = s\<lparr>m_thrown := m_thrown s @ [e]\<rparr>"

(* src/pop/fly/js/ape/app/bmoon.chat.js:360-370 soundRemind *)
definition soundRemind :: "string \<Rightarrow> chat \<Rightarrow> chat" where
  "soundRemind type s = (if m_remind s then s\<lparr>m_sounds := m_sounds s @ [type]\<rparr> else s)"

subsection \<open>The window\<close>

(* src/pop/fly/js/ape/app/bmoon.chat.js:35-43 _blink *)
definition blink :: "chat \<Rightarrow> chat" where
  "blink s = s\<lparr>u_blink := True\<rparr>"

(* src/pop/fly/js/ape/app/bmoon.chat.js:45-51 _stopBlink *)
definition stopBlink :: "chat \<Rightarrow> chat" where
  "stopBlink s = s\<lparr>u_blink := False, u_dirty := False\<rparr>"

(* src/pop/fly/js/ape/app/bmoon.chat.js:39-41 _blink, its interval *)
definition blink_tick :: "chat \<Rightarrow> chat" where
  "blink_tick s = (if u_blink s then s\<lparr>u_dirty := \<not> u_dirty s\<rparr> else s)"

definition show_box :: "box \<Rightarrow> chat \<Rightarrow> chat" where
  "show_box b s = s\<lparr>u_shown := (u_shown s)(b := True)\<rparr>"

definition hide_box :: "box \<Rightarrow> chat \<Rightarrow> chat" where
  "hide_box b s = s\<lparr>u_shown := (u_shown s)(b := False)\<rparr>"

abbreviation maxevent :: "chat \<Rightarrow> string" where
  "maxevent s \<equiv> op_maxevent (u_opts s)"

abbreviation hidemid :: "chat \<Rightarrow> bool" where
  "hidemid s \<equiv> op_hidemid (u_opts s)"

text \<open>
  \<open>initUI\<close> starts from a window with nothing shown and nothing bound; \<open>op_ui\<close> is the cookie \<open>lcs_ui\<close>
  or the default, as the options say.
\<close>

(* src/pop/fly/js/ape/app/bmoon.chat.js:151-198 initUI *)
definition initUI :: "chat \<Rightarrow> chat" where
  "initUI s0 =
     (let opts = u_opts s0;
          rendo = (if op_ui opts = Some ''max'' then Max
                   else if op_ui opts = Some ''min'' then (if op_minable opts then Min else Mid) else Mid);
          s1 = s0\<lparr>u_shown := (\<lambda>_. False), u_rendo := rendo\<rparr>;
          s2 = (if rendo = Max \<and> \<not> op_hidemid opts then show_box Mid s1 else s1);
          s3 = show_box rendo s2;
          opts1 = (if op_maxevent opts \<in> {''click'', ''mouseenter''} then opts else opts\<lparr>op_maxevent := ''click''\<rparr>)
      in s3\<lparr>u_opts := opts1,
            u_bound := u_bound s3 @ [if rendo = Max \<and> \<not> op_hidemid opts then Close else Open]\<rparr>)"

(* src/pop/fly/js/ape/app/bmoon.chat.js:235-252 openChat *)
definition openChat :: "chat \<Rightarrow> chat" where
  "openChat s0 =
     (let s1 = (if hidemid s0 then hide_box Mid s0
                else if maxevent s0 = ''click'' then s0\<lparr>u_bound := [Close]\<rparr> else s0);
          s2 = (show_box Max s1)\<lparr>u_rendo := Max\<rparr>
      in (stopBlink s2)\<lparr>u_cookie := Some ''max''\<rparr>)"

(* src/pop/fly/js/ape/app/bmoon.chat.js:254-274 closeChat *)
definition closeChat :: "chat \<Rightarrow> chat" where
  "closeChat s0 =
     (let s1 = hide_box Max s0;
          s2 = (if maxevent s1 = ''mouseenter'' then s1\<lparr>u_bound := [], u_timers := Suc (u_timers s1)\<rparr>
                else if \<not> hidemid s1 then s1\<lparr>u_bound := [Open]\<rparr> else s1)
      in (show_box Mid s2)\<lparr>u_rendo := Mid, u_cookie := Some ''mid''\<rparr>)"

(* src/pop/fly/js/ape/app/bmoon.chat.js:261-265 closeChat, its timer *)
definition close_timer :: "chat \<Rightarrow> chat" where
  "close_timer s =
     (if u_timers s = 0 then s
      else (let s1 = s\<lparr>u_timers := u_timers s - 1\<rparr>
            in if u_over s1 then s1\<lparr>u_binders := Suc (u_binders s1)\<rparr>
               else s1\<lparr>u_bound := u_bound s1 @ [Open]\<rparr>))"

(* src/pop/fly/js/ape/app/bmoon.chat.js:201-207 initUI, click of miner *)
definition miner_click :: "chat \<Rightarrow> chat" where
  "miner_click s =
     (if op_minable (u_opts s) then (show_box Min (hide_box Mid (hide_box Max s)))\<lparr>u_cookie := Some ''min''\<rparr>
      else s)"

(* src/pop/fly/js/ape/app/bmoon.chat.js:208-215 initUI, click of min *)
definition min_click :: "chat \<Rightarrow> chat" where
  "min_click s =
     (if op_minable (u_opts s) then
        (let s1 = hide_box Min s;
             s2 = (if \<not> hidemid s1 then show_box Mid s1 else s1);
             s3 = (if u_rendo s2 \<noteq> Min then show_box (u_rendo s2) s2 else s2)
         in s3\<lparr>u_cookie := Some (if u_shown s3 Max then ''max'' else ''mid'')\<rparr>)
      else s)"

fun run_act :: "act \<Rightarrow> chat \<Rightarrow> chat" where
  "run_act Open s = openChat s"
| "run_act Close s = closeChat s"

text \<open>
  The events of the window; one on a box that is not shown does not happen.  An event runs the
  handlers that are bound when it comes.
\<close>

datatype ui_ev = MaxEvent | MiderClick | MinerClick | MinClick | MouseOver | MouseOut | CloseTimer | BlinkTick

(* src/pop/fly/js/ape/app/bmoon.chat.js:190-215 initUI, the handlers it binds *)
fun ui_step :: "ui_ev \<Rightarrow> chat \<Rightarrow> chat" where
  "ui_step MaxEvent s = (if u_shown s Mid then fold run_act (u_bound s) s else s)"
| "ui_step MiderClick s = (if u_shown s Max then closeChat s else s)"
| "ui_step MinerClick s = (if u_shown s Mid \<or> u_shown s Max then miner_click s else s)"
| "ui_step MinClick s = (if u_shown s Min then min_click s else s)"
| "ui_step MouseOver s = (if maxevent s = ''mouseenter'' \<and> u_shown s Mid then s\<lparr>u_over := True\<rparr> else s)"
| "ui_step MouseOut s =
     (if maxevent s = ''mouseenter'' \<and> u_shown s Mid
      then s\<lparr>u_over := False, u_bound := u_bound s @ replicate (u_binders s) Open\<rparr> else s)"
| "ui_step CloseTimer s = close_timer s"
| "ui_step BlinkTick s = blink_tick s"

subsection \<open>Sending and receiving\<close>

definition too_long :: string where
  "too_long = (utf8 [232, 129, 138, 229, 164, 169, 228, 191, 161, 230, 129, 175, 228, 184, 141, 232, 166, 129, 232, 182, 133, 232, 191, 135, 32, 50, 53, 54, 32, 228, 184, 170, 229, 173, 151, 227, 128, 130])"

definition offline_hint :: string where
  "offline_hint = (utf8 [229, 174, 162, 230, 156, 141, 229, 189, 147, 229, 137, 141, 231, 166, 187, 231, 186, 191, 239, 188, 140, 231, 149, 153, 232, 168, 128, 229, 138, 159, 232, 131, 189, 229, 188, 128, 229, 144, 175, 227, 128, 130])"

text \<open>Whom a message to the mailbox is for.\<close>

definition addressee :: "chat_opts \<Rightarrow> string" where
  "addressee opts = (case op_aname opts of Some a \<Rightarrow> if a \<noteq> [] then a else op_pname opts | None \<Rightarrow> op_pname opts)"

text \<open>The handler of the return key; \<open>tm\<close> is the time of day.\<close>

(* src/pop/fly/js/ape/app/bmoon.chat.js:276-312 msgSend *)
definition msgSend :: "string \<Rightarrow> chat \<Rightarrow> chat" where
  "msgSend tm s =
     (let mv = m_input s;
          type = (if truthy (m_admin s) then ''send'' else ''msg'')
      in case strMsg s (op_uname (u_opts s)) type tm (JObj [(''msg'', JStr mv)]) of
           Inl e \<Rightarrow> chat_throw e s
         | Inr html \<Rightarrow>
             (if mv = [] then s
              else if js_len mv > 256 then
                s\<lparr>m_hint := too_long, m_hint_timers := m_hint_timers s @ [m_hint s]\<rparr>
              else
                (let s1 = s\<lparr>m_input := '''', m_data := m_data s @ [html]\<rparr>;
                     s2 = (if truthy (fld (m_admin s1) ''aname'') \<and> m_pipe s1 \<noteq> None then
                             s1\<lparr>m_sent := m_sent s1 @ [\<lparr>co_name = ''LCS_SEND'', co_params = [(''msg'', JStr mv)],
                                  co_pipe = m_pipe s1\<rparr>]\<rparr>
                           else
                             s1\<lparr>m_sent := m_sent s1 @ [\<lparr>co_name = ''LCS_MSG'',
                                  co_params = [(''uname'', JStr (addressee (u_opts s1))), (''msg'', JStr mv)],
                                  co_pipe = None\<rparr>]\<rparr>)
                 in soundRemind ''send'' s2)))"

(* src/pop/fly/js/ape/app/bmoon.chat.js:293-293 msgSend, its timer *)
definition hint_timer :: "chat \<Rightarrow> chat" where
  "hint_timer s = (case m_hint_timers s of
       [] \<Rightarrow> s
     | ot # ts \<Rightarrow> s\<lparr>m_hint := ot, m_hint_timers := ts\<rparr>)"

(* src/pop/fly/js/ape/app/bmoon.chat.js:314-322 adminOn *)
definition adminOn :: "jsv \<Rightarrow> chat \<Rightarrow> chat" where
  "adminOn data s =
     soundRemind ''login'' (s\<lparr>m_hint := to_str (fld data ''aname'') @ (utf8 [32, 229, 189, 147, 229, 137, 141, 229, 156, 168, 231, 186, 191, 227, 128, 130]), m_admin := data\<rparr>)"

(* src/pop/fly/js/ape/app/bmoon.chat.js:324-330 adminOff *)
definition adminOff :: "chat \<Rightarrow> chat" where
  "adminOff s = s\<lparr>m_hint := offline_hint, m_admin := JObj []\<rparr>"

(* src/pop/fly/js/ape/app/bmoon.chat.js:333-348 onData *)
definition onData :: "string \<Rightarrow> string \<Rightarrow> string \<Rightarrow> jsv \<Rightarrow> chat \<Rightarrow> chat" where
  "onData from type tm data s = (case strMsg s from type tm data of
       Inl e \<Rightarrow> chat_throw e s
     | Inr html \<Rightarrow>
         (let s1 = s\<lparr>m_data := m_data s @ [html]\<rparr>;
              s2 = (if u_shown s1 Max then s1 else blink s1)
          in soundRemind ''receive'' s2))"

(* src/pop/fly/js/ape/app/bmoon.chat.js:351-358 onRecently *)
definition onRecently :: "string \<Rightarrow> string \<Rightarrow> string \<Rightarrow> jsv \<Rightarrow> chat \<Rightarrow> chat" where
  "onRecently from type tm data s = (case strMsg s from type tm data of
       Inl e \<Rightarrow> chat_throw e s
     | Inr html \<Rightarrow> s\<lparr>m_recent := html # m_recent s\<rparr>)"

subsection \<open>livecs.js\<close>

text \<open>A user joins a pipe of the application: the pipe's and the user's properties, the user's public id.\<close>

(* src/pop/fly/js/ape/app/livecs.js:98-105 createUser *)
definition createUser :: "string \<Rightarrow> jsv \<Rightarrow> string \<Rightarrow> jsv \<Rightarrow> chat \<Rightarrow> chat" where
  "createUser pubid user_props pipe pipe_props s =
     (if loose_eq (fld pipe_props ''pname'') (JStr (op_pname (u_opts s))) \<and> truthy (fld user_props ''isadmin'') then
        adminOn (JObj [(''pname'', JStr (op_pname (u_opts s))), (''aname'', fld pipe_props ''aname'')])
          (s\<lparr>m_pipe := Some pubid\<rparr>)
      else s)"

(* src/pop/fly/js/ape/app/livecs.js:107-112 deleteUser *)
definition deleteUser :: "jsv \<Rightarrow> jsv \<Rightarrow> chat \<Rightarrow> chat" where
  "deleteUser user_props pipe_props s =
     (if loose_eq (fld pipe_props ''pname'') (JStr (op_pname (u_opts s))) \<and> truthy (fld user_props ''isadmin'')
      then adminOff (s\<lparr>m_pipe := None\<rparr>)
      else s)"

definition uin_of :: "jsv \<Rightarrow> js_error + jsv" where
  "uin_of v = bind_sum (js_get v ''properties'') (\<lambda>p. js_get p ''uin'')"

text \<open>\<open>v && v.properties.uin == n\<close>\<close>

definition has_uin :: "jsv \<Rightarrow> string \<Rightarrow> js_error + bool" where
  "has_uin v n = (if truthy v then bind_sum (uin_of v) (\<lambda>u. Inr (loose_eq u (JStr n))) else Inr False)"

definition or_else :: "js_error + bool \<Rightarrow> js_error + bool \<Rightarrow> js_error + bool" where
  "or_else a b = bind_sum a (\<lambda>x. if x then Inr True else b)"

(* src/pop/fly/js/ape/app/livecs.js:114-134 rawLcsRecently *)
definition rawLcsRecently :: "string \<Rightarrow> jsv \<Rightarrow> chat \<Rightarrow> chat" where
  "rawLcsRecently tm data s =
     (let me = op_uname (u_opts s)
      in case or_else (has_uin (fld data ''from'') me)
                (or_else (Inr (loose_eq (fld data ''to_uin'') (JStr me))) (has_uin (fld data ''to'') me)) of
           Inl e \<Rightarrow> chat_throw e s
         | Inr False \<Rightarrow> s
         | Inr True \<Rightarrow>
             (case uin_of (fld data ''from'') of
                Inl e \<Rightarrow> chat_throw e s
              | Inr from \<Rightarrow>
                  (let type = to_str (fld data ''type'')
                   in if type = ''send'' \<or> type = ''msg'' then onRecently (to_str from) type tm data s else s)))"

(* src/pop/fly/js/ape/app/livecs.js:136-147 rawLcsData *)
definition rawLcsData :: "string \<Rightarrow> string \<Rightarrow> jsv \<Rightarrow> chat \<Rightarrow> chat" where
  "rawLcsData tm pipe data s =
     (case or_else (case op_aname (u_opts s) of
                Some a \<Rightarrow> has_uin (fld data ''from'') a
              | None \<Rightarrow> (if truthy (fld data ''from'') then
                           bind_sum (uin_of (fld data ''from'')) (\<lambda>u. Inr (loose_eq u JNull)) else Inr False))
              (Inr (m_pipe s = Some pipe)) of
        Inl e \<Rightarrow> chat_throw e s
      | Inr False \<Rightarrow> s
      | Inr True \<Rightarrow>
          (case uin_of (fld data ''from'') of
             Inl e \<Rightarrow> chat_throw e s
           | Inr from \<Rightarrow> onData (to_str from) (to_str (fld data ''type'')) tm data s))"

subsection \<open>Lemmas: the window\<close>

definition some_shown :: "chat \<Rightarrow> bool" where
  "some_shown s \<longleftrightarrow> u_shown s Max \<or> u_shown s Mid \<or> u_shown s Min"

text \<open>
  The window's invariant, for a page that does not start minimised without a bar: something is
  shown, and what the button brings back is not the button itself unless the bar comes with it.
\<close>

definition win_inv :: "chat \<Rightarrow> bool" where
  "win_inv s \<longleftrightarrow> some_shown s \<and> (u_rendo s = Min \<longrightarrow> \<not> hidemid s)"

lemma frame_boxes [simp]:
  "u_opts (show_box b s) = u_opts s" "u_opts (hide_box b s) = u_opts s"
  "u_rendo (show_box b s) = u_rendo s" "u_rendo (hide_box b s) = u_rendo s"
  "u_bound (show_box b s) = u_bound s" "u_bound (hide_box b s) = u_bound s"
  "u_shown (show_box b s) = (u_shown s)(b := True)" "u_shown (hide_box b s) = (u_shown s)(b := False)"
  "m_data (show_box b s) = m_data s" "m_data (hide_box b s) = m_data s"
  by (simp_all add: show_box_def hide_box_def)

lemma openChat_win [simp]:
  "u_shown (openChat s) Max" "u_rendo (openChat s) = Max" "u_opts (openChat s) = u_opts s"
  by (simp_all add: openChat_def stopBlink_def Let_def)

lemma closeChat_win [simp]:
  "u_shown (closeChat s) Mid" "u_rendo (closeChat s) = Mid" "u_opts (closeChat s) = u_opts s"
  by (simp_all add: closeChat_def Let_def)

lemma run_act_inv: "win_inv (run_act a s)"
  by (cases a) (simp_all add: win_inv_def some_shown_def)

lemma run_acts_inv: "win_inv s \<Longrightarrow> win_inv (fold run_act as s)"
  by (induction "as" arbitrary: s) (simp_all add: run_act_inv)

lemma ui_step_inv [inv_intros]: "win_inv s \<Longrightarrow> win_inv (ui_step e s)"
proof (cases e)
  case MinClick
  then show "win_inv s \<Longrightarrow> win_inv (ui_step e s)"
    by (cases "u_rendo s") (auto simp: min_click_def Let_def win_inv_def some_shown_def)
next
  case MaxEvent
  then show "win_inv s \<Longrightarrow> win_inv (ui_step e s)" using run_acts_inv by simp
qed (auto simp: miner_click_def close_timer_def blink_tick_def Let_def win_inv_def some_shown_def)

interpretation window: machine ui_step win_inv
  by unfold_locales (rule ui_step_inv)

lemma initUI_inv:
  "\<not> (op_ui (u_opts s) = Some ''min'' \<and> op_minable (u_opts s) \<and> hidemid s) \<Longrightarrow> win_inv (initUI s)"
  by (auto simp: initUI_def Let_def win_inv_def some_shown_def)

text \<open>With a click to open and a bar that stays, exactly one handler is bound, and it toggles.\<close>

definition toggle_inv :: "chat \<Rightarrow> bool" where
  "toggle_inv s \<longleftrightarrow> maxevent s = ''click'' \<and> \<not> hidemid s \<and> u_timers s = 0 \<and> u_binders s = 0 \<and>
     u_bound s = [if u_rendo s = Max then Close else Open]"

lemma toggle_run: "toggle_inv s \<Longrightarrow> toggle_inv (run_act a s)"
  by (cases a) (simp_all add: toggle_inv_def openChat_def closeChat_def stopBlink_def Let_def show_box_def hide_box_def)

lemma ui_step_toggle [inv_intros]: "toggle_inv s \<Longrightarrow> toggle_inv (ui_step e s)"
proof -
  assume s: "toggle_inv s"
  have "toggle_inv (fold run_act (u_bound s) s)"
    using s toggle_run [OF s] by (simp add: toggle_inv_def)
  moreover have "toggle_inv (closeChat s)" using toggle_run [OF s, of Close] by simp
  ultimately show ?thesis
    using s
    by (cases e)
      (auto simp: toggle_inv_def miner_click_def min_click_def close_timer_def blink_tick_def Let_def
        show_box_def hide_box_def)
qed

interpretation toggle: machine ui_step toggle_inv
  by unfold_locales (rule ui_step_toggle)

subsection \<open>Lemmas: messages\<close>

text \<open>No tag is left: after a \<open><\<close> there is no \<open>>\<close>.\<close>

fun no_tag :: "string \<Rightarrow> bool" where
  "no_tag [] = True"
| "no_tag (c # s) = ((c = CHR ''<'' \<longrightarrow> CHR ''>'' \<notin> set s) \<and> no_tag s)"

lemma tl_dropWhile_subset: "set (tl (dropWhile P s)) \<subseteq> set s"
proof -
  have "set (tl xs) \<subseteq> set xs" for xs :: "'a list" by (cases xs) auto
  moreover have "set (dropWhile P s) \<subseteq> set s" by (auto dest: set_dropWhileD)
  ultimately show ?thesis by (rule order_trans)
qed

declare strip_tags.simps(2) [simp del]

lemma strip_tags_subset: "set (strip_tags s) \<subseteq> set s"
proof (induction s rule: strip_tags.induct)
  case (2 c s)
  show ?case
  proof (cases "c = CHR ''<'' \<and> CHR ''>'' \<in> set s")
    case True
    then show ?thesis
      using 2(1) [OF True] tl_dropWhile_subset [of _ s] by (subst strip_tags.simps(2)) fastforce
  next
    case False
    then show ?thesis using 2(2) [OF False] by (subst strip_tags.simps(2)) auto
  qed
qed simp

lemma strip_tags_no_tag: "no_tag (strip_tags s)"
proof (induction s rule: strip_tags.induct)
  case (2 c s)
  show ?case
  proof (cases "c = CHR ''<'' \<and> CHR ''>'' \<in> set s")
    case True
    then show ?thesis using 2(1) [OF True] by (subst strip_tags.simps(2)) simp
  next
    case False
    then show ?thesis using 2(2) [OF False] strip_tags_subset [of s] by (subst strip_tags.simps(2)) auto
  qed
qed simp

lemma strip_tags_open: "CHR ''>'' \<notin> set s \<Longrightarrow> strip_tags s = s"
  by (induction s) (simp_all add: strip_tags.simps(2))

definition name_shown :: "chat \<Rightarrow> string \<Rightarrow> string" where
  "name_shown s from = (if from = op_uname (u_opts s) then (utf8 [230, 136, 145]) else from)"

lemma strMsg_send:
  "decodeURIComponent (name_shown s from) = Inr n \<Longrightarrow> decodeURIComponent m = Inr d \<Longrightarrow>
     strMsg s from ''send'' tm (JObj [(''msg'', JStr m)]) =
       Inr (''<div class='' @ quoted ''item-send'' @ ''>'' @ span_of ''item-name'' n @ span_of ''item-time'' tm @
            span_of ''item-content'' (strip_tags d) @ ''</div>'')"
  by (simp add: strMsg_def strAction_def name_shown_def Let_def)

lemma decode_me: "decodeURIComponent (name_shown s (op_uname (u_opts s))) = Inr (utf8 [230, 136, 145])"
  by (simp add: name_shown_def utf8_def) code_simp

lemma msgSend_bad:
  "truthy (m_admin s) \<Longrightarrow> decodeURIComponent (m_input s) = Inl e \<Longrightarrow> msgSend tm s = chat_throw e s"
  using decode_me [of s] by (simp add: msgSend_def strMsg_def strAction_def name_shown_def Let_def)

lemma decode_plain_text: "CHR ''%'' \<notin> set m \<Longrightarrow> decodeURIComponent m = Inr m"
  by (induction m) auto

definition outgoing :: "chat \<Rightarrow> command" where
  "outgoing s =
     (if truthy (fld (m_admin s) ''aname'') \<and> m_pipe s \<noteq> None
      then \<lparr>co_name = ''LCS_SEND'', co_params = [(''msg'', JStr (m_input s))], co_pipe = m_pipe s\<rparr>
      else \<lparr>co_name = ''LCS_MSG'',
            co_params = [(''uname'', JStr (addressee (u_opts s))), (''msg'', JStr (m_input s))], co_pipe = None\<rparr>)"

lemma soundRemind_frame [simp]:
  "m_sent (soundRemind t s) = m_sent s" "m_input (soundRemind t s) = m_input s" "m_data (soundRemind t s) = m_data s"
  "m_hint (soundRemind t s) = m_hint s" "m_hint_timers (soundRemind t s) = m_hint_timers s"
  by (simp_all add: soundRemind_def)

lemma msgSend_good:
  assumes "truthy (m_admin s)" "decodeURIComponent (m_input s) = Inr d" "m_input s \<noteq> []" "js_len (m_input s) \<le> 256"
  shows "m_sent (msgSend tm s) = m_sent s @ [outgoing s]" "m_input (msgSend tm s) = ''''"
    "m_data (msgSend tm s) = m_data s @
      [''<div class='' @ quoted ''item-send'' @ ''>'' @ span_of ''item-name'' (utf8 [230, 136, 145]) @ span_of ''item-time'' tm @
       span_of ''item-content'' (strip_tags d) @ ''</div>'']"
  using assms strMsg_send [OF decode_me assms(2), where tm = tm]
  by (simp_all add: msgSend_def Let_def outgoing_def)

lemma msgSend_long:
  assumes "truthy (m_admin s)" "decodeURIComponent (m_input s) = Inr d" "256 < js_len (m_input s)"
  shows "msgSend tm s = s\<lparr>m_hint := too_long, m_hint_timers := m_hint_timers s @ [m_hint s]\<rparr>"
proof -
  have "m_input s \<noteq> []" using assms(3) by (metis gr_implies_not_zero js_len_0(2))
  then show ?thesis
    using assms strMsg_send [OF decode_me assms(2), where tm = tm] by (simp add: msgSend_def Let_def)
qed

definition chat_start :: "string option \<Rightarrow> bool \<Rightarrow> bool \<Rightarrow> string \<Rightarrow> string \<Rightarrow> chat" where
  "chat_start ui hide minable ev input =
     \<lparr>u_opts = \<lparr>op_uname = ''ab_XYZAB'', op_pname = ''site'', op_aname = None, op_ui = ui, op_hidemid = hide,
        op_minable = minable, op_maxevent = ev\<rparr>,
      u_shown = (\<lambda>_. False), u_rendo = Mid, u_bound = [], u_binders = 0, u_over = False, u_timers = 0,
      u_blink = False, u_dirty = False, u_cookie = None, m_admin = JObj [], m_pipe = None, m_input = input,
      m_hint = ''hint'', m_hint_timers = [], m_data = [], m_recent = [], m_sent = [], m_remind = False,
      m_sounds = [], m_thrown = []\<rparr>"

subsection \<open>Properties\<close>

text \<open>
  C4. The chat window is never lost: after any sequence of clicks, mouse moves and timers the
  maximised box, the bar or the button is shown, unless the page starts minimised with a bar that
  hides while the box is open. There, one click on the button leaves nothing on the page.
\<close>

theorem window_never_lost:
  "(if op_ui (u_opts s) = Some ''min'' \<and> op_minable (u_opts s) \<and> hidemid s
    then \<not> some_shown (ui_step MinClick (initUI s))
    else some_shown (fold ui_step evs (initUI s)))"
proof (cases "op_ui (u_opts s) = Some ''min'' \<and> op_minable (u_opts s) \<and> hidemid s")
  case True
  then show ?thesis by (simp add: initUI_def min_click_def some_shown_def Let_def)
next
  case False
  then show ?thesis using window.run_inv [OF initUI_inv [OF False], of evs] by (simp only: win_inv_def if_False)
qed

text \<open>
  Where the window opens on a click and its bar stays, the bar toggles it: whatever happened
  before, exactly one handler is bound to the bar, and a click opens the box when the bar was the
  last thing brought forward and closes it when the box was.
\<close>

theorem bar_toggles:
  assumes "op_maxevent (u_opts s) = ''click''" "\<not> hidemid s" "u_bound s = []" "u_timers s = 0" "u_binders s = 0"
  shows "let t = fold ui_step evs (initUI s)
         in length (u_bound t) = 1 \<and>
            u_rendo (ui_step MaxEvent t) = (if u_shown t Mid then if u_rendo t = Max then Mid else Max else u_rendo t)"
proof -
  have "toggle_inv (initUI s)" using assms by (simp add: toggle_inv_def initUI_def Let_def show_box_def)
  then have "toggle_inv (fold ui_step evs (initUI s))" by (rule toggle.run_inv)
  then show ?thesis by (simp add: toggle_inv_def Let_def)
qed

lemma bar_toggles_witness:
  "let t = fold ui_step [MaxEvent, MinerClick, MinClick] (initUI (chat_start None False True ''click'' ''''))
   in length (u_bound t) = 1 \<and>
      u_rendo (ui_step MaxEvent t) = (if u_shown t Mid then if u_rendo t = Max then Mid else Max else u_rendo t)"
  by (rule bar_toggles) (simp_all add: chat_start_def)

text \<open>
  C6. Sending a message of 1 to 256 characters: one command goes out, to the administrator's pipe
  when one is on line and to the mailbox of the application otherwise; the field is emptied and the
  message shown. It is shown as sent even when it went to the mailbox, because the empty object that
  stands for no administrator is true. A message that is no valid URI component (a lone percent
  sign) throws before anything is sent and stays in the field.
\<close>

theorem message_goes_out_once:
  assumes "truthy (m_admin s)" "m_input s \<noteq> []" "js_len (m_input s) \<le> 256"
  shows "(case decodeURIComponent (m_input s) of
       Inr d \<Rightarrow> m_sent (msgSend tm s) = m_sent s @ [outgoing s] \<and> m_input (msgSend tm s) = '''' \<and>
         m_data (msgSend tm s) = m_data s @
           [''<div class='' @ quoted ''item-send'' @ ''>'' @ span_of ''item-name'' (utf8 [230, 136, 145]) @ span_of ''item-time'' tm @
            span_of ''item-content'' (strip_tags d) @ ''</div>'']
     | Inl e \<Rightarrow> msgSend tm s = chat_throw e s)"
  using assms msgSend_bad [OF assms(1)] msgSend_good [OF assms(1) _ assms(2,3)] by (auto split: sum.splits)

lemma message_goes_out_once_witness:
  "msgSend ''9:30:00'' (chat_start None False True ''click'' ''100%'') =
     chat_throw URIError (chat_start None False True ''click'' ''100%'') \<and>
   m_sent (msgSend ''9:30:00'' (chat_start None False True ''click'' ''hi'')) =
     [\<lparr>co_name = ''LCS_MSG'', co_params = [(''uname'', JStr ''site''), (''msg'', JStr ''hi'')], co_pipe = None\<rparr>]"
proof -
  have l: "js_len ''100%'' \<le> 256" "js_len ''hi'' \<le> 256"
    by (simp_all add: js_len_ascii ascii_def)
  have d: "decodeURIComponent ''100%'' = Inl URIError" "decodeURIComponent ''hi'' = Inr ''hi''" by code_simp+
  show ?thesis
    using message_goes_out_once [of "chat_start None False True ''click'' ''100%''" "''9:30:00''"]
      message_goes_out_once [of "chat_start None False True ''click'' ''hi''" "''9:30:00''"] l d
    by (simp add: chat_start_def outgoing_def addressee_def)
qed

text \<open>
  Two messages over 256 characters within the two seconds of the warning: when both timers have
  run, the warning is still shown, for good, in place of who is on line.
\<close>

theorem warning_sticks:
  assumes "truthy (m_admin s)" "decodeURIComponent (m_input s) = Inr d" "256 < js_len (m_input s)" "m_hint_timers s = []"
  shows "m_hint (hint_timer (msgSend tm s)) = m_hint s \<and>
         m_hint (hint_timer (hint_timer (msgSend tm' (msgSend tm s)))) = too_long \<and>
         m_hint_timers (hint_timer (hint_timer (msgSend tm' (msgSend tm s)))) = []"
proof -
  have one: "msgSend tm s = s\<lparr>m_hint := too_long, m_hint_timers := [m_hint s]\<rparr>"
    using msgSend_long [OF assms(1-3)] assms(4) by simp
  have "msgSend tm' (s\<lparr>m_hint := too_long, m_hint_timers := [m_hint s]\<rparr>) =
      s\<lparr>m_hint := too_long, m_hint_timers := [m_hint s, too_long]\<rparr>"
    by (subst msgSend_long [where d = d]) (simp_all add: assms)
  then show ?thesis by (simp add: one hint_timer_def)
qed

lemma warning_sticks_witness:
  "m_hint (hint_timer (hint_timer (msgSend ''1'' (msgSend ''2''
     (chat_start None False True ''click'' (replicate 300 CHR ''a'')))))) = too_long"
proof -
  have "list_all ascii (replicate 300 CHR ''a'')" by (simp add: list_all_iff ascii_def)
  then have l: "js_len (replicate 300 CHR ''a'') = 300" by (simp add: js_len_ascii)
  have d: "decodeURIComponent (replicate 300 CHR ''a'') = Inr (replicate 300 CHR ''a'')"
    by (rule decode_plain_text) simp
  show ?thesis
    using warning_sticks [of "chat_start None False True ''click'' (replicate 300 CHR ''a'')"
        "replicate 300 CHR ''a''" "''2''" "''1''"] d l
    by (simp add: chat_start_def)
qed

text \<open>
  The text of a message loses every complete tag, but a tag that is not closed stays, and the
  markup that follows it closes it: a message such as an opening img tag without its bracket reaches
  the page as it was typed, right in front of the closing span.
\<close>

theorem unclosed_tag_survives:
  assumes "decodeURIComponent m = Inr d" "CHR ''>'' \<notin> set d" "decodeURIComponent (name_shown s from) = Inr n"
  shows "no_tag (strip_tags t) \<and>
    strMsg s from ''send'' tm (JObj [(''msg'', JStr m)]) =
      Inr (''<div class='' @ quoted ''item-send'' @ ''>'' @ span_of ''item-name'' n @ span_of ''item-time'' tm @
           ''<span class='' @ quoted ''item-content'' @ ''>'' @ d @ ''</span></div>'')"
  using strMsg_send [OF assms(3,1), where tm = tm] strip_tags_open [OF assms(2)]
  by (simp add: strip_tags_no_tag span_of_def)

lemma unclosed_tag_survives_witness:
  "no_tag (strip_tags ''<b>bold</b>'') \<and>
   strMsg (chat_start None False True ''click'' '''') ''eve'' ''send'' ''9:30:00''
     (JObj [(''msg'', JStr ''<img src=x onerror=f() '')]) =
   Inr (''<div class='' @ quoted ''item-send'' @ ''>'' @ span_of ''item-name'' ''eve'' @ span_of ''item-time'' ''9:30:00'' @
        ''<span class='' @ quoted ''item-content'' @ ''>'' @ ''<img src=x onerror=f() '' @ ''</span></div>'')"
  by (rule unclosed_tag_survives) (simp_all add: name_shown_def chat_start_def)

end
