(* ===== verification/ChatAdmin.thy ===== *)
theory ChatAdmin
  imports Chat "HOL-Library.Multiset"
begin

text \<open>
  The administrator's side of the chat (\<open>pop/fly/js/ape/app/bmoon.chatb.js\<close>) and the handlers of
  \<open>livecsb.js\<close> that feed it: the list of visitors, in tabs of fifteen, the message box of each, the
  one the administrator talks to, and the pages of old messages.

  A visitor's node keeps its classes, its public id (the attribute \<open>pubid\<close>) and how many click
  handlers are bound to it.  Names hold no character that is special in a selector, as the random
  names of \<open>bmoon.utl\<close> do not.  A message box keeps its two lists and whether it is shown.  The
  tabs are the lists of the page in document order, and a list's index is its place in that order.
  A pipe is named by its public id.  \<open>ad_indi\<close> is the indicator: its text, whether it is an error and
  whether it is shown.
\<close>

record node =
  nd_name :: string
  nd_cls :: "string set"
  nd_pubid :: "string option"
  nd_clicks :: nat
  nd_place :: string

record msgbox =
  mb_name :: string
  mb_shown :: bool
  mb_recent :: "string list"
  mb_data :: "string list"

(* src/pop/fly/js/ape/app/bmoon.chatb.js:3-12 bmoon.chat, its fields *)
record admin =
  ad_aname :: string
  ad_group :: "string option"
  ad_cuser :: string
  ad_on :: "string list"
  ad_fetched :: "string list"
  ad_new :: "string list"
  ad_total :: "string \<rightharpoonup> jnum"
  ad_page :: "string \<rightharpoonup> int"
  ad_tabs :: "node list list"
  ad_boxes :: "msgbox list"
  ad_pipe :: "string option"
  ad_input :: string
  ad_stat :: string
  ad_stat_timers :: "string list"
  ad_sent :: "command list"
  ad_reqs :: "request list"
  ad_remind :: bool
  ad_sounds :: "string list"
  ad_thrown :: "js_error list"
  ad_loading :: bool
  ad_indi :: "string \<times> bool \<times> bool"
  ad_needa :: bool
  ad_alerts :: "string list"

definition per_tab :: nat where
  "per_tab = 15"

definition nodes :: "admin \<Rightarrow> node list" where
  "nodes s = concat (ad_tabs s)"

definition find_node :: "string \<Rightarrow> admin \<Rightarrow> node option" where
  "find_node u s = find (\<lambda>n. nd_name n = u) (nodes s)"

definition on_node :: "string \<Rightarrow> (node \<Rightarrow> node) \<Rightarrow> admin \<Rightarrow> admin" where
  "on_node u f s = s\<lparr>ad_tabs := map (map (\<lambda>n. if nd_name n = u then f n else n)) (ad_tabs s)\<rparr>"

definition on_box :: "string \<Rightarrow> (msgbox \<Rightarrow> msgbox) \<Rightarrow> admin \<Rightarrow> admin" where
  "on_box u f s = s\<lparr>ad_boxes := map (\<lambda>b. if mb_name b = u then f b else b) (ad_boxes s)\<rparr>"

definition new_node :: "string \<Rightarrow> node" where
  "new_node u = \<lparr>nd_name = u, nd_cls = {}, nd_pubid = None, nd_clicks = 1, nd_place = ''''\<rparr>"

text \<open>A new node goes to the last tab, or to a new one when that is full; a page without any tab has no
  place for it.\<close>

(* src/pop/fly/js/ape/app/bmoon.chatb.js:55-66 _nodeUser, a new node *)
definition add_node :: "string \<Rightarrow> node list list \<Rightarrow> node list list" where
  "add_node u tabs =
     (if tabs = [] then []
      else if length (last tabs) \<ge> per_tab then tabs @ [[new_node u]]
      else butlast tabs @ [last tabs @ [new_node u]])"

(* src/pop/fly/js/ape/app/bmoon.chatb.js:46-68 _nodeUser *)
definition admin_nodeUser :: "string \<Rightarrow> bool \<Rightarrow> admin \<Rightarrow> bool \<times> admin" where
  "admin_nodeUser u create s =
     (case find_node u s of
        Some _ \<Rightarrow> (True, s)
      | None \<Rightarrow> if create then (ad_tabs s \<noteq> [], s\<lparr>ad_tabs := add_node u (ad_tabs s)\<rparr>) else (False, s))"

definition has_box :: "string \<Rightarrow> admin \<Rightarrow> bool" where
  "has_box u s \<longleftrightarrow> list_ex (\<lambda>b. mb_name b = u) (ad_boxes s)"

(* src/pop/fly/js/ape/app/bmoon.chatb.js:70-87 _nodeMsg *)
definition nodeMsg :: "string \<Rightarrow> bool \<Rightarrow> admin \<Rightarrow> admin" where
  "nodeMsg u create s =
     (if \<not> has_box u s \<and> create then
        s\<lparr>ad_boxes := ad_boxes s @ [\<lparr>mb_name = u, mb_shown = (ad_cuser s = u), mb_recent = [], mb_data = []\<rparr>]\<rparr>
      else s)"

definition ad_throw :: "js_error \<Rightarrow> admin \<Rightarrow> admin" where
  "ad_throw e s = s\<lparr>ad_thrown := ad_thrown s @ [e]\<rparr>"

(* src/pop/fly/js/ape/app/bmoon.chatb.js:405-415 soundRemind *)
definition ad_sound :: "string \<Rightarrow> admin \<Rightarrow> admin" where
  "ad_sound type s = (if ad_remind s then s\<lparr>ad_sounds := ad_sounds s @ [type]\<rparr> else s)"

subsection \<open>Messages as markup\<close>

text \<open>Every field is decoded whatever the type; a missing one decodes as the word undefined.\<close>

(* src/pop/fly/js/ape/app/bmoon.chatb.js:89-111 _strAction *)
definition admin_strAction :: "string \<Rightarrow> jsv \<Rightarrow> js_error + string" where
  "admin_strAction type data =
     bind_sum (js_get data ''ref'') (\<lambda>ref.
     bind_sum (if truthy ref then bind_sum (decodeURIComponent (to_str ref)) (\<lambda>d. Inr ((utf8 [233, 128, 154, 232, 191, 135, 32]) @ d)) else Inr '''') (\<lambda>sref.
     bind_sum (decodeURIComponent (to_str (fld data ''msg''))) (\<lambda>m.
     bind_sum (decodeURIComponent (to_str (fld data ''url''))) (\<lambda>url.
     bind_sum (decodeURIComponent (to_str (fld data ''title''))) (\<lambda>title.
       let msg = strip_tags m;
           link = ''<a target='' @ quoted ''_blank'' @ '' href='' @ quoted url @ ''>'' @ title @ ''</a>''
       in Inr (if type = ''join'' then sref @ (utf8 [32, 230, 157, 165, 229, 136, 176, 230, 156, 172, 231, 171, 153, 44, 32, 232, 174, 191, 233, 151, 174, 228, 186, 134, 233, 161, 181, 233, 157, 162, 32]) @ link
               else if type = ''visit'' then (utf8 [230, 137, 147, 229, 188, 128, 228, 186, 134, 233, 161, 181, 233, 157, 162, 32]) @ link
               else if type = ''left'' then (utf8 [231, 166, 187, 229, 188, 128, 228, 186, 134, 230, 156, 172, 231, 171, 153])
               else if type = ''send'' then msg
               else if type = ''msg'' then (utf8 [231, 149, 153, 232, 168, 128, 232, 175, 180, 239, 188, 154, 32]) @ msg
               else ''''))))))"

(* src/pop/fly/js/ape/app/bmoon.chatb.js:114-127 _strMsg *)
definition admin_strMsg :: "admin \<Rightarrow> string \<Rightarrow> string \<Rightarrow> string \<Rightarrow> jsv \<Rightarrow> js_error + string" where
  "admin_strMsg s from type tm data =
     (let uname = (if from = ad_aname s then (utf8 [230, 136, 145]) else from)
      in bind_sum (decodeURIComponent uname) (\<lambda>n. bind_sum (admin_strAction type data) (\<lambda>a.
           Inr (''<div class='' @ quoted (''item-'' @ type) @ ''>'' @ span_of ''item-name'' n @
                span_of ''item-time'' tm @ span_of ''item-content'' a @ ''</div>''))))"

(* src/pop/fly/js/ape/app/bmoon.chatb.js:129-133 _strMsgDivide *)
definition strMsgDivide :: "int \<Rightarrow> string" where
  "strMsgDivide pg = ''<div class='' @ quoted ''item-divide'' @ ''>'' @ (utf8 [231, 172, 172, 32]) @ int_str pg @ (utf8 [32, 233, 161, 181, 229, 142, 134, 229, 143, 178, 230, 182, 136, 230, 129, 175]) @ ''</div>''"

subsection \<open>Keeping the waiting visitors in front\<close>

text \<open>
  \<open>postUserDirty\<close>: the position of a node is its tab and its index in it.  The node goes right before
  the first idle one (off line and not dirty), and that one to the end of the tab the node came from.
\<close>

fun pos_in :: "(node \<Rightarrow> bool) \<Rightarrow> node list list \<Rightarrow> (nat \<times> nat) option" where
  "pos_in P [] = None"
| "pos_in P (t # ts) =
     (if list_ex P t then Some (0, length (takeWhile (\<lambda>n. \<not> P n) t))
      else map_option (\<lambda>(i, j). (Suc i, j)) (pos_in P ts))"

definition idle :: "node \<Rightarrow> bool" where
  "idle n \<longleftrightarrow> ''off'' \<in> nd_cls n \<and> ''dirty'' \<notin> nd_cls n"

definition remove_at :: "nat \<times> nat \<Rightarrow> node list list \<Rightarrow> node list list" where
  "remove_at p tabs = tabs[fst p := take (snd p) (tabs ! fst p) @ drop (Suc (snd p)) (tabs ! fst p)]"

definition insert_at :: "nat \<times> nat \<Rightarrow> node \<Rightarrow> node list list \<Rightarrow> node list list" where
  "insert_at p n tabs = tabs[fst p := take (snd p) (tabs ! fst p) @ n # drop (snd p) (tabs ! fst p)]"

definition put_last :: "nat \<Rightarrow> node \<Rightarrow> node list list \<Rightarrow> node list list" where
  "put_last i n tabs = tabs[i := tabs ! i @ [n]]"

text \<open>\<open>userbox.insertBefore(off); off.appendTo(up)\<close> on two nodes or on one.\<close>

definition swap_nodes :: "nat \<times> nat \<Rightarrow> nat \<times> nat \<Rightarrow> node list list \<Rightarrow> node list list" where
  "swap_nodes u f tabs =
     (let n = tabs ! fst u ! snd u; m = tabs ! fst f ! snd f
      in if u = f then put_last (fst u) n (remove_at u tabs)
         else
           (let t1 = remove_at u tabs;
                f1 = (if fst u = fst f \<and> snd u < snd f then (fst f, snd f - 1) else f);
                t2 = insert_at f1 n t1;
                f2 = (fst f1, Suc (snd f1))
            in put_last (fst u) m (remove_at f2 t2)))"

(* src/pop/fly/js/ape/app/bmoon.chatb.js:417-432 postUserDirty *)
definition postUserDirty :: "string \<Rightarrow> admin \<Rightarrow> admin" where
  "postUserDirty u s =
     (case (pos_in (\<lambda>n. nd_name n = u) (ad_tabs s), pos_in idle (ad_tabs s)) of
        (Some p, Some f) \<Rightarrow>
          (if fst p \<ge> fst f \<or> snd p > snd f then s\<lparr>ad_tabs := swap_nodes p f (ad_tabs s)\<rparr> else s)
      | _ \<Rightarrow> s)"

subsection \<open>Pages of old messages\<close>

(* src/pop/fly/js/ape/app/bmoon.chatb.js:250-264 getMessage *)
definition getMessage :: "string \<Rightarrow> string \<Rightarrow> admin \<Rightarrow> admin" where
  "getMessage name aname s0 =
     (let pg = (case ad_page s0 name of Some p \<Rightarrow> p | None \<Rightarrow> 0);
          s = nodeMsg name True s0;
          more = (case ad_total s name of
                    Some t \<Rightarrow> (if truthy (JNum t) then num_lt (int_num pg) (num_div t (Fin 15)) else True)
                  | None \<Rightarrow> True)
      in if more then
           s\<lparr>ad_reqs := ad_reqs s @ [\<lparr>r_method = GET, r_url = ''http://www.bomdoo.com/json/msg?JsonCallback=?'',
                r_params = [(''name'', JStr name), (''name2'', JStr aname), (''_npp'', jint 15),
                            (''_npg'', jint (pg + 1))]\<rparr>]\<rparr>
         else s)"

text \<open>
  Its callback, with the page that was asked for.  \<open>callRaw\<close> is the APE library's dispatch of a
  message; the messages come parsed, a null one is passed over.
\<close>

(* src/pop/fly/js/ape/app/bmoon.chatb.js:265-279 getMessage, its callback *)
definition getMessage_reply :: "(jsv \<Rightarrow> admin \<Rightarrow> admin) \<Rightarrow> string \<Rightarrow> int \<Rightarrow> jsv \<Rightarrow> admin \<Rightarrow> admin" where
  "getMessage_reply callRaw name pg data s =
     (if data = JUndef \<or> data = JNull then ad_throw TypeError s
      else if is_one (fld data ''success'') \<and> is_type ''Array'' (fld data ''raws'') then
        (let s1 = fold (\<lambda>raw s. if truthy raw then callRaw raw s else s)
                    (case fld data ''raws'' of JArr rs \<Rightarrow> rs | _ \<Rightarrow> []) s;
             s2 = on_box name (\<lambda>b. b\<lparr>mb_recent := strMsgDivide (pg + 1) # mb_recent b\<rparr>) s1;
             s3 = (if truthy (fld data ''ntt'') then s2\<lparr>ad_total := (ad_total s2)(name \<mapsto> parse_int (fld data ''ntt''))\<rparr>
                   else s2)
         in s3\<lparr>ad_page := (ad_page s3)(name \<mapsto> (case ad_page s3 name of Some p \<Rightarrow> if p = 0 then 1 else p + 1 | None \<Rightarrow> 1))\<rparr>)
      else s)"

subsection \<open>The administrator's actions\<close>

definition all_users_hint :: string where
  "all_users_hint = (utf8 [231, 187, 153, 230, 137, 128, 230, 156, 137, 229, 156, 168, 231, 186, 191, 232, 174, 191, 229, 174, 162, 229, 143, 145, 233, 128, 129, 230, 182, 136, 230, 129, 175])"

(* src/pop/fly/js/ape/app/bmoon.chatb.js:204-239 openChat *)
definition open_once :: "string \<Rightarrow> admin \<Rightarrow> admin" where
  "open_once u s0 =
     (let s1 = on_node (ad_cuser s0) (\<lambda>n. n\<lparr>nd_cls := nd_cls n - {''cur''}, nd_clicks := Suc (nd_clicks n)\<rparr>) s0;
          s2 = (on_box (ad_cuser s1) (\<lambda>b. b\<lparr>mb_shown := False\<rparr>) s1)\<lparr>ad_cuser := u\<rparr>;
          s3 = on_node u (\<lambda>n. n\<lparr>nd_cls := insert ''cur'' (nd_cls n - {''dirty''}), nd_clicks := 0\<rparr>) s2;
          s4 = on_box u (\<lambda>b. b\<lparr>mb_shown := True\<rparr>) (nodeMsg u True s3);
          s5 = s4\<lparr>ad_stat := (if u = ''0'' then all_users_hint else (utf8 [228, 184, 142, 32]) @ u @ (utf8 [32, 229, 175, 185, 232, 175, 157]))\<rparr>;
          s6 = (if in_array u (ad_fetched s5) = -1 then
                  (let t = getMessage u (ad_aname s5) s5 in t\<lparr>ad_fetched := ad_fetched t @ [u]\<rparr>)
                else s5);
          pubid = (case find_node u s6 of Some n \<Rightarrow> nd_pubid n | None \<Rightarrow> None)
      in s6\<lparr>ad_pipe := (case pubid of
             Some p \<Rightarrow> if p \<noteq> [] then Some p else if u = ''0'' then ad_group s6 else None
           | None \<Rightarrow> if u = ''0'' then ad_group s6 else None)\<rparr>)"

text \<open>A click runs the handler as often as it is bound.\<close>

definition admin_click :: "string \<Rightarrow> admin \<Rightarrow> admin" where
  "admin_click u s = (case find_node u s of None \<Rightarrow> s | Some n \<Rightarrow> (open_once u ^^ nd_clicks n) s)"

(* src/pop/fly/js/ape/app/bmoon.chatb.js:167-202 msgSend *)
definition admin_send :: "string \<Rightarrow> admin \<Rightarrow> admin" where
  "admin_send tm s0 =
     (let mv = ad_input s0;
          type = (if in_array (ad_cuser s0) (ad_on s0) \<noteq> -1 then ''send'' else ''msg'');
          s = nodeMsg (ad_cuser s0) True s0
      in case admin_strMsg s (ad_aname s) type tm (JObj [(''msg'', JStr mv)]) of
           Inl e \<Rightarrow> ad_throw e s
         | Inr html \<Rightarrow>
             (if mv = [] then s
              else if js_len mv > 256 then
                s\<lparr>ad_stat := too_long, ad_stat_timers := ad_stat_timers s @ [ad_stat s]\<rparr>
              else
                (let s1 = on_box (ad_cuser s) (\<lambda>b. b\<lparr>mb_data := mb_data b @ [html]\<rparr>) (s\<lparr>ad_input := ''''\<rparr>);
                     s2 = (if ad_pipe s1 \<noteq> None \<and> type = ''send'' then
                             s1\<lparr>ad_sent := ad_sent s1 @ [\<lparr>co_name = ''LCS_SEND'', co_params = [(''msg'', JStr mv)],
                                  co_pipe = ad_pipe s1\<rparr>]\<rparr>
                           else
                             s1\<lparr>ad_sent := ad_sent s1 @ [\<lparr>co_name = ''LCS_MSG'',
                                  co_params = [(''uname'', JStr (ad_cuser s1)), (''msg'', JStr mv), (''imAdmin'', jint 1)],
                                  co_pipe = None\<rparr>]\<rparr>)
                 in ad_sound ''send'' s2)))"

(* src/pop/fly/js/ape/app/bmoon.chatb.js:186-186 msgSend, its timer *)
definition stat_timer :: "admin \<Rightarrow> admin" where
  "stat_timer s = (case ad_stat_timers s of [] \<Rightarrow> s | ot # ts \<Rightarrow> s\<lparr>ad_stat := ot, ad_stat_timers := ts\<rparr>)"

subsection \<open>What the server tells\<close>

(* src/pop/fly/js/ape/app/bmoon.chatb.js:290-293 dearUsers, one of them *)
definition mark_dirty :: "string \<Rightarrow> admin \<Rightarrow> admin" where
  "mark_dirty u s =
     (let s1 = snd (admin_nodeUser u True s);
          s2 = (if u \<noteq> ad_cuser s1 then on_node u (\<lambda>n. n\<lparr>nd_cls := insert ''dirty'' (nd_cls n)\<rparr>) s1 else s1)
      in postUserDirty u s2)"

(* src/pop/fly/js/ape/app/bmoon.chatb.js:284-302 dearUsers *)
definition dearUsers :: "jsv \<Rightarrow> admin \<Rightarrow> admin" where
  "dearUsers data s = (case data of
       JArr vs \<Rightarrow> fold (\<lambda>v s. case v of
           JObj ps \<Rightarrow> fold (\<lambda>(k, _) s. mark_dirty k s) ps s
         | JStr u \<Rightarrow> if u \<noteq> [] then mark_dirty u s else s
         | _ \<Rightarrow> s) vs s
     | _ \<Rightarrow> s)"

(* src/pop/fly/js/ape/app/bmoon.chatb.js:305-323 userOn *)
definition userOn :: "string \<Rightarrow> string \<Rightarrow> admin \<Rightarrow> admin" where
  "userOn u pubid s0 =
     (let known = fst (admin_nodeUser u False s0);
          s1 = snd (admin_nodeUser u True s0);
          s2 = on_node u (\<lambda>n. n\<lparr>nd_cls := insert ''on'' (nd_cls n - {''off''}), nd_pubid := Some pubid\<rparr>) s1;
          s3 = s2\<lparr>ad_on := ad_on s2 @ [u]\<rparr>;
          s4 = (if ad_cuser s3 = u then s3\<lparr>ad_pipe := Some pubid\<rparr> else s3);
          s5 = (if \<not> known then s4\<lparr>ad_new := ad_new s4 @ [u]\<rparr> else s4)
      in postUserDirty u s5)"

(* src/pop/fly/js/ape/app/bmoon.chatb.js:326-351 userOff *)
definition userOff :: "string \<Rightarrow> string \<Rightarrow> admin \<Rightarrow> admin" where
  "userOff u tm s =
     (case admin_strMsg s u ''left'' tm (JObj []) of
        Inl e \<Rightarrow> ad_throw e s
      | Inr _ \<Rightarrow>
          (let s1 = on_node u (\<lambda>n. n\<lparr>nd_cls := insert ''off'' (nd_cls n - {''on''}), nd_pubid := Some ''''\<rparr>) s
           in s1\<lparr>ad_on := splice1 (in_array u (ad_on s1)) (ad_on s1)\<rparr>))"

(* src/pop/fly/js/ape/app/bmoon.chatb.js:354-390 onData *)
definition admin_onData :: "string \<Rightarrow> string \<Rightarrow> string \<Rightarrow> jsv \<Rightarrow> admin \<Rightarrow> admin" where
  "admin_onData u type tm data s0 =
     (let s = nodeMsg u True (snd (admin_nodeUser u True s0))
      in case admin_strMsg s u type tm data of
           Inl e \<Rightarrow> ad_throw e s
         | Inr html \<Rightarrow>
             (let s1 = (if type = ''send'' then ad_sound ''receive'' s
                        else if type = ''join'' then
                          (let t = ad_sound ''login'' s
                           in t\<lparr>ad_reqs := ad_reqs t @ [\<lparr>r_method = GET, r_url = ''/json/place'',
                                r_params = [(''ip'', fld data ''ip'')]\<rparr>]\<rparr>)
                        else if type = ''left'' then ad_sound ''logout'' s else s);
                  s2 = (if ad_cuser s1 \<noteq> u then
                          (let t = postUserDirty u (on_node u (\<lambda>n. n\<lparr>nd_cls := insert ''dirty'' (nd_cls n)\<rparr>) s1)
                           in if in_array u (ad_new t) \<noteq> -1 then t\<lparr>ad_fetched := ad_fetched t @ [u]\<rparr> else t)
                        else s1)
              in on_box u (\<lambda>b. b\<lparr>mb_data := mb_data b @ [html]\<rparr>) s2))"

(* src/pop/fly/js/ape/app/bmoon.chatb.js:368-372 onData, its callback *)
definition place_reply :: "string \<Rightarrow> jsv \<Rightarrow> admin \<Rightarrow> admin" where
  "place_reply u rdata s =
     (if rdata = JUndef \<or> rdata = JNull then ad_throw TypeError s
      else if loose_eq (fld rdata ''success'') (JStr ''1'') then
        (case js_get (fld rdata ''0'') ''c'' of
           Inl e \<Rightarrow> ad_throw e s
         | Inr c \<Rightarrow> on_node u (\<lambda>n. n\<lparr>nd_place := to_str c\<rparr>) s)
      else s)"

(* src/pop/fly/js/ape/app/bmoon.chatb.js:393-403 onRecently *)
definition admin_onRecently :: "string \<Rightarrow> string \<Rightarrow> string \<Rightarrow> string \<Rightarrow> jsv \<Rightarrow> admin \<Rightarrow> admin" where
  "admin_onRecently from to type tm data s0 =
     (let u = (if from = ad_aname s0 then to else from);
          s = nodeMsg u True (snd (admin_nodeUser u True s0))
      in case admin_strMsg s from type tm data of
           Inl e \<Rightarrow> ad_throw e s
         | Inr html \<Rightarrow> on_box u (\<lambda>b. b\<lparr>mb_recent := html # mb_recent b\<rparr>) s)"

subsection \<open>The page starts\<close>

(* src/pop/fly/js/ape/app/bmoon.chatb.js:135-142 onready *)
definition admin_onready :: "string \<Rightarrow> admin \<Rightarrow> admin" where
  "admin_onready pubid s =
     s\<lparr>ad_group := Some pubid,
       ad_tabs := map (map (\<lambda>n. n\<lparr>nd_clicks := Suc (nd_clicks n)\<rparr>)) (ad_tabs s),
       ad_loading := False,
       ad_indi := (fst (ad_indi s), fst (snd (ad_indi s)), False)\<rparr>"

(* src/pop/fly/js/ape/app/bmoon.chatb.js:144-149 needMoreAdmin *)
definition needMoreAdmin :: "admin \<Rightarrow> admin" where
  "needMoreAdmin s = s\<lparr>ad_indi := (fst (ad_indi s), fst (snd (ad_indi s)), False), ad_needa := True\<rparr>"

(* src/pop/fly/js/ape/app/bmoon.chatb.js:151-157 judgeReady *)
definition judgeReady :: "admin \<Rightarrow> admin" where
  "judgeReady s =
     (if ad_loading s then s\<lparr>ad_indi := ((utf8 [230, 149, 176, 230, 141, 174, 229, 138, 160, 232, 189, 189, 229, 164, 177, 232, 180, 165, 239, 188, 140, 232, 175, 183, 232, 129, 148, 231, 179, 187, 229, 174, 162, 230, 156, 141, 230, 136, 150, 231, 168, 141, 229, 144, 142, 229, 134, 141, 232, 175, 149]), True, snd (snd (ad_indi s)))\<rparr> else s)"

subsection \<open>livecsb.js\<close>

(* src/pop/fly/js/ape/app/livecsb.js:50-58 pipeCreate *)
definition admin_pipeCreate :: "string \<Rightarrow> jsv \<Rightarrow> jsv \<Rightarrow> admin \<Rightarrow> admin" where
  "admin_pipeCreate pubid pipe_props options s =
     (if loose_eq (fld pipe_props ''aname'') (JStr (ad_aname s)) \<and> \<not> truthy (fld options ''from'') then
        (let t = admin_onready pubid (s\<lparr>ad_pipe := Some pubid\<rparr>)
         in t\<lparr>ad_sent := ad_sent t @ [\<lparr>co_name = ''LCS_DEARUSERS'', co_params = [], co_pipe = None\<rparr>]\<rparr>)
      else s)"

definition visitor_of :: "jsv \<Rightarrow> jsv \<Rightarrow> admin \<Rightarrow> bool" where
  "visitor_of uin pipe_props s \<longleftrightarrow>
     loose_eq (fld pipe_props ''aname'') (JStr (ad_aname s)) \<and> \<not> loose_eq uin (JStr (ad_aname s))"

(* src/pop/fly/js/ape/app/livecsb.js:60-65 createUser *)
definition admin_createUser :: "string \<Rightarrow> string \<Rightarrow> jsv \<Rightarrow> admin \<Rightarrow> admin" where
  "admin_createUser uin pubid pipe_props s =
     (if visitor_of (JStr uin) pipe_props s then userOn uin pubid s else s)"

(* src/pop/fly/js/ape/app/livecsb.js:67-72 deleteUser *)
definition admin_deleteUser :: "string \<Rightarrow> string \<Rightarrow> jsv \<Rightarrow> admin \<Rightarrow> admin" where
  "admin_deleteUser uin tm pipe_props s =
     (if visitor_of (JStr uin) pipe_props s then userOff uin tm s else s)"

text \<open>The receiver of a message: \<open>to_uin\<close>, the user it is sent to, or all.\<close>

definition to_of :: "jsv \<Rightarrow> js_error + jsv" where
  "to_of data =
     (if truthy (fld data ''to_uin'') then Inr (fld data ''to_uin'')
      else if truthy (fld data ''to'') then
        bind_sum (uin_of (fld data ''to'')) (\<lambda>u. Inr (if truthy u then u else JStr ''0''))
      else Inr (JStr ''0''))"

(* src/pop/fly/js/ape/app/livecsb.js:86-108 rawLcsRecently *)
definition admin_rawRecently :: "string \<Rightarrow> jsv \<Rightarrow> admin \<Rightarrow> admin" where
  "admin_rawRecently tm data s =
     (case bind_sum (js_get data ''from'') (\<lambda>from.
             or_else (has_uin from (ad_aname s))
               (or_else (Inr (loose_eq (fld data ''to_uin'') (JStr (ad_aname s))))
                  (has_uin (fld data ''to'') (ad_aname s)))) of
        Inl e \<Rightarrow> ad_throw e s
      | Inr False \<Rightarrow> s
      | Inr True \<Rightarrow>
          (case bind_sum (uin_of (fld data ''from'')) (\<lambda>from. bind_sum (to_of data) (\<lambda>to. Inr (from, to))) of
             Inl e \<Rightarrow> ad_throw e s
           | Inr (from, to) \<Rightarrow>
               admin_onRecently (to_str from) (to_str to) (to_str (fld data ''type'')) tm data s))"

text \<open>The time is the match of the clock's digits in the date's text; an invalid date has none.\<close>

(* src/pop/fly/js/ape/app/livecsb.js:110-123 rawLcsData *)
definition admin_rawData :: "string option \<Rightarrow> jsv \<Rightarrow> admin \<Rightarrow> admin" where
  "admin_rawData tm data s =
     (case bind_sum (js_get data ''to_uin'') (\<lambda>to.
             or_else (Inr (loose_eq to (JStr (ad_aname s)))) (has_uin (fld data ''to'') (ad_aname s))) of
        Inl e \<Rightarrow> ad_throw e s
      | Inr False \<Rightarrow> s
      | Inr True \<Rightarrow>
          (case (tm, uin_of (fld data ''from'')) of
             (None, _) \<Rightarrow> ad_throw TypeError s
           | (_, Inl e) \<Rightarrow> ad_throw e s
           | (Some t, Inr from) \<Rightarrow> admin_onData (to_str from) (to_str (fld data ''type'')) t data s))"

text \<open>
  The library runs the handler registered for a message.  Which one that is (\<open>route\<close>) and the two
  texts of its time (\<open>date_time\<close>, \<open>clock\<close>) are parameters.
\<close>

(* src/pop/fly/js/ape/app/livecsb.js:14-16 initialize, the handlers *)
definition call_raw ::
  "(jsv \<Rightarrow> string) \<Rightarrow> (jsv \<Rightarrow> string) \<Rightarrow> (jsv \<Rightarrow> string option) \<Rightarrow> jsv \<Rightarrow> admin \<Rightarrow> admin" where
  "call_raw route date_time clock raw s =
     (let data = fld raw ''data''
      in if route raw = ''LCS_DEARUSERS'' then dearUsers data s
         else if route raw = ''RAW_RECENTLY'' then admin_rawRecently (date_time (fld raw ''time'')) data s
         else if route raw = ''LCS_DATA'' then admin_rawData (clock (fld raw ''time'')) data s
         else s)"

subsection \<open>oms.js\<close>

(* src/pop/fly/js/oms/oms.js:75-83 removeCamer *)
definition removeCamer :: "string \<Rightarrow> admin \<Rightarrow> admin" where
  "removeCamer u s =
     s\<lparr>ad_reqs := ad_reqs s @ [\<lparr>r_method = POST, r_url = ''/json/oms/camer'',
        r_params = [(''_op'', JStr ''del''), (''uname'', JStr u)]\<rparr>]\<rparr>"

text \<open>The mark that removes a visitor is inside the visitor's node, whose own handlers run as well.\<close>

(* src/pop/fly/js/oms/oms.js:55-55 bindClick *)
definition remove_click :: "string \<Rightarrow> admin \<Rightarrow> admin" where
  "remove_click u s = (case find_node u s of None \<Rightarrow> s | Some _ \<Rightarrow> admin_click u (removeCamer u s))"

(* src/pop/fly/js/oms/oms.js:83-90 removeCamer, its callback *)
definition removeCamer_reply :: "string \<Rightarrow> jsv \<Rightarrow> admin \<Rightarrow> admin" where
  "removeCamer_reply u data s =
     (if data = JUndef \<or> data = JNull then ad_throw TypeError s
      else if loose_eq (fld data ''success'') (JStr ''1'') then
        s\<lparr>ad_tabs := map (filter (\<lambda>n. nd_name n \<noteq> u)) (ad_tabs s)\<rparr>
      else s\<lparr>ad_alerts := ad_alerts s @
               [if truthy (fld data ''errmsg'') then to_str (fld data ''errmsg'') else (utf8 [229, 136, 160, 233, 153, 164, 230, 147, 141, 228, 189, 156, 229, 164, 177, 232, 180, 165, 239, 188, 140, 232, 175, 183, 231, 168, 141, 229, 144, 142, 229, 134, 141, 232, 175, 149])]\<rparr>)"

(* src/pop/fly/js/oms/oms.js:92-98 getMessage *)
definition oms_getMessage :: "admin \<Rightarrow> admin" where
  "oms_getMessage s = getMessage (ad_cuser s) (ad_aname s) s"

(* src/pop/fly/js/oms/oms.js:57-68 bindClick, the button of the hint *)
definition needa_click :: "string \<Rightarrow> admin \<Rightarrow> admin" where
  "needa_click pname s =
     s\<lparr>ad_reqs := ad_reqs s @ [\<lparr>r_method = POST, r_url = ''/json/oms/edit'',
        r_params = [(''_op'', JStr ''mod''), (''aname'', JStr pname), (''tuneop'', jint 0), (''tune'', jint 8)]\<rparr>]\<rparr>"

(* src/pop/fly/js/oms/oms.js:65-67 bindClick, its callback *)
definition needa_reply :: "admin \<Rightarrow> admin" where
  "needa_reply s = s\<lparr>ad_needa := False\<rparr>"

(* src/pop/fly/js/oms/oms.js:29-35 onready, once the page's data is there *)
definition oms_begin :: "int \<Rightarrow> admin \<Rightarrow> admin" where
  "oms_begin tune s =
     (if tune AND 8 \<noteq> 0 then needMoreAdmin s
      else s\<lparr>ad_indi := (fst (ad_indi s), fst (snd (ad_indi s)), True)\<rparr>)"

subsection \<open>Lemmas: positions\<close>

lemma pos_in_valid:
  "pos_in P tabs = Some (i, j) \<Longrightarrow> i < length tabs \<and> j < length (tabs ! i) \<and> P (tabs ! i ! j)"
proof (induction tabs arbitrary: i)
  case Nil
  then show ?case by simp
next
  case (Cons t ts)
  show ?case
  proof (cases "list_ex P t")
    case True
    then have "length (takeWhile (\<lambda>n. \<not> P n) t) < length t"
      by (metis (no_types, lifting) list_ex_iff length_takeWhile_le nat_less_le takeWhile_eq_all_conv takeWhile_eq_take take_all_iff)
    with True Cons.prems show ?thesis using nth_length_takeWhile [of "\<lambda>n. \<not> P n" t] by auto
  next
    case False
    with Cons show ?thesis by auto
  qed
qed

lemma mset_concat_update:
  "i < length xs \<Longrightarrow> mset (concat (xs[i := ys])) + mset (xs ! i) = mset (concat xs) + mset ys"
  by (induction xs arbitrary: i) (auto split: nat.splits simp: ac_simps)

lemma mset_take_drop: "mset (take n xs) + mset (drop n xs) = mset xs"
  by (metis append_take_drop_id mset_append)

lemma mset_drop_nth: "j < length xs \<Longrightarrow> mset xs = add_mset (xs ! j) (mset (take j xs) + mset (drop (Suc j) xs))"
  by (metis Cons_nth_drop_Suc mset.simps(2) mset_take_drop union_mset_add_mset_right)

definition valid_pos :: "nat \<times> nat \<Rightarrow> node list list \<Rightarrow> bool" where
  "valid_pos p tabs \<longleftrightarrow> fst p < length tabs \<and> snd p < length (tabs ! fst p)"

definition at_pos :: "nat \<times> nat \<Rightarrow> node list list \<Rightarrow> node" where
  "at_pos p tabs = tabs ! fst p ! snd p"

lemma remove_at_mset:
  "valid_pos p tabs \<Longrightarrow> mset (concat tabs) = add_mset (at_pos p tabs) (mset (concat (remove_at p tabs)))"
  using mset_concat_update [of "fst p" tabs "take (snd p) (tabs ! fst p) @ drop (Suc (snd p)) (tabs ! fst p)"]
    mset_drop_nth [of "snd p" "tabs ! fst p"]
  by (simp add: valid_pos_def at_pos_def remove_at_def)

lemma insert_at_mset:
  "fst p < length tabs \<Longrightarrow> mset (concat (insert_at p n tabs)) = add_mset n (mset (concat tabs))"
  using mset_concat_update [of "fst p" tabs "take (snd p) (tabs ! fst p) @ n # drop (snd p) (tabs ! fst p)"]
    mset_take_drop [of "snd p" "tabs ! fst p"]
  by (simp add: insert_at_def)

lemma put_last_mset:
  "i < length tabs \<Longrightarrow> mset (concat (put_last i n tabs)) = add_mset n (mset (concat tabs))"
  using mset_concat_update [of i tabs "tabs ! i @ [n]"] by (simp add: put_last_def)

lemma remove_at_length [simp]: "length (remove_at p tabs) = length tabs"
  by (simp add: remove_at_def)

lemma insert_at_length [simp]: "length (insert_at p n tabs) = length tabs"
  by (simp add: insert_at_def)

lemma remove_at_nth:
  "i < length tabs \<Longrightarrow> remove_at p tabs ! i =
     (if i = fst p then take (snd p) (tabs ! i) @ drop (Suc (snd p)) (tabs ! i) else tabs ! i)"
  by (simp add: remove_at_def nth_list_update)

lemma put_last_length [simp]: "length (put_last i n tabs) = length tabs"
  by (simp add: put_last_def)

lemma remove_at_len:
  "valid_pos p tabs \<Longrightarrow> i < length tabs \<Longrightarrow>
     length (remove_at p tabs ! i) = (if i = fst p then length (tabs ! i) - 1 else length (tabs ! i))"
  by (auto simp: remove_at_nth valid_pos_def)

lemma insert_at_len:
  "i < length tabs \<Longrightarrow>
     length (insert_at p n tabs ! i) = (if i = fst p then Suc (length (tabs ! i)) else length (tabs ! i))"
  by (simp add: insert_at_def nth_list_update min_def)

lemma put_last_len:
  "i < length tabs \<Longrightarrow>
     length (put_last k n tabs ! i) = (if i = k then Suc (length (tabs ! i)) else length (tabs ! i))"
  by (simp add: put_last_def nth_list_update)

lemma insert_at_nth:
  "i < length tabs \<Longrightarrow> insert_at p n tabs ! i =
     (if i = fst p then take (snd p) (tabs ! i) @ n # drop (snd p) (tabs ! i) else tabs ! i)"
  by (simp add: insert_at_def nth_list_update)

text \<open>Where the idle node is once the other has been taken out, and once it has been put before it.\<close>

lemma swap_step1:
  assumes "valid_pos u tabs" "valid_pos f tabs" "u \<noteq> f"
  defines "f1 \<equiv> (if fst u = fst f \<and> snd u < snd f then (fst f, snd f - 1) else f)"
  shows "valid_pos f1 (remove_at u tabs)" "at_pos f1 (remove_at u tabs) = at_pos f tabs"
  using assms by (cases u; cases f; auto simp: valid_pos_def at_pos_def remove_at_nth nth_append)+

lemma swap_step2:
  assumes "valid_pos f tabs"
  shows "valid_pos (fst f, Suc (snd f)) (insert_at f n tabs)"
    "at_pos (fst f, Suc (snd f)) (insert_at f n tabs) = at_pos f tabs"
  using assms by (auto simp: valid_pos_def at_pos_def insert_at_nth nth_append)

lemma swap_nodes_keeps:
  assumes "valid_pos u tabs" "valid_pos f tabs"
  shows "mset (concat (swap_nodes u f tabs)) = mset (concat tabs) \<and> map length (swap_nodes u f tabs) = map length tabs"
proof (cases "u = f")
  case True
  have l: "fst f < length tabs" "length (tabs ! fst f) > 0" using assms by (auto simp: valid_pos_def)
  have s: "swap_nodes u f tabs = put_last (fst f) (at_pos f tabs) (remove_at f tabs)"
    using True by (simp add: swap_nodes_def Let_def at_pos_def)
  show ?thesis
    using l remove_at_mset [OF assms(2)]
    by (auto simp: s put_last_mset put_last_len remove_at_len [OF assms(2)] intro: nth_equalityI)
next
  case False
  define f1 where "f1 = (if fst u = fst f \<and> snd u < snd f then (fst f, snd f - 1) else f)"
  define t1 where "t1 = remove_at u tabs"
  define t2 where "t2 = insert_at f1 (at_pos u tabs) t1"
  define f2 where "f2 = (fst f1, Suc (snd f1))"
  have ff: "fst f1 = fst f" by (simp add: f1_def)
  have v1: "valid_pos f1 t1" "at_pos f1 t1 = at_pos f tabs"
    using swap_step1 [OF assms False] by (simp_all add: f1_def t1_def)
  have v2: "valid_pos f2 t2" "at_pos f2 t2 = at_pos f tabs"
    using swap_step2 [OF v1(1)] v1(2) by (simp_all add: f2_def t2_def)
  have sw: "swap_nodes u f tabs = put_last (fst u) (at_pos f tabs) (remove_at f2 t2)"
    using False by (simp add: swap_nodes_def Let_def f1_def t1_def t2_def f2_def at_pos_def)
  have lu: "fst u < length tabs" "fst f < length tabs" using assms by (simp_all add: valid_pos_def)
  have "mset (concat (swap_nodes u f tabs)) = mset (concat tabs)"
    using remove_at_mset [OF assms(1)] remove_at_mset [OF v2(1)] lu ff
    by (simp add: sw put_last_mset v2(2) [symmetric] t2_def insert_at_mset t1_def)
  moreover have "map length (swap_nodes u f tabs) = map length tabs"
  proof (rule nth_equalityI)
    fix i
    assume "i < length (map length (swap_nodes u f tabs))"
    then have i: "i < length tabs" by (simp add: sw t2_def t1_def)
    have "length (tabs ! fst u) > 0" using assms(1) by (auto simp: valid_pos_def)
    then show "map length (swap_nodes u f tabs) ! i = map length tabs ! i"
      using i remove_at_len [OF v2(1)] remove_at_len [OF assms(1)] ff
      by (auto simp: sw put_last_len insert_at_len t2_def t1_def f2_def)
  qed (simp add: sw t2_def t1_def)
  ultimately show ?thesis by simp
qed

subsection \<open>Lemmas: the lists of visitors and boxes\<close>

definition admin_ok :: "admin \<Rightarrow> bool" where
  "admin_ok s \<longleftrightarrow> distinct (map nd_name (nodes s)) \<and> list_all (\<lambda>t. length t \<le> per_tab) (ad_tabs s) \<and>
     distinct (map mb_name (ad_boxes s))"

text \<open>What \<open>admin_ok\<close> reads of the tabs; an update of nodes in place does not change it.\<close>

definition shape :: "node list list \<Rightarrow> string list list" where
  "shape tabs = map (map nd_name) tabs"

lemma nodes_shape: "map nd_name (nodes s) = concat (shape (ad_tabs s))"
  by (simp add: nodes_def shape_def map_concat)

lemma admin_ok_shape:
  "admin_ok s \<longleftrightarrow> distinct (concat (shape (ad_tabs s))) \<and> list_all (\<lambda>t. length t \<le> per_tab) (shape (ad_tabs s)) \<and>
     distinct (map mb_name (ad_boxes s))"
  by (simp add: admin_ok_def nodes_shape) (simp add: shape_def list_all_iff)

lemma shape_on_node:
  assumes "\<And>n. nd_name (f n) = nd_name n"
  shows "shape (ad_tabs (on_node u f s)) = shape (ad_tabs s)"
  by (simp add: shape_def on_node_def assms)

lemma on_node_ok [simp]:
  assumes "\<And>n. nd_name (f n) = nd_name n"
  shows "admin_ok (on_node u f s) = admin_ok s"
  by (simp add: admin_ok_shape shape_on_node [OF assms]) (simp add: on_node_def)

lemma on_box_ok [simp]:
  assumes "\<And>b. mb_name (f b) = mb_name b"
  shows "admin_ok (on_box u f s) = admin_ok s"
proof -
  have "map mb_name (ad_boxes (on_box u f s)) = map mb_name (ad_boxes s)"
    using assms by (simp add: on_box_def)
  moreover have "ad_tabs (on_box u f s) = ad_tabs s" by (simp add: on_box_def)
  ultimately show ?thesis by (simp only: admin_ok_shape)
qed

lemma frame_ok [simp]:
  "admin_ok (s\<lparr>ad_cuser := a\<rparr>) = admin_ok s" "admin_ok (s\<lparr>ad_on := b\<rparr>) = admin_ok s"
  "admin_ok (s\<lparr>ad_fetched := b\<rparr>) = admin_ok s" "admin_ok (s\<lparr>ad_new := b\<rparr>) = admin_ok s"
  "admin_ok (s\<lparr>ad_total := c\<rparr>) = admin_ok s" "admin_ok (s\<lparr>ad_page := d\<rparr>) = admin_ok s"
  "admin_ok (s\<lparr>ad_pipe := e\<rparr>) = admin_ok s" "admin_ok (s\<lparr>ad_input := a\<rparr>) = admin_ok s"
  "admin_ok (s\<lparr>ad_stat := a\<rparr>) = admin_ok s" "admin_ok (s\<lparr>ad_stat_timers := b\<rparr>) = admin_ok s"
  "admin_ok (s\<lparr>ad_sent := f\<rparr>) = admin_ok s" "admin_ok (s\<lparr>ad_reqs := g\<rparr>) = admin_ok s"
  "admin_ok (s\<lparr>ad_sounds := b\<rparr>) = admin_ok s" "admin_ok (s\<lparr>ad_thrown := h\<rparr>) = admin_ok s"
  "admin_ok (s\<lparr>ad_group := e\<rparr>) = admin_ok s" "admin_ok (s\<lparr>ad_loading := i\<rparr>) = admin_ok s"
  "admin_ok (s\<lparr>ad_indi := j\<rparr>) = admin_ok s" "admin_ok (s\<lparr>ad_needa := i\<rparr>) = admin_ok s"
  "admin_ok (s\<lparr>ad_alerts := b\<rparr>) = admin_ok s"
  by (simp_all add: admin_ok_shape)

lemma ad_throw_ok [simp]: "admin_ok (ad_throw e s) = admin_ok s"
  by (simp add: ad_throw_def)

lemma ad_sound_ok [simp]: "admin_ok (ad_sound e s) = admin_ok s"
  by (simp add: ad_sound_def)

lemma shape_add_node:
  "tabs \<noteq> [] \<Longrightarrow> concat (shape (add_node u tabs)) = concat (shape tabs) @ [u]"
  by (cases tabs rule: rev_cases) (auto simp: shape_def add_node_def new_node_def)

lemma add_node_lens:
  "list_all (\<lambda>t. length t \<le> per_tab) tabs \<Longrightarrow> list_all (\<lambda>t. length t \<le> per_tab) (add_node u tabs)"
  by (cases tabs rule: rev_cases) (auto simp: add_node_def per_tab_def)

lemma find_node_None: "find_node u s = None \<longleftrightarrow> u \<notin> set (map nd_name (nodes s))"
  by (auto simp: find_node_def find_None_iff)

lemma admin_nodeUser_ok [inv_intros]: "admin_ok s \<Longrightarrow> admin_ok (snd (admin_nodeUser u c s))"
proof (cases "find_node u s = None \<and> c \<and> ad_tabs s \<noteq> []")
  case True
  assume ok: "admin_ok s"
  have "u \<notin> set (concat (shape (ad_tabs s)))"
    using True by (simp add: find_node_None nodes_shape [symmetric])
  then show ?thesis
    using True ok add_node_lens [of "ad_tabs s" u]
    by (simp add: admin_nodeUser_def admin_ok_def nodes_shape shape_add_node)
next
  case False
  assume "admin_ok s"
  moreover have "add_node u [] = []" by (simp add: add_node_def)
  ultimately show ?thesis using False
    by (auto simp: admin_nodeUser_def split: option.splits) (simp_all add: admin_ok_shape)
qed

lemma nodeMsg_ok [inv_intros]: "admin_ok s \<Longrightarrow> admin_ok (nodeMsg u c s)"
  by (auto simp: nodeMsg_def admin_ok_shape has_box_def list_ex_iff)

lemma postUserDirty_moves:
  "mset (nodes (postUserDirty u s)) = mset (nodes s) \<and>
   map length (ad_tabs (postUserDirty u s)) = map length (ad_tabs s) \<and> ad_boxes (postUserDirty u s) = ad_boxes s"
proof (cases "pos_in (\<lambda>n. nd_name n = u) (ad_tabs s)"; cases "pos_in idle (ad_tabs s)")
  fix p f
  assume pf: "pos_in (\<lambda>n. nd_name n = u) (ad_tabs s) = Some p" "pos_in idle (ad_tabs s) = Some f"
  have "valid_pos p (ad_tabs s)" "valid_pos f (ad_tabs s)"
    using pf by (cases p, cases f, auto simp: valid_pos_def dest: pos_in_valid)+
  from swap_nodes_keeps [OF this] show ?thesis
    by (simp add: postUserDirty_def pf nodes_def)
qed (simp_all add: postUserDirty_def)

lemma postUserDirty_ok [simp]: "admin_ok (postUserDirty u s) = admin_ok s"
proof -
  note keeps = postUserDirty_moves [of u s]
  have "mset (map nd_name (nodes (postUserDirty u s))) = mset (map nd_name (nodes s))"
    using keeps by simp
  then have "distinct (map nd_name (nodes (postUserDirty u s))) = distinct (map nd_name (nodes s))"
    by (rule mset_eq_imp_distinct_iff)
  moreover have "list_all (\<lambda>t. length t \<le> per_tab) (ad_tabs (postUserDirty u s)) =
      list_all (\<lambda>t. length t \<le> per_tab) (ad_tabs s)"
    using arg_cong [where f = "list_all (\<lambda>n. n \<le> per_tab)", OF conjunct1 [OF conjunct2 [OF keeps]]]
    by (simp add: list.pred_map comp_def)
  ultimately show ?thesis using keeps by (simp add: admin_ok_def)
qed

lemma mark_dirty_ok [inv_intros]: "admin_ok s \<Longrightarrow> admin_ok (mark_dirty u s)"
  by (simp add: mark_dirty_def Let_def admin_nodeUser_ok)

lemma fold_ok: "(\<And>x s. admin_ok s \<Longrightarrow> admin_ok (f x s)) \<Longrightarrow> admin_ok s \<Longrightarrow> admin_ok (fold f xs s)"
  by (induction xs arbitrary: s) simp_all

lemma dearUsers_ok [inv_intros]: "admin_ok s \<Longrightarrow> admin_ok (dearUsers data s)"
  by (auto simp: dearUsers_def intro!: fold_ok mark_dirty_ok split: jsv.splits)

lemma getMessage_ok [inv_intros]: "admin_ok s \<Longrightarrow> admin_ok (getMessage u a s)"
  by (simp add: getMessage_def Let_def nodeMsg_ok)

lemma getMessage_reply_ok:
  "(\<And>r s. admin_ok s \<Longrightarrow> admin_ok (callRaw r s)) \<Longrightarrow> admin_ok s \<Longrightarrow> admin_ok (getMessage_reply callRaw u pg data s)"
  by (auto simp: getMessage_reply_def Let_def intro!: fold_ok)

lemma open_once_ok [inv_intros]: "admin_ok s \<Longrightarrow> admin_ok (open_once u s)"
  by (simp add: open_once_def Let_def nodeMsg_ok getMessage_ok)

lemma admin_click_ok [inv_intros]: "admin_ok s \<Longrightarrow> admin_ok (admin_click u s)"
proof -
  assume ok: "admin_ok s"
  have "admin_ok ((open_once u ^^ k) s)" for k
    by (induction k) (simp_all add: ok open_once_ok)
  then show ?thesis using ok by (simp add: admin_click_def split: option.splits)
qed

lemma admin_send_ok [inv_intros]: "admin_ok s \<Longrightarrow> admin_ok (admin_send tm s)"
  by (simp add: admin_send_def Let_def nodeMsg_ok split: sum.splits)

lemma stat_timer_ok [simp]: "admin_ok (stat_timer s) = admin_ok s"
  by (simp add: stat_timer_def split: list.splits)

lemma userOn_ok [inv_intros]: "admin_ok s \<Longrightarrow> admin_ok (userOn u p s)"
  by (simp add: userOn_def Let_def admin_nodeUser_ok)

lemma userOff_ok [inv_intros]: "admin_ok s \<Longrightarrow> admin_ok (userOff u tm s)"
  by (simp add: userOff_def Let_def split: sum.splits)

lemma admin_onData_ok [inv_intros]: "admin_ok s \<Longrightarrow> admin_ok (admin_onData u ty tm data s)"
proof -
  assume ok: "admin_ok s"
  define t where "t = nodeMsg u True (snd (admin_nodeUser u True s))"
  have "admin_ok t" using ok by (simp add: t_def admin_nodeUser_ok nodeMsg_ok)
  then show ?thesis
    by (cases "admin_strMsg t u ty tm data") (simp_all add: admin_onData_def t_def [symmetric] Let_def)
qed

lemma admin_onRecently_ok [inv_intros]: "admin_ok s \<Longrightarrow> admin_ok (admin_onRecently f t ty tm data s)"
  by (simp add: admin_onRecently_def Let_def admin_nodeUser_ok nodeMsg_ok split: sum.splits)

lemma place_reply_ok [simp]: "admin_ok (place_reply u d s) = admin_ok s"
  by (simp add: place_reply_def split: sum.splits)

lemma admin_rawRecently_ok [inv_intros]: "admin_ok s \<Longrightarrow> admin_ok (admin_rawRecently tm d s)"
  by (simp add: admin_rawRecently_def admin_onRecently_ok split: sum.splits bool.splits prod.splits)

lemma admin_rawData_ok [inv_intros]: "admin_ok s \<Longrightarrow> admin_ok (admin_rawData tm d s)"
  by (simp add: admin_rawData_def admin_onData_ok split: sum.splits bool.splits option.splits)

lemma call_raw_ok [inv_intros]: "admin_ok s \<Longrightarrow> admin_ok (call_raw rt dt ck raw s)"
  by (simp add: call_raw_def Let_def dearUsers_ok admin_rawRecently_ok admin_rawData_ok)

lemma removeCamer_reply_ok [inv_intros]: "admin_ok s \<Longrightarrow> admin_ok (removeCamer_reply u d s)"
proof -
  assume ok: "admin_ok s"
  have c: "map nd_name (concat (map (filter (\<lambda>n. nd_name n \<noteq> u)) tabs)) =
      filter (\<lambda>x. x \<noteq> u) (map nd_name (concat tabs))" for tabs :: "node list list"
    by (simp add: filter_concat [symmetric] filter_map comp_def)
  have "admin_ok (s\<lparr>ad_tabs := map (filter (\<lambda>n. nd_name n \<noteq> u)) (ad_tabs s)\<rparr>)"
    using ok by (auto simp: admin_ok_def nodes_def c list_all_iff intro: order_trans [OF length_filter_le])
  then show ?thesis using ok by (simp add: removeCamer_reply_def)
qed

lemma remove_click_ok [inv_intros]: "admin_ok s \<Longrightarrow> admin_ok (remove_click u s)"
  by (simp add: remove_click_def removeCamer_def admin_click_ok split: option.splits)

lemma admin_pipeCreate_ok [inv_intros]: "admin_ok s \<Longrightarrow> admin_ok (admin_pipeCreate p pp o' s)"
proof -
  assume ok: "admin_ok s"
  have "admin_ok (admin_onready p s)" if "admin_ok s" for s
    using that by (simp add: admin_onready_def admin_ok_shape) (simp add: shape_def comp_def)
  with ok show ?thesis by (simp add: admin_pipeCreate_def Let_def)
qed

subsection \<open>Lemmas: where the visitors are put\<close>

lemma pos_in_split:
  "pos_in P tabs = Some (i, j) \<Longrightarrow>
     \<exists>A xs n ys B. tabs = A @ (xs @ n # ys) # B \<and> i = length A \<and> j = length xs \<and> P n \<and>
       list_all (\<lambda>t. \<not> list_ex P t) A \<and> \<not> list_ex P xs"
proof (induction tabs arbitrary: i)
  case Nil
  then show ?case by simp
next
  case (Cons t ts)
  show ?case
  proof (cases "list_ex P t")
    case True
    then obtain xs n ys where t: "t = xs @ n # ys" "P n" "\<not> list_ex P xs"
      by (metis (no_types, lifting) list_ex_iff split_list_first_prop)
    then have "takeWhile (\<lambda>n. \<not> P n) t = xs"
      by (simp add: list_ex_iff takeWhile_tail takeWhile_append2)
    with True Cons.prems have "i = 0" "j = length xs" by auto
    then show ?thesis using t by (intro exI [of _ "[]"] exI [of _ xs]) auto
  next
    case False
    with Cons.prems obtain k where "pos_in P ts = Some (k, j)" "i = Suc k" by auto
    from Cons.IH [OF this(1)] obtain A xs n ys B where
      "ts = A @ (xs @ n # ys) # B" "k = length A" "j = length xs" "P n"
      "list_all (\<lambda>t. \<not> list_ex P t) A" "\<not> list_ex P xs" by blast
    with False \<open>i = Suc k\<close> show ?thesis
      by (intro exI [of _ "t # A"] exI [of _ xs] exI [of _ n] exI [of _ ys] exI [of _ B]) simp
  qed
qed

lemma list_update_mid [simp]: "(A @ x # B)[length A := y] = A @ y # B"
  by simp

lemma swap_same_up:
  "swap_nodes (length A, length xs) (length A, Suc (length xs + length ys)) (A @ (xs @ n # ys @ m # zs) # B) =
     A @ (xs @ ys @ n # zs @ [m]) # B"
  by (simp add: swap_nodes_def Let_def remove_at_def insert_at_def put_last_def nth_append)

lemma swap_same_down:
  "swap_nodes (length A, Suc (length xs + length ys)) (length A, length xs) (A @ (xs @ m # ys @ n # zs) # B) =
     A @ (xs @ n # ys @ zs @ [m]) # B"
  by (simp add: swap_nodes_def Let_def remove_at_def insert_at_def put_last_def nth_append)

lemma swap_from_later:
  "swap_nodes (Suc (length A + length C), length us) (length A, length xs)
     (A @ (xs @ m # ys) # C @ (us @ n # vs) # D) =
   A @ (xs @ n # ys) # C @ (us @ vs @ [m]) # D"
  by (simp add: swap_nodes_def Let_def remove_at_def insert_at_def put_last_def nth_append list_update_append)

lemma swap_from_earlier:
  "swap_nodes (length A, length us) (Suc (length A + length C), length xs)
     (A @ (us @ n # vs) # C @ (xs @ m # ys) # D) =
   A @ (us @ vs @ [m]) # C @ (xs @ n # ys) # D"
  by (simp add: swap_nodes_def Let_def remove_at_def insert_at_def put_last_def nth_append list_update_append)

text \<open>The node asked for, at \<open>p\<close>, and the first idle one, at \<open>f\<close>: the four ways they can lie.\<close>

definition idle_free :: "node list \<Rightarrow> bool" where
  "idle_free ns \<longleftrightarrow> (\<forall>n \<in> set ns. \<not> idle n)"

lemma idle_free_simps [simp]:
  "idle_free []" "idle_free (n # ns) \<longleftrightarrow> \<not> idle n \<and> idle_free ns"
  "idle_free (ms @ ns) \<longleftrightarrow> idle_free ms \<and> idle_free ns"
  by (auto simp: idle_free_def)

lemma idle_free_before: "list_all (\<lambda>t. \<not> list_ex idle t) A \<Longrightarrow> idle_free (concat A)"
  by (auto simp: idle_free_def list_all_iff list_ex_iff)

lemma same_tab_order:
  assumes "xs @ n # ys = xs' @ m # ys'" "n \<noteq> m"
  shows "(\<exists>zs. xs' = xs @ n # zs \<and> ys = zs @ m # ys') \<or> (\<exists>zs. xs = xs' @ m # zs \<and> ys' = zs @ n # ys)"
  using assms by (auto simp: append_eq_append_conv2 Cons_eq_append_conv append_eq_Cons_conv)

lemma lie:
  assumes "pos_in (\<lambda>n. nd_name n = u) tabs = Some p" "pos_in idle tabs = Some f" "\<not> idle (at_pos p tabs)"
  obtains (up) A xs n ys m zs B where "tabs = A @ (xs @ n # ys @ m # zs) # B" "p = (length A, length xs)"
      "f = (length A, Suc (length xs + length ys))" "nd_name n = u" "idle m" "idle_free (concat A @ xs @ n # ys)"
  | (down) A xs m ys n zs B where "tabs = A @ (xs @ m # ys @ n # zs) # B" "f = (length A, length xs)"
      "p = (length A, Suc (length xs + length ys))" "nd_name n = u" "idle m" "idle_free (concat A @ xs)"
  | (later) A xs m ys C us n vs D where "tabs = A @ (xs @ m # ys) # C @ (us @ n # vs) # D"
      "p = (Suc (length A + length C), length us)" "f = (length A, length xs)" "nd_name n = u" "idle m"
      "idle_free (concat A @ xs)"
  | (earlier) A us n vs C xs m ys D where "tabs = A @ (us @ n # vs) # C @ (xs @ m # ys) # D"
      "p = (length A, length us)" "f = (Suc (length A + length C), length xs)" "nd_name n = u" "idle m"
      "idle_free (concat A @ us @ n # vs @ concat C @ xs)"
proof -
  obtain i j where p: "p = (i, j)" by (cases p)
  obtain k l where f: "f = (k, l)" by (cases f)
  from pos_in_split [OF assms(1) [unfolded p]] obtain A xs n ys B where
    u: "tabs = A @ (xs @ n # ys) # B" "i = length A" "j = length xs" "nd_name n = u" by blast
  from pos_in_split [OF assms(2) [unfolded f]] obtain A' xs' m ys' B' where
    v: "tabs = A' @ (xs' @ m # ys') # B'" "k = length A'" "l = length xs'" "idle m"
      "list_all (\<lambda>t. \<not> list_ex idle t) A'" "\<not> list_ex idle xs'" by blast
  have free: "idle_free (concat A')" "idle_free xs'"
    using v by (simp_all add: idle_free_before) (simp add: idle_free_def list_ex_iff)
  have n: "\<not> idle n" using assms(3) u by (simp add: p at_pos_def)
  then have nm: "n \<noteq> m" using v(4) by blast
  have "A @ (xs @ n # ys) # B = A' @ (xs' @ m # ys') # B'" using u(1) v(1) by simp
  then consider (same) "A = A'" "xs @ n # ys = xs' @ m # ys'" "B = B'"
    | (u) C where "A' = A @ (xs @ n # ys) # C" "B = C @ (xs' @ m # ys') # B'"
    | (v) C where "A = A' @ (xs' @ m # ys') # C" "B' = C @ (xs @ n # ys) # B"
    by (auto simp: append_eq_append_conv2 Cons_eq_append_conv append_eq_Cons_conv)
  then show thesis
  proof cases
    case same
    from same_tab_order [OF same(2) nm] show thesis
      using same u v free n by (auto simp: p f intro: up down)
  next
    case (u C)
    then show thesis using \<open>tabs = A @ (xs @ n # ys) # B\<close> \<open>i = _\<close> \<open>j = _\<close> \<open>nd_name n = u\<close> v free n
      by (intro earlier [of A xs n ys C xs' m ys' B']) (simp_all add: p f)
  next
    case (v C)
    then show thesis using u \<open>k = _\<close> \<open>l = _\<close> \<open>idle m\<close> \<open>tabs = A' @ (xs' @ m # ys') # B'\<close> free
      by (intro later [of A' xs' m ys' C xs n ys B]) (simp_all add: p f)
  qed
qed

definition before :: "string \<Rightarrow> admin \<Rightarrow> node list" where
  "before u s = takeWhile (\<lambda>n. nd_name n \<noteq> u) (nodes s)"

lemma before_split:
  assumes "distinct (map nd_name (nodes s))" "nodes s = X @ n # Y" "nd_name n = u"
  shows "before u s = X"
proof -
  have "nd_name x \<noteq> u" if "x \<in> set X" for x
    using assms that by (metis distinct_append image_eqI insert_disjoint(1) list.simps(15) map_append list.map(2) set_map disjoint_iff list.set_intros(1))
  then show ?thesis using assms by (simp add: before_def takeWhile_append2 takeWhile_tail)
qed

lemma postUserDirty_distinct: "distinct (map nd_name (nodes (postUserDirty u s))) = distinct (map nd_name (nodes s))"
proof -
  have "mset (map nd_name (nodes (postUserDirty u s))) = mset (map nd_name (nodes s))"
    using postUserDirty_moves [of u s] by simp
  then show ?thesis by (rule mset_eq_imp_distinct_iff)
qed

lemma some_pos:
  "find_node u s \<noteq> None \<Longrightarrow> \<exists>p. pos_in (\<lambda>n. nd_name n = u) (ad_tabs s) = Some p"
proof -
  have "list_ex P (concat tabs) \<Longrightarrow> \<exists>p. pos_in P tabs = Some p" for P and tabs :: "node list list"
    by (induction tabs) auto
  moreover assume "find_node u s \<noteq> None"
  then have "list_ex (\<lambda>n. nd_name n = u) (nodes s)" by (auto simp: find_node_None list_ex_iff)
  ultimately show ?thesis by (simp add: nodes_def)
qed

lemma no_idle: "pos_in P tabs = None \<Longrightarrow> \<forall>n \<in> set (concat tabs). \<not> P n"
  by (induction tabs) (auto split: if_splits simp: list_ex_iff)

lemma front_cases:
  assumes "distinct (map nd_name (nodes s))" "pos_in (\<lambda>n. nd_name n = u) (ad_tabs s) = Some p"
    "pos_in idle (ad_tabs s) = Some f" "\<not> idle (at_pos p (ad_tabs s))"
  shows "idle_free (before u (postUserDirty u s)) \<longleftrightarrow> \<not> (fst p < fst f \<and> snd f < snd p)"
  using assms(2,3,4)
proof (cases rule: lie)
  case (up A xs n ys m zs B)
  have "nodes (postUserDirty u s) = (concat A @ xs @ ys) @ n # (zs @ m # concat B)"
    using up assms by (simp add: postUserDirty_def nodes_def swap_same_up)
  from before_split [OF postUserDirty_distinct [THEN iffD2, OF assms(1)] this up(4)] show ?thesis
    using up by simp
next
  case (down A xs m ys n zs B)
  have "nodes (postUserDirty u s) = (concat A @ xs) @ n # (ys @ zs @ m # concat B)"
    using down assms by (simp add: postUserDirty_def nodes_def swap_same_down)
  from before_split [OF postUserDirty_distinct [THEN iffD2, OF assms(1)] this down(4)] show ?thesis
    using down by simp
next
  case (later A xs m ys C us n vs D)
  have "nodes (postUserDirty u s) = (concat A @ xs) @ n # (ys @ concat C @ us @ vs @ m # concat D)"
    using later assms by (simp add: postUserDirty_def nodes_def swap_from_later)
  from before_split [OF postUserDirty_distinct [THEN iffD2, OF assms(1)] this later(4)] show ?thesis
    using later by simp
next
  case (earlier A us n vs C xs m ys D)
  show ?thesis
  proof (cases "snd f < snd p")
    case True
    have "nodes (postUserDirty u s) = (concat A @ us @ vs @ m # concat C @ xs) @ n # (ys @ concat D)"
      using True earlier assms by (simp add: postUserDirty_def nodes_def swap_from_earlier)
    from before_split [OF postUserDirty_distinct [THEN iffD2, OF assms(1)] this earlier(4)] show ?thesis
      using earlier True by simp
  next
    case False
    have "nodes (postUserDirty u s) = (concat A @ us) @ n # (vs @ concat C @ xs @ m # ys @ concat D)"
      using False earlier assms by (simp add: postUserDirty_def nodes_def)
    from before_split [OF postUserDirty_distinct [THEN iffD2, OF assms(1)] this earlier(4)] show ?thesis
      using earlier False by simp
  qed
qed

subsection \<open>The page as a machine\<close>

datatype admin_event =
    AType string
  | AClick string
  | ASend string
  | AStat
  | AJoin string string jsv
  | ALeave string string jsv
  | APipe string jsv jsv
  | ARaw jsv
  | AOlder
  | APage string int jsv
  | APlace string jsv
  | ARemove string
  | ARemoved string jsv
  | AJudge
  | AFull
  | ANeeda string
  | ANeedaDone

text \<open>The handlers that run for each event; the first three arguments are those of \<open>call_raw\<close>.\<close>

fun admin_step ::
  "(jsv \<Rightarrow> string) \<Rightarrow> (jsv \<Rightarrow> string) \<Rightarrow> (jsv \<Rightarrow> string option) \<Rightarrow> admin_event \<Rightarrow> admin \<Rightarrow> admin" where
  "admin_step rt dt ck (AType m) s = s\<lparr>ad_input := m\<rparr>"
| "admin_step rt dt ck (AClick u) s = admin_click u s"
| "admin_step rt dt ck (ASend tm) s = admin_send tm s"
| "admin_step rt dt ck AStat s = stat_timer s"
| "admin_step rt dt ck (AJoin u p props) s = admin_createUser u p props s"
| "admin_step rt dt ck (ALeave u tm props) s = admin_deleteUser u tm props s"
| "admin_step rt dt ck (APipe p props ops) s = admin_pipeCreate p props ops s"
| "admin_step rt dt ck (ARaw raw) s = call_raw rt dt ck raw s"
| "admin_step rt dt ck AOlder s = oms_getMessage s"
| "admin_step rt dt ck (APage u pg data) s = getMessage_reply (call_raw rt dt ck) u pg data s"
| "admin_step rt dt ck (APlace u data) s = place_reply u data s"
| "admin_step rt dt ck (ARemove u) s = remove_click u s"
| "admin_step rt dt ck (ARemoved u data) s = removeCamer_reply u data s"
| "admin_step rt dt ck AJudge s = judgeReady s"
| "admin_step rt dt ck AFull s = needMoreAdmin s"
| "admin_step rt dt ck (ANeeda p) s = needa_click p s"
| "admin_step rt dt ck ANeedaDone s = needa_reply s"

lemma admin_step_ok [inv_intros]: "admin_ok s \<Longrightarrow> admin_ok (admin_step rt dt ck e s)"
proof (cases e)
  case (APage u pg d)
  assume "admin_ok s"
  with APage show ?thesis by (simp add: getMessage_reply_ok call_raw_ok)
qed (simp_all add: inv_intros admin_createUser_def admin_deleteUser_def oms_getMessage_def judgeReady_def
    needMoreAdmin_def needa_click_def needa_reply_def)

interpretation admin_page: machine "admin_step rt dt ck" admin_ok
  by unfold_locales (rule admin_step_ok)

text \<open>
  The page as it starts: the node for all, the visitors of the store that the template lists in its own tabs of fifteen
  (name and place, all of them off line), the account's name, and nothing else.
\<close>

definition template_node :: "string \<times> string \<Rightarrow> node" where
  "template_node u = \<lparr>nd_name = fst u, nd_cls = {''off''}, nd_pubid = None, nd_clicks = 0, nd_place = snd u\<rparr>"

(* src/pop/tpl/oms/oms.html:26-43 the list of visitors *)
definition template_row :: "string \<times> string \<Rightarrow> nat \<times> node list list \<Rightarrow> nat \<times> node list list" where
  "template_row u r = (case r of (k, tabs) \<Rightarrow>
     (let opened = (if k mod 15 = 0 then tabs @ [[]] else tabs)
      in (Suc k, butlast opened @ [last opened @ [template_node u]])))"

(* src/pop/tpl/oms/oms.html:22-47 the list of visitors *)
definition template_tabs :: "(string \<times> string) list \<Rightarrow> node list list" where
  "template_tabs us =
     snd (fold template_row us (1, [[\<lparr>nd_name = ''0'', nd_cls = {''cur''}, nd_pubid = None, nd_clicks = 0, nd_place = ''''\<rparr>]]))"

definition admin_start :: "(string \<times> string) list \<Rightarrow> string \<Rightarrow> string \<Rightarrow> admin" where
  "admin_start us aname input =
     \<lparr>ad_aname = aname, ad_group = None, ad_cuser = ''0'', ad_on = [''0''], ad_fetched = [''0''], ad_new = [''0''],
      ad_total = Map.empty, ad_page = Map.empty, ad_tabs = template_tabs us,
      ad_boxes = [], ad_pipe = None, ad_input = input, ad_stat = all_users_hint, ad_stat_timers = [],
      ad_sent = [], ad_reqs = [], ad_remind = True, ad_sounds = [], ad_thrown = [], ad_loading = True,
      ad_indi = ('''', False, False), ad_needa = False, ad_alerts = []\<rparr>"

text \<open>As long as the list is drawn, its last tab is as full as the count says.\<close>

definition rows_drawn :: "string list \<Rightarrow> nat \<times> node list list \<Rightarrow> bool" where
  "rows_drawn names r \<longleftrightarrow> (case r of (k, tabs) \<Rightarrow> tabs \<noteq> [] \<and> 1 \<le> k \<and>
     length (last tabs) = (k - 1) mod 15 + 1 \<and> list_all (\<lambda>t. length t \<le> per_tab) tabs \<and> concat (shape tabs) = names)"

lemma rows_drawn_row: "rows_drawn names r \<Longrightarrow> rows_drawn (names @ [fst u]) (template_row u r)"
proof -
  assume d: "rows_drawn names r"
  obtain k tabs where r: "r = (k, tabs)" by (cases r)
  with d have t: "tabs \<noteq> []" "1 \<le> k" "length (last tabs) = (k - 1) mod 15 + 1"
      "list_all (\<lambda>t. length t \<le> per_tab) tabs" "concat (shape tabs) = names"
    by (auto simp: rows_drawn_def)
  then obtain ts l where tl: "tabs = ts @ [l]" by (cases tabs rule: rev_cases) auto
  have ts: "list_all (\<lambda>t. length t \<le> per_tab) ts" "length l \<le> per_tab" "concat (shape (ts @ [l])) = names"
    using t(4,5) tl by simp_all
  show ?thesis
  proof (cases "k mod 15 = 0")
    case True
    then have "template_row u r = (Suc k, (ts @ [l]) @ [[template_node u]])"
      by (simp add: r tl template_row_def)
    with ts True show ?thesis
      by (simp add: rows_drawn_def shape_def template_node_def per_tab_def)
  next
    case False
    then have "template_row u r = (Suc k, ts @ [l @ [template_node u]])"
      by (simp add: r tl template_row_def)
    moreover from t(2) obtain m where m: "k = Suc m" by (cases k) auto
    then have "m mod 15 + 1 = k mod 15" using False by (simp add: mod_Suc split: if_splits)
    then have "length l = k mod 15" using t(3) tl m by simp
    moreover have "k mod 15 < 15" by simp
    then have "k mod 15 + 1 \<le> 15" by linarith
    ultimately show ?thesis
      using ts by (simp add: rows_drawn_def shape_def template_node_def per_tab_def)
  qed
qed

lemma rows_drawn_rows: "rows_drawn names r \<Longrightarrow> rows_drawn (names @ map fst us) (fold template_row us r)"
proof (induction us arbitrary: names r)
  case (Cons u us)
  from Cons.IH [OF rows_drawn_row [OF Cons.prems, of u]] show ?case by simp
qed simp

lemma template_drawn:
  "list_all (\<lambda>t. length t \<le> per_tab) (template_tabs us)" "map nd_name (concat (template_tabs us)) = ''0'' # map fst us"
proof -
  have "rows_drawn [''0''] (1, [[\<lparr>nd_name = ''0'', nd_cls = {''cur''}, nd_pubid = None, nd_clicks = 0, nd_place = ''''\<rparr>]])"
    by (simp add: rows_drawn_def shape_def per_tab_def)
  from rows_drawn_rows [OF this, of us]
  show "list_all (\<lambda>t. length t \<le> per_tab) (template_tabs us)" "map nd_name (concat (template_tabs us)) = ''0'' # map fst us"
    by (simp_all add: rows_drawn_def template_tabs_def split_beta shape_def map_concat)
qed

lemma admin_start_ok: "distinct (''0'' # map fst us) \<Longrightarrow> admin_ok (admin_start us a i)"
  using template_drawn [of us] by (simp add: admin_ok_def admin_start_def nodes_def)

text \<open>
  C13. The administrator's lists stay in order: from the page's start, with the visitors of the store (whose names are
  distinct) that the template lists, and whatever the server sends and the administrator clicks, no visitor has two nodes
  or two message boxes and no tab holds more than fifteen; and moving the waiting visitors to the front only moves nodes,
  none is lost or doubled and no tab changes its length.
\<close>

theorem visitor_list_well_formed:
  assumes "distinct (''0'' # map fst us)"
  shows "admin_ok (fold (admin_step rt dt ck) es (admin_start us a i)) \<and>
   mset (nodes (postUserDirty u s)) = mset (nodes s) \<and>
   map length (ad_tabs (postUserDirty u s)) = map length (ad_tabs s)"
  using admin_page.run_inv [OF admin_start_ok [OF assms]] postUserDirty_moves by simp

text \<open>Two visitors of the store before the page has run anything, and the waiting one of them moved in front\<close>

lemma visitor_list_well_formed_witness:
  "admin_ok (fold (admin_step (\<lambda>_. '''') (\<lambda>_. '''') (\<lambda>_. None)) [] (admin_start [(''a'', ''x''), (''b'', ''y'')] ''kol'' '''')) \<and>
   mset (nodes (postUserDirty ''b'' (admin_start [(''a'', ''x''), (''b'', ''y'')] ''kol'' ''''))) =
     mset (nodes (admin_start [(''a'', ''x''), (''b'', ''y'')] ''kol'' '''')) \<and>
   map length (ad_tabs (postUserDirty ''b'' (admin_start [(''a'', ''x''), (''b'', ''y'')] ''kol'' ''''))) = [3]"
  using visitor_list_well_formed [of "[(''a'', ''x''), (''b'', ''y'')]" "\<lambda>_. ''''" "\<lambda>_. ''''" "\<lambda>_. None" "[]" "''kol''" "''''" "''b''"
      "admin_start [(''a'', ''x''), (''b'', ''y'')] ''kol'' ''''"]
  by (simp add: admin_start_def template_tabs_def template_row_def)


text \<open>
  C14. A visitor who is on line or has written is put in front of every idle one: no idle node comes
  before it in the list. The one exception is a visitor in an earlier tab than the first idle node but
  at a higher place in it: the indices of two different lists are compared, the visitor is moved back
  to the later tab and the idle node takes its place.
\<close>

theorem waiting_visitor_in_front:
  assumes "distinct (map nd_name (nodes s))" "pos_in (\<lambda>n. nd_name n = u) (ad_tabs s) = Some p"
    "\<not> idle (at_pos p (ad_tabs s))"
  shows "idle_free (before u (postUserDirty u s)) \<longleftrightarrow>
     (case pos_in idle (ad_tabs s) of None \<Rightarrow> True | Some f \<Rightarrow> \<not> (fst p < fst f \<and> snd f < snd p))"
proof (cases "pos_in idle (ad_tabs s)")
  case None
  then have "postUserDirty u s = s" by (simp add: postUserDirty_def assms)
  moreover have "idle_free (before u s)"
    using no_idle [OF None] set_takeWhileD by (fastforce simp: idle_free_def before_def nodes_def)
  ultimately show ?thesis by (simp add: None)
next
  case (Some f)
  from front_cases [OF assms(1,2) this assms(3)] show ?thesis by (simp add: Some)
qed

definition a_node :: "string \<Rightarrow> string \<Rightarrow> node" where
  "a_node u c = \<lparr>nd_name = u, nd_cls = {c}, nd_pubid = None, nd_clicks = 1, nd_place = ''''\<rparr>"

lemma waiting_visitor_in_front_witness:
  "idle_free (before ''u'' (postUserDirty ''u''
     ((admin_start [] ''kol'' '''')\<lparr>ad_tabs := [[a_node ''a'' ''off'', a_node ''u'' ''on'', a_node ''b'' ''off'']]\<rparr>))) \<and>
   \<not> idle_free (before ''u'' (postUserDirty ''u''
     ((admin_start [] ''kol'' '''')\<lparr>ad_tabs := [[a_node ''a'' ''on'', a_node ''u'' ''on''], [a_node ''b'' ''off'']]\<rparr>)))"
  using waiting_visitor_in_front [where u = "''u''" and p = "(0, 1)" and
      s = "(admin_start [] ''kol'' '''')\<lparr>ad_tabs := [[a_node ''a'' ''off'', a_node ''u'' ''on'', a_node ''b'' ''off'']]\<rparr>"]
    waiting_visitor_in_front [where u = "''u''" and p = "(0, 1)" and
      s = "(admin_start [] ''kol'' '''')\<lparr>ad_tabs := [[a_node ''a'' ''on'', a_node ''u'' ''on''], [a_node ''b'' ''off'']]\<rparr>"]
  by (simp add: nodes_def a_node_def at_pos_def idle_def)

subsection \<open>Older messages and visitors who leave\<close>

definition page_of :: "string \<Rightarrow> admin \<Rightarrow> int" where
  "page_of u s = (case ad_page s u of Some p \<Rightarrow> p | None \<Rightarrow> 0)"

definition page_request :: "string \<Rightarrow> string \<Rightarrow> int \<Rightarrow> request" where
  "page_request u a pg = \<lparr>r_method = GET, r_url = ''http://www.bomdoo.com/json/msg?JsonCallback=?'',
     r_params = [(''name'', JStr u), (''name2'', JStr a), (''_npp'', jint 15), (''_npg'', jint pg)]\<rparr>"

lemma nodeMsg_frame [simp]:
  "ad_reqs (nodeMsg u c s) = ad_reqs s" "ad_total (nodeMsg u c s) = ad_total s" "ad_page (nodeMsg u c s) = ad_page s"
  "ad_on (nodeMsg u c s) = ad_on s" "ad_pipe (nodeMsg u c s) = ad_pipe s" "ad_cuser (nodeMsg u c s) = ad_cuser s"
  "ad_sent (nodeMsg u c s) = ad_sent s" "ad_aname (nodeMsg u c s) = ad_aname s"
  by (simp_all add: nodeMsg_def)

text \<open>
  Older messages: asking for them sends one request for the next page, while the number of
  messages is unknown or more of them are left than the pages asked for so far hold. A visitor without
  any message is the exception, since \<open>bmoon.utl.type(0)\<close> is no number: the pages are asked for
  without end.
\<close>

theorem older_messages_stop:
  assumes "ad_total s u = map_option (\<lambda>t. Fin (of_int t)) ntt"
  shows "ad_reqs (getMessage u a s) = ad_reqs s @
     (case ntt of None \<Rightarrow> [page_request u a (page_of u s + 1)]
      | Some t \<Rightarrow> if t = 0 \<or> 15 * page_of u s < t then [page_request u a (page_of u s + 1)] else [])"
proof -
  have d: "of_int p < (of_int t / 15 :: rat) \<longleftrightarrow> 15 * p < t" for p t :: int
  proof -
    have "of_int p < (of_int t / 15 :: rat) \<longleftrightarrow> (of_int (15 * p) :: rat) < of_int t"
      by (simp add: pos_less_divide_eq mult.commute)
    then show ?thesis by (simp only: of_int_less_iff)
  qed
  show ?thesis
    using assms by (cases ntt) (auto simp: getMessage_def Let_def page_of_def page_request_def int_num_def d)
qed

lemma older_messages_stop_witness:
  "ad_reqs (getMessage ''u'' ''kol'' ((admin_start [] ''kol'' '''')\<lparr>ad_total := [''u'' \<mapsto> Fin 20], ad_page := [''u'' \<mapsto> 2]\<rparr>)) = [] \<and>
   ad_reqs (getMessage ''u'' ''kol'' ((admin_start [] ''kol'' '''')\<lparr>ad_total := [''u'' \<mapsto> Fin 0], ad_page := [''u'' \<mapsto> 2]\<rparr>)) =
     [page_request ''u'' ''kol'' 3]"
  using older_messages_stop [of "(admin_start [] ''kol'' '''')\<lparr>ad_total := [''u'' \<mapsto> Fin 20], ad_page := [''u'' \<mapsto> 2]\<rparr>" "''u''" "Some 20"]
    older_messages_stop [of "(admin_start [] ''kol'' '''')\<lparr>ad_total := [''u'' \<mapsto> Fin 0], ad_page := [''u'' \<mapsto> 2]\<rparr>" "''u''" "Some 0"]
  by (simp add: page_of_def admin_start_def template_tabs_def)

lemma strMsg_left:
  "decodeURIComponent (if u = ad_aname s then (utf8 [230, 136, 145]) else u) = Inr d \<Longrightarrow> \<exists>h. admin_strMsg s u ''left'' tm (JObj []) = Inr h"
  by (auto simp: admin_strMsg_def admin_strAction_def Let_def decode_plain_text)

lemma userOff_on:
  "decodeURIComponent (if u = ad_aname s then (utf8 [230, 136, 145]) else u) = Inr d \<Longrightarrow>
     ad_on (userOff u tm s) = splice1 (in_array u (ad_on s)) (ad_on s)"
  using strMsg_left [of u s d tm] by (auto simp: userOff_def on_node_def)

text \<open>The command that carries what is in the field: to the pipe, or as mail to the one talked to.\<close>

definition admin_outgoing :: "admin \<Rightarrow> command" where
  "admin_outgoing s =
     (if ad_pipe s \<noteq> None \<and> ad_cuser s \<in> set (ad_on s)
      then \<lparr>co_name = ''LCS_SEND'', co_params = [(''msg'', JStr (ad_input s))], co_pipe = ad_pipe s\<rparr>
      else \<lparr>co_name = ''LCS_MSG'',
            co_params = [(''uname'', JStr (ad_cuser s)), (''msg'', JStr (ad_input s)), (''imAdmin'', jint 1)],
            co_pipe = None\<rparr>)"

lemma admin_strMsg_own:
  assumes "decodeURIComponent m = Inr d" "type = ''send'' \<or> type = ''msg''"
  shows "\<exists>h. admin_strMsg s (ad_aname s) type tm (JObj [(''msg'', JStr m)]) = Inr h"
proof -
  have u: "decodeURIComponent ''undefined'' = Inr ''undefined''" by code_simp
  have me: "decodeURIComponent (utf8 [230, 136, 145]) = Inr (utf8 [230, 136, 145])" by code_simp
  obtain a where "admin_strAction type (JObj [(''msg'', JStr m)]) = Inr a"
    using assms by (auto simp: admin_strAction_def Let_def u)
  then show ?thesis by (simp add: admin_strMsg_def me)
qed

lemma admin_send_good:
  assumes "decodeURIComponent (ad_input s) = Inr d" "ad_input s \<noteq> []" "js_len (ad_input s) \<le> 256"
  shows "ad_sent (admin_send tm s) = ad_sent s @ [admin_outgoing s]"
proof -
  define type where "type = (if in_array (ad_cuser s) (ad_on s) \<noteq> -1 then ''send'' else ''msg'')"
  have "type = ''send'' \<or> type = ''msg''" by (simp add: type_def)
  from admin_strMsg_own [OF assms(1) this, of "nodeMsg (ad_cuser s) True s" tm] obtain h where
    "admin_strMsg (nodeMsg (ad_cuser s) True s) (ad_aname s) type tm (JObj [(''msg'', JStr (ad_input s))]) = Inr h"
    by auto
  then show ?thesis using assms(2,3)
    by (simp add: admin_send_def Let_def type_def [symmetric] ad_sound_def on_box_def)
       (auto simp: type_def admin_outgoing_def in_array_neg_iff)
qed

text \<open>
  A visitor who leaves is taken from those on line; but when the name is not among them, the last
  one is taken instead. With nobody but the group on line, that is the group, and from then on what the
  administrator says to all goes out as mail to nobody, although the group's pipe is open.
\<close>

theorem unknown_leave_drops_another:
  assumes "decodeURIComponent u = Inr d" "u \<noteq> ad_aname s"
  shows "ad_on (userOff u tm s) = (if u \<in> set (ad_on s) then remove1 u (ad_on s) else butlast (ad_on s)) \<and>
     (ad_on s = [''0''] \<and> u \<noteq> ''0'' \<and> ad_cuser s = ''0'' \<and> ad_pipe s = Some g \<and>
      decodeURIComponent (ad_input s) = Inr m \<and> ad_input s \<noteq> [] \<and> js_len (ad_input s) \<le> 256 \<longrightarrow>
        ad_sent (admin_send tm' s) = ad_sent s @ [\<lparr>co_name = ''LCS_SEND'', co_params = [(''msg'', JStr (ad_input s))],
          co_pipe = Some g\<rparr>] \<and>
        ad_sent (admin_send tm' (userOff u tm s)) = ad_sent s @ [\<lparr>co_name = ''LCS_MSG'',
          co_params = [(''uname'', JStr ''0''), (''msg'', JStr (ad_input s)), (''imAdmin'', jint 1)], co_pipe = None\<rparr>])"
proof -
  have on: "ad_on (userOff u tm s) = (if u \<in> set (ad_on s) then remove1 u (ad_on s) else butlast (ad_on s))"
    using userOff_on [of u s d tm] assms
    by (simp add: splice1_in_array in_array_neg_iff [THEN iffD2] splice1_minus_one)
  obtain h where h: "admin_strMsg s u ''left'' tm (JObj []) = Inr h"
    using strMsg_left [of u s d tm] assms by auto
  have frame: "ad_input (userOff u tm s) = ad_input s" "ad_cuser (userOff u tm s) = ad_cuser s"
    "ad_pipe (userOff u tm s) = ad_pipe s" "ad_sent (userOff u tm s) = ad_sent s"
    by (simp_all add: userOff_def h Let_def on_node_def)
  show ?thesis
    using on admin_send_good [of s m tm'] admin_send_good [of "userOff u tm s" m tm']
    by (simp add: frame) (simp add: admin_outgoing_def frame)
qed

lemma unknown_leave_drops_another_witness:
  "ad_sent (admin_send ''9:00:00'' (userOff ''guest'' ''8:00:00'' ((admin_start [] ''kol'' ''hello'')\<lparr>ad_pipe := Some ''p''\<rparr>))) =
     [\<lparr>co_name = ''LCS_MSG'',
       co_params = [(''uname'', JStr ''0''), (''msg'', JStr ''hello''), (''imAdmin'', jint 1)], co_pipe = None\<rparr>]"
proof -
  have d: "decodeURIComponent ''hello'' = Inr ''hello''" "decodeURIComponent ''guest'' = Inr ''guest''" by code_simp+
  have l: "js_len ''hello'' \<le> 256" by (simp add: js_len_ascii ascii_def)
  show ?thesis
    using unknown_leave_drops_another [of "''guest''" "''guest''" "(admin_start [] ''kol'' ''hello'')\<lparr>ad_pipe := Some ''p''\<rparr>"
        "''8:00:00''" "''p''" "''hello''" "''9:00:00''"] d l
    by (simp add: admin_start_def)
qed

end
