(* ===== verification/Comments.thy ===== *)
theory Comments
  imports Forms Utl
begin

text \<open>
  The comments of the three pages that have them: a post of the blog (\<open>pop/fly/js/blog/blog.js\<close>), a
  question (\<open>pop/fly/js/zero/detail.js\<close>) and a memory of the travel site (\<open>dida/fly/js/bore/bore.js\<close>);
  and the numbers of comments that the list of posts shows (\<open>blog/index.js\<close>, and \<open>zero/zero.js\<close> with
  its form).

  The comments on the page are kept as a list of their ids, the id of the comment each is put under
  (\<open>None\<close>: the list itself) and their markup; the ones under the same parent are in the order of the
  list.  \<open>appendTo\<close> of one that is there moves it.  A comment does not answer itself or an answer of
  its own.  Times and addresses come as text.
\<close>

subsection \<open>The comments on the page\<close>

type_synonym item = "string \<times> string option \<times> string"

definition find_item :: "jsv \<Rightarrow> item list \<Rightarrow> item option" where
  "find_item i its = (if loose_eq i (jint 0) then None else find (\<lambda>it. fst it = to_str i) its)"

text \<open>\<open>_nodeComment(v)\<close> put at the end of the list, or under the comment \<open>pid\<close> when that is there.\<close>

definition put_item :: "string option \<Rightarrow> jsv \<Rightarrow> string \<Rightarrow> item list \<Rightarrow> item list" where
  "put_item par i html its =
     (if (case par of None \<Rightarrow> True | Some p \<Rightarrow> p \<in> fst ` set its) then
        (case find_item i its of
           Some it \<Rightarrow> remove1 it its @ [(fst it, par, snd (snd it))]
         | None \<Rightarrow> its @ [(to_str i, par, html)])
      else its)"

definition comment_head :: "jsv \<Rightarrow> string" where
  "comment_head cmt =
     ''<div class='' @ quoted ''comment-item'' @ '' id='' @ quoted (''comment-'' @ to_str (fld cmt ''id'')) @
     ''><div class='' @ quoted ''info'' @ ''>''"

definition comment_tail :: "string \<Rightarrow> string" where
  "comment_tail content =
     ''</div><div class='' @ quoted ''content'' @ ''><p class='' @ quoted ''pre'' @ ''>'' @ content @ ''</p></div></div>''"

(* src/pop/fly/js/blog/blog.js:19-41 _nodeComment *)
definition blog_nodeComment :: "jsv \<Rightarrow> js_error + string" where
  "blog_nodeComment cmt = Inr (comment_head cmt @
     span_of ''author'' ((utf8 [230, 157, 165, 232, 135, 170, 32]) @ to_str (fld cmt ''addr'') @ (utf8 [32, 231, 154, 132, 32]) @ to_str (fld cmt ''author'')) @ '' '' @
     span_of ''date'' (to_str (fld cmt ''intime'')) @ (utf8 [32, 232, 175, 180, 32]) @ comment_tail (to_str (fld cmt ''content'')))"

(* src/pop/fly/js/zero/detail.js:22-44 _nodeComment *)
definition detail_nodeComment :: "jsv \<Rightarrow> js_error + string" where
  "detail_nodeComment cmt = Inr (comment_head cmt @
     span_of ''author'' (to_str (fld cmt ''author'')) @ '' '' @
     span_of ''date'' (to_str (fld cmt ''intime'')) @ '' '' @ comment_tail (to_str (fld cmt ''content'')))"

text \<open>Only a string can be stripped.\<close>

(* src/dida/fly/js/bore/bore.js:6-28 _nodeComment *)
definition bore_nodeComment :: "jsv \<Rightarrow> js_error + string" where
  "bore_nodeComment cmt = (case fld cmt ''content'' of
       JStr c \<Rightarrow> Inr (comment_head cmt @
         span_of ''addr'' ((utf8 [230, 157, 165, 232, 135, 170, 32]) @ to_str (fld cmt ''addr'') @ (utf8 [32, 231, 154, 132, 32])) @ '' '' @
         span_of ''author'' (to_str (fld cmt ''author'')) @ '' '' @
         span_of ''date'' (to_str (fld cmt ''intime'')) @ '' '' @ comment_tail (stripHTML c))
     | _ \<Rightarrow> Inl TypeError)"

subsection \<open>The page\<close>

text \<open>
  The field, the panel of its button, the number of comments, and the two nested elements that ask for
  more: the block (\<open>comments-get\<close>), hidden by the template, and the link in it.
\<close>

datatype cm_el = CmText | CmPanel | CmNum | CmMore | CmLink

record comments = "cm_el page" +
  cm_oid :: int
  cm_author :: string
  cm_num :: jsv
  cm_get :: int
  cm_items :: "item list"
  cm_numbox :: bool

text \<open>\<open>e.text(v)\<close> of a value: of \<open>undefined\<close> or an object it only reads.\<close>

definition text_of :: "'i \<Rightarrow> jsv \<Rightarrow> ('i, 'z) page_scheme \<Rightarrow> ('i, 'z) page_scheme" where
  "text_of i v s = (if v = JUndef \<or> v = JNull \<or> \<not> is_prim v then s else on i (set_text (to_str v)) s)"

text \<open>
  \<open>$.each\<close> over the values of an object; the callback answers whether it went through, and one that
  throws ends the loop.
\<close>

fun each_val :: "(jsv \<Rightarrow> 's \<Rightarrow> bool \<times> 's) \<Rightarrow> jsv list \<Rightarrow> 's \<Rightarrow> bool \<times> 's" where
  "each_val f [] s = (True, s)"
| "each_val f (v # vs) s = (case f v s of (False, t) \<Rightarrow> (False, t) | (True, t) \<Rightarrow> each_val f vs t)"

fun obj_vals :: "jsv \<Rightarrow> jsv list" where
  "obj_vals (JObj ps) = map snd ps"
| "obj_vals _ = []"

text \<open>One comment of a reply: its place, then the count; the pages differ in the markup.\<close>

definition take_threaded :: "(jsv \<Rightarrow> js_error + string) \<Rightarrow> jsv \<Rightarrow> comments \<Rightarrow> bool \<times> comments" where
  "take_threaded node v s = (case bind_sum (js_get v ''pid'') (\<lambda>pid. bind_sum (node v) (\<lambda>h. Inr (pid, h))) of
       Inl e \<Rightarrow> (False, raise e s)
     | Inr (pid, h) \<Rightarrow>
         (True, s\<lparr>cm_items := put_item (if loose_eq pid (jint 0) then None else Some (to_str pid)) (fld v ''id'') h (cm_items s),
                  cm_get := cm_get s + 1\<rparr>))"

definition take_flat :: "(jsv \<Rightarrow> js_error + string) \<Rightarrow> jsv \<Rightarrow> comments \<Rightarrow> bool \<times> comments" where
  "take_flat node v s =
     (let s1 = s\<lparr>cm_get := cm_get s + 1\<rparr>
      in case bind_sum (js_get v ''id'') (\<lambda>_. node v) of
           Inl e \<Rightarrow> (False, raise e s1)
         | Inr h \<Rightarrow> (True, s1\<lparr>cm_items := put_item None (fld v ''id'') h (cm_items s1)\<rparr>))"

text \<open>
  The callback of \<open>getComment\<close>, the same on the three pages but for the key of the object's type, the
  name of the total, what is done with that, how a comment is taken and which element is shown.
\<close>

definition comments_reply :: "string \<Rightarrow> string \<Rightarrow> (jsv \<Rightarrow> comments \<Rightarrow> comments) \<Rightarrow>
    (jsv \<Rightarrow> comments \<Rightarrow> bool \<times> comments) \<Rightarrow> cm_el \<Rightarrow> jsv \<Rightarrow> comments \<Rightarrow> comments" where
  "comments_reply type ntt shownum take1 box data s =
     (if data = JUndef \<or> data = JNull then throw s
      else if is_one (fld data ''success'') \<and> is_type ''Object'' (fld data type) then
        (case js_get (fld (fld data type) (int_str (cm_oid s))) ntt of
           Inl e \<Rightarrow> raise e s
         | Inr n \<Rightarrow>
             (let s1 = shownum n (s\<lparr>cm_num := n\<rparr>);
                  cmts = fld (fld (fld data type) (int_str (cm_oid s))) ''cmts''
              in if is_type ''Object'' cmts then
                   (case each_val take1 (obj_vals cmts) s1 of
                      (False, s2) \<Rightarrow> s2
                    | (True, s2) \<Rightarrow> on box (if js_lt (jint (cm_get s2)) (cm_num s2) then show_el else hide_el) s2)
                 else s1))
      else s)"

text \<open>\<open>addComment\<close> and its callback, with the class of messages that is cleared and the one that is shown.\<close>

definition add_comment :: "string \<Rightarrow> int \<Rightarrow> comments \<Rightarrow> comments" where
  "add_comment clear type = when_valid [CmText] (\<lambda>s.
     send POST ''/json/comment''
       [(''_op'', JStr ''add''), (''type'', jint type), (''oid'', jint (cm_oid s)), (''pid'', jint 0),
        (''author'', JStr (cm_author s)), (''content'', JStr (e_val (dom s CmText)))]
       (on CmPanel (panel_begin clear) s))"

definition own_comment :: "string \<Rightarrow> jsv" where
  "own_comment content = JObj [(''id'', jint 0), (''addr'', JStr (utf8 [231, 129, 171, 230, 152, 159])), (''author'', JStr (utf8 [228, 189, 160])),
     (''intime'', JStr (utf8 [229, 136, 154, 229, 136, 154])), (''content'', JStr content)]"

definition count_up :: "comments \<Rightarrow> comments" where
  "count_up s = s\<lparr>cm_num := JNum (case to_num (cm_num s) of Fin q \<Rightarrow> Fin (q + 1) | n \<Rightarrow> n)\<rparr>"

definition prepend_own :: "(jsv \<Rightarrow> js_error + string) \<Rightarrow> string \<Rightarrow> comments \<Rightarrow> comments" where
  "prepend_own node content s = (case node (own_comment content) of
       Inl e \<Rightarrow> raise e s
     | Inr h \<Rightarrow> s\<lparr>cm_items := (''0'', None, h) # cm_items s\<rparr>)"

subsection \<open>blog.js\<close>

(* src/pop/fly/js/blog/blog.js:57-60 getComment *)
definition blog_getComment :: "comments \<Rightarrow> comments" where
  "blog_getComment s = send GET ''/json/comment''
     [(''ids'', JStr (''0:'' @ int_str (cm_oid s))), (''nst'', jint (cm_get s))] s"

(* src/pop/fly/js/blog/blog.js:60-79 getComment, its callback *)
definition blog_getComment_reply :: "jsv \<Rightarrow> comments \<Rightarrow> comments" where
  "blog_getComment_reply = comments_reply ''0'' ''ntt'' (\<lambda>n. text_of CmNum n) (take_threaded blog_nodeComment) CmMore"

(* src/pop/fly/js/blog/blog.js:82-98 addComment *)
definition blog_addComment :: "comments \<Rightarrow> comments" where
  "blog_addComment = add_comment ''error'' 0"

(* src/pop/fly/js/blog/blog.js:99-120 addComment, its callback *)
definition blog_addComment_reply :: "string \<Rightarrow> jsv \<Rightarrow> comments \<Rightarrow> comments" where
  "blog_addComment_reply content data = settle CmPanel data
     (\<lambda>s. let t = count_up s
          in prepend_own blog_nodeComment content (on CmText (set_val '''') (text_of CmNum (cm_num t) t)))
     (add_note CmPanel ''text-error'' (errmsg data))"

subsection \<open>detail.js\<close>

(* src/pop/fly/js/zero/detail.js:60-65 getComment *)
definition detail_getComment :: "comments \<Rightarrow> comments" where
  "detail_getComment s = send GET ''/json/comment''
     [(''ids'', JStr (''1:'' @ int_str (cm_oid s))), (''_nst'', jint (cm_get s))] s"

(* src/pop/fly/js/zero/detail.js:65-77 getComment, its callback *)
definition detail_getComment_reply :: "jsv \<Rightarrow> comments \<Rightarrow> comments" where
  "detail_getComment_reply = comments_reply ''1'' ''_ntt'' (\<lambda>n s. s) (take_flat detail_nodeComment) CmLink"

(* src/pop/fly/js/zero/detail.js:80-95 addComment *)
definition detail_addComment :: "comments \<Rightarrow> comments" where
  "detail_addComment = add_comment ''vres'' 1"

(* src/pop/fly/js/zero/detail.js:96-114 addComment, its callback *)
definition detail_addComment_reply :: "string \<Rightarrow> jsv \<Rightarrow> comments \<Rightarrow> comments" where
  "detail_addComment_reply content data = settle CmPanel data
     (\<lambda>s. prepend_own detail_nodeComment content (on CmText (set_val '''') (count_up s)))
     (add_note CmPanel ''vres'' (errmsg data))"

subsection \<open>bore.js\<close>

(* src/dida/fly/js/bore/bore.js:65-73 getComment *)
definition bore_getComment :: "comments \<Rightarrow> comments" where
  "bore_getComment s = send GET ''/json/comment''
     [(''ids'', JStr (''0:'' @ int_str (cm_oid s))), (''_nst'', jint (cm_get s))] (s\<lparr>cm_numbox := True\<rparr>)"

(* src/dida/fly/js/bore/bore.js:73-92 getComment, its callback *)
definition bore_getComment_reply :: "jsv \<Rightarrow> comments \<Rightarrow> comments" where
  "bore_getComment_reply = comments_reply ''0'' ''_ntt'' (\<lambda>n. text_of CmNum n) (take_threaded bore_nodeComment) CmMore"

(* src/dida/fly/js/bore/bore.js:95-111 addComment *)
definition bore_addComment :: "comments \<Rightarrow> comments" where
  "bore_addComment = add_comment ''error'' 0"

text \<open>The element of the number is looked up by \<open>getComment\<close>; before that it is undefined.\<close>

(* src/dida/fly/js/bore/bore.js:112-133 addComment, its callback *)
definition bore_addComment_reply :: "string \<Rightarrow> jsv \<Rightarrow> comments \<Rightarrow> comments" where
  "bore_addComment_reply content data = settle CmPanel data
     (\<lambda>s. let t = count_up s
          in if \<not> cm_numbox t then throw t
             else prepend_own bore_nodeComment content (on CmText (set_val '''') (text_of CmNum (cm_num t) t)))
     (add_note CmPanel ''text-error'' (errmsg data))"

subsection \<open>blog/index.js and zero.js\<close>

text \<open>The numbers of comments of the posts that are listed; the elements are named by the post's id.\<close>

definition ids_of :: "string \<Rightarrow> jsv list \<Rightarrow> string" where
  "ids_of pre ids = join '','' (map (\<lambda>i. pre @ to_str i) ids)"

(* src/pop/fly/js/blog/index.js:26-36 getCommentNum *)
definition index_getCommentNum :: "jsv list \<Rightarrow> (string, 'z) page_scheme \<Rightarrow> (string, 'z) page_scheme" where
  "index_getCommentNum ids = send GET ''/json/comment'' [(''ids'', JStr (ids_of ''0:'' ids))]"

text \<open>\<open>$.each\<close> over keys and values; a value that has no properties throws and ends it.\<close>

fun each_num :: "string \<Rightarrow> (string \<times> jsv) list \<Rightarrow> (string, 'z) page_scheme \<Rightarrow> (string, 'z) page_scheme" where
  "each_num ntt [] s = s"
| "each_num ntt ((k, v) # ps) s =
     (case js_get v ntt of Inl e \<Rightarrow> raise e s | Inr n \<Rightarrow> each_num ntt ps (text_of (''comment-'' @ k) n s))"

definition comment_nums :: "string \<Rightarrow> string \<Rightarrow> jsv \<Rightarrow> (string, 'z) page_scheme \<Rightarrow> (string, 'z) page_scheme" where
  "comment_nums type ntt data s =
     (if data = JUndef \<or> data = JNull then throw s
      else if is_one (fld data ''success'') \<and> is_type ''Object'' (fld data type) then
        each_num ntt (case fld data type of JObj ps \<Rightarrow> ps | _ \<Rightarrow> []) s
      else s)"

(* src/pop/fly/js/blog/index.js:36-42 getCommentNum, its callback *)
definition index_getCommentNum_reply :: "jsv \<Rightarrow> (string, 'z) page_scheme \<Rightarrow> (string, 'z) page_scheme" where
  "index_getCommentNum_reply = comment_nums ''0'' ''ntt''"

(* src/pop/fly/js/zero/zero.js:44-53 getCommentNum *)
definition zero_getCommentNum :: "jsv list \<Rightarrow> (string, 'z) page_scheme \<Rightarrow> (string, 'z) page_scheme" where
  "zero_getCommentNum ids = send GET ''/json/comment'' [(''ids'', JStr (ids_of ''1:'' ids))]"

(* src/pop/fly/js/zero/zero.js:53-59 getCommentNum, its callback *)
definition zero_getCommentNum_reply :: "jsv \<Rightarrow> (string, 'z) page_scheme \<Rightarrow> (string, 'z) page_scheme" where
  "zero_getCommentNum_reply = comment_nums ''1'' ''_ntt''"

(* src/pop/fly/js/zero/zero.js:9-14 init *)
datatype zero_el = ZrOverlay | ZrTitle | ZrContent | ZrContact | ZrPanel

record zero = "zero_el page" +
  zr_timers :: nat
  zr_reloads :: nat

(* src/pop/fly/js/zero/zero.js:62-75 addImp *)
definition addImp :: "zero \<Rightarrow> zero" where
  "addImp = when_valid [ZrTitle, ZrContent, ZrContact] (\<lambda>s.
     send POST ''/json/zero''
       [(''_op'', JStr ''add''), (''title'', JStr (e_val (dom s ZrTitle))), (''content'', JStr (e_val (dom s ZrContent))),
        (''contact'', JStr (e_val (dom s ZrContact)))]
       (on ZrPanel (panel_begin ''vres'') s))"

(* src/pop/fly/js/zero/zero.js:75-87 addImp, its callback *)
definition addImp_reply :: "jsv \<Rightarrow> zero \<Rightarrow> zero" where
  "addImp_reply data = settle ZrPanel data (\<lambda>s. s\<lparr>zr_timers := Suc (zr_timers s)\<rparr>) (add_note ZrPanel ''vres'' (errmsg data))"

(* src/pop/fly/js/zero/zero.js:79-82 addImp, its timer *)
definition addImp_timer :: "zero \<Rightarrow> zero" where
  "addImp_timer s = (if zr_timers s = 0 then s
     else (on ZrOverlay hide_el s)\<lparr>zr_timers := zr_timers s - 1, zr_reloads := Suc (zr_reloads s)\<rparr>)"

subsection \<open>blog/op.js and bore/op.js\<close>

text \<open>
  Writing, removing and restoring a post and a memory.  \<open>mgd.op\<close> and the id are there only when one is
  edited; a missing id is sent as \<open>undefined\<close>.  The markup editor and the upload are libraries, and the
  answer to the user's confirmation is an argument.
\<close>

(* src/dida/fly/js/bore/op.js:12-17 init *)
datatype op_el = OpTitle | OpHint | OpContent | OpPanel

record op = "op_el page" +
  op_op :: "string option"
  op_id :: jsv
  op_images :: nat
  op_inserted :: "string list"

definition op_name :: "op \<Rightarrow> jsv" where
  "op_name s = JStr (case op_op s of Some x \<Rightarrow> if x = [] then ''add'' else x | None \<Rightarrow> ''add'')"

(* src/pop/fly/js/blog/op.js:29-41 blogOp *)
definition blogOp :: "op \<Rightarrow> op" where
  "blogOp = when_valid [OpTitle, OpContent] (\<lambda>s.
     send POST ''/json/blog''
       [(''_op'', op_name s), (''bid'', op_id s), (''title'', JStr (e_val (dom s OpTitle))),
        (''content'', JStr (e_val (dom s OpContent)))]
       (on OpPanel (panel_begin ''error'') s))"

(* src/pop/fly/js/blog/op.js:41-52 blogOp, its callback *)
definition blogOp_reply :: "jsv \<Rightarrow> op \<Rightarrow> op" where
  "blogOp_reply data = settle OpPanel data
     (\<lambda>s. on OpContent (set_val '''') (on OpTitle (set_val '''') s)) (add_note OpPanel ''text-error'' (errmsg data))"

(* src/pop/fly/js/blog/op.js:55-67 blogDel *)
definition blogDel :: "bool \<Rightarrow> int \<Rightarrow> op \<Rightarrow> op" where
  "blogDel confirmed state s =
     (if confirmed then
        send GET ''/json/blog'' [(''_op'', JStr ''del''), (''bid'', op_id s), (''state'', jint state)]
          (on OpPanel (panel_begin ''error'') s)
      else s)"

(* src/pop/fly/js/blog/op.js:67-75 blogDel, its callback *)
definition blogDel_reply :: "jsv \<Rightarrow> op \<Rightarrow> op" where
  "blogDel_reply data = settle OpPanel data (\<lambda>s. s) (add_note OpPanel ''text-error'' (errmsg data))"

(* src/dida/fly/js/bore/op.js:59-78 boreOp *)
definition boreOp :: "op \<Rightarrow> op" where
  "boreOp = when_valid [OpTitle, OpHint, OpContent] (\<lambda>s.
     send POST ''/json/bore/op''
       [(''_op'', op_name s), (''id'', op_id s), (''title'', JStr (e_val (dom s OpTitle))),
        (''hint'', JStr (e_val (dom s OpHint))), (''content'', JStr (e_val (dom s OpContent)))]
       (on OpPanel (panel_begin ''error'') s))"

(* src/dida/fly/js/bore/op.js:78-89 boreOp, its callback *)
definition boreOp_reply :: "jsv \<Rightarrow> op \<Rightarrow> op" where
  "boreOp_reply data = settle OpPanel data
     (\<lambda>s. on OpContent (set_val '''') (on OpHint (set_val '''') (on OpTitle (set_val '''') s)))
     (add_note OpPanel ''text-error'' (errmsg data))"

(* src/dida/fly/js/bore/op.js:92-106 boreDel *)
definition boreDel :: "bool \<Rightarrow> int \<Rightarrow> op \<Rightarrow> op" where
  "boreDel confirmed statu s =
     (if confirmed then
        send GET ''/json/bore/op'' [(''_op'', JStr ''mod''), (''id'', op_id s), (''statu'', jint statu)]
          (on OpPanel (panel_begin ''error'') s)
      else s)"

(* src/dida/fly/js/bore/op.js:106-115 boreDel, its callback *)
definition boreDel_reply :: "jsv \<Rightarrow> op \<Rightarrow> op" where
  "boreDel_reply data = settle OpPanel data (\<lambda>s. s) (add_note OpPanel ''text-error'' (errmsg data))"

text \<open>The reply of the upload, parsed: the markup of the image, or an alert.\<close>

(* src/dida/fly/js/bore/op.js:32-42 onready, the upload *)
definition afterUpload :: "jsv \<Rightarrow> op \<Rightarrow> op" where
  "afterUpload data s =
     (if data = JUndef \<or> data = JNull then throw s
      else if is_one (fld data ''success'') then
        (let n = Suc (op_images s); nl = [CHR 0x0A]
         in s\<lparr>op_images := n,
              op_inserted := op_inserted s @
                [nl @ ''[!['' @ (utf8 [229, 155, 190, 231, 137, 135]) @ nat_str n @ '']('' @ to_str (fld data ''imageurl_zoom'') @ '' '' @
                 quoted (to_str (fld data ''imagename'')) @ '')]('' @ to_str (fld data ''imageurl'') @ '' '' @
                 quoted (utf8 [231, 130, 185, 229, 135, 187, 230, 159, 165, 231, 156, 139, 229, 142, 159, 229, 155, 190]) @ '')'' @ nl]\<rparr>)
      else alert (errmsg_or data (utf8 [228, 184, 138, 228, 188, 160, 229, 155, 190, 231, 137, 135, 229, 164, 177, 232, 180, 165])) s)"

subsection \<open>Lemmas: the forms\<close>

lemma cm_more_on [simp]:
  "cm_items (on i f s) = cm_items s" "cm_get (on i f s) = cm_get s" "cm_num (on i f s) = cm_num s"
  "cm_oid (on i f s) = cm_oid s" "cm_numbox (on i f s) = cm_numbox s"
  by (simp_all add: on_def)

lemma all_ready_while:
  assumes "\<And>s d. rdy s \<Longrightarrow> P d \<Longrightarrow> rdy (reply d (submit s))" "\<And>d. P d \<Longrightarrow> valid d"
  shows "rdy s \<Longrightarrow> list_all P ds \<Longrightarrow> all_ready rdy valid submit reply ds s"
  by (induction ds arbitrary: s) (simp_all add: assms)

definition refused :: "jsv \<Rightarrow> bool" where
  "refused d \<longleftrightarrow> is_reply d \<and> \<not> success d"

lemma settle_refused:
  "refused d \<Longrightarrow> settle p d yes no s = no (on p (add_class ''error'') (on p (remove_class ''loading'') s))"
  by (simp add: settle_def refused_def is_reply_def success_def Let_def)

definition error_note :: "string \<Rightarrow> jsv \<Rightarrow> (string \<times> string) list" where
  "error_note c d = (if success d then [] else [(c, errmsg d)])"

lemma field_ok_settle_refused:
  "refused d \<Longrightarrow> i \<noteq> p \<Longrightarrow> dom (settle p d yes (add_note p c m) s) i = dom s i"
  by (simp add: settle_refused)

interpretation blogop: form_panel "\<lambda>s. dom s OpPanel" "''error''" "ready [OpTitle, OpContent]" blogOp blogOp_reply
    is_reply success "error_note ''text-error''"
  by unfold_locales
    (auto simp: blogOp_def blogOp_reply_def form_submit_panel settle_panel [where ys = "[]"] error_note_def)

interpretation boreop: form_panel "\<lambda>s. dom s OpPanel" "''error''" "ready [OpTitle, OpHint, OpContent]" boreOp boreOp_reply
    is_reply success "error_note ''text-error''"
  by unfold_locales
    (auto simp: boreOp_def boreOp_reply_def form_submit_panel settle_panel [where ys = "[]"] error_note_def)

interpretation addimp: form_panel "\<lambda>s. dom s ZrPanel" "''vres''" "ready [ZrTitle, ZrContent, ZrContact]" addImp addImp_reply
    is_reply success "error_note ''vres''"
  by unfold_locales
    (auto simp: addImp_def addImp_reply_def form_submit_panel settle_panel [where ys = "[]"] error_note_def)

lemma text_of_dom: "q \<noteq> i \<Longrightarrow> dom (text_of i v s) q = dom s q"
  by (simp add: text_of_def)

lemma prepend_own_dom [simp]: "dom (prepend_own node c s) = dom s"
  by (simp add: prepend_own_def raise_def split: sum.splits)

lemma count_up_dom [simp]: "dom (count_up s) = dom s"
  by (simp add: count_up_def)

interpretation blogcomment: form_panel "\<lambda>s. dom s CmPanel" "''error''" "ready [CmText]" blog_addComment
    "blog_addComment_reply content" is_reply success "error_note ''text-error''"
  by unfold_locales
    (auto simp: blog_addComment_def add_comment_def blog_addComment_reply_def form_submit_panel
      settle_panel [where ys = "[]"] error_note_def text_of_dom Let_def)

interpretation detailcomment: form_panel "\<lambda>s. dom s CmPanel" "''vres''" "ready [CmText]" detail_addComment
    "detail_addComment_reply content" is_reply success "error_note ''vres''"
  by unfold_locales
    (auto simp: detail_addComment_def add_comment_def detail_addComment_reply_def form_submit_panel
      settle_panel [where ys = "[]"] error_note_def)

lemma refused_msgs: "list_all refused ds \<Longrightarrow> concat (map (error_note c) ds) = map (\<lambda>d. (c, errmsg d)) ds"
  by (induction ds) (auto simp: error_note_def refused_def)

text \<open>A refusal leaves the field as it is, so the form stays ready.\<close>

lemma ready_field: "(\<And>i. i \<in> set vals \<Longrightarrow> field_ok (dom t i) = field_ok (dom s i)) \<Longrightarrow> ready vals t = ready vals s"
  by (simp add: ready_def)

lemma fold_mark_ok [simp]: "field_ok (dom (fold (\<lambda>i. on i mark_valid) is s) j) = field_ok (dom s j)"
  by (induction "is" arbitrary: s) simp_all

lemma blog_refused_ready:
  "ready [CmText] s \<Longrightarrow> refused d \<Longrightarrow> ready [CmText] (blog_addComment_reply c d (blog_addComment s))"
  using fold_mark_ok [of "[CmText]" s CmText]
  by (simp add: blog_addComment_reply_def settle_refused blog_addComment_def add_comment_def when_valid_ready ready_def)

lemma detail_refused_ready:
  "ready [CmText] s \<Longrightarrow> refused d \<Longrightarrow> ready [CmText] (detail_addComment_reply c d (detail_addComment s))"
  using fold_mark_ok [of "[CmText]" s CmText]
  by (simp add: detail_addComment_reply_def settle_refused detail_addComment_def add_comment_def when_valid_ready ready_def)

text \<open>
  A comment that is refused again and again: on the page of a post the messages pile up, because
  the form clears the class \<open>error\<close> and shows the class \<open>text-error\<close>; on the page of a question only
  the last one is left.
\<close>

theorem refusals_pile_up:
  assumes "ready [CmText] s" "list_all refused (ds @ [d])" "e_kids (dom s CmPanel) = []"
  shows "e_kids (dom (exchanges blog_addComment (blog_addComment_reply c) (ds @ [d]) s) CmPanel) =
           map (\<lambda>d. (''text-error'', errmsg d)) (ds @ [d]) \<and>
         e_kids (dom (exchanges detail_addComment (detail_addComment_reply c) (ds @ [d]) s) CmPanel) =
           [(''vres'', errmsg d)]"
proof
  have v: "refused d \<Longrightarrow> is_reply d" for d by (simp add: refused_def)
  have rb: "all_ready (ready [CmText]) is_reply blog_addComment (blog_addComment_reply c) (ds @ [d]) s"
    using assms(1,2) by (intro all_ready_while [where P = refused]) (simp_all add: blog_refused_ready v)
  have rd: "all_ready (ready [CmText]) is_reply detail_addComment (detail_addComment_reply c) (ds @ [d]) s"
    using assms(1,2) by (intro all_ready_while [where P = refused]) (simp_all add: detail_refused_ready v)
  show "e_kids (dom (exchanges blog_addComment (blog_addComment_reply c) (ds @ [d]) s) CmPanel) =
      map (\<lambda>d. (''text-error'', errmsg d)) (ds @ [d])"
    using blogcomment.attempts_pile_up [OF _ _ rb] assms refused_msgs [OF assms(2), of "''text-error''"]
    by (simp add: error_note_def)
  have "e_kids (dom (exchanges detail_addComment (detail_addComment_reply c) (ds @ [d]) s) CmPanel) = error_note ''vres'' d"
    by (rule detailcomment.attempts_cleared [OF _ rd]) (auto simp: error_note_def assms(3))
  then show "e_kids (dom (exchanges detail_addComment (detail_addComment_reply c) (ds @ [d]) s) CmPanel) =
      [(''vres'', errmsg d)]"
    using assms(2) by (simp add: error_note_def refused_def)
qed

definition cm_start :: "string \<Rightarrow> comments" where
  "cm_start v = \<lparr>dom = (\<lambda>i. case i of CmText \<Rightarrow> blank\<lparr>e_val := v, e_cls := {''vrequire''}\<rparr>
       | CmMore \<Rightarrow> blank\<lparr>e_shown := False\<rparr> | _ \<Rightarrow> blank),
     reqs = [], alerts = [], thrown = [], cm_oid = 7, cm_author = ''guest'', cm_num = jint 0, cm_get = 0,
     cm_items = [], cm_numbox = False\<rparr>"

definition refusal :: "string \<Rightarrow> jsv" where
  "refusal m = JObj [(''success'', jint 0), (''errmsg'', JStr m)]"

lemma refused_refusal [simp]: "refused (refusal m)" "errmsg (refusal m) = m"
  by (simp_all add: refused_def refusal_def is_reply_def success_def errmsg_def)

lemma refusals_pile_up_witness:
  "e_kids (dom (exchanges blog_addComment (blog_addComment_reply ''hi'') [refusal ''busy'', refusal ''again''] (cm_start ''hi'')) CmPanel) =
     [(''text-error'', ''busy''), (''text-error'', ''again'')]"
proof -
  have "ready [CmText] (cm_start ''hi'')" 
    by (simp add: ready_def cm_start_def field_ok_def len_ok_def blank_def class_rules_def)
  moreover have "e_kids (dom (cm_start ''hi'') CmPanel) = []" by (simp add: cm_start_def blank_def)
  ultimately show ?thesis
    using refusals_pile_up [of "cm_start ''hi''" "[refusal ''busy'']" "refusal ''again''" "''hi''"]
    by (simp del: exchanges.simps)
qed

subsection \<open>Lemmas: taking comments\<close>

lemma int_str_inj: "int_str a = int_str b \<longleftrightarrow> a = b"
proof
  assume "int_str a = int_str b"
  then have "parseInt (int_str a) = parseInt (int_str b)" by simp
  then show "a = b" by simp
qed simp

lemma loose_eq_jint [simp]: "loose_eq (jint a) (jint b) \<longleftrightarrow> a = b"
  by (simp add: jint_def)

lemma to_str_jint [simp]: "to_str (jint n) = int_str n"
  by (simp add: jint_def)

text \<open>A comment as the server sends it: its id, which is not 0, no parent, and its other fields.\<close>

definition comment_obj :: "int \<times> (string \<times> jsv) list \<Rightarrow> jsv" where
  "comment_obj = (\<lambda>(n, fs). JObj ((''id'', jint n) # (''pid'', jint 0) # fs))"

definition keys :: "item list \<Rightarrow> string list" where
  "keys its = map fst its"

lemma put_item_root_keys:
  assumes "n \<noteq> 0" "distinct (keys its)"
  shows "distinct (keys (put_item None (jint n) h its)) \<and>
     set (keys (put_item None (jint n) h its)) = insert (int_str n) (set (keys its))"
proof (cases "find (\<lambda>it. fst it = int_str n) its")
  case None
  then have "int_str n \<notin> set (keys its)" by (auto simp: keys_def find_None_iff)
  then show ?thesis using None assms
    by (auto simp: put_item_def find_item_def keys_def)
next
  case (Some it)
  then have it: "it \<in> set its" "fst it = int_str n"
    by (auto simp: find_Some_iff)
  have "keys (remove1 it its) = remove1 (fst it) (keys its)"
    using assms(2) it(1)
  proof (induction its)
    case Nil
    then show ?case by simp
  next
    case (Cons x xs)
    then show ?case by (auto simp: keys_def rev_image_eqI)
  qed
  then have "keys (remove1 it its @ [(fst it, None, snd (snd it))]) = remove1 (int_str n) (keys its) @ [int_str n]"
    using it(2) by (simp add: keys_def)
  moreover have "int_str n \<in> set (keys its)" using it by (force simp: keys_def)
  ultimately show ?thesis using Some assms it(2)
    by (auto simp: put_item_def find_item_def)
qed

lemma take_threaded_obj:
  "fst c \<noteq> 0 \<Longrightarrow> take_threaded blog_nodeComment (comment_obj c) s =
     (True, s\<lparr>cm_items := put_item None (jint (fst c)) (projr (blog_nodeComment (comment_obj c))) (cm_items s),
              cm_get := cm_get s + 1\<rparr>)"
  by (cases c) (simp add: take_threaded_def comment_obj_def blog_nodeComment_def)

lemma each_take:
  assumes "\<forall>c \<in> set cs. fst c \<noteq> 0" "distinct (keys (cm_items s))"
  shows "\<exists>its. each_val (take_threaded blog_nodeComment) (map comment_obj cs) s =
      (True, s\<lparr>cm_items := its, cm_get := cm_get s + int (length cs)\<rparr>) \<and>
    distinct (keys its) \<and> set (keys its) = set (keys (cm_items s)) \<union> (int_str \<circ> fst) ` set cs"
  using assms
proof (induction cs arbitrary: s)
  case Nil
  then show ?case by (intro exI [of _ "cm_items s"]) simp
next
  case (Cons c cs)
  define s1 where "s1 = s\<lparr>cm_items := put_item None (jint (fst c)) (projr (blog_nodeComment (comment_obj c))) (cm_items s),
      cm_get := cm_get s + 1\<rparr>"
  have c: "fst c \<noteq> 0" using Cons.prems by simp
  note k = put_item_root_keys [OF c Cons.prems(2)]
  from Cons.IH [of s1] Cons.prems k obtain its where
    "each_val (take_threaded blog_nodeComment) (map comment_obj cs) s1 =
      (True, s1\<lparr>cm_items := its, cm_get := cm_get s1 + int (length cs)\<rparr>)"
    "distinct (keys its)" "set (keys its) = set (keys (cm_items s1)) \<union> (int_str \<circ> fst) ` set cs"
    by (auto simp: s1_def)
  then show ?case using k
    by (intro exI [of _ its]) (auto simp: take_threaded_obj [OF c] s1_def [symmetric], simp_all add: s1_def)
qed

text \<open>A page of comments as the server answers it.\<close>

definition comment_page :: "string \<Rightarrow> string \<Rightarrow> int \<Rightarrow> int \<Rightarrow> (int \<times> (string \<times> jsv) list) list \<Rightarrow> jsv" where
  "comment_page type ntt oid all cs =
     JObj [(''success'', jint 1), (type, JObj [(int_str oid, JObj [(ntt, jint all),
       (''cmts'', JObj (map (\<lambda>c. (int_str (fst c), comment_obj c)) cs))])])]"

lemma blog_page_reply:
  assumes "\<forall>c \<in> set cs. fst c \<noteq> 0" "distinct (keys (cm_items s))" "oid = cm_oid s"
  shows "\<exists>its. blog_getComment_reply (comment_page ''0'' ''ntt'' oid all cs) s =
      on CmMore (if cm_get s + int (length cs) < all then show_el else hide_el)
        (on CmNum (set_text (int_str all)) (s\<lparr>cm_num := jint all, cm_items := its, cm_get := cm_get s + int (length cs)\<rparr>)) \<and>
    distinct (keys its) \<and> set (keys its) = set (keys (cm_items s)) \<union> (int_str \<circ> fst) ` set cs"
proof -
  define s1 where "s1 = text_of CmNum (jint all) (s\<lparr>cm_num := jint all\<rparr>)"
  have f: "cm_items s1 = cm_items s" "cm_get s1 = cm_get s" "cm_num s1 = jint all"
    by (simp_all add: s1_def text_of_def)
  obtain its where its: "each_val (take_threaded blog_nodeComment) (map comment_obj cs) s1 =
      (True, s1\<lparr>cm_items := its, cm_get := cm_get s1 + int (length cs)\<rparr>)"
    "distinct (keys its)" "set (keys its) = set (keys (cm_items s1)) \<union> (int_str \<circ> fst) ` set cs"
    using each_take [of cs s1] assms f by auto
  have lt: "js_lt (jint a) (jint b) \<longleftrightarrow> a < b" for a b by (simp add: js_lt_def jint_def)
  have "blog_getComment_reply (comment_page ''0'' ''ntt'' oid all cs) s =
      on CmMore (if cm_get s + int (length cs) < all then show_el else hide_el)
        (s1\<lparr>cm_items := its, cm_get := cm_get s + int (length cs)\<rparr>)"
    using its(1) assms(3) f
    by (simp add: blog_getComment_reply_def comments_reply_def comment_page_def s1_def [symmetric] comp_def Let_def lt)
  moreover have "s1\<lparr>cm_items := its, cm_get := cm_get s + int (length cs)\<rparr> =
      on CmNum (set_text (int_str all)) (s\<lparr>cm_num := jint all, cm_items := its, cm_get := cm_get s + int (length cs)\<rparr>)"
    by (simp add: s1_def text_of_def on_def jint_def)
  ultimately show ?thesis using its(2,3) f by auto
qed

text \<open>
  Two clicks on the link for more comments before the first reply: both requests ask for the
  comments after the same one, so both replies carry the same comments. The second reply only moves
  them, each is on the page once, but it counts them again; and the link is hidden as soon as the
  doubled count reaches the total, with comments left that cannot be asked for any more.
\<close>

theorem overlapping_comment_pages:
  fixes all :: int
  assumes "\<forall>c \<in> set cs. fst c \<noteq> 0" "distinct (map fst (cm_items s))"
  defines "t \<equiv> blog_getComment (blog_getComment s)"
    and "r \<equiv> comment_page ''0'' ''ntt'' (cm_oid s) all cs"
  defines "u \<equiv> blog_getComment_reply r (blog_getComment_reply r t)"
  shows "(\<exists>q. reqs t = reqs s @ [q, q]) \<and>
     distinct (map fst (cm_items u)) \<and> fst ` set (cm_items u) = fst ` set (cm_items s) \<union> (int_str \<circ> fst) ` set cs \<and>
     cm_get u = cm_get s + 2 * int (length cs) \<and>
     (e_shown (dom u CmMore) \<longleftrightarrow> cm_get s + 2 * int (length cs) < all)"
proof -
  have ft: "cm_items t = cm_items s" "cm_get t = cm_get s" "cm_oid t = cm_oid s"
    "\<exists>q. reqs t = reqs s @ [q, q]"
    by (simp_all add: t_def blog_getComment_def send_def)
  obtain its where 1: "blog_getComment_reply r t =
      on CmMore (if cm_get s + int (length cs) < all then show_el else hide_el)
        (on CmNum (set_text (int_str all)) (t\<lparr>cm_num := jint all, cm_items := its, cm_get := cm_get s + int (length cs)\<rparr>))"
    "distinct (keys its)" "set (keys its) = set (keys (cm_items s)) \<union> (int_str \<circ> fst) ` set cs"
    using blog_page_reply [of cs t "cm_oid s" all] assms(1,2) ft by (auto simp: r_def keys_def)
  define v where "v = blog_getComment_reply r t"
  have fv: "cm_items v = its" "cm_get v = cm_get s + int (length cs)" "cm_oid v = cm_oid s"
    by (simp_all add: v_def 1(1) ft)
  have uv: "u = blog_getComment_reply r v" by (simp add: u_def v_def)
  obtain its' where 2: "u =
      on CmMore (if cm_get v + int (length cs) < all then show_el else hide_el)
        (on CmNum (set_text (int_str all)) (v\<lparr>cm_num := jint all, cm_items := its', cm_get := cm_get v + int (length cs)\<rparr>))"
    "distinct (keys its')" "set (keys its') = set (keys its) \<union> (int_str \<circ> fst) ` set cs"
    using blog_page_reply [of cs v "cm_oid s" all] assms(1) 1(2) fv unfolding uv r_def by auto
  have "cm_items u = its'" "cm_get u = cm_get s + 2 * int (length cs)"
    "e_shown (dom u CmMore) \<longleftrightarrow> cm_get s + 2 * int (length cs) < all"
    by (simp_all add: 2(1) fv show_el_def hide_el_def algebra_simps)
  then show ?thesis using ft(4) 1(3) 2(2,3) by (auto simp: keys_def)
qed

lemma overlapping_comment_pages_witness:
  "let t = blog_getComment (blog_getComment (cm_start ''''));
       r = comment_page ''0'' ''ntt'' 7 4 [(1, []), (2, [])];
       u = blog_getComment_reply r (blog_getComment_reply r t)
   in length (cm_items u) = 2 \<and> cm_get u = 4 \<and> \<not> e_shown (dom u CmMore)"
proof -
  define u where "u = blog_getComment_reply (comment_page ''0'' ''ntt'' 7 4 [(1, []), (2, [])])
      (blog_getComment_reply (comment_page ''0'' ''ntt'' 7 4 [(1, []), (2, [])])
        (blog_getComment (blog_getComment (cm_start ''''))))"
  have o: "cm_oid (cm_start '''') = 7" "cm_get (cm_start '''') = 0" "cm_items (cm_start '''') = []"
    by (simp_all add: cm_start_def)
  have d: "distinct (map fst (cm_items u))" "fst ` set (cm_items u) = {int_str 1, int_str 2}"
    "cm_get u = 4" "\<not> e_shown (dom u CmMore)"
    using overlapping_comment_pages [of "[(1, []), (2, [])]" "cm_start ''''" 4, unfolded o, folded u_def]
    by simp_all
  have "length (cm_items u) = card (set (map fst (cm_items u)))"
    using distinct_card [OF d(1)] by simp
  also have "\<dots> = 2" unfolding set_map d(2) by (simp add: int_str_inj)
  finally show ?thesis unfolding Let_def u_def [symmetric] using d(3,4) by simp
qed

subsection \<open>The page of a question as a machine\<close>

datatype cm_event = CmType string | CmGet | CmPage jsv | CmAdd | CmAdded string jsv

fun detail_step :: "cm_event \<Rightarrow> comments \<Rightarrow> comments" where
  "detail_step (CmType v) s = on CmText (set_val v) s"
| "detail_step CmGet s = detail_getComment s"
| "detail_step (CmPage d) s = detail_getComment_reply d s"
| "detail_step CmAdd s = detail_addComment s"
| "detail_step (CmAdded c d) s = detail_addComment_reply c d s"

lemma each_flat_dom: "dom (snd (each_val (take_flat node) vs s)) = dom s"
proof (induction vs arbitrary: s)
  case (Cons v vs)
  then show ?case by (auto simp: take_flat_def Let_def raise_def split: sum.splits prod.splits bool.splits)
qed simp

lemma detail_step_more: "dom (detail_step e s) CmMore = dom s CmMore"
proof (cases e)
  case (CmPage d)
  have t: "each_val (take_flat detail_nodeComment) vs s' = (b, t) \<Longrightarrow> dom t = dom s'" for vs s' b t
    using each_flat_dom by (metis snd_conv)
  show ?thesis
    by (auto simp: CmPage detail_getComment_reply_def comments_reply_def Let_def raise_def throw_def
        dest!: t split: sum.splits prod.splits bool.splits)
next
  case CmAdd
  then show ?thesis
    by (simp add: detail_addComment_def add_comment_def when_valid_ready fold_mark_dom inputval_other)
qed (simp_all add: detail_getComment_def detail_addComment_reply_def settle_other)

interpretation detail_page: machine detail_step "\<lambda>s. \<not> e_shown (dom s CmMore)"
  by unfold_locales (simp add: detail_step_more)

lemma js_lt_undef [simp]: "\<not> js_lt (jint a) JUndef"
  by (simp add: js_lt_def jint_def)

text \<open>
  More comments are never offered. On the page of a question the script shows and hides the link,
  but never the block around it, which the template hides, so nothing that happens shows it. On the
  page of a post the total is read under the name \<open>ntt\<close>, while the server answers \<open>_ntt\<close>, as the other
  two pages read it: the total stays undefined and every page of comments hides the block.
\<close>

theorem more_comments_never_offered:
  assumes "\<not> e_shown (dom s CmMore)"
  shows "\<not> e_shown (dom (fold detail_step es s) CmMore) \<and>
     (\<forall>n cs. (\<forall>c \<in> set cs. fst c \<noteq> 0) \<and> distinct (map fst (cm_items s)) \<longrightarrow>
        (let t = blog_getComment_reply (comment_page ''0'' ''_ntt'' (cm_oid s) n cs) s
         in cm_num t = JUndef \<and> cm_get t = cm_get s + int (length cs) \<and> \<not> e_shown (dom t CmMore)))"
proof (intro conjI allI impI)
  show "\<not> e_shown (dom (fold detail_step es s) CmMore)" by (rule detail_page.run_inv [OF assms])
next
  fix n :: int and cs :: "(int \<times> (string \<times> jsv) list) list"
  assume cs: "(\<forall>c \<in> set cs. fst c \<noteq> 0) \<and> distinct (map fst (cm_items s))"
  define s1 where "s1 = s\<lparr>cm_num := JUndef\<rparr>"
  obtain its where "each_val (take_threaded blog_nodeComment) (map comment_obj cs) s1 =
      (True, s1\<lparr>cm_items := its, cm_get := cm_get s1 + int (length cs)\<rparr>)"
    using each_take [of cs s1] cs by (auto simp: s1_def keys_def)
  then have "blog_getComment_reply (comment_page ''0'' ''_ntt'' (cm_oid s) n cs) s =
      on CmMore hide_el (s1\<lparr>cm_items := its, cm_get := cm_get s1 + int (length cs)\<rparr>)"
    by (simp add: blog_getComment_reply_def comments_reply_def comment_page_def s1_def text_of_def comp_def Let_def)
  then show "let t = blog_getComment_reply (comment_page ''0'' ''_ntt'' (cm_oid s) n cs) s
         in cm_num t = JUndef \<and> cm_get t = cm_get s + int (length cs) \<and> \<not> e_shown (dom t CmMore)"
    by (simp add: s1_def hide_el_def)
qed

lemma more_comments_never_offered_witness:
  "\<not> e_shown (dom (detail_getComment_reply (comment_page ''1'' ''_ntt'' 7 30 [(1, []), (2, [])]) (cm_start '''')) CmMore)"
  using more_comments_never_offered [of "cm_start ''''" "[CmPage (comment_page ''1'' ''_ntt'' 7 30 [(1, []), (2, [])])]"]
  by (simp add: cm_start_def)

end
