(* ===== verification/Gb2312.thy ===== *)
theory Gb2312
  imports Md5_Correct JsValue
begin

text \<open>
  \<open>lib/js/GB2312UTF8.js\<close>: a text as the percent-escaped bytes of UTF-8, by way of \<open>escape\<close> and strings
  of binary digits, and back.  Texts are lists of UTF-16 code units; the strings of digits and the
  output of \<open>escape\<close>, which are ASCII, are strings.  \<open>eval\<close> is only given decimal digits.
\<close>

abbreviation units :: "string \<Rightarrow> jstr" where
  "units \<equiv> jstr_of"

lemmas units_def = jstr_of_def

subsection \<open>Digits\<close>

(* src/lib/js/GB2312UTF8.js:2-11 Dig2Dec *)
definition Dig2Dec :: "string \<Rightarrow> int" where
  "Dig2Dec s =
     (if length s = 4 then foldl (\<lambda>r i. r + int (digit_val (s ! i)) * 2 ^ (3 - i)) 0 [0..<4] else -1)"

definition hex_upper :: string where
  "hex_upper = ''0123456789ABCDEF''"

text \<open>\<open>sss.charAt(n)\<close>\<close>

definition char_at :: "string \<Rightarrow> int \<Rightarrow> string" where
  "char_at s n = (if 0 \<le> n \<and> nat n < length s then [s ! nat n] else [])"

definition substring :: "nat \<Rightarrow> nat \<Rightarrow> 'a list \<Rightarrow> 'a list" where
  "substring a b s = take (b - a) (drop a s)"

(* src/lib/js/GB2312UTF8.js:12-31 Hex2Utf8 *)
definition Hex2Utf8 :: "string \<Rightarrow> string" where
  "Hex2Utf8 s =
     (if length s = 16 then
        (let tempS = ''1110'' @ substring 0 4 s @ ''10'' @ substring 4 10 s @ ''10'' @ substring 10 16 s
         in concat (map (\<lambda>i. let ss = substring (i * 8) ((i + 1) * 8) tempS
              in ''%'' @ char_at hex_upper (Dig2Dec (substring 0 4 ss)) @ char_at hex_upper (Dig2Dec (substring 4 8 ss)))
            [0..<3]))
      else '''')"

(* src/lib/js/GB2312UTF8.js:32-45 Dec2Dig *)
definition Dec2Dig :: "int \<Rightarrow> string" where
  "Dec2Dig n1 = snd (foldl (\<lambda>(n, s) i. let n2 = 2 ^ (3 - i)
     in if n \<ge> n2 then (n - n2, s @ ''1'') else (n, s @ ''0'')) (n1, '''') [0..<4])"

fun index_from :: "int \<Rightarrow> char \<Rightarrow> string \<Rightarrow> int" where
  "index_from i c [] = -1"
| "index_from i c (x # xs) = (if x = c then i else index_from (i + 1) c xs)"

(* src/lib/js/GB2312UTF8.js:47-58 Str2Hex *)
definition Str2Hex :: "string \<Rightarrow> string" where
  "Str2Hex s = concat (map (\<lambda>c. Dec2Dig (index_from 0 c hex_upper)) s)"

subsection \<open>escape and unescape\<close>

definition hex_digit :: "nat \<Rightarrow> char" where
  "hex_digit d = hex_upper ! d"

definition unreserved :: "16 word \<Rightarrow> bool" where
  "unreserved w \<longleftrightarrow> (let n = unat w in 48 \<le> n \<and> n \<le> 57 \<or> 65 \<le> n \<and> n \<le> 90 \<or> 97 \<le> n \<and> n \<le> 122 \<or>
     n \<in> {42, 43, 45, 46, 47, 64, 95})"

definition escape_unit :: "16 word \<Rightarrow> string" where
  "escape_unit w = (let n = unat w in
     if unreserved w then [char_of n]
     else if n < 256 then [CHR ''%'', hex_digit (n div 16), hex_digit (n mod 16)]
     else [CHR ''%'', CHR ''u'', hex_digit (n div 4096), hex_digit (n div 256 mod 16),
           hex_digit (n div 16 mod 16), hex_digit (n mod 16)])"

definition escape :: "jstr \<Rightarrow> string" where
  "escape s = concat (map escape_unit s)"

fun unescape :: "string \<Rightarrow> jstr" where
  "unescape [] = []"
| "unescape (c # s) =
     (if c = CHR ''%'' then
        (case s of
           d1 # a # b # c' # d # r \<Rightarrow>
             if d1 = CHR ''u'' \<and> is_hex a \<and> is_hex b \<and> is_hex c' \<and> is_hex d
             then of_nat (hexs_val [a, b, c', d]) # unescape r
             else if is_hex d1 \<and> is_hex a then of_nat (hexs_val [d1, a]) # unescape (b # c' # d # r)
             else of_nat (byte c) # unescape s
         | d1 # a # r \<Rightarrow>
             if is_hex d1 \<and> is_hex a then of_nat (hexs_val [d1, a]) # unescape r
             else of_nat (byte c) # unescape s
         | _ \<Rightarrow> of_nat (byte c) # unescape s)
      else of_nat (byte c) # unescape s)"

subsection \<open>To UTF-8 and back\<close>

text \<open>One piece between the percent signs of the escaped text.\<close>

(* src/lib/js/GB2312UTF8.js:66-79 Gb2312ToUtf8, one piece *)
definition piece :: "string \<Rightarrow> jstr" where
  "piece p =
     (if take 1 p = ''u'' then
        units (Hex2Utf8 (Str2Hex (substring 1 5 p))) @ (if p \<noteq> [] then units (drop 5 p) else [])
      else unescape (''%'' @ p) @ (if p \<noteq> [] then units (drop 5 p) else []))"

(* src/lib/js/GB2312UTF8.js:59-82 Gb2312ToUtf8 *)
definition Gb2312ToUtf8 :: "jstr \<Rightarrow> jstr" where
  "Gb2312ToUtf8 s1 =
     (let sa = split_on (CHR ''%'') (escape s1)
      in units (hd sa) @ concat (map piece (tl sa)))"

text \<open>\<open>parseInt("0x" + a)\<close> under a bitwise operator, where \<open>NaN\<close> counts as 0.\<close>

definition hex_unit :: "16 word \<Rightarrow> bool" where
  "hex_unit w \<longleftrightarrow> unat w < 128 \<and> is_hex (char_of (unat w))"

definition parse_hex :: "jstr \<Rightarrow> int" where
  "parse_hex a = int (hexs_val (map (\<lambda>w. char_of (unat w)) (takeWhile hex_unit a)))"

definition pct :: "16 word" where
  "pct = 0x25"

text \<open>
  One round at a percent sign in the first three places.  The conditions are as they are written:
  \<open>==\<close> binds tighter than \<open>&\<close>, so the operand of \<open>&\<close> is a boolean.
\<close>

(* src/lib/js/GB2312UTF8.js:93-118 Utf8ToGb2312, one round *)
definition from_round :: "nat \<Rightarrow> jstr \<Rightarrow> jstr \<times> jstr" where
  "from_round i str1 =
     (let pre = take (i - 1) str1;
          s1 = drop (i + 1) str1;
          a = take 2 s1; s2 = drop 2 s1; x = parse_hex a
      in if x AND of_bool ((0x80 :: int) = 0) \<noteq> 0 then (pre @ [word_of_int x], s2)
         else if x AND of_bool ((0xE0 :: int) = 0xC0) \<noteq> 0 then
           (let b = take 2 (drop 1 s2); s3 = drop 3 s2
            in (pre @ [word_of_int (push_bit 6 (x AND 0x1F) OR (parse_hex b AND 0x3F))], s3))
         else
           (let b = take 2 (drop 1 s2); s3 = drop 3 s2;
                c = take 2 (drop 1 s3); s4 = drop 3 s3
            in (pre @ [word_of_int (push_bit 12 (x AND 0x0F) OR push_bit 6 (parse_hex b AND 0x3F) OR (parse_hex c AND 0x3F))],
                s4)))"

definition index_pct :: "jstr \<Rightarrow> nat" where
  "index_pct s = length (takeWhile (\<lambda>w. w \<noteq> pct) s)"

lemma from_round_shorter: "s \<noteq> [] \<Longrightarrow> length (snd (from_round i s)) < length s"
  by (auto simp: from_round_def Let_def)

(* src/lib/js/GB2312UTF8.js:83-126 Utf8ToGb2312 *)
function Utf8ToGb2312 :: "jstr \<Rightarrow> jstr" where
  "Utf8ToGb2312 str1 =
     (if pct \<notin> set str1 then str1
      else
        (let i = index_pct str1
         in if i < 3 then fst (from_round i str1) @ Utf8ToGb2312 (snd (from_round i str1))
            else take i str1 @ Utf8ToGb2312 (drop i str1)))"
  by pat_completeness auto
termination
  by (relation "measure length") (auto intro!: from_round_shorter diff_less length_pos_if_in_set)

declare Utf8ToGb2312.simps [simp del]

subsection \<open>Lemmas: one wide unit\<close>

text \<open>The four hexadecimal digits of a unit and the six of its three bytes.\<close>

definition hex4 :: "nat \<Rightarrow> string" where
  "hex4 n = [hex_digit (n div 4096), hex_digit (n div 256 mod 16), hex_digit (n div 16 mod 16), hex_digit (n mod 16)]"

definition three_bytes :: "nat \<Rightarrow> string" where
  "three_bytes n =
     (let a = n div 4096; b = n div 256 mod 16; c = n div 16 mod 16; d = n mod 16
      in [CHR ''%'', CHR ''E'', hex_digit a, CHR ''%'', hex_digit (8 + b div 4), hex_digit (b mod 4 * 4 + c div 4),
          CHR ''%'', hex_digit (8 + c mod 4), hex_digit d])"

definition dg :: "bool \<Rightarrow> char" where
  "dg b = (if b then CHR ''1'' else CHR ''0'')"

definition bits4 :: "nat \<Rightarrow> string" where
  "bits4 d = [dg (d div 8 mod 2 = 1), dg (d div 4 mod 2 = 1), dg (d div 2 mod 2 = 1), dg (d mod 2 = 1)]"

lemma all16: "list_all P [0..<16] \<Longrightarrow> d < (16 :: nat) \<Longrightarrow> P d"
  by (simp add: list_all_iff)

lemma Dec2Dig_hex: "d < 16 \<Longrightarrow> Dec2Dig (index_from 0 (hex_digit d) hex_upper) = bits4 d"
  by (rule all16 [where P = "\<lambda>d. Dec2Dig (index_from 0 (hex_digit d) hex_upper) = bits4 d"]) code_simp

lemma Dig2Dec_4: "Dig2Dec [a, b, c, d] =
    int (8 * digit_val a + 4 * digit_val b + 2 * digit_val c + digit_val d)"
  by (simp add: Dig2Dec_def upt_rec eval_nat_numeral)

lemma digit_dg [simp]: "digit_val (dg (n mod 2 = Suc 0)) = n mod 2"
  "digit_val CHR ''0'' = 0" "digit_val CHR ''1'' = 1"
  by (auto simp: dg_def digit_val_def)

lemma char_at_hex: "n < 16 \<Longrightarrow> char_at hex_upper (int n) = [hex_digit n]"
  by (simp add: char_at_def hex_digit_def hex_upper_def)

lemma nibble:
  assumes "d < 16"
  shows "8 * (d div 8 mod 2) + 4 * (d div 4 mod 2) + 2 * (d div 2 mod 2) + d mod 2 = d"
    "2 * (d div 8 mod 2) + d div 4 mod 2 = d div 4" "2 * (d div 2 mod 2) + d mod 2 = d mod 4"
    "d div 4 < 4" "d mod 4 < (4 :: nat)"
proof -
  have "list_all (\<lambda>d. 8 * (d div 8 mod 2) + 4 * (d div 4 mod 2) + 2 * (d div 2 mod 2) + d mod 2 = d \<and>
      2 * (d div 8 mod 2) + d div 4 mod 2 = d div 4 \<and> 2 * (d div 2 mod 2) + d mod 2 = d mod 4 \<and> d div 4 < 4 \<and>
      d mod 4 < 4) [0..<16]"
    by (simp add: upt_rec)
  from all16 [OF this assms] show
    "8 * (d div 8 mod 2) + 4 * (d div 4 mod 2) + 2 * (d div 2 mod 2) + d mod 2 = d"
    "2 * (d div 8 mod 2) + d div 4 mod 2 = d div 4" "2 * (d div 2 mod 2) + d mod 2 = d mod 4"
    "d div 4 < 4" "d mod 4 < (4 :: nat)" by simp_all
qed

text \<open>The value of four binary digits, and of the ends of two groups of them.\<close>

lemma bits4_value: "d < 16 \<Longrightarrow> char_at hex_upper (Dig2Dec (bits4 d)) = [hex_digit d]"
proof -
  assume d: "d < 16"
  then have "Dig2Dec (bits4 d) = int d" by (simp only: bits4_def Dig2Dec_4 digit_dg One_nat_def nibble)
  with d show ?thesis by (simp only: char_at_hex)
qed

lemma bits_front: "d < 16 \<Longrightarrow> char_at hex_upper (Dig2Dec (CHR ''1'' # CHR ''0'' # take 2 (bits4 d))) = [hex_digit (8 + d div 4)]"
proof -
  have "take 2 (bits4 d) = [dg (d div 8 mod 2 = Suc 0), dg (d div 4 mod 2 = Suc 0)]" by (simp add: bits4_def)
  then have f: "Dig2Dec (CHR ''1'' # CHR ''0'' # take 2 (bits4 d)) = int (8 + (2 * (d div 8 mod 2) + d div 4 mod 2))"
    by (simp add: Dig2Dec_4)
  assume d: "d < 16"
  have "Dig2Dec (CHR ''1'' # CHR ''0'' # take 2 (bits4 d)) = int (8 + d div 4)"
    by (simp only: f nibble(2) [OF d])
  moreover have "8 + d div 4 < 16" using nibble(4) [OF d] by simp
  ultimately show ?thesis by (simp only: char_at_hex)
qed

lemma bits_across:
  assumes "b < 16" "c < 16"
  shows "char_at hex_upper (Dig2Dec (drop 2 (bits4 b) @ take 2 (bits4 c))) = [hex_digit (b mod 4 * 4 + c div 4)]"
proof -
  have "8 * (b div 2 mod 2) + 4 * (b mod 2) + 2 * (c div 8 mod 2) + c div 4 mod 2 = b mod 4 * 4 + c div 4"
    using nibble(3) [OF assms(1)] nibble(2) [OF assms(2)] by linarith
  then have "Dig2Dec (drop 2 (bits4 b) @ take 2 (bits4 c)) = int (b mod 4 * 4 + c div 4)"
    by (simp add: bits4_def Dig2Dec_4)
  moreover have "b mod 4 * 4 + c div 4 < 16" using nibble(5) [OF assms(1)] nibble(4) [OF assms(2)] by linarith
  ultimately show ?thesis by (simp only: char_at_hex)
qed

lemma bits_last:
  assumes "c < 16"
  shows "char_at hex_upper (Dig2Dec (CHR ''1'' # CHR ''0'' # drop 2 (bits4 c))) = [hex_digit (8 + c mod 4)]"
proof -
  have "Dig2Dec (CHR ''1'' # CHR ''0'' # drop 2 (bits4 c)) = int (8 + c mod 4)"
    using nibble(3) [OF assms] by (simp add: bits4_def Dig2Dec_4)
  moreover have "8 + c mod 4 < 16" using nibble(5) [OF assms] by simp
  ultimately show ?thesis by (simp only: char_at_hex)
qed

lemma Hex2Utf8_bits:
  assumes "a < 16" "b < 16" "c < 16" "d < 16"
  shows "Hex2Utf8 (bits4 a @ bits4 b @ bits4 c @ bits4 d) =
     [CHR ''%'', CHR ''E'', hex_digit a, CHR ''%'', hex_digit (8 + b div 4), hex_digit (b mod 4 * 4 + c div 4),
      CHR ''%'', hex_digit (8 + c mod 4), hex_digit d]"
proof -
  obtain a1 a2 a3 a4 where a: "bits4 a = [a1, a2, a3, a4]" by (simp add: bits4_def)
  obtain b1 b2 b3 b4 where b: "bits4 b = [b1, b2, b3, b4]" by (simp add: bits4_def)
  obtain c1 c2 c3 c4 where c: "bits4 c = [c1, c2, c3, c4]" by (simp add: bits4_def)
  obtain d1 d2 d3 d4 where d: "bits4 d = [d1, d2, d3, d4]" by (simp add: bits4_def)
  have e: "char_at hex_upper (Dig2Dec ''1110'') = ''E''"
    using char_at_hex [of 14] by (simp add: Dig2Dec_4) (simp add: hex_digit_def hex_upper_def)
  have "Hex2Utf8 (bits4 a @ bits4 b @ bits4 c @ bits4 d) =
      ''%'' @ char_at hex_upper (Dig2Dec ''1110'') @ char_at hex_upper (Dig2Dec [a1, a2, a3, a4]) @
      ''%'' @ char_at hex_upper (Dig2Dec [CHR ''1'', CHR ''0'', b1, b2]) @ char_at hex_upper (Dig2Dec [b3, b4, c1, c2]) @
      ''%'' @ char_at hex_upper (Dig2Dec [CHR ''1'', CHR ''0'', c3, c4]) @ char_at hex_upper (Dig2Dec [d1, d2, d3, d4])"
    by (simp add: Hex2Utf8_def Let_def a b c d substring_def upt_rec)
  then show ?thesis
    using bits4_value [OF assms(1)] bits4_value [OF assms(4)] bits_front [OF assms(2)] bits_across [OF assms(2,3)]
      bits_last [OF assms(3)]
    by (simp add: a b c d e)
qed

text \<open>A unit that \<open>escape\<close> leaves alone or writes with four digits.\<close>

definition plain :: "16 word \<Rightarrow> bool" where
  "plain w \<longleftrightarrow> unreserved w \<or> 256 \<le> unat w"

definition enc :: "16 word \<Rightarrow> jstr" where
  "enc w = (if unreserved w then [w] else units (three_bytes (unat w)))"

lemma units_append [simp]: "units (s @ t) = units s @ units t" "units [] = []"
  by (simp_all add: units_def)

lemma unat16_lt: "unat (w :: 16 word) < 65536"
  using unsigned_less [of w] by simp

lemma hex4_digits:
  assumes "n < 65536"
  shows "n div 4096 < 16" "n div 256 mod 16 < 16" "n div 16 mod 16 < 16" "n mod (16 :: nat) < 16"
  using assms by (simp_all add: less_mult_imp_div_less)

lemma Str2Hex_hex4:
  assumes "n < 65536"
  shows "Str2Hex (hex4 n) = bits4 (n div 4096) @ bits4 (n div 256 mod 16) @ bits4 (n div 16 mod 16) @ bits4 (n mod 16)"
  using hex4_digits [OF assms] by (simp add: Str2Hex_def hex4_def Dec2Dig_hex)

lemma Hex2Utf8_hex4: "n < 65536 \<Longrightarrow> Hex2Utf8 (Str2Hex (hex4 n)) = three_bytes n"
  using hex4_digits [of n] by (simp add: Str2Hex_hex4 Hex2Utf8_bits three_bytes_def Let_def)

lemma piece_wide: "n < 65536 \<Longrightarrow> piece (CHR ''u'' # hex4 n @ t) = units (three_bytes n) @ units t"
proof -
  assume n: "n < 65536"
  have l: "length (hex4 n) = 4" by (simp add: hex4_def)
  then have "substring 1 5 (CHR ''u'' # hex4 n @ t) = hex4 n" "drop 5 (CHR ''u'' # hex4 n @ t) = t"
    by (simp_all add: substring_def)
  then show ?thesis by (simp add: piece_def Hex2Utf8_hex4 [OF n])
qed

lemma unreserved_char:
  assumes "unreserved w"
  shows "of_nat (byte (char_of (unat w))) = w" "char_of (unat w) \<noteq> CHR ''%''"
proof -
  have u: "unat w < 128" "unat w \<noteq> 37" using assms by (auto simp: unreserved_def Let_def)
  then have b: "byte (char_of (unat w)) = unat w" by simp
  then show "of_nat (byte (char_of (unat w))) = w" by simp
  show "char_of (unat w) \<noteq> CHR ''%''"
  proof
    assume "char_of (unat w) = CHR ''%''"
    then have "byte (char_of (unat w)) = 37" by simp
    with b u(2) show False by simp
  qed
qed

lemma hex_digit_not_pct: "d < 16 \<Longrightarrow> hex_digit d \<noteq> CHR ''%''"
  by (rule all16 [where P = "\<lambda>d. hex_digit d \<noteq> CHR ''%''"]) code_simp

lemma hex4_no_pct: "n < 65536 \<Longrightarrow> CHR ''%'' \<notin> set (hex4 n)"
  using hex4_digits [of n] by (simp add: hex4_def hex_digit_not_pct [symmetric])

text \<open>
  The pieces of an escaped text, when the piece in hand is \<open>p\<close> and what is made of a piece grows with
  it, character by character.
\<close>

lemma split_pieces:
  assumes "list_all plain s" "P p" "CHR ''%'' \<notin> set p"
    and "\<And>p c. P p \<Longrightarrow> P (p @ [c]) \<and> fn (p @ [c]) = fn p @ units [c]"
  shows "(let sa = split_on (CHR ''%'') (p @ escape s) in fn (hd sa) @ concat (map piece (tl sa))) =
    fn p @ concat (map enc s)"
  using assms
proof (induction s arbitrary: p fn P)
  case Nil
  then show ?case by (simp add: escape_def split_on_plain)
next
  case (Cons w s)
  have pl: "list_all plain s" "plain w" using Cons.prems(1) by simp_all
  show ?case
  proof (cases "unreserved w")
    case True
    define c where "c = (char_of (unat w) :: char)"
    have c: "units [c] = [w]" "c \<noteq> CHR ''%''"
      using unreserved_char [OF True] by (simp_all add: c_def units_def)
    have e: "p @ escape (w # s) = (p @ [c]) @ escape s"
      using True by (simp add: escape_def escape_unit_def c_def)
    have st: "P (p @ [c])" "fn (p @ [c]) = fn p @ units [c]" using Cons.prems(2,4) by auto
    have "CHR ''%'' \<notin> set (p @ [c])" using Cons.prems(3) c(2) by auto
    from Cons.IH [OF pl(1) st(1) this Cons.prems(4)] show ?thesis
      unfolding e using st(2) c(1) True by (simp add: enc_def)
  next
    case False
    define n where "n = unat w"
    have n: "n < 65536" "256 \<le> n" using pl(2) False unat16_lt [of w] by (auto simp: plain_def n_def)
    have e: "p @ escape (w # s) = p @ CHR ''%'' # (CHR ''u'' # hex4 n) @ escape s"
      using False n by (simp add: escape_def escape_unit_def n_def hex4_def Let_def)
    define Q where "Q q \<longleftrightarrow> (\<exists>t. q = CHR ''u'' # hex4 n @ t)" for q
    have q: "Q (CHR ''u'' # hex4 n)" by (simp add: Q_def)
    have st: "Q (q @ [c]) \<and> piece (q @ [c]) = piece q @ units [c]" if "Q q" for q c
      using that by (auto simp: Q_def piece_wide [OF n(1)])
    have np: "CHR ''%'' \<notin> set (CHR ''u'' # hex4 n)" using hex4_no_pct [OF n(1)] by simp
    have "(let sa = split_on (CHR ''%'') ((CHR ''u'' # hex4 n) @ escape s) in piece (hd sa) @ concat (map piece (tl sa))) =
        piece (CHR ''u'' # hex4 n) @ concat (map enc s)"
      by (rule Cons.IH [where P = Q, OF pl(1) q np st])
    moreover have "split_on (CHR ''%'') r = hd (split_on (CHR ''%'') r) # tl (split_on (CHR ''%'') r)" for r
      by (induction r) (auto split: list.splits)
    ultimately have "concat (map piece (split_on (CHR ''%'') ((CHR ''u'' # hex4 n) @ escape s))) =
        piece (CHR ''u'' # hex4 n) @ concat (map enc s)"
      by (metis (no_types, lifting) concat.simps(2) list.simps(9))
    moreover have "enc w = piece (CHR ''u'' # hex4 n)"
      using piece_wide [OF n(1), of "[]"] False by (simp add: enc_def n_def)
    ultimately show ?thesis
      unfolding e split_on_sep [OF Cons.prems(3)] by (simp only: Let_def list.sel list.map concat.simps)
  qed
qed

lemma to_utf8_plain: "list_all plain s \<Longrightarrow> Gb2312ToUtf8 s = concat (map enc s)"
  using split_pieces [of s "\<lambda>_. True" "[]" units] by (simp add: Gb2312ToUtf8_def)

subsection \<open>Lemmas: three bytes read back\<close>

lemma hex_digit_facts:
  assumes "d < 16"
  shows "byte (hex_digit d) < 128" "is_hex (hex_digit d)" "hex_val (hex_digit d) = d"
proof -
  have "list_all (\<lambda>d. byte (hex_digit d) < 128 \<and> is_hex (hex_digit d) \<and> hex_val (hex_digit d) = d) [0..<16]"
    by code_simp
  from all16 [OF this assms] show "byte (hex_digit d) < 128" "is_hex (hex_digit d)" "hex_val (hex_digit d) = d"
    by simp_all
qed

lemma parse_two:
  assumes "d < 16" "e < 16"
  shows "parse_hex (units [hex_digit d, hex_digit e]) = int (16 * d + e)"
proof -
  have u: "unat (of_nat (byte c) :: 16 word) = byte c" for c :: char
    by (simp add: unat_of_nat less_trans [OF nat_of_char_less_256])
  have h: "hex_unit (of_nat (byte (hex_digit k)))" if "k < 16" for k
    using hex_digit_facts [OF that] by (simp add: hex_unit_def u)
  show ?thesis
    using hex_digit_facts [OF assms(1)] hex_digit_facts [OF assms(2)]
    by (simp add: parse_hex_def units_def h [OF assms(1)] h [OF assms(2)] u hexs_val_def)
qed

lemma join_bits:
  fixes a y z :: nat
  assumes "a < 16" "y < 64" "z < 64"
  shows "push_bit 12 (int a) OR push_bit 6 (int y) OR int z = int (a * 4096 + y * 64 + z)"
proof -
  have 1: "push_bit 6 (int y) OR int z = int (y * 64 + z)"
    using assms concat_bit_eq [of 6 "int z" "int y"] concat_bit_def [of 6 "int z" "int y"]
    by (simp add: take_bit_int_eq_self or.commute push_bit_eq_mult)
  have "int (y * 64 + z) < 2 ^ 12" using assms by simp
  then have "push_bit 12 (int a) OR int (y * 64 + z) = int (a * 4096 + (y * 64 + z))"
    using concat_bit_eq [of 12 "int (y * 64 + z)" "int a"] concat_bit_def [of 12 "int (y * 64 + z)" "int a"]
    by (simp add: take_bit_int_eq_self or.commute push_bit_eq_mult)
  with 1 show ?thesis by (simp add: add.assoc)
qed

lemma low_bits: "int n AND 15 = int (n mod 16)" "int n AND 63 = int (n mod 64)"
proof -
  have m: "(15 :: int) = mask 4" "(63 :: int) = mask 6" by (simp_all add: mask_eq_exp_minus_1)
  show "int n AND 15 = int (n mod 16)" "int n AND 63 = int (n mod 64)"
    by (simp_all add: m take_bit_eq_mask [symmetric] take_bit_eq_mod zmod_int)
qed

lemma digits_join:
  assumes "n < 65536"
  shows "n div 4096 * 4096 + (n div 256 mod 16 * 4 + n div 16 mod 16 div 4) * 64 + (n div 16 mod 16 mod 4 * 16 + n mod 16) = (n :: nat)"
proof -
  have e: "n div 256 = n div 16 div 16" "n div 4096 = n div 16 div 16 div 16"
    by (simp_all add: div_mult2_eq [symmetric])
  have 1: "n div 16 * 16 + n mod 16 = n" by (rule div_mult_mod_eq)
  have 2: "n div 16 div 16 * 16 + n div 16 mod 16 = n div 16" by (rule div_mult_mod_eq)
  have 3: "n div 16 div 16 div 16 * 16 + n div 16 div 16 mod 16 = n div 16 div 16" by (rule div_mult_mod_eq)
  have 4: "n div 16 mod 16 div 4 * 4 + n div 16 mod 16 mod 4 = n div 16 mod 16" by (rule div_mult_mod_eq)
  have lin: "q1 * 16 + r0 = n \<Longrightarrow> q2 * 16 + r1 = q1 \<Longrightarrow> q3 * 16 + r2 = q2 \<Longrightarrow> h * 4 + l = r1 \<Longrightarrow>
      q3 * 4096 + (r2 * 4 + h) * 64 + (l * 16 + r0) = n" for q1 q2 q3 r0 r1 r2 h l n :: nat
    by (simp add: algebra_simps)
  show ?thesis unfolding e by (rule lin [OF 1 2 3 4])
qed

lemma nibbles_64:
  assumes "b < 16" "c < 16" "d < (16 :: nat)"
  shows "(16 * (8 + b div 4) + (b mod 4 * 4 + c div 4)) mod 64 = b * 4 + c div 4"
    "(16 * (8 + c mod 4) + d) mod 64 = c mod 4 * 16 + d"
proof -
  have q: "b div 4 * 4 + b mod 4 = b" by (rule div_mult_mod_eq)
  have l: "b mod 4 < 4" "c mod 4 < 4" "c div 4 < 4" using nibble(4,5) assms by simp_all
  have lin: "q * 4 + m = b \<Longrightarrow> 16 * (8 + q) + (m * 4 + e) = 64 * 2 + (b * 4 + e)" "16 * (8 + q) + m = 64 * 2 + (q * 16 + m)"
    "b < 16 \<Longrightarrow> e < 4 \<Longrightarrow> b * 4 + e < 64" "m < 16 \<Longrightarrow> e < 4 \<Longrightarrow> e * 16 + m < 64" for q m b e :: nat
    by presburger+
  have "16 * (8 + b div 4) + (b mod 4 * 4 + c div 4) = 64 * 2 + (b * 4 + c div 4)" by (rule lin(1) [OF q])
  moreover have "b * 4 + c div 4 < 64" by (rule lin(3) [OF assms(1) l(3)])
  ultimately show "(16 * (8 + b div 4) + (b mod 4 * 4 + c div 4)) mod 64 = b * 4 + c div 4"
    by (simp only: mod_mult_self4 mod_less)
  have "16 * (8 + c mod 4) + d = 64 * 2 + (c mod 4 * 16 + d)" by (rule lin(2))
  moreover have "c mod 4 * 16 + d < 64" by (rule lin(4) [OF assms(3) l(2)])
  ultimately show "(16 * (8 + c mod 4) + d) mod 64 = c mod 4 * 16 + d"
    by (simp only: mod_mult_self4 mod_less)
qed

lemma from_round_wide:
  assumes "n < 65536"
  shows "from_round 0 (units (three_bytes n) @ rest) = ([of_nat n], rest)"
proof -
  define a b c d where "a = n div 4096" and "b = n div 256 mod 16" and "c = n div 16 mod 16" and "d = n mod 16"
  have lt: "a < 16" "b < 16" "c < 16" "d < 16"
    using hex4_digits [OF assms] by (simp_all add: a_def b_def c_def d_def)
  have E: "CHR ''E'' = hex_digit 14" by (simp add: hex_digit_def hex_upper_def)
  have tb: "units (three_bytes n) = pct # units [hex_digit 14, hex_digit a] @
      pct # units [hex_digit (8 + b div 4), hex_digit (b mod 4 * 4 + c div 4)] @
      pct # units [hex_digit (8 + c mod 4), hex_digit d]"
    by (simp add: three_bytes_def Let_def units_def pct_def E a_def b_def c_def d_def)
  have l4: "b mod 4 < 4" "c mod 4 < 4" "c div 4 < 4" "b div 4 < 4" using nibble(4,5) lt by simp_all
  have lin: "q < 4 \<Longrightarrow> 8 + q < 16" "q < 4 \<Longrightarrow> m < 4 \<Longrightarrow> q * 4 + m < 16" "b < 16 \<Longrightarrow> q < 4 \<Longrightarrow> b * 4 + q < 64"
    "q < 4 \<Longrightarrow> b < 16 \<Longrightarrow> q * 16 + b < 64" for q m b :: nat
    by linarith+
  have l8: "8 + b div 4 < 16" "b mod 4 * 4 + c div 4 < 16" "8 + c mod 4 < 16"
    by (rule lin(1) [OF l4(4)], rule lin(2) [OF l4(1,3)], rule lin(1) [OF l4(2)])
  have x: "parse_hex (units [hex_digit 14, hex_digit a]) AND 15 = int a"
  proof -
    have "(16 * 14 + a) mod 16 = a" using lt(1) by (simp only: mod_mult_self4 mod_less)
    then show ?thesis by (simp only: parse_two [OF _ lt(1)] low_bits)
  qed
  have y: "parse_hex (units [hex_digit (8 + b div 4), hex_digit (b mod 4 * 4 + c div 4)]) AND 63 = int (b * 4 + c div 4)"
    by (simp only: parse_two [OF l8(1,2)] low_bits nibbles_64 [OF lt(2,3,4)])
  have z: "parse_hex (units [hex_digit (8 + c mod 4), hex_digit d]) AND 63 = int (c mod 4 * 16 + d)"
    by (simp only: parse_two [OF l8(3) lt(4)] low_bits nibbles_64 [OF lt(2,3,4)])
  have "push_bit 12 (int a) OR push_bit 6 (int (b * 4 + c div 4)) OR int (c mod 4 * 16 + d) = int n"
    by (simp only: join_bits [OF lt(1) lin(3) [OF lt(2) l4(3)] lin(4) [OF l4(2) lt(4)]]
      digits_join [OF assms, folded a_def b_def c_def d_def])
  then have v: "word_of_int (push_bit 12 (parse_hex (units [hex_digit 14, hex_digit a]) AND 15) OR
      push_bit 6 (parse_hex (units [hex_digit (8 + b div 4), hex_digit (b mod 4 * 4 + c div 4)]) AND 63) OR
      (parse_hex (units [hex_digit (8 + c mod 4), hex_digit d]) AND 63)) = (of_nat n :: 16 word)"
    unfolding x y z by simp
  have two: "units [p, q] = [of_nat (byte p), of_nat (byte q)]" for p q by (simp add: units_def)
  have fr: "from_round 0 (pct # [u1, u2] @ pct # [v1, v2] @ pct # [w1, w2] @ rest) =
      ([word_of_int (push_bit 12 (parse_hex [u1, u2] AND 15) OR push_bit 6 (parse_hex [v1, v2] AND 63) OR
          (parse_hex [w1, w2] AND 63))], rest)" for u1 u2 v1 v2 w1 w2
    by (simp add: from_round_def Let_def)
  show ?thesis
    unfolding tb append_Cons append_assoc using fr v unfolding two by simp
qed

lemma index_pct_head [simp]: "index_pct (pct # s) = 0"
  by (simp add: index_pct_def)

lemma three_bytes_head: "units (three_bytes n) @ rest = pct # tl (units (three_bytes n)) @ rest"
  by (simp add: three_bytes_def Let_def units_def pct_def)

lemma from_utf8_wide:
  "n < 65536 \<Longrightarrow> Utf8ToGb2312 (units (three_bytes n) @ rest) = of_nat n # Utf8ToGb2312 rest"
proof -
  assume n: "n < 65536"
  define r where "r = tl (units (three_bytes n)) @ rest"
  have e: "units (three_bytes n) @ rest = pct # r" using three_bytes_head by (simp add: r_def)
  have "from_round 0 (pct # r) = ([of_nat n], rest)" using from_round_wide [OF n, of rest] by (simp only: e)
  then show ?thesis unfolding e by (subst Utf8ToGb2312.simps) (simp add: Let_def)
qed

lemma enc_wide: "256 \<le> unat w \<Longrightarrow> enc w = units (three_bytes (unat w))"
  by (auto simp: enc_def unreserved_def Let_def)

lemma from_utf8_wides:
  "list_all (\<lambda>w. 256 \<le> unat w) ws \<Longrightarrow> Utf8ToGb2312 (concat (map enc ws) @ t) = ws @ Utf8ToGb2312 t"
  by (induction ws) (simp_all add: enc_wide from_utf8_wide unat16_lt)

text \<open>One or two units before the first percent sign: the last of them is dropped.\<close>

lemma from_round_shift:
  assumes "pct \<notin> set p"
  shows "from_round (length p) (p @ pct # r) = (butlast p @ fst (from_round 0 (pct # r)), snd (from_round 0 (pct # r)))"
  using assms by (simp add: from_round_def Let_def butlast_conv_take)

lemma index_pct_append: "pct \<notin> set p \<Longrightarrow> index_pct (p @ pct # r) = length p"
proof -
  assume "pct \<notin> set p"
  then have "takeWhile (\<lambda>w. w \<noteq> pct) (p @ pct # r) = p @ takeWhile (\<lambda>w. w \<noteq> pct) (pct # r)"
    by (intro takeWhile_append2) auto
  then show ?thesis by (simp add: index_pct_def)
qed

lemma from_utf8_short:
  assumes "pct \<notin> set p" "length p < 3"
  shows "Utf8ToGb2312 (p @ pct # r) = butlast p @ Utf8ToGb2312 (pct # r)"
proof -
  define q where "q = pct # r"
  have i: "index_pct (p @ q) = length p" "index_pct q = 0" "pct \<in> set q"
    using index_pct_append [OF assms(1)] by (simp_all add: q_def)
  have f: "from_round (length p) (p @ q) = (butlast p @ fst (from_round 0 q), snd (from_round 0 q))"
    using from_round_shift [OF assms(1)] by (simp add: q_def)
  have "Utf8ToGb2312 q = fst (from_round 0 q) @ Utf8ToGb2312 (snd (from_round 0 q))"
    by (subst Utf8ToGb2312.simps) (simp add: i)
  moreover have "Utf8ToGb2312 (p @ q) = butlast p @ fst (from_round 0 q) @ Utf8ToGb2312 (snd (from_round 0 q))"
    by (subst Utf8ToGb2312.simps) (simp add: i f assms(2))
  ultimately show ?thesis by (simp add: q_def)
qed

text \<open>A text between two wide ones that is longer stays whole.\<close>

lemma from_utf8_long:
  assumes "pct \<notin> set p" "3 \<le> length p"
  shows "Utf8ToGb2312 (p @ pct # r) = p @ Utf8ToGb2312 (pct # r)"
proof -
  define q where "q = pct # r"
  have i: "index_pct (p @ q) = length p" "pct \<in> set q"
    using index_pct_append [OF assms(1)] by (simp_all add: q_def)
  have "Utf8ToGb2312 (p @ q) = p @ Utf8ToGb2312 q"
    by (subst Utf8ToGb2312.simps) (use i assms(2) in simp)
  then show ?thesis by (simp add: q_def)
qed

text \<open>The three bytes are those of the encoder of the MD5 plugin.\<close>

lemma two_digits:
  "d < 16 \<Longrightarrow> e < 16 \<Longrightarrow> (16 * d + e) div 16 = d" "d < 16 \<Longrightarrow> e < 16 \<Longrightarrow> (16 * d + e) mod 16 = (e :: nat)"
  by simp_all

definition pct_byte :: "16 word \<Rightarrow> jstr" where
  "pct_byte u = pct # units [hex_digit (unat u div 16), hex_digit (unat u mod 16)]"

lemma pct_byte_digits: "unat u = 16 * d + e \<Longrightarrow> d < 16 \<Longrightarrow> e < 16 \<Longrightarrow> pct_byte u = pct # units [hex_digit d, hex_digit e]"
  by (simp add: pct_byte_def two_digits)

lemma unescape_byte:
  "d \<noteq> CHR ''u'' \<Longrightarrow> is_hex d \<Longrightarrow> is_hex e \<Longrightarrow> unescape (CHR ''%'' # d # e # r) = of_nat (hexs_val [d, e]) # unescape r"
  by (cases r; cases "tl r"; cases "tl (tl r)") auto

lemma unescape_plain: "CHR ''%'' \<notin> set r \<Longrightarrow> unescape r = units r"
  by (induction r) (auto simp: units_def)

lemma byte_piece:
  assumes "unat b < 256" "\<not> unreserved b" "list_all unreserved t"
  shows "Gb2312ToUtf8 (b # t) = b # t @ drop 3 t"
proof -
  define p where "p = map (\<lambda>w. char_of (unat w) :: char) t"
  have up: "units p = t"
    unfolding p_def units_def map_map comp_def
    by (rule map_idI) (use assms(3) unreserved_char(1) in \<open>simp only: list_all_iff\<close>)
  have np: "CHR ''%'' \<notin> set p"
    using assms(3) unreserved_char(2) by (force simp: p_def list_all_iff)
  have ep: "escape t = p"
    using assms(3) unfolding p_def by (induction t) (simp_all add: escape_def escape_unit_def)
  define h l where "h = hex_digit (unat b div 16)" and "l = hex_digit (unat b mod 16)"
  have bl: "unat b div 16 < 16" "unat b mod 16 < 16" using assms(1) by simp_all
  have hx: "is_hex h" "is_hex l" "hex_val h = unat b div 16" "hex_val l = unat b mod 16"
    using hex_digit_facts [OF bl(1)] hex_digit_facts [OF bl(2)] by (simp_all add: h_def l_def)
  have nu: "h \<noteq> CHR ''u''" "h \<noteq> CHR ''%''" "l \<noteq> CHR ''%''"
    using hx(1) hex_digit_not_pct [OF bl(1)] hex_digit_not_pct [OF bl(2)]
    by (auto simp: h_def l_def is_hex_def is_digit_def)
  have e: "escape (b # t) = CHR ''%'' # h # l # p"
    using assms(1,2) ep by (simp add: escape_def escape_unit_def h_def l_def Let_def)
  have v: "hexs_val [h, l] = unat b" by (simp add: hexs_val_def hx)
  have un: "unescape (CHR ''%'' # h # l # p) = b # units p"
    using unescape_byte [OF nu(1) hx(1,2), of p] v by (simp add: unescape_plain [OF np])
  have "split_on (CHR ''%'') (escape (b # t)) = [[], h # l # p]"
    using split_on_sep [of "CHR ''%''" "[]" "h # l # p"] split_on_plain [of "CHR ''%''" "h # l # p"] np nu
    by (simp add: e)
  moreover have "units (drop 3 p) = drop 3 t" by (subst up [symmetric]) (simp only: units_def drop_map)
  ultimately show ?thesis using nu un up by (simp add: Gb2312ToUtf8_def piece_def)
qed

lemma enc_is_utf8:
  "2048 \<le> unat w \<longrightarrow> enc w = concat (map (\<lambda>u. pct # units [hex_digit (unat u div 16), hex_digit (unat u mod 16)]) (utf8_unit w))"
proof
  assume big: "2048 \<le> unat w"
  define n where "n = unat w"
  define a b c d where "a = n div 4096" and "b = n div 256 mod 16" and "c = n div 16 mod 16" and "d = n mod 16"
  have lt: "a < 16" "b < 16" "c < 16" "d < 16"
    using hex4_digits [OF unat16_lt [of w]] by (simp_all only: a_def b_def c_def d_def n_def)
  have j: "n = a * 4096 + (b * 4 + c div 4) * 64 + (c mod 4 * 16 + d)"
    unfolding a_def b_def c_def d_def n_def by (rule digits_join [OF unat16_lt, symmetric])
  define y z where "y = b * 4 + c div 4" and "z = c mod 4 * 16 + d"
  have l4: "b mod 4 < 4" "c mod 4 < 4" "c div 4 < 4" "b div 4 < 4" using nibble(4,5) lt by simp_all
  have yz: "y < 64" "z < 64" using lt l4 by (simp_all add: y_def z_def)
  have nz: "n = (a * 64 + y) * 64 + z" using j by (simp add: y_def z_def)
  have dm: "(x * 64 + r) div 64 = x" "(x * 64 + r) mod 64 = r" if "r < 64" for x r :: nat
    using that by simp_all
  have n64: "n div 64 = a * 64 + y" "n mod 64 = z" "n div 4096 = a" "(a * 64 + y) mod 64 = y"
  proof -
    show "n div 64 = a * 64 + y" by (subst nz) (rule dm(1) [OF yz(2)])
    show "n mod 64 = z" by (subst nz) (rule dm(2) [OF yz(2)])
    show "n div 4096 = a" by (simp only: a_def)
    show "(a * 64 + y) mod 64 = y" by (rule dm(2) [OF yz(1)])
  qed
  have B1: "unat (drop_bit 12 w OR 224) = 16 * 14 + a"
    using unat_or(2) [of "drop_bit 12 w"] lt(1) n64(3) by (simp add: unat_parts(1) n_def [symmetric])
  have p2: "unat (drop_bit 6 w AND 63) = y" "unat (w AND 63) = z"
    using n64 by (simp_all only: unat_parts n_def [symmetric]) simp
  have q: "b div 4 * 4 + b mod 4 = b" by (rule div_mult_mod_eq)
  have B2: "unat ((drop_bit 6 w AND 63) OR 128) = 16 * (8 + b div 4) + (b mod 4 * 4 + c div 4)"
  proof -
    have lin: "q * 4 + m = b' \<Longrightarrow> (b' * 4 + e) + 128 = 16 * (8 + q) + (m * 4 + e)" for q m b' e :: nat
      by (simp add: algebra_simps)
    have "unat ((drop_bit 6 w AND 63) OR 128) = y + 128"
      using unat_or(3) [of "drop_bit 6 w AND 63"] yz(1) by (simp only: p2)
    then show ?thesis unfolding y_def lin [OF q] .
  qed
  have B3: "unat ((w AND 63) OR 128) = 16 * (8 + c mod 4) + d"
    using unat_or(3) [of "w AND 63"] yz(2) by (simp add: p2 z_def)
  have l8: "8 + b div 4 < 16" "b mod 4 * 4 + c div 4 < 16" "8 + c mod 4 < 16" using l4 by simp_all
  have "enc w = pct_byte (drop_bit 12 w OR 224) @ pct_byte ((drop_bit 6 w AND 63) OR 128) @ pct_byte ((w AND 63) OR 128)"
    unfolding pct_byte_digits [OF B1 _ lt(1), simplified] pct_byte_digits [OF B2 l8(1,2)] pct_byte_digits [OF B3 l8(3) lt(4)]
    using big by (simp add: enc_wide three_bytes_def Let_def units_def pct_def n_def [symmetric] a_def [symmetric]
      b_def [symmetric] c_def [symmetric] d_def [symmetric]) (simp add: hex_digit_def hex_upper_def)
  moreover have "utf8_unit w = [drop_bit 12 w OR 224, (drop_bit 6 w AND 63) OR 128, (w AND 63) OR 128]"
    using big by (simp add: utf8_unit16 word_less_nat_alt)
  ultimately show "enc w = concat (map (\<lambda>u. pct # units [hex_digit (unat u div 16), hex_digit (unat u mod 16)]) (utf8_unit w))"
    by (simp only: list.map concat.simps pct_byte_def [symmetric] append_Nil2)
qed

subsection \<open>Properties\<close>

text \<open>
  C22. To UTF-8 and back: a text of units from 256 up comes back as it was. A run of unreserved
  characters between two of them comes back whole when it has three or more characters, and loses its
  last character when it has one or two.
\<close>

theorem gb2312_roundtrip:
  assumes "list_all (\<lambda>w. 256 \<le> unat w) ws" "list_all (\<lambda>w. 256 \<le> unat w) vs" "vs \<noteq> []" "list_all unreserved p"
  shows "Utf8ToGb2312 (Gb2312ToUtf8 (ws @ p @ vs)) = ws @ (if length p < 3 then butlast p else p) @ vs"
proof -
  have pl: "list_all plain (ws @ p @ vs)" using assms by (auto simp: list_all_iff plain_def)
  have e: "concat (map enc p) = p" using assms(4) by (induction p) (simp_all add: enc_def)
  have np: "pct \<notin> set p" using assms(4) by (auto simp: list_all_iff unreserved_def Let_def pct_def)
  obtain v vs' where v: "vs = v # vs'" using assms(3) by (cases vs) auto
  have "concat (map enc vs) = units (three_bytes (unat v)) @ concat (map enc vs')"
    using assms(2) by (simp add: v enc_wide)
  then obtain r where r: "concat (map enc vs) = pct # r"
    using three_bytes_head [of "unat v" "concat (map enc vs')"] by metis
  have bk: "Utf8ToGb2312 (pct # r) = vs"
    using from_utf8_wides [OF assms(2), of "[]"] by (simp add: r Utf8ToGb2312.simps)
  have "Utf8ToGb2312 (Gb2312ToUtf8 (ws @ p @ vs)) = ws @ Utf8ToGb2312 (p @ pct # r)"
    using from_utf8_wides [OF assms(1), of "p @ pct # r"] by (simp add: to_utf8_plain [OF pl] e r)
  then show ?thesis using from_utf8_short [OF np] from_utf8_long [OF np] bk by (cases "length p < 3") simp_all
qed

lemma gb2312_roundtrip_witness:
  "Utf8ToGb2312 (Gb2312ToUtf8 ([0x4F60, 0x597D] @ units ''no'' @ [0x00FF + 1])) = [0x4F60, 0x597D] @ units ''n'' @ [0x0100]"
  using gb2312_roundtrip [of "[0x4F60, 0x597D]" "[0x0100]" "units ''no''"]
  by (simp add: units_def unreserved_def)

text \<open>
  The escaped UTF-8 of a text of unreserved characters and units from 256 up is the text with each
  such unit as three escaped bytes; from 2048 up these are the bytes that the MD5 plugin's encoder makes
  of the unit. A byte that must be escaped otherwise (such as a blank) is left as it is, and what follows
  it in its piece is written once more from the fourth character on.
\<close>

theorem to_utf8_is_escaped_utf8:
  assumes "list_all plain s" "unat b < 256" "\<not> unreserved b" "list_all unreserved t"
  shows "Gb2312ToUtf8 s = concat (map enc s) \<and>
     (2048 \<le> unat w \<longrightarrow> enc w = concat (map (\<lambda>u. pct # units [hex_digit (unat u div 16), hex_digit (unat u mod 16)])
        (utf8_unit w))) \<and>
     Gb2312ToUtf8 (b # t) = b # t @ drop 3 t"
  using to_utf8_plain [OF assms(1)] enc_is_utf8 [of w] byte_piece [OF assms(2-4)] by blast

lemma to_utf8_is_escaped_utf8_witness:
  "Gb2312ToUtf8 [0x4F60] = enc 0x4F60 \<and>
   enc 0x4F60 = concat (map (\<lambda>u. pct # units [hex_digit (unat u div 16), hex_digit (unat u mod 16)]) (utf8_unit 0x4F60)) \<and>
   Gb2312ToUtf8 (0x20 # units ''bcdef'') = 0x20 # units ''bcdef'' @ units ''ef''"
  using to_utf8_is_escaped_utf8 [of "[0x4F60]" "0x20" "units ''bcdef''" "0x4F60"]
  by (simp add: units_def unreserved_def plain_def)

end
