(* ===== verification/Geo.thy ===== *)
theory Geo
  imports Utl Dom
begin

text \<open>
  The geography of \<open>dida/fly/js/bmoon.dida.js\<close>: the points and boxes of the database as text, and the
  search for a city by the parts of an address, one request after another until the server knows a
  part.
\<close>

subsection \<open>Points and boxes\<close>

definition num_char :: "char \<Rightarrow> bool" where
  "num_char c \<longleftrightarrow> is_digit c \<or> c = CHR ''.''"

text \<open>\<open>parseFloat(s.match(/[0-9\.]+/))\<close>: the first run of digits and points; without one, of \<open>null\<close>.\<close>

definition match_num :: "string \<Rightarrow> jnum" where
  "match_num s = (case dropWhile (\<lambda>c. \<not> num_char c) s of [] \<Rightarrow> NaN | t \<Rightarrow> parseFloat (takeWhile num_char t))"

text \<open>A missing part has no \<open>match\<close>.\<close>

definition part_num :: "string list \<Rightarrow> nat \<Rightarrow> js_error + jnum" where
  "part_num a i = (if i < length a then Inr (match_num (a ! i)) else Inl TypeError)"

(* src/dida/fly/js/bmoon.dida.js:141-147 dbpoint2ll *)
definition dbpoint2ll :: "jsv \<Rightarrow> js_error + (jnum \<times> jnum)" where
  "dbpoint2ll s = (case s of
       JStr t \<Rightarrow>
         (let a = split_on (CHR '','') t
          in bind_sum (part_num a 0) (\<lambda>lat. bind_sum (part_num a 1) (\<lambda>lng. Inr (lat, lng))))
     | _ \<Rightarrow> Inl TypeError)"

(* src/dida/fly/js/bmoon.dida.js:151-163 dbbox2ll *)
definition dbbox2ll :: "jsv \<Rightarrow> js_error + ((jnum \<times> jnum) \<times> (jnum \<times> jnum))" where
  "dbbox2ll s = (case s of
       JStr t \<Rightarrow>
         (let a = split_on (CHR '','') t
          in bind_sum (part_num a 0) (\<lambda>lat1. bind_sum (part_num a 1) (\<lambda>lng1.
             bind_sum (part_num a 2) (\<lambda>lat2. bind_sum (part_num a 3) (\<lambda>lng2.
               if num_lt lat1 lat2 then Inr ((lat1, lng1), (lat2, lng2)) else Inr ((lat2, lng2), (lat1, lng1)))))))
     | _ \<Rightarrow> Inl TypeError)"

text \<open>The text of a point and of a box, as the pages send them to the server.\<close>

(* src/dida/fly/js/index.js:223-224 matchPlan, the points *)
definition point_str :: "jnum \<times> jnum \<Rightarrow> string" where
  "point_str p = ''('' @ join '','' [num_str (fst p), num_str (snd p)] @ '')''"

(* src/dida/fly/js/index.js:222-222 matchPlan, the box *)
definition box_str :: "jnum \<times> jnum \<Rightarrow> jnum \<times> jnum \<Rightarrow> string" where
  "box_str p q = ''('' @ point_str p @ '','' @ point_str q @ '')''"

subsection \<open>The parts of an address\<close>

text \<open>
  The parts that are not political are spliced out of the array while it is walked.  \<open>types[1]\<close> of a
  part without types throws.
\<close>

(* src/dida/fly/js/bmoon.dida.js:172-172 getCityByGeoresult, the test *)
definition political :: "jsv \<Rightarrow> js_error + bool" where
  "political c = bind_sum (js_get c ''types'') (\<lambda>ts. bind_sum (js_get ts ''1'') (\<lambda>t. Inr (loose_eq t (JStr ''political''))))"

(* src/dida/fly/js/bmoon.dida.js:171-174 getCityByGeoresult, the loop *)
function geo_loop :: "nat \<Rightarrow> jsv list \<Rightarrow> js_error + jsv list" where
  "geo_loop i arrs =
     (if i < length arrs then
        bind_sum (political (arrs ! i)) (\<lambda>p. geo_loop (i + 1) (if p then arrs else splice1 (int i) arrs))
      else Inr arrs)"
  by pat_completeness auto
termination
  by (relation "measure (\<lambda>(i, arrs). length arrs - i)") (auto simp: splice1_at)

declare geo_loop.simps [simp del]

text \<open>
  The search: a request for the part at a position, or the callback with what was found (\<open>null\<close> when
  there are no parts left).
\<close>

datatype search = Asking request nat | Found jsv | Threw js_error

(* src/dida/fly/js/bmoon.dida.js:178-180 getCityByGeoresult, the request *)
definition city_request :: "jsv \<Rightarrow> request" where
  "city_request c = \<lparr>r_method = GET, r_url = ''/json/city/s'', r_params = [(''c'', c)]\<rparr>"

(* src/dida/fly/js/bmoon.dida.js:199-202 getCityByPoi, get *)
definition city_get :: "(jsv \<Rightarrow> js_error + jsv) \<Rightarrow> jsv list \<Rightarrow> nat \<Rightarrow> search" where
  "city_get name arrs pos =
     (if arrs = [] \<or> pos = length arrs then Found JNull
      else (case name (arrs ! pos) of Inl e \<Rightarrow> Threw e | Inr c \<Rightarrow> Asking (city_request c) pos))"

(* src/dida/fly/js/bmoon.dida.js:204-211 getCityByPoi, its callback *)
definition city_reply :: "(jsv \<Rightarrow> js_error + jsv) \<Rightarrow> jsv list \<Rightarrow> nat \<Rightarrow> jsv \<Rightarrow> search" where
  "city_reply name arrs pos data =
     (if data = JUndef \<or> data = JNull then Threw TypeError
      else if is_one (fld data ''success'') \<and> is_type ''Object'' (fld data ''city'') then Found (fld data ''city'')
      else city_get name arrs (pos + 1))"

text \<open>A district, a city and a province are names themselves; the parts of the other map have one.\<close>

(* src/dida/fly/js/bmoon.dida.js:194-214 getCityByPoi *)
definition getCityByPoi :: "jsv \<Rightarrow> js_error + jsv list" where
  "getCityByPoi data = bind_sum (js_get data ''district'') (\<lambda>d.
     Inr [d, fld data ''city'', fld data ''province''])"

(* src/dida/fly/js/bmoon.dida.js:166-191 getCityByGeoresult *)
definition getCityByGeoresult :: "jsv \<Rightarrow> js_error + search \<times> jsv list" where
  "getCityByGeoresult res = bind_sum (js_get res ''address_components'') (\<lambda>cs. case cs of
       JArr arrs \<Rightarrow> bind_sum (geo_loop 0 arrs) (\<lambda>arrs.
         Inr (city_get (\<lambda>c. js_get c ''short_name'') arrs 0, arrs))
     | _ \<Rightarrow> Inl TypeError)"

text \<open>
  The search with a server that answers every request, for at most \<open>n\<close> replies: the requests made and
  where it stands then.
\<close>

fun drive :: "nat \<Rightarrow> (jsv \<Rightarrow> js_error + jsv) \<Rightarrow> (request \<Rightarrow> jsv) \<Rightarrow> jsv list \<Rightarrow> search \<Rightarrow> request list \<times> search" where
  "drive (Suc n) name server arrs (Asking r pos) =
     (let (rs, x) = drive n name server arrs (city_reply name arrs pos (server r)) in (r # rs, x))"
| "drive n name server arrs x = ([], x)"

subsection \<open>Lemmas: numbers read back\<close>

fun dec_frac :: "string \<Rightarrow> rat" where
  "dec_frac [] = 0"
| "dec_frac (c # s) = (of_nat (digit_val c) + dec_frac s) / 10"

lemma dec_val_Cons: "dec_val (c # s) = digit_val c * 10 ^ length s + dec_val s"
proof -
  have "foldl (\<lambda>a c. 10 * a + digit_val c) k s = k * 10 ^ length s + foldl (\<lambda>a c. 10 * a + digit_val c) 0 s" for k
  proof (induction s arbitrary: k)
    case (Cons x s)
    from Cons [of "10 * k + digit_val x"] Cons [of "digit_val x"] show ?case by (simp add: algebra_simps)
  qed simp
  from this [of "digit_val c"] show ?thesis by (simp add: dec_val_def)
qed

lemma dec_frac_val: "dec_frac s = of_nat (dec_val s) / 10 ^ length s"
proof (induction s)
  case Nil
  then show ?case by (simp add: dec_val_def)
next
  case (Cons c s)
  then show ?case by (simp add: dec_val_Cons field_simps)
qed

lemma dec_val_append: "dec_val (s @ t) = dec_val s * 10 ^ length t + dec_val t"
proof (induction s)
  case Nil
  then show ?case by (simp add: dec_val_def)
next
  case (Cons c s)
  then show ?case by (simp add: dec_val_Cons algebra_simps power_add)
qed

text \<open>A fraction with at most \<open>n\<close> decimals is printed in full.\<close>

lemma frac_digits_read:
  "0 \<le> q \<Longrightarrow> q < 1 \<Longrightarrow> q * 10 ^ n \<in> \<int> \<Longrightarrow> list_all is_digit (frac_digits n q) \<and> dec_frac (frac_digits n q) = q"
proof (induction n arbitrary: q)
  case 0
  then have "q \<in> \<int>" by simp
  with 0 show ?case by (auto elim!: Ints_cases)
next
  case (Suc n)
  define d where "d = \<lfloor>10 * q\<rfloor>"
  have d: "0 \<le> d" "d < 10" using Suc.prems(1,2) by (simp_all add: d_def floor_less_iff)
  have r: "0 \<le> 10 * q - of_int d" "10 * q - of_int d < 1"
    unfolding d_def by (simp, linarith)
  have "(10 * q - of_int d) * 10 ^ n = q * 10 ^ Suc n - of_int (d * 10 ^ n)" by (simp add: algebra_simps)
  also have "\<dots> \<in> \<int>" using Suc.prems(3) by (intro Ints_diff) simp_all
  finally have IH: "list_all is_digit (frac_digits n (10 * q - of_int d))"
      "dec_frac (frac_digits n (10 * q - of_int d)) = 10 * q - of_int d"
    using Suc.IH [OF r] by simp_all
  have v: "(of_nat (nat d) :: rat) = of_int d" using d(1) by simp
  show ?case using IH d v by (simp add: d_def [symmetric])
qed

definition decimals :: "nat \<Rightarrow> rat \<Rightarrow> bool" where
  "decimals n q \<longleftrightarrow> 0 \<le> q \<and> q * 10 ^ n \<in> \<int>"

lemma rat_str_split:
  assumes "decimals 17 q"
  obtains fr where "rat_str q = nat_str (nat \<lfloor>q\<rfloor>) @ (if fr = [] then '''' else CHR ''.'' # fr)"
    "list_all is_digit fr" "of_nat (nat \<lfloor>q\<rfloor>) + dec_frac fr = q"
proof -
  have q: "0 \<le> q" "q * 10 ^ 17 \<in> \<int>" using assms by (simp_all add: decimals_def)
  have "(q - of_int \<lfloor>q\<rfloor>) * 10 ^ 17 = q * 10 ^ 17 - of_int (\<lfloor>q\<rfloor> * 10 ^ 17)" by (simp add: algebra_simps)
  also have "\<dots> \<in> \<int>" using q(2) by (intro Ints_diff) simp_all
  finally have f: "list_all is_digit (frac_digits 17 (q - of_int \<lfloor>q\<rfloor>))"
    "dec_frac (frac_digits 17 (q - of_int \<lfloor>q\<rfloor>)) = q - of_int \<lfloor>q\<rfloor>"
    using frac_digits_read [of "q - of_int \<lfloor>q\<rfloor>" 17] by (simp_all, linarith+)
  have "rat_str q = nat_str (nat \<lfloor>q\<rfloor>) @
      (if frac_digits 17 (q - of_int \<lfloor>q\<rfloor>) = [] then '''' else CHR ''.'' # frac_digits 17 (q - of_int \<lfloor>q\<rfloor>))"
    using q(1) by (simp add: rat_str_def Let_def)
  moreover have "of_nat (nat \<lfloor>q\<rfloor>) + dec_frac (frac_digits 17 (q - of_int \<lfloor>q\<rfloor>)) = q"
    using f(2) q(1) by simp
  ultimately show thesis using that f(1) by blast
qed


subsection \<open>Lemmas: points read back\<close>

text \<open>A coordinate in plain notation, of the size and precision the maps give.\<close>

definition coordinate :: "rat \<Rightarrow> bool" where
  "coordinate q \<longleftrightarrow> decimals 12 q \<and> q \<le> 180 \<and> (q = 0 \<or> 1 / 10 ^ 6 \<le> q)"

lemma coordinate_decimals: "coordinate q \<Longrightarrow> decimals 17 q"
proof -
  assume "coordinate q"
  then have "0 \<le> q" "q * 10 ^ 12 \<in> \<int>" by (simp_all add: coordinate_def decimals_def)
  have "q * 10 ^ 12 * 10 ^ 5 \<in> \<int>" by (rule Ints_mult [OF \<open>q * 10 ^ 12 \<in> \<int>\<close>]) simp
  then show ?thesis using \<open>0 \<le> q\<close> by (simp add: decimals_def mult.assoc flip: power_add)
qed

lemma num_char_digit [simp]: "is_digit c \<Longrightarrow> num_char c" "num_char CHR ''.''" "\<not> num_char CHR ''(''"
  "\<not> num_char CHR '')''" "\<not> num_char CHR '',''" "\<not> num_char CHR ''-''"
  by (simp_all add: num_char_def is_digit_def)

lemma take_drop_digits:
  assumes "list_all is_digit s" "r = [] \<or> \<not> is_digit (hd r)"
  shows "takeWhile is_digit (s @ r) = s" "dropWhile is_digit (s @ r) = r"
  using assms by (induction s) (cases r; auto)+

lemma digit_not [simp]: "is_digit c \<Longrightarrow> c \<noteq> CHR ''-''" "is_digit c \<Longrightarrow> c \<noteq> CHR ''+''"
    "is_digit c \<Longrightarrow> c \<noteq> CHR ''I''" "\<not> is_digit CHR ''.''" "is_digit c \<Longrightarrow> \<not> is_space c"
  by (auto simp: is_digit_def is_space_def)

lemma list_all_nat_str [simp]: "list_all is_digit (nat_str n)"
  using nat_str_digits by (simp add: list_all_iff)

lemma take_decimal_digits:
  assumes "list_all is_digit ds" "ds \<noteq> []" "list_all is_digit fr"
  shows "take_decimal (ds @ (if fr = [] then '''' else CHR ''.'' # fr)) = Some (of_nat (dec_val ds) + dec_frac fr, [])"
proof (cases "fr = []")
  case Nil: True
  have tw: "takeWhile is_digit ds = ds" "dropWhile is_digit ds = []"
    using take_drop_digits [OF assms(1), of "[]"] by simp_all
  show ?thesis using assms(2) Nil by (simp add: take_decimal_def tw take_exp_def scale10_def)
next
  case False
  have tw: "takeWhile is_digit fr = fr" "dropWhile is_digit fr = []"
    using take_drop_digits [OF assms(3), of "[]"] by simp_all
  have td: "takeWhile is_digit (ds @ CHR ''.'' # fr) = ds" "dropWhile is_digit (ds @ CHR ''.'' # fr) = CHR ''.'' # fr"
    using take_drop_digits [OF assms(1), of "CHR ''.'' # fr"] by simp_all
  show ?thesis using False assms(2)
    by (simp add: take_decimal_def Let_def tw td take_exp_def scale10_def dec_val_append dec_frac_val field_simps nat_add_distrib)
qed

lemma rat_str_numeral:
  assumes "decimals 17 q"
  shows "list_all num_char (rat_str q)" "rat_str q \<noteq> []" "CHR '','' \<notin> set (rat_str q)"
    "parseFloat (rat_str q) = Fin q"
proof -
  obtain fr where s: "rat_str q = nat_str (nat \<lfloor>q\<rfloor>) @ (if fr = [] then '''' else CHR ''.'' # fr)"
    and fr: "list_all is_digit fr" and v: "of_nat (nat \<lfloor>q\<rfloor>) + dec_frac fr = q"
    using rat_str_split [OF assms] .
  obtain d ds where d: "nat_str (nat \<lfloor>q\<rfloor>) = d # ds" by (cases "nat_str (nat \<lfloor>q\<rfloor>)") simp_all
  then have dd: "is_digit d" using list_all_nat_str [of "nat \<lfloor>q\<rfloor>"] by simp
  have fc: "list_all num_char fr" using fr by (simp add: list_all_iff)
  have nc: "list_all num_char (nat_str n)" for n using nat_str_digits by (simp add: list_all_iff)
  show all: "list_all num_char (rat_str q)" using fc nc s by simp
  then show "CHR '','' \<notin> set (rat_str q)" by (auto simp: list_all_iff)
  show "rat_str q \<noteq> []" using s by simp
  have "take_decimal (rat_str q) = Some (q, [])"
    using take_decimal_digits [OF list_all_nat_str _ fr, of "nat \<lfloor>q\<rfloor>"] s v by simp
  moreover have "dropWhile is_space (rat_str q) = rat_str q" "take_sign (rat_str q) = (1, rat_str q)"
    "take 8 (rat_str q) \<noteq> ''Infinity''"
    using s d dd by simp_all
  ultimately show "parseFloat (rat_str q) = Fin q" by (simp add: parseFloat_def)
qed

lemma rat_str_sign: "rat_str q = (if q < 0 then ''-'' else '''') @ rat_str \<bar>q\<bar>"
  by (simp add: rat_str_def Let_def)

text \<open>A number between other characters is found, its sign is not.\<close>

lemma match_num_str:
  assumes "decimals 17 \<bar>q\<bar>" "list_all (\<lambda>c. \<not> num_char c) pre" "post = [] \<or> \<not> num_char (hd post)"
  shows "match_num (pre @ num_str (Fin q) @ post) = Fin \<bar>q\<bar>"
proof -
  note r = rat_str_numeral [OF assms(1)]
  obtain c t where ct: "rat_str \<bar>q\<bar> = c # t" using r(2) by (cases "rat_str \<bar>q\<bar>") auto
  then have c: "num_char c" using r(1) by simp
  have "list_all (\<lambda>c. \<not> num_char c) (pre @ (if q < 0 then ''-'' else ''''))" using assms(2) by simp
  then have "dropWhile (\<lambda>c. \<not> num_char c) ((pre @ (if q < 0 then ''-'' else '''')) @ rat_str \<bar>q\<bar> @ post) = rat_str \<bar>q\<bar> @ post"
    using c ct by (subst dropWhile_append2) (auto simp: list_all_iff)
  moreover have "takeWhile num_char (rat_str \<bar>q\<bar> @ post) = rat_str \<bar>q\<bar>"
    using r(1) assms(3) by (subst takeWhile_append2) (auto simp: list_all_iff takeWhile_eq_Nil_iff)
  ultimately show ?thesis using r(4) ct by (subst num_str.simps, subst rat_str_sign) (simp add: match_num_def)
qed

lemma num_str_no_comma: "decimals 17 \<bar>q\<bar> \<Longrightarrow> CHR '','' \<notin> set (num_str (Fin q))"
  using rat_str_numeral(3) [of "\<bar>q\<bar>"] by (subst num_str.simps, subst rat_str_sign) auto

lemma split_point:
  assumes "decimals 17 \<bar>a\<bar>" "decimals 17 \<bar>b\<bar>" "CHR '','' \<notin> set pre" "CHR '','' \<notin> set post"
  shows "split_on (CHR '','') (pre @ num_str (Fin a) @ '','' @ num_str (Fin b) @ post) = [pre @ num_str (Fin a), num_str (Fin b) @ post]"
    "split_on (CHR '','') (pre @ num_str (Fin a) @ '','' @ num_str (Fin b) @ post @ CHR '','' # r)
     = (pre @ num_str (Fin a)) # (num_str (Fin b) @ post) # split_on (CHR '','') r"
proof -
  have n: "CHR '','' \<notin> set (pre @ num_str (Fin a))" "CHR '','' \<notin> set (num_str (Fin b) @ post)"
    using assms num_str_no_comma by auto
  show "split_on (CHR '','') (pre @ num_str (Fin a) @ '','' @ num_str (Fin b) @ post) = [pre @ num_str (Fin a), num_str (Fin b) @ post]"
    using split_on_sep [OF n(1), of "num_str (Fin b) @ post"] split_on_plain [OF n(2)] by simp
  show "split_on (CHR '','') (pre @ num_str (Fin a) @ '','' @ num_str (Fin b) @ post @ CHR '','' # r)
     = (pre @ num_str (Fin a)) # (num_str (Fin b) @ post) # split_on (CHR '','') r"
    using split_on_sep [OF n(1), of "num_str (Fin b) @ post @ CHR '','' # r"] split_on_sep [OF n(2), of r] by simp
qed

lemma match_numI:
  assumes "decimals 17 \<bar>q\<bar>"
  shows "match_num (''('' @ num_str (Fin q)) = Fin \<bar>q\<bar>" "match_num (''(('' @ num_str (Fin q)) = Fin \<bar>q\<bar>"
    "match_num (num_str (Fin q) @ '')'') = Fin \<bar>q\<bar>" "match_num (num_str (Fin q) @ ''))'') = Fin \<bar>q\<bar>"
  using match_num_str [OF assms, of "''(''" "[]"] match_num_str [OF assms, of "''((''" "[]"]
    match_num_str [OF assms, of "[]" "'')''"] match_num_str [OF assms, of "[]" "''))''"] by simp_all


subsection \<open>Lemmas: the loop over the parts\<close>

text \<open>What the loop leaves: after a part that is spliced out the next one is not looked at.\<close>

fun kept :: "(jsv \<Rightarrow> bool) \<Rightarrow> jsv list \<Rightarrow> jsv list" where
  "kept P [] = []"
| "kept P [c] = (if P c then [c] else [])"
| "kept P (c # d # cs) = (if P c then c # kept P (d # cs) else d # kept P cs)"

lemma geo_loop_kept:
  "\<forall>c \<in> set cs. political c = Inr (P c) \<Longrightarrow> geo_loop (length pre) (pre @ cs) = Inr (pre @ kept P cs)"
proof (induction P cs arbitrary: pre rule: kept.induct)
  case (1 P)
  then show ?case by (simp add: geo_loop.simps)
next
  case (2 P c)
  then show ?case by (simp add: geo_loop.simps splice1_at)
next
  case (3 P c d cs)
  show ?case
  proof (cases "P c")
    case True
    with 3 have "geo_loop (length (pre @ [c])) ((pre @ [c]) @ d # cs) = Inr ((pre @ [c]) @ kept P (d # cs))"
      by (intro 3(1)) simp_all
    then have "geo_loop (Suc (length pre)) (pre @ c # d # cs) = Inr (pre @ c # kept P (d # cs))" by simp
    moreover have "political c = Inr True" using 3(3) True by simp
    ultimately show ?thesis using True by (subst geo_loop.simps) simp
  next
    case False
    with 3 have "geo_loop (length (pre @ [d])) ((pre @ [d]) @ cs) = Inr ((pre @ [d]) @ kept P cs)"
      by (intro 3(2)) simp_all
    then have "geo_loop (Suc (length pre)) (pre @ d # cs) = Inr (pre @ d # kept P cs)" by simp
    with False 3(3) show ?thesis by (subst geo_loop.simps) (simp add: splice1_at)
  qed
qed

lemma kept_keeps: "filter P (kept P cs) = filter P cs"
  by (induction P cs rule: kept.induct) auto

lemma kept_lets_through: "list_all P (kept P cs) \<longleftrightarrow> successively (\<lambda>a b. P a \<or> P b) cs"
proof (induction P cs rule: kept.induct)
  case (3 P c d cs)
  then show ?case by (cases cs) auto
qed auto

subsection \<open>Lemmas: the search\<close>

text \<open>A server knows a part when it answers its request with a city.\<close>

definition part_known :: "(request \<Rightarrow> jsv) \<Rightarrow> jsv \<Rightarrow> bool" where
  "part_known server c \<longleftrightarrow> is_one (fld (server (city_request c)) ''success'') \<and> is_type ''Object'' (fld (server (city_request c)) ''city'')"

lemma city_search:
  assumes "\<forall>c \<in> set cs. name c = Inr (nm c)" "\<forall>r. server r \<notin> {JUndef, JNull}" "length cs \<le> n"
  shows "drive n name server (pre @ cs) (city_get name (pre @ cs) (length pre)) =
     (map (\<lambda>c. city_request (nm c)) (takeWhile (\<lambda>c. \<not> part_known server (nm c)) cs @ take 1 (dropWhile (\<lambda>c. \<not> part_known server (nm c)) cs)),
      Found (case dropWhile (\<lambda>c. \<not> part_known server (nm c)) cs of [] \<Rightarrow> JNull | c # _ \<Rightarrow> fld (server (city_request (nm c))) ''city''))"
  using assms(1,3)
proof (induction cs arbitrary: pre n)
  case Nil
  then show ?case by (cases n) (simp_all add: city_get_def)
next
  case (Cons c cs)
  then obtain m where n: "n = Suc m" by (cases n) auto
  have s: "server (city_request (nm c)) \<noteq> JUndef" "server (city_request (nm c)) \<noteq> JNull" using assms(2) by auto
  have g: "city_get name (pre @ c # cs) (length pre) = Asking (city_request (nm c)) (length pre)"
    using Cons.prems(1) by (simp add: city_get_def)
  show ?case
  proof (cases "part_known server (nm c)")
    case True
    then show ?thesis using s by (simp add: g n city_reply_def part_known_def)
  next
    case False
    then have "city_reply name (pre @ c # cs) (length pre) (server (city_request (nm c))) = city_get name ((pre @ [c]) @ cs) (length (pre @ [c]))"
      using s by (auto simp: city_reply_def part_known_def)
    then show ?thesis using Cons.IH [of m "pre @ [c]"] Cons.prems False n g by simp
  qed
qed

subsection \<open>Properties\<close>

lemma point_roundtrip_facts:
  assumes "coordinate \<bar>lat\<bar>" "coordinate \<bar>lng\<bar>" "coordinate \<bar>lat'\<bar>" "coordinate \<bar>lng'\<bar>"
  shows "dbpoint2ll (JStr (point_str (Fin lat, Fin lng))) = Inr (Fin \<bar>lat\<bar>, Fin \<bar>lng\<bar>)"
    and "dbpoint2ll (JStr (point_str (Fin lat, Fin lng))) = Inr (Fin lat, Fin lng) \<longleftrightarrow> 0 \<le> lat \<and> 0 \<le> lng"
    and "dbbox2ll (JStr (box_str (Fin lat, Fin lng) (Fin lat', Fin lng'))) =
      Inr (if \<bar>lat\<bar> < \<bar>lat'\<bar> then ((Fin \<bar>lat\<bar>, Fin \<bar>lng\<bar>), (Fin \<bar>lat'\<bar>, Fin \<bar>lng'\<bar>))
           else ((Fin \<bar>lat'\<bar>, Fin \<bar>lng'\<bar>), (Fin \<bar>lat\<bar>, Fin \<bar>lng\<bar>)))"
proof -
  note d = assms [THEN coordinate_decimals]
  have "split_on (CHR '','') (point_str (Fin lat, Fin lng)) = [''('' @ num_str (Fin lat), num_str (Fin lng) @ '')'']"
    using split_point(1) [OF d(1,2), of "''(''" "'')''"] by (simp add: point_str_def)
  then show p: "dbpoint2ll (JStr (point_str (Fin lat, Fin lng))) = Inr (Fin \<bar>lat\<bar>, Fin \<bar>lng\<bar>)"
    using match_numI(1) [OF d(1)] match_numI(3) [OF d(2)] by (simp add: dbpoint2ll_def part_num_def del: num_str.simps)
  show "dbpoint2ll (JStr (point_str (Fin lat, Fin lng))) = Inr (Fin lat, Fin lng) \<longleftrightarrow> 0 \<le> lat \<and> 0 \<le> lng"
    by (subst p) (auto simp: abs_if)
  have "split_on (CHR '','') (box_str (Fin lat, Fin lng) (Fin lat', Fin lng')) =
      [''(('' @ num_str (Fin lat), num_str (Fin lng) @ '')'', ''('' @ num_str (Fin lat'), num_str (Fin lng') @ ''))'']"
    using split_point(2) [OF d(1,2), of "''((''" "'')''" "''('' @ num_str (Fin lat') @ '','' @ num_str (Fin lng') @ ''))''"]
      split_point(1) [OF d(3,4), of "''(''" "''))''"]
    by (simp add: box_str_def point_str_def del: num_str.simps)
  then show "dbbox2ll (JStr (box_str (Fin lat, Fin lng) (Fin lat', Fin lng'))) =
      Inr (if \<bar>lat\<bar> < \<bar>lat'\<bar> then ((Fin \<bar>lat\<bar>, Fin \<bar>lng\<bar>), (Fin \<bar>lat'\<bar>, Fin \<bar>lng'\<bar>))
           else ((Fin \<bar>lat'\<bar>, Fin \<bar>lng'\<bar>), (Fin \<bar>lat\<bar>, Fin \<bar>lng\<bar>)))"
    using match_numI(2) [OF d(1)] match_numI(3) [OF d(2)] match_numI(1) [OF d(3)] match_numI(4) [OF d(4)]
    by (simp add: dbbox2ll_def part_num_def del: num_str.simps)
qed

text \<open>
  C23. A point printed for the server is read back by \<open>dbpoint2ll\<close> as its absolute values, so it is
  the point itself exactly north of the equator and east of Greenwich; a box comes back as its two
  points in the order of their latitudes.
\<close>

theorem point_roundtrip:
  assumes "coordinate \<bar>lat\<bar>" "coordinate \<bar>lng\<bar>" "coordinate \<bar>lat'\<bar>" "coordinate \<bar>lng'\<bar>"
  shows "dbpoint2ll (JStr (point_str (Fin lat, Fin lng))) = Inr (Fin \<bar>lat\<bar>, Fin \<bar>lng\<bar>) \<and>
    (dbpoint2ll (JStr (point_str (Fin lat, Fin lng))) = Inr (Fin lat, Fin lng) \<longleftrightarrow> 0 \<le> lat \<and> 0 \<le> lng) \<and>
    dbbox2ll (JStr (box_str (Fin lat, Fin lng) (Fin lat', Fin lng'))) =
      Inr (if \<bar>lat\<bar> < \<bar>lat'\<bar> then ((Fin \<bar>lat\<bar>, Fin \<bar>lng\<bar>), (Fin \<bar>lat'\<bar>, Fin \<bar>lng'\<bar>))
           else ((Fin \<bar>lat'\<bar>, Fin \<bar>lng'\<bar>), (Fin \<bar>lat\<bar>, Fin \<bar>lng\<bar>)))"
  using point_roundtrip_facts [OF assms] by blast

theorem point_roundtrip_witness:
  "dbpoint2ll (JStr (point_str (Fin (28228209 / 10 ^ 6), Fin (114057868 / 10 ^ 6)))) = Inr (Fin (28228209 / 10 ^ 6), Fin (114057868 / 10 ^ 6)) \<and>
   dbpoint2ll (JStr (point_str (Fin (- 34), Fin 151))) = Inr (Fin 34, Fin 151)"
  using point_roundtrip [of "28228209 / 10 ^ 6" "114057868 / 10 ^ 6" 0 0] point_roundtrip [of "- 34" 151 0 0]
  by (simp add: coordinate_def decimals_def)

text \<open>
  Of the parts of an address the loop keeps every political one, in order; the others it removes
  but for those behind a removed one, so what is left is all political exactly when no two parts that
  follow each other are both not political.
\<close>

theorem parts_are_filtered:
  assumes "\<forall>c \<in> set arrs. political c = Inr (P c)"
  shows "\<exists>left. geo_loop 0 arrs = Inr left \<and> filter P left = filter P arrs \<and>
    (left = filter P arrs \<longleftrightarrow> successively (\<lambda>a b. P a \<or> P b) arrs)"
proof -
  have "kept P arrs = filter P arrs \<longleftrightarrow> list_all P (kept P arrs)"
    by (metis kept_keeps filter_id_conv list_all_iff)
  then show ?thesis using geo_loop_kept [OF assms, of "[]"] kept_keeps [of P arrs] kept_lets_through [of P arrs] by auto
qed

lemma political_part: "political (JObj [(''types'', JArr [a, b])]) = Inr (loose_eq b (JStr ''political''))"
proof -
  have "nat_str 1 = ''1''" "parseInt ''1'' = Fin 1" by code_simp+
  then show ?thesis by (simp add: political_def)
qed

theorem parts_are_filtered_witness:
  "geo_loop 0 [JObj [(''types'', JArr [JStr ''a'', JStr ''b''])], JObj [(''types'', JArr [JStr ''c'', JStr ''d''])]] \<noteq> Inr []"
  using parts_are_filtered [of "[JObj [(''types'', JArr [JStr ''a'', JStr ''b''])], JObj [(''types'', JArr [JStr ''c'', JStr ''d''])]]" "\<lambda>_. False"]
  by (auto simp: political_part)

text \<open>
  C7. Whatever a server that answers at all says, the search for a city ends with its callback after
  at most one request for each part: the parts are asked for in order up to the first one known, whose
  city is the result, and \<open>null\<close> is the result when none is.
\<close>

theorem city_search_settles:
  assumes "\<forall>c \<in> set arrs. name c = Inr (nm c)" "\<forall>r. server r \<notin> {JUndef, JNull}" "length arrs \<le> n"
  shows "\<exists>k rs city. drive n name server arrs (city_get name arrs 0) = (rs, Found city) \<and>
    rs = map (\<lambda>c. city_request (nm c)) (take k arrs) \<and> k \<le> length arrs \<and>
    (city = JNull \<and> k = length arrs \<and> (\<forall>c \<in> set arrs. \<not> part_known server (nm c)) \<or>
        0 < k \<and> part_known server (nm (arrs ! (k - 1))) \<and> (\<forall>c \<in> set (take (k - 1) arrs). \<not> part_known server (nm c)) \<and>
        city = fld (server (city_request (nm (arrs ! (k - 1))))) ''city'')"
proof -
  note d = city_search [OF assms, of "[]", simplified]
  show ?thesis
  proof (cases "dropWhile (\<lambda>c. \<not> part_known server (nm c)) arrs")
    case Nil
    then have k: "\<forall>c \<in> set arrs. \<not> part_known server (nm c)" by simp
    then have tw: "takeWhile (\<lambda>c. \<not> part_known server (nm c)) arrs = arrs" by (simp add: takeWhile_eq_all_conv)
    have "drive n name server arrs (city_get name arrs 0) = (map (\<lambda>c. city_request (nm c)) arrs, Found JNull)"
      by (simp add: d Nil tw)
    with k show ?thesis by (intro exI [of _ "length arrs"] exI [of _ "map (\<lambda>c. city_request (nm c)) arrs"] exI [of _ JNull]) simp
  next
    case (Cons c t)
    define p where "p = takeWhile (\<lambda>c. \<not> part_known server (nm c)) arrs"
    have a: "arrs = p @ c # t" using Cons takeWhile_dropWhile_id unfolding p_def by metis
    have k: "part_known server (nm c)" using Cons by (metis hd_dropWhile list.distinct(1) list.sel(1))
    have n: "\<forall>c \<in> set p. \<not> part_known server (nm c)" by (auto simp: p_def dest: set_takeWhileD)
    have "takeWhile (\<lambda>c. \<not> part_known server (nm c)) (p @ c # t) = p" using k n by (subst takeWhile_append2) auto
    then have e: "drive n name server arrs (city_get name arrs 0) =
      (map (\<lambda>c. city_request (nm c)) (take (Suc (length p)) arrs), Found (fld (server (city_request (nm c))) ''city''))"
      using d Cons by (simp add: a)
    show ?thesis
      by (intro exI [of _ "Suc (length p)"] exI [of _ "map (\<lambda>c. city_request (nm c)) (take (Suc (length p)) arrs)"]
          exI [of _ "fld (server (city_request (nm c))) ''city''"])
        (unfold e, use k n in \<open>simp add: a\<close>)
  qed
qed

theorem city_search_settles_witness:
  "\<exists>rs. drive 3 Inr (\<lambda>_. JObj [(''success'', jint 0)]) [JStr ''a'', JStr ''b'', JStr ''c'']
     (city_get Inr [JStr ''a'', JStr ''b'', JStr ''c''] 0) = (rs, Found JNull) \<and> length rs = 3"
  using city_search_settles [of "[JStr ''a'', JStr ''b'', JStr ''c'']" Inr "\<lambda>c. c" "\<lambda>_. JObj [(''success'', jint 0)]" 3]
  by (auto simp: part_known_def)

end
