(* ===== verification/Index.thy ===== *)
theory Index
  imports Forms Geo "HOL-Library.AList"
begin

text \<open>
  The front page of the travel site (\<open>dida/fly/js/index.js\<close>): the two ends of a route from the map or
  from the address fields, the search for matching routes, the cursor over the routes found, and the
  form that leaves a route when none fits.

  \<open>bmoon.index.plan\<close> is the list of its properties in the order they were set.  The map is a library:
  what the page tells it is kept in a record of its own, what it calls back comes as an event.
  \<open>earthDis\<close> computes with trigonometry on doubles and prints two decimals; here it is the function
  \<open>dis\<close> from two points to a text.
\<close>

subsection \<open>Texts\<close>

text \<open>Two values that are added: numbers (\<open>undefined\<close> among them, which is none) as numbers, as soon as there is a text as texts.\<close>

definition js_plus :: "jsv \<Rightarrow> jsv \<Rightarrow> jsv" where
  "js_plus v w =
     (let a = (if is_prim v then v else JStr (to_str v)); b = (if is_prim w then w else JStr (to_str w))
      in case (a, b) of
           (JStr s, _) \<Rightarrow> JStr (s @ to_str b)
         | (_, JStr t) \<Rightarrow> JStr (to_str a @ t)
         | _ \<Rightarrow> JNum (case (to_num a, to_num b) of
              (Fin p, Fin q) \<Rightarrow> Fin (p + q)
            | (NaN, _) \<Rightarrow> NaN | (_, NaN) \<Rightarrow> NaN
            | (PInf, NInf) \<Rightarrow> NaN | (NInf, PInf) \<Rightarrow> NaN
            | (PInf, _) \<Rightarrow> PInf | (NInf, _) \<Rightarrow> NInf | (_, n) \<Rightarrow> n))"

(* src/dida/fly/js/index.js:6-9 _strFromPoi *)
definition strFromPoi :: "jsv \<Rightarrow> jsv" where
  "strFromPoi d =
     (if is_type ''Object'' d then
        foldl js_plus (fld d ''province'') (map (fld d) [''city'', ''district'', ''street'', ''streetNumber'', ''business''])
      else JUndef)"

text \<open>The parts of an address are texts: theirs are put one after the other.\<close>

lemma strFromPoi_texts:
  assumes "is_type ''Object'' d" "map (fld d) [''province'', ''city'', ''district'', ''street'', ''streetNumber'', ''business''] = map JStr ts"
  shows "strFromPoi d = JStr (concat ts)"
proof -
  have "foldl js_plus (JStr s) (map JStr us) = JStr (s @ concat us)" for s us
    by (induction us arbitrary: s) (simp_all add: js_plus_def)
  then show ?thesis
    using assms by (cases ts) (auto simp: strFromPoi_def)
qed

datatype side = S | E

(* src/dida/fly/js/index.js:11-14 _formInfoTitle *)
fun formInfoTitle :: "side \<Rightarrow> string" where
  "formInfoTitle S = (utf8 [60, 98, 62, 231, 186, 191, 232, 183, 175, 232, 181, 183, 231, 130, 185, 60, 47, 98, 62])"
| "formInfoTitle E = (utf8 [60, 98, 62, 231, 186, 191, 232, 183, 175, 231, 187, 136, 231, 130, 185, 60, 47, 98, 62])"

text \<open>The places around an address; one that has no title throws.\<close>

definition around :: "jsv \<Rightarrow> js_error + jsv list" where
  "around pois = (if truthy pois then
       (case pois of JArr ps \<Rightarrow> if list_all (\<lambda>p. p \<noteq> JUndef \<and> p \<noteq> JNull) ps then Inr ps else Inl TypeError
        | _ \<Rightarrow> Inr [])
     else Inr [])"

(* src/dida/fly/js/index.js:16-28 _formInfoContent *)
definition formInfoContent :: "jsv \<Rightarrow> js_error + string" where
  "formInfoContent result = bind_sum (around (fld result ''surroundingPois'')) (\<lambda>pois. Inr
     (to_str (fld result ''address'') @
      (if pois = [] then '''' else (utf8 [60, 98, 114, 32, 47, 62, 60, 98, 62, 229, 145, 168, 232, 190, 185, 228, 191, 161, 230, 129, 175, 60, 47, 98, 62]) @ concat (map (\<lambda>p. ''<br />'' @ to_str (fld p ''title'')) pois))))"

text \<open>\<open>JSON.stringify\<close>: a property that is undefined is left out, in an array it is \<open>null\<close>.\<close>

definition json_char :: "char \<Rightarrow> string" where
  "json_char c =
     (if c = dquote \<or> byte c = 92 then [char_of (92 :: nat), c]
      else if byte c = 8 then [char_of (92 :: nat), CHR ''b'']
      else if byte c = 9 then [char_of (92 :: nat), CHR ''t'']
      else if byte c = 10 then [char_of (92 :: nat), CHR ''n'']
      else if byte c = 12 then [char_of (92 :: nat), CHR ''f'']
      else if byte c = 13 then [char_of (92 :: nat), CHR ''r'']
      else if byte c < 32 then [char_of (92 :: nat)] @ ''u00'' @ [digit_chr (byte c div 16), (let d = byte c mod 16 in if d < 10 then digit_chr d else char_of (87 + d))]
      else [c])"

definition json_str :: "string \<Rightarrow> string" where
  "json_str s = quoted (concat (map json_char s))"

fun stringify :: "jsv \<Rightarrow> string" where
  "stringify JUndef = ''null''"
| "stringify JNull = ''null''"
| "stringify (JBool b) = (if b then ''true'' else ''false'')"
| "stringify (JNum n) = (case n of Fin q \<Rightarrow> rat_str q | _ \<Rightarrow> ''null'')"
| "stringify (JStr s) = json_str s"
| "stringify (JArr vs) = ''['' @ join '','' (map stringify vs) @ '']''"
| "stringify (JObj ps) =
     ''{'' @ join '','' (map (\<lambda>(k, v). json_str k @ '':'' @ stringify v) (filter (\<lambda>(k, v). v \<noteq> JUndef) ps)) @ ''}''"

subsection \<open>The page\<close>

(* src/dida/fly/js/index.js:30-77 init *)
datatype index_el =
    IxHour | IxMin | IxDad | IxDate | IxSaddr | IxEaddr | IxKm | IxMatchPanel
  | IxNoresult | IxResult | IxNav | IxPrev | IxNext | IxNick | IxSaddrOut | IxEaddrOut | IxPlanurl
  | IxFrom | IxSdate | IxStime | IxPhone | IxContact | IxAttach | IxNum
  | NoRepeat | NoWday | NoPhone | NoContact | NoNick | NoAttach | NoPanel

text \<open>What the map was told; points are a latitude and a longitude.\<close>

type_synonym point = "jsv \<times> jsv"

record gmap =
  g_zoom :: int
  g_center :: point
  g_direct :: "point list"
  g_prect :: "point list"
  g_lines :: bool
  g_smarker :: "point option"
  g_emarker :: "point option"
  g_title :: string
  g_content :: string
  g_open :: "side option"

(* src/dida/fly/js/index.js:95-106 initMap, its objects *)
definition fresh_map :: "point \<Rightarrow> gmap" where
  "fresh_map c = \<lparr>g_zoom = 13, g_center = c, g_direct = [], g_prect = [], g_lines = False, g_smarker = None,
     g_emarker = None, g_title = (utf8 [232, 181, 183, 231, 130, 185]), g_content = '''', g_open = None\<rparr>"

record checkbox =
  cb_val :: string
  cb_fields :: "index_el list"
  cb_checked :: bool

record index = "index_el page" +
  ix_plan :: "(string \<times> jsv) list"
  ix_mplans :: jsv
  ix_pnum :: jsv
  ix_pcur :: "int option"
  ix_map :: "gmap option"
  ix_city :: jsv
  ix_wdays :: "(string \<times> bool) list"
  ix_subs :: "checkbox list"
  ix_dida :: dida
  ix_asked :: "(side \<times> jsv) list"

definition get_plan :: "string \<Rightarrow> index \<Rightarrow> jsv" where
  "get_plan k s = fld (JObj (ix_plan s)) k"

definition set_plan :: "string \<Rightarrow> jsv \<Rightarrow> index \<Rightarrow> index" where
  "set_plan k v s = s\<lparr>ix_plan := AList.update k v (ix_plan s)\<rparr>"

text \<open>A call of a method of the map; without the map there is none.\<close>

definition on_map :: "(gmap \<Rightarrow> gmap) \<Rightarrow> index \<Rightarrow> index" where
  "on_map f s = (case ix_map s of None \<Rightarrow> throw s | Some g \<Rightarrow> s\<lparr>ix_map := Some (f g)\<rparr>)"

text \<open>\<open>e.html(v)\<close> and \<open>e.val(v)\<close>: of \<open>undefined\<close> they only read.\<close>

definition html_of :: "jsv \<Rightarrow> elem \<Rightarrow> elem" where
  "html_of v e = (if v = JUndef then e else if v = JNull \<or> \<not> is_prim v then set_html '''' e else set_html (to_str v) e)"

definition val_of :: "jsv \<Rightarrow> elem \<Rightarrow> elem" where
  "val_of v e = (if v = JUndef then e else if v = JNull then set_val '''' e else set_val (to_str v) e)"

definition seq :: "(index \<Rightarrow> index) \<Rightarrow> (index \<Rightarrow> index) \<Rightarrow> index \<Rightarrow> index" where
  "seq f g s = (let t = f s in if thrown t = thrown s then g t else t)"

subsection \<open>Starting\<close>

text \<open>The page asks where it is; the map opens there, or at its default.\<close>

(* src/dida/fly/js/index.js:79-86 initMap *)
definition initMap :: "(jnum \<times> jnum) option \<Rightarrow> index \<Rightarrow> index" where
  "initMap geo s =
     (let (lat, lng) = (case geo of Some g \<Rightarrow> g | None \<Rightarrow> (Fin (28188 / 1000), Fin (113033 / 1000)))
      in s\<lparr>ix_map := Some (fresh_map (JNum lat, JNum lng))\<rparr>)"

(* src/dida/fly/js/index.js:134-138 onMapReady *)
definition onMapReady :: "index \<Rightarrow> index" where
  "onMapReady = send GET ''/json/city/ip'' []"

(* src/dida/fly/js/index.js:138-143 onMapReady, its callback *)
definition onMapReady_reply :: "jsv \<Rightarrow> index \<Rightarrow> index" where
  "onMapReady_reply data s =
     (if data = JUndef \<or> data = JNull then throw s
      else if is_one (fld data ''success'') \<and> is_type ''Object'' (fld data ''city'') then
        (case dbpoint2ll (fld (fld data ''city'') ''geopos'') of
           Inl e \<Rightarrow> raise e s
         | Inr p \<Rightarrow> (initMap (Some p) s)\<lparr>ix_city := fld (fld data ''city'') ''s''\<rparr>)
      else initMap None s)"

text \<open>\<open>e.text()\<close> of an element that holds a text: the markup of its characters undone.\<close>

definition starts :: "string \<Rightarrow> string \<Rightarrow> bool" where
  "starts p s \<longleftrightarrow> take (length p) s = p"

function unescape_text :: "string \<Rightarrow> string" where
  "unescape_text s =
     (if s = [] then []
      else if starts ''&amp;'' s then CHR ''&'' # unescape_text (drop 5 s)
      else if starts ''&lt;'' s then CHR ''<'' # unescape_text (drop 4 s)
      else if starts ''&gt;'' s then CHR ''>'' # unescape_text (drop 4 s)
      else hd s # unescape_text (tl s))"
  by pat_completeness auto
termination
  by (relation "measure length") (auto simp: length_greater_0_conv [symmetric] simp del: length_greater_0_conv)

declare unescape_text.simps [simp del]

(* src/dida/fly/js/index.js:182-187 setDefault *)
definition setDefault :: "index \<Rightarrow> index" where
  "setDefault s = on NoNick (set_val (unescape_text (e_html (dom (ix_dida s) D_mnick))))
     (on NoContact (set_val (e_val (dom (ix_dida s) D_loginmname))) s)"

(* src/dida/fly/js/index.js:189-197 wdayChanged *)
definition wdayChanged :: "index \<Rightarrow> index" where
  "wdayChanged s =
     (if loose_eq (JStr (e_val (dom s NoRepeat))) (jint 2) then on NoWday show_el s else on NoWday hide_el s)"

subsection \<open>The routes found\<close>

text \<open>\<open>rendMatch\<close>: first the cursor and the details, then the source of the route, which can throw.\<close>

(* src/dida/fly/js/bmoon.dida.js:9-30 odomain *)
definition odomain :: "jsv \<Rightarrow> (string \<times> string \<times> string) option" where
  "odomain k = map_of
     [(''1'', (''http://www.58.com'', ''/img/logo/58.gif'', (utf8 [53, 56, 229, 144, 140, 229, 159, 142]))),
      (''2'', (''http://www.ganji.com'', ''/img/logo/ganji.png'', (utf8 [232, 181, 182, 233, 155, 134, 231, 189, 145]))),
      (''3'', (''http://www.edeng.cn'', ''/img/logo/edeng.jpg'', (utf8 [230, 152, 147, 231, 153, 187, 231, 189, 145]))),
      (''4'', (''http://www.liebiao.com'', ''/img/logo/liebiao.png'', (utf8 [229, 136, 151, 232, 161, 168, 231, 189, 145])))] (to_str k)"

definition minus_one :: "jnum \<Rightarrow> jnum" where
  "minus_one n = (case n of Fin q \<Rightarrow> Fin (q - 1) | _ \<Rightarrow> n)"

definition sdate_html :: "jsv \<Rightarrow> elem \<Rightarrow> elem" where
  "sdate_html plan = (if is_one (fld plan ''repeat'') then set_html (utf8 [230, 175, 143, 230, 151, 165])
     else if loose_eq (fld plan ''repeat'') (jint 2) then set_html ((utf8 [230, 175, 143, 229, 145, 168, 32]) @ to_str (fld plan ''sdate''))
     else html_of (fld plan ''sdate''))"

(* src/dida/fly/js/index.js:346-352 rendMatch, the source *)
definition rendFrom :: "jsv \<Rightarrow> index \<Rightarrow> index" where
  "rendFrom plan s =
     (let s1 = on IxFrom empty_el s; d = odomain (fld plan ''ori'')
      in if gt_int (fld plan ''ori'') 0 then
           (if truthy (fld plan ''ourl'') then
              (let s2 = on IxFrom (set_attr ''href'' (to_str (fld plan ''ourl''))) s1
               in case d of None \<Rightarrow> throw s2
                  | Some (url, img, title) \<Rightarrow> on IxFrom (append_kid ''img'' img) (on IxFrom (set_attr ''title'' ((utf8 [230, 149, 176, 230, 141, 174, 230, 157, 165, 230, 186, 144, 239, 188, 154, 227, 128, 128]) @ title)) s2))
            else (case d of None \<Rightarrow> throw s1
                  | Some (url, img, title) \<Rightarrow> on IxFrom (append_kid ''img'' img)
                      (on IxFrom (set_attr ''title'' ((utf8 [230, 149, 176, 230, 141, 174, 230, 157, 165, 230, 186, 144, 239, 188, 154, 227, 128, 128]) @ title)) (on IxFrom (set_attr ''href'' url) s1))))
         else s1)"

definition rendCursor :: "int \<Rightarrow> index \<Rightarrow> index" where
  "rendCursor ncur s =
     on IxNext (if num_lt (Fin (of_int ncur)) (minus_one (to_num (ix_pnum s))) then show_el else hide_el)
       (on IxPrev (if 0 < ncur then show_el else hide_el) (s\<lparr>ix_pcur := Some ncur\<rparr>))"

definition rendDetails :: "jsv \<Rightarrow> int \<Rightarrow> index \<Rightarrow> index" where
  "rendDetails plan ncur s =
     on IxResult show_el (on IxNav show_el
     (on IxPlanurl (set_attr ''href'' (''/plan/info?id='' @ to_str (fld plan ''id'')))
     (on IxStime (html_of (fld plan ''stime''))
     (on IxSdate (sdate_html plan)
     (on IxEaddrOut (html_of (fld plan ''eaddr''))
     (on IxSaddrOut (html_of (fld plan ''saddr''))
     (on IxNum (set_html (int_str (ncur + 1) @ '' / '' @ to_str (ix_pnum s)))
     (on IxAttach (html_of (fld plan ''attach''))
     (on IxNick (html_of (fld plan ''nick'')) s)))))))))"

definition rendPics :: "jsv \<Rightarrow> index \<Rightarrow> index" where
  "rendPics plan s =
     (let pic = (\<lambda>type. ''/image/plan/pic?defs=segv&type='' @ type @ ''&id='' @ to_str (fld plan ''id''))
      in on IxContact (set_attr ''src'' (pic ''contact'')) (on IxPhone (set_attr ''src'' (pic ''phone'')) s))"

(* src/dida/fly/js/index.js:320-358 rendMatch *)
definition rendMatch :: "jsv \<Rightarrow> int \<Rightarrow> index \<Rightarrow> index" where
  "rendMatch plan ncur = seq (\<lambda>s. rendFrom plan (rendDetails plan ncur (rendCursor ncur s))) (rendPics plan)"

(* src/dida/fly/js/index.js:305-318 rendPlan *)
definition rendPlan :: "int \<Rightarrow> index \<Rightarrow> index" where
  "rendPlan ncur s =
     (case bind_sum (js_get (ix_mplans s) (int_str ncur)) (\<lambda>plan. bind_sum (js_get plan ''rect'') (\<lambda>r.
        bind_sum (dbbox2ll r) (\<lambda>geo. Inr (plan, geo)))) of
        Inl e \<Rightarrow> raise e s
      | Inr (plan, ((a, b), (c, d))) \<Rightarrow>
          seq (on_map (\<lambda>g. g\<lparr>g_prect := [(JNum a, JNum b), (JNum c, JNum d)]\<rparr>)) (rendMatch plan ncur) s)"

text \<open>The buttons; before anything was shown the cursor is no number.\<close>

(* src/dida/fly/js/index.js:156-157 bindClick, the buttons *)
definition step_click :: "int \<Rightarrow> index \<Rightarrow> index" where
  "step_click d s = (case ix_pcur s of None \<Rightarrow> throw s | Some c \<Rightarrow> rendPlan (c + d) s)"

(* src/dida/fly/js/index.js:158-158 bindClick, the button *)
definition continue_click :: "index \<Rightarrow> index" where
  "continue_click = on IxNoresult (\<lambda>e. e\<lparr>e_shown := \<not> e_shown e\<rparr>)"


subsection \<open>Searching\<close>

definition time_str :: "index \<Rightarrow> string" where
  "time_str s = e_val (dom s IxHour) @ '':'' @ e_val (dom s IxMin) @ '':00''"

text \<open>\<open>x.join(',')\<close> is there for arrays only; on anything else the call throws.\<close>

definition is_arr :: "jsv \<Rightarrow> bool" where
  "is_arr v \<longleftrightarrow> (case v of JArr _ \<Rightarrow> True | _ \<Rightarrow> False)"

lemma is_arr_simps [simp]: "is_arr (JArr vs)" "\<not> is_arr (JStr t)" "\<not> is_arr (JObj ps)" "\<not> is_arr JUndef"
  by (simp_all add: is_arr_def)

lemma is_arr_truthy [simp]: "is_arr v \<Longrightarrow> truthy v"
  by (cases v) (simp_all add: is_arr_def)

definition comma :: "jsv \<Rightarrow> string" where
  "comma v = to_str v"

(* src/dida/fly/js/index.js:220-224 matchPlan, what the form says *)
definition set_times :: "index \<Rightarrow> index" where
  "set_times s = fold (\<lambda>(k, v). set_plan k (JStr v))
     [(''dad'', e_val (dom s IxDad)), (''date'', e_val (dom s IxDate)), (''time'', time_str s)] s"

(* src/dida/fly/js/index.js:220-228 matchPlan, the properties *)
definition set_query :: "(jsv \<Rightarrow> jsv \<Rightarrow> string) \<Rightarrow> index \<Rightarrow> index" where
  "set_query dis s =
     (let sll = get_plan ''sll'' s; ell = get_plan ''ell'' s
      in fold (\<lambda>(k, v). set_plan k (JStr v))
        [(''rect'', ''(('' @ comma sll @ ''),('' @ comma ell @ ''))''),
         (''sgeo'', ''('' @ comma sll @ '')''), (''egeo'', ''('' @ comma ell @ '')''), (''km'', dis sll ell)] (set_times s))"

(* src/dida/fly/js/index.js:199-238 matchPlan *)
definition matchPlan :: "(jsv \<Rightarrow> jsv \<Rightarrow> string) \<Rightarrow> index \<Rightarrow> index" where
  "matchPlan dis s0 =
     (let s = (on IxNav hide_el (on IxResult hide_el (on IxNoresult hide_el s0)))\<lparr>ix_mplans := JObj []\<rparr>
      in if \<not> truthy (get_plan ''sll'' s) \<or> \<not> truthy (get_plan ''ell'' s) then s
         else if \<not> is_arr (get_plan ''sll'' s) \<or> \<not> is_arr (get_plan ''ell'' s) then throw (set_times s)
         else (let t = on IxMatchPanel (panel_begin ''vres'') (set_query dis s)
               in send GET ''/json/plan/match'' (ix_plan t) t))"

(* src/dida/fly/js/index.js:238-252 matchPlan, its callback *)
definition matchPlan_reply :: "jsv \<Rightarrow> index \<Rightarrow> index" where
  "matchPlan_reply data s =
     (let s1 = on IxMatchPanel (remove_class ''loading'') s
      in if data = JUndef \<or> data = JNull then throw s1
         else if loose_eq (fld data ''success'') (JStr ''1'') \<and> is_type ''Array'' (fld data ''plans'') then
           (let n = (if truthy (fld data ''_ntt'') then fld data ''_ntt'' else fld (fld data ''plans'') ''length'')
            in rendPlan 0 (on IxNum (set_html (''0 / '' @ to_str n))
                 ((on IxMatchPanel (add_class ''success'') s1)\<lparr>ix_pnum := n, ix_mplans := fld data ''plans''\<rparr>)))
         else (let s2 = add_note IxMatchPanel ''vres'' (errmsg data) (on IxMatchPanel (add_class ''error'') s1)
               in if loose_eq (fld data ''errcode'') (jint 35) then on IxNoresult show_el s2 else s2))"

subsection \<open>Leaving a route\<close>

definition num_add :: "jnum \<Rightarrow> jnum \<Rightarrow> jnum" where
  "num_add a b = (case (a, b) of (Fin p, Fin q) \<Rightarrow> Fin (p + q) | _ \<Rightarrow> NaN)"

definition checked_vals :: "(string \<times> bool) list \<Rightarrow> string list" where
  "checked_vals bs = map fst (filter snd bs)"

definition nick_or :: "string \<Rightarrow> string" where
  "nick_or v = (if js_len v \<noteq> 0 then v else (utf8 [229, 152, 128, 229, 151, 146, 231, 189, 145, 229, 143, 139]))"

(* src/dida/fly/js/index.js:263-282 leavePlan, the properties *)
definition set_left :: "index \<Rightarrow> index" where
  "set_left s =
     (let rep = JStr (e_val (dom s NoRepeat));
          weekly = loose_eq rep (jint 2)
      in fold (\<lambda>(k, v). set_plan k v)
        [(''repeat'', rep),
         (''sdate'', if weekly then JStr (join '','' (checked_vals (ix_wdays s))) else get_plan ''date'' s),
         (''dad'', if loose_eq (JStr (e_val (dom s IxDad))) (jint 0) then jint 1 else jint 0),
         (''stime'', get_plan ''time'' s),
         (''phone'', JStr (e_val (dom s NoPhone))),
         (''contact'', JStr (e_val (dom s NoContact))),
         (''nick'', JStr (nick_or (e_val (dom s NoNick)))),
         (''attach'', JStr (e_val (dom s NoAttach))),
         (''subscribe'', JNum (fold (\<lambda>c n. num_add n (parseInt (cb_val c))) (filter cb_checked (ix_subs s)) (Fin 0)))] s)"

(* src/dida/fly/js/index.js:255-292 leavePlan *)
definition leavePlan :: "index \<Rightarrow> index" where
  "leavePlan = when_valid [NoPhone] (\<lambda>s.
     let t = set_left s
     in send POST ''/json/plan/leave''
          [(''_op'', JStr ''add''), (''plan'', JStr (stringify (JObj (ix_plan t)))), (''_type_plan'', JStr ''object'')]
          (on NoPanel (panel_begin ''vres'') t))"

(* src/dida/fly/js/index.js:292-302 leavePlan, its callback *)
definition leavePlan_reply :: "jsv \<Rightarrow> index \<Rightarrow> index" where
  "leavePlan_reply data = settle NoPanel data
     (add_note NoPanel ''vres'' (utf8 [230, 143, 144, 228, 186, 164, 230, 136, 144, 229, 138, 159, 239, 188, 140, 230, 156, 159, 229, 190, 133, 230, 156, 137, 228, 186, 186, 232, 129, 148, 231, 179, 187, 228, 189, 160, 58, 68]))
     (add_note NoPanel ''vres'' (errmsg data))"

text \<open>A box that subscribes: the first one fills in the phone, both need the login and their field.\<close>

definition set_check :: "nat \<Rightarrow> bool \<Rightarrow> index \<Rightarrow> index" where
  "set_check i b s = s\<lparr>ix_subs := (ix_subs s)[i := (ix_subs s ! i)\<lparr>cb_checked := b\<rparr>]\<rparr>"

definition ask_login :: "index \<Rightarrow> index" where
  "ask_login s =
     (let (ok, d) = dida_loginCheck (ix_dida s)
      in if thrown d \<noteq> thrown (ix_dida s) then raise (last (thrown d)) (s\<lparr>ix_dida := d\<rparr>)
         else if ok then s\<lparr>ix_dida := d\<rparr>
         else s\<lparr>ix_dida := on D_overlay show_el (on D_loginhint (set_html (utf8 [232, 174, 162, 233, 152, 133, 231, 186, 191, 232, 183, 175, 233, 156, 128, 232, 166, 129, 231, 153, 187, 229, 189, 149])) (d\<lparr>d_reload := False\<rparr>))\<rparr>)"

(* src/dida/fly/js/index.js:159-179 bindClick, the boxes *)
definition subscribe_click :: "nat \<Rightarrow> index \<Rightarrow> index" where
  "subscribe_click i s0 =
     (if i < length (ix_subs s0) then
        (let s = set_check i (\<not> cb_checked (ix_subs s0 ! i)) s0; c = ix_subs s ! i
         in if cb_checked c then
              seq ask_login (\<lambda>s. case inputval (cb_fields c) s of (True, t) \<Rightarrow> t | (False, t) \<Rightarrow> set_check i False t)
                (if loose_eq (JStr (cb_val c)) (jint 1) \<and> js_len (e_val (dom s NoPhone)) = 0
                 then send GET ''/json/member/info'' [] s else s)
            else s)
      else s0)"

(* src/dida/fly/js/index.js:163-166 bindClick, the callback of the boxes *)
definition subscribe_reply :: "jsv \<Rightarrow> index \<Rightarrow> index" where
  "subscribe_reply data s =
     (if data = JUndef \<or> data = JNull then throw s
      else if is_one (fld data ''success'') then
        (case js_get (fld data ''member'') ''phone'' of Inl e \<Rightarrow> raise e s | Inr p \<Rightarrow> on NoPhone (val_of p) s)
      else s)"

subsection \<open>The two ends\<close>

fun ends :: "side \<Rightarrow> string \<Rightarrow> string" where
  "ends S k = CHR ''s'' # k"
| "ends E k = CHR ''e'' # k"

(* src/dida/fly/js/index.js:404-407 rendDirect, the zoom *)
definition zoom_for :: "string \<Rightarrow> int option" where
  "zoom_for km =
     (let x = JStr km
      in if gt_int x 10 \<and> lt_int x 100 then Some 12
         else if gt_int x 100 \<and> lt_int x 300 then Some 9
         else if gt_int x 300 \<and> lt_int x 600 then Some 7
         else if gt_int x 600 then Some 6 else None)"

definition arr_point :: "jsv \<Rightarrow> point" where
  "arr_point v = (fld v ''0'', fld v ''1'')"

(* src/dida/fly/js/index.js:395-414 rendDirect *)
definition rendDirect :: "(jsv \<Rightarrow> jsv \<Rightarrow> string) \<Rightarrow> index \<Rightarrow> index" where
  "rendDirect dis s =
     (let sll = get_plan ''sll'' s; ell = get_plan ''ell'' s
      in if \<not> truthy sll \<or> \<not> truthy ell then s
         else (let km = dis sll ell
               in on_map (\<lambda>g. g\<lparr>g_zoom := (case zoom_for km of Some z \<Rightarrow> z | None \<Rightarrow> g_zoom g),
                               g_direct := [arr_point sll, arr_point ell], g_lines := True\<rparr>)
                    (on IxKm (set_html ((utf8 [231, 186, 166, 32]) @ km @ (utf8 [32, 229, 141, 131, 231, 177, 179]))) s)))"

(* src/dida/fly/js/index.js:371-375 upPlan, an end *)
definition set_end :: "(jsv \<Rightarrow> jsv \<Rightarrow> string) \<Rightarrow> side \<Rightarrow> jsv \<Rightarrow> index \<Rightarrow> index" where
  "set_end dis x point s =
     (let t = set_plan (ends x ''ll'') (JArr [fld point ''lat'', fld point ''lng'']) s
      in case x of S \<Rightarrow> t | E \<Rightarrow> rendDirect dis t)"

(* src/dida/fly/js/index.js:377-384 upPlan, the callback of the map *)
definition upPlan_point :: "(jsv \<Rightarrow> jsv \<Rightarrow> string) \<Rightarrow> side \<Rightarrow> jsv \<Rightarrow> index \<Rightarrow> index" where
  "upPlan_point dis x point s = (if truthy point then set_end dis x point s else s)"

(* src/dida/fly/js/index.js:387-392 upPlan, the callback of the search *)
definition upPlan_city :: "side \<Rightarrow> jsv \<Rightarrow> index \<Rightarrow> index" where
  "upPlan_city x city s = (if is_type ''Object'' city then set_plan (ends x ''cityid'') (fld city ''id'') s else s)"

definition up_search :: "side \<Rightarrow> search \<Rightarrow> index \<Rightarrow> index" where
  "up_search x r s = (case r of
       Asking q pos \<Rightarrow> s\<lparr>reqs := reqs s @ [q]\<rparr>
     | Found city \<Rightarrow> upPlan_city x city s
     | Threw e \<Rightarrow> raise e s)"

(* src/dida/fly/js/index.js:361-393 upPlan *)
definition upPlan :: "(jsv \<Rightarrow> jsv \<Rightarrow> string) \<Rightarrow> side \<Rightarrow> jsv \<Rightarrow> index \<Rightarrow> index" where
  "upPlan dis x data s0 =
     (let addr = strFromPoi data; s = set_plan (ends x ''addr'') addr s0
      in case js_get data ''point'' of
           Inl e \<Rightarrow> raise e s
         | Inr point \<Rightarrow>
             seq (if truthy point then set_end dis x point
                  else (\<lambda>s. case ix_map s of None \<Rightarrow> throw s | Some _ \<Rightarrow> s\<lparr>ix_asked := ix_asked s @ [(x, addr)]\<rparr>))
               (\<lambda>s. case getCityByPoi data of Inl e \<Rightarrow> raise e s | Inr arrs \<Rightarrow> up_search x (city_get Inr arrs 0) s) s)"

definition city_answer :: "side \<Rightarrow> jsv list \<Rightarrow> nat \<Rightarrow> jsv \<Rightarrow> index \<Rightarrow> index" where
  "city_answer x arrs pos data s = up_search x (city_reply Inr arrs pos data) s"

definition set_marker :: "side \<Rightarrow> point \<Rightarrow> gmap \<Rightarrow> gmap" where
  "set_marker x p g = (case x of S \<Rightarrow> g\<lparr>g_smarker := Some p\<rparr> | E \<Rightarrow> g\<lparr>g_emarker := Some p\<rparr>)"

definition show_info :: "side \<Rightarrow> string \<Rightarrow> gmap \<Rightarrow> gmap" where
  "show_info x content g = g\<lparr>g_title := formInfoTitle x, g_content := content, g_open := Some x\<rparr>"

definition close_info :: "side \<Rightarrow> index \<Rightarrow> index" where
  "close_info x = on_map (\<lambda>g. if g_open g = Some x then g\<lparr>g_open := None\<rparr> else g)"

definition addr_el :: "side \<Rightarrow> index_el" where
  "addr_el x = (case x of S \<Rightarrow> IxSaddr | E \<Rightarrow> IxEaddr)"

text \<open>A marker was dragged and the map found what is there.\<close>

(* src/dida/fly/js/index.js:446-462 markDraged, the callback of the map *)
definition markDraged_found :: "(jsv \<Rightarrow> jsv \<Rightarrow> string) \<Rightarrow> side \<Rightarrow> jsv \<Rightarrow> index \<Rightarrow> index" where
  "markDraged_found dis x result s =
     (case bind_sum (js_get result ''surroundingPois'') (\<lambda>pois. case pois of
          JArr (poi # _) \<Rightarrow> bind_sum (js_get poi ''address'') (\<lambda>a. Inr (js_plus a (fld poi ''title''), fld poi ''point''))
        | _ \<Rightarrow> Inr (fld result ''address'', fld result ''point'')) of
        Inl e \<Rightarrow> raise e s
      | Inr (addr, point) \<Rightarrow>
          (let s1 = on (addr_el x) (val_of addr) s
           in case fld result ''addressComponents'' of
                JObj cs \<Rightarrow>
                  seq (upPlan dis x (JObj (AList.update ''point'' point cs)))
                    (\<lambda>s. case formInfoContent result of Inl e \<Rightarrow> raise e s | Inr c \<Rightarrow> on_map (show_info x c) s) s1
              | _ \<Rightarrow> throw s1))"

text \<open>An address was chosen: its place on the map, for the marker, and the route.\<close>

(* src/dida/fly/js/index.js:477-488 autoChanged, the callback of the map *)
definition autoChanged_point :: "side \<Rightarrow> jsv \<Rightarrow> jsv \<Rightarrow> index \<Rightarrow> index" where
  "autoChanged_point x v point s =
     (if truthy point then
        on_map (\<lambda>g. show_info x (to_str (strFromPoi v))
          ((set_marker x (fld point ''lat'', fld point ''lng'') g)\<lparr>g_center := (fld point ''lat'', fld point ''lng''), g_zoom := 13\<rparr>)) s
      else s)"

(* src/dida/fly/js/index.js:466-491 autoChanged *)
definition autoChanged :: "(jsv \<Rightarrow> jsv \<Rightarrow> string) \<Rightarrow> side \<Rightarrow> jsv \<Rightarrow> index \<Rightarrow> index" where
  "autoChanged dis x res s =
     (case bind_sum (js_get res ''item'') (\<lambda>item. js_get item ''value'') of
        Inl e \<Rightarrow> raise e s
      | Inr v \<Rightarrow>
          seq (\<lambda>s. case ix_map s of None \<Rightarrow> throw s | Some _ \<Rightarrow> s\<lparr>ix_asked := ix_asked s @ [(x, strFromPoi v)]\<rparr>)
            (upPlan dis x v) s)"

subsection \<open>Everything that can happen\<close>

(* src/dida/fly/js/index.js:416-432 bindMapChange *)
datatype index_ev =
    ITyped index_el string | IReady | IMapReady | ICity jsv | ISearch | IMatch jsv | IPrev | INext | IContinue
  | IRepeat | IWday nat | ILeave | ILeft jsv | ISubscribe nat | IMember jsv
  | IDragged side jsv | IChosen side jsv | IMarker side jsv jsv | IPoint side jsv | ICityOf side "jsv list" nat jsv | IInfo side

(* src/dida/fly/js/index.js:146-158 bindClick *)
fun index_step :: "(jsv \<Rightarrow> jsv \<Rightarrow> string) \<Rightarrow> index_ev \<Rightarrow> index \<Rightarrow> index" where
  "index_step dis (ITyped i v) = on i (set_val v)"
| "index_step dis IReady = setDefault"
| "index_step dis IMapReady = onMapReady"
| "index_step dis (ICity d) = onMapReady_reply d"
| "index_step dis ISearch = matchPlan dis"
| "index_step dis (IMatch d) = matchPlan_reply d"
| "index_step dis IPrev = step_click (-1)"
| "index_step dis INext = step_click 1"
| "index_step dis IContinue = continue_click"
| "index_step dis IRepeat = wdayChanged"
| "index_step dis (IWday i) = (\<lambda>s. s\<lparr>ix_wdays := (ix_wdays s)[i := map_prod id Not (ix_wdays s ! i)]\<rparr>)"
| "index_step dis ILeave = leavePlan"
| "index_step dis (ILeft d) = leavePlan_reply d"
| "index_step dis (ISubscribe i) = subscribe_click i"
| "index_step dis (IMember d) = subscribe_reply d"
| "index_step dis (IDragged x r) = markDraged_found dis x r"
| "index_step dis (IChosen x r) = autoChanged dis x r"
| "index_step dis (IMarker x v p) = autoChanged_point x v p"
| "index_step dis (IPoint x p) = upPlan_point dis x p"
| "index_step dis (ICityOf x arrs pos d) = city_answer x arrs pos d"
| "index_step dis (IInfo x) = close_info x"


subsection \<open>Lemmas: the frame\<close>

lemma index_on [simp]:
  "ix_plan (on i f (s :: index)) = ix_plan s" "ix_mplans (on i f s) = ix_mplans s" "ix_pnum (on i f s) = ix_pnum s"
  "ix_pcur (on i f s) = ix_pcur s" "ix_map (on i f s) = ix_map s"
  by (simp_all add: on_def)

lemma index_send [simp]:
  "ix_plan (send m u ps (s :: index)) = ix_plan s" "ix_plan (raise e s) = ix_plan s" "ix_plan (throw s) = ix_plan s"
  by (simp_all add: send_def raise_def throw_def)

lemma html_of_frame [simp]:
  "e_shown (html_of v e) = e_shown e" "e_attrs (html_of v e) = e_attrs e"
  "e_shown (sdate_html p e) = e_shown e" "e_attrs (sdate_html p e) = e_attrs e"
  by (simp_all add: html_of_def sdate_html_def set_html_def)

lemma elem_frame [simp]:
  "e_shown (set_html v e) = e_shown e" "e_attrs (set_html v e) = e_attrs e" "e_attrs (show_el e) = e_attrs e"
  "e_html (show_el e) = e_html e" "e_shown (show_el e) = True" "\<not> e_shown (hide_el e)"
  "e_attrs (set_attr k v e) = (e_attrs e)(k := Some v)" "e_html (set_html v e) = v" "e_shown (set_attr k v e) = e_shown e"
  by (simp_all add: dom_defs)

subsection \<open>Lemmas: the cursor\<close>

text \<open>A route that can be shown: its box can be read, its source is one of the four.\<close>

definition route_ok :: "jsv \<Rightarrow> bool" where
  "route_ok p \<longleftrightarrow> (case p of JObj _ \<Rightarrow> True | _ \<Rightarrow> False) \<and> (case dbbox2ll (fld p ''rect'') of Inr _ \<Rightarrow> True | _ \<Rightarrow> False) \<and>
     (gt_int (fld p ''ori'') 0 \<longrightarrow> odomain (fld p ''ori'') \<noteq> None)"

definition pic_url :: "string \<Rightarrow> jsv \<Rightarrow> string" where
  "pic_url type p = ''/image/plan/pic?defs=segv&type='' @ type @ ''&id='' @ to_str (fld p ''id'')"

text \<open>
  The page shows route \<open>k\<close> of \<open>plans\<close>, of which it believes that there are \<open>n\<close>; its exceptions are
  \<open>th\<close>.
\<close>

definition at_route :: "jsv list \<Rightarrow> nat \<Rightarrow> js_error list \<Rightarrow> index \<Rightarrow> nat \<Rightarrow> bool" where
  "at_route plans n th s k \<longleftrightarrow>
     thrown s = th \<and> ix_map s \<noteq> None \<and> ix_mplans s = JArr plans \<and> to_num (ix_pnum s) = Fin (of_nat n) \<and>
     ix_pcur s = Some (int k) \<and> k < length plans \<and>
     (e_shown (dom s IxPrev) \<longleftrightarrow> 0 < k) \<and> (e_shown (dom s IxNext) \<longleftrightarrow> k + 1 < n) \<and>
     e_html (dom s IxNum) = nat_str (k + 1) @ '' / '' @ to_str (ix_pnum s) \<and>
     e_attrs (dom s IxPlanurl) ''href'' = Some (''/plan/info?id='' @ to_str (fld (plans ! k) ''id'')) \<and>
     e_attrs (dom s IxPhone) ''src'' = Some (pic_url ''phone'' (plans ! k)) \<and>
     e_attrs (dom s IxContact) ''src'' = Some (pic_url ''contact'' (plans ! k))"

lemma nat_str_not_length: "nat_str k \<noteq> ''length''"
  using parseInt_nat_str [of k] by (auto simp: parseInt_def is_space_def is_digit_def)

lemma plans_at: "js_get (JArr plans) (int_str (int k)) = Inr (if k < length plans then plans ! k else JUndef)"
  by (simp add: nat_str_not_length int_str_def)

lemma minus_one_less: "num_lt (Fin (of_int (int k))) (minus_one (Fin (of_nat n))) \<longleftrightarrow> k + 1 < n"
  by (simp add: minus_one_def) linarith

lemma rendFrom_ok:
  "route_ok p \<Longrightarrow> \<exists>f. rendFrom p s = on IxFrom f s"
proof -
  assume "route_ok p"
  then obtain "gt_int (fld p ''ori'') 0 \<longrightarrow> (\<exists>u i t. odomain (fld p ''ori'') = Some (u, i, t))"
    by (auto simp: route_ok_def)
  moreover have "on i g (on i h s) = on i (g \<circ> h) s" for i g h and s :: index by (simp add: on_def)
  ultimately show ?thesis by (auto simp: rendFrom_def Let_def)
qed

lemma rendMatch_ok:
  assumes "route_ok p"
  shows "\<exists>f. rendMatch p k s = rendPics p (on IxFrom f (rendDetails p k (rendCursor k s)))"
proof -
  obtain f where f: "rendFrom p (rendDetails p k (rendCursor k s)) = on IxFrom f (rendDetails p k (rendCursor k s))"
    using rendFrom_ok [OF assms] by blast
  have "thrown (rendDetails p k (rendCursor k s)) = thrown s" by (simp add: rendDetails_def rendCursor_def)
  then show ?thesis using f by (auto simp: rendMatch_def seq_def)
qed

lemma rendPlan_at:
  assumes "k < length plans" "route_ok (plans ! k)" "ix_map s \<noteq> None" "ix_mplans s = JArr plans"
    "to_num (ix_pnum s) = Fin (of_nat n)"
  shows "at_route plans n (thrown s) (rendPlan (int k) s) k"
proof -
  obtain ps g where p: "plans ! k = JObj ps" and g: "ix_map s = Some g" using assms(2,3) by (auto simp: route_ok_def split: jsv.splits)
  obtain a b c d where box: "dbbox2ll (fld (plans ! k) ''rect'') = Inr ((a, b), (c, d))"
    using assms(2) by (auto simp: route_ok_def split: sum.splits)
  define s1 where "s1 = s\<lparr>ix_map := Some (g\<lparr>g_prect := [(JNum a, JNum b), (JNum c, JNum d)]\<rparr>)\<rparr>"
  have "js_get (plans ! k) ''rect'' = Inr (fld (plans ! k) ''rect'')" using p by simp
  then have "rendPlan (int k) s = rendMatch (plans ! k) (int k) s1"
    using assms(1) box g by (simp add: rendPlan_def assms(4) plans_at seq_def on_map_def s1_def del: js_get.simps)
  moreover obtain f where "rendMatch (plans ! k) (int k) s1 = rendPics (plans ! k) (on IxFrom f (rendDetails (plans ! k) (int k) (rendCursor (int k) s1)))"
    using rendMatch_ok [OF assms(2)] by blast
  ultimately have e: "rendPlan (int k) s = rendPics (plans ! k) (on IxFrom f (rendDetails (plans ! k) (int k) (rendCursor (int k) s1)))"
    by simp
  have m: "num_lt (Fin (rat_of_int (int k))) (minus_one (Fin (rat_of_nat n))) \<longleftrightarrow> Suc k < n"
    using minus_one_less by simp
  have i: "int_str (int k + 1) = nat_str (k + 1)" by (simp add: int_str_def nat_add_distrib)
  show ?thesis unfolding at_route_def e rendPics_def rendDetails_def rendCursor_def s1_def
    using assms(1) by (intro conjI) (simp_all add: m i assms(4,5) pic_url_def del: of_int_of_nat_eq)
qed

text \<open>A click on one of the two buttons; the one that is hidden cannot be clicked.\<close>

definition press :: "bool \<Rightarrow> index \<Rightarrow> index" where
  "press forth s = (if e_shown (dom s (if forth then IxNext else IxPrev)) then step_click (if forth then 1 else -1) s else s)"

text \<open>What the cursor should be: the number of the route shown, and how often a click threw.  The count is \<open>n\<close>, and \<open>m\<close> routes
  came: beyond the last of them a click on the next one, which is offered if the count is larger, fails.\<close>

definition cursor_step :: "nat \<Rightarrow> nat \<Rightarrow> bool \<Rightarrow> nat \<times> nat \<Rightarrow> nat \<times> nat" where
  "cursor_step n m forth c = (case c of (k, e) \<Rightarrow>
     if \<not> forth then (k - 1, e) else if k + 1 \<ge> n then (k, e) else if k + 1 < m then (k + 1, e) else (k, e + 1))"

definition throws :: "js_error list \<Rightarrow> nat \<Rightarrow> js_error list" where
  "throws th e = th @ replicate e TypeError"

lemma throws_Suc: "throws th e @ [TypeError] = throws th (Suc e)"
  by (simp add: throws_def replicate_append_same)

lemma press_beyond:
  assumes "at_route plans n th s k" "k + 1 < n" "k + 1 = length plans"
  shows "press True s = throw s"
proof -
  have a: "ix_mplans s = JArr plans" "ix_pcur s = Some (int k)" "e_shown (dom s IxNext)"
    using assms by (auto simp: at_route_def)
  have "step_click 1 s = rendPlan (int (k + 1)) s" using a(2) by (simp add: step_click_def add.commute)
  moreover have "js_get (JArr plans) (int_str (int (k + 1))) = Inr JUndef" using assms(3) by (subst plans_at) simp
  ultimately have "step_click 1 s = throw s" using a(1) by (simp add: rendPlan_def throw_def del: js_get.simps(4))
  then show ?thesis using a(3) by (simp add: press_def)
qed

lemma at_route_throw: "at_route plans n th (throw s) k \<longleftrightarrow> (\<exists>t. th = t @ [TypeError] \<and> at_route plans n t s k)"
  by (auto simp: at_route_def throw_def raise_def)

lemma press_at:
  assumes "at_route plans n (throws th e) s k" "\<forall>p \<in> set plans. route_ok p" "cursor_step n (length plans) forth (k, e) = (j, f)"
  shows "at_route plans n (throws th f) (press forth s) j"
proof -
  have r: "at_route plans n (throws th e) (rendPlan (int i) s) i" if "i < length plans" for i
    using rendPlan_at [of i plans s n] assms(1,2) that by (simp add: at_route_def)
  have k: "k < length plans" "ix_pcur s = Some (int k)" "e_shown (dom s IxPrev) \<longleftrightarrow> 0 < k" "e_shown (dom s IxNext) \<longleftrightarrow> k + 1 < n"
    using assms(1) by (simp_all add: at_route_def)
  show ?thesis
  proof (cases "forth \<and> k + 1 < n \<and> \<not> k + 1 < length plans")
    case True
    then have "press forth s = throw s" "j = k" "f = Suc e"
      using press_beyond [OF assms(1)] k(1) assms(3) by (auto simp: cursor_step_def)
    then show ?thesis
      using assms(1) by (auto simp: at_route_throw throws_Suc [symmetric])
  next
    case False
    then show ?thesis
      using r [of "k + 1"] r [of "k - 1"] k assms(1,3)
      by (auto simp: press_def cursor_step_def step_click_def of_nat_diff algebra_simps split: if_splits)
  qed
qed

interpretation route: simulation press "cursor_step n (length plans)"
    "\<lambda>s (k, e). at_route plans n (throws th e) s k \<and> (\<forall>p \<in> set plans. route_ok p)" for plans n th
  by unfold_locales (auto split: prod.splits intro: press_at)

lemma matchPlan_reply_at:
  assumes "loose_eq (fld (JObj ps) ''success'') (JStr ''1'')" "fld (JObj ps) ''plans'' = JArr plans" "plans \<noteq> []"
    "route_ok (plans ! 0)" "ix_map s \<noteq> None"
    "if truthy (fld (JObj ps) ''_ntt'') then to_num (fld (JObj ps) ''_ntt'') = Fin (of_nat n) else n = length plans"
  shows "at_route plans n (thrown s) (matchPlan_reply (JObj ps) s) 0"
proof -
  have "is_type ''Array'' (JArr plans)" by (simp add: is_type_def utl_type_def)
  moreover define s1 where "s1 = on IxNum (set_html (''0 / '' @ to_str (if truthy (fld (JObj ps) ''_ntt'') then fld (JObj ps) ''_ntt'' else jint (int (length plans)))))
     ((on IxMatchPanel (add_class ''success'') (on IxMatchPanel (remove_class ''loading'') s))\<lparr>
        ix_pnum := if truthy (fld (JObj ps) ''_ntt'') then fld (JObj ps) ''_ntt'' else jint (int (length plans)), ix_mplans := JArr plans\<rparr>)"
  moreover have "fld (JArr plans) ''length'' = jint (int (length plans))" by (simp add: fld_def)
  ultimately have "matchPlan_reply (JObj ps) s = rendPlan (int 0) s1"
    using assms(1,2) by (simp add: matchPlan_reply_def Let_def del: fld_JObj)
  moreover have "at_route plans n (thrown s1) (rendPlan (int 0) s1) 0"
    by (rule rendPlan_at) (use assms in \<open>auto simp: s1_def jint_def simp del: fld_JObj split: if_splits\<close>)
  ultimately show ?thesis by (simp add: s1_def)
qed


subsection \<open>Lemmas: what a search sends\<close>

lemma get_set_plan [simp]: "get_plan k (set_plan j v s) = (if k = j then v else get_plan k s)"
  by (simp add: get_plan_def set_plan_def update_conv')

lemma set_plan_frame [simp]:
  "dom (set_plan k v s) = dom s" "reqs (set_plan k v s) = reqs s" "thrown (set_plan k v s) = thrown s"
  "map_of (ix_plan (set_plan k v s)) = (map_of (ix_plan s))(k \<mapsto> v)" "ix_map (set_plan k v s) = ix_map s"
  by (simp_all add: set_plan_def update_conv')

lemma get_plan_frame [simp]:
  "get_plan k (on i f s) = get_plan k s" "get_plan k (s\<lparr>ix_mplans := m\<rparr>) = get_plan k s"
  "get_plan k (s\<lparr>ix_asked := a\<rparr>) = get_plan k s"
  by (simp_all add: get_plan_def)

text \<open>A search carries the phone of the visitor.\<close>

definition carries :: "request \<Rightarrow> bool" where
  "carries r \<longleftrightarrow> (r_url r = ''/json/plan/match'' \<longrightarrow> (\<exists>v. map_of (r_params r) ''phone'' = Some (JStr v)))"

text \<open>The visitor has left a phone, and every request from the \<open>b\<close>-th on carries it.\<close>

definition leaks :: "nat \<Rightarrow> index \<Rightarrow> bool" where
  "leaks b s \<longleftrightarrow> (\<exists>v. map_of (ix_plan s) ''phone'' = Some (JStr v)) \<and> list_all carries (drop b (reqs s)) \<and> b \<le> length (reqs s)"

lemma leaks_frame [simp]:
  "leaks b (on i f s) = leaks b s" "leaks b (raise e s) = leaks b s" "leaks b (throw s) = leaks b s"
  "leaks b (s\<lparr>ix_map := m\<rparr>) = leaks b s" "leaks b (s\<lparr>ix_mplans := p\<rparr>) = leaks b s" "leaks b (s\<lparr>ix_pnum := n\<rparr>) = leaks b s"
  "leaks b (s\<lparr>ix_pcur := c\<rparr>) = leaks b s" "leaks b (s\<lparr>ix_city := j\<rparr>) = leaks b s" "leaks b (s\<lparr>ix_wdays := w\<rparr>) = leaks b s"
  "leaks b (s\<lparr>ix_subs := u\<rparr>) = leaks b s" "leaks b (s\<lparr>ix_dida := d\<rparr>) = leaks b s" "leaks b (s\<lparr>ix_asked := a\<rparr>) = leaks b s"
  by (cases s; simp add: leaks_def on_def raise_def throw_def)+

lemma leaks_on_map [simp]: "leaks b (on_map f s) = leaks b s"
  by (simp add: on_map_def split: option.splits)

lemma leaks_seq: "leaks b s \<Longrightarrow> (\<And>t. leaks b t \<Longrightarrow> leaks b (f t)) \<Longrightarrow> (\<And>t. leaks b t \<Longrightarrow> leaks b (g t)) \<Longrightarrow> leaks b (seq f g s)"
  by (simp add: seq_def Let_def)

lemma leaks_set_plan: "leaks b s \<Longrightarrow> k \<noteq> ''phone'' \<Longrightarrow> leaks b (set_plan k v s)"
  by (auto simp: leaks_def)

lemma leaks_phone: "leaks b s \<Longrightarrow> leaks b (set_plan ''phone'' (JStr v) s)"
  by (auto simp: leaks_def)

lemma leaks_send: "leaks b s \<Longrightarrow> carries \<lparr>r_method = m, r_url = u, r_params = ps\<rparr> \<Longrightarrow> leaks b (send m u ps s)"
  by (simp add: leaks_def send_def)

lemma leaks_send_other: "leaks b s \<Longrightarrow> u \<noteq> ''/json/plan/match'' \<Longrightarrow> leaks b (send m u ps s)"
  by (rule leaks_send) (simp_all add: carries_def)

lemma ends_not_phone [simp]: "ends x k \<noteq> ''phone''"
  by (cases x) simp_all

lemma leaks_check: "leaks b (snd (check_field i s)) = leaks b s"
proof -
  have "leaks b (alert m s) = leaks b s" for m by (simp add: leaks_def alert_def)
  then show ?thesis by (cases "e_attrs (dom s i) ''verrmsg''") (simp_all add: check_field_eq reportErr_def)
qed

lemma leaks_inputval: "leaks b (snd (inputval is s)) = leaks b s"
proof (induction "is" arbitrary: s)
  case (Cons i "is")
  obtain ok t where c: "check_field i s = (ok, t)" by (cases "check_field i s")
  then have "leaks b t = leaks b s" using leaks_check [of b i s] by simp
  with Cons c show ?case by (cases ok) (simp_all add: inputval.simps)
qed (simp add: inputval.simps)

lemma leaks_rendPlan: "leaks b s \<Longrightarrow> leaks b (rendPlan k s)"
  by (auto simp: rendPlan_def rendMatch_def rendFrom_def rendDetails_def rendCursor_def rendPics_def Let_def
      split: sum.splits option.splits intro!: leaks_seq)

lemma leaks_search: "leaks b s \<Longrightarrow> leaks b (up_search x (city_get f arrs pos) s)"
  by (auto simp: up_search_def city_get_def upPlan_city_def leaks_set_plan split: sum.splits)
    (simp add: leaks_def carries_def city_request_def)

lemma leaks_upPlan: "leaks b s \<Longrightarrow> leaks b (upPlan dis x data s)"
  by (auto simp: upPlan_def Let_def set_end_def rendDirect_def leaks_set_plan leaks_search
      split: sum.splits option.splits side.splits intro!: leaks_seq)

lemma leaks_matchPlan: "leaks b s \<Longrightarrow> leaks b (matchPlan dis s)"
  by (auto simp: matchPlan_def Let_def set_query_def set_times_def leaks_set_plan intro!: leaks_send)
    (auto simp: leaks_def carries_def)

lemma leaks_leavePlan: "leaks b s \<Longrightarrow> leaks b (leavePlan s)"
  by (auto simp: leavePlan_def when_valid_eq Let_def set_left_def leaks_set_plan leaks_phone leaks_inputval intro!: leaks_send_other)


lemma leaks_step: "leaks b s \<Longrightarrow> leaks b (index_step dis e s)"
proof (cases e)
  case (IMatch d)
  assume "leaks b s"
  then show ?thesis by (auto simp: IMatch matchPlan_reply_def Let_def add_note_def intro!: leaks_rendPlan)
next
  case (ISubscribe i)
  assume s: "leaks b s"
  have "leaks b (case inputval fs t of (True, u) \<Rightarrow> u | (False, u) \<Rightarrow> set_check i False u)" if "leaks b t" for t fs
    using that leaks_inputval [of b fs t] by (auto simp: set_check_def split: prod.splits bool.splits)
  moreover have "leaks b (ask_login t)" if "leaks b t" for t
    using that by (auto simp: ask_login_def Let_def split: prod.splits)
  ultimately show ?thesis using s
    by (auto simp: ISubscribe subscribe_click_def Let_def set_check_def intro!: leaks_seq leaks_send_other)
next
  case (IDragged x r)
  assume "leaks b s"
  then show ?thesis
    by (auto simp: IDragged markDraged_found_def Let_def split: sum.splits prod.splits jsv.splits intro!: leaks_seq leaks_upPlan)
next
  case (IChosen x r)
  assume "leaks b s"
  then show ?thesis
    by (auto simp: IChosen autoChanged_def split: sum.splits option.splits intro!: leaks_seq leaks_upPlan)
next
  case (IPoint x p)
  assume "leaks b s"
  then show ?thesis by (auto simp: IPoint upPlan_point_def set_end_def rendDirect_def Let_def leaks_set_plan split: side.splits)
next
  case (ICityOf x arrs pos d)
  assume "leaks b s"
  then show ?thesis
    by (auto simp: ICityOf city_answer_def city_reply_def leaks_search) (auto simp: up_search_def upPlan_city_def leaks_set_plan)
qed (auto simp: setDefault_def onMapReady_def onMapReady_reply_def initMap_def leaks_matchPlan step_click_def leaks_rendPlan
    continue_click_def wdayChanged_def leaks_leavePlan leavePlan_reply_def settle_def add_note_def subscribe_reply_def
    autoChanged_point_def close_info_def Let_def split: sum.splits option.splits intro!: leaks_send_other)

interpretation leak: machine "index_step dis" "leaks b" for dis b
  by unfold_locales (rule leaks_step)


lemma match_request:
  assumes "is_arr (get_plan ''sll'' s)" "is_arr (get_plan ''ell'' s)"
  obtains ps where "reqs (matchPlan dis s) = reqs s @ [\<lparr>r_method = GET, r_url = ''/json/plan/match'', r_params = ps\<rparr>]"
    "\<And>k. k \<notin> set [''dad'', ''date'', ''time'', ''rect'', ''sgeo'', ''egeo'', ''km''] \<Longrightarrow> map_of ps k = map_of (ix_plan s) k"
    "map_of ps ''sgeo'' = Some (JStr (''('' @ comma (get_plan ''sll'' s) @ '')''))"
proof -
  define t where "t = set_query dis ((on IxNav hide_el (on IxResult hide_el (on IxNoresult hide_el s)))\<lparr>ix_mplans := JObj []\<rparr>)"
  have r: "reqs (matchPlan dis s) = reqs s @ [\<lparr>r_method = GET, r_url = ''/json/plan/match'', r_params = ix_plan t\<rparr>]"
    using assms by (simp add: matchPlan_def Let_def t_def set_query_def set_times_def)
  have k: "map_of (ix_plan t) k = map_of (ix_plan s) k" if "k \<notin> set [''dad'', ''date'', ''time'', ''rect'', ''sgeo'', ''egeo'', ''km'']" for k
    using that by (simp add: t_def set_query_def set_times_def Let_def)
  have g: "map_of (ix_plan t) ''sgeo'' = Some (JStr (''('' @ comma (get_plan ''sll'' s) @ '')''))"
    by (simp add: t_def set_query_def set_times_def Let_def)
  from that [OF r k g] show thesis .
qed

lemma upPlan_unknown:
  assumes "is_type ''Object'' (JObj ds)" "\<not> truthy (fld (JObj ds) ''point'')" "ix_map s \<noteq> None"
  shows "ix_plan (upPlan dis x (JObj ds) s) = ix_plan (set_plan (ends x ''addr'') (strFromPoi (JObj ds)) s)"
    "dom (upPlan dis x (JObj ds) s) = dom s" "ix_map (upPlan dis x (JObj ds) s) = ix_map s"
    "thrown (upPlan dis x (JObj ds) s) = thrown s"
  using assms by (auto simp: upPlan_def Let_def seq_def getCityByPoi_def city_get_def up_search_def split: option.splits)

subsection \<open>Properties\<close>

text \<open>
  C3. The cursor over the routes found refines a counter.  The reply of a search has routes that can be read, and the count
  that the server gives with them, a number or the text of one (without it, their number counts).  Then whatever is clicked of
  the buttons that are shown, the route shown is the one where the counter stands, from 0 up to the last route that came or
  that is counted, and each button is shown exactly where the count lets the counter move that way.  Nothing throws except a
  click on the next route after the last one that came, which is offered when more are counted, and leaves the page as it is.
\<close>

theorem cursor_refines_counter:
  assumes "loose_eq (fld (JObj ps) ''success'') (JStr ''1'')" "fld (JObj ps) ''plans'' = JArr plans" "plans \<noteq> []"
    "\<forall>p \<in> set plans. route_ok p" "ix_map s \<noteq> None"
    "if truthy (fld (JObj ps) ''_ntt'') then to_num (fld (JObj ps) ''_ntt'') = Fin (of_nat n) else n = length plans"
  shows "case fold (cursor_step n (length plans)) clicks (0, 0) of (k, e) \<Rightarrow>
     at_route plans n (thrown s @ replicate e TypeError) (fold press clicks (matchPlan_reply (JObj ps) s)) k"
proof -
  have "at_route plans n (throws (thrown s) 0) (matchPlan_reply (JObj ps) s) 0"
    using matchPlan_reply_at [OF assms(1-3) _ assms(5,6)] assms(3,4) by (simp add: throws_def)
  then show ?thesis
    using route.run_rel [where a = "(0, 0)", of plans n "thrown s" _ clicks] assms(4) by (auto simp: throws_def split: prod.splits)
qed

definition route_of :: "string \<Rightarrow> jsv" where
  "route_of n = JObj [(''id'', JStr n), (''rect'', JStr ''((28,113),(22,112))'')]"

definition fresh_index :: index where
  "fresh_index = \<lparr>dom = (\<lambda>_. blank), reqs = [], alerts = [], thrown = [], ix_plan = [], ix_mplans = JUndef, ix_pnum = JUndef,
     ix_pcur = None, ix_map = Some (fresh_map (jint 0, jint 0)), ix_city = JUndef, ix_wdays = [], ix_subs = [],
     ix_dida = fresh_dida '''' [], ix_asked = []\<rparr>"

lemma route_of_ok: "route_ok (route_of n)"
proof -
  have "case dbbox2ll (JStr ''((28,113),(22,112))'') of Inr _ \<Rightarrow> True | _ \<Rightarrow> False" by code_simp
  then show ?thesis by (simp add: route_ok_def route_of_def gt_int_def)
qed

text \<open>The server counts three routes and sends two.\<close>

theorem cursor_refines_counter_witness:
  "at_route [route_of ''1'', route_of ''2''] 3 [TypeError] (fold press [True, True, False, True]
     (matchPlan_reply (JObj [(''success'', JStr ''1''), (''_ntt'', JStr ''3''), (''plans'', JArr [route_of ''1'', route_of ''2''])]) fresh_index)) 1"
proof -
  have "to_num (JStr ''3'') = Fin (of_nat 3)" by code_simp
  then show ?thesis
    using cursor_refines_counter [of "[(''success'', JStr ''1''), (''_ntt'', JStr ''3''), (''plans'', JArr [route_of ''1'', route_of ''2''])]"
        "[route_of ''1'', route_of ''2'']" fresh_index 3 "[True, True, False, True]"]
    by (simp add: route_of_ok fresh_index_def cursor_step_def del: to_num.simps)
qed

text \<open>
  When the server counts more routes than it sends, the button to the next one stays behind the
  last one sent, and a click on it throws and leaves the page as it is.
\<close>

theorem count_beyond_routes:
  assumes "at_route plans n th s (length plans - 1)" "length plans < n"
  shows "e_shown (dom s IxNext)" and "press True s = throw s"
proof -
  have a: "0 < length plans" "e_shown (dom s IxNext)" using assms by (auto simp: at_route_def)
  show "e_shown (dom s IxNext)" by (rule a(2))
  show "press True s = throw s" using press_beyond [OF assms(1)] a(1) assms(2) by simp
qed

theorem count_beyond_routes_witness:
  "press True (matchPlan_reply (JObj [(''success'', JStr ''1''), (''plans'', JArr [route_of ''1'']), (''_ntt'', jint 2)]) fresh_index) =
   throw (matchPlan_reply (JObj [(''success'', JStr ''1''), (''plans'', JArr [route_of ''1'']), (''_ntt'', jint 2)]) fresh_index)"
proof (rule count_beyond_routes(2))
  show "at_route [route_of ''1''] 2 (thrown fresh_index)
      (matchPlan_reply (JObj [(''success'', JStr ''1''), (''plans'', JArr [route_of ''1'']), (''_ntt'', jint 2)]) fresh_index) (length [route_of ''1''] - 1)"
    using matchPlan_reply_at [of "[(''success'', JStr ''1''), (''plans'', JArr [route_of ''1'']), (''_ntt'', jint 2)]" "[route_of ''1'']" fresh_index 2]
    by (simp add: route_of_ok fresh_index_def jint_def)
qed simp

text \<open>
  C16. Once a visitor has left a route with a phone, every later search of the page sends a phone along
  in its address, whatever happens in between: leaving a route writes into the object that a search
  sends as it is.
\<close>

theorem left_phone_is_searched_with:
  assumes "ready [NoPhone] s"
  shows "\<forall>r \<in> set (drop (length (reqs (leavePlan s))) (reqs (fold (index_step dis) es (leavePlan s)))).
    r_url r = ''/json/plan/match'' \<longrightarrow> (\<exists>v. map_of (r_params r) ''phone'' = Some (JStr v))"
proof -
  have "leaks (length (reqs (leavePlan s))) (leavePlan s)"
    using assms by (simp add: leavePlan_def when_valid_ready leaks_def set_left_def Let_def)
  from leak.run_inv [OF this, of dis es] show ?thesis by (simp add: leaks_def list_all_iff carries_def)
qed

lemma start_left_behind_facts:
  assumes "is_type ''Object'' (JObj ds)" "\<not> truthy (fld (JObj ds) ''point'')" "ix_map s \<noteq> None"
    "is_arr (get_plan ''sll'' s)" "is_arr (get_plan ''ell'' s)"
  shows "\<exists>ps. last (reqs (matchPlan dis (upPlan_point dis S JNull (upPlan dis S (JObj ds) s)))) =
      \<lparr>r_method = GET, r_url = ''/json/plan/match'', r_params = ps\<rparr> \<and>
      map_of ps ''saddr'' = Some (strFromPoi (JObj ds)) \<and> map_of ps ''sll'' = map_of (ix_plan s) ''sll'' \<and>
      map_of ps ''sgeo'' = Some (JStr (''('' @ to_str (get_plan ''sll'' s) @ '')''))"
    and "ix_map (upPlan_point dis S point (upPlan dis S (JObj ds) s)) = ix_map s \<and>
      dom (upPlan_point dis S point (upPlan dis S (JObj ds) s)) IxKm = dom s IxKm"
proof -
  define u where "u = upPlan dis S (JObj ds) s"
  have p: "map_of (ix_plan u) k = (if k = ''saddr'' then Some (strFromPoi (JObj ds)) else map_of (ix_plan s) k)" for k
    using upPlan_unknown(1) [OF assms(1-3), of dis S] by (simp add: u_def)
  have g: "get_plan ''sll'' u = get_plan ''sll'' s" "get_plan ''ell'' u = get_plan ''ell'' s"
    by (simp_all add: get_plan_def p)
  obtain ps where r: "reqs (matchPlan dis u) = reqs u @ [\<lparr>r_method = GET, r_url = ''/json/plan/match'', r_params = ps\<rparr>]"
    and k: "\<And>k. k \<notin> set [''dad'', ''date'', ''time'', ''rect'', ''sgeo'', ''egeo'', ''km''] \<Longrightarrow> map_of ps k = map_of (ix_plan u) k"
    and sg: "map_of ps ''sgeo'' = Some (JStr (''('' @ comma (get_plan ''sll'' u) @ '')''))"
    using match_request [of u dis] assms(4,5) g by metis
  have "upPlan_point dis S JNull u = u" by (simp add: upPlan_point_def)
  then show "\<exists>ps. last (reqs (matchPlan dis (upPlan_point dis S JNull (upPlan dis S (JObj ds) s)))) =
      \<lparr>r_method = GET, r_url = ''/json/plan/match'', r_params = ps\<rparr> \<and>
      map_of ps ''saddr'' = Some (strFromPoi (JObj ds)) \<and> map_of ps ''sll'' = map_of (ix_plan s) ''sll'' \<and>
      map_of ps ''sgeo'' = Some (JStr (''('' @ to_str (get_plan ''sll'' s) @ '')''))"
    using r k sg g p by (simp add: comma_def flip: u_def)
  show "ix_map (upPlan_point dis S point (upPlan dis S (JObj ds) s)) = ix_map s \<and>
      dom (upPlan_point dis S point (upPlan dis S (JObj ds) s)) IxKm = dom s IxKm"
    using upPlan_unknown(2,3) [OF assms(1-3), of dis S] by (simp add: upPlan_point_def set_end_def)
qed

text \<open>
  The places on the map can fall behind the addresses: after a start that the map does not find the
  next search goes out with the new address and the old coordinates; and a start that it finds
  does not change the line, the zoom and the distance that are shown.
\<close>

theorem start_left_behind:
  assumes "is_type ''Object'' (JObj ds)" "\<not> truthy (fld (JObj ds) ''point'')" "ix_map s \<noteq> None"
    "is_arr (get_plan ''sll'' s)" "is_arr (get_plan ''ell'' s)"
  shows "(\<exists>ps. last (reqs (matchPlan dis (upPlan_point dis S JNull (upPlan dis S (JObj ds) s)))) =
      \<lparr>r_method = GET, r_url = ''/json/plan/match'', r_params = ps\<rparr> \<and>
      map_of ps ''saddr'' = Some (strFromPoi (JObj ds)) \<and> map_of ps ''sll'' = map_of (ix_plan s) ''sll'' \<and>
      map_of ps ''sgeo'' = Some (JStr (''('' @ to_str (get_plan ''sll'' s) @ '')''))) \<and>
    ix_map (upPlan_point dis S point (upPlan dis S (JObj ds) s)) = ix_map s \<and>
    dom (upPlan_point dis S point (upPlan dis S (JObj ds) s)) IxKm = dom s IxKm"
  using start_left_behind_facts [OF assms] by blast

theorem start_left_behind_witness:
  "\<exists>ps. last (reqs (matchPlan (\<lambda>_ _. ''0.00'') (upPlan_point (\<lambda>_ _. ''0.00'') S JNull (upPlan (\<lambda>_ _. ''0.00'') S (JObj [(''city'', JStr ''X'')])
      (fresh_index\<lparr>ix_plan := [(''sll'', JArr [jint 1, jint 2]), (''ell'', JArr [jint 3, jint 4])]\<rparr>))))) =
      \<lparr>r_method = GET, r_url = ''/json/plan/match'', r_params = ps\<rparr> \<and> map_of ps ''sll'' = Some (JArr [jint 1, jint 2])"
  using start_left_behind [of "[(''city'', JStr ''X'')]" "fresh_index\<lparr>ix_plan := [(''sll'', JArr [jint 1, jint 2]), (''ell'', JArr [jint 3, jint 4])]\<rparr>" "\<lambda>_ _. ''0.00''"]
  by (auto simp: is_type_def utl_type_def fresh_index_def get_plan_def)

definition left_page :: index where
  "left_page = fresh_index\<lparr>dom := (\<lambda>_. blank\<lparr>e_val := ''1''\<rparr>), ix_plan := [(''sll'', JArr []), (''ell'', JArr [])]\<rparr>"

theorem left_phone_is_searched_with_witness:
  "\<exists>v. map_of (r_params (last (reqs (matchPlan (\<lambda>_ _. ''0.00'') (leavePlan left_page))))) ''phone'' = Some (JStr v)"
proof -
  have r: "ready [NoPhone] left_page"
    by (simp add: ready_def left_page_def fresh_index_def field_ok_def len_ok_def blank_def class_rules_def)
  have ends: "get_plan ''sll'' (leavePlan left_page) = JArr []" "get_plan ''ell'' (leavePlan left_page) = JArr []"
    using r by (simp_all add: leavePlan_def when_valid_ready Let_def get_plan_def set_left_def) (simp_all add: left_page_def)
  obtain ps where "reqs (matchPlan (\<lambda>_ _. ''0.00'') (leavePlan left_page)) =
      reqs (leavePlan left_page) @ [\<lparr>r_method = GET, r_url = ''/json/plan/match'', r_params = ps\<rparr>]"
    using match_request [of "leavePlan left_page"] ends by (metis is_arr_simps(1))
  then show ?thesis using left_phone_is_searched_with [OF r, of "\<lambda>_ _. ''0.00''" "[ISearch]"] by simp
qed

end
