(* ===== verification/Spd.thy ===== *)
theory Spd
  imports Index
begin

text \<open>
  The robots of the travel site's administration (\<open>dida/fly/js/admin/\<close>): \<open>spd/robot.js\<close> takes the
  collected routes one after another, finds both ends on the map and the cities around them, and posts
  the completed route; \<open>spd/robot-g.js\<close> does it with another map; \<open>pos.js\<close> asks for the coordinates of
  every city.

  The callbacks of a route write into its object long after the robot went on to the next one, so the
  routes live in a store and are named by their place in it.  What the map was asked is kept in logs, its
  answers come as events, and so do the timers that were set.
\<close>

subsection \<open>robot.js\<close>

(* src/dida/fly/js/admin/spd/robot.js:5-17 init *)
datatype robot_el = RbCount | RbRes

datatype rb_timer = TGet | TParse

record robot = "robot_el page" +
  rb_store :: "jsv list"
  rb_plans :: "nat list"
  rb_cur :: nat
  rb_timers :: "rb_timer list"
  rb_asked :: "(nat \<times> side \<times> jsv \<times> jsv) list"
  rb_located :: "(nat \<times> side \<times> jsv) list"

definition plan_get :: "nat \<Rightarrow> string \<Rightarrow> 'z robot_scheme \<Rightarrow> jsv" where
  "plan_get i k s = fld (rb_store s ! i) k"

fun with_prop :: "string \<Rightarrow> jsv \<Rightarrow> jsv \<Rightarrow> jsv" where
  "with_prop k v (JObj ps) = JObj (AList.update k v ps)"
| "with_prop k v w = w"

definition plan_set :: "nat \<Rightarrow> string \<Rightarrow> jsv \<Rightarrow> 'z robot_scheme \<Rightarrow> 'z robot_scheme" where
  "plan_set i k v s = s\<lparr>rb_store := (rb_store s)[i := with_prop k v (rb_store s ! i)]\<rparr>"

definition set_timer :: "rb_timer \<Rightarrow> 'z robot_scheme \<Rightarrow> 'z robot_scheme" where
  "set_timer t s = s\<lparr>rb_timers := rb_timers s @ [t]\<rparr>"

(* src/dida/fly/js/admin/spd/robot.js:31-35 outClear *)
definition outClear :: "'z robot_scheme \<Rightarrow> 'z robot_scheme" where
  "outClear = on RbRes empty_el"

(* src/dida/fly/js/admin/spd/robot.js:37-41 outPut *)
definition outPut :: "string \<Rightarrow> 'z robot_scheme \<Rightarrow> 'z robot_scheme" where
  "outPut msg = on RbRes (append_kid ''pre'' msg)"

definition post_plan :: "nat \<Rightarrow> 'z robot_scheme \<Rightarrow> 'z robot_scheme" where
  "post_plan i s = send POST ''/json/spd/post/robot''
     [(''_op'', JStr ''mod''), (''plan'', JStr (stringify (rb_store s ! i))), (''_type_plan'', JStr ''object'')] s"

(* src/dida/fly/js/admin/spd/robot.js:139-148 parsePlanErr *)
definition parsePlanErr :: "nat \<Rightarrow> 'z robot_scheme \<Rightarrow> 'z robot_scheme" where
  "parsePlanErr i s = post_plan i (plan_set i ''statu'' (jint 11) s)"

(* src/dida/fly/js/admin/spd/robot.js:148-151 parsePlanErr, its callback *)
definition parsePlanErr_reply :: "jsv \<Rightarrow> 'z robot_scheme \<Rightarrow> 'z robot_scheme" where
  "parsePlanErr_reply data s =
     (if data = JUndef \<or> data = JNull then throw s
      else outPut (if is_one (fld data ''success'') then (utf8 [229, 164, 132, 231, 144, 134, 230, 156, 137, 233, 148, 153, 239, 188, 140, 229, 174, 140, 230, 136, 144, 231, 189, 174, 228, 189, 141]) else errmsg data) s)"

text \<open>The map is asked for an address and a city.\<close>

definition ask_point :: "nat \<Rightarrow> side \<Rightarrow> jsv \<Rightarrow> jsv \<Rightarrow> 'z robot_scheme \<Rightarrow> 'z robot_scheme" where
  "ask_point i x addr city s = s\<lparr>rb_asked := rb_asked s @ [(i, x, addr, city)]\<rparr>"

text \<open>The next route: a timer for the one after it, and a question to the map for each end.\<close>

(* src/dida/fly/js/admin/spd/robot.js:62-76 parsePlan *)
definition parsePlan :: "'z robot_scheme \<Rightarrow> 'z robot_scheme" where
  "parsePlan s =
     (if rb_cur s = length (rb_plans s) then set_timer TGet (outPut (utf8 [229, 174, 140, 228, 186, 134, 239, 188, 140, 228, 188, 145, 230, 129, 175, 228, 188, 154, 229, 132, 191, 239, 188, 129]) s)
      else (let i = rb_plans s ! rb_cur s; s1 = set_timer TParse (s\<lparr>rb_cur := rb_cur s + 1\<rparr>)
            in case js_get (rb_store s ! i) ''id'' of
                 Inl e \<Rightarrow> raise e s1
               | Inr pid \<Rightarrow>
                   ask_point i E (plan_get i ''eaddr'' s) (plan_get i ''city'' s) (ask_point i S (plan_get i ''saddr'' s) (plan_get i ''city'' s)
                     (outPut ((utf8 [232, 167, 163, 230, 158, 144, 32]) @ to_str pid @ '':'' @ to_str (plan_get i ''saddr'' s) @ '' - '' @
                        to_str (plan_get i ''eaddr'' s) @ '' ...'') s1))))"

(* src/dida/fly/js/admin/spd/robot.js:43-47 getPlans *)
definition getPlans :: "'z robot_scheme \<Rightarrow> 'z robot_scheme" where
  "getPlans s = send GET ''/json/spd/post/robot'' [] (outClear s)"

(* src/dida/fly/js/admin/spd/robot.js:47-58 getPlans, its callback *)
definition getPlans_reply :: "jsv \<Rightarrow> 'z robot_scheme \<Rightarrow> 'z robot_scheme" where
  "getPlans_reply data s =
     (if data = JUndef \<or> data = JNull then throw s
      else case fld data ''plans'' of
        JArr plans \<Rightarrow>
          if is_one (fld data ''success'') then
            parsePlan (on RbCount (set_html (nat_str (length plans)))
              (s\<lparr>rb_store := rb_store s @ plans,
                 rb_plans := map (\<lambda>k. length (rb_store s) + k) [0..<length plans], rb_cur := 0\<rparr>))
          else set_timer TGet (outPut (to_str (fld data ''errtrace'')) (outPut (errmsg data) s))
      | _ \<Rightarrow> set_timer TGet (outPut (to_str (fld data ''errtrace'')) (outPut (errmsg data) s)))"

text \<open>The map's answer for an address, then for the place, then the city around it.\<close>

definition fail :: "string \<Rightarrow> nat \<Rightarrow> 'z robot_scheme \<Rightarrow> 'z robot_scheme" where
  "fail msg i s = parsePlanErr i (outPut msg s)"

fun not_found :: "side \<Rightarrow> string" where
  "not_found S = (utf8 [232, 167, 163, 230, 158, 144, 232, 181, 183, 231, 130, 185, 229, 164, 177, 232, 180, 165])"
| "not_found E = (utf8 [232, 167, 163, 230, 158, 144, 231, 187, 136, 231, 130, 185, 229, 164, 177, 232, 180, 165])"

(* src/dida/fly/js/admin/spd/robot.js:76-94 parsePlan, the start on the map *)
definition placed :: "side \<Rightarrow> nat \<Rightarrow> jsv \<Rightarrow> 'z robot_scheme \<Rightarrow> 'z robot_scheme" where
  "placed x i point s =
     (if truthy point then
        (plan_set i (ends x ''ll'') (JArr [fld point ''lat'', fld point ''lng'']) s)
          \<lparr>rb_located := rb_located s @ [(i, x, point)]\<rparr>
      else fail (not_found x) i s)"

definition is_long :: "string \<Rightarrow> jsv \<Rightarrow> bool" where
  "is_long km rep \<longleftrightarrow> gt_int rep 0 \<and> gt_int (JStr km) 120"

(* src/dida/fly/js/admin/spd/robot.js:104-124 parsePlan, the route complete *)
definition complete :: "(jsv \<Rightarrow> jsv \<Rightarrow> string) \<Rightarrow> nat \<Rightarrow> 'z robot_scheme \<Rightarrow> 'z robot_scheme" where
  "complete dis i s =
     (let sll = plan_get i ''sll'' s; ell = plan_get i ''ell'' s; km = dis sll ell;
          s1 = fold (\<lambda>(k, v). plan_set i k (JStr v))
            [(''rect'', ''(('' @ comma sll @ ''),('' @ comma ell @ ''))''), (''sgeo'', ''('' @ comma sll @ '')''),
             (''egeo'', ''('' @ comma ell @ '')''), (''km'', km)] s
      in if \<not> is_arr sll \<or> \<not> is_arr ell then throw s
         else post_plan i (if is_long km (plan_get i ''repeat'' s) then fail (utf8 [233, 149, 191, 233, 128, 148, 230, 139, 188, 232, 189, 166, 239, 188, 140, 229, 141, 180, 233, 135, 141, 229, 164, 141, 227, 128, 130]) i s1 else s1))"

(* src/dida/fly/js/admin/spd/robot.js:80-87 parsePlan, the city of the start *)
definition start_city :: "nat \<Rightarrow> jsv \<Rightarrow> 'z robot_scheme \<Rightarrow> 'z robot_scheme" where
  "start_city i city s =
     (if is_type ''Object'' city then plan_set i ''scityid'' (fld city ''id'') s
      else fail ((utf8 [232, 167, 163, 230, 158, 144, 232, 181, 183, 231, 130, 185, 230, 156, 137, 233, 148, 153, 32]) @ to_str city) i s)"

(* src/dida/fly/js/admin/spd/robot.js:100-129 parsePlan, the city of the end *)
definition end_city :: "(jsv \<Rightarrow> jsv \<Rightarrow> string) \<Rightarrow> nat \<Rightarrow> jsv \<Rightarrow> 'z robot_scheme \<Rightarrow> 'z robot_scheme" where
  "end_city dis i city s =
     (if is_type ''Object'' city then
        (let s1 = plan_set i ''ecityid'' (fld city ''id'') s
         in if truthy (plan_get i ''scityid'' s1) \<and> truthy (plan_get i ''ecityid'' s1) then complete dis i s1 else s1)
      else fail ((utf8 [232, 167, 163, 230, 158, 144, 232, 181, 183, 231, 130, 185, 230, 156, 137, 233, 148, 153, 32]) @ to_str city) i s)"

definition city_found :: "(jsv \<Rightarrow> jsv \<Rightarrow> string) \<Rightarrow> side \<Rightarrow> nat \<Rightarrow> jsv \<Rightarrow> 'z robot_scheme \<Rightarrow> 'z robot_scheme" where
  "city_found dis x i city = (case x of S \<Rightarrow> start_city i city | E \<Rightarrow> end_city dis i city)"

definition rb_search :: "(jsv \<Rightarrow> jsv \<Rightarrow> string) \<Rightarrow> side \<Rightarrow> nat \<Rightarrow> search \<Rightarrow> 'z robot_scheme \<Rightarrow> 'z robot_scheme" where
  "rb_search dis x i r s = (case r of
       Asking q pos \<Rightarrow> s\<lparr>reqs := reqs s @ [q]\<rparr>
     | Found city \<Rightarrow> city_found dis x i city s
     | Threw e \<Rightarrow> raise e s)"

(* src/dida/fly/js/admin/spd/robot.js:79-80 parsePlan, the place on the map *)
definition located :: "(jsv \<Rightarrow> jsv \<Rightarrow> string) \<Rightarrow> side \<Rightarrow> nat \<Rightarrow> jsv \<Rightarrow> 'z robot_scheme \<Rightarrow> 'z robot_scheme" where
  "located dis x i result s =
     (case bind_sum (js_get result ''addressComponents'') getCityByPoi of
        Inl e \<Rightarrow> raise e s
      | Inr arrs \<Rightarrow> rb_search dis x i (city_get Inr arrs 0) s)"

(* src/dida/fly/js/admin/spd/robot.js:121-124 parsePlan, the callback of the post *)
definition posted :: "jsv \<Rightarrow> 'z robot_scheme \<Rightarrow> 'z robot_scheme" where
  "posted data s =
     (if data = JUndef \<or> data = JNull then throw s
      else outPut (if is_one (fld data ''success'') then (utf8 [229, 174, 140, 230, 136, 144]) else errmsg data) s)"

datatype rb_ev =
    RGet jsv | RTimer rb_timer | RPlaced side nat jsv | RLocated side nat jsv | RCity side nat "jsv list" nat jsv
  | RErr jsv | RPosted jsv

definition fire :: "rb_timer \<Rightarrow> 'z robot_scheme \<Rightarrow> 'z robot_scheme" where
  "fire t s = (if t \<in> set (rb_timers s) then
     (let s1 = s\<lparr>rb_timers := remove1 t (rb_timers s)\<rparr> in case t of TGet \<Rightarrow> getPlans s1 | TParse \<Rightarrow> parsePlan s1) else s)"

fun robot_step :: "(jsv \<Rightarrow> jsv \<Rightarrow> string) \<Rightarrow> rb_ev \<Rightarrow> 'z robot_scheme \<Rightarrow> 'z robot_scheme" where
  "robot_step dis (RGet d) = getPlans_reply d"
| "robot_step dis (RTimer t) = fire t"
| "robot_step dis (RPlaced x i p) = placed x i p"
| "robot_step dis (RLocated x i r) = located dis x i r"
| "robot_step dis (RCity x i arrs pos d) = rb_search dis x i (city_reply Inr arrs pos d)"
| "robot_step dis (RErr d) = parsePlanErr_reply d"
| "robot_step dis (RPosted d) = posted d"


subsection \<open>pos.js\<close>

record pos = "unit page" +
  ps_cities :: "jsv list"
  ps_cur :: nat
  ps_timer :: bool
  ps_asked :: "(jsv \<times> jsv) list"

(* src/dida/fly/js/admin/pos.js:32-55 getPos *)
definition getPos :: "pos \<Rightarrow> pos" where
  "getPos s =
     (if int (ps_cur s) = int (length (ps_cities s)) - 1 then s
      else if ps_cur s < length (ps_cities s) then
        (case js_get (ps_cities s ! ps_cur s) ''s'' of
           Inl e \<Rightarrow> raise e s
         | Inr c \<Rightarrow> s\<lparr>ps_asked := ps_asked s @ [(c, fld (ps_cities s ! ps_cur s) ''id'')],
                     ps_cur := ps_cur s + 1, ps_timer := True\<rparr>)
      else throw s)"

(* src/dida/fly/js/admin/pos.js:39-51 getPos, the callback of the map *)
definition getPos_found :: "jsv \<Rightarrow> jsv \<Rightarrow> jsv \<Rightarrow> jsv \<Rightarrow> pos \<Rightarrow> pos" where
  "getPos_found c cid results status s =
     (if loose_eq status (JStr ''OK'') then
        (case bind_sum (js_get results ''0'') (\<lambda>r. bind_sum (js_get r ''geometry'') (\<lambda>g. js_get g ''location'')) of
           Inl e \<Rightarrow> raise e s
         | Inr l \<Rightarrow> send POST ''/json/pos'' [(''_op'', JStr ''mod''), (''s'', c), (''id'', cid),
             (''latlng'', JStr (''('' @ to_str (fld l ''lat'') @ '', '' @ to_str (fld l ''lng'') @ '')''))] s)
      else s)"

definition pos_fire :: "pos \<Rightarrow> pos" where
  "pos_fire s = (if ps_timer s then getPos (s\<lparr>ps_timer := False\<rparr>) else s)"

subsection \<open>Lemmas: what the callbacks leave alone\<close>

definition is_obj :: "jsv \<Rightarrow> bool" where
  "is_obj v = (case v of JObj _ \<Rightarrow> True | _ \<Rightarrow> False)"

lemma is_obj_with_prop [simp]: "is_obj (with_prop k v w) = is_obj w"
  by (cases w) (simp_all add: is_obj_def)

lemma is_obj_get: "is_obj v \<Longrightarrow> js_get v k = Inr (fld v k)"
  by (cases v) (simp_all add: is_obj_def)

text \<open>The robot is where it was: its routes, its place in them, its timers and its questions.\<close>

definition same_run :: "'z robot_scheme \<Rightarrow> 'z robot_scheme \<Rightarrow> bool" where
  "same_run r s \<longleftrightarrow> rb_plans s = rb_plans r \<and> rb_cur s = rb_cur r \<and> rb_timers s = rb_timers r \<and> rb_asked s = rb_asked r \<and>
     map is_obj (rb_store s) = map is_obj (rb_store r)"

lemma same_run_refl [simp]: "same_run s s"
  by (simp add: same_run_def)

lemma same_run_page [simp]:
  "same_run r (on i f s) = same_run r s" "same_run r (raise e s) = same_run r s" "same_run r (throw s) = same_run r s"
  "same_run r (send m u ps s) = same_run r s" "same_run r (s\<lparr>rb_located := l\<rparr>) = same_run r s"
  "same_run r (s\<lparr>reqs := q\<rparr>) = same_run r s" "same_run r (outPut msg s) = same_run r s"
  "same_run r (post_plan p s) = same_run r s"
  by (simp_all add: same_run_def on_def raise_def throw_def send_def outPut_def post_plan_def)

lemma same_run_set [simp]: "same_run r (plan_set i k v s) = same_run r s"
proof -
  have "map is_obj ((rb_store s)[i := with_prop k v (rb_store s ! i)]) = map is_obj (rb_store s)"
    by (cases "i < length (rb_store s)") (simp_all add: map_update list_update_same_conv list_update_beyond)
  then show ?thesis by (simp add: same_run_def plan_set_def)
qed

lemma same_run_fail [simp]: "same_run r (fail m i s) = same_run r s" "same_run r (parsePlanErr i s) = same_run r s"
  by (simp_all add: fail_def parsePlanErr_def)

lemma same_run_city [simp]: "same_run r (rb_search dis x i q s) = same_run r s"
  by (simp add: rb_search_def city_found_def start_city_def end_city_def complete_def Let_def split: search.splits side.splits)

lemma same_run_step:
  "same_run s (placed x i p s)" "same_run s (located dis x i r s)" "same_run s (parsePlanErr_reply d s)" "same_run s (posted d s)"
  by (simp_all add: placed_def located_def parsePlanErr_reply_def posted_def split: sum.splits)

subsection \<open>Lemmas: taking up the routes\<close>

definition both_ends :: "nat list \<Rightarrow> (nat \<times> side) list" where
  "both_ends ids = concat (map (\<lambda>i. [(i, S), (i, E)]) ids)"

text \<open>After \<open>k\<close> timers, of routes \<open>ids\<close>; \<open>base\<close> was asked before.\<close>

definition taking :: "nat list \<Rightarrow> (nat \<times> side) list \<Rightarrow> nat \<Rightarrow> 'z robot_scheme \<Rightarrow> bool" where
  "taking ids base k s \<longleftrightarrow>
     rb_plans s = ids \<and> rb_cur s = min (length ids) (k + 1) \<and>
     rb_timers s = [if length ids \<le> k then TGet else TParse] \<and>
     map (\<lambda>(i, x, _). (i, x)) (rb_asked s) = base @ both_ends (take (k + 1) ids) \<and>
     (\<forall>i \<in> set ids. i < length (rb_store s) \<and> is_obj (rb_store s ! i))"

lemma taking_same: "same_run s t \<Longrightarrow> taking ids base k s \<Longrightarrow> taking ids base k t"
  unfolding taking_def same_run_def by (metis length_map nth_map)

lemma parsePlan_more:
  assumes "rb_cur s < length (rb_plans s)" "is_obj (rb_store s ! (rb_plans s ! rb_cur s))"
  shows "rb_plans (parsePlan s) = rb_plans s" "rb_cur (parsePlan s) = rb_cur s + 1" "rb_timers (parsePlan s) = rb_timers s @ [TParse]"
    "rb_store (parsePlan s) = rb_store s"
    "map (\<lambda>(i, x, _). (i, x)) (rb_asked (parsePlan s)) =
      map (\<lambda>(i, x, _). (i, x)) (rb_asked s) @ both_ends [rb_plans s ! rb_cur s]"
  using assms by (simp_all add: parsePlan_def Let_def is_obj_get set_timer_def ask_point_def outPut_def on_def both_ends_def)

lemma parsePlan_done:
  assumes "rb_cur s = length (rb_plans s)"
  shows "rb_plans (parsePlan s) = rb_plans s" "rb_cur (parsePlan s) = rb_cur s" "rb_timers (parsePlan s) = rb_timers s @ [TGet]"
    "rb_store (parsePlan s) = rb_store s" "rb_asked (parsePlan s) = rb_asked s"
  using assms by (simp_all add: parsePlan_def set_timer_def outPut_def on_def)

lemma both_ends_snoc: "both_ends (xs @ ys) = both_ends xs @ both_ends ys"
  by (simp add: both_ends_def)

lemma taking_fire:
  assumes "taking ids base k s"
  shows "taking ids base (k + 1) (fire TParse s)"
proof -
  note t = assms [unfolded taking_def]
  define s1 where "s1 = s\<lparr>rb_timers := []\<rparr>"
  show ?thesis
  proof (cases "length ids \<le> k")
    case True
    then have "fire TParse s = s" using t by (simp add: fire_def)
    then show ?thesis using t True by (simp add: taking_def min_def)
  next
    case False
    then have f: "fire TParse s = parsePlan s1" using t by (simp add: fire_def s1_def)
    show ?thesis
    proof (cases "k + 1 < length ids")
      case True
      then have c: "rb_cur s1 = k + 1" "rb_plans s1 = ids" "rb_store s1 = rb_store s" "rb_asked s1 = rb_asked s" using t by (simp_all add: s1_def)
      have o: "is_obj (rb_store s1 ! (rb_plans s1 ! rb_cur s1))" using c t True by simp
      have tk: "take (k + 1 + 1) ids = take (k + 1) ids @ [ids ! (k + 1)]" using True by (simp add: take_Suc_conv_app_nth)
      show ?thesis unfolding taking_def f tk
        using parsePlan_more [of s1] o c t True by (simp add: both_ends_snoc s1_def)
    next
      case F: False
      then have c: "rb_cur s1 = length (rb_plans s1)" "rb_plans s1 = ids" "rb_store s1 = rb_store s" "rb_asked s1 = rb_asked s"
        using t False by (simp_all add: s1_def)
      show ?thesis unfolding taking_def f using parsePlan_done [OF c(1)] c t F False by (simp add: s1_def)
    qed
  qed
qed


lemma getPlans_reply_taking:
  assumes "is_one (fld data ''success'')" "fld data ''plans'' = JArr plans" "\<forall>p \<in> set plans. is_obj p" "rb_timers s = []"
  shows "taking [length (rb_store s)..<length (rb_store s) + length plans] (map (\<lambda>(i, x, _). (i, x)) (rb_asked s)) 0 (getPlans_reply data s)"
proof -
  define s1 where "s1 = on RbCount (set_html (nat_str (length plans)))
      (s\<lparr>rb_store := rb_store s @ plans, rb_plans := map (\<lambda>k. length (rb_store s) + k) [0..<length plans], rb_cur := 0\<rparr>)"
  have ids: "map (\<lambda>k. length (rb_store s) + k) [0..<length plans] = [length (rb_store s)..<length (rb_store s) + length plans]"
    by (rule nth_equalityI) simp_all
  have d: "data \<noteq> JUndef" "data \<noteq> JNull" using assms(2) by (auto simp: fld_def)
  have e: "getPlans_reply data s = parsePlan s1" using assms(1,2) d by (simp add: getPlans_reply_def s1_def)
  have f: "rb_plans s1 = [length (rb_store s)..<length (rb_store s) + length plans]" "rb_cur s1 = 0" "rb_timers s1 = []"
    "rb_asked s1 = rb_asked s" "rb_store s1 = rb_store s @ plans"
    using assms(4) ids by (simp_all add: s1_def on_def)
  have o: "\<forall>i \<in> set (rb_plans s1). i < length (rb_store s1) \<and> is_obj (rb_store s1 ! i)"
    using assms(3) by (auto simp: f nth_append)
  show ?thesis
  proof (cases "plans = []")
    case True
    then show ?thesis using parsePlan_done [of s1] f by (simp add: e taking_def both_ends_def)
  next
    case False
    then have "rb_cur s1 < length (rb_plans s1)" by (simp add: f)
    moreover have "rb_plans s1 ! rb_cur s1 \<in> set (rb_plans s1)" using calculation by (rule nth_mem)
    moreover have "take 1 (rb_plans s1) = [rb_plans s1 ! rb_cur s1]" using False by (cases "rb_plans s1") (simp_all add: f)
    moreover have "min (length plans) 1 = 1" using False by (cases plans) simp_all
    ultimately show ?thesis using parsePlan_more [of s1] o f False by (auto simp: e taking_def)
  qed
qed

text \<open>What can happen while the robot goes through its routes.\<close>

fun on_the_way :: "rb_ev \<Rightarrow> bool" where
  "on_the_way (RGet d) = False"
| "on_the_way (RTimer TGet) = False"
| "on_the_way e = True"

lemma taking_step:
  "taking ids base k s \<Longrightarrow> on_the_way e \<Longrightarrow> taking ids base (k + (if e = RTimer TParse then 1 else 0)) (robot_step dis e s)"
proof (cases e)
  case (RTimer t)
  assume "taking ids base k s" "on_the_way e"
  then show ?thesis using RTimer taking_fire by (cases t) simp_all
next
  case (RCity x i arrs pos d)
  assume "taking ids base k s" "on_the_way e"
  then show ?thesis using RCity taking_same [of s "rb_search dis x i (city_reply Inr arrs pos d) s"] by simp
qed (auto intro: taking_same same_run_step)

subsection \<open>Properties\<close>

lemma robot_takes_every_route_facts:
  fixes dis :: "jsv \<Rightarrow> jsv \<Rightarrow> string"
  assumes "is_one (fld data ''success'')" "fld data ''plans'' = JArr plans" "\<forall>p \<in> set plans. is_obj p" "rb_timers s = []"
    "list_all on_the_way es"
  defines "t \<equiv> fold (robot_step dis) es (getPlans_reply data s)" and "k \<equiv> count_list es (RTimer TParse)" and "b \<equiv> length (rb_store s)"
  shows "map (\<lambda>(i, x, _). (i, x)) (drop (length (rb_asked s)) (rb_asked t)) = both_ends (take (k + 1) [b..<b + length plans])"
    and "rb_timers t = [if length plans \<le> k then TGet else TParse]"
proof -
  have "taking [b..<b + length plans] (map (\<lambda>(i, x, _). (i, x)) (rb_asked s)) k t"
    using assms(5) unfolding t_def k_def
  proof (induction es rule: rev_induct)
    case Nil
    then show ?case using getPlans_reply_taking [OF assms(1-4)] by (simp add: b_def)
  next
    case (snoc e es)
    then have "taking [b..<b + length plans] (map (\<lambda>(i, x, _). (i, x)) (rb_asked s)) (count_list es (RTimer TParse))
        (fold (robot_step dis) es (getPlans_reply data s))" "on_the_way e" by simp_all
    from taking_step [OF this, of dis] show ?case by (simp add: add.commute split: if_splits)
  qed
  then have a: "map (\<lambda>(i, x, _). (i, x)) (rb_asked t) = map (\<lambda>(i, x, _). (i, x)) (rb_asked s) @ both_ends (take (k + 1) [b..<b + length plans])"
    and "rb_timers t = [if length plans \<le> k then TGet else TParse]" by (simp_all add: taking_def)
  then show "rb_timers t = [if length plans \<le> k then TGet else TParse]" by simp
  show "map (\<lambda>(i, x, _). (i, x)) (drop (length (rb_asked s)) (rb_asked t)) = both_ends (take (k + 1) [b..<b + length plans])"
    using a by (simp add: drop_map [symmetric])
qed

text \<open>
  C8. The robot takes up every route: after a reply with \<open>n\<close> routes and whatever the map and the server
  answer in between and in whatever order, after \<open>k\<close> timers both ends of the first \<open>k + 1\<close> routes have
  been asked for, each once and in order, and one timer is set; from the \<open>n\<close>-th on that is the one that
  gets the next routes.
\<close>

theorem robot_takes_every_route:
  fixes dis :: "jsv \<Rightarrow> jsv \<Rightarrow> string"
  assumes "is_one (fld data ''success'')" "fld data ''plans'' = JArr plans" "\<forall>p \<in> set plans. is_obj p" "rb_timers s = []"
    "list_all on_the_way es"
  defines "t \<equiv> fold (robot_step dis) es (getPlans_reply data s)" and "k \<equiv> count_list es (RTimer TParse)" and "b \<equiv> length (rb_store s)"
  shows "map (\<lambda>(i, x, _). (i, x)) (drop (length (rb_asked s)) (rb_asked t)) = both_ends (take (k + 1) [b..<b + length plans]) \<and>
    rb_timers t = [if length plans \<le> k then TGet else TParse]"
  unfolding assms(6-8) using robot_takes_every_route_facts [OF assms(1-5)] by simp

definition fresh_robot :: robot where
  "fresh_robot = \<lparr>dom = (\<lambda>_. blank), reqs = [], alerts = [], thrown = [], rb_store = [], rb_plans = [], rb_cur = 0,
     rb_timers = [], rb_asked = [], rb_located = []\<rparr>"

theorem robot_takes_every_route_witness:
  "rb_timers (fold (robot_step (\<lambda>_ _. ''0.00'')) [RTimer TParse, RPlaced E 0 JNull, RTimer TParse]
     (getPlans_reply (JObj [(''success'', jint 1), (''plans'', JArr [JObj [(''id'', jint 1)], JObj [(''id'', jint 2)]])]) fresh_robot)) = [TGet]"
  using robot_takes_every_route [of "JObj [(''success'', jint 1), (''plans'', JArr [JObj [(''id'', jint 1)], JObj [(''id'', jint 2)]])]"
      "[JObj [(''id'', jint 1)], JObj [(''id'', jint 2)]]" fresh_robot "[RTimer TParse, RPlaced E 0 JNull, RTimer TParse]" "\<lambda>_ _. ''0.00''"]
  by (simp add: fresh_robot_def is_obj_def del: robot_step.simps fold.simps)

lemma city_order_decides_facts:
  fixes s :: robot
  assumes "i < length (rb_store s)" "rb_store s ! i = JObj ps" "\<not> truthy (fld (JObj ps) ''scityid'')"
    "is_type ''Object'' a" "is_type ''Object'' b" "truthy (fld a ''id'')" "truthy (fld b ''id'')"
  shows "reqs (start_city i a (end_city dis i b s)) = reqs s"
    and "is_arr (fld (JObj ps) ''sll'') \<Longrightarrow> is_arr (fld (JObj ps) ''ell'') \<Longrightarrow>
      \<exists>rs. reqs (end_city dis i b (start_city i a s)) = reqs s @ rs \<and> length rs = (if is_long (dis (fld (JObj ps) ''sll'') (fld (JObj ps) ''ell'')) (fld (JObj ps) ''repeat'') then 2 else 1) \<and>
      list_all (\<lambda>r. r_method r = POST \<and> r_url r = ''/json/spd/post/robot'') rs"
    and "is_arr (fld (JObj ps) ''sll'') \<Longrightarrow> is_arr (fld (JObj ps) ''ell'') \<Longrightarrow> is_long (dis (fld (JObj ps) ''sll'') (fld (JObj ps) ''ell'')) (fld (JObj ps) ''repeat'') \<Longrightarrow>
      plan_get i ''statu'' (end_city dis i b (start_city i a s)) = jint 11"
proof -
  have g: "plan_get i k (plan_set i j v t) = (if k = j then v else plan_get i k t)"
    if "i < length (rb_store t)" "is_obj (rb_store t ! i)" for k j v and t :: robot
    using that by (cases "rb_store t ! i") (simp_all add: plan_get_def plan_set_def is_obj_def update_conv')
  have o: "i < length (rb_store (plan_set i j v t)) \<and> is_obj (rb_store (plan_set i j v t) ! i)"
    if "i < length (rb_store t)" "is_obj (rb_store t ! i)" for j v and t :: robot
    using that by (simp add: plan_set_def)
  have so: "i < length (rb_store s)" "is_obj (rb_store s ! i)" using assms(1,2) by (simp_all add: is_obj_def)
  have st: "rb_store (post_plan i t) = rb_store t" "rb_store (outPut m t) = rb_store t" "reqs (plan_set i k v t) = reqs t"
    "reqs (outPut m t) = reqs t" "plan_get i k (outPut m t) = plan_get i k t" "plan_get i k (post_plan i t) = plan_get i k t" for m k v and t :: robot
    by (simp_all add: post_plan_def send_def outPut_def on_def plan_set_def plan_get_def)
  have p: "plan_get i k s = fld (JObj ps) k" for k using assms(2) by (simp add: plan_get_def)
  have post: "\<exists>r. reqs (post_plan i t) = reqs t @ [r] \<and> r_method r = POST \<and> r_url r = ''/json/spd/post/robot''" for t :: robot
    by (simp add: post_plan_def)
  show "reqs (start_city i a (end_city dis i b s)) = reqs s"
    using assms(3-7) by (simp add: start_city_def end_city_def g so st p del: fld_JObj)
  define s1 where "s1 = plan_set i ''ecityid'' (fld b ''id'') (plan_set i ''scityid'' (fld a ''id'') s)"
  have s1: "i < length (rb_store s1)" "is_obj (rb_store s1 ! i)" using o so by (simp_all add: s1_def)
  have e: "end_city dis i b (start_city i a s) = complete dis i s1"
    using assms(4-7) o so by (simp add: start_city_def end_city_def g s1_def)
  have q: "plan_get i k s1 = fld (JObj ps) k" if "k \<notin> {''scityid'', ''ecityid''}" for k
    using that g o so by (simp add: s1_def p del: fld_JObj)
  define s2 where "s2 = fold (\<lambda>(k, v). plan_set i k (JStr v))
            [(''rect'', ''(('' @ comma (plan_get i ''sll'' s1) @ ''),('' @ comma (plan_get i ''ell'' s1) @ ''))''), (''sgeo'', ''('' @ comma (plan_get i ''sll'' s1) @ '')''),
             (''egeo'', ''('' @ comma (plan_get i ''ell'' s1) @ '')''), (''km'', dis (plan_get i ''sll'' s1) (plan_get i ''ell'' s1))] s1"
  have c: "complete dis i s1 = post_plan i (if is_long (dis (fld (JObj ps) ''sll'') (fld (JObj ps) ''ell'')) (fld (JObj ps) ''repeat'')
      then fail (utf8 [233, 149, 191, 233, 128, 148, 230, 139, 188, 232, 189, 166, 239, 188, 140, 229, 141, 180, 233, 135, 141, 229, 164, 141, 227, 128, 130]) i s2 else s2)"
    if "is_arr (fld (JObj ps) ''sll'')" "is_arr (fld (JObj ps) ''ell'')"
    using that unfolding complete_def Let_def s2_def by (simp add: q del: fld_JObj)
  have r2: "reqs s2 = reqs s" by (simp add: s2_def s1_def st)
  have s2: "i < length (rb_store s2)" "is_obj (rb_store s2 ! i)" using o s1 by (simp_all add: s2_def)
  obtain r where r: "reqs (fail (utf8 [233, 149, 191, 233, 128, 148, 230, 139, 188, 232, 189, 166, 239, 188, 140, 229, 141, 180, 233, 135, 141, 229, 164, 141, 227, 128, 130]) i s2) = reqs s @ [r]" "r_method r = POST" "r_url r = ''/json/spd/post/robot''"
    using post [of "plan_set i ''statu'' (jint 11) (outPut (utf8 [233, 149, 191, 233, 128, 148, 230, 139, 188, 232, 189, 166, 239, 188, 140, 229, 141, 180, 233, 135, 141, 229, 164, 141, 227, 128, 130]) s2)"] by (auto simp: fail_def parsePlanErr_def st r2)
  show "\<exists>rs. reqs (end_city dis i b (start_city i a s)) = reqs s @ rs \<and> length rs = (if is_long (dis (fld (JObj ps) ''sll'') (fld (JObj ps) ''ell'')) (fld (JObj ps) ''repeat'') then 2 else 1) \<and>
      list_all (\<lambda>r. r_method r = POST \<and> r_url r = ''/json/spd/post/robot'') rs"
    if "is_arr (fld (JObj ps) ''sll'')" "is_arr (fld (JObj ps) ''ell'')"
    using r r2 post [of s2] post [of "fail (utf8 [233, 149, 191, 233, 128, 148, 230, 139, 188, 232, 189, 166, 239, 188, 140, 229, 141, 180, 233, 135, 141, 229, 164, 141, 227, 128, 130]) i s2"] by (auto simp: e c [OF that] simp del: fld_JObj)
  show "plan_get i ''statu'' (end_city dis i b (start_city i a s)) = jint 11"
    if "is_arr (fld (JObj ps) ''sll'')" "is_arr (fld (JObj ps) ''ell'')"
      "is_long (dis (fld (JObj ps) ''sll'') (fld (JObj ps) ''ell'')) (fld (JObj ps) ''repeat'')"
    using that s2 by (simp add: e c [OF that(1,2)] st fail_def parsePlanErr_def g del: fld_JObj)
qed

text \<open>
  C9. The order of the two cities decides: when the city of the start is known before that of the end,
  the completed route is posted, a long one that repeats twice and marked as failed; in the other order
  nothing is posted at all, although both ends were found.  (The places of both ends, arrays once the map has found them,
  are there in the first case.)
\<close>

theorem city_order_decides:
  fixes s :: robot
  assumes "i < length (rb_store s)" "rb_store s ! i = JObj ps" "\<not> truthy (fld (JObj ps) ''scityid'')"
    "is_type ''Object'' a" "is_type ''Object'' b" "truthy (fld a ''id'')" "truthy (fld b ''id'')"
  shows "reqs (start_city i a (end_city dis i b s)) = reqs s \<and>
    (is_arr (fld (JObj ps) ''sll'') \<and> is_arr (fld (JObj ps) ''ell'') \<longrightarrow>
    (\<exists>rs. reqs (end_city dis i b (start_city i a s)) = reqs s @ rs \<and>
      length rs = (if is_long (dis (fld (JObj ps) ''sll'') (fld (JObj ps) ''ell'')) (fld (JObj ps) ''repeat'') then 2 else 1) \<and>
      list_all (\<lambda>r. r_method r = POST \<and> r_url r = ''/json/spd/post/robot'') rs) \<and>
    (is_long (dis (fld (JObj ps) ''sll'') (fld (JObj ps) ''ell'')) (fld (JObj ps) ''repeat'') \<longrightarrow>
      plan_get i ''statu'' (end_city dis i b (start_city i a s)) = jint 11))"
  using city_order_decides_facts [OF assms] by blast

definition placed_plan :: "(string \<times> jsv) list" where
  "placed_plan = [(''sll'', JArr [jint 28, jint 113]), (''ell'', JArr [jint 22, jint 112]), (''repeat'', jint 0)]"

theorem city_order_decides_witness:
  "let a = JObj [(''id'', jint 1)]; b = JObj [(''id'', jint 2)]; s = fresh_robot\<lparr>rb_store := [JObj placed_plan]\<rparr>; dis = (\<lambda>_ _. ''0.00'')
   in reqs (start_city 0 a (end_city dis 0 b s)) = [] \<and> length (reqs (end_city dis 0 b (start_city 0 a s))) = 1"
  using city_order_decides [of 0 "fresh_robot\<lparr>rb_store := [JObj placed_plan]\<rparr>" placed_plan "JObj [(''id'', jint 1)]" "JObj [(''id'', jint 2)]" "\<lambda>_ _. ''0.00''"]
  by (auto simp: placed_plan_def fresh_robot_def is_type_def utl_type_def is_long_def)

lemma pos_skips_the_last_city_facts:
  assumes "\<forall>c \<in> set (ps_cities s). is_obj c" "ps_cur s = 0" "ps_asked s = []" "\<not> ps_timer s" "length (ps_cities s) \<le> k"
  shows "ps_cities s \<noteq> [] \<Longrightarrow> ps_asked ((pos_fire ^^ k) (getPos s)) = map (\<lambda>c. (fld c ''s'', fld c ''id'')) (butlast (ps_cities s)) \<and>
      \<not> ps_timer ((pos_fire ^^ k) (getPos s)) \<and> thrown ((pos_fire ^^ k) (getPos s)) = thrown s"
    and "ps_cities s = [] \<Longrightarrow> getPos s = throw s"
proof -
  show "ps_cities s = [] \<Longrightarrow> getPos s = throw s" by (simp add: getPos_def)
  define cs where "cs = ps_cities s"
  have run: "let t = (pos_fire ^^ j) (getPos s); m = min (j + 1) (length cs - 1)
      in ps_cities t = cs \<and> ps_cur t = m \<and> ps_asked t = map (\<lambda>c. (fld c ''s'', fld c ''id'')) (take m cs) \<and>
        ps_timer t = (j + 1 \<le> length cs - 1) \<and> thrown t = thrown s" if "cs \<noteq> []" for j
  proof (induction j)
    case 0
    have "length cs = 1 \<or> 1 < length cs" using that by (cases cs) auto
    moreover have "take 1 cs = [cs ! 0]" "is_obj (cs ! 0)" using that assms(1) by (cases cs; simp add: cs_def)+
    ultimately show ?case using assms(2-4) that by (auto simp: getPos_def Let_def is_obj_get cs_def [symmetric])
  next
    case (Suc j)
    define t where "t = (pos_fire ^^ j) (getPos s)"
    note IH = Suc [folded t_def, unfolded Let_def]
    have step: "(pos_fire ^^ Suc j) (getPos s) = pos_fire t" by (simp add: t_def)
    consider (a) "j + 2 \<le> length cs - 1" | (b) "j + 1 = length cs - 1" | (c) "length cs - 1 < j + 1" by linarith
    then show ?case
    proof cases
      case a
      then have o: "is_obj (cs ! (j + 1))" "j + 1 < length cs" using assms(1) by (simp_all add: cs_def)
      have "take (j + 2) cs = take (j + 1) cs @ [cs ! (j + 1)]" using o(2) by (simp add: take_Suc_conv_app_nth)
      then show ?thesis unfolding step using IH a o by (simp add: pos_fire_def getPos_def is_obj_get Let_def)
    next
      case b
      then have "int (Suc j) = int (length cs) - 1" using that by (cases cs) auto
      then show ?thesis unfolding step using IH b by (simp add: pos_fire_def getPos_def Let_def)
    next
      case c
      then show ?thesis unfolding step using IH by (simp add: pos_fire_def Let_def)
    qed
  qed
  show "ps_asked ((pos_fire ^^ k) (getPos s)) = map (\<lambda>c. (fld c ''s'', fld c ''id'')) (butlast (ps_cities s)) \<and>
      \<not> ps_timer ((pos_fire ^^ k) (getPos s)) \<and> thrown ((pos_fire ^^ k) (getPos s)) = thrown s" if "ps_cities s \<noteq> []"
    using run [of k] that assms(5) by (simp add: cs_def Let_def butlast_conv_take min_def)
qed

text \<open>
  Of \<open>n\<close> cities the coordinates are asked for but those of the last: after enough timers the first
  \<open>n - 1\<close> have been asked for and no timer is set; without any city the page throws at once.
\<close>

theorem pos_skips_the_last_city:
  assumes "\<forall>c \<in> set (ps_cities s). is_obj c" "ps_cur s = 0" "ps_asked s = []" "\<not> ps_timer s" "length (ps_cities s) \<le> k"
  shows "if ps_cities s = [] then getPos s = throw s
    else ps_asked ((pos_fire ^^ k) (getPos s)) = map (\<lambda>c. (fld c ''s'', fld c ''id'')) (butlast (ps_cities s)) \<and>
      \<not> ps_timer ((pos_fire ^^ k) (getPos s)) \<and> thrown ((pos_fire ^^ k) (getPos s)) = thrown s"
  using pos_skips_the_last_city_facts [OF assms] by simp

theorem pos_skips_the_last_city_witness:
  "ps_asked ((pos_fire ^^ 2) (getPos \<lparr>dom = (\<lambda>_. blank), reqs = [], alerts = [], thrown = [],
     ps_cities = [JObj [(''s'', JStr ''a'')], JObj [(''s'', JStr ''b'')]], ps_cur = 0, ps_timer = False, ps_asked = []\<rparr>)) = [(JStr ''a'', JUndef)]"
  using pos_skips_the_last_city [of "\<lparr>dom = (\<lambda>_. blank), reqs = [], alerts = [], thrown = [],
     ps_cities = [JObj [(''s'', JStr ''a'')], JObj [(''s'', JStr ''b'')]], ps_cur = 0, ps_timer = False, ps_asked = []\<rparr>" 2]
  by (simp add: is_obj_def)

end
