(* ===== verification/Post.thy ===== *)
theory Post
  imports Spd
begin

text \<open>
  The desk where the collected routes are completed by hand (\<open>dida/fly/js/admin/spd/post.js\<close>): one
  route at a time is fetched, its ends are set on the map, and it is saved or deleted; \<open>mgd._ntt\<close>
  counts the routes that are left.

  A route is an object that the search for a city keeps hold of, so the routes live in a store.
  \<open>clotheHTML\<close> lets the browser parse a text and is the function \<open>clothe\<close>.
\<close>

subsection \<open>The desk\<close>

(* src/dida/fly/js/admin/spd/post.js:19-36 init *)
datatype post_el =
    PoSaddr | PoEaddr | PoSdate | PoStime | PoAttach | PoUrl | PoCount | PoPhone | PoPhoneImg
  | PoContact | PoContactImg | PoPanel

record post = "post_el page" +
  po_store :: "jsv list"
  po_plan :: nat
  po_ntt :: int
  po_routes :: "(point \<times> point) list"
  po_info :: "string option"
  po_smarker :: "point option"
  po_emarker :: "point option"

definition po_get :: "string \<Rightarrow> post \<Rightarrow> jsv" where
  "po_get k s = fld (po_store s ! po_plan s) k"

definition po_write :: "nat \<Rightarrow> string \<Rightarrow> jsv \<Rightarrow> post \<Rightarrow> post" where
  "po_write i k v s = s\<lparr>po_store := (po_store s)[i := with_prop k v (po_store s ! i)]\<rparr>"

definition po_set :: "string \<Rightarrow> jsv \<Rightarrow> post \<Rightarrow> post" where
  "po_set k v s = po_write (po_plan s) k v s"

text \<open>\<open>e.attr(k, v)\<close>\<close>

definition attr_of :: "string \<Rightarrow> jsv \<Rightarrow> elem \<Rightarrow> elem" where
  "attr_of k v e = (if v = JUndef then e else if v = JNull then remove_attr k e else set_attr k (to_str v) e)"

text \<open>\<open>x.toFixed(n)\<close> of a finite number below \<open>10^21\<close>.\<close>

definition pad_left :: "nat \<Rightarrow> string \<Rightarrow> string" where
  "pad_left n s = replicate (n - length s) (CHR ''0'') @ s"

definition to_fixed :: "nat \<Rightarrow> jnum \<Rightarrow> string" where
  "to_fixed n x = (case x of
       Fin q \<Rightarrow>
         (let m = nat \<lfloor>\<bar>q\<bar> * 10 ^ n + 1 / 2\<rfloor>
          in (if q < 0 then ''-'' else '''') @ nat_str (m div 10 ^ n) @
             (if n = 0 then '''' else CHR ''.'' # pad_left n (nat_str (m mod 10 ^ n))))
     | _ \<Rightarrow> num_str x)"

text \<open>The parts of an address that are there, by their short names.\<close>

definition short_of :: "jsv \<Rightarrow> nat \<Rightarrow> string" where
  "short_of addrs i = (let a = fld addrs (nat_str i) in if truthy a then to_str (js_or (fld a ''short_name'') (JStr '''')) else '''')"

(* src/dida/fly/js/admin/spd/post.js:5-17 _formAddr *)
definition formAddr :: "jsv \<Rightarrow> jsv \<Rightarrow> jsv \<Rightarrow> js_error + string" where
  "formAddr name addrs loc =
     (if truthy addrs then
        (case (fld loc ''lat'', fld loc ''lng'') of
           (JNum lat, JNum lng) \<Rightarrow> Inr
             (''<div><strong>'' @ to_str name @ ''</strong><br />'' @
              join '' '' (map (short_of addrs) [0, 1, 2]) @ (utf8 [239, 188, 136]) @ to_fixed 4 lat @ '', '' @ to_fixed 4 lng @ (utf8 [239, 188, 137]))
         | _ \<Rightarrow> Inl TypeError)
      else Inr '' '')"

subsection \<open>Fetching, deleting, saving\<close>

(* src/dida/fly/js/admin/spd/post.js:93-100 getPlan *)
definition getPlan :: "post \<Rightarrow> post" where
  "getPlan s =
     (if po_ntt s \<le> 0 then s
      else send GET ''/json/spd/post/do''
        (if truthy (po_get ''id'' s) then [(''exceptid'', po_get ''id'' s)] else []) s)"

(* src/dida/fly/js/admin/spd/post.js:100-117 getPlan, its callback *)
definition getPlan_reply :: "(jsv \<Rightarrow> jsv) \<Rightarrow> jsv \<Rightarrow> post \<Rightarrow> post" where
  "getPlan_reply clothe data s =
     (if data = JUndef \<or> data = JNull then throw s
      else if is_one (fld data ''success'') \<and> is_type ''Object'' (fld data ''plan'') then
        (let p = fld data ''plan'';
             s1 = on PoUrl (attr_of ''href'' (fld p ''ourl'')) (on PoAttach (html_of (fld p ''attach''))
                 (on PoStime (val_of (fld p ''stime'')) (on PoSdate (val_of (fld p ''sdate''))
                 (on PoEaddr (val_of (fld p ''eaddr'')) (on PoSaddr (val_of (fld p ''saddr'')) s)))));
             s2 = s1\<lparr>po_store := po_store s1 @ [p], po_plan := length (po_store s1)\<rparr>;
             s3 = on PoContactImg (attr_of ''src'' (clothe (fld p ''contact''))) (on PoPhoneImg (attr_of ''src'' (clothe (fld p ''phone''))) s2)
         in on PoCount (set_text (int_str (po_ntt s3 - 1))) (s3\<lparr>po_ntt := po_ntt s3 - 1\<rparr>))
      else alert (errmsg_or data (utf8 [232, 142, 183, 229, 143, 150, 230, 149, 176, 230, 141, 174, 229, 164, 177, 232, 180, 165, 239, 188, 140, 232, 175, 183, 231, 168, 141, 229, 144, 142, 229, 134, 141, 232, 175, 149, 239, 188, 129])) s)"

definition send_plan :: "string \<Rightarrow> post_el \<Rightarrow> post \<Rightarrow> post" where
  "send_plan opr p s = send POST ''/json/spd/post/do''
     [(''_op'', JStr opr), (''plan'', JStr (stringify (po_store s ! po_plan s))), (''_type_plan'', JStr ''object'')]
     (on p (panel_begin ''vres'') s)"

definition sent_plan :: "post_el \<Rightarrow> jsv \<Rightarrow> post \<Rightarrow> post" where
  "sent_plan p data = settle p data (\<lambda>s. if 0 < po_ntt s then getPlan s else s) (add_note p ''vres'' (errmsg data))"

(* src/dida/fly/js/admin/spd/post.js:146-161 delPlan *)
definition delPlan :: "post \<Rightarrow> post" where
  "delPlan = send_plan ''del'' PoPanel"

(* src/dida/fly/js/admin/spd/post.js:161-170 delPlan, its callback *)
definition delPlan_reply :: "jsv \<Rightarrow> post \<Rightarrow> post" where
  "delPlan_reply = sent_plan PoPanel"

(* src/dida/fly/js/admin/spd/post.js:173-202 savePlan *)
definition savePlan :: "post \<Rightarrow> post" where
  "savePlan s =
     (let phone = e_val (dom s PoPhone); contact = e_val (dom s PoContact); sll = po_get ''sll'' s; ell = po_get ''ell'' s
      in if \<not> truthy sll \<or> \<not> truthy ell then s
         else if \<not> is_arr sll \<or> \<not> is_arr ell then
           throw (fold (\<lambda>(k, v). po_set k (JStr v)) [(''sdate'', e_val (dom s PoSdate)), (''stime'', e_val (dom s PoStime))] s)
         else send_plan ''mod'' PoPanel
           (fold (\<lambda>(k, v). po_set k (JStr v))
             ([(''sdate'', e_val (dom s PoSdate)), (''stime'', e_val (dom s PoStime)),
               (''rect'', ''(('' @ comma sll @ ''),('' @ comma ell @ ''))''), (''sgeo'', ''('' @ comma sll @ '')''),
               (''egeo'', ''('' @ comma ell @ '')'')] @
              (if phone = [] then [] else [(''phone'', phone)]) @ (if contact = [] then [] else [(''contact'', contact)])) s))"

(* src/dida/fly/js/admin/spd/post.js:202-211 savePlan, its callback *)
definition savePlan_reply :: "jsv \<Rightarrow> post \<Rightarrow> post" where
  "savePlan_reply = sent_plan PoPanel"

subsection \<open>The two ends\<close>

definition loc_of :: "jsv \<Rightarrow> js_error + jsv" where
  "loc_of data = bind_sum (js_get data ''geometry'') (\<lambda>g. bind_sum (js_get g ''location'') (\<lambda>l.
     if l = JUndef \<or> l = JNull then Inl TypeError else Inr l))"

text \<open>What is found is written to the route that was on the desk when the search began.\<close>

(* src/dida/fly/js/admin/spd/post.js:134-139 upPlan, the callback of the search *)
definition post_city :: "side \<Rightarrow> nat \<Rightarrow> jsv \<Rightarrow> post \<Rightarrow> post" where
  "post_city x i city s = (if is_type ''Object'' city then po_write i (ends x ''cityid'') (fld city ''id'') s else s)"

definition po_search :: "side \<Rightarrow> nat \<Rightarrow> search \<Rightarrow> post \<Rightarrow> post" where
  "po_search x i r s = (case r of
       Asking q pos \<Rightarrow> s\<lparr>reqs := reqs s @ [q]\<rparr>
     | Found city \<Rightarrow> post_city x i city s
     | Threw e \<Rightarrow> raise e s)"

definition then_do :: "(post \<Rightarrow> post) \<Rightarrow> (post \<Rightarrow> post) \<Rightarrow> post \<Rightarrow> post" where
  "then_do f g s = (let t = f s in if thrown t = thrown s then g t else t)"

(* src/dida/fly/js/admin/spd/post.js:121-144 upPlan *)
definition post_upPlan :: "(jsv \<Rightarrow> jsv \<Rightarrow> string) \<Rightarrow> side \<Rightarrow> jsv \<Rightarrow> post \<Rightarrow> post" where
  "post_upPlan dis x data s =
     (case loc_of data of
        Inl e \<Rightarrow> raise e s
      | Inr l \<Rightarrow>
          then_do (\<lambda>s. case getCityByGeoresult data of Inl e \<Rightarrow> raise e s | Inr (r, arrs) \<Rightarrow> po_search x (po_plan s) r s)
            (\<lambda>s. if truthy (po_get ''sll'' s) \<and> truthy (po_get ''ell'' s)
              then po_set ''km'' (JStr (dis (po_get ''sll'' s) (po_get ''ell'' s))) s else s)
            (po_set (ends x ''addr'') (fld data ''formatted_address'')
              (po_set (ends x ''ll'') (JArr [fld l ''lat'', fld l ''lng'']) s)))"

(* src/dida/fly/js/admin/spd/post.js:214-230 rendDirect *)
definition post_rendDirect :: "post \<Rightarrow> post" where
  "post_rendDirect s =
     (let sll = po_get ''sll'' s; ell = po_get ''ell'' s
      in if \<not> truthy sll \<or> \<not> truthy ell then s
         else s\<lparr>po_routes := po_routes s @ [(arr_point sll, arr_point ell)]\<rparr>)"

fun post_addr :: "side \<Rightarrow> post_el" where
  "post_addr S = PoSaddr"
| "post_addr E = PoEaddr"

(* src/dida/fly/js/admin/spd/post.js:250-274 markDraged *)
definition post_markDraged :: "(jsv \<Rightarrow> jsv \<Rightarrow> string) \<Rightarrow> side \<Rightarrow> jsv \<Rightarrow> jsv \<Rightarrow> post \<Rightarrow> post" where
  "post_markDraged dis x results status s =
     (if loose_eq status (JStr ''OK'') then
        (case bind_sum (js_get results ''0'') (\<lambda>r. bind_sum (js_get r ''formatted_address'') (\<lambda>a. Inr (r, a))) of
           Inl e \<Rightarrow> raise e s
         | Inr (r, a) \<Rightarrow>
             then_do (\<lambda>s. case bind_sum (js_get (fld r ''address_components'') ''0'') (\<lambda>c. bind_sum (js_get c ''short_name'') (\<lambda>n.
                   bind_sum (loc_of r) (formAddr n (fld r ''address_components'')))) of
                 Inl e \<Rightarrow> raise e s
               | Inr c \<Rightarrow> post_upPlan dis x r (s\<lparr>po_info := Some c\<rparr>))
               post_rendDirect (on (post_addr x) (val_of a) s))
      else s)"

(* src/dida/fly/js/admin/spd/post.js:276-305 autoChanged *)
definition post_autoChanged :: "(jsv \<Rightarrow> jsv \<Rightarrow> string) \<Rightarrow> side \<Rightarrow> jsv \<Rightarrow> post \<Rightarrow> post" where
  "post_autoChanged dis x place s =
     (let s1 = s\<lparr>po_info := None\<rparr>
      in case bind_sum (js_get place ''geometry'') (\<lambda>g. bind_sum (js_get g ''viewport'') (\<lambda>_. js_get g ''location'')) of
           Inl e \<Rightarrow> raise e s1
         | Inr l \<Rightarrow>
             (let p = Some (fld l ''lat'', fld l ''lng'');
                  s2 = (case x of S \<Rightarrow> s1\<lparr>po_smarker := p\<rparr> | E \<Rightarrow> s1\<lparr>po_emarker := p\<rparr>)
              in case formAddr (fld place ''name'') (fld place ''address_components'') l of
                   Inl e \<Rightarrow> raise e s2
                 | Inr c \<Rightarrow> then_do (post_upPlan dis x place) post_rendDirect (s2\<lparr>po_info := Some c\<rparr>)))"

datatype post_ev =
    PTyped post_el string | PNext | PGot jsv | PDel | PDeleted jsv | PSave | PSaved jsv
  | PDragged side jsv jsv | PChosen side jsv | PCity side nat "jsv list" nat jsv

(* src/dida/fly/js/admin/spd/post.js:87-90 bindClick *)
fun post_step :: "(jsv \<Rightarrow> jsv) \<Rightarrow> (jsv \<Rightarrow> jsv \<Rightarrow> string) \<Rightarrow> post_ev \<Rightarrow> post \<Rightarrow> post" where
  "post_step clothe dis (PTyped i v) = on i (set_val v)"
| "post_step clothe dis PNext = getPlan"
| "post_step clothe dis (PGot d) = getPlan_reply clothe d"
| "post_step clothe dis PDel = delPlan"
| "post_step clothe dis (PDeleted d) = delPlan_reply d"
| "post_step clothe dis PSave = savePlan"
| "post_step clothe dis (PSaved d) = savePlan_reply d"
| "post_step clothe dis (PDragged x r st) = post_markDraged dis x r st"
| "post_step clothe dis (PChosen x p) = post_autoChanged dis x p"
| "post_step clothe dis (PCity x i arrs pos d) = po_search x i (city_reply (\<lambda>c. js_get c ''short_name'') arrs pos d)"


subsection \<open>Lemmas\<close>

lemma post_frame [simp]:
  "dom (po_write i k v s) = dom s" "dom (po_set k v s) = dom s" "po_plan (po_write i k v s) = po_plan s" "po_plan (po_set k v s) = po_plan s"
  "po_ntt (po_write i k v s) = po_ntt s" "po_ntt (po_set k v s) = po_ntt s" "reqs (po_write i k v s) = reqs s" "reqs (po_set k v s) = reqs s"
  "length (po_store (po_write i k v s)) = length (po_store s)" "length (po_store (po_set k v s)) = length (po_store s)"
  by (simp_all add: po_write_def po_set_def)

lemma e_val_frame [simp]:
  "e_val (html_of v e) = e_val e" "e_val (attr_of k v e) = e_val e" "e_val (panel_begin c e) = e_val e"
  by (simp_all add: html_of_def attr_of_def panel_begin_def remove_attr_def set_attr_def)

lemma then_do_val: "(\<And>t. e_val (dom (f t) i) = e_val (dom t i)) \<Longrightarrow> (\<And>t. e_val (dom (g t) i) = e_val (dom t i)) \<Longrightarrow>
    e_val (dom (then_do f g s) i) = e_val (dom s i)"
  by (simp add: then_do_def Let_def)

lemma search_val [simp]: "dom (po_search x i r s) = dom s"
  by (simp add: po_search_def post_city_def split: search.splits)

lemma upPlan_val [simp]: "e_val (dom (post_upPlan dis x data s) j) = e_val (dom s j)"
  by (auto simp: post_upPlan_def split: sum.splits intro!: trans [OF then_do_val])

lemma direct_val [simp]: "dom (post_rendDirect s) = dom s"
  by (simp add: post_rendDirect_def Let_def)

lemma fold_po_set [simp]: "dom (fold (\<lambda>(k, v). po_set k (w v)) kvs s) = dom s" "reqs (fold (\<lambda>(k, v). po_set k (w v)) kvs s) = reqs s"
    "po_plan (fold (\<lambda>(k, v). po_set k (w v)) kvs s) = po_plan s"
  by (induction kvs arbitrary: s) auto

lemma getPlan_dom [simp]: "dom (getPlan s) = dom s"
  by (simp add: getPlan_def)

text \<open>The fields that nothing but the keyboard writes to.\<close>

lemma typed_stays:
  assumes "p = PoPhone \<or> p = PoContact" "\<not> (\<exists>v. e = PTyped p v)"
  shows "e_val (dom (post_step clothe dis e s) p) = e_val (dom s p)"
proof (cases e)
  case (PDragged x r st)
  have "p \<noteq> post_addr x" using assms(1) by (cases x) auto
  then show ?thesis
    by (auto simp: PDragged post_markDraged_def split: sum.splits intro!: trans [OF then_do_val])
next
  case (PChosen x pl)
  then show ?thesis
    by (auto simp: post_autoChanged_def Let_def split: sum.splits side.splits intro!: trans [OF then_do_val])
qed (use assms in \<open>auto simp: getPlan_reply_def Let_def delPlan_def send_plan_def delPlan_reply_def sent_plan_def settle_def add_note_def
    savePlan_def savePlan_reply_def\<close>)


lemma po_get_set:
  "po_plan s < length (po_store s) \<Longrightarrow> is_obj (po_store s ! po_plan s) \<Longrightarrow> po_get k (po_set j v s) = (if k = j then v else po_get k s)"
  by (cases "po_store s ! po_plan s") (simp_all add: po_get_def po_set_def po_write_def is_obj_def update_conv')

lemma is_obj_po_set: "po_plan s < length (po_store s) \<Longrightarrow> is_obj (po_store (po_set j v s) ! po_plan s) = is_obj (po_store s ! po_plan s)"
  by (simp add: po_set_def po_write_def)

lemma fold_po_get:
  assumes "po_plan s < length (po_store s)" "is_obj (po_store s ! po_plan s)"
  shows "po_get k (fold (\<lambda>(k, v). po_set k (JStr v)) kvs s) = (case map_of (rev kvs) k of Some v \<Rightarrow> JStr v | None \<Rightarrow> po_get k s)"
  using assms
proof (induction kvs arbitrary: s)
  case (Cons kv kvs)
  obtain j v where kv: "kv = (j, v)" by (cases kv)
  show ?case using Cons by (simp add: kv po_get_set is_obj_po_set map_add_def split: option.splits)
qed simp

text \<open>The fields typed by hand are written into whatever route is saved.\<close>

lemma savePlan_phone:
  assumes "is_arr (po_get ''sll'' s)" "is_arr (po_get ''ell'' s)" "po_plan s < length (po_store s)" "is_obj (po_store s ! po_plan s)"
    "e_val (dom s PoPhone) = v" "v \<noteq> []"
  shows "po_get ''phone'' (savePlan s) = JStr v"
    "reqs (savePlan s) = reqs s @ [\<lparr>r_method = POST, r_url = ''/json/spd/post/do'', r_params =
       [(''_op'', JStr ''mod''), (''plan'', JStr (stringify (po_store (savePlan s) ! po_plan (savePlan s)))), (''_type_plan'', JStr ''object'')]\<rparr>]"
proof -
  have f: "po_get k (send_plan m p t) = po_get k t" "po_store (send_plan m p t) = po_store t" "po_plan (send_plan m p t) = po_plan t" for k m p t
    by (simp_all add: send_plan_def po_get_def send_def on_def)
  show "po_get ''phone'' (savePlan s) = JStr v"
    using assms(1,2,5,6) by (simp add: savePlan_def Let_def f fold_po_get [OF assms(3,4)] del: fold.simps)
  show "reqs (savePlan s) = reqs s @ [\<lparr>r_method = POST, r_url = ''/json/spd/post/do'', r_params =
       [(''_op'', JStr ''mod''), (''plan'', JStr (stringify (po_store (savePlan s) ! po_plan (savePlan s)))), (''_type_plan'', JStr ''object'')]\<rparr>]"
    using assms(1,2) by (simp add: savePlan_def Let_def f del: fold.simps) (simp add: send_plan_def del: fold.simps)
qed

subsection \<open>Properties\<close>

lemma typed_phone_goes_on_facts:
  fixes clothe :: "jsv \<Rightarrow> jsv"
  assumes "e_val (dom s PoPhone) = v" "v \<noteq> []" "\<forall>w. PTyped PoPhone w \<notin> set es"
    "t = fold (post_step clothe dis) es s" "is_arr (po_get ''sll'' t)" "is_arr (po_get ''ell'' t)"
    "po_plan t < length (po_store t)" "is_obj (po_store t ! po_plan t)"
  shows "po_get ''phone'' (savePlan t) = JStr v"
    and "last (reqs (savePlan t)) = \<lparr>r_method = POST, r_url = ''/json/spd/post/do'', r_params =
       [(''_op'', JStr ''mod''), (''plan'', JStr (stringify (po_store (savePlan t) ! po_plan (savePlan t)))), (''_type_plan'', JStr ''object'')]\<rparr>"
proof -
  have "e_val (dom (fold (post_step clothe dis) es s) PoPhone) = e_val (dom s PoPhone)"
    using assms(3)
  proof (induction es arbitrary: s)
    case (Cons e es)
    then have "e_val (dom (post_step clothe dis e s) PoPhone) = e_val (dom s PoPhone)" by (intro typed_stays) auto
    with Cons show ?case by simp
  qed simp
  then have "e_val (dom t PoPhone) = v" using assms(1,4) by simp
  with savePlan_phone [of t v] assms(2,5-8) show "po_get ''phone'' (savePlan t) = JStr v"
    "last (reqs (savePlan t)) = \<lparr>r_method = POST, r_url = ''/json/spd/post/do'', r_params =
       [(''_op'', JStr ''mod''), (''plan'', JStr (stringify (po_store (savePlan t) ! po_plan (savePlan t)))), (''_type_plan'', JStr ''object'')]\<rparr>"
    by simp_all
qed

text \<open>
  C17. The phone that was typed for one route is saved with the next ones: nothing that happens at the
  desk, fetching another route included, empties the field, and every route that is saved, which one is when it has the
  coordinates of both ends as arrays, gets what is in it.
\<close>

theorem typed_phone_goes_on:
  fixes clothe :: "jsv \<Rightarrow> jsv"
  assumes "e_val (dom s PoPhone) = v" "v \<noteq> []" "\<forall>w. PTyped PoPhone w \<notin> set es"
    "t = fold (post_step clothe dis) es s" "is_arr (po_get ''sll'' t)" "is_arr (po_get ''ell'' t)"
    "po_plan t < length (po_store t)" "is_obj (po_store t ! po_plan t)"
  shows "po_get ''phone'' (savePlan t) = JStr v \<and>
    last (reqs (savePlan t)) = \<lparr>r_method = POST, r_url = ''/json/spd/post/do'', r_params =
       [(''_op'', JStr ''mod''), (''plan'', JStr (stringify (po_store (savePlan t) ! po_plan (savePlan t)))), (''_type_plan'', JStr ''object'')]\<rparr>"
  using typed_phone_goes_on_facts [OF assms] by blast

definition fresh_post :: post where
  "fresh_post = \<lparr>dom = (\<lambda>_. blank), reqs = [], alerts = [], thrown = [], po_store = [JObj []], po_plan = 0, po_ntt = 5,
     po_routes = [], po_info = None, po_smarker = None, po_emarker = None\<rparr>"

definition next_route :: jsv where
  "next_route = JObj [(''success'', jint 1), (''plan'', JObj [(''id'', jint 7), (''sll'', JArr [jint 1, jint 2]), (''ell'', JArr [jint 3, jint 4])])]"

theorem typed_phone_goes_on_witness:
  "po_get ''phone'' (savePlan (getPlan_reply (\<lambda>v. v) next_route (getPlan (on PoPhone (set_val ''123'') fresh_post)))) = JStr ''123''"
  by (rule conjunct1 [OF typed_phone_goes_on [of _ _ "[]" _ "\<lambda>v. v" "\<lambda>_ _. ''''"]])
    (simp_all add: next_route_def getPlan_reply_def getPlan_def fresh_post_def is_type_def utl_type_def po_get_def is_obj_def Let_def on_def send_def
      set_val_def blank_def html_of_def val_of_def attr_of_def)

text \<open>
  A city that is found late is written to the route it was looked for, not to the one on the desk:
  after another route was fetched the answer leaves the route on the desk as it is.
\<close>

theorem late_city_stays:
  assumes "i \<noteq> po_plan s"
  shows "po_store (post_step clothe dis (PCity x i arrs pos d) s) ! po_plan s = po_store s ! po_plan s"
    and "po_plan (post_step clothe dis (PCity x i arrs pos d) s) = po_plan s"
  using assms by (simp_all add: po_search_def post_city_def po_write_def raise_def split: search.splits)

theorem late_city_stays_witness:
  "po_store (post_step (\<lambda>v. v) (\<lambda>_ _. '''') (PCity S 0 [JObj []] 0 (JObj [(''success'', jint 1), (''city'', JObj [(''id'', jint 3)])]))
     (getPlan_reply (\<lambda>v. v) next_route fresh_post)) ! 1 = fld next_route ''plan''"
proof -
  have p: "po_plan (getPlan_reply (\<lambda>v. v) next_route fresh_post) = 1"
    "po_store (getPlan_reply (\<lambda>v. v) next_route fresh_post) ! 1 = fld next_route ''plan''"
    by (simp_all add: next_route_def getPlan_reply_def fresh_post_def is_type_def utl_type_def Let_def on_def)
  show ?thesis using late_city_stays(1) [of 0 "getPlan_reply (\<lambda>v. v) next_route fresh_post"] p by simp
qed

lemma count_below_zero_facts:
  assumes "0 < po_ntt s" "is_one (fld d ''success'')" "is_type ''Object'' (fld d ''plan'')"
  shows "length (reqs ((getPlan ^^ k) s)) = length (reqs s) + k"
    and "po_ntt ((getPlan_reply clothe d ^^ k) ((getPlan ^^ k) s)) = po_ntt s - int k"
    and "0 < k \<Longrightarrow> e_html (dom ((getPlan_reply clothe d ^^ k) ((getPlan ^^ k) s)) PoCount) = escape_text (int_str (po_ntt s - int k))"
proof -
  have g: "length (reqs ((getPlan ^^ j) s)) = length (reqs s) + j \<and> po_ntt ((getPlan ^^ j) s) = po_ntt s" for j
    using assms(1) by (induction j) (auto simp: getPlan_def send_def)
  then show "length (reqs ((getPlan ^^ k) s)) = length (reqs s) + k" by simp
  have d: "d \<noteq> JUndef" "d \<noteq> JNull" using assms(2) by (auto simp: fld_def)
  have r: "po_ntt (getPlan_reply clothe d t) = po_ntt t - 1" "e_html (dom (getPlan_reply clothe d t) PoCount) = escape_text (int_str (po_ntt t - 1))" for t
    using d assms(2,3) by (simp_all add: getPlan_reply_def Let_def on_def set_text_def)
  have n: "po_ntt ((getPlan_reply clothe d ^^ j) t) = po_ntt t - int j" for j t
    by (induction j) (simp_all add: r)
  show "po_ntt ((getPlan_reply clothe d ^^ k) ((getPlan ^^ k) s)) = po_ntt s - int k" using g n by simp
  show "e_html (dom ((getPlan_reply clothe d ^^ k) ((getPlan ^^ k) s)) PoCount) = escape_text (int_str (po_ntt s - int k))" if k: "0 < k"
  proof -
    define u where "u = (getPlan ^^ k) s"
    obtain j where j: "k = Suc j" using k by (cases k) auto
    have "e_html (dom ((getPlan_reply clothe d ^^ Suc j) u) PoCount) = escape_text (int_str (po_ntt u - int j - 1))"
      by (simp add: r n)
    moreover have "po_ntt u = po_ntt s" using g by (simp add: u_def)
    ultimately have "e_html (dom ((getPlan_reply clothe d ^^ k) u) PoCount) = escape_text (int_str (po_ntt s - int k))"
      by (simp add: j algebra_simps)
    then show ?thesis by (simp only: u_def)
  qed
qed

text \<open>
  The count of the routes left is tested when a route is asked for but changed when it comes, so
  \<open>k\<close> impatient clicks all go out while one route is left, and the answers bring the count to \<open>1 - k\<close>.
\<close>

theorem count_below_zero:
  assumes "0 < po_ntt s" "is_one (fld d ''success'')" "is_type ''Object'' (fld d ''plan'')"
  shows "length (reqs ((getPlan ^^ k) s)) = length (reqs s) + k \<and>
    po_ntt ((getPlan_reply clothe d ^^ k) ((getPlan ^^ k) s)) = po_ntt s - int k \<and>
    (0 < k \<longrightarrow> e_html (dom ((getPlan_reply clothe d ^^ k) ((getPlan ^^ k) s)) PoCount) = escape_text (int_str (po_ntt s - int k)))"
  using count_below_zero_facts [OF assms] by blast

theorem count_below_zero_witness:
  "po_ntt ((getPlan_reply (\<lambda>v. v) next_route ^^ 2) ((getPlan ^^ 2) (fresh_post\<lparr>po_ntt := 1\<rparr>))) = -1"
  using count_below_zero [of "fresh_post\<lparr>po_ntt := 1\<rparr>" next_route 2 "\<lambda>v. v"]
  by (simp add: fresh_post_def next_route_def is_type_def utl_type_def)

end
