(* ===== verification/Rock.thy ===== *)
theory Rock
  imports Forms Utl
begin

text \<open>
  The parked site under \<open>memorypark/rock\<close>: its login and cookies (\<open>fly/js/local/\<close>), the forms for
  registering and for handing out accounts, and the pages that manage groups and files
  (\<open>pager/\<close>), with what they use of the form plugin (\<open>lib/js/jquery.form.js\<close>).
\<close>

subsection \<open>The page\<close>

datatype rk_form = Reg | Alloc

datatype rock_el =
    RkNavGuest | RkNavMember | RkUname | RkUin | RkUserActions
  | RkTitle | RkRurl | RkLgUin | RkLgUsn | RkLgOp
  | RkLogin | RkUnlogged | RkLoggedIn | RkTired | RkFailure | RkLgName | RkLgDuring | RkLgErrmsg
  | FmOp rk_form | FmUin rk_form | FmUname rk_form | FmUsn rk_form | FmEmail rk_form | FmMale rk_form | FmStatus rk_form
  | FmStep1 rk_form | FmStep2 rk_form | FmTired rk_form | FmFailure rk_form | FmAccount rk_form | FmDuring rk_form | FmErrmsg rk_form
  | GpGid | GpModeAdmin | GpMode

text \<open>\<open>document.loginopts\<close>: what the login form is to say and where to go after it.\<close>

record rock = "rock_el page" +
  rk_jar :: jar
  rk_opts :: "(string \<times> jsv) option"
  rk_overlay :: bool
  rk_group :: bool
  rk_went :: "string list"

definition rock_domain :: string where
  "rock_domain = ''eol.com''"

definition rock_cookie :: options where
  "rock_cookie = no_options\<lparr>op_path := ''/'', op_domain := rock_domain\<rparr>"

subsection \<open>util.js\<close>

text \<open>A cookie for a year; the name is eight random characters.\<close>

(* src/memorypark/rock/fly/js/local/util.js:3-10 sayHi *)
definition sayHi :: "rat list \<Rightarrow> rock \<Rightarrow> rock" where
  "sayHi rs s = (case get_cookie ''ClientName'' (rk_jar s) of
       Inl e \<Rightarrow> raise e s
     | Inr (Some _) \<Rightarrow> s
     | Inr None \<Rightarrow> s\<lparr>rk_jar := put_cookie ''ClientName'' (Some (randomWord (take 8 rs))) (rock_cookie\<lparr>op_expires := Some 365\<rparr>) (rk_jar s)\<rparr>)"

(* src/memorypark/rock/fly/js/local/util.js:12-31 loginCheck *)
definition rk_loginCheck :: "rock \<Rightarrow> rock" where
  "rk_loginCheck s =
     (case bind_sum (get_cookie ''uname'' (rk_jar s)) (\<lambda>n. bind_sum (get_cookie ''uin'' (rk_jar s)) (\<lambda>u. Inr (n, u))) of
        Inl e \<Rightarrow> raise e s
      | Inr (Some uname, Some uin) \<Rightarrow>
          on RkNavMember show_el (send GET ''/service/action'' [(''uin'', JStr uin)]
            (on RkUin (set_text uin) (on RkUname (set_text uname) (on RkNavGuest hide_el s))))
      | Inr _ \<Rightarrow> on RkNavGuest show_el (on RkUserActions hide_el (on RkNavMember hide_el s)))"

(* src/memorypark/rock/fly/js/local/util.js:32-43 logoutEol *)
definition logoutEol :: "rock \<Rightarrow> rock" where
  "logoutEol s =
     (let s1 = s\<lparr>rk_jar := put_cookie ''musn'' None rock_cookie (put_cookie ''usn'' None rock_cookie
                  (put_cookie ''uname'' None rock_cookie (rk_jar s)))\<rparr>;
          s2 = rk_loginCheck s1
      in if thrown s2 \<noteq> thrown s then s2 else send GET ''/member/logout'' [] s2)"

text \<open>\<open>e.text(v)\<close> of an input writes no value.\<close>

(* src/memorypark/rock/fly/js/local/util.js:45-57 modifyTitle *)
definition modifyTitle :: "rock \<Rightarrow> rock" where
  "modifyTitle s = (case rk_opts s of
       None \<Rightarrow> s
     | Some (title, rurl) \<Rightarrow>
         (if title \<noteq> [] then (on RkTitle (set_text title) s)\<lparr>rk_opts := Some ((utf8 [231, 153, 187, 229, 189, 149, 32, 69, 79, 76]), rurl)\<rparr> else s))"

(* src/memorypark/rock/fly/js/local/util.js:59-68 jumpToRurl *)
definition jumpToRurl :: "rock \<Rightarrow> rock" where
  "jumpToRurl s = (case rk_opts s of
       Some (title, JStr rurl) \<Rightarrow>
         (if rurl \<noteq> [] then s\<lparr>rk_went := rk_went s @ [rurl], rk_opts := Some (title, JStr '''')\<rparr> else s)
     | _ \<Rightarrow> s)"

definition sensitive :: string where
  "sensitive = (utf8 [230, 149, 143, 230, 132, 159, 230, 147, 141, 228, 189, 156, 44, 32, 232, 175, 183, 229, 133, 136, 231, 153, 187, 229, 189, 149])"

text \<open>
  The answer of a management page: whether it went well; \<open>tip\<close>, \<open>err\<close> and \<open>rurl\<close> are the options.  The
  overlay of the login is a local variable of another script, so opening it throws.
\<close>

(* src/memorypark/rock/fly/js/local/util.js:70-92 jsonCbkSuc *)
definition jsonCbkSuc :: "jsv \<Rightarrow> bool \<Rightarrow> string \<Rightarrow> string \<Rightarrow> rock \<Rightarrow> bool \<times> rock" where
  "jsonCbkSuc data tip err rurl s =
     (if data = JUndef \<or> data = JNull then (False, throw s)
      else if \<not> loose_eq (fld data ''success'') (JStr ''1'') then
        (False,
         (if loose_eq (fld data ''errmsg'') (JStr sensitive) then
            raise ReferenceError (s\<lparr>rk_opts := Some (to_str (fld data ''errmsg''), JStr rurl)\<rparr>)
          else alert (to_str (js_or (fld data ''errmsg'') (JStr err))) s))
      else (True, if tip then alert (utf8 [230, 147, 141, 228, 189, 156, 230, 136, 144, 229, 138, 159, 33]) s else s))"

(* src/memorypark/rock/fly/js/local/util.js:94-97 jsonCbkErr *)
definition jsonCbkErr :: "jsv \<Rightarrow> rock \<Rightarrow> rock" where
  "jsonCbkErr textStatus = alert (to_str (js_or textStatus (JStr (utf8 [230, 147, 141, 228, 189, 156, 229, 164, 177, 232, 180, 165, 33]))))"

subsection \<open>Sending a form\<close>

text \<open>
  \<open>ajaxSubmit\<close> with \<open>beforeSerialize\<close> and \<open>validateForm\<close>, on the named fields of a form: first the page
  may change the fields, then they are collected, and only then they are validated.
\<close>

(* src/lib/js/jquery.form.js:72-115 ajaxSubmit *)
definition ajaxSubmit :: "(('i, 'z) page_scheme \<Rightarrow> ('i, 'z) page_scheme) \<Rightarrow> http \<Rightarrow> string \<Rightarrow> (string \<times> 'i) list \<Rightarrow>
    ('i, 'z) page_scheme \<Rightarrow> ('i, 'z) page_scheme" where
  "ajaxSubmit before m url fs s =
     (let s1 = before s;
          a = map (\<lambda>(n, i). (n, JStr (e_val (dom s1 i)))) fs
      in case validateForm (map snd fs) s1 of
           (False, s2) \<Rightarrow> s2
         | (True, s2) \<Rightarrow> send m url a s2)"

text \<open>\<open>clearForm\<close>: the text fields are emptied before the page sees the answer.\<close>

(* src/lib/js/jquery.form.js:574-584 clearFields *)
definition clear_fields :: "'i list \<Rightarrow> ('i, 'z) page_scheme \<Rightarrow> ('i, 'z) page_scheme" where
  "clear_fields is = fold (\<lambda>i. on i (set_val '''')) is"

definition hash_field :: "'i \<Rightarrow> ('i, 'z) page_scheme \<Rightarrow> ('i, 'z) page_scheme" where
  "hash_field i s = (let v = e_val (dom s i) in if js_len v \<noteq> 0 then on i (set_val (md5md5 v)) s else s)"

subsection \<open>login.js\<close>

(* src/memorypark/rock/fly/js/local/login.js:3-6 beforeLoginSerial *)
definition beforeLoginSerial :: "rock \<Rightarrow> rock" where
  "beforeLoginSerial = hash_field RkLgUsn"

(* src/memorypark/rock/fly/js/local/login.js:40-48 opt_login *)
definition login_submit :: "rock \<Rightarrow> rock" where
  "login_submit = ajaxSubmit beforeLoginSerial GET ''/member/login''
     [(''op'', RkLgOp), (''rurl'', RkRurl), (''uin'', RkLgUin), (''usn'', RkLgUsn)]"

(* src/memorypark/rock/fly/js/local/login.js:7-11 errLogin *)
definition errLogin :: "rock \<Rightarrow> rock" where
  "errLogin s = on RkUnlogged show_el (fold (\<lambda>i. on i hide_el) [RkLogin, RkLoggedIn, RkTired, RkFailure] s)"

definition not_null :: "jsv \<Rightarrow> bool" where
  "not_null v \<longleftrightarrow> v \<noteq> JUndef \<and> v \<noteq> JNull"

text \<open>\<open>e.html(v)\<close> of an answer: of \<open>undefined\<close> it only reads.\<close>

definition html_if :: "'i \<Rightarrow> jsv \<Rightarrow> ('i, 'z) page_scheme \<Rightarrow> ('i, 'z) page_scheme" where
  "html_if i v s = (if v = JUndef \<or> v = JNull \<or> \<not> is_prim v then s else on i (set_html (to_str v)) s)"

(* src/memorypark/rock/fly/js/local/login.js:12-38 sucLogin *)
definition sucLogin :: "jsv \<Rightarrow> rock \<Rightarrow> bool \<times> rock" where
  "sucLogin data s0 =
     (let s = fold (\<lambda>i. on i hide_el) [RkLogin, RkTired, RkFailure] (clear_fields [RkLgUin, RkLgUsn] s0)
      in if data = JUndef \<or> data = JNull then (False, throw s)
         else if not_null (fld data ''uname'') \<and> loose_eq (fld data ''success'') (JStr ''1'') then
           (True, on RkLgName (set_text (to_str (fld data ''uname''))) (on RkLoggedIn show_el s))
         else if not_null (fld data ''tired'') \<and> \<not> loose_eq (fld data ''tired'') (JStr ''0'') then
           (False, html_if RkLgDuring (fld data ''during'') (on RkTired show_el s))
         else (False, html_if RkLgErrmsg (fld data ''errmsg'') (on RkFailure show_el s)))"

(* src/memorypark/rock/fly/js/local/login.js:20-28 sucLogin, its timer *)
definition login_done :: "rock \<Rightarrow> rock" where
  "login_done s =
     (let s1 = jumpToRurl (s\<lparr>rk_overlay := False\<rparr>)
      in if (case rk_opts s1 of None \<Rightarrow> True | Some (_, rurl) \<Rightarrow> loose_eq rurl (JStr '''')) then rk_loginCheck s1 else s1)"

(* src/memorypark/rock/fly/js/local/login.js:60-70 onLoad *)
definition login_onLoad :: "rock \<Rightarrow> rock" where
  "login_onLoad s =
     (let s1 = modifyTitle s
      in case get_cookie ''uin'' (rk_jar s1) of
           Inl e \<Rightarrow> raise e s1
         | Inr None \<Rightarrow> s1
         | Inr (Some uin) \<Rightarrow> on RkLgUin (set_val uin) s1)"

subsection \<open>regist.js and account.js\<close>

text \<open>The two forms are written alike.\<close>

(* src/memorypark/rock/pager/member/regist/regist.js:2-5 beforeRegSerial *)
definition beforeRegSerial :: "rk_form \<Rightarrow> rock \<Rightarrow> rock" where
  "beforeRegSerial f = hash_field (FmUsn f)"

(* src/memorypark/rock/pager/member/regist/regist.js:32-41 opt_regist *)
definition regist_submit :: "rock \<Rightarrow> rock" where
  "regist_submit = ajaxSubmit (beforeRegSerial Reg) GET ''/member/regist''
     [(''uname'', FmUname Reg), (''usn'', FmUsn Reg), (''email'', FmEmail Reg), (''male'', FmMale Reg)]"

(* src/memorypark/rock/pager/admin/account/account.js:64-73 opt_alloc *)
definition alloc_submit :: "rock \<Rightarrow> rock" where
  "alloc_submit = ajaxSubmit (beforeRegSerial Alloc) POST ''/admin/account''
     [(''op'', FmOp Alloc), (''uin'', FmUin Alloc), (''uname'', FmUname Alloc), (''usn'', FmUsn Alloc),
      (''email'', FmEmail Alloc), (''male'', FmMale Alloc), (''status'', FmStatus Alloc)]"

(* src/memorypark/rock/pager/member/regist/regist.js:6-11 errRegist *)
definition errRegist :: "rk_form \<Rightarrow> rock \<Rightarrow> rock" where
  "errRegist f s = on (FmFailure f) show_el (fold (\<lambda>i. on i hide_el) [FmStep1 f, FmStep2 f, FmTired f] s)"

(* src/memorypark/rock/pager/member/regist/regist.js:12-30 sucRegist *)
definition sucRegist :: "rk_form \<Rightarrow> jsv \<Rightarrow> rock \<Rightarrow> rock" where
  "sucRegist f data s0 =
     (let s = fold (\<lambda>i. on i hide_el) [FmStep1 f, FmStep2 f, FmTired f, FmFailure f]
                (clear_fields [FmUin f, FmUname f, FmUsn f, FmEmail f] s0)
      in if data = JUndef \<or> data = JNull then throw s
         else if loose_eq (fld data ''success'') (JStr ''1'') \<and> not_null (fld data ''uin'') then
           rk_loginCheck (on (FmAccount f) (set_text (to_str (fld data ''uin''))) (on (FmStep2 f) show_el s))
         else if not_null (fld data ''tired'') \<and> \<not> loose_eq (fld data ''tired'') (JStr ''0'') then
           html_if (FmDuring f) (fld data ''during'') (on (FmTired f) show_el s)
         else html_if (FmErrmsg f) (fld data ''errmsg'') (on (FmFailure f) show_el s))"

subsection \<open>group.js\<close>

(* src/memorypark/rock/pager/admin/group/group.js:10-28 heads, mode *)
definition mode_name :: "jsv \<Rightarrow> string" where
  "mode_name v = (if v = JStr ''0'' then (utf8 [230, 153, 174, 233, 128, 154, 231, 187, 132, 229, 145, 152]) else if v = JStr ''1'' then (utf8 [229, 136, 157, 231, 186, 167, 228, 188, 154, 229, 145, 152])
     else if v = JStr ''2'' then (utf8 [233, 171, 152, 231, 186, 167, 228, 188, 154, 229, 145, 152]) else (utf8 [231, 187, 132, 231, 174, 161, 231, 144, 134, 229, 145, 152]))"

(* src/memorypark/rock/pager/admin/group/group.js:29-50 heads, status *)
definition status_name :: "jsv \<Rightarrow> string" where
  "status_name v = (if v = JStr ''0'' then (utf8 [231, 148, 179, 232, 175, 183, 228, 184, 173]) else if v = JStr ''1'' then (utf8 [232, 162, 171, 233, 169, 179, 229, 155, 158])
     else if v = JStr ''2'' then (utf8 [232, 162, 171, 233, 130, 128, 232, 175, 183]) else if v = JStr ''3'' then (utf8 [229, 183, 178, 230, 139, 146, 231, 187, 157]) else (utf8 [230, 173, 163, 229, 184, 184]))"

definition pair_str :: "string \<Rightarrow> string \<Rightarrow> string" where
  "pair_str k v = k @ ''='' @ v"

(* src/memorypark/rock/pager/admin/group/group.js:62-83 manageRow *)
definition group_manageRow :: "jsv \<Rightarrow> jsv \<Rightarrow> rock \<Rightarrow> rock" where
  "group_manageRow uid gid = send POST ''/admin/group''
     [(''data'', JStr (join ''&'' [pair_str ''uid'' (to_str uid), pair_str ''gid'' (to_str gid)]))]"

text \<open>
  The button of a row: \<open>row[uid]\<close> reads the variable \<open>uid\<close>, which the page does not declare; \<open>globals\<close> are
  the global variables there are.
\<close>

(* src/memorypark/rock/pager/admin/group/group.js:51-59 heads, the button *)
definition group_delete :: "(string \<Rightarrow> jsv option) \<Rightarrow> bool \<Rightarrow> jsv \<Rightarrow> rock \<Rightarrow> rock" where
  "group_delete globals confirmed row s =
     (if confirmed then
        (case (globals ''uid'', globals ''gid'') of
           (Some u, Some g) \<Rightarrow> group_manageRow (fld row (to_str u)) (fld row (to_str g)) s
         | _ \<Rightarrow> raise ReferenceError s)
      else s)"

(* src/memorypark/rock/pager/admin/group/group.js:85-95 addMember *)
definition addMember :: "jsv \<Rightarrow> rock \<Rightarrow> rock" where
  "addMember grp s =
     (let s1 = on GpGid (set_val (to_str (fld grp ''gid''))) s
      in (if \<not> loose_eq (fld grp ''amadmin'') (JStr ''1'') then
            on GpMode (set_val ''0'') (on GpModeAdmin (add_class ''hide'') (on GpModeAdmin (remove_class ''show'') s1))
          else on GpModeAdmin (add_class ''show'') (on GpModeAdmin (remove_class ''hide'') s1))\<lparr>rk_group := True\<rparr>)"

subsection \<open>file.js\<close>

(* src/memorypark/rock/pager/admin/file/file.js:60-91 manageRow *)
definition file_manageRow :: "string \<Rightarrow> string \<Rightarrow> string \<Rightarrow> string \<Rightarrow> string \<Rightarrow> rock \<Rightarrow> rock" where
  "file_manageRow opr fid area unit enable =
     send (if opr = ''add'' then PUT else POST) ''/admin/file''
       [(''data'', JStr (join ''&'' [pair_str ''id'' fid, pair_str ''area'' area, pair_str ''unit'' unit,
          pair_str ''enable'' enable, pair_str ''op'' (if opr = ''delete'' then ''del'' else '''')]))]"

(* src/memorypark/rock/pager/admin/file/file.js:92-98 showFile *)
definition showFile :: "string \<Rightarrow> string \<Rightarrow> rock \<Rightarrow> rock" where
  "showFile pg pid = send GET ''/admin/file'' [(''data'', JStr (join ''&'' [pair_str ''pg'' pg, pair_str ''pid'' pid]))]"

text \<open>The bits of the operators convert to 32-bit integers.\<close>

definition to_int32 :: "jnum \<Rightarrow> 32 word" where
  "to_int32 n = (case n of Fin q \<Rightarrow> of_int (if 0 \<le> q then \<lfloor>q\<rfloor> else \<lceil>q\<rceil>) | _ \<Rightarrow> 0)"

fun or_modes :: "nat \<Rightarrow> bool list \<Rightarrow> jnum \<Rightarrow> jnum" where
  "or_modes i [] m = m"
| "or_modes i (c # cs) m =
     or_modes (Suc i) cs (if c then Fin (of_int (sint (to_int32 m OR push_bit ((i + 4) mod 32) 1))) else m)"

(* src/memorypark/rock/pager/admin/file/file.js:119-127 beforeFileaddSerial *)
definition beforeFileaddSerial :: "string \<Rightarrow> bool list \<Rightarrow> jnum" where
  "beforeFileaddSerial modetype boxes = or_modes 0 boxes (parseInt modetype)"

text \<open>
  The list of accounts: its table is given \<open>opts_mntable\<close>, which is a local variable of the page of files.
\<close>

(* src/memorypark/rock/pager/admin/account/account.js:12-18 showAccount *)
definition showAccount :: "string \<Rightarrow> rock \<Rightarrow> rock" where
  "showAccount pg = send GET ''/admin/account'' [(''data'', JStr (pair_str ''pg'' pg))]"

(* src/memorypark/rock/pager/admin/account/account.js:19-27 showAccount, its callback *)
definition showAccount_reply :: "jsv \<Rightarrow> rock \<Rightarrow> rock" where
  "showAccount_reply data s =
     (case jsonCbkSuc data True (utf8 [232, 142, 183, 229, 143, 150, 229, 184, 144, 229, 143, 183, 229, 136, 151, 232, 161, 168, 229, 164, 177, 232, 180, 165]) ''/admin/account.html'' s of
        (False, t) \<Rightarrow> t
      | (True, t) \<Rightarrow> raise ReferenceError t)"

subsection \<open>Lemmas\<close>

lemma set_val_twice [simp]: "set_val a (set_val b e) = set_val a e"
  by (simp add: set_val_def)

lemma e_cls_ops [simp]: "e_cls (set_val v e) = e_cls e" "e_attrs (set_val v e) = e_attrs e"
  by (simp_all add: set_val_def)

lemma form_validate_frame [simp]:
  "e_val (form_validate e) = e_val e" "e_attrs (form_validate e) = e_attrs e"
  by (simp_all add: form_validate_def add_class_def remove_class_def)

lemma form_validate_class [simp]:
  "c \<notin> {''valid'', ''invalid''} \<Longrightarrow> c \<in> e_cls (form_validate e) \<longleftrightarrow> c \<in> e_cls e"
  "''invalid'' \<in> e_cls (form_validate e) \<longleftrightarrow> \<not> form_field_ok e"
  by (auto simp: form_validate_def add_class_def remove_class_def)

text \<open>The validation of a form looks at the required fields only and changes their marks only.\<close>

lemma fold_validate_dom:
  "distinct is \<Longrightarrow> dom (fold (\<lambda>i. on i form_validate) is s) j = (if j \<in> set is then form_validate (dom s j) else dom s j)"
  by (induction "is" arbitrary: s) auto

definition needed :: "'i list \<Rightarrow> ('i, 'z) page_scheme \<Rightarrow> 'i list" where
  "needed is s = filter (\<lambda>i. ''is_required'' \<in> e_cls (dom s i)) is"

lemma validateForm_needed:
  assumes "distinct is"
  shows "fst (validateForm is s) \<longleftrightarrow> list_all (\<lambda>i. form_field_ok (dom s i)) (needed is s)"
    "dom (snd (validateForm is s)) j = (if j \<in> set (needed is s) then form_validate (dom s j) else dom s j)"
proof -
  define s' where "s' = fold (\<lambda>i. on i form_validate) (needed is s) s"
  have d: "dom s' j = (if j \<in> set (needed is s) then form_validate (dom s j) else dom s j)" for j
    using assms by (simp add: s'_def fold_validate_dom needed_def)
  have "validateForm is s = (\<not> list_ex (\<lambda>i. ''invalid'' \<in> e_cls (dom s' i)) (filter (\<lambda>i. ''is_required'' \<in> e_cls (dom s' i)) is), s')"
    by (simp add: validateForm_def needed_def s'_def Let_def)
  moreover have "filter (\<lambda>i. ''is_required'' \<in> e_cls (dom s' i)) is = needed is s"
    by (auto simp: needed_def d intro!: filter_cong)
  ultimately show "fst (validateForm is s) \<longleftrightarrow> list_all (\<lambda>i. form_field_ok (dom s i)) (needed is s)"
    "dom (snd (validateForm is s)) j = (if j \<in> set (needed is s) then form_validate (dom s j) else dom s j)"
    by (auto simp: d list_all_iff list_ex_iff needed_def)
qed

lemma fold_on_reqs: "reqs (fold (\<lambda>i. on i f) is s) = reqs s"
  by (induction "is" arbitrary: s) simp_all

lemma ajaxSubmit_reqs:
  assumes "distinct (map snd fs)"
  shows "reqs (ajaxSubmit before m url fs s) =
    (if list_all (\<lambda>i. form_field_ok (dom (before s) i)) (needed (map snd fs) (before s))
     then reqs (before s) @ [\<lparr>r_method = m, r_url = url, r_params = map (\<lambda>(n, i). (n, JStr (e_val (dom (before s) i)))) fs\<rparr>]
     else reqs (before s))"
proof -
  obtain ok t where v: "validateForm (map snd fs) (before s) = (ok, t)" by (cases "validateForm (map snd fs) (before s)")
  have "reqs (snd (validateForm (map snd fs) (before s))) = reqs (before s)"
    by (simp add: validateForm_def fold_on_reqs Let_def)
  then show ?thesis using validateForm_needed(1) [OF assms, of "before s"] v
    by (cases ok) (simp_all add: ajaxSubmit_def)
qed

lemma ajaxSubmit_dom:
  assumes "distinct (map snd fs)"
  shows "dom (ajaxSubmit before m url fs s) j =
    (if j \<in> set (needed (map snd fs) (before s)) then form_validate (dom (before s) j) else dom (before s) j)"
  using validateForm_needed(2) [OF assms, of "before s" j] by (auto simp: ajaxSubmit_def Let_def split: prod.splits bool.splits)

lemma hash_field_dom [simp]:
  "dom (hash_field i s) j = (if j = i \<and> e_val (dom s i) \<noteq> [] then set_val (md5md5 (e_val (dom s i))) (dom s i) else dom s j)"
  "reqs (hash_field i s) = reqs s"
  by (simp_all add: hash_field_def Let_def)

text \<open>A required field without other rules passes when it is not empty.\<close>

definition plain_required :: "elem \<Rightarrow> bool" where
  "plain_required e \<longleftrightarrow> e_cls e \<subseteq> {''is_required'', ''valid'', ''invalid''} \<and> ''is_required'' \<in> e_cls e \<and>
     e_attrs e ''maxlen'' = None \<and> e_attrs e ''minlen'' = None"

lemma plain_required_ok: "plain_required e \<Longrightarrow> form_field_ok e \<longleftrightarrow> e_val e \<noteq> []"
  by (auto simp: plain_required_def form_field_ok_def Let_def)

lemma plain_required_set [simp]: "plain_required (set_val v e) = plain_required e" "plain_required (form_validate e) = plain_required e"
  by (auto simp: plain_required_def form_validate_def add_class_def remove_class_def)

text \<open>A login: its two hidden fields are not required, its two visible ones are.\<close>

definition login_page :: "rock \<Rightarrow> bool" where
  "login_page s \<longleftrightarrow> plain_required (dom s RkLgUsn) \<and> ''is_required'' \<in> e_cls (dom s RkLgUin) \<and>
     ''is_required'' \<notin> e_cls (dom s RkLgOp) \<and> ''is_required'' \<notin> e_cls (dom s RkRurl)"

lemma login_needed: "login_page s \<Longrightarrow> needed [RkLgOp, RkRurl, RkLgUin, RkLgUsn] s = [RkLgUin, RkLgUsn]"
  by (simp add: needed_def login_page_def plain_required_def)

lemma md5md5_nonempty [simp]: "md5md5 v \<noteq> []"
  using md5_hex_md5md5 [of v] by (auto simp: md5_hex_def)

lemma login_submit_parts:
  assumes "login_page s" "e_val (dom s RkLgUsn) \<noteq> []"
  shows "reqs (login_submit s) = (if form_field_ok (dom s RkLgUin)
      then reqs s @ [\<lparr>r_method = GET, r_url = ''/member/login'', r_params =
        [(''op'', JStr (e_val (dom s RkLgOp))), (''rurl'', JStr (e_val (dom s RkRurl))), (''uin'', JStr (e_val (dom s RkLgUin))),
         (''usn'', JStr (md5md5 (e_val (dom s RkLgUsn))))]\<rparr>] else reqs s)"
    "e_val (dom (login_submit s) RkLgUsn) = md5md5 (e_val (dom s RkLgUsn))"
    "login_page (login_submit s)"
proof -
  define b where "b = beforeLoginSerial s"
  have b: "dom b RkLgUin = dom s RkLgUin" "dom b RkLgOp = dom s RkLgOp" "dom b RkRurl = dom s RkRurl"
    "dom b RkLgUsn = set_val (md5md5 (e_val (dom s RkLgUsn))) (dom s RkLgUsn)" "reqs b = reqs s"
    using assms(2) by (simp_all add: b_def beforeLoginSerial_def)
  have p: "login_page b" using assms(1) by (simp add: login_page_def b)
  have u: "form_field_ok (dom b RkLgUsn)" using p plain_required_ok [of "dom b RkLgUsn"] by (simp add: login_page_def b md5md5_nonempty)
  have ds: "distinct (map snd [(''op'', RkLgOp), (''rurl'', RkRurl), (''uin'', RkLgUin), (''usn'', RkLgUsn)])" by simp
  show "reqs (login_submit s) = (if form_field_ok (dom s RkLgUin)
      then reqs s @ [\<lparr>r_method = GET, r_url = ''/member/login'', r_params =
        [(''op'', JStr (e_val (dom s RkLgOp))), (''rurl'', JStr (e_val (dom s RkRurl))), (''uin'', JStr (e_val (dom s RkLgUin))),
         (''usn'', JStr (md5md5 (e_val (dom s RkLgUsn))))]\<rparr>] else reqs s)"
    unfolding login_submit_def ajaxSubmit_reqs [OF ds] using login_needed [OF p] u by (simp add: b flip: b_def)
  have d: "dom (login_submit s) j = (if j \<in> {RkLgUin, RkLgUsn} then form_validate (dom b j) else dom b j)" for j
    unfolding login_submit_def ajaxSubmit_dom [OF ds] using login_needed [OF p] by (simp flip: b_def)
  show "e_val (dom (login_submit s) RkLgUsn) = md5md5 (e_val (dom s RkLgUsn))" by (simp add: d b)
  show "login_page (login_submit s)" using assms(1) by (simp add: login_page_def d b)
qed

lemma to_int32_of_int: "to_int32 (Fin (of_int x)) = word_of_int x"
  by (simp add: to_int32_def)

lemma to_int32_back: "to_int32 (Fin (of_int (sint w))) = w"
  unfolding to_int32_of_int by (simp add: of_int_sint)

lemma bit_or_mode: "k < 32 \<Longrightarrow> n < 32 \<Longrightarrow> bit (push_bit (k mod 32) (1 :: 32 word)) n \<longleftrightarrow> n = k"
  by (simp only: mod_less bit_push_bit_iff bit_1_iff) (auto simp: possible_bit_def)

lemma bit_or_modes:
  "i + 4 + length cs \<le> 32 \<Longrightarrow> n < 32 \<Longrightarrow>
   bit (to_int32 (or_modes i cs m)) n \<longleftrightarrow> bit (to_int32 m) n \<or> (i + 4 \<le> n \<and> n < i + 4 + length cs \<and> cs ! (n - (i + 4)))"
proof (induction cs arbitrary: i m)
  case (Cons c cs)
  have p: "bit (push_bit ((i + 4) mod 32) (1 :: 32 word)) n \<longleftrightarrow> n = i + 4" using Cons.prems
    by (intro bit_or_mode) simp_all
  have IH: "bit (to_int32 (or_modes (Suc i) cs m)) n \<longleftrightarrow>
      bit (to_int32 m) n \<or> (Suc i + 4 \<le> n \<and> n < Suc i + 4 + length cs \<and> cs ! (n - (Suc i + 4)))" for m
    by (rule Cons.IH) (use Cons.prems in simp_all)
  have c: "i + 4 \<le> n \<and> n < i + 4 + length (c # cs) \<and> (c # cs) ! (n - (i + 4)) \<longleftrightarrow>
      n = i + 4 \<and> c \<or> Suc i + 4 \<le> n \<and> n < Suc i + 4 + length cs \<and> cs ! (n - (Suc i + 4))"
    by (cases "n = i + 4") (auto simp: nth_Cons' Suc_diff_le)
  show ?case unfolding c or_modes.simps IH by (auto simp only: to_int32_back bit_or_iff p if_True if_False split: if_splits)
qed auto

subsection \<open>Properties\<close>

text \<open>
  C38. The form plugin lets the page change the fields before it validates them, and the login hashes
  its password there: when the number of the user is refused and then corrected, the request carries the
  digest of the digest, so the right password fails.
\<close>

theorem refused_form_rehashes:
  assumes "login_page s" "e_val (dom s RkLgUsn) \<noteq> []" "\<not> form_field_ok (dom s RkLgUin)"
    "form_field_ok (set_val u (dom (login_submit s) RkLgUin))"
  shows "reqs (login_submit s) = reqs s \<and>
    map (\<lambda>r. (map_of (r_params r) ''uin'', map_of (r_params r) ''usn'')) (reqs (login_submit (on RkLgUin (set_val u) (login_submit s)))) =
      map (\<lambda>r. (map_of (r_params r) ''uin'', map_of (r_params r) ''usn'')) (reqs s) @
        [(Some (JStr u), Some (JStr (md5md5 (md5md5 (e_val (dom s RkLgUsn))))))]"
proof -
  define t where "t = on RkLgUin (set_val u) (login_submit s)"
  have "login_page t" "e_val (dom t RkLgUsn) = md5md5 (e_val (dom s RkLgUsn))"
    using login_submit_parts(2,3) [OF assms(1,2)] by (simp_all add: t_def login_page_def)
  moreover have "dom t RkLgUin = set_val u (dom (login_submit s) RkLgUin)" "reqs t = reqs s"
    using login_submit_parts(1) [OF assms(1,2)] assms(3) by (simp_all add: t_def)
  ultimately show ?thesis
    using login_submit_parts(1) [of t] login_submit_parts(1) [OF assms(1,2)] assms(3,4) md5md5_nonempty
    by (simp flip: t_def)
qed

definition fresh_rock :: rock where
  "fresh_rock = \<lparr>dom = (\<lambda>i. if i = RkLgUin then blank\<lparr>e_cls := {''is_required''}\<rparr>
       else if i = RkLgUsn then blank\<lparr>e_val := ''x'', e_cls := {''is_required''}\<rparr> else blank), reqs = [], alerts = [], thrown = [],
     rk_jar = [], rk_opts = None, rk_overlay = False, rk_group = False, rk_went = []\<rparr>"

theorem refused_form_rehashes_witness:
  "map (\<lambda>r. (map_of (r_params r) ''uin'', map_of (r_params r) ''usn''))
     (reqs (login_submit (on RkLgUin (set_val ''7'') (login_submit fresh_rock)))) = [(Some (JStr ''7''), Some (JStr (md5md5 (md5md5 ''x''))))]"
proof -
  have p: "login_page fresh_rock" "e_val (dom fresh_rock RkLgUsn) = ''x''" "plain_required (dom fresh_rock RkLgUin)"
    "e_val (dom fresh_rock RkLgUin) = []"
    by (simp_all add: login_page_def fresh_rock_def plain_required_def blank_def)
  have "plain_required (dom (login_submit fresh_rock) RkLgUin)"
    using p(3) by (simp add: login_submit_def ajaxSubmit_dom beforeLoginSerial_def)
  then have "form_field_ok (set_val ''7'' (dom (login_submit fresh_rock) RkLgUin))"
    using plain_required_ok [of "set_val ''7'' (dom (login_submit fresh_rock) RkLgUin)"] by simp
  then show ?thesis using refused_form_rehashes [of fresh_rock "''7''"] p plain_required_ok [OF p(3)] by (simp add: fresh_rock_def)
qed

text \<open>
  The rights of a new file are the bits of the chosen type together with bit \<open>i + 4\<close> for each box \<open>i\<close>
  that is checked, and no others, as long as there are at most 28 boxes.
\<close>

theorem file_mode_bits:
  assumes "length boxes \<le> 28" "n < 32"
  shows "bit (to_int32 (beforeFileaddSerial modetype boxes)) n \<longleftrightarrow>
    bit (to_int32 (parseInt modetype)) n \<or> (4 \<le> n \<and> n - 4 < length boxes \<and> boxes ! (n - 4))"
  using bit_or_modes [of 0 boxes n "parseInt modetype"] assms by (auto simp: beforeFileaddSerial_def)

theorem file_mode_bits_witness:
  "bit (to_int32 (beforeFileaddSerial ''2'' [True, False, True])) 6 \<and> \<not> bit (to_int32 (beforeFileaddSerial '''' [True, False, True])) 5"
  using file_mode_bits [of "[True, False, True]" 6 "''2''"] file_mode_bits [of "[True, False, True]" 5 "''''"]
  by (simp add: parseInt_def to_int32_def)

text \<open>
  After an answer that asks for a login the login form does not open, since its overlay is out of
  reach and the handler throws; but the place to return to is kept, and the first login after it goes there,
  once.
\<close>

theorem login_returns_once:
  assumes "\<not> loose_eq (fld (JObj ps) ''success'') (JStr ''1'')" "fld (JObj ps) ''errmsg'' = JStr sensitive" "rurl \<noteq> []"
  shows "(let t = snd (jsonCbkSuc (JObj ps) tip err rurl s)
     in thrown t = thrown s @ [ReferenceError] \<and> rk_overlay t = rk_overlay s \<and>
        rk_went (login_done t) = rk_went s @ [rurl] \<and> rk_went (login_done (login_done t)) = rk_went s @ [rurl])"
proof -
  have f: "rk_went (rk_loginCheck t) = rk_went t" "rk_opts (rk_loginCheck t) = rk_opts t" for t
    by (simp_all add: rk_loginCheck_def on_def send_def raise_def split: sum.splits option.splits prod.splits)
  have "jsonCbkSuc (JObj ps) tip err rurl s = (False, raise ReferenceError (s\<lparr>rk_opts := Some (sensitive, JStr rurl)\<rparr>))"
    using assms(1,2) by (simp add: jsonCbkSuc_def del: fld_JObj)
  then show ?thesis using assms(3) by (simp add: login_done_def jumpToRurl_def f Let_def raise_def)
qed

theorem login_returns_once_witness:
  "rk_went (login_done (snd (jsonCbkSuc (JObj [(''success'', jint 0), (''errmsg'', JStr sensitive)]) True '''' ''/admin/file.html'' fresh_rock))) = [''/admin/file.html'']"
  using login_returns_once [of "[(''success'', jint 0), (''errmsg'', JStr sensitive)]" "''/admin/file.html''" True "''''" fresh_rock]
  by (simp add: Let_def fresh_rock_def jint_def str_to_num_def js_trim_def is_space_def take_decimal_def take_exp_def is_digit_def
      scale10_def dec_val_def digit_val_def)

end
