(* ===== verification/JsMatch.thy ===== *)
theory JsMatch
  imports Utl Regex "HOL-Library.Sublist"
begin

text \<open>
  \<open>s.match(/r/)\<close> and \<open>s.replace(/r/g, '')\<close>: the backtracking matcher of JavaScript, greedy and leftmost, with
  captured groups, on the expressions the scripts use to read a page.  \<open>runs r s\<close> lists all the ways
  \<open>r\<close> can match in front of \<open>s\<close> in the order they are tried; \<open>runs_lang\<close> says that these are the words of
  the language of theory \<open>Regex\<close>.  Text is UTF-8, so a class takes one byte of a character; the classes
  the scripts use hold all bytes beyond ASCII or none.
\<close>

subsection \<open>Expressions\<close>

datatype jrx =
    JEps
  | JSet "char \<Rightarrow> bool"
  | JSeq jrx jrx
  | JAlt jrx jrx
  | JStar jrx
  | JGrp nat jrx

type_synonym run = "string \<times> string \<times> (nat \<times> string) list"

text \<open>After each of the matches \<open>ms\<close>, all of the rest.\<close>

definition then_runs :: "run list \<Rightarrow> (string \<Rightarrow> run list) \<Rightarrow> run list" where
  "then_runs ms k = concat (map (\<lambda>(u, t, g). map (\<lambda>(v, w, h). (u @ v, w, h @ g)) (k t)) ms)"

text \<open>Greedy repetition; a turn that takes nothing is not tried.\<close>

fun many :: "(string \<Rightarrow> run list) \<Rightarrow> nat \<Rightarrow> string \<Rightarrow> run list" where
  "many f 0 s = [([], s, [])]"
| "many f (Suc n) s = then_runs (filter (\<lambda>(u, t, g). u \<noteq> []) (f s)) (many f n) @ [([], s, [])]"

primrec runs :: "jrx \<Rightarrow> string \<Rightarrow> run list" where
  "runs JEps = (\<lambda>s. [([], s, [])])"
| "runs (JSet p) = (\<lambda>s. case s of c # t \<Rightarrow> if p c then [([c], t, [])] else [] | [] \<Rightarrow> [])"
| "runs (JSeq a b) = (\<lambda>s. then_runs (runs a s) (runs b))"
| "runs (JAlt a b) = (\<lambda>s. runs a s @ runs b s)"
| "runs (JStar r) = (\<lambda>s. many (runs r) (length s) s)"
| "runs (JGrp n r) = (\<lambda>s. map (\<lambda>(u, t, g). (u, t, (n, u) # g)) (runs r s))"

text \<open>\<open>e\<close> says whether the expression ends in \<open>$\<close>.\<close>

definition match_here :: "bool \<Rightarrow> jrx \<Rightarrow> string \<Rightarrow> run option" where
  "match_here e r s = find (\<lambda>(u, t, g). e \<longrightarrow> t = []) (runs r s)"

fun js_match :: "bool \<Rightarrow> jrx \<Rightarrow> string \<Rightarrow> run option" where
  "js_match e r [] = match_here e r []"
| "js_match e r (c # s) = (case match_here e r (c # s) of Some m \<Rightarrow> Some m | None \<Rightarrow> js_match e r s)"

definition grp :: "nat \<Rightarrow> run \<Rightarrow> string" where
  "grp n m = (case map_of (snd (snd m)) n of Some v \<Rightarrow> v | None \<Rightarrow> '''')"

text \<open>\<open>x = s.match(r); x && x[n] || ''\<close>\<close>

definition grp_or :: "nat \<Rightarrow> run option \<Rightarrow> string \<Rightarrow> string" where
  "grp_or n x d = (case x of Some m \<Rightarrow> if grp n m \<noteq> [] then grp n m else d | None \<Rightarrow> d)"

definition jplus :: "jrx \<Rightarrow> jrx" where
  "jplus r = JSeq r (JStar r)"

definition jlit :: "string \<Rightarrow> jrx" where
  "jlit s = foldr (\<lambda>c. JSeq (JSet ((=) c))) s JEps"

definition jseqs :: "jrx list \<Rightarrow> jrx" where
  "jseqs rs = foldr JSeq rs JEps"

text \<open>The dot\<close>

definition jdot :: jrx where
  "jdot = JSet (\<lambda>c. byte c \<notin> {10, 13})"

definition jnot :: "char \<Rightarrow> jrx" where
  "jnot c = JSet ((\<noteq>) c)"

text \<open>\<open>s.replace(/<[^>]+>/g, '')\<close>: what is left when every match of \<open>r\<close> is taken out.\<close>

function remove_all :: "jrx \<Rightarrow> string \<Rightarrow> string" where
  "remove_all r [] = []"
| "remove_all r (c # s) =
     (case match_here False r (c # s) of
        Some (u # us, t, g) \<Rightarrow> if length t < length (c # s) then remove_all r t else []
      | _ \<Rightarrow> c # remove_all r s)"
  by pat_completeness auto
termination by (relation "measure (length \<circ> snd)") auto

subsection \<open>Strings\<close>

text \<open>The text behind the first place where \<open>l\<close> stands.\<close>

fun after_first :: "string \<Rightarrow> string \<Rightarrow> string option" where
  "after_first l [] = (if l = [] then Some [] else None)"
| "after_first l (c # s) =
     (if take (length l) (c # s) = l then Some (drop (length l) (c # s)) else after_first l s)"

definition has_str :: "string \<Rightarrow> string \<Rightarrow> bool" where
  "has_str l s \<longleftrightarrow> after_first l s \<noteq> None"

text \<open>\<open>s.split(l)\<close> for \<open>l\<close> that is not empty; the first argument is what was read of the current piece.\<close>

function split_str :: "string \<Rightarrow> string \<Rightarrow> string \<Rightarrow> string list" where
  "split_str l acc [] = [acc]"
| "split_str l acc (c # s) =
     (if l \<noteq> [] \<and> take (length l) (c # s) = l then acc # split_str l [] (drop (length l) (c # s))
      else split_str l (acc @ [c]) s)"
  by pat_completeness auto
termination by (relation "measure (\<lambda>(l, acc, s). length s)") auto

text \<open>\<open>s.replace('l', t)\<close> with a string: the first place only.\<close>

fun replace_first :: "string \<Rightarrow> string \<Rightarrow> string \<Rightarrow> string" where
  "replace_first l t [] = (if l = [] then t else [])"
| "replace_first l t (c # s) =
     (if take (length l) (c # s) = l then t @ drop (length l) (c # s) else c # replace_first l t s)"

text \<open>\<open>$.trim\<close>: white space is that of ASCII, the no-break space, the ideographic space and the mark of order.\<close>

definition wide_spaces :: "string list" where
  "wide_spaces = map (map char_of) [[194, 160 :: nat], [227, 128, 128], [239, 187, 191]]"

function strip_left :: "string list \<Rightarrow> string \<Rightarrow> string" where
  "strip_left ws [] = []"
| "strip_left ws (c # s) =
     (if is_space c then strip_left ws s
      else (case find (\<lambda>w. w \<noteq> [] \<and> take (length w) (c # s) = w) ws of
              Some w \<Rightarrow> if w = [] then c # s else strip_left ws (drop (length w) (c # s))
            | None \<Rightarrow> c # s))"
  by pat_completeness auto
termination by (relation "measure (length \<circ> snd)") auto

definition jq_trim :: "string \<Rightarrow> string" where
  "jq_trim s = rev (strip_left (map rev wide_spaces) (rev (strip_left wide_spaces s)))"

subsection \<open>The matches are the words of the language\<close>

primrec erase :: "jrx \<Rightarrow> rx" where
  "erase JEps = REps"
| "erase (JSet p) = RSet p"
| "erase (JSeq a b) = RSeq (erase a) (erase b)"
| "erase (JAlt a b) = RAlt (erase a) (erase b)"
| "erase (JStar r) = RStar (erase r)"
| "erase (JGrp n r) = erase r"

definition matches :: "run list \<Rightarrow> string \<Rightarrow> string \<Rightarrow> bool" where
  "matches ms u t \<longleftrightarrow> (\<exists>g. (u, t, g) \<in> set ms)"

lemma matches_simps [simp]:
  "matches (ms @ ns) u t \<longleftrightarrow> matches ms u t \<or> matches ns u t"
  "matches [(v, w, g)] u t \<longleftrightarrow> u = v \<and> t = w" "\<not> matches [] u t"
  "matches (filter (\<lambda>(u, t, g). P u) ms) u t \<longleftrightarrow> P u \<and> matches ms u t"
  by (auto simp: matches_def)

lemma matches_then_runs: "matches (then_runs ms k) u t \<longleftrightarrow> (\<exists>a b v. u = a @ v \<and> matches ms a b \<and> matches (k b) v t)"
  unfolding matches_def then_runs_def by force

lemma star_Nil: "[] \<in> lang (RStar r)"
  by (auto intro!: exI [of _ "[]"])

lemma star_step: "u \<in> lang r \<Longrightarrow> v \<in> lang (RStar r) \<Longrightarrow> u @ v \<in> lang (RStar r)"
proof -
  assume "u \<in> lang r" "v \<in> lang (RStar r)"
  then obtain us where "v = concat us" "set us \<subseteq> lang r" by auto
  with \<open>u \<in> lang r\<close> show ?thesis by (auto intro!: exI [of _ "u # us"])
qed

lemma star_cases:
  assumes "w \<in> lang (RStar r)" "w \<noteq> []"
  obtains u v where "w = u @ v" "u \<noteq> []" "u \<in> lang r" "v \<in> lang (RStar r)"
proof -
  obtain us where us: "w = concat us" "set us \<subseteq> lang r" using assms(1) by auto
  define vs where "vs = filter (\<lambda>u. u \<noteq> []) us"
  have "concat vs = concat us" unfolding vs_def by (induction us) auto
  moreover have "set vs \<subseteq> lang r" "[] \<notin> set vs" using us(2) by (auto simp: vs_def)
  moreover obtain a bs where "vs = a # bs" using calculation(1) us(1) assms(2) by (cases vs) simp_all
  ultimately show thesis
    using us(1) by (intro that [of a "concat bs"]) auto
qed

lemma matches_many:
  assumes "\<And>s u t. matches (f s) u t \<longleftrightarrow> s = u @ t \<and> u \<in> lang r"
  shows "length s \<le> n \<Longrightarrow> matches (many f n s) u t \<longleftrightarrow> s = u @ t \<and> u \<in> lang (RStar r)"
proof (induction n arbitrary: s u)
  case 0
  then show ?case using star_Nil by (auto simp: matches_def)
next
  case (Suc n)
  have E: "a \<noteq> [] \<and> matches (f s) a b \<and> matches (many f n b) v t \<longleftrightarrow>
      a \<noteq> [] \<and> s = a @ b \<and> a \<in> lang r \<and> b = v @ t \<and> v \<in> lang (RStar r)" for a b v
    unfolding assms using Suc.IH [of b v] Suc.prems by (cases a) auto
  have "matches (many f (Suc n) s) u t \<longleftrightarrow>
      (\<exists>a b v. u = a @ v \<and> a \<noteq> [] \<and> matches (f s) a b \<and> matches (many f n b) v t) \<or> (u = [] \<and> t = s)"
    by (auto simp: matches_then_runs)
  also have "\<dots> \<longleftrightarrow> (\<exists>a b v. u = a @ v \<and> a \<noteq> [] \<and> s = a @ b \<and> a \<in> lang r \<and> b = v @ t \<and> v \<in> lang (RStar r)) \<or> (u = [] \<and> t = s)"
    unfolding E ..
  also have "\<dots> \<longleftrightarrow> s = u @ t \<and> u \<in> lang (RStar r)"
  proof (cases "u = []")
    case True
    then show ?thesis using star_Nil by (auto simp del: lang.simps)
  next
    case False
    show ?thesis (is "?L \<or> _ \<longleftrightarrow> _")
    proof
      assume "?L \<or> u = [] \<and> t = s"
      then show "s = u @ t \<and> u \<in> lang (RStar r)" using False star_step [of _ r] by (auto simp del: lang.simps)
    next
      assume "s = u @ t \<and> u \<in> lang (RStar r)"
      then show "?L \<or> u = [] \<and> t = s" using star_cases [of u r] False by (metis append.assoc)
    qed
  qed
  finally show ?case .
qed

theorem runs_lang: "matches (runs r s) u t \<longleftrightarrow> s = u @ t \<and> u \<in> lang (erase r)"
proof (induction r arbitrary: s u t)
  case (JSeq a b)
  show ?case unfolding runs.simps matches_then_runs JSeq by fastforce
next
  case (JStar r)
  show ?case using matches_many [OF JStar.IH, where n = "length s"] by simp
next
  case (JGrp n r)
  have "matches (runs (JGrp n r) s) u t \<longleftrightarrow> matches (runs r s) u t" by (force simp: matches_def)
  then show ?case unfolding JGrp by simp
next
  case (JAlt a b)
  show ?case unfolding runs.simps matches_simps JAlt by auto
qed (auto simp: matches_def split: list.splits)

lemma match_here_None: "match_here e r s = None \<longleftrightarrow> (\<forall>u t. s = u @ t \<longrightarrow> u \<in> lang (erase r) \<longrightarrow> e \<and> t \<noteq> [])"
  using runs_lang [of r s] by (fastforce simp: match_here_def find_None_iff matches_def)

lemma match_here_Some: "match_here e r s = Some (u, t, g) \<Longrightarrow> s = u @ t \<and> u \<in> lang (erase r) \<and> (e \<longrightarrow> t = [])"
  using runs_lang [of r s u t] by (auto simp: match_here_def find_Some_iff matches_def dest: nth_mem)

text \<open>A test of the whole text by backtracking is the test by derivatives.\<close>

theorem backtracking_is_derivatives: "match_here True r s \<noteq> None \<longleftrightarrow> rx_test (erase r) s"
  unfolding match_here_None rx_test_lang by auto

text \<open>A match is found where there is one, the leftmost first.\<close>

theorem js_match_None: "js_match e r s = None \<longleftrightarrow> (\<forall>p u t. s = p @ u @ t \<longrightarrow> u \<in> lang (erase r) \<longrightarrow> e \<and> t \<noteq> [])"
proof (induction s)
  case Nil
  then show ?case using match_here_None [of e r "[]"] by auto
next
  case (Cons c s)
  have "(\<forall>p u t. c # s = p @ u @ t \<longrightarrow> P u t) \<longleftrightarrow> (\<forall>u t. c # s = u @ t \<longrightarrow> P u t) \<and> (\<forall>p u t. s = p @ u @ t \<longrightarrow> P u t)" for P
    by (auto simp: Cons_eq_append_conv)
  then show ?case using Cons match_here_None [of e r "c # s"] by (auto split: option.splits)
qed

lemma js_match_skip: "\<forall>i < length p. match_here e r (drop i p @ s) = None \<Longrightarrow> js_match e r (p @ s) = js_match e r s"
proof (induction p)
  case (Cons c p)
  from Cons.prems have "match_here e r (c # p @ s) = None" by (auto dest: spec [of _ 0])
  moreover have "\<forall>i < length p. match_here e r (drop i p @ s) = None"
    using Cons.prems by (metis Suc_less_eq drop_Suc_Cons length_Cons)
  ultimately show ?case using Cons.IH by simp
qed simp

subsection \<open>The first match of the expressions used\<close>

lemma match_here_False: "match_here False r s = (case runs r s of m # _ \<Rightarrow> Some m | [] \<Rightarrow> None)"
  by (cases "runs r s") (auto simp: match_here_def)

lemma then_runs_simps [simp]:
  "then_runs [] k = []" "then_runs (m # ms) k = map (\<lambda>(v, w, h). (fst m @ v, w, h @ snd (snd m))) (k (fst (snd m))) @ then_runs ms k"
  by (auto simp: then_runs_def split: prod.splits)

lemma runs_jlit: "runs (jlit l) s = (if take (length l) s = l then [(l, drop (length l) s, [])] else [])"
proof (induction l arbitrary: s)
  case (Cons c l)
  have "jlit (c # l) = JSeq (JSet ((=) c)) (jlit l)" by (simp add: jlit_def)
  then show ?case using Cons by (cases s) auto
qed (simp add: jlit_def)

lemma runs_lit_seq:
  "runs (JSeq (jlit l) r) s =
     (if take (length l) s = l then map (\<lambda>(v, w, h). (l @ v, w, h)) (runs r (drop (length l) s)) else [])"
  by (simp add: runs_jlit)

lemma map_pair_rev_upt: "map (\<lambda>(v, w, h). ((c # v, w, h) :: run)) (map (\<lambda>k. (take k s, drop k s, [])) (rev [0..<n])) =
    map (\<lambda>k. (take k (c # s), drop k (c # s), [])) (rev [Suc 0..<Suc n])"
  by (induction n) auto

lemma many_set:
  "length s \<le> n \<Longrightarrow> many (runs (JSet p)) n s = map (\<lambda>k. (take k s, drop k s, [])) (rev [0..<Suc (length (takeWhile p s))])"
proof (induction n arbitrary: s)
  case (Suc n)
  show ?case
  proof (cases s)
    case (Cons c t)
    show ?thesis
    proof (cases "p c")
      case True
      have IH: "many (runs (JSet p)) n t = map (\<lambda>k. (take k t, drop k t, [])) (rev [0..<Suc (length (takeWhile p t))])"
        by (rule Suc.IH) (use Suc.prems Cons in simp)
      have "many (runs (JSet p)) (Suc n) s = map (\<lambda>(v, w, h). (c # v, w, h)) (many (runs (JSet p)) n t) @ [([], s, [])]"
        using True Cons by simp
      also have "\<dots> = map (\<lambda>k. (take k s, drop k s, [])) (rev [Suc 0..<Suc (Suc (length (takeWhile p t)))]) @ [([], s, [])]"
        by (simp only: IH map_pair_rev_upt Cons)
      also have "\<dots> = map (\<lambda>k. (take k s, drop k s, [])) (rev [0..<Suc (length (takeWhile p s))])"
        using True Cons by (simp del: upt_Suc add: upt_rec [of 0])
      finally show ?thesis .
    qed (simp add: Cons)
  qed simp
qed simp

lemma runs_plus_set:
  "runs (jplus (JSet p)) s = map (\<lambda>k. (take k s, drop k s, [])) (rev [1..<Suc (length (takeWhile p s))])"
proof (cases s)
  case (Cons c t)
  show ?thesis
  proof (cases "p c")
    case True
    have "runs (jplus (JSet p)) s = map (\<lambda>(v, w, h). (c # v, w, h)) (many (runs (JSet p)) (length t) t)"
      using True Cons by (simp add: jplus_def)
    also have "\<dots> = map (\<lambda>k. (take k s, drop k s, [])) (rev [Suc 0..<Suc (Suc (length (takeWhile p t)))])"
      by (simp only: many_set map_pair_rev_upt Cons)
    finally show ?thesis using True Cons by simp
  qed (simp add: Cons jplus_def)
qed (simp add: jplus_def)

lemma runs_plus_set_hd:
  "s \<noteq> [] \<Longrightarrow> p (hd s) \<Longrightarrow> \<exists>ms. runs (jplus (JSet p)) s = (takeWhile p s, dropWhile p s, []) # ms"
proof -
  assume "s \<noteq> []" "p (hd s)"
  then have "Suc 0 \<le> length (takeWhile p s)" by (cases s) auto
  then show ?thesis
    unfolding runs_plus_set by (simp add: takeWhile_eq_take [symmetric] dropWhile_eq_drop [symmetric])
qed

text \<open>A label, and behind it all that is not the next tag.\<close>

lemma match_lit_grp:
  assumes "after_first l s = Some t" "t \<noteq> []" "p (hd t)"
  shows "js_match False (JSeq (jlit l) (JGrp 1 (jplus (JSet p)))) s = Some (l @ takeWhile p t, dropWhile p t, [(1, takeWhile p t)])"
  using assms(1)
proof (induction s)
  case Nil
  then show ?case using assms(2) by (simp split: if_splits)
next
  case (Cons c s)
  obtain ms where ms: "runs (jplus (JSet p)) t = (takeWhile p t, dropWhile p t, []) # ms" using runs_plus_set_hd assms(2,3) by blast
  let ?r = "JSeq (jlit l) (JGrp 1 (jplus (JSet p)))"
  show ?case
  proof (cases "take (length l) (c # s) = l")
    case True
    then have "drop (length l) (c # s) = t" using Cons.prems by simp
    then have "match_here False ?r (c # s) = Some (l @ takeWhile p t, dropWhile p t, [(1, takeWhile p t)])"
      using True ms by (simp only: match_here_False runs_lit_seq) simp
    then show ?thesis by simp
  next
    case False
    then have "match_here False ?r (c # s) = None" by (simp only: match_here_False runs_lit_seq) simp
    then show ?thesis using Cons False by (simp del: runs.simps)
  qed
qed

lemma concat_only:
  assumes "m \<in> set ms" "f m = y # ys" "\<And>n. n \<in> set ms \<Longrightarrow> n \<noteq> m \<Longrightarrow> f n = []"
  shows "\<exists>zs. concat (map f ms) = y # zs"
  using assms
proof (induction ms)
  case (Cons n ms)
  then show ?case by (cases "n = m") auto
qed simp

lemma head_of_drop: "take (Suc n) (drop k s) = x # l \<Longrightarrow> k < length s \<and> s ! k = x"
  by (metis Cons_nth_drop_Suc drop_eq_Nil list.distinct(1) list.inject not_le take_Nil take_Suc_Cons)

lemma only_index:
  assumes "x \<notin> set u" "x \<notin> set v" "k < length (u @ x # v)" "(u @ x # v) ! k = x"
  shows "k = length u"
proof (rule ccontr)
  assume "k \<noteq> length u"
  then have "(u @ x # v) ! k \<in> set u \<union> set v"
    using assms(3) by (auto simp: nth_append nth_Cons' not_less)
  then show False using assms by auto
qed

lemma lang_erase_lit: "u \<in> lang (erase (jlit s)) \<longleftrightarrow> u = s"
  by (induction s arbitrary: u) (auto simp: jlit_def)

lemma lang_erase_plus: "u \<in> lang (erase (jplus (JSet p))) \<longleftrightarrow> u \<noteq> [] \<and> list_all p u"
  using lang_plus_set [of u p] by (simp add: jplus_def rplus_def)

text \<open>
  Text around a sign that stands once: all before it back to a bracket, and all behind it up to one.
\<close>

lemma match_around:
  fixes x :: char and l pre a b post :: string
  defines "r \<equiv> JSeq (jplus (jnot CHR ''>'')) (JSeq (jlit (x # l)) (jplus (jnot CHR ''<'')))"
  assumes x: "x \<notin> set l" "x \<notin> set pre" "x \<notin> set a" "x \<notin> set b" "x \<notin> set (takeWhile ((\<noteq>) CHR ''>'') post)"
    and sign: "x \<noteq> CHR ''<''" "x \<noteq> CHR ''>''" "CHR ''>'' \<notin> set l"
    and a: "a \<noteq> []" "CHR ''>'' \<notin> set a" and b: "b \<noteq> []" "CHR ''>'' \<notin> set b" "CHR ''<'' \<notin> set b"
  shows "js_match False r (pre @ ''>'' @ a @ x # l @ b @ CHR ''<'' # post) = Some (a @ x # l @ b, CHR ''<'' # post, [])"
proof -
  define rest where "rest = a @ x # l @ b @ CHR ''<'' # post"
  define w where "w = takeWhile ((\<noteq>) CHR ''>'') post"
  define K where "K = runs (JSeq (jlit (x # l)) (jplus (jnot CHR ''<'')))"
  have tw: "takeWhile ((\<noteq>) CHR ''>'') rest = a @ x # l @ b @ CHR ''<'' # w"
  proof -
    have "c \<in> set (a @ x # l @ b @ ''<'') \<Longrightarrow> CHR ''>'' \<noteq> c" for c using sign a(2) b(2) by auto
    then have "takeWhile ((\<noteq>) CHR ''>'') ((a @ x # l @ b @ ''<'') @ post) = (a @ x # l @ b @ ''<'') @ w"
      unfolding w_def by (rule takeWhile_append2)
    then show ?thesis by (simp add: rest_def)
  qed
  have at_a: "K (drop k rest) = []" if "k \<le> length (takeWhile ((\<noteq>) CHR ''>'') rest)" "k \<noteq> length a" for k
  proof -
    have "take (Suc (length l)) (drop k rest) \<noteq> x # l"
    proof
      assume "take (Suc (length l)) (drop k rest) = x # l"
      then have n: "k < length rest" "rest ! k = x" by (auto dest: head_of_drop)
      have "k \<noteq> length (takeWhile ((\<noteq>) CHR ''>'') rest)"
        using nth_length_takeWhile [of "(\<noteq>) CHR ''>''" rest] sign(2) n by metis
      then have k: "k < length (takeWhile ((\<noteq>) CHR ''>'') rest)" using that(1) by simp
      have "(a @ x # l @ b @ CHR ''<'' # w) ! k = x" using takeWhile_nth [OF k] n(2) unfolding tw by simp
      moreover have "k < length (a @ x # l @ b @ CHR ''<'' # w)" using k unfolding tw .
      moreover have "x \<notin> set (l @ b @ CHR ''<'' # w)" using x sign(1) by (simp add: w_def)
      ultimately have "k = length a" using only_index [OF x(3), of "l @ b @ CHR ''<'' # w" k] by blast
      then show False using that(2) by simp
    qed
    then show ?thesis by (simp only: K_def runs_lit_seq) simp
  qed
  have m: "match_here False r rest = Some (a @ x # l @ b, CHR ''<'' # post, [])"
  proof -
    have d: "drop (length a) rest = x # l @ b @ CHR ''<'' # post" by (simp add: rest_def)
    obtain ms where ms: "runs (jplus (jnot CHR ''<'')) (b @ CHR ''<'' # post) = (b, CHR ''<'' # post, []) # ms"
    proof -
      have "hd (b @ CHR ''<'' # post) \<noteq> CHR ''<''" using b by (cases b) auto
      moreover have "c \<in> set b \<Longrightarrow> CHR ''<'' \<noteq> c" for c using b(3) by auto
      ultimately show thesis
        using runs_plus_set_hd [of "b @ CHR ''<'' # post" "(\<noteq>) CHR ''<''"] that
        by (auto simp: jnot_def takeWhile_append2 dropWhile_append2)
    qed
    have Ka: "K (drop (length a) rest) = (x # l @ b, CHR ''<'' # post, []) # map (\<lambda>(v, w, h). (x # l @ v, w, h)) ms"
      unfolding K_def d runs_lit_seq using ms by simp
    let ?G = "\<lambda>k. map (\<lambda>(v, w, h). (take k rest @ v, w, h)) (K (drop k rest))"
    have "runs r rest = then_runs (runs (jplus (jnot CHR ''>'')) rest) K" by (simp add: r_def K_def)
    also have "\<dots> = concat (map ?G (rev [1..<Suc (length (takeWhile ((\<noteq>) CHR ''>'') rest))]))"
      by (simp add: jnot_def runs_plus_set then_runs_def comp_def)
    also obtain zs where "\<dots> = (a @ x # l @ b, CHR ''<'' # post, []) # zs"
    proof -
      have "length a \<in> set (rev [1..<Suc (length (takeWhile ((\<noteq>) CHR ''>'') rest))])"
        using a(1) unfolding tw set_rev set_upt by (cases a) (simp_all del: One_nat_def)
      moreover have "?G (length a) = (a @ x # l @ b, CHR ''<'' # post, []) # map (\<lambda>(v, w, h). (take (length a) rest @ v, w, h)) (map (\<lambda>(v, w, h). (x # l @ v, w, h)) ms)"
        unfolding Ka by (simp add: rest_def)
      moreover have "?G k = []" if "k \<in> set (rev [1..<Suc (length (takeWhile ((\<noteq>) CHR ''>'') rest))])" "k \<noteq> length a" for k
        using at_a [of k] that unfolding set_rev set_upt by simp
      ultimately have "\<exists>zs. concat (map ?G (rev [1..<Suc (length (takeWhile ((\<noteq>) CHR ''>'') rest))])) =
          (a @ x # l @ b, CHR ''<'' # post, []) # zs"
        by (rule concat_only)
      then show thesis using that by blast
    qed
    finally show ?thesis by (simp add: match_here_False)
  qed
  have skip: "match_here False r (drop i (pre @ ''>'') @ rest) = None" if "i < length (pre @ ''>'')" for i
  proof -
    have False if eq: "drop i pre @ CHR ''>'' # rest = u @ t" and u: "u \<in> lang (erase r)" for u t
    proof -
      obtain y z where yz: "u = y @ x # z" "CHR ''>'' \<notin> set y"
        using u by (auto simp: r_def jnot_def lang_erase_plus lang_erase_lit list_all_iff)
      have "x \<notin> set (drop i pre)" using x(2) by (auto dest: in_set_dropD)
      then show False using eq yz sign(2) by (auto simp: append_eq_append_conv2 append_eq_Cons_conv Cons_eq_append_conv)
    qed
    then show ?thesis using \<open>i < length (pre @ ''>'')\<close> by (auto simp: match_here_None)
  qed
  have "js_match False r ((pre @ ''>'') @ rest) = js_match False r rest" using skip by (intro js_match_skip) blast
  moreover have "js_match False r rest = match_here False r rest" using m by (cases rest) auto
  ultimately show ?thesis using m by (simp add: rest_def)
qed

end
