(* ===== verification/Readers.thy ===== *)
theory Readers
  imports JsMatch Index
begin

text \<open>
  The scripts that run on pages of four other sites (\<open>dida/fly/js/admin/spd/\<close>: \<open>58.js\<close>, \<open>ganji.js\<close>,
  \<open>edeng.js\<close>, \<open>liebiao.js\<close>) and read shared rides off them.  On a page of one ride a script picks the
  fields out of the markup and posts them as a route; on a list it asks the server which rides are new
  and opens a window for each.

  A page is what the script looks up in it: the markup of a block, or \<open>None\<close> when the page has no such
  block, where \<open>html()\<close> is null and the next \<open>match\<close> throws.  \<open>clothe\<close> is \<open>bmoon.utl.clotheHTML\<close>, which lets the
  browser parse a text.
\<close>

subsection \<open>What the scripts share\<close>

record reader = "unit page" +
  rd_urls :: "(string \<times> string) list"
  rd_waiting :: "jsv list"
  rd_opened :: "string option list"
  rd_closed :: bool
  rd_reload :: bool

definition fresh_reader :: reader where
  "fresh_reader = \<lparr>dom = (\<lambda>_. blank), reqs = [], alerts = [], thrown = [], rd_urls = [], rd_waiting = [], rd_opened = [],
     rd_closed = False, rd_reload = False\<rparr>"

definition html :: "string option \<Rightarrow> js_error + string" where
  "html e = (case e of None \<Rightarrow> Inl TypeError | Some h \<Rightarrow> Inr h)"

text \<open>\<open>$.trim(x)\<close>, where nothing is the empty string\<close>

definition trim_opt :: "string option \<Rightarrow> string" where
  "trim_opt x = (case x of None \<Rightarrow> '''' | Some s \<Rightarrow> jq_trim s)"

definition nth_opt :: "'a list \<Rightarrow> nat \<Rightarrow> 'a option" where
  "nth_opt xs i = (if i < length xs then Some (xs ! i) else None)"

definition html_val :: "string option \<Rightarrow> jsv" where
  "html_val e = (case e of None \<Rightarrow> JNull | Some h \<Rightarrow> JStr h)"

definition drop_tags :: "string \<Rightarrow> string" where
  "drop_tags = remove_all (jseqs [jlit ''<'', jplus (jnot CHR ''>''), jlit ''>''])"

definition some_time :: string where
  "some_time = ''2011-12-31 08:00:00''"

definition digits :: jrx where
  "digits = jplus (JSet is_digit)"

definition id_chars :: jrx where
  "id_chars = jplus (JSet (\<lambda>c. is_digit c \<or> c = CHR ''|'' \<or> c = CHR ''_''))"

definition dots :: jrx where
  "dots = JStar jdot"

definition admin_site :: string where
  "admin_site = ''http://admin.dididada.org/''"

definition add_plan :: "(string \<times> jsv) list \<Rightarrow> reader \<Rightarrow> reader" where
  "add_plan p = send GET (admin_site @ ''json/spd/do?JsonCallback=?'')
     [(''_op'', JStr ''add''), (''plan'', JStr (stringify (JObj p))), (''_type_plan'', JStr ''object'')]"

text \<open>The answer closes the window of a ride that was taken.\<close>

(* src/dida/fly/js/admin/spd/58.js:119-127 parseNode, the answer *)
definition add_reply :: "jsv \<Rightarrow> reader \<Rightarrow> reader" where
  "add_reply data s =
     (if data = JUndef \<or> data = JNull then throw s
      else if is_one (fld data ''success'') then s\<lparr>rd_closed := True\<rparr> else s)"

text \<open>A list: the links that name a ride, with the name the site gives it.\<close>

fun ride_links :: "(string \<Rightarrow> (string \<times> string) option) \<Rightarrow> string option list \<Rightarrow> js_error + (string \<times> string) list" where
  "ride_links f [] = Inr []"
| "ride_links f (None # hs) = Inl TypeError"
| "ride_links f (Some h # hs) = bind_sum (ride_links f hs) (\<lambda>ls. Inr (case f h of Some l \<Rightarrow> l # ls | None \<Rightarrow> ls))"

definition ask_new :: "string \<Rightarrow> (string \<Rightarrow> (string \<times> string) option) \<Rightarrow> string option list \<Rightarrow> reader \<Rightarrow> js_error + reader" where
  "ask_new ori f hrefs s = bind_sum (ride_links f hrefs) (\<lambda>ls.
     Inr (send GET (admin_site @ ''json/spd/pre?JsonCallback=?'') [(''ori'', JStr ori), (''oids'', JArr (map (JStr \<circ> fst) ls))] (s\<lparr>rd_urls := ls\<rparr>)))"

fun vals :: "jsv \<Rightarrow> jsv list" where
  "vals (JObj ps) = map snd ps"
| "vals _ = []"

(* src/dida/fly/js/admin/spd/58.js:166-180 parseList, the answer *)
definition list_reply :: "jsv \<Rightarrow> reader \<Rightarrow> reader" where
  "list_reply data s =
     (if data = JUndef \<or> data = JNull then throw s
      else if is_one (fld data ''success'') then
        (if is_type ''Object'' (fld data ''oids'') then s\<lparr>rd_waiting := rd_waiting s @ vals (fld data ''oids'')\<rparr> else s)
      else alert (errmsg_or data (utf8 [230, 147, 141, 228, 189, 156, 229, 164, 177, 232, 180, 165])) s)"

text \<open>
  The timers run at random, within 50 seconds; \<open>i\<close> is the one that is next.  A name that occurs twice on
  the list keeps its last address, one that does not occur has none.
\<close>

(* src/dida/fly/js/admin/spd/58.js:169-173 parseList, its timers *)
definition open_window :: "nat \<Rightarrow> reader \<Rightarrow> reader" where
  "open_window i s =
     (if i < length (rd_waiting s) then
        s\<lparr>rd_waiting := take i (rd_waiting s) @ drop (Suc i) (rd_waiting s),
          rd_opened := rd_opened s @ [map_of (rev (rd_urls s)) (to_str (rd_waiting s ! i))]\<rparr>
      else s)"

text \<open>When a script gets to its end it sets the timer that loads the page again.\<close>

definition ready_end :: "js_error + reader \<Rightarrow> reader \<Rightarrow> reader" where
  "ready_end r s = (case r of Inl e \<Rightarrow> raise e s | Inr t \<Rightarrow> t\<lparr>rd_reload := True\<rparr>)"

subsection \<open>58.js\<close>

record page58 =
  p8_href :: string
  p8_info :: "string option"
  p8_headline :: "string option"
  p8_maincon :: "string option"
  p8_user :: "string option"
  p8_phone :: "string option"
  p8_userinfo :: "string option"
  p8_vuser :: "string option"
  p8_topbar :: "string option"
  p8_links :: "string option list"

definition arrow :: string where
  "arrow = (utf8 [226, 134, 146])"

text \<open>The ends of the ride: the two sides of the arrow.\<close>

(* src/dida/fly/js/admin/spd/58.js:39-44 parseNode, the ends *)
definition ends58 :: "string \<Rightarrow> string \<times> string" where
  "ends58 info = (case js_match False (JSeq (jplus (jnot CHR ''>'')) (JSeq (jlit arrow) (jplus (jnot CHR ''<'')))) info of
       None \<Rightarrow> ('''', '''')
     | Some m \<Rightarrow> (let x = split_str arrow [] (fst m) in (trim_opt (nth_opt x 0), trim_opt (nth_opt x 1))))"

definition labelled :: "string \<Rightarrow> string \<Rightarrow> run option" where
  "labelled l info = js_match False (JSeq (jlit (l @ ''</i>'')) (JGrp 1 (jplus (jnot CHR ''<'')))) info"

(* src/dida/fly/js/admin/spd/58.js:51-52 parseNode, the time *)
definition time58 :: "string \<Rightarrow> string" where
  "time58 info = (case labelled (utf8 [230, 151, 182, 233, 151, 180, 239, 188, 154]) info of
       None \<Rightarrow> some_time
     | Some m \<Rightarrow> (let t = replace_first ''&nbsp;'' '' '' (jq_trim (grp 1 m)) in if t = [] then some_time else t))"

(* src/dida/fly/js/admin/spd/58.js:54-57 parseNode, how often *)
definition repeat58 :: "string \<Rightarrow> int" where
  "repeat58 info = (case labelled (utf8 [231, 177, 187, 229, 158, 139, 239, 188, 154]) info of
       None \<Rightarrow> 0
     | Some m \<Rightarrow> (if grp 1 m \<noteq> [] \<and> jq_trim (hd (split_on (char_of (10 :: nat)) (grp 1 m))) = (utf8 [228, 184, 138, 228, 184, 139, 231, 143, 173, 230, 139, 188, 232, 189, 166]) then 2 else 0))"

(* src/dida/fly/js/admin/spd/58.js:67-68 parseNode, day and hour *)
definition when58 :: "int \<Rightarrow> string \<Rightarrow> string \<times> string" where
  "when58 rep time = (let x = split_on CHR '' '' time
     in (if rep = 2 then ''1,2,3,4,5'' else hd x, case nth_opt x 1 of Some t \<Rightarrow> if t \<noteq> [] then t else hd x | None \<Rightarrow> hd x))"

definition showphone :: "string \<Rightarrow> string" where
  "showphone s = grp_or 0 (map_option (\<lambda>(u, t, g). (u, t, (0, u) # g)) (js_match False
     (jseqs [jlit ''http://image'', jdot, jlit ''58'', jdot, jlit ''com/showphone'', jplus (JSet (\<lambda>c. c \<noteq> CHR 0x27 \<and> c \<noteq> dquote))]) s)) ''''"

(* src/dida/fly/js/admin/spd/58.js:72-87 parseNode, the user *)
definition user58 :: "string \<Rightarrow> string \<Rightarrow> string \<Rightarrow> string \<Rightarrow> string option \<Rightarrow> string list" where
  "user58 user phone contact vuser topbar =
     (let uid = grp_or 1 (js_match False (jseqs [jlit ''uid: '', jlit [CHR 0x27], JGrp 1 digits, jlit [CHR 0x27]]) user) '''';
          uname = grp_or 1 (js_match False (jseqs [jlit ''username:'', jlit [CHR 0x27], JGrp 1 dots, jlit [CHR 0x27]]) user) '''';
          ph = (if match_here True digits phone \<noteq> None then phone else showphone phone);
          city = grp_or 1 (js_match False (jseqs [jlit (utf8 [239, 188, 136, 229, 189, 146, 229, 177, 158, 229, 156, 176, 239, 188, 154]), JGrp 1 dots, jlit (utf8 [239, 188, 137])]) vuser)
                   (case topbar of Some h \<Rightarrow> h | None \<Rightarrow> '''')
      in [uid, uname, ph, showphone contact, city])"

(* src/dida/fly/js/admin/spd/58.js:31-70 parseNode *)
definition plan58 :: "(jsv \<Rightarrow> jsv) \<Rightarrow> string \<Rightarrow> page58 \<Rightarrow> js_error + string \<times> (string \<times> jsv) list" where
  "plan58 clothe i p =
     bind_sum (html (p8_info p)) (\<lambda>info.
     bind_sum (html (p8_headline p)) (\<lambda>headline.
     bind_sum (html (p8_maincon p)) (\<lambda>maincon.
     bind_sum (html (p8_user p)) (\<lambda>user.
     bind_sum (html (p8_vuser p)) (\<lambda>vuser.
     bind_sum (html (p8_phone p)) (\<lambda>phone.
     bind_sum (html (p8_userinfo p)) (\<lambda>contact.
       let (saddr, eaddr) = ends58 info; rep = repeat58 info; (sdate, stime) = when58 rep (time58 info);
           u = user58 user phone contact vuser (p8_topbar p)
       in Inr (u ! 0,
         [(''mid'', jint 0), (''phone'', clothe (JStr (u ! 2))), (''contact'', clothe (JStr (u ! 3))), (''ori'', JStr ''58''), (''oid'', JStr i),
          (''ourl'', JStr (p8_href p)), (''dad'', jint (if has_str (utf8 [230, 156, 137, 232, 189, 166]) headline then 1 else 0)), (''nick'', JStr (u ! 1)),
          (''saddr'', JStr saddr), (''eaddr'', JStr eaddr),
          (''marks'', JStr (case labelled (utf8 [233, 128, 148, 231, 187, 143, 239, 188, 154]) info of None \<Rightarrow> '''' | Some m \<Rightarrow> jq_trim (grp 1 m))),
          (''city'', JStr (u ! 4)), (''repeat'', jint rep), (''sdate'', JStr sdate), (''stime'', JStr stime),
          (''attach'', JStr (drop_tags maincon))]))))))))"

text \<open>The route is posted when the site answered for the user, whatever it says.\<close>

(* src/dida/fly/js/admin/spd/58.js:89-91 parseNode, its request *)
definition parseNode58 :: "(jsv \<Rightarrow> jsv) \<Rightarrow> string \<Rightarrow> page58 \<Rightarrow> reader \<Rightarrow> js_error + reader" where
  "parseNode58 clothe i p s = bind_sum (plan58 clothe i p) (\<lambda>(uid, plan).
     Inr (send GET ''http://user.58.com/userdata/?callback=?'' [(''userid'', JStr uid)] s))"

(* src/dida/fly/js/admin/spd/58.js:91-118 parseNode, the answer for the user *)
definition user_reply58 :: "(jsv \<Rightarrow> jsv) \<Rightarrow> string \<Rightarrow> page58 \<Rightarrow> reader \<Rightarrow> reader" where
  "user_reply58 clothe i p s = (case plan58 clothe i p of Inl e \<Rightarrow> s | Inr (uid, plan) \<Rightarrow> add_plan plan s)"

text \<open>\<open>/.*\/([0-9]+)x\.shtml$/\<close>, \<open>/.*58.com\/pinche\//\<close> and \<open>/.*\/pinche\/([0-9]+)x\.shtml$/\<close>\<close>

definition node58 :: "string \<Rightarrow> run option" where
  "node58 = js_match True (jseqs [dots, jlit ''/'', JGrp 1 digits, jlit ''x.shtml''])"

definition list58 :: "string \<Rightarrow> bool" where
  "list58 h \<longleftrightarrow> js_match False (jseqs [dots, jlit ''58'', jdot, jlit ''com/pinche/'']) h \<noteq> None"

definition link58 :: "string \<Rightarrow> (string \<times> string) option" where
  "link58 h = map_option (\<lambda>m. (grp 1 m, h)) (js_match True (jseqs [dots, jlit ''/pinche/'', JGrp 1 digits, jlit ''x.shtml'']) h)"

(* src/dida/fly/js/admin/spd/58.js:147-166 parseList *)
definition parseList58 :: "string option list \<Rightarrow> reader \<Rightarrow> js_error + reader" where
  "parseList58 = ask_new ''58'' link58"

(* src/dida/fly/js/admin/spd/58.js:13-25 onready *)
definition onready58 :: "(jsv \<Rightarrow> jsv) \<Rightarrow> page58 \<Rightarrow> reader \<Rightarrow> reader" where
  "onready58 clothe p s = ready_end
     (case node58 (p8_href p) of
        Some m \<Rightarrow> parseNode58 clothe (grp 1 m) p s
      | None \<Rightarrow> if list58 (p8_href p) then parseList58 (p8_links p) s else Inr s) s"

subsection \<open>ganji.js\<close>

record page_ganji =
  pg_href :: string
  pg_title :: "string option"
  pg_body :: "string option"
  pg_text :: "string option"
  pg_images :: "string list"
  pg_city :: "string option"
  pg_links :: "string option list"

definition area_of :: "string \<Rightarrow> js_error + string" where
  "area_of h = (case js_match False (jseqs [jlit ''http://'', JGrp 1 dots, jdot, jlit ''ganji'', dots]) h of
       None \<Rightarrow> Inl TypeError
     | Some m \<Rightarrow> Inr (grp 1 m))"

text \<open>
  The heading: the start, and behind the arrow the end, with a fee as a number before the sign of the
  currency.  The end is the first run without a digit, and there must be one.
\<close>

(* src/dida/fly/js/admin/spd/ganji.js:41-51 parseNode, the heading *)
definition heading_ganji :: "string option \<Rightarrow> js_error + string \<times> string \<times> jnum" where
  "heading_ganji h =
     (let x = split_str arrow [] (trim_opt h); saddr = jq_trim (hd x); eaddr = trim_opt (nth_opt x 1);
          fee = (case js_match False (JSeq digits (jlit (utf8 [229, 133, 131]))) eaddr of Some m \<Rightarrow> parseInt (fst m) | None \<Rightarrow> Fin 0)
      in case js_match False (jplus (JSet (\<lambda>c. \<not> is_digit c))) eaddr of
           None \<Rightarrow> Inl TypeError
         | Some m \<Rightarrow> Inr (saddr, jq_trim (replace_first ''-'' '''' (replace_first (utf8 [233, 157, 162, 232, 174, 174]) '''' (fst m))), fee))"

definition day_ganji :: jrx where
  "day_ganji = (let d = JSet is_digit in jseqs [d, d, d, d, jlit ''-'', d, d, jlit ''-'', d, d])"

(* src/dida/fly/js/admin/spd/ganji.js:33-74 parseNode *)
definition plan_ganji :: "(jsv \<Rightarrow> jsv) \<Rightarrow> string \<Rightarrow> string \<Rightarrow> page_ganji \<Rightarrow> js_error + (string \<times> jsv) list" where
  "plan_ganji clothe area i p =
     bind_sum (heading_ganji (pg_title p)) (\<lambda>(saddr, eaddr, fee).
     bind_sum (html (pg_body p)) (\<lambda>body.
     bind_sum (html (pg_text p)) (\<lambda>txt.
       let uname = (case js_match False (JSeq (jlit (utf8 [232, 129, 148, 231, 179, 187, 228, 186, 186, 239, 188, 154])) (JGrp 1 (jplus (jnot CHR ''<'')))) body of
                      Some m \<Rightarrow> jq_trim (grp 1 m) | None \<Rightarrow> (utf8 [232, 181, 182, 233, 155, 134, 231, 189, 145, 229, 143, 139]));
           marks = (case js_match False (JSeq (jlit (utf8 [233, 128, 148, 229, 190, 132, 229, 156, 176, 231, 130, 185, 58])) (JGrp 1 (jplus (jnot CHR ''<'')))) body of
                      Some m \<Rightarrow> jq_trim (grp 1 m) | None \<Rightarrow> '''');
           time = (case js_match False day_ganji body of Some m \<Rightarrow> fst m | None \<Rightarrow> some_time);
           x = split_on CHR '' '' time;
           image = (\<lambda>k. case nth_opt (pg_images p) k of Some src \<Rightarrow> if src \<noteq> [] then ''http://'' @ area @ ''.ganji.com'' @ src else '''' | None \<Rightarrow> '''')
       in Inr
         [(''mid'', jint 0), (''phone'', clothe (JStr (image 0))), (''contact'', clothe (JStr (image 1))), (''ori'', JStr ''ganji''), (''oid'', JStr i),
          (''ourl'', JStr (pg_href p)), (''dad'', jint (if has_str (utf8 [230, 136, 145, 230, 152, 175, 232, 189, 166, 228, 184, 187]) body then 1 else 0)), (''nick'', JStr uname), (''fee'', JNum fee),
          (''saddr'', JStr saddr), (''eaddr'', JStr eaddr), (''marks'', JStr marks), (''city'', html_val (pg_city p)), (''repeat'', jint 0),
          (''sdate'', JStr (hd x)), (''stime'', JStr (case nth_opt x 1 of Some t \<Rightarrow> t | None \<Rightarrow> '''')), (''attach'', JStr (drop_tags txt))])))"

(* src/dida/fly/js/admin/spd/ganji.js:92-119 parseNode, its request *)
definition parseNode_ganji :: "(jsv \<Rightarrow> jsv) \<Rightarrow> string \<Rightarrow> string \<Rightarrow> page_ganji \<Rightarrow> reader \<Rightarrow> js_error + reader" where
  "parseNode_ganji clothe area i p s = bind_sum (plan_ganji clothe area i p) (\<lambda>plan. Inr (add_plan plan s))"

definition link_ganji :: "string \<Rightarrow> string \<Rightarrow> (string \<times> string) option" where
  "link_ganji area h = map_option (\<lambda>m. (area @ grp 1 m, ''http://'' @ area @ ''.ganji.com'' @ h))
     (js_match True (jseqs [dots, jlit ''/pincheshangxiaban/'', JGrp 1 dots, jlit ''.htm'']) h)"

(* src/dida/fly/js/admin/spd/ganji.js:130-150 parseList *)
definition parseList_ganji :: "string \<Rightarrow> string option list \<Rightarrow> reader \<Rightarrow> js_error + reader" where
  "parseList_ganji area = ask_new ''ganji'' (link_ganji area)"

(* src/dida/fly/js/admin/spd/ganji.js:13-27 onready *)
definition onready_ganji :: "(jsv \<Rightarrow> jsv) \<Rightarrow> page_ganji \<Rightarrow> reader \<Rightarrow> reader" where
  "onready_ganji clothe p s = ready_end (bind_sum (area_of (pg_href p)) (\<lambda>area.
     case js_match True (jseqs [dots, jlit ''/'', JGrp 1 id_chars, jlit ''.htm'']) (pg_href p) of
       Some m \<Rightarrow> parseNode_ganji clothe area (area @ grp 1 m) p s
     | None \<Rightarrow> if js_match False (jseqs [dots, jlit ''ganji'', jdot, jlit ''com/pincheshangxiaban/'']) (pg_href p) \<noteq> None
               then parseList_ganji area (pg_links p) s else Inr s)) s"

subsection \<open>edeng.js\<close>

record page_edeng =
  pe_href :: string
  pe_left :: "string option"
  pe_phone :: string
  pe_email :: string
  pe_props :: "string option"
  pe_text :: "string option"
  pe_name :: "string option"
  pe_links :: "string option list"

text \<open>\<open>/label.*>(.*)</\<close>: what stands between the last two tags of the line.\<close>

definition after_label :: "string \<Rightarrow> string \<Rightarrow> string \<Rightarrow> string" where
  "after_label l s = grp_or 1 (js_match False (jseqs [jlit l, dots, jlit ''>'', JGrp 1 dots, jlit ''<'']) s)"

definition alnum_or :: "string \<Rightarrow> jrx" where
  "alnum_or cs = JSet (\<lambda>c. alpha_num c \<or> c \<in> set cs)"

definition email :: jrx where
  "email = (let a = alnum_or '''' in jseqs
     [jplus (alnum_or ''_.-+''), jlit ''@'', jplus (JSeq (jplus (alnum_or ''-'')) (jlit ''.'')),
      jplus (jseqs [a, a, JAlt (JSeq a (JAlt a JEps)) JEps])])"

text \<open>
  \<open>name.match(x)\<close> with a text of the page for the expression: without a sign that means something in an
  expression it looks for the text; \<open>re\<close> is the rest.
\<close>

definition plain_rx :: "string \<Rightarrow> bool" where
  "plain_rx x \<longleftrightarrow> list_all (\<lambda>c. c \<notin> set ''.*+?^$()[]{}|/'' \<and> byte c \<noteq> 92) x"

definition re_match :: "(string \<Rightarrow> string \<Rightarrow> js_error + bool) \<Rightarrow> string \<Rightarrow> string \<Rightarrow> js_error + bool" where
  "re_match re x name =
     (if plain_rx x then Inr (has_str x name) else re x name)"

fun edeng_days :: "(string \<Rightarrow> js_error + bool) \<Rightarrow> nat \<Rightarrow> (string \<times> string) list \<Rightarrow> int \<times> string \<Rightarrow> js_error + int \<times> string" where
  "edeng_days m i [] r = Inr r"
| "edeng_days m i ((name, days) # xx) r =
     bind_sum (m name) (\<lambda>b. edeng_days m (Suc i) xx (if b then (if i < 2 then int i else 2, days) else r))"

(* src/dida/fly/js/admin/spd/edeng.js:61-76 parseNode, the days *)
definition days_edeng :: "(string \<Rightarrow> string \<Rightarrow> js_error + bool) \<Rightarrow> string \<Rightarrow> js_error + int \<times> string" where
  "days_edeng re x =
     (if x = [] then Inr (0, '''')
      else edeng_days (re_match re x) 0 [((utf8 [229, 133, 182, 228, 187, 150]), ''0''), ((utf8 [230, 175, 143, 229, 164, 169]), ''0''), ((utf8 [229, 183, 165, 228, 189, 156, 230, 151, 165]), ''1,2,3,4,5''), ((utf8 [229, 145, 168, 230, 156, 171, 232, 138, 130, 229, 129, 135, 230, 151, 165]), ''6,7'')] (0, ''''))"

(* src/dida/fly/js/admin/spd/edeng.js:47-48 parseNode, the address for mail *)
definition contact_edeng :: "string \<Rightarrow> js_error + string" where
  "contact_edeng x =
     (if x = [] then Inr '''' else (case js_match False email x of None \<Rightarrow> Inl TypeError | Some m \<Rightarrow> Inr (fst m)))"

definition fee_edeng :: "string \<Rightarrow> jsv" where
  "fee_edeng x = js_or (JNum (parseInt x)) (JStr '''')"

(* src/dida/fly/js/admin/spd/edeng.js:31-103 parseNode *)
definition plan_edeng :: "(string \<Rightarrow> string \<Rightarrow> js_error + bool) \<Rightarrow> (jsv \<Rightarrow> jsv) \<Rightarrow> string \<Rightarrow> page_edeng \<Rightarrow>
    js_error + (string \<times> jsv) list" where
  "plan_edeng re clothe i p =
     bind_sum (html (pe_left p)) (\<lambda>s.
     bind_sum (contact_edeng (pe_email p)) (\<lambda>contact.
     bind_sum (html (pe_props p)) (\<lambda>props.
     bind_sum (days_edeng re (after_label (utf8 [229, 135, 186, 229, 143, 145, 230, 151, 165, 239, 188, 154]) props '''')) (\<lambda>(rep, days).
     bind_sum (html (pe_text p)) (\<lambda>txt.
       let x = split_on CHR '' '' (after_label (utf8 [229, 135, 186, 229, 143, 145, 230, 151, 182, 233, 151, 180, 239, 188, 154]) props some_time)
       in Inr
         [(''mid'', jint 0), (''phone'', clothe (JStr (pe_phone p))), (''contact'', clothe (JStr contact)), (''ori'', JStr ''edeng''),
          (''oid'', JStr i), (''ourl'', JStr (pe_href p)), (''dad'', jint (if has_str (utf8 [230, 136, 145, 230, 152, 175, 232, 189, 166, 228, 184, 187]) s then 1 else 0)),
          (''nick'', html_val (pe_name p)), (''fee'', fee_edeng (after_label (utf8 [228, 187, 183, 230, 160, 188, 239, 188, 154]) props '''')),
          (''saddr'', JStr (after_label (utf8 [232, 181, 183, 231, 130, 185, 239, 188, 154]) s '''')), (''eaddr'', JStr (after_label (utf8 [231, 187, 136, 231, 130, 185, 239, 188, 154]) s '''')),
          (''marks'', JStr (after_label (utf8 [233, 128, 148, 231, 187, 143, 229, 156, 176, 231, 130, 185, 239, 188, 154]) s '''')), (''city'', JStr (after_label (utf8 [232, 181, 183, 231, 130, 185, 239, 188, 154]) s '''')), (''repeat'', jint rep),
          (''sdate'', JStr (if rep = 0 then hd x else days)),
          (''stime'', JStr (case nth_opt x 1 of Some t \<Rightarrow> if t \<noteq> [] then t else ''08:00:00'' | None \<Rightarrow> ''08:00:00'')),
          (''attach'', JStr (drop_tags txt))])))))"

(* src/dida/fly/js/admin/spd/edeng.js:124-150 parseNode, its request *)
definition parseNode_edeng :: "(string \<Rightarrow> string \<Rightarrow> js_error + bool) \<Rightarrow> (jsv \<Rightarrow> jsv) \<Rightarrow> string \<Rightarrow> page_edeng \<Rightarrow> reader \<Rightarrow> js_error + reader" where
  "parseNode_edeng re clothe i p s = bind_sum (plan_edeng re clothe i p) (\<lambda>plan. Inr (add_plan plan s))"

definition link_edeng :: "string \<Rightarrow> (string \<times> string) option" where
  "link_edeng h = map_option (\<lambda>m. (grp 1 m, h)) (js_match True (jseqs [dots, jlit ''/jiedaoxinxi/'', JGrp 1 dots, jlit ''.html'']) h)"

(* src/dida/fly/js/admin/spd/edeng.js:161-181 parseList *)
definition parseList_edeng :: "string option list \<Rightarrow> reader \<Rightarrow> js_error + reader" where
  "parseList_edeng = ask_new ''edeng'' link_edeng"

(* src/dida/fly/js/admin/spd/edeng.js:13-25 onready *)
definition onready_edeng :: "(string \<Rightarrow> string \<Rightarrow> js_error + bool) \<Rightarrow> (jsv \<Rightarrow> jsv) \<Rightarrow> page_edeng \<Rightarrow> reader \<Rightarrow> reader" where
  "onready_edeng re clothe p s = ready_end
     (case js_match True (jseqs [dots, jlit ''/'', JGrp 1 id_chars, jlit ''.html'']) (pe_href p) of
        Some m \<Rightarrow> parseNode_edeng re clothe (grp 1 m) p s
      | None \<Rightarrow> if js_match False (jseqs [dots, jlit ''edeng'', jdot, jlit ''cn/13/pinche/'']) (pe_href p) \<noteq> None
                then parseList_edeng (pe_links p) s else Inr s) s"

subsection \<open>liebiao.js\<close>

text \<open>A row of the table: its label, what stands beside it, and the address of the image there.\<close>

record page_liebiao =
  pl_href :: string
  pl_city :: "string option"
  pl_rows :: "(string option \<times> string option \<times> jsv) list"
  pl_date :: "string option"
  pl_text :: "string option"
  pl_links :: "string option list"

record liebiao =
  lb_phone :: jsv
  lb_dad :: int
  lb_saddr :: string
  lb_eaddr :: string
  lb_marks :: string

(* src/dida/fly/js/admin/spd/liebiao.js:45-62 parseNode, the rows *)
fun rows_liebiao :: "(jsv \<Rightarrow> jsv) \<Rightarrow> (string option \<times> string option \<times> jsv) list \<Rightarrow> liebiao \<Rightarrow> js_error + liebiao" where
  "rows_liebiao clothe [] r = Inr r"
| "rows_liebiao clothe ((t, v, src) # rows) r =
     bind_sum (html t) (\<lambda>t. bind_sum
       (if has_str (utf8 [232, 129, 148, 231, 179, 187, 231, 148, 181, 232, 175, 157]) t then Inr (r\<lparr>lb_phone := clothe src\<rparr>)
        else if has_str (utf8 [230, 152, 175, 229, 144, 166, 230, 156, 137, 232, 189, 166]) t then bind_sum (html v) (\<lambda>v. Inr (r\<lparr>lb_dad := if has_str (utf8 [230, 156, 137, 232, 189, 166]) v then 1 else 0\<rparr>))
        else if has_str (utf8 [229, 135, 186, 229, 143, 145, 229, 156, 176]) t then Inr (r\<lparr>lb_saddr := trim_opt v\<rparr>)
        else if has_str (utf8 [229, 136, 176, 232, 190, 190, 229, 156, 176]) t then Inr (r\<lparr>lb_eaddr := trim_opt v\<rparr>)
        else if has_str (utf8 [233, 128, 148, 229, 190, 132, 229, 156, 176]) t then Inr (r\<lparr>lb_marks := trim_opt v\<rparr>)
        else Inr r) (rows_liebiao clothe rows))"

definition str_of :: "string option \<Rightarrow> string" where
  "str_of x = (case x of None \<Rightarrow> '''' | Some s \<Rightarrow> s)"

(* src/dida/fly/js/admin/spd/liebiao.js:31-79 parseNode *)
definition plan_liebiao :: "(jsv \<Rightarrow> jsv) \<Rightarrow> string \<Rightarrow> page_liebiao \<Rightarrow> js_error + (string \<times> jsv) list" where
  "plan_liebiao clothe i p =
     bind_sum (rows_liebiao clothe (pl_rows p) \<lparr>lb_phone = JStr '''', lb_dad = 0, lb_saddr = '''', lb_eaddr = '''', lb_marks = ''''\<rparr>) (\<lambda>r.
     bind_sum (html (pl_text p)) (\<lambda>txt.
       let attach = jq_trim (replace_first (utf8 [60, 98, 62, 228, 191, 161, 230, 129, 175, 232, 175, 166, 231, 187, 134, 229, 134, 133, 229, 174, 185, 60, 47, 98, 62, 60, 98, 114, 62]) '''' txt)
       in Inr
         [(''mid'', jint 0), (''phone'', clothe (lb_phone r)), (''contact'', clothe (JStr '''')), (''ori'', JStr ''liebiao''), (''oid'', JStr i),
          (''ourl'', JStr (pl_href p)), (''dad'', jint (lb_dad r)), (''nick'', JStr (utf8 [229, 136, 151, 232, 161, 168, 231, 189, 145, 229, 143, 139])), (''fee'', jint 0),
          (''saddr'', JStr (lb_saddr r)), (''eaddr'', JStr (lb_eaddr r)), (''marks'', JStr (lb_marks r)), (''city'', JStr (str_of (pl_city p))),
          (''repeat'', jint (if has_str (utf8 [230, 175, 143, 229, 164, 169]) attach then 1 else 0)), (''sdate'', JStr (str_of (pl_date p))), (''stime'', JStr ''''),
          (''attach'', JStr attach)]))"

(* src/dida/fly/js/admin/spd/liebiao.js:101-126 parseNode, its request *)
definition parseNode_liebiao :: "(jsv \<Rightarrow> jsv) \<Rightarrow> string \<Rightarrow> page_liebiao \<Rightarrow> reader \<Rightarrow> js_error + reader" where
  "parseNode_liebiao clothe i p s = bind_sum (plan_liebiao clothe i p) (\<lambda>plan. Inr (add_plan plan s))"

definition link_liebiao :: "string \<Rightarrow> (string \<times> string) option" where
  "link_liebiao h = map_option (\<lambda>m. (grp 1 m, h)) (js_match True (jseqs [jlit ''liebiao'', jdot, jlit ''com/pinche/'', JGrp 1 digits, jlit ''.html'']) h)"

(* src/dida/fly/js/admin/spd/liebiao.js:137-157 parseList *)
definition parseList_liebiao :: "string option list \<Rightarrow> reader \<Rightarrow> js_error + reader" where
  "parseList_liebiao = ask_new ''liebiao'' link_liebiao"

(* src/dida/fly/js/admin/spd/liebiao.js:13-25 onready *)
definition onready_liebiao :: "(jsv \<Rightarrow> jsv) \<Rightarrow> page_liebiao \<Rightarrow> reader \<Rightarrow> reader" where
  "onready_liebiao clothe p s = ready_end
     (case js_match True (jseqs [dots, jlit ''/'', JGrp 1 digits, jlit ''.html'']) (pl_href p) of
        Some m \<Rightarrow> parseNode_liebiao clothe (grp 1 m) p s
      | None \<Rightarrow> if js_match False (jseqs [dots, jlit ''liebiao'', jdot, jlit ''com/pinche/'']) (pl_href p) \<noteq> None
                then parseList_liebiao (pl_links p) s else Inr s) s"

subsection \<open>A script and what happens to it\<close>

datatype site = Site58 page58 | Ganji page_ganji | Edeng page_edeng | Liebiao page_liebiao

datatype rd_event = RReady | RUser | RAdded jsv | RListed jsv | RTimer nat

fun rd_step :: "(string \<Rightarrow> string \<Rightarrow> js_error + bool) \<Rightarrow> (jsv \<Rightarrow> jsv) \<Rightarrow> site \<Rightarrow> rd_event \<Rightarrow> reader \<Rightarrow> reader" where
  "rd_step re clothe p RReady s = (case p of
       Site58 q \<Rightarrow> onready58 clothe q s | Ganji q \<Rightarrow> onready_ganji clothe q s
     | Edeng q \<Rightarrow> onready_edeng re clothe q s | Liebiao q \<Rightarrow> onready_liebiao clothe q s)"
| "rd_step re clothe p RUser s = (case p of
       Site58 q \<Rightarrow> (case node58 (p8_href q) of Some m \<Rightarrow> user_reply58 clothe (grp 1 m) q s | None \<Rightarrow> s) | _ \<Rightarrow> s)"
| "rd_step re clothe p (RAdded d) s = add_reply d s"
| "rd_step re clothe p (RListed d) s = list_reply d s"
| "rd_step re clothe p (RTimer i) s = open_window i s"

subsection \<open>Lemmas\<close>

lemma send_reader [simp]: "rd_urls (send m u ps s) = rd_urls s" "rd_opened (send m u ps s) = rd_opened s"
  "rd_reload (send m u ps s) = rd_reload s"
  by (simp_all add: send_def)

lemma raise_reader [simp]: "rd_urls (raise e s) = rd_urls s" "rd_opened (raise e s) = rd_opened s" "rd_reload (raise e s) = rd_reload s"
  by (simp_all add: raise_def)

lemma alert_reader [simp]: "rd_urls (alert m s) = rd_urls s" "rd_opened (alert m s) = rd_opened s"
  by (simp_all add: alert_def)

text \<open>The links of a list and the names they have.\<close>

definition ride_of :: "site \<Rightarrow> string \<Rightarrow> (string \<times> string) option" where
  "ride_of p h = (case p of
       Site58 q \<Rightarrow> link58 h
     | Ganji q \<Rightarrow> (case area_of (pg_href q) of Inl e \<Rightarrow> None | Inr area \<Rightarrow> link_ganji area h)
     | Edeng q \<Rightarrow> link_edeng h
     | Liebiao q \<Rightarrow> link_liebiao h)"

definition hrefs_of :: "site \<Rightarrow> string option list" where
  "hrefs_of p = (case p of Site58 q \<Rightarrow> p8_links q | Ganji q \<Rightarrow> pg_links q | Edeng q \<Rightarrow> pe_links q | Liebiao q \<Rightarrow> pl_links q)"

definition rides :: "site \<Rightarrow> (string \<times> string) set" where
  "rides p = {l. \<exists>h. Some h \<in> set (hrefs_of p) \<and> ride_of p h = Some l}"

lemma ride_links_set: "ride_links f hs = Inr ls \<Longrightarrow> set ls = {l. \<exists>h. Some h \<in> set hs \<and> f h = Some l}"
proof (induction hs arbitrary: ls)
  case (Cons h hs)
  show ?case
  proof (cases h)
    case (Some x)
    then obtain ms where "ride_links f hs = Inr ms" "ls = (case f x of Some l \<Rightarrow> l # ms | None \<Rightarrow> ms)"
      using Cons.prems by (cases "ride_links f hs") auto
    then show ?thesis using Cons.IH Some by (auto split: option.splits)
  qed (use Cons.prems in simp)
qed simp

definition rd_inv :: "site \<Rightarrow> reader \<Rightarrow> bool" where
  "rd_inv p s \<longleftrightarrow> set (rd_urls s) \<subseteq> rides p \<and> set (rd_opened s) \<subseteq> insert None (Some ` snd ` rides p)"

lemma rd_inv_frame: "rd_urls t = rd_urls s \<Longrightarrow> rd_opened t = rd_opened s \<Longrightarrow> rd_inv p t = rd_inv p s"
  by (simp add: rd_inv_def)

lemma rd_inv_reload [simp]: "rd_inv p (s\<lparr>rd_reload := b\<rparr>) = rd_inv p s" "rd_inv p (send m u ps s) = rd_inv p s"
  "rd_inv p (raise e s) = rd_inv p s" "rd_inv p (add_plan pl s) = rd_inv p s"
  by (rule rd_inv_frame; simp add: add_plan_def)+

lemma ask_new_inv:
  assumes "ask_new ori f (hrefs_of p) s = Inr t" "f = ride_of p" "rd_inv p s"
  shows "rd_inv p t"
proof -
  obtain ls where ls: "ride_links f (hrefs_of p) = Inr ls"
    "t = send GET (admin_site @ ''json/spd/pre?JsonCallback=?'') [(''ori'', JStr ori), (''oids'', JArr (map (JStr \<circ> fst) ls))] (s\<lparr>rd_urls := ls\<rparr>)"
    using assms(1) by (cases "ride_links f (hrefs_of p)") (auto simp: ask_new_def)
  then show ?thesis using ride_links_set [OF ls(1)] assms(2,3) by (simp add: rd_inv_def rides_def)
qed

lemma open_window_inv: "rd_inv p s \<Longrightarrow> rd_inv p (open_window i s)"
proof (cases "i < length (rd_waiting s)")
  case True
  assume inv: "rd_inv p s"
  let ?o = "map_of (rev (rd_urls s)) (to_str (rd_waiting s ! i))"
  have "?o \<in> insert None (Some ` snd ` rides p)"
  proof (cases ?o)
    case (Some u)
    then have "(to_str (rd_waiting s ! i), u) \<in> rides p" using inv map_of_SomeD by (fastforce simp: rd_inv_def)
    then show ?thesis using Some by force
  qed simp
  then show ?thesis using True inv by (simp add: open_window_def rd_inv_def)
qed (simp add: open_window_def)

lemma ready_end_inv:
  assumes "rd_inv p s" "\<And>t. r = Inr t \<Longrightarrow> rd_inv p t"
  shows "rd_inv p (ready_end r s)"
  using assms by (simp add: ready_end_def split: sum.splits)

lemma bind_sum_Inr: "bind_sum x f = Inr y \<longleftrightarrow> (\<exists>v. x = Inr v \<and> f v = Inr y)"
  by (cases x) simp_all

lemma rd_step_inv: "rd_inv p s \<Longrightarrow> rd_inv p (rd_step re clothe p e s)"
proof (cases e)
  case RReady
  assume inv: "rd_inv p s"
  note defs = parseNode58_def parseNode_ganji_def parseNode_edeng_def parseNode_liebiao_def bind_sum_Inr
    parseList58_def parseList_ganji_def parseList_edeng_def parseList_liebiao_def ride_of_def hrefs_of_def
  show ?thesis
  proof (cases p)
    case (Site58 q)
    show ?thesis unfolding RReady rd_step.simps Site58 site.simps onready58_def
      using inv ask_new_inv [of "''58''" link58 p s] unfolding Site58
      by (intro ready_end_inv) (auto simp: defs fun_eq_iff split: option.splits if_splits)
  next
    case (Ganji q)
    show ?thesis unfolding RReady rd_step.simps Ganji site.simps onready_ganji_def
    proof (intro ready_end_inv)
      fix t
      let ?f = "\<lambda>area. case js_match True (jseqs [dots, jlit ''/'', JGrp 1 id_chars, jlit ''.htm'']) (pg_href q) of
          Some m \<Rightarrow> parseNode_ganji clothe area (area @ grp 1 m) q s
        | None \<Rightarrow> if js_match False (jseqs [dots, jlit ''ganji'', jdot, jlit ''com/pincheshangxiaban/'']) (pg_href q) \<noteq> None
               then parseList_ganji area (pg_links q) s else Inr s"
      assume "bind_sum (area_of (pg_href q)) ?f = Inr t"
      then obtain area where area: "area_of (pg_href q) = Inr area" "?f area = Inr t" by (auto simp only: bind_sum_Inr)
      have "parseList_ganji area (pg_links q) s = Inr t \<or> t = s \<or> (\<exists>pl. t = add_plan pl s)"
        using area(2) by (auto simp: bind_sum_Inr parseNode_ganji_def split: option.splits if_splits)
      moreover have r: "link_ganji area = ride_of (Ganji q)" by (simp add: fun_eq_iff ride_of_def area(1))
      ultimately show "rd_inv (Ganji q) t"
        using inv ask_new_inv [OF _ r, of "''ganji''" s t] unfolding Ganji r [symmetric]
        by (auto simp: parseList_ganji_def hrefs_of_def)
    qed (use inv Ganji in simp)
  next
    case (Edeng q)
    show ?thesis unfolding RReady rd_step.simps Edeng site.simps onready_edeng_def
      using inv ask_new_inv [of "''edeng''" link_edeng p s] unfolding Edeng
      by (intro ready_end_inv) (auto simp: defs fun_eq_iff split: option.splits if_splits)
  next
    case (Liebiao q)
    show ?thesis unfolding RReady rd_step.simps Liebiao site.simps onready_liebiao_def
      using inv ask_new_inv [of "''liebiao''" link_liebiao p s] unfolding Liebiao
      by (intro ready_end_inv) (auto simp: defs fun_eq_iff split: option.splits if_splits)
  qed
next
  case RUser
  assume "rd_inv p s"
  then show ?thesis unfolding RUser by (cases p) (auto simp: user_reply58_def split: option.splits sum.splits)
next
  case (RAdded d)
  assume "rd_inv p s"
  then show ?thesis unfolding RAdded by (simp add: add_reply_def throw_def) (simp add: rd_inv_def)
next
  case (RListed d)
  assume "rd_inv p s"
  then show ?thesis unfolding RListed by (simp add: list_reply_def throw_def) (simp add: rd_inv_def)
next
  case (RTimer i)
  assume "rd_inv p s"
  then show ?thesis unfolding RTimer by (simp add: open_window_inv)
qed

interpretation reader: machine "rd_step re clothe p" "rd_inv p" for re clothe p
  by unfold_locales (rule rd_step_inv)

text \<open>The first run of characters of a class.\<close>

lemma match_class:
  "js_match False (jplus (JSet p)) s =
     (let t = dropWhile (\<lambda>c. \<not> p c) s in if t = [] then None else Some (takeWhile p t, dropWhile p t, []))"
proof (induction s)
  case Nil
  then show ?case by (simp add: match_here_False runs_plus_set)
next
  case (Cons c s)
  show ?case
  proof (cases "p c")
    case True
    then show ?thesis using runs_plus_set_hd [of "c # s" p] by (auto simp: match_here_False)
  next
    case False
    then have "match_here False (jplus (JSet p)) (c # s) = None" by (simp add: match_here_False runs_plus_set)
    then show ?thesis using Cons False by simp
  qed
qed

lemma dropWhile_not_Nil: "dropWhile (\<lambda>c. \<not> \<not> p c) s = [] \<longleftrightarrow> list_all p s"
  by (auto simp: list_all_iff dropWhile_eq_Nil_conv)

text \<open>The end of a ride on the second site: what stands behind the arrow, from its first sign that is no digit to the next digit.\<close>

definition end_text :: "string option \<Rightarrow> string" where
  "end_text h = trim_opt (nth_opt (split_str arrow [] (trim_opt h)) 1)"

lemma isl_heading_ganji: "isl (heading_ganji h) \<longleftrightarrow> list_all is_digit (end_text h)"
  unfolding heading_ganji_def end_text_def [symmetric] Let_def match_class
  using dropWhile_not_Nil [of is_digit "end_text h"] by (simp add: Let_def)

lemma isl_bind: "isl (bind_sum x f) \<longleftrightarrow> (case x of Inl e \<Rightarrow> True | Inr v \<Rightarrow> isl (f v))"
  by (cases x) simp_all

lemma isl_html: "isl (html e) \<longleftrightarrow> e = None"
  by (simp add: html_def split: option.splits)

text \<open>A row of the fourth site that stops its reader: without a label, or with nothing beside the question for the car.\<close>

definition bad_row :: "string option \<times> string option \<times> jsv \<Rightarrow> bool" where
  "bad_row = (\<lambda>(t, v, src). case t of None \<Rightarrow> True
     | Some t \<Rightarrow> v = None \<and> has_str (utf8 [230, 152, 175, 229, 144, 166, 230, 156, 137, 232, 189, 166]) t \<and> \<not> has_str (utf8 [232, 129, 148, 231, 179, 187, 231, 148, 181, 232, 175, 157]) t)"

lemma isl_rows: "isl (rows_liebiao clothe rows r) \<longleftrightarrow> list_ex bad_row rows"
proof (induction rows arbitrary: r)
  case (Cons row rows)
  obtain t v src where "row = (t, v, src)" by (cases row)
  then show ?case using Cons by (auto simp: isl_bind bad_row_def html_def split: option.splits)
qed simp

definition left_alone :: "js_error + reader \<Rightarrow> reader \<Rightarrow> bool" where
  "left_alone r s \<longleftrightarrow> reqs (ready_end r s) = reqs s \<and> rd_reload (ready_end r s) = rd_reload s \<and> rd_waiting (ready_end r s) = rd_waiting s"

lemma left_alone_iff: "\<not> rd_reload s \<Longrightarrow> left_alone r s \<longleftrightarrow> isl r"
  by (cases r) (auto simp: left_alone_def ready_end_def raise_def)

lemma isl_plan58: "isl (plan58 clothe i p) \<longleftrightarrow>
    None \<in> set [p8_info p, p8_headline p, p8_maincon p, p8_user p, p8_vuser p, p8_phone p, p8_userinfo p]"
  by (auto simp: plan58_def isl_bind html_def Let_def split: option.splits prod.splits)

lemma isl_plan_ganji: "isl (plan_ganji clothe area i q) \<longleftrightarrow> list_all is_digit (end_text (pg_title q)) \<or> pg_body q = None \<or> pg_text q = None"
proof (cases "heading_ganji (pg_title q)")
  case (Inl e)
  then show ?thesis using isl_heading_ganji [of "pg_title q"] by (simp add: plan_ganji_def)
next
  case (Inr m)
  obtain a b c where "m = (a, b, c)" by (cases m)
  then show ?thesis using isl_heading_ganji [of "pg_title q"] Inr
    by (cases "pg_body q"; cases "pg_text q") (simp_all add: plan_ganji_def html_def Let_def)
qed

definition bad_email :: "string \<Rightarrow> bool" where
  "bad_email x \<longleftrightarrow> x \<noteq> [] \<and> js_match False email x = None"

lemma isl_contact_edeng: "isl (contact_edeng x) \<longleftrightarrow> bad_email x"
  by (auto simp: contact_edeng_def bad_email_def split: option.splits)

lemma isl_plan_edeng: "isl (plan_edeng re clothe i q) \<longleftrightarrow> pe_left q = None \<or> bad_email (pe_email q) \<or>
    (case pe_props q of None \<Rightarrow> True | Some h \<Rightarrow> isl (days_edeng re (after_label (utf8 [229, 135, 186, 229, 143, 145, 230, 151, 165, 239, 188, 154]) h ''''))) \<or> pe_text q = None"
proof (cases "pe_left q")
  case (Some s)
  show ?thesis
  proof (cases "contact_edeng (pe_email q)")
    case (Inl e)
    then have "bad_email (pe_email q)" using isl_contact_edeng [of "pe_email q"] by simp
    then show ?thesis using Some Inl by (simp add: plan_edeng_def html_def)
  next
    case (Inr c)
    then have b: "\<not> bad_email (pe_email q)" using isl_contact_edeng [of "pe_email q"] by simp
    show ?thesis
    proof (cases "pe_props q")
      case None
      then show ?thesis using Some Inr by (simp add: plan_edeng_def html_def)
    next
      case (Some h)
      show ?thesis using \<open>pe_left q = Some s\<close> Inr b Some
        by (cases "days_edeng re (after_label (utf8 [229, 135, 186, 229, 143, 145, 230, 151, 165, 239, 188, 154]) h '''')"; cases "pe_text q")
          (simp_all add: plan_edeng_def html_def Let_def split: prod.split)
    qed
  qed
qed (simp add: plan_edeng_def html_def)

lemma days_plain: "plain_rx x \<Longrightarrow> \<not> isl (days_edeng re x)"
  by (simp add: days_edeng_def re_match_def)

lemma isl_plan_liebiao: "isl (plan_liebiao clothe i q) \<longleftrightarrow> list_ex bad_row (pl_rows q) \<or> pl_text q = None"
proof -
  define r where "r = \<lparr>lb_phone = JStr '''', lb_dad = 0, lb_saddr = '''', lb_eaddr = '''', lb_marks = ''''\<rparr>"
  show ?thesis unfolding plan_liebiao_def r_def [symmetric] isl_rows [of clothe "pl_rows q" r, symmetric]
    by (cases "rows_liebiao clothe (pl_rows q) r"; cases "pl_text q") (simp_all add: html_def Let_def)
qed

text \<open>Text without brackets and without the sign that an arrow begins with.\<close>

definition plain :: "string \<Rightarrow> bool" where
  "plain s \<longleftrightarrow> list_all (\<lambda>c. c \<noteq> CHR ''<'' \<and> c \<noteq> CHR ''>'' \<and> byte c \<noteq> 226) s"

lemma plain_not:
  assumes "plain s"
  shows "char_of (226 :: nat) \<notin> set s" "CHR ''<'' \<notin> set s" "CHR ''>'' \<notin> set s"
proof -
  have "byte (char_of (226 :: nat)) = 226" by code_simp
  then show "char_of (226 :: nat) \<notin> set s" "CHR ''<'' \<notin> set s" "CHR ''>'' \<notin> set s"
    using assms unfolding plain_def list_all_iff by blast+
qed

lemma split_str_none: "x \<notin> set s \<Longrightarrow> split_str (x # l) acc s = [acc @ s]"
  by (induction s arbitrary: acc) auto

lemma split_str_one: "x \<notin> set s \<Longrightarrow> split_str (x # l) acc (s @ x # l @ t) = (acc @ s) # split_str (x # l) [] t"
  by (induction s arbitrary: acc) auto

lemma arrow_bytes: "arrow = char_of (226 :: nat) # map char_of [134 :: nat, 146]"
  by (simp add: arrow_def utf8_def)

lemma ends58_read:
  assumes "plain a" "a \<noteq> []" "plain b" "b \<noteq> []" "char_of (226 :: nat) \<notin> set pre" "char_of (226 :: nat) \<notin> set (takeWhile ((\<noteq>) CHR ''>'') post)"
  shows "ends58 (pre @ ''>'' @ a @ arrow @ b @ CHR ''<'' # post) = (jq_trim a, jq_trim b)"
proof -
  note n = plain_not(1) [OF assms(1)] plain_not(1) [OF assms(3)] plain_not(3) [OF assms(1)] plain_not(3) [OF assms(3)] plain_not(2) [OF assms(3)]
  have c: "char_of (226 :: nat) \<notin> set (map char_of [134 :: nat, 146])" "char_of (226 :: nat) \<noteq> CHR ''<''"
    "char_of (226 :: nat) \<noteq> CHR ''>''" "CHR ''>'' \<notin> set (map char_of [134 :: nat, 146])"
    by code_simp+
  have m: "js_match False (JSeq (jplus (jnot CHR ''>'')) (JSeq (jlit arrow) (jplus (jnot CHR ''<'')))) (pre @ ''>'' @ a @ arrow @ b @ CHR ''<'' # post) =
      Some (a @ arrow @ b, CHR ''<'' # post, [])"
    using match_around [OF c(1) assms(5) n(1,2) assms(6) c(2-4) assms(2) n(3) assms(4) n(4,5)] by (simp only: arrow_bytes append_Cons)
  have "split_str arrow [] (a @ arrow @ b) = [a, b]"
    using split_str_one [OF n(1), of "map char_of [134 :: nat, 146]" "[]" b] split_str_none [OF n(2), of "map char_of [134 :: nat, 146]" "[]"]
    by (simp only: arrow_bytes append_Cons append_Nil)
  then show ?thesis unfolding ends58_def m by (simp add: nth_opt_def trim_opt_def)
qed

subsection \<open>Properties\<close>

text \<open>
  Whatever the servers answer and in whatever order the timers run, every window a reader opens
  from a list is a ride of that list: a link of the page whose address the expression of the site
  accepts; or an empty window, for a name that was not on the list.
\<close>

theorem windows_are_rides:
  "set (rd_opened (fold (rd_step re clothe p) es fresh_reader)) \<subseteq> insert None (Some ` snd ` rides p)"
  using reader.run_inv [of p fresh_reader re clothe es] by (simp add: rd_inv_def fresh_reader_def)

text \<open>
  C37. When a reader leaves a page alone, posting nothing and setting no timer to look again.  On the first site this is exactly
  when one of seven blocks is missing.  On the second, when the end of the ride is all digits or empty, or the body or the
  text is missing.  On the third, as long as the text of the days has no sign that means something in an expression, when the
  left column, the table or the text is missing, or there is a text in the place of the mail address without an
  address in it.  On the fourth, when the text is missing, a row of the table has no label, or nothing stands beside the row
  that asks for a car.
\<close>

theorem incomplete_pages_are_left:
  assumes "\<not> rd_reload s"
  shows "(left_alone (parseNode58 clothe i p s) s \<longleftrightarrow>
       None \<in> set [p8_info p, p8_headline p, p8_maincon p, p8_user p, p8_vuser p, p8_phone p, p8_userinfo p]) \<and>
     (left_alone (parseNode_ganji clothe area i q s) s \<longleftrightarrow>
       list_all is_digit (end_text (pg_title q)) \<or> pg_body q = None \<or> pg_text q = None) \<and>
     ((\<forall>h. pe_props r = Some h \<longrightarrow> plain_rx (after_label (utf8 [229, 135, 186, 229, 143, 145, 230, 151, 165, 239, 188, 154]) h '''')) \<longrightarrow>
       (left_alone (parseNode_edeng re clothe i r s) s \<longleftrightarrow>
        pe_left r = None \<or> bad_email (pe_email r) \<or> pe_props r = None \<or> pe_text r = None)) \<and>
     (left_alone (parseNode_liebiao clothe i t s) s \<longleftrightarrow>
       pl_text t = None \<or> (\<exists>(label, v, src)\<in>set (pl_rows t). case label of None \<Rightarrow> True
         | Some l \<Rightarrow> v = None \<and> has_str (utf8 [230, 152, 175, 229, 144, 166, 230, 156, 137, 232, 189, 166]) l \<and> \<not> has_str (utf8 [232, 129, 148, 231, 179, 187, 231, 148, 181, 232, 175, 157]) l))"
proof -
  have rows: "list_ex bad_row (pl_rows t) \<longleftrightarrow> (\<exists>(label, v, src)\<in>set (pl_rows t). case label of None \<Rightarrow> True
         | Some l \<Rightarrow> v = None \<and> has_str (utf8 [230, 152, 175, 229, 144, 166, 230, 156, 137, 232, 189, 166]) l \<and> \<not> has_str (utf8 [232, 129, 148, 231, 179, 187, 231, 148, 181, 232, 175, 157]) l)"
    by (auto simp: list_ex_iff bad_row_def)
  have days: "isl (plan_edeng re clothe i r) \<longleftrightarrow> pe_left r = None \<or> bad_email (pe_email r) \<or> pe_props r = None \<or> pe_text r = None"
    if "\<forall>h. pe_props r = Some h \<longrightarrow> plain_rx (after_label (utf8 [229, 135, 186, 229, 143, 145, 230, 151, 165, 239, 188, 154]) h '''')"
    using that days_plain by (auto simp: isl_plan_edeng split: option.splits)
  have e: "isl (parseNode58 clothe i p s) = isl (plan58 clothe i p)" "isl (parseNode_ganji clothe area i q s) = isl (plan_ganji clothe area i q)"
    "isl (parseNode_edeng re clothe i r s) = isl (plan_edeng re clothe i r)" "isl (parseNode_liebiao clothe i t s) = isl (plan_liebiao clothe i t)"
    by (simp_all add: parseNode58_def parseNode_ganji_def parseNode_edeng_def parseNode_liebiao_def isl_bind split: sum.splits prod.splits)
  note leave = left_alone_iff [OF assms] e
  show ?thesis
    by (intro conjI impI, simp only: leave isl_plan58, simp only: leave isl_plan_ganji, simp only: leave days,
        unfold leave isl_plan_liebiao rows, rule disj_commute)
qed

definition bare58 :: page58 where
  "bare58 = \<lparr>p8_href = '''', p8_info = Some '''', p8_headline = Some '''', p8_maincon = Some '''', p8_user = Some '''', p8_phone = None,
     p8_userinfo = Some '''', p8_vuser = Some '''', p8_topbar = None, p8_links = []\<rparr>"

definition bare_edeng :: page_edeng where
  "bare_edeng = \<lparr>pe_href = '''', pe_left = Some '''', pe_phone = '''', pe_email = '''', pe_props = Some '''', pe_text = None, pe_name = None, pe_links = []\<rparr>"

theorem incomplete_pages_are_left_witness:
  "left_alone (parseNode58 id ''7'' bare58 fresh_reader) fresh_reader \<and>
   \<not> left_alone (parseNode58 id ''7'' (bare58\<lparr>p8_phone := Some ''1''\<rparr>) fresh_reader) fresh_reader \<and>
   left_alone (parseNode_edeng (\<lambda>_ _. Inl TypeError) id ''7'' bare_edeng fresh_reader) fresh_reader"
proof -
  have d: "\<forall>h. pe_props bare_edeng = Some h \<longrightarrow> plain_rx (after_label (utf8 [229, 135, 186, 229, 143, 145, 230, 151, 165, 239, 188, 154]) h '''')"
    by (simp add: bare_edeng_def) code_simp
  show ?thesis
    using d incomplete_pages_are_left [of fresh_reader id "''7''" bare58 undefined undefined bare_edeng "\<lambda>_ _. Inl TypeError" undefined]
      incomplete_pages_are_left [of fresh_reader id "''7''" "bare58\<lparr>p8_phone := Some ''1''\<rparr>" undefined undefined undefined undefined undefined]
    by (simp add: fresh_reader_def bare58_def bare_edeng_def)
qed

text \<open>
  C36. The ends of a ride. On the first site they are the texts on both sides of the arrow, between the
  tags around it. On the second the end is cut down to its first run without a digit, so the number of
  a house or of a line is lost, with what stands behind it.
\<close>

theorem ride_ends_are_read:
  assumes "plain a" "a \<noteq> []" "plain b" "b \<noteq> []" "char_of (226 :: nat) \<notin> set pre" "char_of (226 :: nat) \<notin> set (takeWhile ((\<noteq>) CHR ''>'') post)"
  shows "ends58 (pre @ ''>'' @ a @ arrow @ b @ CHR ''<'' # post) = (jq_trim a, jq_trim b) \<and>
     (case heading_ganji h of Inl e \<Rightarrow> list_all is_digit (end_text h)
      | Inr (saddr, eaddr, fee) \<Rightarrow> eaddr = jq_trim (replace_first ''-'' '''' (replace_first (utf8 [233, 157, 162, 232, 174, 174]) ''''
          (takeWhile (\<lambda>c. \<not> is_digit c) (dropWhile is_digit (end_text h))))))"
proof -
  have "case heading_ganji h of Inl e \<Rightarrow> list_all is_digit (end_text h)
      | Inr (saddr, eaddr, fee) \<Rightarrow> eaddr = jq_trim (replace_first ''-'' '''' (replace_first (utf8 [233, 157, 162, 232, 174, 174]) ''''
          (takeWhile (\<lambda>c. \<not> is_digit c) (dropWhile is_digit (end_text h)))))"
    unfolding heading_ganji_def end_text_def [symmetric] Let_def match_class
    using dropWhile_not_Nil [of is_digit "end_text h"] by (simp add: Let_def)
  then show ?thesis using ends58_read [OF assms] by blast
qed

theorem ride_ends_are_read_witness:
  "ends58 (''<h1>'' @ ''A'' @ arrow @ ''B 2'' @ ''</h1>'') = (''A'', ''B 2'')"
proof -
  have p: "plain ''A''" "plain ''B 2''" "char_of (226 :: nat) \<notin> set ''<h1''" "char_of (226 :: nat) \<notin> set (takeWhile ((\<noteq>) CHR ''>'') ''/h1>'')"
    "jq_trim ''A'' = ''A''" "jq_trim ''B 2'' = ''B 2''"
    by code_simp+
  show ?thesis using ride_ends_are_read [OF p(1) _ p(2) _ p(3,4), of None] p(5,6) by simp
qed

end
