(* ===== verification/RobotG.thy ===== *)
theory RobotG
  imports Spd
begin

text \<open>
  \<open>dida/fly/js/admin/spd/robot-g.js\<close>: the robot of theory \<open>Spd\<close> for the other map, whose answer to one
  question holds the address, the place and its parts.  The object with the question is kept by its
  reference, since one object is handed over for both ends of a route; a call is recorded with the
  object as it was then.
\<close>

subsection \<open>The robot\<close>

record robotg = robot +
  rg_objects :: "jsv list"
  rg_calls :: "(nat \<times> side \<times> nat \<times> jsv) list"
  rg_geopos :: jsv
  rg_center :: "(jnum \<times> jnum) option"

definition new_object :: "jsv \<Rightarrow> robotg \<Rightarrow> nat \<times> robotg" where
  "new_object v s = (length (rg_objects s), s\<lparr>rg_objects := rg_objects s @ [v]\<rparr>)"

definition set_field :: "nat \<Rightarrow> string \<Rightarrow> jsv \<Rightarrow> robotg \<Rightarrow> robotg" where
  "set_field r k v s = s\<lparr>rg_objects := (rg_objects s)[r := with_prop k v (rg_objects s ! r)]\<rparr>"

definition geocode :: "nat \<Rightarrow> side \<Rightarrow> nat \<Rightarrow> robotg \<Rightarrow> robotg" where
  "geocode i x r s = s\<lparr>rg_calls := rg_calls s @ [(i, x, r, rg_objects s ! r)]\<rparr>"

text \<open>
  Where the map looks first: at the place of the route, when it is not that of the route before;
  \<open>bounds\<close> is what the map says of its view then.
\<close>

(* src/dida/fly/js/admin/spd/robot-g.js:80-87 parsePlan, the view *)
definition look_at :: "jsv \<Rightarrow> nat \<Rightarrow> nat \<Rightarrow> robotg \<Rightarrow> js_error + robotg" where
  "look_at bounds i r s =
     (let g = plan_get i ''geopos'' s
      in if truthy g \<and> \<not> loose_eq g (rg_geopos s) then
           bind_sum (dbpoint2ll g) (\<lambda>p.
             let s1 = s\<lparr>rg_geopos := g, rg_center := Some p\<rparr>
             in Inr (if truthy bounds then set_field r ''bounds'' bounds s1 else s1))
         else Inr s)"

(* src/dida/fly/js/admin/spd/robot-g.js:65-112 parsePlan *)
definition parsePlan_g :: "jsv \<Rightarrow> robotg \<Rightarrow> robotg" where
  "parsePlan_g bounds s =
     (if rb_cur s = length (rb_plans s) then set_timer TGet (outPut (utf8 [229, 174, 140, 228, 186, 134, 239, 188, 140, 228, 188, 145, 230, 129, 175, 228, 188, 154, 229, 132, 191, 239, 188, 129]) s)
      else (let i = rb_plans s ! rb_cur s; s1 = set_timer TParse (s\<lparr>rb_cur := rb_cur s + 1\<rparr>)
            in case js_get (rb_store s ! i) ''id'' of
                 Inl e \<Rightarrow> raise e s1
               | Inr pid \<Rightarrow>
                   (let s2 = outPut ((utf8 [232, 167, 163, 230, 158, 144, 32]) @ to_str pid @ '':'' @ to_str (plan_get i ''saddr'' s) @ '' - '' @
                               to_str (plan_get i ''eaddr'' s) @ '' ...'') s1;
                        (r, s3) = new_object (JObj [(''address'', plan_get i ''saddr'' s2)]) s2
                    in case look_at bounds i r s3 of
                         Inl e \<Rightarrow> raise e (s3\<lparr>rg_geopos := plan_get i ''geopos'' s3\<rparr>)
                       | Inr s4 \<Rightarrow> geocode i E r (set_field r ''address'' (plan_get i ''eaddr'' s4) (geocode i S r s4)))))"

(* src/dida/fly/js/admin/spd/robot-g.js:47-62 getPlans, its callback *)
definition getPlans_g_reply :: "jsv \<Rightarrow> jsv \<Rightarrow> robotg \<Rightarrow> robotg" where
  "getPlans_g_reply bounds data s =
     (if data = JUndef \<or> data = JNull then throw s
      else case fld data ''plans'' of
        JArr plans \<Rightarrow>
          if is_one (fld data ''success'') then
            parsePlan_g bounds (on RbCount (set_html (nat_str (length plans)))
              (s\<lparr>rb_store := rb_store s @ plans,
                 rb_plans := map (\<lambda>k. length (rb_store s) + k) [0..<length plans], rb_cur := 0\<rparr>))
          else set_timer TGet (outPut (to_str (fld data ''errtrace'')) (outPut (errmsg data) s))
      | _ \<Rightarrow> set_timer TGet (outPut (to_str (fld data ''errtrace'')) (outPut (errmsg data) s)))"

subsection \<open>The answers of the map\<close>

text \<open>The place of a result: its two methods are read here as fields.\<close>

definition place_of :: "jsv \<Rightarrow> js_error + jsv" where
  "place_of res = bind_sum (js_get res ''geometry'') (\<lambda>g. bind_sum (js_get g ''location'') (\<lambda>l.
     bind_sum (js_get l ''lat'') (\<lambda>lat. Inr (JArr [lat, fld l ''lng'']))))"

definition addr_key :: "side \<Rightarrow> string" where
  "addr_key x = (case x of S \<Rightarrow> ''saddr'' | E \<Rightarrow> ''eaddr'')"

(* src/dida/fly/js/admin/spd/robot-g.js:121-158 parsePlan, the city of the end *)
definition end_city_g :: "(jsv \<Rightarrow> jsv \<Rightarrow> string) \<Rightarrow> nat \<Rightarrow> jsv \<Rightarrow> robotg \<Rightarrow> robotg" where
  "end_city_g dis i city s =
     (if is_type ''Object'' city then
        (let s1 = plan_set i ''ecityid'' (fld city ''id'') s
         in if truthy (plan_get i ''scityid'' s1) \<and> truthy (plan_get i ''ecityid'' s1) then complete dis i s1 else s1)
      else fail ((utf8 [232, 167, 163, 230, 158, 144, 231, 187, 136, 231, 130, 185, 230, 156, 137, 233, 148, 153]) @ to_str city) i s)"

definition city_found_g :: "(jsv \<Rightarrow> jsv \<Rightarrow> string) \<Rightarrow> side \<Rightarrow> nat \<Rightarrow> jsv \<Rightarrow> robotg \<Rightarrow> robotg" where
  "city_found_g dis x i city = (case x of S \<Rightarrow> start_city i city | E \<Rightarrow> end_city_g dis i city)"

definition rg_search :: "(jsv \<Rightarrow> jsv \<Rightarrow> string) \<Rightarrow> side \<Rightarrow> nat \<Rightarrow> search \<Rightarrow> robotg \<Rightarrow> robotg" where
  "rg_search dis x i r s = (case r of
       Asking q pos \<Rightarrow> s\<lparr>reqs := reqs s @ [q]\<rparr>
     | Found city \<Rightarrow> city_found_g dis x i city s
     | Threw e \<Rightarrow> raise e s)"

(* src/dida/fly/js/admin/spd/robot-g.js:90-108 parsePlan, the answer of the map *)
definition geocoded :: "(jsv \<Rightarrow> jsv \<Rightarrow> string) \<Rightarrow> side \<Rightarrow> nat \<Rightarrow> jsv \<Rightarrow> jsv \<Rightarrow> robotg \<Rightarrow> robotg" where
  "geocoded dis x i results status s =
     (if loose_eq status (JStr ''OK'') then
        (case bind_sum (js_get results ''0'') (\<lambda>res. bind_sum (js_get res ''formatted_address'') (\<lambda>a. Inr (res, a))) of
           Inl e \<Rightarrow> raise e s
         | Inr (res, a) \<Rightarrow>
             (let s1 = plan_set i (addr_key x) a s
              in case place_of res of
                   Inl e \<Rightarrow> raise e s1
                 | Inr ll \<Rightarrow>
                     (let s2 = plan_set i (ends x ''ll'') ll s1
                      in case getCityByGeoresult res of
                           Inl e \<Rightarrow> raise e s2
                         | Inr (r, arrs) \<Rightarrow> rg_search dis x i r s2)))
      else fail (to_str status) i s)"

text \<open>What happens: \<open>GCity x i arrs pos d\<close> is the answer for the city of part \<open>pos\<close> of \<open>arrs\<close>.\<close>

datatype rg_ev =
    GGet jsv jsv | GTimer rb_timer jsv | GPlaced side nat jsv jsv | GCity side nat "jsv list" nat jsv | GErr jsv | GPosted jsv

definition fire_g :: "rb_timer \<Rightarrow> jsv \<Rightarrow> robotg \<Rightarrow> robotg" where
  "fire_g t bounds s = (if t \<in> set (rb_timers s) then
     (let s1 = s\<lparr>rb_timers := remove1 t (rb_timers s)\<rparr> in case t of TGet \<Rightarrow> getPlans s1 | TParse \<Rightarrow> parsePlan_g bounds s1) else s)"

fun robotg_step :: "(jsv \<Rightarrow> jsv \<Rightarrow> string) \<Rightarrow> rg_ev \<Rightarrow> robotg \<Rightarrow> robotg" where
  "robotg_step dis (GGet b d) = getPlans_g_reply b d"
| "robotg_step dis (GTimer t b) = fire_g t b"
| "robotg_step dis (GPlaced x i r st) = geocoded dis x i r st"
| "robotg_step dis (GCity x i arrs pos d) = rg_search dis x i (city_reply (\<lambda>c. js_get c ''short_name'') arrs pos d)"
| "robotg_step dis (GErr d) = parsePlanErr_reply d"
| "robotg_step dis (GPosted d) = posted d"

subsection \<open>Lemmas\<close>

lemma robot_of_g [simp]:
  "rg_objects (outPut m s) = rg_objects s" "rg_calls (outPut m s) = rg_calls s" "rg_geopos (outPut m s) = rg_geopos s"
  "rg_objects (set_timer t s) = rg_objects s" "rg_calls (set_timer t s) = rg_calls s" "rg_geopos (set_timer t s) = rg_geopos s"
  "rb_store (outPut m s) = rb_store s" "rb_store (set_timer t s) = rb_store s" "rb_timers (outPut m s) = rb_timers s"
  "rb_timers (set_timer t s) = rb_timers s @ [t]" "thrown (outPut m s) = thrown s" "thrown (set_timer t s) = thrown s"
  "rb_plans (outPut m s) = rb_plans s" "rb_plans (set_timer t s) = rb_plans s" "rb_cur (outPut m s) = rb_cur s" "rb_cur (set_timer t s) = rb_cur s"
  by (simp_all add: outPut_def on_def set_timer_def)

lemma plan_get_store: "rb_store s = rb_store t \<Longrightarrow> plan_get i k s = plan_get i k t"
  by (simp add: plan_get_def)

lemma look_at_skips: "\<not> truthy (plan_get i ''geopos'' s) \<or> loose_eq (plan_get i ''geopos'' s) (rg_geopos s) \<Longrightarrow> look_at bounds i r s = Inr s"
  by (auto simp: look_at_def Let_def)

lemma look_at_cases:
  assumes "look_at bounds i r s = Inr t"
  shows "t = s \<or> (\<exists>q c. t = s\<lparr>rg_geopos := q, rg_center := c\<rparr> \<or> t = set_field r ''bounds'' bounds (s\<lparr>rg_geopos := q, rg_center := c\<rparr>))"
proof (cases "truthy (plan_get i ''geopos'' s) \<and> \<not> loose_eq (plan_get i ''geopos'' s) (rg_geopos s)")
  case True
  then obtain p where "dbpoint2ll (plan_get i ''geopos'' s) = Inr p"
    "t = (let s1 = s\<lparr>rg_geopos := plan_get i ''geopos'' s, rg_center := Some p\<rparr> in if truthy bounds then set_field r ''bounds'' bounds s1 else s1)"
    using assms by (cases "dbpoint2ll (plan_get i ''geopos'' s)") (simp_all add: look_at_def Let_def)
  then show ?thesis by (auto simp: Let_def)
next
  case False
  then have "look_at bounds i r s = Inr s" by (intro look_at_skips) blast
  then show ?thesis using assms by simp
qed

text \<open>The next route up to its questions.\<close>

definition taken_up :: "robotg \<Rightarrow> robotg" where
  "taken_up s = (let i = rb_plans s ! rb_cur s
     in snd (new_object (JObj [(''address'', plan_get i ''saddr'' s)])
          (outPut ((utf8 [232, 167, 163, 230, 158, 144, 32]) @ to_str (plan_get i ''id'' s) @ '':'' @ to_str (plan_get i ''saddr'' s) @ '' - '' @ to_str (plan_get i ''eaddr'' s) @ '' ...'')
            (set_timer TParse (s\<lparr>rb_cur := rb_cur s + 1\<rparr>)))))"

lemma taken_up_frame [simp]:
  "rb_store (taken_up s) = rb_store s" "rg_calls (taken_up s) = rg_calls s" "rg_geopos (taken_up s) = rg_geopos s"
  "rb_timers (taken_up s) = rb_timers s @ [TParse]" "thrown (taken_up s) = thrown s" "rb_plans (taken_up s) = rb_plans s"
  "rb_cur (taken_up s) = rb_cur s + 1"
  "rg_objects (taken_up s) = rg_objects s @ [JObj [(''address'', plan_get (rb_plans s ! rb_cur s) ''saddr'' s)]]"
  by (simp_all add: taken_up_def new_object_def Let_def)

lemma parsePlan_g_eq:
  assumes "rb_cur s < length (rb_plans s)" "is_obj (rb_store s ! (rb_plans s ! rb_cur s))"
  defines "i \<equiv> rb_plans s ! rb_cur s" and "r \<equiv> length (rg_objects s)"
  shows "parsePlan_g bounds s =
    (case look_at bounds i r (taken_up s) of
       Inl e \<Rightarrow> raise e ((taken_up s)\<lparr>rg_geopos := plan_get i ''geopos'' s\<rparr>)
     | Inr t \<Rightarrow> geocode i E r (set_field r ''address'' (plan_get i ''eaddr'' s) (geocode i S r t)))"
proof -
  have g: "plan_get i k (outPut m (set_timer TParse (s\<lparr>rb_cur := c\<rparr>))) = plan_get i k s" for k m c
    by (rule plan_get_store) simp
  have p: "js_get (rb_store s ! i) ''id'' = Inr (plan_get i ''id'' s)"
    using is_obj_get [OF assms(2)] by (simp add: plan_get_def i_def)
  have store: "rb_store t = rb_store s" if "look_at bounds i r (taken_up s) = Inr t" for t
    using look_at_cases [OF that] by (auto simp: set_field_def)
  have n: "new_object (JObj [(''address'', plan_get i ''saddr'' s)])
      (outPut ((utf8 [232, 167, 163, 230, 158, 144, 32]) @ to_str (plan_get i ''id'' s) @ '':'' @ to_str (plan_get i ''saddr'' s) @ '' - '' @ to_str (plan_get i ''eaddr'' s) @ '' ...'')
        (set_timer TParse (s\<lparr>rb_cur := rb_cur s + 1\<rparr>))) = (r, taken_up s)"
    by (simp add: taken_up_def new_object_def Let_def i_def r_def)
  have e: "plan_get i ''eaddr'' t = plan_get i ''eaddr'' s" if "look_at bounds i r (taken_up s) = Inr t" for t
    using store [OF that] by (rule plan_get_store)
  have gp: "plan_get i ''geopos'' (taken_up s) = plan_get i ''geopos'' s" by (rule plan_get_store) simp
  show ?thesis using assms(1) unfolding parsePlan_g_def i_def [symmetric] Let_def p g sum.case n prod.case
    by (simp add: e gp split: sum.split)
qed

text \<open>However it looks, the object asks for the address it had.\<close>

lemma look_at_frame:
  assumes "look_at bounds i r s = Inr t"
  shows "rg_calls t = rg_calls s" "length (rg_objects t) = length (rg_objects s)"
    "r < length (rg_objects s) \<Longrightarrow> is_obj (rg_objects s ! r) \<Longrightarrow> is_obj (rg_objects t ! r) \<and> fld (rg_objects t ! r) ''address'' = fld (rg_objects s ! r) ''address''"
proof -
  note t = look_at_cases [OF assms]
  show "rg_calls t = rg_calls s" "length (rg_objects t) = length (rg_objects s)" using t by (auto simp: set_field_def)
  show "is_obj (rg_objects t ! r) \<and> fld (rg_objects t ! r) ''address'' = fld (rg_objects s ! r) ''address''"
    if "r < length (rg_objects s)" "is_obj (rg_objects s ! r)"
    using t that by (cases "rg_objects s ! r") (auto simp: set_field_def is_obj_def update_conv')
qed

lemma fld_with_prop: "is_obj v \<Longrightarrow> fld (with_prop k w v) k = w"
  by (cases v) (simp_all add: is_obj_def update_conv')

lemma look_at_ok: "\<not> truthy (plan_get i ''geopos'' s) \<or> \<not> isl (dbpoint2ll (plan_get i ''geopos'' s)) \<Longrightarrow> \<exists>t. look_at bounds i r s = Inr t"
  by (cases "dbpoint2ll (plan_get i ''geopos'' s)") (auto simp: look_at_def Let_def)

lemma both_ends_asked:
  fixes s :: robotg and bounds :: jsv
  assumes "rb_cur s < length (rb_plans s)" "is_obj (rb_store s ! (rb_plans s ! rb_cur s))"
  defines "i \<equiv> rb_plans s ! rb_cur s" and "r \<equiv> length (rg_objects s)" and "t \<equiv> parsePlan_g bounds s"
  assumes l: "look_at bounds i r (taken_up s) = Inr u"
  shows "map (\<lambda>(j, x, q, v). (j, x, q, fld v ''address'')) (rg_calls t) =
      map (\<lambda>(j, x, q, v). (j, x, q, fld v ''address'')) (rg_calls s) @ [(i, S, r, plan_get i ''saddr'' s), (i, E, r, plan_get i ''eaddr'' s)]"
    "fld (rg_objects t ! r) ''address'' = plan_get i ''eaddr'' s"
proof -
  have t: "t = geocode i E r (set_field r ''address'' (plan_get i ''eaddr'' s) (geocode i S r u))"
    using parsePlan_g_eq [OF assms(1,2)] l by (simp add: t_def i_def r_def)
  have o: "r < length (rg_objects (taken_up s))" "rg_objects (taken_up s) ! r = JObj [(''address'', plan_get i ''saddr'' s)]"
    by (simp_all add: r_def i_def)
  have u: "rg_calls u = rg_calls s" "r < length (rg_objects u)" "is_obj (rg_objects u ! r)" "fld (rg_objects u ! r) ''address'' = plan_get i ''saddr'' s"
    using look_at_frame [OF l] o by (simp_all add: is_obj_def)
  show "map (\<lambda>(j, x, q, v). (j, x, q, fld v ''address'')) (rg_calls t) =
      map (\<lambda>(j, x, q, v). (j, x, q, fld v ''address'')) (rg_calls s) @ [(i, S, r, plan_get i ''saddr'' s), (i, E, r, plan_get i ''eaddr'' s)]"
    "fld (rg_objects t ! r) ''address'' = plan_get i ''eaddr'' s"
    using u by (simp_all add: t geocode_def set_field_def fld_with_prop)
qed

text \<open>
  A place that is not two numbers stops the first route that has it: the page throws, nothing is asked,
  and the timer goes on to the next.  The place is remembered before it is read, so the next route with
  the same place is asked for, where the map happens to look.
\<close>

lemma malformed_place_stops_one:
  fixes s :: robotg
  assumes "rb_plans s = [i, j]" "rb_cur s = 0" "is_obj (rb_store s ! i)" "is_obj (rb_store s ! j)" "rb_timers s = []"
    "plan_get i ''geopos'' s = JStr g" "plan_get j ''geopos'' s = JStr g" "dbpoint2ll (JStr g) = Inl e" "g \<noteq> []"
    "\<not> loose_eq (JStr g) (rg_geopos s)"
  shows "rg_calls (parsePlan_g bounds s) = rg_calls s" "thrown (parsePlan_g bounds s) = thrown s @ [e]"
    "map (\<lambda>(k, x, _, _). (k, x)) (rg_calls (fire_g TParse bounds (parsePlan_g bounds s))) =
      map (\<lambda>(k, x, _, _). (k, x)) (rg_calls s) @ [(j, S), (j, E)]"
proof -
  define t where "t = parsePlan_g bounds s"
  define v where "v = t\<lparr>rb_timers := []\<rparr>"
  have gp: "plan_get k q (taken_up w) = plan_get k q w" for k q w by (rule plan_get_store) simp
  have "look_at bounds i (length (rg_objects s)) (taken_up s) = Inl e"
    using assms(6,8-10) by (simp add: look_at_def gp)
  then have t: "t = raise e ((taken_up s)\<lparr>rg_geopos := JStr g\<rparr>)"
    using parsePlan_g_eq [of s bounds] assms(1-3,6) by (simp add: t_def)
  then show "rg_calls (parsePlan_g bounds s) = rg_calls s" "thrown (parsePlan_g bounds s) = thrown s @ [e]"
    by (simp_all add: t_def [symmetric] raise_def)
  have f: "rb_cur v = 1" "rb_plans v = [i, j]" "rb_store v = rb_store s" "rg_geopos v = JStr g" "rg_calls v = rg_calls s"
    "fire_g TParse bounds t = parsePlan_g bounds v"
    using assms(1,2,5) by (simp_all add: v_def t raise_def fire_g_def)
  have pg: "plan_get j q v = plan_get j q s" for q using f(3) by (rule plan_get_store)
  have "look_at bounds j (length (rg_objects v)) (taken_up v) = Inr (taken_up v)"
    by (rule look_at_skips) (simp add: gp f pg assms(7))
  note b = both_ends_asked(1) [of v bounds, unfolded f, simplified, OF assms(4) this]
  have "map (\<lambda>(k, x, _, _). (k, x)) (rg_calls w) = map (\<lambda>(k, x, _, _). (k, x)) (map (\<lambda>(j, x, q, v). (j, x, q, fld v ''address'')) (rg_calls w))" for w
    by (simp add: comp_def split_def)
  from this [of "parsePlan_g bounds v"] this [of s]
  show "map (\<lambda>(k, x, _, _). (k, x)) (rg_calls (fire_g TParse bounds (parsePlan_g bounds s))) =
      map (\<lambda>(k, x, _, _). (k, x)) (rg_calls s) @ [(j, S), (j, E)]"
    unfolding t_def [symmetric] f(6) b by simp
qed

subsection \<open>Properties\<close>

text \<open>
  C29. Both questions of a route are put with one object, whose address is changed in between. A map
  that reads it at once is asked for the start and then for the end; one that reads it when it gets to
  the question finds the address of the end both times.
\<close>

theorem one_object_for_both_ends:
  fixes s :: robotg
  assumes "rb_cur s < length (rb_plans s)" "is_obj (rb_store s ! (rb_plans s ! rb_cur s))"
    "\<not> truthy (plan_get (rb_plans s ! rb_cur s) ''geopos'' s) \<or> \<not> isl (dbpoint2ll (plan_get (rb_plans s ! rb_cur s) ''geopos'' s))"
  shows "let i = rb_plans s ! rb_cur s; r = length (rg_objects s); t = parsePlan_g bounds s
     in map (\<lambda>(j, x, q, v). (j, x, q, fld v ''address'')) (rg_calls t) =
          map (\<lambda>(j, x, q, v). (j, x, q, fld v ''address'')) (rg_calls s) @ [(i, S, r, plan_get i ''saddr'' s), (i, E, r, plan_get i ''eaddr'' s)] \<and>
        map (\<lambda>(j, x, q, v). fld (rg_objects t ! q) ''address'') (drop (length (rg_calls s)) (rg_calls t)) =
          [plan_get i ''eaddr'' s, plan_get i ''eaddr'' s]"
proof -
  define i r t where "i = rb_plans s ! rb_cur s" and "r = length (rg_objects s)" and "t = parsePlan_g bounds s"
  have "plan_get i ''geopos'' (taken_up s) = plan_get i ''geopos'' s" by (rule plan_get_store) simp
  then obtain u where l: "look_at bounds i r (taken_up s) = Inr u"
    using look_at_ok [of i "taken_up s" bounds r] assms(3) by (auto simp: i_def)
  note b = both_ends_asked [OF assms(1,2) l [unfolded i_def r_def], folded i_def r_def t_def]
  have "map (\<lambda>(j, x, q, v). q) (drop (length (rg_calls s)) (rg_calls t)) = [r, r]"
  proof -
    have "map (\<lambda>(j, x, q, v). q) (drop (length (rg_calls s)) (rg_calls t)) =
        map (\<lambda>(j, x, q, v). q) (drop (length (rg_calls s)) (map (\<lambda>(j, x, q, v). (j, x, q, fld v ''address'')) (rg_calls t)))"
      by (simp add: drop_map comp_def split_def)
    then show ?thesis by (simp add: b(1))
  qed
  then have "map (\<lambda>q. fld (rg_objects t ! q) ''address'') (map (\<lambda>(j, x, q, v). q) (drop (length (rg_calls s)) (rg_calls t))) =
      [plan_get i ''eaddr'' s, plan_get i ''eaddr'' s]" using b(2) by simp
  then show ?thesis using b(1) by (simp add: Let_def i_def r_def t_def comp_def split_def)
qed

definition fresh_robotg :: robotg where
  "fresh_robotg = \<lparr>dom = (\<lambda>_. blank), reqs = [], alerts = [], thrown = [],
     rb_store = [JObj [(''id'', jint 1), (''saddr'', JStr ''a''), (''eaddr'', JStr ''b'')]], rb_plans = [0], rb_cur = 0,
     rb_timers = [], rb_asked = [], rb_located = [], rg_objects = [], rg_calls = [], rg_geopos = jint 0, rg_center = None\<rparr>"

theorem one_object_for_both_ends_witness:
  "map (\<lambda>(j, x, q, v). (j, x, q, fld v ''address'')) (rg_calls (parsePlan_g JNull fresh_robotg)) = [(0, S, 0, JStr ''a''), (0, E, 0, JStr ''b'')] \<and>
   map (\<lambda>(j, x, q, v). fld (rg_objects (parsePlan_g JNull fresh_robotg) ! q) ''address'') (rg_calls (parsePlan_g JNull fresh_robotg)) = [JStr ''b'', JStr ''b'']"
  using one_object_for_both_ends [of fresh_robotg JNull] by (simp add: fresh_robotg_def is_obj_def plan_get_def Let_def)

end
