(* ===== verification/Kol.thy ===== *)
theory Kol
  imports Utl FormPanel "HOL-Library.AList"
begin

text \<open>
  \<open>pop/fly/js/bmoon.kol.js\<close>, the loader that a customer's own page includes: it adds the scripts of the
  visitor chat to the page, waits until they are there, and starts a client; or only reports the visit.
  What it finds on the page is the record \<open>kol_page\<close> at that moment.
\<close>

subsection \<open>Waiting\<close>

text \<open>
  \<open>_execAfter\<close> is \<open>bmoon.utl.after\<close> over again, but its timer does not hand the limit on; 0 stands for a
  limit that is not given.
\<close>

(* src/pop/fly/js/bmoon.kol.js:2-17 _execAfter *)
definition execAfter :: "bool \<Rightarrow> nat \<Rightarrow> nat \<Rightarrow> poll \<times> nat \<times> nat" where
  "execAfter until sec0 etime =
     (let sec = (if sec0 = 0 then 10 else sec0)
      in if etime div 10 > sec then (Gave_up, 0, 0)
         else if until then (Ran, 0, 0)
         else (Later, Suc etime, 0))"

text \<open>A caller alone on its page; \<open>n\<close> polls at most.\<close>

fun exec_loop :: "nat \<Rightarrow> (nat \<Rightarrow> bool) \<Rightarrow> nat \<Rightarrow> nat \<Rightarrow> nat \<Rightarrow> (poll \<times> nat) option" where
  "exec_loop 0 until sec etime k = None"
| "exec_loop (Suc n) until sec etime k =
     (case execAfter (until k) sec etime of
        (Later, e, sec') \<Rightarrow> exec_loop n until sec' e (Suc k)
      | (r, e, sec') \<Rightarrow> Some (r, k))"

subsection \<open>The page and the loader\<close>

record kol_page =
  kp_jquery :: "string option"
  kp_cookie :: bool
  kp_body :: bool
  kp_livecs :: bool
  kp_utf :: bool
  kp_href :: string
  kp_title :: string

datatype kol_task = TCss jsv | TStat jsv | TClient jsv

record kol =
  kl_inited :: bool
  kl_aname :: jsv
  kl_head :: "string list"
  kl_waits :: "kol_task list"
  kl_etime :: nat
  kl_posts :: "(string \<times> string) list"
  kl_clients :: "(jsv \<times> jsv) list"
  kl_thrown :: "js_error list"

definition fresh_kol :: kol where
  "fresh_kol = \<lparr>kl_inited = False, kl_aname = JUndef, kl_head = [], kl_waits = [], kl_etime = 0, kl_posts = [], kl_clients = [], kl_thrown = []\<rparr>"

definition add_head :: "string \<Rightarrow> kol \<Rightarrow> kol" where
  "add_head m s = s\<lparr>kl_head := kl_head s @ [m]\<rparr>"

text \<open>\<open>$.extend(defaults, opts)\<close> of two objects\<close>

definition extend :: "(string \<times> jsv) list \<Rightarrow> jsv \<Rightarrow> jsv" where
  "extend ds opts = (case opts of JObj ps \<Rightarrow> JObj (foldl (\<lambda>qs (k, v). if v = JUndef then qs else AList.update k v qs) ds ps) | _ \<Rightarrow> JObj ds)"

(* src/pop/fly/js/bmoon.kol.js:51-56 _loadJs *)
definition loadJs :: "string \<Rightarrow> kol \<Rightarrow> kol" where
  "loadJs url = add_head url"

(* src/pop/fly/js/bmoon.kol.js:83-100 init, once the scripts are there *)
definition add_chat :: "kol_page \<Rightarrow> jsv \<Rightarrow> kol \<Rightarrow> kol" where
  "add_chat p opts s =
     (let css = fld (extend [(''css'', JStr ''http://css.bomdoo.com/b/client/lcs.css'')] opts) ''css''
      in add_head (if kp_utf p then ''http://js.bomdoo.com/b/chat.js'' else ''http://js.bomdoo.com/b/chat_gb.js'')
           (add_head (to_str css) s))"

(* src/pop/fly/js/bmoon.kol.js:110-117 onready, the visit *)
definition post_visit :: "kol_page \<Rightarrow> jsv \<Rightarrow> kol \<Rightarrow> kol" where
  "post_visit p opts s = s\<lparr>kl_posts := kl_posts s @ [(''http://www.bomdoo.com/json/stat'',
     ''aname='' @ encodeURIComponent (to_str (fld opts ''aname'')) @ ''&url='' @ encodeURIComponent (kp_href p) @
     ''&title='' @ encodeURIComponent (kp_title p))]\<rparr>"

(* src/pop/fly/js/bmoon.kol.js:123-143 onready, the client *)
definition load_client :: "jsv \<Rightarrow> kol \<Rightarrow> kol" where
  "load_client opts s =
     (let full = extend [(''statOnly'', JBool False), (''aname'', JStr ''unknown''), (''defaultUI'', JStr ''mid''), (''restoreUI'', JBool True),
                (''restoreMsg'', JBool True), (''minable'', JBool False), (''hidemidOnMax'', JBool True), (''maxevent'', JStr ''click''),
                (''pos'', JObj [(''bottom'', jint 0), (''right'', jint 0)])] opts
      in s\<lparr>kl_clients := kl_clients s @ [(if truthy opts then kl_aname s else JUndef, full)]\<rparr>)"

fun task_ready :: "kol_page \<Rightarrow> kol_task \<Rightarrow> bool" where
  "task_ready p (TCss opts) = (kp_jquery p \<noteq> None \<and> kp_cookie p)"
| "task_ready p (TStat opts) = kp_body p"
| "task_ready p (TClient opts) = kp_livecs p"

fun run_task :: "kol_page \<Rightarrow> kol_task \<Rightarrow> kol \<Rightarrow> kol" where
  "run_task p (TCss opts) = add_chat p opts"
| "run_task p (TStat opts) = post_visit p opts"
| "run_task p (TClient opts) = load_client opts"

text \<open>One poll of a task; the counter is shared by all of them.\<close>

definition poll_task :: "kol_page \<Rightarrow> nat \<Rightarrow> kol_task \<Rightarrow> kol \<Rightarrow> kol" where
  "poll_task p sec t s =
     (case execAfter (task_ready p t) sec (kl_etime s) of
        (Gave_up, e, _) \<Rightarrow> s\<lparr>kl_etime := e\<rparr>
      | (Ran, e, _) \<Rightarrow> run_task p t (s\<lparr>kl_etime := e\<rparr>)
      | (Later, e, _) \<Rightarrow> s\<lparr>kl_etime := e, kl_waits := kl_waits s @ [t]\<rparr>)"

text \<open>The version of jQuery is compared as a string.\<close>

(* src/pop/fly/js/bmoon.kol.js:75-79 init, the scripts *)
definition load_base :: "kol_page \<Rightarrow> kol \<Rightarrow> kol" where
  "load_base p =
     (if (case kp_jquery p of None \<Rightarrow> True | Some v \<Rightarrow> str_lt v ''1.4.2'') then loadJs ''http://js.bomdoo.com/b/chatb.js''
      else if \<not> kp_cookie p then add_head ''http://js.bomdoo.com/b/chatc.js''
      else (\<lambda>s. s))"

(* src/pop/fly/js/bmoon.kol.js:59-103 init *)
definition kol_init :: "kol_page \<Rightarrow> jsv \<Rightarrow> kol \<Rightarrow> kol" where
  "kol_init p opts s =
     (if kl_inited s \<or> \<not> truthy opts \<or> truthy (fld opts ''statOnly'') then s
      else poll_task p 10 (TCss opts) (load_base p
        (s\<lparr>kl_inited := True, kl_aname := (if truthy (fld opts ''aname'') then fld opts ''aname'' else JStr ''unknown'')\<rparr>)))"

(* src/pop/fly/js/bmoon.kol.js:105-144 onready *)
definition kol_onready :: "kol_page \<Rightarrow> jsv \<Rightarrow> kol \<Rightarrow> kol" where
  "kol_onready p opts s0 =
     (let s = kol_init p opts s0
      in if opts = JUndef \<or> opts = JNull then s\<lparr>kl_thrown := kl_thrown s @ [TypeError]\<rparr>
         else if truthy (fld opts ''statOnly'') then poll_task p 10 (TStat opts) s
         else poll_task p 10 (TClient opts) s)"

text \<open>A timer of a task that waits.\<close>

definition kol_timer :: "kol_page \<Rightarrow> nat \<Rightarrow> kol \<Rightarrow> kol" where
  "kol_timer p i s =
     (if i < length (kl_waits s) then
        poll_task p 0 (kl_waits s ! i) (s\<lparr>kl_waits := take i (kl_waits s) @ drop (Suc i) (kl_waits s)\<rparr>)
      else s)"

datatype kol_ev = KReady kol_page jsv | KTimer kol_page nat

fun kol_step :: "kol_ev \<Rightarrow> kol \<Rightarrow> kol" where
  "kol_step (KReady p opts) = kol_onready p opts"
| "kol_step (KTimer p i) = kol_timer p i"

subsection \<open>Lemmas\<close>

lemma execAfter_after: "execAfter u sec e = (let (r, e') = after u sec e in (r, e', 0))"
  by (simp add: execAfter_def after_def Let_def)

text \<open>At the first poll the counter is 0, which no limit excludes.\<close>

lemma after_first: "after u sec 0 = after u 10 0"
  by (simp add: after_def Let_def)

lemma after_0: "after u 0 e = after u 10 e"
  by (simp add: after_def)

lemma exec_loop_after:
  "limit 10 < n + e \<Longrightarrow> e \<le> limit 10 \<Longrightarrow> sec = 0 \<or> sec = 10 \<Longrightarrow> exec_loop n until sec e k = Some (after_loop until 10 e k)"
proof (induction n arbitrary: e k sec)
  case 0
  then show ?case by simp
next
  case (Suc n)
  have a: "after (until k) sec e = after (until k) 10 e" using Suc.prems(3) after_0 by auto
  have x: "execAfter (until k) sec e = (if limit 10 \<le> e then (Gave_up, 0, 0) else if until k then (Ran, 0, 0) else (Later, Suc e, 0))"
    unfolding execAfter_after a by (simp add: after_limit)
  show ?case
  proof (cases "limit 10 \<le> e \<or> until k")
    case True
    then show ?thesis by (subst after_loop.simps) (auto simp: x after_limit)
  next
    case False
    then have "exec_loop n until 0 (Suc e) (Suc k) = Some (after_loop until 10 (Suc e) (Suc k))"
      using Suc.prems by (intro Suc.IH) simp_all
    moreover have "execAfter (until k) sec e = (Later, Suc e, 0)" "after (until k) 10 e = (Later, Suc e)"
      using False unfolding x after_limit by simp_all
    ultimately show ?thesis by (subst after_loop.simps) simp
  qed
qed

text \<open>What the loader does leaves the name of the first call.\<close>

definition named :: "jsv \<Rightarrow> kol \<Rightarrow> bool" where
  "named a s \<longleftrightarrow> kl_inited s \<and> kl_aname s = a \<and> set (map fst (kl_clients s)) \<subseteq> {a, JUndef}"

lemma named_frame [simp]:
  "named a (s\<lparr>kl_etime := e\<rparr>) = named a s" "named a (s\<lparr>kl_waits := w\<rparr>) = named a s" "named a (add_head m s) = named a s"
  "named a (s\<lparr>kl_thrown := x\<rparr>) = named a s" "named a (post_visit p opts s) = named a s" "named a (add_chat p opts s) = named a s"
  by (simp_all add: named_def add_head_def post_visit_def add_chat_def Let_def)

lemma named_client: "named a s \<Longrightarrow> named a (load_client opts s)"
  by (simp add: named_def load_client_def Let_def)

lemma named_task: "named a s \<Longrightarrow> named a (run_task p t s)"
  by (cases t) (simp_all add: named_client)

lemma named_poll: "named a s \<Longrightarrow> named a (poll_task p sec t s)"
proof -
  assume n: "named a s"
  have "named a (run_task p t (s\<lparr>kl_etime := e\<rparr>))" for e using n by (intro named_task) simp
  then show ?thesis using n by (auto simp: poll_task_def execAfter_def Let_def)
qed

lemma named_init: "named a s \<Longrightarrow> kol_init p opts s = s"
  by (simp add: kol_init_def named_def)

lemma named_step: "named a s \<Longrightarrow> named a (kol_step e s)"
  by (cases e) (auto simp: kol_onready_def kol_timer_def named_init Let_def intro: named_poll)

interpretation loader: machine kol_step "named a" for a
  by unfold_locales (rule named_step)

lemma onready_named:
  assumes "truthy opts" "\<not> truthy (fld opts ''statOnly'')"
  shows "named (if truthy (fld opts ''aname'') then fld opts ''aname'' else JStr ''unknown'') (kol_onready p opts fresh_kol)"
proof -
  have "named a (load_base p s) = named a s" for a s by (simp add: load_base_def loadJs_def)
  moreover have "opts \<noteq> JUndef" "opts \<noteq> JNull" using assms(1) by auto
  moreover have "named a (fresh_kol\<lparr>kl_inited := True, kl_aname := a\<rparr>)" for a by (simp add: named_def fresh_kol_def)
  ultimately show ?thesis using assms(2)
    unfolding kol_onready_def kol_init_def Let_def by (auto simp: assms(1) fresh_kol_def intro!: named_poll split del: if_split)
qed

subsection \<open>Properties\<close>

text \<open>
  The waiting of the loader is that of the pages: whatever limit it is given, from a counter of 0 it
  ends after at most 111 polls, in the way and at the poll where \<open>bmoon.utl.after\<close> ends with a limit of 10
  seconds; the limit itself is lost at the first timer.
\<close>

theorem loader_waits_like_after:
  "exec_loop 111 until sec 0 0 = Some (after_loop until 10 0 0)"
proof -
  have "exec_loop 111 until sec 0 0 = exec_loop 111 until 10 0 0"
    by (simp add: numeral_eq_Suc execAfter_after after_first [of _ sec] del: exec_loop.simps(1))
  then show ?thesis using exec_loop_after [of 111 0 10] by (simp add: limit_def)
qed

text \<open>
  Every client that is ever started on a page names the customer of the first call: a later call
  with another name, such as the demonstration makes, starts a client for the first one again.
\<close>

theorem client_keeps_first_name:
  assumes "truthy opts" "\<not> truthy (fld opts ''statOnly'')"
  shows "set (map fst (kl_clients (fold kol_step es (kol_onready p opts fresh_kol)))) \<subseteq>
    {if truthy (fld opts ''aname'') then fld opts ''aname'' else JStr ''unknown'', JUndef}"
  using loader.run_inv [OF onready_named [OF assms]] unfolding named_def by blast

definition bare_page :: kol_page where
  "bare_page = \<lparr>kp_jquery = Some ''1.4.2'', kp_cookie = True, kp_body = True, kp_livecs = True, kp_utf = True, kp_href = '''', kp_title = ''''\<rparr>"

theorem client_keeps_first_name_witness:
  "set (map fst (kl_clients (kol_onready bare_page (JObj [(''aname'', JStr ''b'')]) (kol_onready bare_page (JObj [(''aname'', JStr ''a'')]) fresh_kol)))) \<subseteq> {JStr ''a'', JUndef}"
  using client_keeps_first_name [of "JObj [(''aname'', JStr ''a'')]" "[KReady bare_page (JObj [(''aname'', JStr ''b'')])]" bare_page] by simp

text \<open>A version is compared as a string, so the tenth and later ones of jQuery count as older than 1.4.2.\<close>

lemma new_jquery_is_replaced:
  "list_all (\<lambda>m. kl_head (load_base (bare_page\<lparr>kp_jquery := Some (''1.'' @ nat_str m @ ''.0'')\<rparr>) fresh_kol) = [''http://js.bomdoo.com/b/chatb.js'']) [10..<40]"
  by code_simp

end
