(* ===== verification/Demo.thy ===== *)
theory Demo
  imports Kol Forms Pager
begin

text \<open>
  \<open>pop/fly/js/demo.js\<close>, the page that shows a customer the visitor chat: it checks that the account
  exists, starts the loader of theory \<open>Kol\<close> for it, shows the code to paste, and lets the position and the
  style of the chat be tried.
\<close>

subsection \<open>The page\<close>

(* src/pop/fly/js/demo.js:5-23 init *)
datatype demo_el =
    DmAname | DmAnamePanel | DmStep1 | DmStep2 | DmCodeAname | DmCodeCss | DmLink | DmPos string | DmCode string

record demo = "demo_el page" +
  dm_kol :: kol
  dm_chat :: bool
  dm_css :: "(string \<times> jsv) list"

(* src/pop/fly/js/demo.js:42-56 initClient *)
definition initClient :: "kol_page \<Rightarrow> string \<Rightarrow> demo \<Rightarrow> demo" where
  "initClient p aname s =
     (let t = on DmStep2 show_el (on DmCodeAname (set_text aname) (on DmStep1 hide_el s))
      in t\<lparr>dm_kol := kol_onready p (JObj [(''aname'', JStr aname), (''minable'', JBool True)]) (dm_kol t)\<rparr>)"

(* src/pop/fly/js/demo.js:58-69 appCheck *)
definition demo_appCheck :: "demo \<Rightarrow> demo" where
  "demo_appCheck = when_valid [DmAname] (\<lambda>s.
     let aname = e_val (dom s DmAname)
     in if 0 < js_len aname then
          send GET ''/json/app/exist'' [(''aname'', JStr aname)] (on DmAnamePanel (panel_begin ''vres'') s)
        else s)"

(* src/pop/fly/js/demo.js:69-83 appCheck, its callback *)
definition demo_appCheck_reply :: "kol_page \<Rightarrow> string \<Rightarrow> jsv \<Rightarrow> demo \<Rightarrow> demo" where
  "demo_appCheck_reply p aname data s =
     (let s1 = on DmAnamePanel (remove_class ''loading'') s
      in if data = JUndef \<or> data = JNull then throw s1
         else if is_one (fld data ''success'') then
           (if is_one (fld data ''exist'') then initClient p aname s1
            else add_note DmAnamePanel ''vres'' (to_str (fld data ''msg'')) (on DmAnamePanel (add_class ''error'') s1))
         else add_note DmAnamePanel ''vres'' (errmsg data) (on DmAnamePanel (add_class ''error'') s1))"

(* src/pop/fly/js/demo.js:88-95 changePlugin *)
definition changePlugin :: "string \<Rightarrow> demo \<Rightarrow> demo" where
  "changePlugin v s = (let url = ''http://css.bomdoo.com/b/client/'' @ v @ ''.css''
     in on DmLink (set_attr ''href'' url) (on DmCodeCss (set_html url) s))"

text \<open>A position: a length in per cent stays a text, every other one becomes a whole number.\<close>

definition per_cent :: "string \<Rightarrow> bool" where
  "per_cent v \<longleftrightarrow> v \<noteq> [] \<and> last v = CHR ''%''"

(* src/pop/fly/js/ape/app/bmoon.chat.js:218-230 updateUI *)
definition updateUI :: "string \<Rightarrow> string \<Rightarrow> demo \<Rightarrow> demo" where
  "updateUI k v s =
     (if \<not> dm_chat s then throw s
      else s\<lparr>dm_css := AList.update k (if per_cent v then JStr v else JNum (parseInt v)) (dm_css s)\<rparr>)"

(* src/pop/fly/js/demo.js:97-113 changePos *)
definition changePos :: "string \<Rightarrow> string \<Rightarrow> demo \<Rightarrow> demo" where
  "changePos k v s = updateUI k v (on (DmCode k) (set_html v) s)"

text \<open>The number of a text, 0 for one without.\<close>

definition whole :: "string \<Rightarrow> rat" where
  "whole v = (case parseInt v of Fin q \<Rightarrow> q | _ \<Rightarrow> 0)"

definition step_text :: "rat \<Rightarrow> string \<Rightarrow> string" where
  "step_text d v = rat_str (whole v + d) @ (if per_cent v then ''%'' else '''')"

(* src/pop/fly/js/demo.js:115-129 changePosVup *)
definition changePosVup :: "string \<Rightarrow> demo \<Rightarrow> demo" where
  "changePosVup k s =
     (let v = step_text 1 (e_val (dom s (DmPos k))) in changePos k v (on (DmPos k) (set_val v) s))"

(* src/pop/fly/js/demo.js:131-145 changePosVdown *)
definition changePosVdown :: "string \<Rightarrow> demo \<Rightarrow> demo" where
  "changePosVdown k s =
     (let v = step_text (-1) (e_val (dom s (DmPos k))) in changePos k v (on (DmPos k) (set_val v) s))"

datatype demo_ev =
    MType demo_el string | MBlur | MExists kol_page string jsv | MPlugin string | MPos string | MUp string | MDown string
  | MLoader kol_ev | MChat

(* src/pop/fly/js/demo.js:31-40 bindClick *)
fun demo_step :: "demo_ev \<Rightarrow> demo \<Rightarrow> demo" where
  "demo_step (MType i v) s = on i (set_val v) s"
| "demo_step MBlur s = demo_appCheck s"
| "demo_step (MExists p a d) s = demo_appCheck_reply p a d s"
| "demo_step (MPlugin v) s = changePlugin v s"
| "demo_step (MPos k) s = changePos k (e_val (dom s (DmPos k))) s"
| "demo_step (MUp k) s = changePosVup k s"
| "demo_step (MDown k) s = changePosVdown k s"
| "demo_step (MLoader e) s = s\<lparr>dm_kol := kol_step e (dm_kol s)\<rparr>"
| "demo_step MChat s = s\<lparr>dm_chat := True\<rparr>"

subsection \<open>Lemmas\<close>

lemma whole_int: "\<exists>n. whole v = of_int n"
  using parseInt_cases [of v] by (auto simp: whole_def int_num_def intro: exI [of _ 0])

lemma parseInt_int_str_then:
  assumes "list_all (\<lambda>c. \<not> is_digit c \<and> c \<noteq> CHR ''x'' \<and> c \<noteq> CHR ''X'') r"
  shows "parseInt (int_str n @ r) = Fin (of_int n)"
proof -
  obtain c u where cu: "nat_str (nat \<bar>n\<bar>) = c # u" "is_digit c" "list_all is_digit u"
    using nat_str_head by blast
  have nx: "take 2 (c # u @ r) \<notin> {''0x'', ''0X''}"
    using cu(3) assms by (cases u; cases r) (auto simp: is_digit_def)
  have tr: "takeWhile is_digit r = []" using assms by (cases r) auto
  have tw: "takeWhile is_digit (c # u @ r) = c # u"
    using cu(2,3) tr by (simp add: list_all_iff takeWhile_append2)
  have v: "dec_val (c # u) = nat \<bar>n\<bar>" using dec_val_nat_str [of "nat \<bar>n\<bar>"] cu(1) by simp
  show ?thesis
  proof (cases "n < 0")
    case True
    then have "int_str n @ r = CHR ''-'' # c # u @ r" using cu(1) by (simp add: int_str_def)
    moreover have "dropWhile is_space (CHR ''-'' # c # u @ r) = CHR ''-'' # c # u @ r" by (simp add: is_space_def)
    moreover have "take_sign (CHR ''-'' # c # u @ r) = (-1, c # u @ r)" by simp
    ultimately have "parseInt (int_str n @ r) = Fin (-1 * of_nat (dec_val (c # u)))"
      unfolding parseInt_def by (simp only: prod.case Let_def nx if_False tw list.distinct)
    then show ?thesis using True v by simp
  next
    case False
    then have "int_str n @ r = c # u @ r" using cu(1) by (simp add: int_str_def)
    moreover have "dropWhile is_space (c # u @ r) = c # u @ r" using cu(2) by (simp add: is_digit_not_space)
    moreover have "take_sign (c # u @ r) = (1, c # u @ r)" using cu(2) by (auto simp: is_digit_def)
    ultimately have "parseInt (int_str n @ r) = Fin (1 * of_nat (dec_val (c # u)))"
      unfolding parseInt_def by (simp only: prod.case Let_def nx if_False tw list.distinct)
    then show ?thesis using False v by simp
  qed
qed

lemma per_cent_plain: "\<not> per_cent (int_str n)"
proof -
  have "CHR ''%'' \<notin> set (nat_str m)" for m
    using nat_str_digits [of m] by (auto simp: is_digit_def)
  then have "CHR ''%'' \<notin> set (int_str n)" by (simp add: int_str_def)
  then show ?thesis unfolding per_cent_def using last_in_set by metis
qed

lemma step_text_int: "step_text d v = int_str (\<lfloor>whole v + d\<rfloor>) @ (if per_cent v then ''%'' else '''')" if "d = of_int k"
proof -
  obtain n where n: "whole v = of_int n" using whole_int by blast
  have "rat_str (of_int (n + k)) = int_str (n + k)" by (rule rat_str_int)
  then show ?thesis using that n by (simp add: step_text_def flip: of_int_add)
qed

lemma step_text_shape: "whole (int_str n @ (if b then ''%'' else '''')) = of_int n" "per_cent (int_str n @ (if b then ''%'' else '''')) = b"
  using parseInt_int_str_then [of "''%''" n] per_cent_plain [of n] by (auto simp: whole_def per_cent_def is_digit_def)

lemma dm_chat_on [simp]: "dm_chat (on i f s) = dm_chat s"
  by (simp add: on_def)

lemma updateUI_dom [simp]: "dom (updateUI k v s) = dom s" "dm_kol (updateUI k v s) = dm_kol s" "dm_chat (updateUI k v s) = dm_chat s"
  by (simp_all add: updateUI_def throw_def raise_def)

lemma changePos_dom [simp]:
  "dom (changePos k v s) (DmPos j) = dom s (DmPos j)" "dm_kol (changePos k v s) = dm_kol s" "dm_chat (changePos k v s) = dm_chat s"
  "e_html (dom (changePos k v s) (DmCode k)) = v"
  by (simp_all add: changePos_def on_def set_html_def)

lemma changePos_css: "dm_chat s \<Longrightarrow> map_of (dm_css (changePos k v s)) k = Some (if per_cent v then JStr v else JNum (parseInt v))"
  by (simp add: changePos_def updateUI_def on_def update_conv')

text \<open>The loader of the demonstration keeps the name of the first account.\<close>

definition demo_named :: "jsv \<Rightarrow> demo \<Rightarrow> bool" where
  "demo_named a s \<longleftrightarrow> named a (dm_kol s)"

lemma dm_kol_more: "page.more s = page.more t \<Longrightarrow> dm_kol s = dm_kol t"
  by (cases s; cases t) simp

lemma demo_kol [simp]: "dm_kol (on i f s) = dm_kol s" "dm_kol (send h u ps s) = dm_kol s" "dm_kol (add_note i c m s) = dm_kol s"
  "dm_kol (throw s) = dm_kol s" "dm_kol (snd (inputval is s)) = dm_kol s" "dm_kol (fold (\<lambda>i. on i mark_valid) is s) = dm_kol s"
  by (rule dm_kol_more, simp)+

lemma named_onready: "named a k \<Longrightarrow> named a (kol_onready p opts k)"
  using named_step [of a k "KReady p opts"] by simp

lemma demo_named_step: "demo_named a s \<Longrightarrow> demo_named a (demo_step e s)"
proof (cases e)
  case MBlur
  assume "demo_named a s"
  then show ?thesis unfolding MBlur by (simp add: demo_named_def demo_appCheck_def when_valid_ready Let_def)
next
  case (MExists p n d)
  assume "demo_named a s"
  then show ?thesis unfolding MExists by (simp add: demo_named_def demo_appCheck_reply_def initClient_def Let_def named_onready)
qed (simp_all add: demo_named_def changePlugin_def changePosVup_def changePosVdown_def Let_def named_step)

interpretation demo_page: machine demo_step "demo_named a" for a
  by unfold_locales (rule demo_named_step)

subsection \<open>Properties\<close>

text \<open>
  The arrow keys step a position and step it back: after up and down the field holds the whole
  number of its text with the per cent sign it had, so a whole number or percentage comes back and
  every other unit is lost; the code shows it and the chat is moved to it.
\<close>

theorem up_and_down:
  assumes "dm_chat s"
  shows "let v = e_val (dom s (DmPos k)); w = int_str \<lfloor>whole v\<rfloor> @ (if per_cent v then ''%'' else ''''); t = changePosVdown k (changePosVup k s)
     in e_val (dom t (DmPos k)) = w \<and> e_html (dom t (DmCode k)) = w \<and>
        map_of (dm_css t) k = Some (if per_cent v then JStr w else jint \<lfloor>whole v\<rfloor>)"
proof -
  define v where "v = e_val (dom s (DmPos k))"
  define b where "b = per_cent v"
  obtain n where n: "whole v = of_int n" using whole_int by blast
  have u: "step_text 1 v = int_str (n + 1) @ (if b then ''%'' else '''')"
    using step_text_int [of 1 1 v] n by (simp add: b_def)
  have "step_text (-1) (int_str (n + 1) @ (if b then ''%'' else '''')) = int_str n @ (if b then ''%'' else '''')"
    using step_text_int [of "-1" "-1" "int_str (n + 1) @ (if b then ''%'' else '''')"] step_text_shape [of "n + 1" b] by simp
  then have d: "step_text (-1) (step_text 1 v) = int_str n @ (if b then ''%'' else '''')" by (simp only: u)
  define t where "t = changePosVup k s"
  have t: "e_val (dom t (DmPos k)) = step_text 1 v" "dm_chat t"
    using assms by (simp_all add: t_def changePosVup_def v_def Let_def)
  have e: "e_val (dom (changePosVdown k t) (DmPos k)) = int_str n @ (if b then ''%'' else '''')"
    "e_html (dom (changePosVdown k t) (DmCode k)) = int_str n @ (if b then ''%'' else '''')"
    by (simp_all add: changePosVdown_def t d Let_def)
  have "map_of (dm_css (changePosVdown k t)) k = Some (if b then JStr (int_str n @ ''%'') else jint n)"
    using changePos_css [of "on (DmPos k) (set_val (int_str n @ (if b then ''%'' else ''''))) t" k "int_str n @ (if b then ''%'' else '''')"]
      t(2) step_text_shape(2) [of n b] by (simp add: changePosVdown_def t d Let_def jint_def split: if_splits)
  then show ?thesis using e n by (simp add: Let_def t_def v_def b_def)
qed

definition fresh_demo :: demo where
  "fresh_demo = \<lparr>dom = (\<lambda>i. if i = DmPos ''top'' then blank\<lparr>e_val := ''10%''\<rparr> else blank), reqs = [], alerts = [], thrown = [],
     dm_kol = fresh_kol, dm_chat = True, dm_css = []\<rparr>"

theorem up_and_down_witness:
  "e_val (dom (changePosVdown ''top'' (changePosVup ''top'' fresh_demo)) (DmPos ''top'')) = ''10%''"
proof -
  have "e_val (dom fresh_demo (DmPos ''top'')) = ''10%''" "whole ''10%'' = 10" "per_cent ''10%''" "dm_chat fresh_demo"
    by (simp_all add: fresh_demo_def, code_simp+)
  moreover have "nat_str 10 = ''10''" by code_simp
  ultimately show ?thesis using up_and_down [of fresh_demo "''top''"] by (simp add: Let_def int_str_def)
qed

text \<open>
  Trying the demonstration with a second account: the code to paste is that of the second, while
  every client started, then and before, is one for the first.
\<close>

theorem demo_mixes_accounts:
  assumes "a \<noteq> []" "is_one (fld d ''success'')" "is_one (fld d ''exist'')" "is_one (fld d' ''success'')" "is_one (fld d' ''exist'')" "dm_kol s = fresh_kol"
  shows "let t = demo_appCheck_reply p' b d' (fold demo_step es (demo_appCheck_reply p a d s))
     in e_html (dom t DmCodeAname) = escape_text b \<and> set (map fst (kl_clients (dm_kol t))) \<subseteq> {JStr a, JUndef}"
proof -
  have nn: "x \<noteq> JUndef \<and> x \<noteq> JNull" if "is_one (fld x ''success'')" for x
    using that by (cases x) (auto simp: fld_def)
  have "demo_named (JStr a) (demo_appCheck_reply p a d s)"
    using onready_named [of "JObj [(''aname'', JStr a), (''minable'', JBool True)]" p] assms(1-3,6) nn [OF assms(2)]
    by (simp add: demo_named_def demo_appCheck_reply_def initClient_def Let_def)
  then have "demo_named (JStr a) (fold demo_step es (demo_appCheck_reply p a d s))" by (rule demo_page.run_inv)
  then have "demo_named (JStr a) (demo_step (MExists p' b d') (fold demo_step es (demo_appCheck_reply p a d s)))" by (rule demo_named_step)
  moreover have "e_html (dom (demo_appCheck_reply p' b d' u) DmCodeAname) = escape_text b" for u
    using assms(4,5) nn [OF assms(4)] by (simp add: demo_appCheck_reply_def initClient_def Let_def set_text_def)
  ultimately show ?thesis by (simp add: Let_def demo_named_def named_def)
qed

theorem demo_mixes_accounts_witness:
  "let d = JObj [(''success'', jint 1), (''exist'', jint 1)]; t = demo_appCheck_reply bare_page ''b'' d (demo_appCheck_reply bare_page ''a'' d fresh_demo)
   in e_html (dom t DmCodeAname) = ''b'' \<and> set (map fst (kl_clients (dm_kol t))) \<subseteq> {JStr ''a'', JUndef}"
  using demo_mixes_accounts [of "''a''" "JObj [(''success'', jint 1), (''exist'', jint 1)]" "JObj [(''success'', jint 1), (''exist'', jint 1)]"
      fresh_demo bare_page "''b''" "[]" bare_page]
  by (simp add: fresh_demo_def escape_text_def Let_def)

end
