(* ===== verification/IndexG.thy ===== *)
theory IndexG
  imports Post "HOL-Library.Sublist"
begin

text \<open>
  \<open>dida/fly/js/index-g.js\<close>: the front page of theory \<open>Index\<close> for the other map.  The form, the routes
  found and the route left are those of \<open>Index\<close>, in the field \<open>ig_page\<close> (its map stays unused); the map
  draws the way between the two ends itself, once it has found one: a question for a way is kept in
  \<open>mg_asked\<close>, the answer to the \<open>k\<close>-th of them is an event and may come at any time.
\<close>

subsection \<open>The map\<close>

datatype mg_view = Centred jsv | Fits jsv

record mapg =
  mg_view :: mg_view
  mg_rect :: "(point \<times> point) option"
  mg_rect_on :: bool
  mg_smarker :: "jsv option"
  mg_emarker :: "jsv option"
  mg_content :: string
  mg_open :: "side option"
  mg_asked :: "(point \<times> point) list"
  mg_way :: "jsv option"

record indexg =
  ig_page :: index
  ig_map :: "mapg option"

definition pg :: "(index \<Rightarrow> index) \<Rightarrow> indexg \<Rightarrow> indexg" where
  "pg f s = s\<lparr>ig_page := f (ig_page s)\<rparr>"

definition on_mapg :: "(mapg \<Rightarrow> mapg) \<Rightarrow> indexg \<Rightarrow> indexg" where
  "on_mapg f s = (case ig_map s of None \<Rightarrow> pg throw s | Some m \<Rightarrow> s\<lparr>ig_map := Some (f m)\<rparr>)"

definition seqg :: "(indexg \<Rightarrow> indexg) \<Rightarrow> (indexg \<Rightarrow> indexg) \<Rightarrow> indexg \<Rightarrow> indexg" where
  "seqg f g s = (let t = f s in if thrown (ig_page t) = thrown (ig_page s) then g t else t)"

definition arr_of :: "jnum \<times> jnum \<Rightarrow> jsv" where
  "arr_of p = JArr [JNum (fst p), JNum (snd p)]"

(* src/dida/fly/js/index-g.js:69-105 initMap *)
definition initMap_g :: "(jnum \<times> jnum) option \<Rightarrow> indexg \<Rightarrow> indexg" where
  "initMap_g geo s =
     (let p = (case geo of Some g \<Rightarrow> g | None \<Rightarrow> (Fin (28188 / 1000), Fin (113033 / 1000)))
      in s\<lparr>ig_map := Some \<lparr>mg_view = Centred (arr_of p), mg_rect = None, mg_rect_on = False, mg_smarker = None, mg_emarker = None,
            mg_content = '''', mg_open = None, mg_asked = [], mg_way = None\<rparr>\<rparr>)"

(* src/dida/fly/js/index-g.js:107-133 onready *)
definition onready_g :: "indexg \<Rightarrow> indexg" where
  "onready_g s = pg (\<lambda>p. setDefault (send GET ''/json/city/ip'' [] p)) s"

(* src/dida/fly/js/index-g.js:126-130 onready, its callback *)
definition onready_g_reply :: "jsv \<Rightarrow> indexg \<Rightarrow> indexg" where
  "onready_g_reply data s =
     (if data = JUndef \<or> data = JNull then pg throw s
      else if is_one (fld data ''success'') \<and> is_type ''Object'' (fld data ''city'') then
        (case dbpoint2ll (fld (fld data ''city'') ''geopos'') of
           Inl e \<Rightarrow> pg (raise e) s
         | Inr p \<Rightarrow> initMap_g (Some p) s)
      else initMap_g None s)"

subsection \<open>Searching\<close>

(* src/dida/fly/js/index-g.js:189-228 matchPlan *)
definition matchPlan_g :: "(jsv \<Rightarrow> jsv \<Rightarrow> string) \<Rightarrow> indexg \<Rightarrow> indexg" where
  "matchPlan_g dis s0 =
     seqg (on_mapg (\<lambda>m. m\<lparr>mg_rect_on := False\<rparr>))
       (pg (\<lambda>p. let s = p\<lparr>ix_mplans := JObj []\<rparr>
          in if \<not> truthy (get_plan ''sll'' s) \<or> \<not> truthy (get_plan ''ell'' s) then s
             else if \<not> is_arr (get_plan ''sll'' s) \<or> \<not> is_arr (get_plan ''ell'' s) then throw (set_times s)
             else (let t = on IxMatchPanel (panel_begin ''vres'') (set_query dis s)
                   in send GET ''/json/plan/match'' (ix_plan t) t)))
       (pg (\<lambda>p. on IxNav hide_el (on IxResult hide_el (on IxNoresult hide_el p))) s0)"

(* src/dida/fly/js/index-g.js:294-316 rendPlan *)
definition rendPlan_g :: "int \<Rightarrow> indexg \<Rightarrow> indexg" where
  "rendPlan_g ncur s =
     (case bind_sum (js_get (ix_mplans (ig_page s)) (int_str ncur)) (\<lambda>plan. bind_sum (js_get plan ''rect'') (\<lambda>r.
        bind_sum (dbbox2ll r) (\<lambda>geo. Inr (plan, geo)))) of
        Inl e \<Rightarrow> pg (raise e) s
      | Inr (plan, ((a, b), (c, d))) \<Rightarrow>
          seqg (on_mapg (\<lambda>m. m\<lparr>mg_rect := Some ((JNum a, JNum b), (JNum c, JNum d)), mg_rect_on := True\<rparr>))
            (pg (rendMatch plan ncur)) s)"

(* src/dida/fly/js/index-g.js:228-242 matchPlan, its callback *)
definition matchPlan_g_reply :: "jsv \<Rightarrow> indexg \<Rightarrow> indexg" where
  "matchPlan_g_reply data s =
     (let s1 = pg (on IxMatchPanel (remove_class ''loading'')) s
      in if data = JUndef \<or> data = JNull then pg throw s1
         else if loose_eq (fld data ''success'') (JStr ''1'') \<and> is_type ''Array'' (fld data ''plans'') then
           (let n = (if truthy (fld data ''_ntt'') then fld data ''_ntt'' else fld (fld data ''plans'') ''length'')
            in rendPlan_g 0 (pg (\<lambda>p. on IxNum (set_html (''0 / '' @ to_str n))
                 ((on IxMatchPanel (add_class ''success'') p)\<lparr>ix_pnum := n, ix_mplans := fld data ''plans''\<rparr>)) s1))
         else pg (\<lambda>p. let p2 = add_note IxMatchPanel ''vres'' (errmsg data) (on IxMatchPanel (add_class ''error'') p)
               in if loose_eq (fld data ''errcode'') (jint 35) then on IxNoresult show_el p2 else p2) s1)"

(* src/dida/fly/js/index-g.js:145-146 bindClick, the buttons *)
definition step_click_g :: "int \<Rightarrow> indexg \<Rightarrow> indexg" where
  "step_click_g d s = (case ix_pcur (ig_page s) of None \<Rightarrow> pg throw s | Some c \<Rightarrow> rendPlan_g (c + d) s)"

text \<open>Here the field of a subscription is tested before the login.\<close>

(* src/dida/fly/js/index-g.js:148-170 bindClick, the boxes *)
definition subscribe_click_g :: "nat \<Rightarrow> index \<Rightarrow> index" where
  "subscribe_click_g i s0 =
     (if i < length (ix_subs s0) then
        (let s = set_check i (\<not> cb_checked (ix_subs s0 ! i)) s0; c = ix_subs s ! i
         in if cb_checked c then
              (case inputval (cb_fields c)
                  (if loose_eq (JStr (cb_val c)) (jint 1) \<and> js_len (e_val (dom s NoPhone)) = 0
                   then send GET ''/json/member/info'' [] s else s) of
                 (False, t) \<Rightarrow> set_check i False t
               | (True, t) \<Rightarrow> ask_login t)
            else s)
      else s0)"

subsection \<open>The two ends\<close>

(* src/dida/fly/js/index-g.js:371-376 upPlan, the callback of the search *)
definition upPlan_g_city :: "side \<Rightarrow> jsv \<Rightarrow> index \<Rightarrow> index" where
  "upPlan_g_city x city s = (if is_type ''Object'' city then set_plan (ends x ''cityid'') (fld city ''id'') s else s)"

definition ig_search :: "side \<Rightarrow> search \<Rightarrow> index \<Rightarrow> index" where
  "ig_search x r s = (case r of
       Asking q pos \<Rightarrow> s\<lparr>reqs := reqs s @ [q]\<rparr>
     | Found city \<Rightarrow> upPlan_g_city x city s
     | Threw e \<Rightarrow> raise e s)"

(* src/dida/fly/js/index-g.js:358-377 upPlan *)
definition upPlan_g :: "side \<Rightarrow> jsv \<Rightarrow> index \<Rightarrow> index" where
  "upPlan_g x data s =
     (case loc_of data of
        Inl e \<Rightarrow> raise e s
      | Inr l \<Rightarrow>
          (let t = set_plan (ends x ''addr'') (fld data ''formatted_address'')
                 (set_plan (ends x ''ll'') (JArr [fld l ''lat'', fld l ''lng'']) s)
           in case getCityByGeoresult data of Inl e \<Rightarrow> raise e t | Inr (r, arrs) \<Rightarrow> ig_search x r t))"

(* src/dida/fly/js/index-g.js:379-391 rendDirect *)
definition rendDirect_g :: "(jsv \<Rightarrow> jsv \<Rightarrow> string) \<Rightarrow> indexg \<Rightarrow> indexg" where
  "rendDirect_g dis s =
     (let sll = get_plan ''sll'' (ig_page s); ell = get_plan ''ell'' (ig_page s)
      in if \<not> truthy sll \<or> \<not> truthy ell then s
         else on_mapg (\<lambda>m. m\<lparr>mg_asked := mg_asked m @ [(arr_point sll, arr_point ell)]\<rparr>)
                (pg (on IxKm (set_html ((utf8 [231, 186, 166, 32]) @ dis sll ell @ (utf8 [32, 229, 141, 131, 231, 177, 179])))) s))"

(* src/dida/fly/js/index-g.js:392-396 rendDirect, the answer of the map *)
definition direct_found :: "jsv \<Rightarrow> jsv \<Rightarrow> indexg \<Rightarrow> indexg" where
  "direct_found result status s = (if loose_eq status (JStr ''OK'') then on_mapg (\<lambda>m. m\<lparr>mg_way := Some result\<rparr>) s else s)"

definition show_info_g :: "side \<Rightarrow> string \<Rightarrow> mapg \<Rightarrow> mapg" where
  "show_info_g x c m = m\<lparr>mg_content := c, mg_open := Some x\<rparr>"

(* src/dida/fly/js/index-g.js:428-441 markDraged, the answer of the map *)
definition markDraged_g :: "(jsv \<Rightarrow> jsv \<Rightarrow> string) \<Rightarrow> side \<Rightarrow> jsv \<Rightarrow> jsv \<Rightarrow> indexg \<Rightarrow> indexg" where
  "markDraged_g dis x results status s =
     (if loose_eq status (JStr ''OK'') then
        (case bind_sum (js_get results ''0'') (\<lambda>r. bind_sum (js_get r ''formatted_address'') (\<lambda>a. Inr (r, a))) of
           Inl e \<Rightarrow> pg (raise e) s
         | Inr (r, a) \<Rightarrow>
             (let s1 = pg (on (addr_el x) (val_of a)) s
              in case bind_sum (js_get (fld r ''address_components'') ''0'') (\<lambda>c. bind_sum (js_get c ''short_name'') (\<lambda>n.
                   bind_sum (loc_of r) (formAddr n (fld r ''address_components'')))) of
                 Inl e \<Rightarrow> pg (raise e) s1
               | Inr c \<Rightarrow> seqg (on_mapg (show_info_g x c)) (seqg (pg (upPlan_g x r)) (rendDirect_g dis)) s1))
      else s)"

definition place_marker :: "side \<Rightarrow> jsv \<Rightarrow> mapg \<Rightarrow> mapg" where
  "place_marker x l m = (case x of S \<Rightarrow> m\<lparr>mg_smarker := Some l\<rparr> | E \<Rightarrow> m\<lparr>mg_emarker := Some l\<rparr>)"

text \<open>\<open>place\<close> is what the address field offers: \<open>undefined\<close>, or without \<open>geometry\<close>, when it found nothing.\<close>

(* src/dida/fly/js/index-g.js:444-474 autoChanged *)
definition autoChanged_g :: "(jsv \<Rightarrow> jsv \<Rightarrow> string) \<Rightarrow> side \<Rightarrow> jsv \<Rightarrow> indexg \<Rightarrow> indexg" where
  "autoChanged_g dis x place =
     seqg (on_mapg (\<lambda>m. m\<lparr>mg_open := None\<rparr>))
       (\<lambda>s. case bind_sum (js_get place ''geometry'') (\<lambda>g. bind_sum (js_get g ''viewport'') (\<lambda>v. Inr (v, fld g ''location''))) of
          Inl e \<Rightarrow> pg (raise e) s
        | Inr (v, l) \<Rightarrow>
            seqg (on_mapg (\<lambda>m. place_marker x l (m\<lparr>mg_view := (if truthy v then Fits v else Centred l)\<rparr>)))
              (\<lambda>s. case bind_sum (if truthy (fld place ''address_components'') \<and> (l = JUndef \<or> l = JNull) then Inl TypeError else Inr l)
                    (formAddr (fld place ''name'') (fld place ''address_components'')) of
                 Inl e \<Rightarrow> pg (raise e) s
               | Inr c \<Rightarrow> seqg (on_mapg (show_info_g x c)) (seqg (pg (upPlan_g x place)) (rendDirect_g dis)) s) s)"

text \<open>The timers of both close the window whoever opened it.\<close>

definition close_info_g :: "indexg \<Rightarrow> indexg" where
  "close_info_g = on_mapg (\<lambda>m. m\<lparr>mg_open := None\<rparr>)"

subsection \<open>Everything that can happen\<close>

(* src/dida/fly/js/index-g.js:399-415 bindMapChange *)
datatype indexg_ev =
    GTyped index_el string | GReady | GIp jsv | GSearch | GMatch jsv | GPrev | GNext | GContinue
  | GRepeat | GWday nat | GLeave | GLeft jsv | GSubscribe nat | GMember jsv
  | GDragged side jsv jsv | GChosen side jsv | GWay jsv jsv | GCityOf side "jsv list" nat jsv | GClose

(* src/dida/fly/js/index-g.js:135-147 bindClick *)
fun indexg_step :: "(jsv \<Rightarrow> jsv \<Rightarrow> string) \<Rightarrow> indexg_ev \<Rightarrow> indexg \<Rightarrow> indexg" where
  "indexg_step dis (GTyped i v) = pg (on i (set_val v))"
| "indexg_step dis GReady = onready_g"
| "indexg_step dis (GIp d) = onready_g_reply d"
| "indexg_step dis GSearch = matchPlan_g dis"
| "indexg_step dis (GMatch d) = matchPlan_g_reply d"
| "indexg_step dis GPrev = step_click_g (-1)"
| "indexg_step dis GNext = step_click_g 1"
| "indexg_step dis GContinue = pg continue_click"
| "indexg_step dis GRepeat = pg wdayChanged"
| "indexg_step dis (GWday i) = pg (\<lambda>s. s\<lparr>ix_wdays := (ix_wdays s)[i := map_prod id Not (ix_wdays s ! i)]\<rparr>)"
| "indexg_step dis GLeave = pg leavePlan"
| "indexg_step dis (GLeft d) = pg (leavePlan_reply d)"
| "indexg_step dis (GSubscribe i) = pg (subscribe_click_g i)"
| "indexg_step dis (GMember d) = pg (subscribe_reply d)"
| "indexg_step dis (GDragged x r st) = markDraged_g dis x r st"
| "indexg_step dis (GChosen x p) = autoChanged_g dis x p"
| "indexg_step dis (GWay r st) = direct_found r st"
| "indexg_step dis (GCityOf x arrs pos d) = pg (ig_search x (city_reply (\<lambda>c. js_get c ''short_name'') arrs pos d))"
| "indexg_step dis GClose = close_info_g"

subsection \<open>Lemmas\<close>

lemma pg_simps [simp]: "ig_page (pg f s) = f (ig_page s)" "ig_map (pg f s) = ig_map s"
  by (simp_all add: pg_def)

text \<open>The ends and the distance shown are those of \<open>a\<close>, and the exceptions begin with \<open>th\<close>.\<close>

definition calm :: "jsv \<times> jsv \<times> string \<Rightarrow> js_error list \<Rightarrow> index \<Rightarrow> bool" where
  "calm a th p \<longleftrightarrow> a = (get_plan ''sll'' p, get_plan ''ell'' p, e_html (dom p IxKm)) \<and> prefix th (thrown p)"

lemma calm_refl: "calm (get_plan ''sll'' p, get_plan ''ell'' p, e_html (dom p IxKm)) (thrown p) p"
  by (simp add: calm_def)

lemma calm_frame [simp]:
  "i \<noteq> IxKm \<Longrightarrow> calm a th (on i f s) = calm a th s"
  "calm a th (s\<lparr>ix_map := m\<rparr>) = calm a th s" "calm a th (s\<lparr>ix_mplans := p\<rparr>) = calm a th s" "calm a th (s\<lparr>ix_pnum := n\<rparr>) = calm a th s"
  "calm a th (s\<lparr>ix_pcur := c\<rparr>) = calm a th s" "calm a th (s\<lparr>ix_city := j\<rparr>) = calm a th s" "calm a th (s\<lparr>ix_wdays := w\<rparr>) = calm a th s"
  "calm a th (s\<lparr>ix_subs := u\<rparr>) = calm a th s" "calm a th (s\<lparr>ix_dida := d\<rparr>) = calm a th s" "calm a th (s\<lparr>ix_asked := k\<rparr>) = calm a th s"
  "calm a th (s\<lparr>reqs := r\<rparr>) = calm a th s" "calm a th (send h url ps s) = calm a th s"
  by (cases s; auto simp: calm_def on_def get_plan_def send_def)+

lemma calm_typed [simp]: "calm a th (on i (set_val v) s) = calm a th s"
  by (cases s) (auto simp: calm_def on_def get_plan_def set_val_def)

lemma calm_raise: "calm a th s \<Longrightarrow> calm a th (raise e s)" "calm a th s \<Longrightarrow> calm a th (throw s)"
  by (simp_all add: calm_def raise_def throw_def get_plan_def)

lemma calm_set_plan: "k \<noteq> ''sll'' \<Longrightarrow> k \<noteq> ''ell'' \<Longrightarrow> calm a th (set_plan k v s) = calm a th s"
  by (auto simp: calm_def)

lemma calm_seq: "calm a th s \<Longrightarrow> (\<And>t. calm a th t \<Longrightarrow> calm a th (f t)) \<Longrightarrow> (\<And>t. calm a th t \<Longrightarrow> calm a th (g t)) \<Longrightarrow> calm a th (seq f g s)"
  by (simp add: seq_def Let_def)

lemma calm_on: "e_html (f (dom s i)) = e_html (dom s i) \<Longrightarrow> calm a th (on i f s) = calm a th s"
  by (cases s) (auto simp: calm_def on_def get_plan_def)

lemma blink_html: "e_html (blink_ticks c n e) = e_html e"
  by (induction n) (simp_all add: blink_ticks_def toggle_class_def dom_defs)

lemma calm_check: "calm a th (snd (check_field i s)) = calm a th s"
proof -
  have "calm a th (alert m s) = calm a th s" for m by (simp add: calm_def alert_def get_plan_def)
  moreover have "calm a th (on i mark_valid s) = calm a th s" "calm a th (on i (mblink c b n) s) = calm a th s"
    "calm a th (on i (remove_class c) s) = calm a th s" for c b n s
    by (rule calm_on, simp add: mark_valid_def mblink_def blink_html dom_defs Let_def)+
  ultimately show ?thesis by (cases "e_attrs (dom s i) ''verrmsg''") (simp_all add: check_field_eq reportErr_def)
qed

lemma calm_inputval: "calm a th (snd (inputval is s)) = calm a th s"
proof (induction "is" arbitrary: s)
  case (Cons i "is")
  obtain ok t where c: "check_field i s = (ok, t)" by (cases "check_field i s")
  then have "calm a th t = calm a th s" using calm_check [of a th i s] by simp
  with Cons c show ?case by (cases ok) (simp_all add: inputval.simps)
qed (simp add: inputval.simps)

lemma calm_inputval_cases: "calm a th s \<Longrightarrow> inputval fs s = (b, t) \<Longrightarrow> calm a th t"
  using calm_inputval [of a th fs s] by simp

lemma calm_rendMatch: "calm a th s \<Longrightarrow> calm a th (rendMatch p k s)"
  by (auto simp: rendMatch_def rendFrom_def rendDetails_def rendCursor_def rendPics_def Let_def calm_raise
      split: sum.splits option.splits intro!: calm_seq)

lemma calm_search: "calm a th s \<Longrightarrow> calm a th (ig_search x r s)"
  by (auto simp: ig_search_def upPlan_g_city_def calm_raise split: search.splits side.splits)
    (cases x; simp add: calm_set_plan)

lemma calm_leavePlan: "calm a th s \<Longrightarrow> calm a th (leavePlan s)"
  by (auto simp: leavePlan_def when_valid_eq Let_def set_left_def calm_set_plan calm_inputval)

lemma calm_ask_login: "calm a th s \<Longrightarrow> calm a th (ask_login s)"
  by (simp add: ask_login_def calm_raise split: prod.split)

lemma calm_subscribe: 
  assumes "calm a th s"
  shows "calm a th (subscribe_click_g i s)"
proof -
  have c: "calm a th (set_check i b t) = calm a th t" for b t by (simp add: set_check_def)
  have "calm a th (case inputval fs t of (False, u) \<Rightarrow> set_check i False u | (True, u) \<Rightarrow> ask_login u)" if "calm a th t" for fs t
    using calm_inputval_cases [OF that, of fs] by (cases "inputval fs t"; cases "fst (inputval fs t)") (simp_all add: c calm_ask_login)
  then show ?thesis using assms by (simp add: subscribe_click_g_def Let_def c)
qed

text \<open>What only passes on the ends and the distance.\<close>

definition quiet :: "(indexg \<Rightarrow> indexg) \<Rightarrow> bool" where
  "quiet f \<longleftrightarrow> (\<forall>a th s. calm a th (ig_page s) \<longrightarrow> calm a th (ig_page (f s)))"

lemma quietI: "(\<And>a th s. calm a th (ig_page s) \<Longrightarrow> calm a th (ig_page (f s))) \<Longrightarrow> quiet f"
  by (simp add: quiet_def)

lemma quietD: "quiet f \<Longrightarrow> calm a th (ig_page s) \<Longrightarrow> calm a th (ig_page (f s))"
  unfolding quiet_def by blast

lemma quiet_pg: "(\<And>a th p. calm a th p \<Longrightarrow> calm a th (f p)) \<Longrightarrow> quiet (pg f)"
  unfolding quiet_def pg_simps by blast

lemma quiet_map [simp]: "quiet (on_mapg f)"
  by (simp add: quiet_def on_mapg_def calm_raise split: option.splits)

lemma quiet_seqg: "quiet f \<Longrightarrow> quiet g \<Longrightarrow> quiet (seqg f g)"
  by (simp add: quiet_def seqg_def Let_def)

lemma quiet_rendPlan: "quiet (rendPlan_g k)"
  by (rule quietI) (auto simp: rendPlan_g_def calm_raise split: sum.splits
      intro!: quietD [OF quiet_seqg [OF quiet_map quiet_pg]] calm_rendMatch)

lemma calm_times: "calm a th (set_times s) = calm a th s"
  by (simp add: set_times_def calm_set_plan)

lemma calm_query: "calm a th (set_query dis s) = calm a th s"
  by (simp add: set_query_def calm_times Let_def calm_set_plan)

lemma quiet_match: "quiet (matchPlan_g dis)"
proof -
  have "quiet (seqg (on_mapg (\<lambda>m. m\<lparr>mg_rect_on := False\<rparr>)) (pg (\<lambda>p. let s = p\<lparr>ix_mplans := JObj []\<rparr>
      in if \<not> truthy (get_plan ''sll'' s) \<or> \<not> truthy (get_plan ''ell'' s) then s
         else if \<not> is_arr (get_plan ''sll'' s) \<or> \<not> is_arr (get_plan ''ell'' s) then throw (set_times s)
         else (let t = on IxMatchPanel (panel_begin ''vres'') (set_query dis s) in send GET ''/json/plan/match'' (ix_plan t) t))))"
    by (intro quiet_seqg quiet_map quiet_pg) (auto simp: Let_def calm_query calm_times intro!: calm_raise)
  from quietD [OF this] show ?thesis by (intro quietI) (simp add: matchPlan_g_def)
qed

lemma quiet_reply: "quiet (matchPlan_g_reply d)"
  by (rule quietI) (auto simp: matchPlan_g_reply_def Let_def add_note_def calm_raise intro!: quietD [OF quiet_rendPlan])

lemma initMap_page [simp]: "ig_page (initMap_g geo s) = ig_page s"
  by (simp add: initMap_g_def Let_def)

lemma quiet_ip: "quiet (onready_g_reply d)"
  by (rule quietI) (auto simp: onready_g_reply_def calm_raise split: sum.splits)

text \<open>Every event but the choice of an end passes them on.\<close>

lemma quiet_step:
  assumes "\<And>x r st. e \<noteq> GDragged x r st" "\<And>x p. e \<noteq> GChosen x p"
  shows "quiet (indexg_step dis e)"
proof (cases e)
  case (GWay r st)
  then show ?thesis by (auto simp: direct_found_def intro!: quietI quietD [OF quiet_map])
next
  case GPrev
  then show ?thesis by (auto simp: step_click_g_def calm_raise split: option.splits intro!: quietI quietD [OF quiet_rendPlan])
next
  case GNext
  then show ?thesis by (auto simp: step_click_g_def calm_raise split: option.splits intro!: quietI quietD [OF quiet_rendPlan])
next
  case (GLeft d)
  then show ?thesis by (auto simp: leavePlan_reply_def settle_def add_note_def Let_def calm_raise intro!: quiet_pg)
next
  case (GMember d)
  then show ?thesis by (auto simp: subscribe_reply_def calm_raise split: sum.splits intro!: quiet_pg)
qed (use assms in \<open>auto simp: onready_g_def [abs_def] setDefault_def continue_click_def wdayChanged_def quiet_match quiet_reply
    quiet_ip close_info_g_def calm_leavePlan calm_subscribe calm_search intro!: quiet_pg\<close>)


subsection \<open>Properties\<close>

text \<open>With both ends known, the page shows the distance between them.\<close>

definition current :: "(jsv \<Rightarrow> jsv \<Rightarrow> string) \<Rightarrow> index \<Rightarrow> bool" where
  "current dis p \<longleftrightarrow> (truthy (get_plan ''sll'' p) \<and> truthy (get_plan ''ell'' p) \<longrightarrow>
     e_html (dom p IxKm) = (utf8 [231, 186, 166, 32]) @ dis (get_plan ''sll'' p) (get_plan ''ell'' p) @ (utf8 [32, 229, 141, 131, 231, 177, 179]))"

text \<open>As long as nothing but \<open>th\<close> was thrown.\<close>

definition current_while :: "(jsv \<Rightarrow> jsv \<Rightarrow> string) \<Rightarrow> js_error list \<Rightarrow> indexg \<Rightarrow> bool" where
  "current_while dis th s \<longleftrightarrow> prefix th (thrown (ig_page s)) \<and> (thrown (ig_page s) = th \<longrightarrow> current dis (ig_page s))"

lemma quiet_current:
  assumes "quiet f" "current_while dis th s"
  shows "current_while dis th (f s)"
proof -
  define p q where "p = ig_page s" and "q = ig_page (f s)"
  have c: "calm (get_plan ''sll'' p, get_plan ''ell'' p, e_html (dom p IxKm)) (thrown p) q"
    using quietD [OF assms(1) calm_refl [of "ig_page s"]] by (simp add: p_def q_def)
  then have "prefix th (thrown q)" "thrown q = th \<Longrightarrow> thrown p = th"
    using assms(2) by (auto simp: calm_def current_while_def p_def dest: prefix_order.antisym intro: prefix_order.trans)
  then show ?thesis using c assms(2) by (simp add: current_while_def calm_def current_def p_def q_def)
qed

definition throws_on :: "(indexg \<Rightarrow> indexg) \<Rightarrow> bool" where
  "throws_on f \<longleftrightarrow> (\<forall>s. prefix (thrown (ig_page s)) (thrown (ig_page (f s))))"

lemma throws_upPlan: "prefix (thrown p) (thrown (upPlan_g x d p))"
  by (auto simp: upPlan_g_def Let_def ig_search_def upPlan_g_city_def raise_def split: sum.splits search.splits)

lemma direct_current:
  assumes "prefix th (thrown (ig_page s))"
  shows "current_while dis th (rendDirect_g dis s)"
  using assms by (auto simp: rendDirect_g_def Let_def current_while_def current_def on_mapg_def throw_def split: option.splits)

lemma seqg_current:
  assumes "\<And>s. prefix (thrown (ig_page s)) (thrown (ig_page (f s)))"
    "\<And>s. prefix th (thrown (ig_page s)) \<Longrightarrow> current_while dis th (g s)" "prefix th (thrown (ig_page s))"
  shows "current_while dis th (seqg f g s)"
proof (cases "thrown (ig_page (f s)) = thrown (ig_page s)")
  case True
  then show ?thesis using assms(2) [of "f s"] assms(3) by (simp add: seqg_def Let_def)
next
  case False
  then have "thrown (ig_page (f s)) \<noteq> th" using assms(1) [of s] assms(3) by (metis prefix_order.antisym)
  then show ?thesis using False prefix_order.trans [OF assms(3) assms(1) [of s]] by (simp add: seqg_def Let_def current_while_def)
qed

lemma end_current:
  "prefix th (thrown (ig_page s)) \<Longrightarrow> current_while dis th (seqg (on_mapg h) (seqg (pg (upPlan_g x d)) (rendDirect_g dis)) s)"
  by (rule seqg_current [OF _ seqg_current]) (simp_all add: throws_upPlan direct_current on_mapg_def throw_def split: option.split)

lemma thrown_current: "prefix th (thrown (ig_page s)) \<Longrightarrow> current_while dis th (pg (raise e) s)"
  by (auto simp: current_while_def raise_def)

lemma dragged_current:
  assumes "current_while dis th s"
  shows "current_while dis th (markDraged_g dis x r st s)"
proof -
  have p: "prefix th (thrown (ig_page s))" using assms by (simp add: current_while_def)
  then have q: "prefix th (thrown (ig_page (pg (on (addr_el x) f) s)))" for f by simp
  show ?thesis using thrown_current [OF p] thrown_current [OF q] end_current [OF q] assms
    by (auto simp: markDraged_g_def Let_def split: sum.splits)
qed

lemma chosen_current:
  assumes "current_while dis th s"
  shows "current_while dis th (autoChanged_g dis x place s)"
proof -
  have m: "prefix (thrown (ig_page s)) (thrown (ig_page (on_mapg f s)))" for f s by (simp add: on_mapg_def throw_def split: option.split)
  have p: "prefix th (thrown (ig_page s))" using assms by (simp add: current_while_def)
  show ?thesis unfolding autoChanged_g_def
  proof (rule seqg_current [OF m _ p])
    fix t :: indexg assume t: "prefix th (thrown (ig_page t))"
    show "current_while dis th (case bind_sum (js_get place ''geometry'') (\<lambda>g. bind_sum (js_get g ''viewport'') (\<lambda>v. Inr (v, fld g ''location''))) of
          Inl e \<Rightarrow> pg (raise e) t
        | Inr (v, l) \<Rightarrow>
            seqg (on_mapg (\<lambda>m. place_marker x l (m\<lparr>mg_view := (if truthy v then Fits v else Centred l)\<rparr>)))
              (\<lambda>s. case bind_sum (if truthy (fld place ''address_components'') \<and> (l = JUndef \<or> l = JNull) then Inl TypeError else Inr l)
                    (formAddr (fld place ''name'') (fld place ''address_components'')) of
                 Inl e \<Rightarrow> pg (raise e) s
               | Inr c \<Rightarrow> seqg (on_mapg (show_info_g x c)) (seqg (pg (upPlan_g x place)) (rendDirect_g dis)) s) t)"
      using thrown_current [OF t] m t thrown_current end_current
      by (auto split: sum.split prod.split intro!: seqg_current)
  qed
qed

interpretation shown: machine "indexg_step dis" "current_while dis th" for dis th
proof
  fix s e assume "current_while dis th s"
  then show "current_while dis th (indexg_step dis e s)"
    using dragged_current chosen_current quiet_current [OF quiet_step]
    by (cases e) (simp_all del: indexg_step.simps(1-14,17-19))
qed

text \<open>
  C30. On this page the distance keeps up with the ends, those that were dragged and those that were
  typed, of the start and of the end: whatever happens in whatever order, as long as nothing is
  thrown, the distance shown is that of the two ends a search would send.
\<close>

theorem distance_is_current:
  assumes "\<not> truthy (get_plan ''sll'' (ig_page s)) \<or> \<not> truthy (get_plan ''ell'' (ig_page s))"
    "thrown (ig_page (fold (indexg_step dis) es s)) = thrown (ig_page s)"
    "truthy (get_plan ''sll'' (ig_page (fold (indexg_step dis) es s)))" "truthy (get_plan ''ell'' (ig_page (fold (indexg_step dis) es s)))"
  shows "e_html (dom (ig_page (fold (indexg_step dis) es s)) IxKm) =
    (utf8 [231, 186, 166, 32]) @ dis (get_plan ''sll'' (ig_page (fold (indexg_step dis) es s))) (get_plan ''ell'' (ig_page (fold (indexg_step dis) es s))) @ (utf8 [32, 229, 141, 131, 231, 177, 179])"
proof -
  have "current_while dis (thrown (ig_page s)) s" using assms(1) by (auto simp: current_while_def current_def)
  from shown.run_inv [OF this, of es] show ?thesis using assms(2-4) by (simp add: current_while_def current_def)
qed


definition place_found :: "jsv \<Rightarrow> jsv \<Rightarrow> jsv" where
  "place_found lat lng = JObj [(''name'', JStr ''p''), (''formatted_address'', JStr ''a''), (''address_components'', JArr []),
     (''geometry'', JObj [(''location'', JObj [(''lat'', lat), (''lng'', lng)])])]"

definition fresh_indexg :: indexg where
  "fresh_indexg = initMap_g None \<lparr>ig_page = fresh_index, ig_map = None\<rparr>"

lemma chosen_place:
  assumes "ig_map s = Some m"
  shows "\<exists>m. ig_map (autoChanged_g dis x (place_found (jint a) (jint b)) s) = Some m"
    "thrown (ig_page (autoChanged_g dis x (place_found (jint a) (jint b)) s)) = thrown (ig_page s)"
    "get_plan k (ig_page (autoChanged_g dis x (place_found (jint a) (jint b)) s)) =
      (if k = ends x ''ll'' then JArr [jint a, jint b] else if k = ends x ''addr'' then JStr ''a'' else get_plan k (ig_page s))"
proof -
  let ?p = "place_found (jint a) (jint b)"
  obtain c where c: "formAddr (fld ?p ''name'') (fld ?p ''address_components'') (JObj [(''lat'', jint a), (''lng'', jint b)]) = Inr c"
    by (simp add: formAddr_def place_found_def jint_def)
  have g: "getCityByGeoresult ?p = Inr (Found JNull, [])"
    by (simp add: getCityByGeoresult_def place_found_def geo_loop.simps city_get_def)
  have l: "loc_of ?p = Inr (JObj [(''lat'', jint a), (''lng'', jint b)])" by (simp add: loc_of_def place_found_def)
  have null: "\<not> is_type ''Object'' JNull" by code_simp
  have u: "upPlan_g x ?p q = set_plan (ends x ''addr'') (JStr ''a'') (set_plan (ends x ''ll'') (JArr [jint a, jint b]) q)" for q
    by (simp add: upPlan_g_def l g ig_search_def upPlan_g_city_def null) (simp add: place_found_def)
  obtain m' where e: "autoChanged_g dis x ?p s = rendDirect_g dis (s\<lparr>ig_map := Some m', ig_page := upPlan_g x ?p (ig_page s)\<rparr>)"
  proof -
    have "autoChanged_g dis x ?p s = rendDirect_g dis (s\<lparr>ig_map := Some (show_info_g x c (place_marker x (JObj [(''lat'', jint a), (''lng'', jint b)])
        (m\<lparr>mg_open := None, mg_view := Centred (JObj [(''lat'', jint a), (''lng'', jint b)])\<rparr>))), ig_page := upPlan_g x ?p (ig_page s)\<rparr>)"
      using assms c u by (simp add: autoChanged_g_def seqg_def on_mapg_def pg_def Let_def place_found_def)
    then show thesis by (rule that)
  qed
  have r: "thrown (ig_page (rendDirect_g dis t)) = thrown (ig_page t)" "\<exists>m. ig_map (rendDirect_g dis t) = Some m"
    "get_plan k (ig_page (rendDirect_g dis t)) = get_plan k (ig_page t)" if "ig_map t = Some n" for t n
    using that by (simp_all add: rendDirect_g_def on_mapg_def Let_def)
  show "\<exists>m. ig_map (autoChanged_g dis x ?p s) = Some m" "thrown (ig_page (autoChanged_g dis x ?p s)) = thrown (ig_page s)"
    unfolding e by (simp_all add: r u)
  show "get_plan k (ig_page (autoChanged_g dis x ?p s)) =
      (if k = ends x ''ll'' then JArr [jint a, jint b] else if k = ends x ''addr'' then JStr ''a'' else get_plan k (ig_page s))"
    unfolding e using r(3) [of "s\<lparr>ig_map := Some m', ig_page := upPlan_g x ?p (ig_page s)\<rparr>"] unfolding u by (cases x) simp_all
qed

theorem distance_is_current_witness:
  "let s = fold (indexg_step (\<lambda>p q. to_str p @ '' '' @ to_str q))
      [GChosen S (place_found (jint 1) (jint 2)), GChosen E (place_found (jint 3) (jint 4)), GChosen S (place_found (jint 5) (jint 6))] fresh_indexg
   in e_html (dom (ig_page s) IxKm) = (utf8 [231, 186, 166, 32]) @ ''5,6 3,4'' @ (utf8 [32, 229, 141, 131, 231, 177, 179])"
proof -
  define s where "s = fold (indexg_step (\<lambda>p q. to_str p @ '' '' @ to_str q))
      [GChosen S (place_found (jint 1) (jint 2)), GChosen E (place_found (jint 3) (jint 4)), GChosen S (place_found (jint 5) (jint 6))] fresh_indexg"
   have f: "thrown (ig_page fresh_indexg) = []" "get_plan ''sll'' (ig_page fresh_indexg) = JUndef"
    by (simp_all add: fresh_indexg_def fresh_index_def get_plan_def)
  have strs: "to_str (JArr [jint 5, jint 6]) = ''5,6''" "to_str (JArr [jint 3, jint 4]) = ''3,4''" by code_simp+
  obtain m where m0: "ig_map fresh_indexg = Some m" by (simp add: fresh_indexg_def initMap_g_def Let_def)
  define dis :: "jsv \<Rightarrow> jsv \<Rightarrow> string" where "dis = (\<lambda>p q. to_str p @ '' '' @ to_str q)"
  define es where "es = [GChosen S (place_found (jint 1) (jint 2)), GChosen E (place_found (jint 3) (jint 4)), GChosen S (place_found (jint 5) (jint 6))]"
  have sd: "s = fold (indexg_step dis) es fresh_indexg" by (simp add: s_def dis_def es_def)
  define s1 where "s1 = autoChanged_g dis S (place_found (jint 1) (jint 2)) fresh_indexg"
  define s2 where "s2 = autoChanged_g dis E (place_found (jint 3) (jint 4)) s1"
  note c1 = chosen_place [OF m0, where dis = dis and x = S and a = 1 and b = 2, folded s1_def]
  obtain m1 where m1: "ig_map s1 = Some m1" using c1(1) by blast
  note c2 = chosen_place [OF m1, where dis = dis and x = E and a = 3 and b = 4, folded s2_def]
  obtain m2 where m2: "ig_map s2 = Some m2" using c2(1) by blast
  note c3 = chosen_place [OF m2, where dis = dis and x = S and a = 5 and b = 6]
  have s: "s = autoChanged_g dis S (place_found (jint 5) (jint 6)) s2" by (simp add: s_def s1_def s2_def dis_def)
  note f
  moreover have "thrown (ig_page s) = []" using c1(2) c2(2) c3(2) f by (simp add: s)
  moreover have "get_plan ''sll'' (ig_page s) = JArr [jint 5, jint 6]" "get_plan ''ell'' (ig_page s) = JArr [jint 3, jint 4]"
    using c1(3) c2(3) c3(3) by (simp_all add: s)
  ultimately have "e_html (dom (ig_page s) IxKm) = (utf8 [231, 186, 166, 32]) @ dis (JArr [jint 5, jint 6]) (JArr [jint 3, jint 4]) @ (utf8 [32, 229, 141, 131, 231, 177, 179])"
    using distance_is_current [of fresh_indexg dis es, folded sd] by simp
  then show ?thesis unfolding s_def [symmetric] Let_def dis_def strs by simp
qed

text \<open>
  The way that is drawn can fall behind: when the answers to two questions come in the other order,
  the way between the former ends stays, under the distance between the new ones.
\<close>

lemma direct_asks:
  assumes "ig_map s = Some m" "truthy (get_plan ''sll'' (ig_page s))" "truthy (get_plan ''ell'' (ig_page s))"
  shows "ig_map (rendDirect_g dis s) = Some (m\<lparr>mg_asked := mg_asked m @
      [(arr_point (get_plan ''sll'' (ig_page s)), arr_point (get_plan ''ell'' (ig_page s)))]\<rparr>)"
    "ig_page (rendDirect_g dis s) = on IxKm (set_html ((utf8 [231, 186, 166, 32]) @ dis (get_plan ''sll'' (ig_page s)) (get_plan ''ell'' (ig_page s)) @ (utf8 [32, 229, 141, 131, 231, 177, 179]))) (ig_page s)"
  using assms by (simp_all add: rendDirect_g_def on_mapg_def Let_def)

lemma late_way_wins:
  assumes "ig_map s = Some m" "truthy (get_plan ''sll'' (ig_page s))" "truthy (get_plan ''ell'' (ig_page s))" "truthy ll"
  shows "let p = ig_page s; t = rendDirect_g dis (pg (set_plan (ends x ''ll'') ll) (rendDirect_g dis s));
      u = direct_found r1 (JStr ''OK'') (direct_found r2 (JStr ''OK'') t)
    in map_option mg_way (ig_map u) = Some (Some r1) \<and>
       map_option mg_asked (ig_map u) = Some (mg_asked m @ [(arr_point (get_plan ''sll'' p), arr_point (get_plan ''ell'' p)),
         (arr_point (get_plan ''sll'' (ig_page u)), arr_point (get_plan ''ell'' (ig_page u)))]) \<and>
       e_html (dom (ig_page u) IxKm) = (utf8 [231, 186, 166, 32]) @ dis (get_plan ''sll'' (ig_page u)) (get_plan ''ell'' (ig_page u)) @ (utf8 [32, 229, 141, 131, 231, 177, 179])"
proof -
   define q where "q = set_plan (ends x ''ll'') ll (ig_page (rendDirect_g dis s))"
  have s1: "ig_map (rendDirect_g dis s) = Some (m\<lparr>mg_asked := mg_asked m @ [(arr_point (get_plan ''sll'' (ig_page s)), arr_point (get_plan ''ell'' (ig_page s)))]\<rparr>)"
    using direct_asks [OF assms(1-3)] by simp
  have "get_plan k (ig_page (rendDirect_g dis s)) = get_plan k (ig_page s)" for k
    using direct_asks [OF assms(1-3)] by simp
  then have q: "truthy (get_plan ''sll'' q)" "truthy (get_plan ''ell'' q)"
    using assms(2-4) by (cases x; simp add: q_def)+
  define t where "t = rendDirect_g dis (pg (set_plan (ends x ''ll'') ll) (rendDirect_g dis s))"
  note t = direct_asks [of "pg (set_plan (ends x ''ll'') ll) (rendDirect_g dis s)", unfolded pg_simps, OF s1, folded q_def, OF q]
  have u: "direct_found r1 (JStr ''OK'') (direct_found r2 (JStr ''OK'') t) = t\<lparr>ig_map := map_option (\<lambda>m. m\<lparr>mg_way := Some r1\<rparr>) (ig_map t)\<rparr>"
    using t by (simp add: direct_found_def on_mapg_def t_def)
  show ?thesis unfolding Let_def t_def [symmetric] u by (simp add: t t_def)
qed

text \<open>
  The map is made in one place only: when the server names a place that cannot be read the page
  stays without one, and every search throws before anything is sent.
\<close>

lemma no_map_step:
  assumes "ig_map s = None" "\<And>d. e \<noteq> GIp d"
  shows "ig_map (indexg_step dis e s) = None"
proof -
  have m: "ig_map (on_mapg f t) = None" if "ig_map t = None" for f t using that by (simp add: on_mapg_def)
  have q: "ig_map (seqg f g t) = None" if "ig_map t = None" "\<And>t. ig_map t = None \<Longrightarrow> ig_map (f t) = None" "\<And>t. ig_map t = None \<Longrightarrow> ig_map (g t) = None" for f g t
    using that by (simp add: seqg_def Let_def)
  have p: "ig_map (rendPlan_g k t) = None" if "ig_map t = None" for k t
    using that by (auto simp: rendPlan_g_def split: sum.splits intro!: q m)
  have d: "ig_map (rendDirect_g dis t) = None" if "ig_map t = None" for t using that by (auto simp: rendDirect_g_def Let_def intro!: m)
  show ?thesis
  proof (cases e)
    case (GDragged x r st)
    then show ?thesis using assms(1) by (auto simp: markDraged_g_def Let_def split: sum.splits intro!: q m d)
  next
    case (GChosen x pl)
    then show ?thesis using assms(1) unfolding GChosen indexg_step.simps autoChanged_g_def
      by (intro q) (auto split: sum.split prod.split intro!: q m d)
  next
    case (GMatch r)
    then show ?thesis using assms(1) by (auto simp: matchPlan_g_reply_def Let_def intro!: p)
  qed (use assms in \<open>auto simp: onready_g_def matchPlan_g_def step_click_g_def direct_found_def close_info_g_def
      split: option.splits intro!: q m p\<close>)
qed

lemma search_without_map:
  assumes "dbpoint2ll (fld c ''geopos'') = Inl e" "is_type ''Object'' c" "ig_map s = None" "\<And>d. GIp d \<notin> set es"
  shows "let t = fold (indexg_step dis) es (onready_g_reply (JObj [(''success'', jint 1), (''city'', c)]) s)
    in thrown (ig_page (matchPlan_g dis t)) = thrown (ig_page t) @ [TypeError] \<and> reqs (ig_page (matchPlan_g dis t)) = reqs (ig_page t)"
proof -
  have "ig_map (onready_g_reply (JObj [(''success'', jint 1), (''city'', c)]) s) = None"
    using assms(1-3) by (simp add: onready_g_reply_def)
  then have "ig_map (fold (indexg_step dis) es (onready_g_reply (JObj [(''success'', jint 1), (''city'', c)]) s)) = None"
    using assms(4) by (induction es arbitrary: s rule: rev_induct) (auto intro!: no_map_step)
  then show ?thesis by (simp add: Let_def matchPlan_g_def seqg_def on_mapg_def throw_def)
qed

end
