(* ===== verification/OldChat.thy ===== *)
theory OldChat
  imports Chat Forms
begin

text \<open>
  Two older parts of the chat site: \<open>ape/app/livecs_uninstanceable.js\<close>, the client of the chat server
  before \<open>livecs.js\<close>, and \<open>okol/okol.js\<close>, the page with the figures of the visits.

  Of the chat server's library (APE) a pipe is its public id.  Whether \<open>getPipe\<close> finds the pipe it is asked for is up to the
  library at that moment: every event that asks it says so (\<open>found\<close>).  \<open>getSession\<close> answers by the event \<open>ORestored\<close>,
  and \<open>clearSession\<close> leaves no session.  The cookies of MooTools are a jar from names to values.
\<close>

subsection \<open>The former client\<close>

record old_chat =
  oc_aname :: jsv
  oc_uname :: string
  oc_utime :: jnum
  oc_jar :: "string \<rightharpoonup> string"
  oc_restore :: bool
  oc_public :: "string option"
  oc_current :: "string option"
  oc_session :: "string option"
  oc_sent :: "command list"
  oc_throws :: nat

text \<open>What the page hands over: its settings, the site, a random word, and whether a session goes on.\<close>

record old_opts =
  oo_aname :: jsv
  oo_domain :: string
  oo_word :: string
  oo_restore :: bool

definition add_one :: "jnum \<Rightarrow> jnum" where
  "add_one n = (case n of Fin q \<Rightarrow> Fin (q + 1) | _ \<Rightarrow> n)"

(* src/pop/fly/js/ape/app/livecs_uninstanceable.js:7-50 initialize *)
definition old_initialize :: "old_opts \<Rightarrow> (string \<rightharpoonup> string) \<Rightarrow> old_chat" where
  "old_initialize opts jar =
     (let (uname, jar1) = (case jar ''lcs_uname'' of
            Some v \<Rightarrow> (v, jar)
          | None \<Rightarrow> (oo_word opts, jar(''lcs_uname'' \<mapsto> oo_word opts)));
          (utime, jar2) = (case jar1 ''lcs_utime'' of
            Some v \<Rightarrow>
              if v = [] then (Fin 1, jar1(''lcs_utime'' \<mapsto> ''1''))
              else (let n = add_one (parseInt v)
                    in (n, if oo_restore opts then jar1 else jar1(''lcs_utime'' \<mapsto> num_str n)))
          | None \<Rightarrow> (Fin 1, jar1(''lcs_utime'' \<mapsto> ''1'')))
      in \<lparr>oc_aname = js_or (oo_aname opts) (JStr (oo_domain opts)), oc_uname = uname, oc_utime = utime, oc_jar = jar2,
          oc_restore = oo_restore opts, oc_public = None, oc_current = None, oc_session = None, oc_sent = [], oc_throws = 0\<rparr>)"

definition oc_send :: "string \<Rightarrow> (string \<times> jsv) list \<Rightarrow> old_chat \<Rightarrow> old_chat" where
  "oc_send name ps s = s\<lparr>oc_sent := oc_sent s @ [\<lparr>co_name = name, co_params = ps, co_pipe = None\<rparr>]\<rparr>"

definition oc_throw :: "old_chat \<Rightarrow> old_chat" where
  "oc_throw s = s\<lparr>oc_throws := oc_throws s + 1\<rparr>"

(* src/pop/fly/js/ape/app/livecs_uninstanceable.js:52-65 start *)
definition old_start :: "old_chat \<Rightarrow> old_chat" where
  "old_start s =
     (let s1 = oc_send ''start'' [(''uin'', JStr (oc_uname s))] s
      in if oc_restore s then oc_send ''getSession'' [(''currentPipe'', JUndef)] s1
         else oc_send ''LCS_JOIN'' [(''aname'', oc_aname s), (''utime'', JNum (oc_utime s))] s1)"

(* src/pop/fly/js/ape/app/livecs_uninstanceable.js:67-71 setCurrentPipe *)
definition setCurrentPipe :: "bool \<Rightarrow> string \<Rightarrow> old_chat \<Rightarrow> old_chat" where
  "setCurrentPipe found pubid s = s\<lparr>oc_current := (if found then Some pubid else None), oc_session := Some pubid\<rparr>"

text \<open>The library has no \<open>lcsPipeName\<close>, the client has: a name is compared with \<open>undefined\<close>.\<close>

(* src/pop/fly/js/ape/app/livecs_uninstanceable.js:78-86 pipeCreate *)
definition pipeCreate :: "bool \<Rightarrow> jsv \<Rightarrow> string \<Rightarrow> string \<Rightarrow> old_chat \<Rightarrow> old_chat" where
  "pipeCreate found ape_pipe_name name pubid s =
     (if loose_eq (JStr (map lower name)) ape_pipe_name then
        (let s1 = s\<lparr>oc_public := Some pubid\<rparr>
         in if oc_current s1 = None then setCurrentPipe found pubid s1 else s1)
      else s)"

(* src/pop/fly/js/ape/app/livecs_uninstanceable.js:88-93 createUser *)
definition old_createUser :: "bool \<Rightarrow> jsv \<Rightarrow> string \<Rightarrow> old_chat \<Rightarrow> old_chat" where
  "old_createUser found pipe_props pubid s = (if truthy (fld pipe_props ''isadmin'') then setCurrentPipe found pubid s else s)"

(* src/pop/fly/js/ape/app/livecs_uninstanceable.js:95-100 deleteUser *)
definition old_deleteUser :: "bool \<Rightarrow> jsv \<Rightarrow> string \<Rightarrow> old_chat \<Rightarrow> old_chat" where
  "old_deleteUser found pipe_props pubid s =
     (if truthy (fld pipe_props ''isadmin'') then
        (case oc_public s of None \<Rightarrow> oc_throw s | Some p \<Rightarrow> setCurrentPipe found p s)
      else s)"

(* src/pop/fly/js/ape/app/livecs_uninstanceable.js:102-109 rawLcsIdent *)
definition rawLcsIdent :: "string \<Rightarrow> jsv \<Rightarrow> old_chat \<Rightarrow> old_chat" where
  "rawLcsIdent href data s =
     (case bind_sum (js_get data ''user'') (\<lambda>u. bind_sum (js_get u ''properties'') (\<lambda>p. js_get p ''jid'')) of
        Inl e \<Rightarrow> oc_throw s
      | Inr j \<Rightarrow>
          (let jid = JNum (parseInt (to_str j))
           in if truthy jid \<and> oc_restore s then
                oc_send ''LCS_VISIT'' [(''jid'', jid), (''url'', JStr href), (''title'', JUndef)] s
              else s))"

text \<open>A message is taken apart and dropped.\<close>

(* src/pop/fly/js/ape/app/livecs_uninstanceable.js:111-119 rawLcsData *)
definition old_rawLcsData :: "string \<Rightarrow> jsv \<Rightarrow> old_chat \<Rightarrow> old_chat" where
  "old_rawLcsData pubid data s =
     (if oc_current s = Some pubid then
        (case bind_sum (js_get data ''from'') uin_of of Inl e \<Rightarrow> oc_throw s | Inr u \<Rightarrow> s)
      else s)"

text \<open>An error of the server, by its code.\<close>

(* src/pop/fly/js/ape/app/livecs_uninstanceable.js:39-42 initialize, the errors *)
definition old_error :: "string \<Rightarrow> old_chat \<Rightarrow> old_chat" where
  "old_error code s = (if code \<in> {''110'', ''111'', ''112'', ''113''} then s\<lparr>oc_session := None\<rparr> else s)"

datatype old_ev =
    OLoad | ORestored bool string | OPipe bool string string | OJoin bool jsv string | OLeft bool jsv string
  | OIdent string jsv | OData string jsv | OError string

(* src/pop/fly/js/ape/app/livecs_uninstanceable.js:36-48 initialize, the handlers *)
fun old_step :: "old_ev \<Rightarrow> old_chat \<Rightarrow> old_chat" where
  "old_step OLoad = old_start"
| "old_step (ORestored found p) = setCurrentPipe found p"
| "old_step (OPipe found name p) = pipeCreate found JUndef name p"
| "old_step (OJoin found props p) = old_createUser found props p"
| "old_step (OLeft found props p) = old_deleteUser found props p"
| "old_step (OIdent href d) = rawLcsIdent href d"
| "old_step (OData p d) = old_rawLcsData p d"
| "old_step (OError code) = old_error code"

text \<open>The states a page can get into.\<close>

inductive old_reach :: "old_chat \<Rightarrow> old_chat \<Rightarrow> bool" for s0 where
  old_begin: "old_reach s0 s0"
| old_next: "old_reach s0 s \<Longrightarrow> old_reach s0 (old_step e s)"


subsection \<open>The figures of the visits\<close>

(* src/pop/fly/js/okol/okol.js:5-15 init *)
datatype okol_el = OkType | OkTimes | OkTimee

text \<open>
  \<open>ok_plots\<close> is what was drawn, \<open>ok_tips\<close> the tooltips in the page.  A point of the plot is an array
  and is compared by its identity, a number.
\<close>

record okol = "okol_el page" +
  ok_data :: jsv
  ok_plots :: "jsv list"
  ok_point :: "nat option"
  ok_tips :: "string list"

(* src/pop/fly/js/okol/okol.js:54-64 flotRend *)
definition flotRend :: "jsv \<Rightarrow> okol \<Rightarrow> okol" where
  "flotRend data s = s\<lparr>ok_plots := ok_plots s @ [JArr [data]]\<rparr>"

(* src/pop/fly/js/okol/okol.js:17-28 onready, once the figures are there *)
definition okol_ready :: "jsv \<Rightarrow> okol \<Rightarrow> okol" where
  "okol_ready stdata s = (let t = s\<lparr>ok_data := stdata\<rparr> in flotRend (ok_data t) t)"

(* src/pop/fly/js/okol/okol.js:38-43 getStat *)
definition getStat :: "okol \<Rightarrow> okol" where
  "getStat s = send GET ''/json/okol''
     [(''type'', JStr (e_val (dom s OkType))), (''tms'', JStr (e_val (dom s OkTimes))), (''tme'', JStr (e_val (dom s OkTimee)))] s"

text \<open>The new array is filled in place, so what came before an entry that throws stays.\<close>

fun okol_rows :: "jsv list \<Rightarrow> jsv list \<Rightarrow> jsv list \<times> bool" where
  "okol_rows [] acc = (acc, True)"
| "okol_rows (v # vs) acc =
     (case js_get v ''intime'' of Inl e \<Rightarrow> (acc, False) | Inr t \<Rightarrow> okol_rows vs (acc @ [JArr [t, fld v ''count'']]))"

(* src/pop/fly/js/okol/okol.js:43-51 getStat, its callback *)
definition getStat_reply :: "jsv \<Rightarrow> okol \<Rightarrow> okol" where
  "getStat_reply data s =
     (if data = JUndef \<or> data = JNull then throw s
      else case fld data ''sts'' of
        JArr sts \<Rightarrow>
          if is_one (fld data ''success'') then
            (let (rows, ok) = okol_rows sts []; t = s\<lparr>ok_data := JArr rows\<rparr>
             in if ok then flotRend (JArr rows) t else throw t)
          else s
      | _ \<Rightarrow> s)"

text \<open>\<open>day x\<close> is the date of a time in milliseconds; \<open>$('#tooltip').remove()\<close> finds the first one.\<close>

record plot_item =
  it_point :: nat
  it_x :: jsv
  it_y :: jsv

(* src/pop/fly/js/okol/okol.js:66-107 flotOver *)
definition flotOver :: "(jsv \<Rightarrow> string) \<Rightarrow> string \<Rightarrow> plot_item option \<Rightarrow> okol \<Rightarrow> okol" where
  "flotOver day selected item s =
     (case item of
        Some it \<Rightarrow>
          if ok_point s \<noteq> Some (it_point it) then
            s\<lparr>ok_point := Some (it_point it),
              ok_tips := drop 1 (ok_tips s) @ [selected @ '': '' @ day (it_x it) @ '' = '' @ to_str (it_y it)]\<rparr>
          else s
      | None \<Rightarrow> s\<lparr>ok_tips := drop 1 (ok_tips s), ok_point := None\<rparr>)"

datatype okol_ev = KTyped okol_el string | KStdata jsv | KDo | KStats jsv | KOver string "plot_item option"

(* src/pop/fly/js/okol/okol.js:30-36 bindClick *)
fun okol_step :: "(jsv \<Rightarrow> string) \<Rightarrow> okol_ev \<Rightarrow> okol \<Rightarrow> okol" where
  "okol_step day (KTyped i v) = on i (set_val v)"
| "okol_step day (KStdata d) = okol_ready d"
| "okol_step day KDo = getStat"
| "okol_step day (KStats d) = getStat_reply d"
| "okol_step day (KOver sel it) = flotOver day sel it"

subsection \<open>Lemmas\<close>

lemma oc_frame [simp]:
  "oc_public (oc_send n ps s) = oc_public s" "oc_current (oc_send n ps s) = oc_current s"
  "oc_public (oc_throw s) = oc_public s" "oc_current (oc_throw s) = oc_current s"
  "oc_public (setCurrentPipe found p s) = oc_public s"
  "oc_current (setCurrentPipe found p s) = (if found then Some p else None)"
  "oc_restore (oc_send n ps s) = oc_restore s" "oc_jar (oc_send n ps s) = oc_jar s"
  by (simp_all add: oc_send_def oc_throw_def setCurrentPipe_def)

lemma old_start_frame [simp]: "oc_public (old_start s) = oc_public s" "oc_current (old_start s) = oc_current s"
  by (simp_all add: old_start_def Let_def)

lemma ident_frame [simp]: "oc_public (rawLcsIdent h d s) = oc_public s" "oc_current (rawLcsIdent h d s) = oc_current s"
  by (simp_all add: rawLcsIdent_def Let_def split: sum.split)

lemma data_frame [simp]: "oc_public (old_rawLcsData p d s) = oc_public s" "oc_current (old_rawLcsData p d s) = oc_current s"
  by (simp_all add: old_rawLcsData_def split: sum.split)

lemma error_frame [simp]: "oc_public (old_error c s) = oc_public s" "oc_current (old_error c s) = oc_current s"
  by (simp_all add: old_error_def)

text \<open>No pipe is ever taken for the public one.\<close>

lemma pipeCreate_nothing: "pipeCreate found JUndef name p s = s"
  by (simp add: pipeCreate_def)

lemma public_step: "oc_public s = None \<Longrightarrow> oc_public (old_step e s) = None"
  by (cases e) (simp_all add: pipeCreate_nothing old_createUser_def old_deleteUser_def)

lemma old_initialize_facts [simp]:
  "oc_public (old_initialize opts jar) = None" "oc_current (old_initialize opts jar) = None"
  by (simp_all add: old_initialize_def Let_def split: prod.split)

lemma reach_public: "old_reach (old_initialize opts jar) s \<Longrightarrow> oc_public s = None"
  by (induction rule: old_reach.induct) (simp_all add: public_step)

text \<open>What the client should be: the pipe of the administrator that came last, as the session has it.\<close>

fun last_admin :: "old_ev \<Rightarrow> string option \<Rightarrow> string option" where
  "last_admin (ORestored found p) c = (if found then Some p else None)"
| "last_admin (OJoin found props p) c = (if truthy (fld props ''isadmin'') then if found then Some p else None else c)"
| "last_admin e c = c"

interpretation oldchat: simulation old_step last_admin "\<lambda>s c. oc_public s = None \<and> oc_current s = c"
proof
  fix s :: old_chat and c e assume "oc_public s = None \<and> oc_current s = c"
  then show "oc_public (old_step e s) = None \<and> oc_current (old_step e s) = last_admin e c"
    using public_step [of s e]
    by (cases e) (simp_all add: pipeCreate_nothing old_createUser_def old_deleteUser_def)
qed

text \<open>The tooltips: none when the mouse is on no point, one when it is on one.\<close>

definition one_tip :: "okol \<Rightarrow> bool" where
  "one_tip s \<longleftrightarrow> length (ok_tips s) = (if ok_point s = None then 0 else 1)"

lemma one_tip_frame [simp]:
  "one_tip (on i f s) = one_tip s" "one_tip (send h u ps s) = one_tip s" "one_tip (throw s) = one_tip s"
  "one_tip (s\<lparr>ok_data := d\<rparr>) = one_tip s" "one_tip (flotRend d s) = one_tip s"
  by (simp_all add: one_tip_def on_def send_def throw_def raise_def flotRend_def)

lemma one_tip_step: "one_tip s \<Longrightarrow> one_tip (okol_step day e s)"
proof (cases e)
  case (KOver sel it)
  assume "one_tip s"
  then show ?thesis by (cases it; cases "ok_tips s") (auto simp: KOver flotOver_def one_tip_def split: if_splits)
qed (auto simp: okol_ready_def getStat_def getStat_reply_def Let_def split: jsv.split prod.split)

interpretation tips: machine "okol_step day" one_tip for day
  by unfold_locales (rule one_tip_step)

subsection \<open>Properties\<close>

text \<open>
  C33. The pipe of the conversation is that of the administrator who came last, or of the session that was restored since,
  if the library found it when it was asked; whether he has left, and whether the server reported errors,
  makes no difference.
\<close>

theorem last_administrator_is_kept:
  "oc_current (fold old_step es (old_initialize opts jar)) = fold last_admin es None"
  using oldchat.run_rel [of "old_initialize opts jar" None es] by simp

text \<open>
  The administrator cannot leave: in every state a page can reach his departure throws, and
  nothing else changes, because the public pipe to go back to is compared with a name that the library does not have.
\<close>

theorem departure_throws:
  assumes "old_reach (old_initialize opts jar) s" "truthy (fld props ''isadmin'')"
  shows "old_step (OLeft found props p) s = s\<lparr>oc_throws := oc_throws s + 1\<rparr>"
  using assms reach_public [OF assms(1)] by (simp add: old_deleteUser_def oc_throw_def)

definition some_opts :: old_opts where
  "some_opts = \<lparr>oo_aname = JStr ''site'', oo_domain = ''site'', oo_word = ''w'', oo_restore = False\<rparr>"

definition admin_pipe :: jsv where
  "admin_pipe = JObj [(''isadmin'', jint 1)]"

theorem departure_throws_witness:
  "oc_throws (fold old_step [OLoad, OPipe True ''livecspipe_site'' ''p'', OJoin True admin_pipe ''q'', OLeft True admin_pipe ''q''] (old_initialize some_opts Map.empty)) =
   oc_throws (fold old_step [OLoad, OPipe True ''livecspipe_site'' ''p'', OJoin True admin_pipe ''q''] (old_initialize some_opts Map.empty)) + 1"
proof -
  have r: "old_reach s0 (fold old_step es s0)" for es s0
    by (induction es rule: rev_induct) (auto intro: old_reach.intros)
  have "truthy (fld admin_pipe ''isadmin'')" by (simp add: admin_pipe_def)
  from departure_throws [OF r [of "old_initialize some_opts Map.empty" "[OLoad, OPipe True ''livecspipe_site'' ''p'', OJoin True admin_pipe ''q'']"] this, of True "''q''"]
  show ?thesis by (simp del: old_step.simps)
qed

text \<open>The page with the figures never shows two tooltips.\<close>

lemma at_most_one_tooltip: "one_tip s \<Longrightarrow> length (ok_tips (fold (okol_step day) es s)) \<le> 1"
  using tips.run_inv [of s day es] by (simp add: one_tip_def split: if_splits)

text \<open>Visits are counted: the \<open>n\<close>-th new session of a browser finds the number \<open>n\<close>.\<close>

fun visits :: "old_opts \<Rightarrow> nat \<Rightarrow> (string \<rightharpoonup> string) \<Rightarrow> old_chat" where
  "visits opts 0 jar = old_initialize opts jar"
| "visits opts (Suc n) jar = old_initialize opts (oc_jar (visits opts n jar))"

lemma visits_are_counted:
  assumes "\<not> oo_restore opts" "jar ''lcs_utime'' = None"
  shows "oc_utime (visits opts n jar) = Fin (of_nat (n + 1)) \<and> oc_jar (visits opts n jar) ''lcs_utime'' = Some (nat_str (n + 1))"
proof (induction n)
  case 0
  have "nat_str 1 = ''1''" by code_simp
  then show ?case using assms by (simp add: old_initialize_def Let_def split: option.split)
next
  case (Suc n)
  have i: "oc_utime (old_initialize opts j) = Fin (of_nat (k + 1)) \<and> oc_jar (old_initialize opts j) ''lcs_utime'' = Some (nat_str (k + 1))"
    if "j ''lcs_utime'' = Some (nat_str k)" for j k
  proof -
    have "nat_str k \<noteq> []" by simp
    moreover have "add_one (parseInt (nat_str k)) = Fin (of_nat (k + 1))" by (simp add: parseInt_nat_str add_one_def)
    moreover have "num_str (Fin (of_nat (k + 1))) = nat_str (k + 1)" using rat_str_nat [of "k + 1"] by simp
    ultimately show ?thesis using that assms(1) by (auto simp: old_initialize_def Let_def split: option.split)
  qed
  show ?case using i [of "oc_jar (visits opts n jar)" "n + 1"] Suc.IH by simp
qed

end
