(* ===== verification/Thread.thy ===== *)
theory Thread
  imports Forms "HOL-Library.Multiset"
begin

text \<open>
  Comments as a tree: the plugin \<open>lib/js/jquery.mncomment.js\<close> and the page \<open>ksa/tpl/about.js\<close> that was to
  use it.  A block is found by its id, the first one in the document, so a comment goes to the first
  node whose number prints like the number of its parent; one whose parent is not shown is made and
  counted, and is nowhere on the page.
\<close>

subsection \<open>The tree\<close>

record comment =
  cm_id :: jnum
  cm_pid :: jnum
  cm_zid :: jnum
  cm_uname :: jsv
  cm_sn :: jsv
  cm_intime :: jsv
  cm_content :: jsv

text \<open>A block: the number in its id, the comment shown in it (none in the outermost), the blocks within.\<close>

datatype block = Block (b_key: string) (b_item: "comment option") (b_kids: "block list")

text \<open>\<open>x.appendTo($('#cmt_content_' + k))\<close>, or \<open>None\<close> when there is no such block.\<close>

fun put :: "string \<Rightarrow> block \<Rightarrow> block \<Rightarrow> block option" and puts :: "string \<Rightarrow> block \<Rightarrow> block list \<Rightarrow> block list option" where
  "put k x (Block j c bs) =
     (if j = k then Some (Block j c (bs @ [x])) else map_option (Block j c) (puts k x bs))"
| "puts k x [] = None"
| "puts k x (b # bs) =
     (case put k x b of Some b' \<Rightarrow> Some (b' # bs) | None \<Rightarrow> map_option ((#) b) (puts k x bs))"

record thread =
  th_root :: block
  th_num :: nat
  th_pid :: string
  th_zid :: string

definition key :: "jnum \<Rightarrow> string" where
  "key n = num_str n"

definition read_comment :: "jsv \<Rightarrow> js_error + comment" where
  "read_comment v = bind_sum (js_get v ''id'') (\<lambda>i. Inr
     \<lparr>cm_id = parseInt (to_str i), cm_pid = parseInt (to_str (fld v ''pid'')), cm_zid = parseInt (to_str (fld v ''zid'')),
      cm_uname = fld v ''uname'', cm_sn = fld v ''sn'', cm_intime = fld v ''intime'', cm_content = fld v ''content''\<rparr>)"

(* src/lib/js/jquery.mncomment.js:12-45 makeComment, one comment *)
definition make_one :: "comment \<Rightarrow> thread \<Rightarrow> thread" where
  "make_one c t =
     t\<lparr>th_root := (case put (key (cm_pid c)) (Block (key (cm_id c)) (Some c) []) (th_root t) of Some r \<Rightarrow> r | None \<Rightarrow> th_root t),
       th_num := th_num t + 1\<rparr>"

(* src/lib/js/jquery.mncomment.js:11-46 makeComment *)
fun makeComment :: "jsv list \<Rightarrow> thread \<Rightarrow> js_error option \<times> thread" where
  "makeComment [] t = (None, t)"
| "makeComment (v # vs) t = (case read_comment v of Inl e \<Rightarrow> (Some e, t) | Inr c \<Rightarrow> makeComment vs (make_one c t))"

(* src/lib/js/jquery.mncomment.js:2-9 mncomment *)
definition empty_thread :: thread where
  "empty_thread = \<lparr>th_root = Block ''0'' None [], th_num = 0, th_pid = '''', th_zid = ''''\<rparr>"

(* src/lib/js/jquery.mncomment.js:48-51 mncomment *)
definition mncomment :: "jsv list \<Rightarrow> js_error option \<times> thread" where
  "mncomment cmts = makeComment cmts empty_thread"

text \<open>What a comment shows of itself: the line above and the text.\<close>

(* src/lib/js/jquery.mncomment.js:18-29 makeComment, the title *)
definition comment_title :: "comment \<Rightarrow> string" where
  "comment_title c =
     (if num_eq (cm_pid c) (Fin 0) then ''<span class='' @ [CHR 0x27] @ ''cmtSerial'' @ [CHR 0x27] @ ''>'' @ to_str (cm_sn c) @ ''</span>'' else '''') @
     ''<span class='' @ [CHR 0x27] @ ''cmtUser'' @ [CHR 0x27] @ ''>'' @ to_str (cm_uname c) @ ''</span>'' @
     ''<span class='' @ [CHR 0x27] @ ''cmtTime'' @ [CHR 0x27] @ ''>'' @ (utf8 [229, 143, 145, 232, 161, 168, 228, 186, 142, 32]) @ to_str (cm_intime c) @ ''</span>''"

text \<open>The link to reply fills in the form.\<close>

(* src/lib/js/jquery.mncomment.js:31-38 makeComment, the reply *)
definition reply_click :: "comment \<Rightarrow> thread \<Rightarrow> thread" where
  "reply_click c t =
     t\<lparr>th_pid := key (cm_id c), th_zid := (if num_eq (cm_zid c) (Fin 0) then key (cm_id c) else key (cm_zid c))\<rparr>"

subsection \<open>The page\<close>

text \<open>
  \<open>mycomment\<close> is made by \<open>showComment\<close>, whose only call is commented out; to read a variable that was
  never made throws.
\<close>

datatype about_el = AbPid | AbZid

record about = "about_el page" +
  ab_comment :: "thread option"
  ab_box :: bool

(* src/ksa/tpl/about.js:12-22 sucCmtAdd *)
definition sucCmtAdd :: "jsv \<Rightarrow> about \<Rightarrow> about" where
  "sucCmtAdd data s =
     (if data = JUndef \<or> data = JNull then throw s
      else if loose_eq (fld data ''success'') (JStr ''1'') then
        (case ab_comment s of
           None \<Rightarrow> throw s
         | Some t \<Rightarrow>
             (case fld data ''comment'' of
                JArr vs \<Rightarrow>
                  (case makeComment vs t of
                     (Some e, t') \<Rightarrow> raise e (s\<lparr>ab_comment := Some t'\<rparr>)
                   | (None, t') \<Rightarrow> (if vs = [] then throw (s\<lparr>ab_comment := Some t'\<rparr>) else s\<lparr>ab_comment := Some t', ab_box := False\<rparr>))
              | _ \<Rightarrow> throw s))
      else (alert (to_str (js_or (fld data ''errmsg'') (JStr (utf8 [229, 143, 145, 229, 184, 131, 229, 164, 177, 232, 180, 165, 44, 32, 232, 175, 183, 231, 168, 141, 229, 144, 142, 229, 134, 141, 232, 175, 149, 33])))) s)\<lparr>ab_box := False\<rparr>)"

(* src/ksa/tpl/about.js:23-25 errCmtAdd *)
definition errCmtAdd :: "about \<Rightarrow> about" where
  "errCmtAdd = alert (utf8 [230, 147, 141, 228, 189, 156, 229, 164, 177, 232, 180, 165, 33])"

(* src/ksa/tpl/about.js:54-58 reveal *)
definition about_reveal :: "about \<Rightarrow> about" where
  "about_reveal s = (on AbZid (set_val ''0'') (on AbPid (set_val ''0'') s))\<lparr>ab_box := True\<rparr>"

datatype about_ev = AReveal | ASent jsv | AFailed

fun about_step :: "about_ev \<Rightarrow> about \<Rightarrow> about" where
  "about_step AReveal = about_reveal"
| "about_step (ASent d) = sucCmtAdd d"
| "about_step AFailed = errCmtAdd"

subsection \<open>Lemmas: where a comment goes\<close>

fun blocks :: "block \<Rightarrow> block list" where
  "blocks (Block k c bs) = Block k c bs # concat (map blocks bs)"

definition keys :: "block \<Rightarrow> string list" where
  "keys b = map b_key (blocks b)"

definition items :: "block \<Rightarrow> comment list" where
  "items b = List.map_filter b_item (blocks b)"

lemma keys_Block [simp]: "keys (Block k c bs) = k # concat (map keys bs)"
  by (simp add: keys_def [abs_def] map_concat comp_def)

lemma items_Block [simp]: "items (Block k c bs) = (case c of Some x \<Rightarrow> [x] | None \<Rightarrow> []) @ concat (map items bs)"
proof -
  have "List.map_filter b_item (concat (map blocks bs)) = concat (map items bs)"
    by (induction bs) (simp_all add: items_def map_filter_def)
  then show ?thesis by (simp add: items_def map_filter_def split: option.split)
qed

lemma put_None: "put k x b = None \<longleftrightarrow> k \<notin> set (keys b)" "puts k x bs = None \<longleftrightarrow> k \<notin> set (concat (map keys bs))"
  by (induction k x b and k x bs rule: put_puts.induct) (auto split: option.splits)

lemma put_keys:
  "put k x b = Some b' \<Longrightarrow> mset (keys b') = mset (keys b) + mset (keys x)"
  "puts k x bs = Some bs' \<Longrightarrow> mset (concat (map keys bs')) = mset (concat (map keys bs)) + mset (keys x)"
  by (induction k x b and k x bs arbitrary: b' and bs' rule: put_puts.induct) (auto split: if_splits option.splits)

lemma put_items:
  "put k x b = Some b' \<Longrightarrow> mset (items b') = mset (items b) + mset (items x)"
  "puts k x bs = Some bs' \<Longrightarrow> mset (concat (map items bs')) = mset (concat (map items bs)) + mset (items x)"
  by (induction k x b and k x bs arbitrary: b' and bs' rule: put_puts.induct) (auto split: if_splits option.splits)


text \<open>Every block is under the one its comment names.\<close>

definition fits :: "string \<Rightarrow> block \<Rightarrow> bool" where
  "fits k b \<longleftrightarrow> (case b_item b of Some x \<Rightarrow> key (cm_pid x) = k \<and> b_key b = key (cm_id x) | None \<Rightarrow> False)"

fun placed :: "block \<Rightarrow> bool" where
  "placed (Block k c bs) \<longleftrightarrow> list_all (\<lambda>b. fits k b \<and> placed b) bs"

definition leaf :: "comment \<Rightarrow> block" where
  "leaf c = Block (key (cm_id c)) (Some c) []"

lemma leaf_simps [simp]: "b_item (leaf c) = Some c" "b_key (leaf c) = key (cm_id c)" "placed (leaf c)"
    "keys (leaf c) = [key (cm_id c)]" "items (leaf c) = [c]"
  by (simp_all add: leaf_def)

lemma put_top: "put k x b = Some b' \<Longrightarrow> b_item b' = b_item b \<and> b_key b' = b_key b"
  by (cases b) (auto split: if_splits)

lemma fits_put [simp]: "put k x b = Some b' \<Longrightarrow> fits j b' = fits j b"
  by (drule put_top) (auto simp: fits_def split: option.splits)

lemma fits_leaf [simp]: "fits (key (cm_pid c)) (leaf c)"
  by (simp add: fits_def)

lemma put_placed:
  "put k (leaf c) b = Some b' \<Longrightarrow> k = key (cm_pid c) \<Longrightarrow> placed b \<Longrightarrow> placed b'"
  "puts k (leaf c) bs = Some bs' \<Longrightarrow> k = key (cm_pid c) \<Longrightarrow>
     list_all (\<lambda>b. fits j b \<and> placed b) bs \<Longrightarrow> list_all (\<lambda>b. fits j b \<and> placed b) bs'"
  by (induction k "leaf c" b and k "leaf c" bs arbitrary: b' and bs' j rule: put_puts.induct)
    (auto split: if_splits option.splits)

text \<open>The comments that are shown, in the order they come: those whose parent is shown already.\<close>

fun kept :: "string set \<Rightarrow> comment list \<Rightarrow> comment list" where
  "kept K [] = []"
| "kept K (c # cs) = (if key (cm_pid c) \<in> K then c # kept (insert (key (cm_id c)) K) cs else kept K cs)"

lemma make_one_eq: "make_one c t = t\<lparr>th_root := (case put (key (cm_pid c)) (leaf c) (th_root t) of Some r \<Rightarrow> r | None \<Rightarrow> th_root t), th_num := th_num t + 1\<rparr>"
  by (simp add: make_one_def leaf_def)

lemma make_all:
  assumes "placed (th_root t)"
  shows "mset (items (th_root (fold make_one cs t))) = mset (items (th_root t)) + mset (kept (set (keys (th_root t))) cs) \<and>
    placed (th_root (fold make_one cs t)) \<and> th_num (fold make_one cs t) = th_num t + length cs"
  using assms
proof (induction cs arbitrary: t)
  case (Cons c cs)
  show ?case
  proof (cases "put (key (cm_pid c)) (leaf c) (th_root t)")
    case None
    then have "key (cm_pid c) \<notin> set (keys (th_root t))" by (simp add: put_None)
    moreover have "make_one c t = t\<lparr>th_num := th_num t + 1\<rparr>" by (simp add: make_one_eq None)
    ultimately show ?thesis using Cons.IH [of "make_one c t"] Cons.prems by simp
  next
    case (Some r)
    then have "key (cm_pid c) \<in> set (keys (th_root t))" using put_None(1) [of "key (cm_pid c)" "leaf c" "th_root t"] by auto
    moreover have "set (keys r) = insert (key (cm_id c)) (set (keys (th_root t)))"
      using arg_cong [OF put_keys(1) [OF Some], of set_mset] by simp
    moreover have "mset (items r) = mset (items (th_root t)) + {#c#}" using put_items(1) [OF Some] by simp
    moreover have "placed r" using put_placed(1) [OF Some] Cons.prems by simp
    moreover have "th_root (make_one c t) = r" "th_num (make_one c t) = th_num t + 1" by (simp_all add: make_one_eq Some)
    ultimately show ?thesis using Cons.IH [of "make_one c t"] by simp
  qed
qed simp

fun read_all :: "jsv list \<Rightarrow> js_error + comment list" where
  "read_all [] = Inr []"
| "read_all (v # vs) = bind_sum (read_comment v) (\<lambda>c. bind_sum (read_all vs) (\<lambda>cs. Inr (c # cs)))"

lemma makeComment_ok: "read_all vs = Inr cs \<Longrightarrow> makeComment vs t = (None, fold make_one cs t)"
proof (induction vs arbitrary: cs t)
  case (Cons v vs)
  then show ?case by (cases "read_comment v"; cases "read_all vs") auto
qed simp

subsection \<open>Lemmas: threads\<close>

text \<open>Every comment within the block of \<open>r\<close> names \<open>r\<close> as its thread; the outermost ones name none.\<close>

definition in_thread :: "string \<Rightarrow> block \<Rightarrow> bool" where
  "in_thread r b \<longleftrightarrow> (case b_item b of Some x \<Rightarrow> key (cm_zid x) = r | None \<Rightarrow> False)"

fun under :: "string \<Rightarrow> block \<Rightarrow> bool" where
  "under r (Block k c bs) \<longleftrightarrow> list_all (\<lambda>b. in_thread r b \<and> under r b) bs"

definition rooted :: "block \<Rightarrow> bool" where
  "rooted b \<longleftrightarrow> list_all (\<lambda>d. (case b_item d of Some x \<Rightarrow> cm_zid x = Fin 0 | None \<Rightarrow> False) \<and> under (b_key d) d) (b_kids b)"

lemma in_thread_put [simp]: "put k x b = Some b' \<Longrightarrow> in_thread j b' = in_thread j b"
  by (drule put_top) (auto simp: in_thread_def split: option.splits)

lemma put_under:
  "put k (leaf c) b = Some b' \<Longrightarrow> key (cm_zid c) = r \<Longrightarrow> under r b \<Longrightarrow> under r b'"
  "puts k (leaf c) bs = Some bs' \<Longrightarrow> key (cm_zid c) = r \<Longrightarrow>
     list_all (\<lambda>b. in_thread r b \<and> under r b) bs \<Longrightarrow> list_all (\<lambda>b. in_thread r b \<and> under r b) bs'"
  by (induction k "leaf c" b and k "leaf c" bs arbitrary: b' and bs' rule: put_puts.induct)
    (auto simp: leaf_def in_thread_def split: if_splits option.splits dest: put_top)

lemma puts_split:
  "puts k x bs = Some bs' \<Longrightarrow> \<exists>us b vs b'. bs = us @ b # vs \<and> bs' = us @ b' # vs \<and> put k x b = Some b' \<and> k \<notin> set (concat (map keys us))"
proof (induction bs arbitrary: bs')
  case (Cons b bs)
  show ?case
  proof (cases "put k x b")
    case None
    then obtain cs where "puts k x bs = Some cs" "bs' = b # cs" using Cons.prems by auto
    moreover obtain us d vs d' where "bs = us @ d # vs" "cs = us @ d' # vs" "put k x d = Some d'" "k \<notin> set (concat (map keys us))"
      using Cons.IH \<open>puts k x bs = Some cs\<close> by blast
    moreover have "k \<notin> set (keys b)" using None put_None(1) by blast
    ultimately show ?thesis by (intro exI [of _ "b # us"]) auto
  next
    case (Some b')
    then show ?thesis using Cons.prems by (intro exI [of _ "[]"]) auto
  qed
qed simp

text \<open>A comment in a block is found by the key of the block it is in.\<close>

lemma item_key:
  assumes "placed b" "c \<in> set (concat (map items (b_kids b)))"
  shows "key (cm_id c) \<in> set (concat (map keys (b_kids b)))"
  using assms
proof (induction b)
  case (Block k d bs)
  then obtain x where x: "x \<in> set bs" "c \<in> set (items x)" by auto
  obtain y where y: "b_item x = Some y" "b_key x = key (cm_id y)" "placed x"
    using Block.prems(1) x(1) by (auto simp: list_all_iff fits_def split: option.splits)
  have "key (cm_id c) \<in> set (keys x)"
  proof (cases "c = y")
    case True
    then show ?thesis using y by (cases x) auto
  next
    case False
    then have "c \<in> set (concat (map items (b_kids x)))" using x(2) y(1) by (cases x) auto
    then show ?thesis using Block.IH [OF x(1) y(3)] by (cases x) auto
  qed
  then show ?case using x(1) by auto
qed

lemma under_items: "under r b \<Longrightarrow> c \<in> set (concat (map items (b_kids b))) \<Longrightarrow> key (cm_zid c) = r"
proof (induction b)
  case (Block k d bs)
  then obtain x where x: "x \<in> set bs" "c \<in> set (items x)" by auto
  then obtain y where "b_item x = Some y" "key (cm_zid y) = r" "under r x"
    using Block.prems(1) by (auto simp: list_all_iff in_thread_def split: option.splits)
  then show ?case using x Block.IH [of x] by (cases x) auto
qed


lemma keys_split: "distinct (concat (map keys bs)) \<Longrightarrow> b \<in> set bs \<Longrightarrow> d \<in> set bs \<Longrightarrow> k \<in> set (keys b) \<Longrightarrow> k \<in> set (keys d) \<Longrightarrow> b = d"
  by (induction bs) auto

lemma items_cases: "c \<in> set (items b) \<Longrightarrow> b_item b = Some c \<or> c \<in> set (concat (map items (b_kids b)))"
  by (cases b) (auto split: option.splits)

lemma reply_zid:
  assumes "fits k b" "placed b" "under (b_key b) b" "c \<in> set (items b)" "b_key b \<noteq> ''0''"
    and top: "\<And>x. b_item b = Some x \<Longrightarrow> cm_zid x = Fin 0"
  shows "th_zid (reply_click c t) = b_key b"
proof (cases "b_item b = Some c")
  case True
  then show ?thesis using top [OF True] assms(1) by (simp add: reply_click_def fits_def)
next
  case False
  then have z: "key (cm_zid c) = b_key b" using items_cases [OF assms(4)] under_items [OF assms(3)] by blast
  have "cm_zid c \<noteq> Fin 0"
  proof
    assume "cm_zid c = Fin 0"
    moreover have "key (Fin 0) = ''0''" unfolding key_def by code_simp
    ultimately show False using z assms(5) by simp
  qed
  then show ?thesis using z by (cases "cm_zid c") (auto simp: reply_click_def)
qed

lemma block_of_item:
  assumes "placed (Block j i bs)" "distinct (concat (map keys bs))" "c \<in> set (concat (map items bs))" "b \<in> set bs" "key (cm_id c) \<in> set (keys b)"
  shows "c \<in> set (items b)"
proof -
  obtain d where d: "d \<in> set bs" "c \<in> set (items d)" using assms(3) by auto
  have "key (cm_id c) \<in> set (keys d)"
  proof (cases "b_item d = Some c")
    case True
    then have "b_key d = key (cm_id c)" using assms(1) d(1) by (auto simp: list_all_iff fits_def)
    then show ?thesis by (cases d) auto
  next
    case False
    then have "c \<in> set (concat (map items (b_kids d)))" using items_cases [OF d(2)] by blast
    then show ?thesis using item_key [of d c] assms(1) d(1) by (cases d) (auto simp: list_all_iff)
  qed
  then show ?thesis using keys_split [OF assms(2,4) d(1) assms(5)] d(2) by simp
qed

definition well_threaded :: "block \<Rightarrow> bool" where
  "well_threaded b \<longleftrightarrow> b_key b = ''0'' \<and> b_item b = None \<and> placed b \<and> distinct (keys b) \<and> rooted b"

subsection \<open>Properties\<close>

text \<open>
  C31. A list of comments is shown as far as each one comes after its parent: the blocks on the page hold the
  comments whose parent is shown before them, each in the block of its parent, and no others; the count is that of all
  comments of the list.
\<close>

theorem thread_shows_known:
  assumes "read_all vs = Inr cs"
  shows "\<exists>t. mncomment vs = (None, t) \<and> mset (items (th_root t)) = mset (kept {''0''} cs) \<and> placed (th_root t) \<and> th_num t = length cs"
  using makeComment_ok [OF assms, of empty_thread] make_all [of empty_thread cs]
  by (simp add: mncomment_def empty_thread_def)

definition comment_of :: "string \<Rightarrow> string \<Rightarrow> string \<Rightarrow> jsv" where
  "comment_of i p z = JObj [(''id'', JStr i), (''pid'', JStr p), (''zid'', JStr z), (''content'', JStr ''c'')]"

definition comment_rec :: "jnum \<Rightarrow> jnum \<Rightarrow> jnum \<Rightarrow> comment" where
  "comment_rec i p z = \<lparr>cm_id = i, cm_pid = p, cm_zid = z, cm_uname = JUndef, cm_sn = JUndef, cm_intime = JUndef, cm_content = JStr ''c''\<rparr>"

lemma small_keys: "parseInt ''0'' = Fin 0" "parseInt ''1'' = Fin 1" "parseInt ''2'' = Fin 2" "parseInt ''3'' = Fin 3"
    "key (Fin 0) = ''0''" "key (Fin 1) = ''1''" "key (Fin 2) = ''2''" "key (Fin 3) = ''3''"
  unfolding key_def by code_simp+

text \<open>A reply before the comment it replies to is lost, and counted.\<close>

theorem thread_shows_known_witness:
  "\<exists>t. mncomment [comment_of ''2'' ''1'' ''1'', comment_of ''1'' ''0'' ''0'', comment_of ''3'' ''1'' ''1''] = (None, t) \<and>
     mset (items (th_root t)) = {#comment_rec (Fin 1) (Fin 0) (Fin 0), comment_rec (Fin 3) (Fin 1) (Fin 1)#} \<and> th_num t = 3"
proof -
  have "read_all [comment_of ''2'' ''1'' ''1'', comment_of ''1'' ''0'' ''0'', comment_of ''3'' ''1'' ''1''] =
      Inr [comment_rec (Fin 2) (Fin 1) (Fin 1), comment_rec (Fin 1) (Fin 0) (Fin 0), comment_rec (Fin 3) (Fin 1) (Fin 1)]"
    by (simp add: read_comment_def comment_of_def comment_rec_def small_keys)
  from thread_shows_known [OF this] show ?thesis by (auto simp: comment_rec_def small_keys)
qed

text \<open>
  C32. Replying keeps the threads: when every comment below the outermost ones names as its thread the
  outermost one it is under, and a reply is stored as the form was filled in by the link of a
  comment on the page, the reply is shown, and in that thread.
\<close>

theorem reply_keeps_threads:
  assumes "well_threaded (th_root t)" "c \<in> set (items (th_root t))" "key (cm_id n) \<notin> set (keys (th_root t))"
    "key (cm_pid n) = th_pid (reply_click c t)" "key (cm_zid n) = th_zid (reply_click c t)"
  shows "well_threaded (th_root (make_one n t)) \<and> mset (items (th_root (make_one n t))) = add_mset n (mset (items (th_root t)))"
proof -
  obtain bs where r: "th_root t = Block ''0'' None bs" using assms(1) by (cases "th_root t") (auto simp: well_threaded_def)
  define k where "k = key (cm_id c)"
  have p: "key (cm_pid n) = k" using assms(4) by (simp add: reply_click_def k_def)
  have w: "placed (Block ''0'' None bs)" "distinct (concat (map keys bs))" "''0'' \<notin> set (concat (map keys bs))" "rooted (Block ''0'' None bs)"
    using assms(1) by (simp_all add: well_threaded_def r)
  have c: "c \<in> set (concat (map items bs))" using assms(2) by (simp add: r)
  then have kk: "k \<in> set (concat (map keys bs))" using item_key [OF w(1), of c] by (simp add: k_def)
  then obtain bs' where bs': "puts k (leaf n) bs = Some bs'" using put_None(2) [of k "leaf n" bs] by blast
  from puts_split [OF this] obtain us b vs b' where s: "bs = us @ b # vs" "bs' = us @ b' # vs" "put k (leaf n) b = Some b'" by blast
  have m: "th_root (make_one n t) = Block ''0'' None bs'" "put k (leaf n) (th_root t) = Some (Block ''0'' None bs')"
    using bs' kk w(3) by (auto simp: make_one_eq p r)
  have b: "b \<in> set bs" "fits ''0'' b" "placed b" "under (b_key b) b" "\<And>x. b_item b = Some x \<Longrightarrow> cm_zid x = Fin 0"
    using w(1,4) by (auto simp: s(1) rooted_def split: option.splits)
  have kb: "k \<in> set (keys b)" using s(3) put_None(1) [of k "leaf n" b] by auto
  have cb: "c \<in> set (items b)" using block_of_item [OF w(1,2) c b(1)] kb by (simp add: k_def)
  have "b_key b \<in> set (keys b)" by (cases b) simp
  then have "b_key b \<in> set (concat (map keys bs))" using b(1) by auto
  then have "b_key b \<noteq> ''0''" using w(3) by auto
  then have z: "key (cm_zid n) = b_key b" using reply_zid [OF b(2-4) cb _ b(5)] assms(5) by simp
  have t: "b_item b' = b_item b" "b_key b' = b_key b" using put_top [OF s(3)] by simp_all
  have "rooted (Block ''0'' None bs')"
    using w(4) put_under(1) [OF s(3) z b(4)] by (simp add: rooted_def s t)
  moreover have "placed (Block ''0'' None bs')" using put_placed(1) [OF m(2)] p w(1) by (simp add: r)
  moreover have "distinct (keys (Block ''0'' None bs'))"
    using mset_eq_imp_distinct_iff [of "keys (Block ''0'' None bs')" "keys (th_root t) @ [key (cm_id n)]"] put_keys(1) [OF m(2)] assms(1,3)
    by (simp add: well_threaded_def)
  ultimately show ?thesis using put_items(1) [OF m(2)] by (simp add: well_threaded_def m(1))
qed


theorem reply_keeps_threads_witness:
  "let r = comment_rec (Fin 1) (Fin 0) (Fin 0); n = comment_rec (Fin 2) (Fin 1) (Fin 1); t = make_one r empty_thread
   in well_threaded (th_root (make_one n t)) \<and> mset (items (th_root (make_one n t))) = {#r, n#}"
proof -
  define r n t where "r = comment_rec (Fin 1) (Fin 0) (Fin 0)" and "n = comment_rec (Fin 2) (Fin 1) (Fin 1)" and "t = make_one r empty_thread"
  have root: "th_root t = Block ''0'' None [leaf r]"
    by (simp add: t_def make_one_eq empty_thread_def r_def comment_rec_def small_keys leaf_def)
  have w: "well_threaded (th_root t)"
    unfolding root by (simp add: well_threaded_def rooted_def fits_def r_def comment_rec_def small_keys leaf_def)
  have k: "key (cm_id n) \<notin> set (keys (th_root t))"
    unfolding root by (simp add: n_def r_def comment_rec_def small_keys)
  have z: "key (cm_pid n) = th_pid (reply_click r t)" "key (cm_zid n) = th_zid (reply_click r t)"
    by (simp_all add: n_def r_def comment_rec_def reply_click_def small_keys)
  have i: "items (th_root t) = [r]" unfolding root by simp
  show ?thesis using reply_keeps_threads [OF w _ k z] i by (simp add: Let_def add_mset_commute flip: r_def n_def t_def)
qed

text \<open>
  On the page nothing ever makes the tree: every comment that was accepted throws, and the box with
  the form stays open.
\<close>

lemma about_step_none: "ab_comment s = None \<Longrightarrow> ab_comment (about_step e s) = None"
  by (cases e) (auto simp: sucCmtAdd_def errCmtAdd_def about_reveal_def on_def alert_def throw_def raise_def)

interpretation about: machine about_step "\<lambda>s. ab_comment s = None"
  by unfold_locales (rule about_step_none)

lemma accepted_comment_throws:
  assumes "ab_comment s = None" "loose_eq (fld d ''success'') (JStr ''1'')" "d \<noteq> JUndef" "d \<noteq> JNull"
  shows "about_step (ASent d) (fold about_step es s) = throw (fold about_step es s)"
  using about.run_inv [OF assms(1), of es] assms(2-4) by (simp add: sucCmtAdd_def)

end
