(* ===== verification/Plugins.thy ===== *)
theory Plugins
  imports Login Forms Index
begin

text \<open>
  Small plugins and pages: the bubble that covers a page while it waits (\<open>lib/js/deprecated/jquery.flobu.js\<close>),
  lists (\<open>jquery.mnlist.js\<close>), menus (\<open>jquery.mnsuperfish.js\<close>), the bar of extensions
  (\<open>jquery.mnuiplug.js\<close>), suggestions (\<open>jquery.mntips.js\<close>), the page of one route (\<open>plan/info.js\<close>), and
  the parked shop (\<open>memorypark/ksc\<close>).

  Three of the plugins call a function \<open>type\<close> that nothing in the repository declares: it is the
  parameter \<open>ty\<close>, \<open>None\<close> where it is missing, and then the call throws.
\<close>

subsection \<open>The bubble\<close>

text \<open>
  The cover is in the page, fading out, or gone; \<open>fb_flowers\<close> counts who waits.  \<open>fb_base\<close> tells
  whether there is an element to cover.
\<close>

datatype cover = Gone | Up | Fading

record bubble =
  fb_flowers :: nat
  fb_cover :: cover
  fb_base :: bool
  fb_throws :: nat

(* src/lib/js/deprecated/jquery.flobu.js:91-153 enable *)
definition enable :: "bubble \<Rightarrow> bubble" where
  "enable s =
     (let s1 = s\<lparr>fb_flowers := fb_flowers s + 1\<rparr>
      in if fb_cover s1 \<noteq> Gone then s1
         else if \<not> fb_base s1 then s1\<lparr>fb_throws := fb_throws s1 + 1\<rparr>
         else s1\<lparr>fb_cover := Up\<rparr>)"

(* src/lib/js/deprecated/jquery.flobu.js:156-165 disable *)
definition disable :: "bubble \<Rightarrow> bubble" where
  "disable s =
     (if fb_cover s = Gone then s
      else (let s1 = s\<lparr>fb_flowers := fb_flowers s - 1\<rparr>
            in if fb_flowers s1 > 0 then s1 else s1\<lparr>fb_cover := Fading\<rparr>))"

(* src/lib/js/deprecated/jquery.flobu.js:162-164 disable, once it has faded *)
definition faded :: "bubble \<Rightarrow> bubble" where
  "faded s = (if fb_cover s = Fading then s\<lparr>fb_cover := Gone\<rparr> else s)"

datatype bubble_ev = Enable | Disable | Faded

fun bubble_step :: "bubble_ev \<Rightarrow> bubble \<Rightarrow> bubble" where
  "bubble_step Enable = enable"
| "bubble_step Disable = disable"
| "bubble_step Faded = faded"

definition fresh_bubble :: bubble where
  "fresh_bubble = \<lparr>fb_flowers = 0, fb_cover = Gone, fb_base = True, fb_throws = 0\<rparr>"

subsection \<open>Lists\<close>

type_synonym type_fun = "(jsv \<Rightarrow> string) option"

definition call_type :: "type_fun \<Rightarrow> jsv \<Rightarrow> js_error + string" where
  "call_type ty v = (case ty of None \<Rightarrow> Inl ReferenceError | Some f \<Rightarrow> Inr (f v))"

record list_opts =
  lo_title :: string
  lo_time :: string
  lo_click_name :: string
  lo_click_href :: string
  lo_toggle :: bool
  lo_content :: jsv
  lo_make :: "jsv \<Rightarrow> string"

record list_item =
  li_title :: string
  li_time :: string
  li_link :: "string option"
  li_toggle :: bool
  li_content :: "string option"

(* src/lib/js/jquery.mnlist.js:25-56 makeList, one row *)
definition list_row :: "type_fun \<Rightarrow> list_opts \<Rightarrow> jsv \<Rightarrow> js_error + list_item" where
  "list_row ty opts row =
     bind_sum (js_get row (lo_title opts)) (\<lambda>title.
     bind_sum (call_type ty (lo_content opts)) (\<lambda>k.
       Inr \<lparr>li_title = to_str title, li_time = to_str (fld row (lo_time opts)),
            li_link = (if lo_click_name opts = [] then None
              else Some (if lo_click_href opts = [] then ''javascript:void(0);'' else lo_click_href opts)),
            li_toggle = lo_toggle opts,
            li_content = (if k = ''String'' then Some (to_str (fld row (to_str (lo_content opts))))
              else if k = ''Function'' then Some (lo_make opts row) else None)\<rparr>))"

(* src/lib/js/jquery.mnlist.js:22-59 makeList *)
fun makeList :: "type_fun \<Rightarrow> list_opts \<Rightarrow> jsv list \<Rightarrow> js_error + list_item list" where
  "makeList ty opts [] = Inr []"
| "makeList ty opts (r # rs) = bind_sum (list_row ty opts r) (\<lambda>i. bind_sum (makeList ty opts rs) (\<lambda>is. Inr (i # is)))"

text \<open>The list, or nothing when the rows are no array.\<close>

(* src/lib/js/jquery.mnlist.js:2-17 mnlist *)
definition mnlist :: "type_fun \<Rightarrow> list_opts \<Rightarrow> jsv \<Rightarrow> js_error + list_item list option" where
  "mnlist ty opts rows =
     bind_sum (call_type ty rows) (\<lambda>k.
       if k \<noteq> ''Array'' then Inr None
       else case rows of JArr rs \<Rightarrow> map_sum id Some (makeList ty opts rs) | _ \<Rightarrow> Inr (Some []))"

subsection \<open>Menus\<close>

text \<open>The entries of a menu, their addresses and names.\<close>

(* src/lib/js/jquery.mnsuperfish.js:10-16 makemenu *)
fun makemenu :: "jsv list \<Rightarrow> js_error + (string \<times> string) list" where
  "makemenu [] = Inr []"
| "makemenu (a # as) = bind_sum (js_get a ''href'') (\<lambda>h. bind_sum (makemenu as) (\<lambda>m. Inr ((to_str h, to_str (fld a ''name'')) # m)))"

record menu = "unit page" +
  mn_items :: "(string \<times> string) list list"

definition show_menu :: "jsv \<Rightarrow> menu \<Rightarrow> menu" where
  "show_menu actions s = (case actions of
       JArr as \<Rightarrow> (case makemenu as of Inl e \<Rightarrow> raise e s | Inr m \<Rightarrow> s\<lparr>mn_items := mn_items s @ [m]\<rparr>)
     | _ \<Rightarrow> s)"

(* src/lib/js/jquery.mnsuperfish.js:18-24 mnsuperfish *)
definition menu_ask :: "string \<Rightarrow> menu \<Rightarrow> menu" where
  "menu_ask url = send GET url []"

(* src/lib/js/jquery.mnsuperfish.js:26-34 mnsuperfish, the answer *)
definition menu_reply :: "type_fun \<Rightarrow> jsv \<Rightarrow> menu \<Rightarrow> menu" where
  "menu_reply ty data s =
     (case js_get data ''actions'' of
        Inl e \<Rightarrow> raise e s
      | Inr actions \<Rightarrow>
          if loose_eq (fld data ''success'') (JStr ''1'') then
            (case call_type ty actions of
               Inl e \<Rightarrow> raise e s
             | Inr k \<Rightarrow> if k = ''Array'' then show_menu actions s else alert (utf8 [232, 142, 183, 229, 143, 150, 232, 143, 156, 229, 141, 149, 229, 164, 177, 232, 180, 165]) s)
          else alert (utf8 [232, 142, 183, 229, 143, 150, 232, 143, 156, 229, 141, 149, 229, 164, 177, 232, 180, 165]) s)"

(* src/lib/js/jquery.mnsuperfish.js:35-37 mnsuperfish, no answer *)
definition menu_failed :: "menu \<Rightarrow> menu" where
  "menu_failed = alert (utf8 [232, 142, 183, 229, 143, 150, 232, 143, 156, 229, 141, 149, 230, 149, 176, 230, 141, 174, 229, 164, 177, 232, 180, 165])"

(* src/lib/js/jquery.mnsuperfish.js:39-42 mnsuperfish, entries of the page *)
definition menu_static :: "type_fun \<Rightarrow> jsv \<Rightarrow> menu \<Rightarrow> menu" where
  "menu_static ty actions s = (case call_type ty actions of
       Inl e \<Rightarrow> raise e s
     | Inr k \<Rightarrow> if k = ''Array'' then show_menu actions s else s)"

subsection \<open>The bar of extensions\<close>

record plug = "unit page" +
  pl_bar :: "(string \<times> string) list option"

(* src/lib/js/jquery.mnuiplug.js:2-13 atom_firsttab, tjt_atomadd, tjt_dcadmin *)
definition plug_tab :: "string \<Rightarrow> (string \<times> string) option" where
  "plug_tab name = map_of
     [(''atom_firsttab'', (''/null.html'', (utf8 [231, 174, 161, 231, 144, 134, 232, 143, 156, 229, 141, 149]))),
      (''tjt_atomadd'', (''/uiplug/tjt/up.atomadd.html'', (utf8 [232, 180, 167, 231, 137, 169, 228, 184, 138, 230, 158, 182]))),
      (''tjt_dcadmin'', (''/uiplug/tjt/up.dcadmin.html'', (utf8 [233, 128, 129, 232, 180, 167, 231, 130, 185, 231, 174, 161, 231, 144, 134])))] name"

text \<open>\<open>eval(name)\<close>: here the three functions beside it; another name that is nowhere throws.\<close>

(* src/lib/js/jquery.mnuiplug.js:15-30 uiplugMole *)
definition uiplugMole :: "type_fun \<Rightarrow> jsv \<Rightarrow> plug \<Rightarrow> plug" where
  "uiplugMole ty name s =
     (let s1 = (case pl_bar s of None \<Rightarrow> s\<lparr>pl_bar := map_option (\<lambda>t. [t]) (plug_tab ''atom_firsttab'')\<rparr> | Some _ \<Rightarrow> s)
      in case call_type ty name of
           Inl e \<Rightarrow> raise e s1
         | Inr k \<Rightarrow>
             if k = ''String'' then
               (case plug_tab (to_str name) of
                  None \<Rightarrow> raise ReferenceError s1
                | Some t \<Rightarrow> s1\<lparr>pl_bar := map_option (\<lambda>ts. ts @ [t]) (pl_bar s1)\<rparr>)
             else s1)"

subsection \<open>Suggestions\<close>

record tips =
  tp_rows :: "(jsv \<times> string list) list"
  tp_shown :: bool
  tp_clicked :: "jsv list"
  tp_throws :: nat

text \<open>The rows as they are built, and whether none of them throws.\<close>

fun tip_rows :: "nat list \<Rightarrow> jsv list \<Rightarrow> (jsv \<times> string list) list \<times> bool" where
  "tip_rows cols [] = ([], True)"
| "tip_rows cols (r # rs) =
     (if cols \<noteq> [] \<and> (r = JUndef \<or> r = JNull) then ([(r, [])], False)
      else (let (ts, ok) = tip_rows cols rs in ((r, map (\<lambda>c. to_str (fld r (nat_str c))) cols) # ts, ok)))"

(* src/lib/js/jquery.mntips.js:9-29 kwtips *)
definition kwtips :: "nat list \<Rightarrow> jsv list \<Rightarrow> tips \<Rightarrow> tips" where
  "kwtips cols rows t =
     (let (ts, ok) = tip_rows cols rows; t1 = t\<lparr>tp_rows := ts\<rparr>
      in if ok then t1\<lparr>tp_shown := True\<rparr> else t1\<lparr>tp_throws := tp_throws t1 + 1\<rparr>)"

(* src/lib/js/jquery.mntips.js:16-19 kwtips, a row *)
definition tip_click :: "nat \<Rightarrow> tips \<Rightarrow> tips" where
  "tip_click i t = (if i < length (tp_rows t) then t\<lparr>tp_shown := False, tp_clicked := tp_clicked t @ [fst (tp_rows t ! i)]\<rparr> else t)"

(* src/lib/js/jquery.mntips.js:12-14 kwtips, the button *)
definition tip_close :: "tips \<Rightarrow> tips" where
  "tip_close t = t\<lparr>tp_shown := False\<rparr>"


subsection \<open>The page of one route\<close>

text \<open>\<open>pi_elems\<close> are the elements the page looked up, by the names it keeps them under.\<close>

record planinfo = "string page" +
  pi_elems :: "string \<rightharpoonup> string"

(* src/dida/fly/js/plan/info.js:5-13 init *)
definition planinfo_init :: "planinfo \<Rightarrow> planinfo" where
  "planinfo_init s = s\<lparr>pi_elems := [''e_plan_from'' \<mapsto> ''plan-from'']\<rparr>"

text \<open>\<open>domains\<close> is declared nowhere.\<close>

(* src/dida/fly/js/plan/info.js:27-36 rendFromPic *)
definition rendFromPic :: "jsv \<Rightarrow> planinfo \<Rightarrow> planinfo" where
  "rendFromPic mgd s =
     (if gt_int (fld mgd ''ori'') 0 then
        (case pi_elems s ''e_mc_from'' of
           None \<Rightarrow> throw s
         | Some el \<Rightarrow>
             raise ReferenceError (if truthy (fld mgd ''ourl'') then on el (set_attr ''href'' (to_str (fld mgd ''ourl''))) s else s))
      else s)"

(* src/dida/fly/js/plan/info.js:15-20 onready, once the data is there *)
definition planinfo_ready :: "jsv \<Rightarrow> planinfo \<Rightarrow> planinfo" where
  "planinfo_ready mgd s = rendFromPic mgd (planinfo_init s)"

subsection \<open>The parked shop\<close>

(* src/memorypark/ksc/htdocs/js/bmoon.ksc.js:5-16 init *)
datatype ksc_el = KsUname | KsGuest | KsMember

text \<open>\<open>ks_wrap\<close> is the content of the overlay with the form to log in, empty until it is loaded.\<close>

record ksc = "ksc_el page" +
  ks_jar :: jar
  ks_wrap :: string
  ks_href :: string
  ks_reloads :: nat

definition ksc_cookie :: options where
  "ksc_cookie = no_options\<lparr>op_path := ''/'', op_domain := ''kossenchem.com''\<rparr>"

(* src/memorypark/ksc/htdocs/js/bmoon.ksc.js:50-63 loginCheck *)
definition ksc_loginCheck :: "ksc \<Rightarrow> ksc" where
  "ksc_loginCheck s = (case get_cookie ''uname'' (ks_jar s) of
       Inl e \<Rightarrow> raise e s
     | Inr (Some v) \<Rightarrow> on KsMember show_el (on KsGuest hide_el (on KsUname (set_text v) s))
     | Inr None \<Rightarrow> on KsGuest show_el (on KsMember hide_el s))"

(* src/memorypark/ksc/htdocs/js/bmoon.ksc.js:41-45 bindClick, the logout *)
definition ksc_logout :: "ksc \<Rightarrow> ksc" where
  "ksc_logout s = ksc_loginCheck (s\<lparr>ks_jar := put_cookie ''usn'' None ksc_cookie (put_cookie ''uname'' None ksc_cookie (ks_jar s))\<rparr>)"

(* src/memorypark/ksc/htdocs/js/bmoon.ksc.js:29-39 bindClick, the overlay *)
definition ksc_overlay :: "ksc \<Rightarrow> ksc" where
  "ksc_overlay s = (if ks_wrap s = [] then send GET (ks_href s) [] s else s)"

definition ksc_loaded :: "string \<Rightarrow> ksc \<Rightarrow> ksc" where
  "ksc_loaded html s = s\<lparr>ks_wrap := html\<rparr>"

(* src/memorypark/ksc/htdocs/js/prd_admin.js:14-19 delprd *)
definition delprd :: "bool \<Rightarrow> jsv \<Rightarrow> ksc \<Rightarrow> ksc" where
  "delprd confirmed idval s = (if confirmed then send GET ''/cgi-bin/prd'' [(''id'', idval), (''op'', JStr ''del'')] s else s)"

(* src/memorypark/ksc/htdocs/js/prd_admin.js:19-27 delprd, its callback *)
definition delprd_reply :: "jsv \<Rightarrow> ksc \<Rightarrow> ksc" where
  "delprd_reply data s =
     (if data = JUndef \<or> data = JNull then throw s
      else if is_one (fld data ''success'') then (let t = alert (utf8 [230, 136, 144, 229, 138, 159, 229, 136, 160, 233, 153, 164]) s in t\<lparr>ks_reloads := ks_reloads t + 1\<rparr>)
      else alert (utf8 [229, 136, 160, 233, 153, 164, 229, 164, 177, 232, 180, 165, 239, 188, 140, 32, 232, 175, 183, 231, 168, 141, 229, 144, 142, 229, 134, 141, 232, 175, 149]) s)"

datatype ksc_ev = KsReady | KsLogout | KsOverlay | KsLoaded string | KsDel bool jsv | KsDeleted jsv

(* src/memorypark/ksc/htdocs/js/bmoon.ksc.js:19-24 onready *)
fun ksc_step :: "ksc_ev \<Rightarrow> ksc \<Rightarrow> ksc" where
  "ksc_step KsReady = ksc_loginCheck"
| "ksc_step KsLogout = ksc_logout"
| "ksc_step KsOverlay = ksc_overlay"
| "ksc_step (KsLoaded h) = ksc_loaded h"
| "ksc_step (KsDel b i) = delprd b i"
| "ksc_step (KsDeleted d) = delprd_reply d"

subsection \<open>Lemmas\<close>

text \<open>What is thrown first wins: without the function \<open>type\<close> nothing of a list or of a menu is shown.\<close>

lemma no_type_no_list: "mnlist None opts rows = Inl ReferenceError"
  by (simp add: mnlist_def call_type_def)

lemma no_type_no_menu: "mn_items (menu_reply None d s) = mn_items s" "mn_items (menu_static None v s) = mn_items s"
  by (auto simp: menu_reply_def menu_static_def call_type_def raise_def alert_def split: sum.split)

lemma makeList_rows: "makeList ty opts rs = Inr is \<Longrightarrow> length is = length rs \<and> map li_title is = map (\<lambda>r. to_str (fld r (lo_title opts))) rs"
proof (induction rs arbitrary: "is")
  case (Cons r rs)
  then obtain i js where i: "list_row ty opts r = Inr i" "makeList ty opts rs = Inr js" "is = i # js"
    by (cases "list_row ty opts r"; cases "makeList ty opts rs") auto
  moreover have "li_title i = to_str (fld r (lo_title opts))"
    using i(1) by (cases "js_get r (lo_title opts)"; cases "call_type ty (lo_content opts)") (auto simp: list_row_def fld_def)
  ultimately show ?case using Cons.IH by simp
qed simp

lemma source_is_never_shown: "gt_int (fld mgd ''ori'') 0 \<Longrightarrow> planinfo_ready mgd s = throw (planinfo_init s)"
  by (simp add: planinfo_ready_def rendFromPic_def planinfo_init_def)

text \<open>Leaving the shop.\<close>

lemma ksc_logout_forgets:
  assumes "list_all cookie_ok (ks_jar s)" "one_slot ''uname'' ksc_cookie (ks_jar s)" "one_slot ''usn'' ksc_cookie (ks_jar s)"
  shows "get_cookie ''uname'' (ks_jar (ksc_logout s)) = Inr None \<and> get_cookie ''usn'' (ks_jar (ksc_logout s)) = Inr None \<and>
    e_shown (dom (ksc_logout s) KsGuest) \<and> \<not> e_shown (dom (ksc_logout s) KsMember)"
proof -
  define j where "j = clear_cookies [''uname'', ''usn''] ksc_cookie (ks_jar s)"
  have g: "get_cookie ''uname'' j = Inr None" "get_cookie ''usn'' j = Inr None"
    unfolding j_def using assms by (auto intro: get_cleared)
  have e: "ksc_logout s = ksc_loginCheck (s\<lparr>ks_jar := j\<rparr>)" by (simp add: ksc_logout_def j_def clear_cookies_def)
  have f: "ks_jar (ksc_loginCheck t) = ks_jar t" for t by (simp add: ksc_loginCheck_def on_def raise_def split: sum.split option.split)
  show ?thesis using g by (simp add: e f) (simp add: ksc_loginCheck_def dom_defs)
qed

text \<open>A product is deleted as often as it was confirmed.\<close>

definition deletes :: "ksc \<Rightarrow> nat" where
  "deletes s = length (filter (\<lambda>r. r_url r = ''/cgi-bin/prd'') (reqs s))"

lemma deletes_step:
  "ks_href s \<noteq> ''/cgi-bin/prd'' \<Longrightarrow>
   deletes (ksc_step e s) = deletes s + (case e of KsDel b i \<Rightarrow> if b then 1 else 0 | _ \<Rightarrow> 0) \<and> ks_href (ksc_step e s) = ks_href s"
  by (cases e)
    (auto simp: deletes_def ksc_loginCheck_def ksc_logout_def ksc_overlay_def ksc_loaded_def delprd_def delprd_reply_def Let_def
      send_def alert_def throw_def raise_def on_def split: sum.split option.split)

subsection \<open>Properties\<close>

text \<open>What the bubble is for: the page is covered as long as somebody waits.\<close>

fun waits :: "bubble_ev \<Rightarrow> nat \<Rightarrow> nat" where
  "waits Enable n = n + 1"
| "waits Disable n = n - 1"
| "waits Faded n = n"

text \<open>Nobody begins to wait while the cover fades.\<close>

fun no_early :: "bubble_ev list \<Rightarrow> bubble \<Rightarrow> bool" where
  "no_early [] s = True"
| "no_early (e # es) s = ((e = Enable \<longrightarrow> fb_cover s \<noteq> Fading) \<and> no_early es (bubble_step e s))"

lemma cover_run:
  assumes "fb_base s" "fb_flowers s = n" "fb_cover s = Up \<longleftrightarrow> n > 0" "no_early es s"
  shows "fb_flowers (fold bubble_step es s) = fold waits es n \<and> (fb_cover (fold bubble_step es s) = Up \<longleftrightarrow> fold waits es n > 0)"
  using assms
proof (induction es arbitrary: s n)
  case (Cons e es)
  have "fb_base (bubble_step e s)" using Cons.prems by (cases e) (simp_all add: enable_def disable_def faded_def Let_def)
  moreover have "fb_flowers (bubble_step e s) = waits e n \<and> (fb_cover (bubble_step e s) = Up \<longleftrightarrow> waits e n > 0)"
    using Cons.prems by (cases e; cases "fb_cover s") (auto simp: enable_def disable_def faded_def Let_def)
  ultimately show ?case using Cons.IH [of "bubble_step e s" "waits e n"] Cons.prems by simp
qed simp

text \<open>
  C34. The bubble refines a counter: as long as nobody begins to wait while it is fading out, the page is
  covered exactly while more have begun to wait than have ended.
\<close>

theorem cover_counts:
  assumes "no_early es fresh_bubble"
  shows "fb_flowers (fold bubble_step es fresh_bubble) = fold waits es 0 \<and>
    (fb_cover (fold bubble_step es fresh_bubble) = Up \<longleftrightarrow> fold waits es 0 > 0)"
  by (rule cover_run) (use assms in \<open>simp_all add: fresh_bubble_def\<close>)

theorem cover_counts_witness:
  "fb_cover (fold bubble_step [Enable, Enable, Disable, Enable, Disable] fresh_bubble) = Up"
  using cover_counts [of "[Enable, Enable, Disable, Enable, Disable]"]
  by (simp add: fresh_bubble_def enable_def disable_def)

text \<open>
  Who begins to wait while the cover fades is counted and not covered; and from then on the cover
  stays after every later wait, however often one begins and ends.
\<close>

theorem early_wait_sticks:
  assumes "fb_cover s = Up" "fb_flowers s = 1" "fb_base s"
  shows "let t = fold bubble_step [Disable, Enable, Faded] s; u = fold bubble_step (concat (replicate (n + 1) [Enable, Disable])) t
     in fb_cover t = Gone \<and> fb_flowers t = 1 \<and> fb_cover u = Up \<and> fb_flowers u = 1"
proof -
  define t where "t = fold bubble_step [Disable, Enable, Faded] s"
  have t: "fb_cover t = Gone" "fb_flowers t = 1" "fb_base t"
    using assms by (simp_all add: t_def disable_def enable_def faded_def Let_def)
  have one: "fb_cover (disable (enable u)) = Up \<and> fb_flowers (disable (enable u)) = 1 \<and> fb_base (disable (enable u))"
    if "fb_cover u \<noteq> Fading" "fb_flowers u = 1" "fb_base u" for u
    using that by (cases "fb_cover u") (simp_all add: disable_def enable_def Let_def)
  have "fb_cover (fold bubble_step (concat (replicate (n + 1) [Enable, Disable])) u) = Up \<and>
      fb_flowers (fold bubble_step (concat (replicate (n + 1) [Enable, Disable])) u) = 1"
    if "fb_cover u \<noteq> Fading" "fb_flowers u = 1" "fb_base u" for u
    using that
  proof (induction n arbitrary: u)
    case 0
    then show ?case using one [of u] by simp
  next
    case (Suc n)
    then show ?case using Suc.IH [of "disable (enable u)"] one [of u] by simp
  qed
  from this [of t] t show ?thesis unfolding Let_def t_def [symmetric] by simp
qed

theorem early_wait_sticks_witness:
  "fb_cover (fold bubble_step [Enable, Disable, Enable, Faded, Enable, Disable] fresh_bubble) = Up"
proof -
  have "fb_cover (enable fresh_bubble) = Up" "fb_flowers (enable fresh_bubble) = 1" "fb_base (enable fresh_bubble)"
    by (simp_all add: enable_def fresh_bubble_def Let_def)
  from early_wait_sticks [OF this, of 0] show ?thesis by (simp add: Let_def)
qed

end
