(* ===== verification/ChatSession.thy ===== *)
theory ChatSession
  imports ChatAdmin
begin

text \<open>
  How a page of the chat begins: the client of a visitor (\<open>ape/app/livecs.js\<close>), that of an administrator
  (\<open>ape/app/livecsb.js\<close>), and where an old browser puts the box (\<open>bmoon.chat.js\<close>).

  Of the library, the cookies of MooTools are a map, and the session that survives a page is \<open>vs_stored\<close>, which
  \<open>clearSession\<close> leaves empty.  Whether \<open>getPipe\<close> finds the pipe it is asked for is up to the library at that
  moment: an event that asks it says so (\<open>found\<close>).  The library announces a pipe before the users in it.
\<close>

subsection \<open>A visitor's page\<close>

record visit_opts =
  vo_aname :: jsv
  vo_domain :: string
  vo_word :: string
  vo_default_ui :: jsv
  vo_restore_ui :: bool
  vo_ui_cookie :: "string option"
  vo_hidemid :: bool
  vo_minable :: bool
  vo_maxevent :: string
  vo_restore_msg :: bool
  vo_restore :: bool
  vo_href :: string
  vo_title :: string

record visit =
  vs_chat :: chat
  vs_ready :: bool
  vs_opts :: visit_opts
  vs_jar :: "string \<rightharpoonup> string"
  vs_utime :: jnum
  vs_stored :: "string option"
  vs_reqs :: "request list"

definition on_chat :: "(chat \<Rightarrow> chat) \<Rightarrow> visit \<Rightarrow> visit" where
  "on_chat f s = s\<lparr>vs_chat := f (vs_chat s)\<rparr>"

definition vs_send :: "string \<Rightarrow> (string \<times> jsv) list \<Rightarrow> visit \<Rightarrow> visit" where
  "vs_send name ps = on_chat (\<lambda>c. c\<lparr>m_sent := m_sent c @ [\<lparr>co_name = name, co_params = ps, co_pipe = None\<rparr>]\<rparr>)"

definition plus_one :: "jnum \<Rightarrow> jnum" where
  "plus_one n = (case n of Fin q \<Rightarrow> Fin (q + 1) | _ \<Rightarrow> n)"

definition fresh_chat :: "chat_opts \<Rightarrow> chat" where
  "fresh_chat opts = \<lparr>u_opts = opts, u_shown = (\<lambda>_. False), u_rendo = Mid, u_bound = [], u_binders = 0, u_over = False,
     u_timers = 0, u_blink = False, u_dirty = False, u_cookie = None, m_admin = JObj [], m_pipe = None, m_input = '''',
     m_hint = offline_hint, m_hint_timers = [], m_data = [], m_recent = [], m_sent = [], m_remind = True, m_sounds = [], m_thrown = []\<rparr>"

definition non_empty :: "string option \<Rightarrow> string option" where
  "non_empty v = (case v of Some w \<Rightarrow> if w = [] then None else v | None \<Rightarrow> None)"

text \<open>\<open>stored\<close> is what the session of an earlier page left.\<close>

(* src/pop/fly/js/ape/app/livecs.js:4-53 initialize *)
definition visit_initialize :: "visit_opts \<Rightarrow> (string \<rightharpoonup> string) \<Rightarrow> string option \<Rightarrow> visit" where
  "visit_initialize o1 jar stored =
     (let (uname, jar1) = (case non_empty (jar ''lcs_uname'') of
            Some v \<Rightarrow> (v, jar)
          | None \<Rightarrow> (vo_word o1, jar(''lcs_uname'' \<mapsto> vo_word o1)));
          utime = plus_one (case non_empty (jar1 ''lcs_utime'') of Some v \<Rightarrow> parseInt v | None \<Rightarrow> Fin 0);
          jar2 = (if vo_restore o1 then jar1 else jar1(''lcs_utime'' \<mapsto> num_str utime))
      in \<lparr>vs_chat = fresh_chat \<lparr>op_uname = uname, op_pname = to_str (js_or (vo_aname o1) (JStr (vo_domain o1))), op_aname = None,
            op_ui = (if vo_restore_ui o1 then vo_ui_cookie o1 else Some (to_str (js_or (vo_default_ui o1) (JStr ''mid'')))),
            op_hidemid = vo_hidemid o1, op_minable = vo_minable o1, op_maxevent = vo_maxevent o1\<rparr>,
          vs_ready = False, vs_opts = o1, vs_jar = jar2, vs_utime = utime, vs_stored = stored, vs_reqs = []\<rparr>)"

abbreviation vs_pname :: "visit \<Rightarrow> string" where
  "vs_pname s \<equiv> op_pname (u_opts (vs_chat s))"

(* src/pop/fly/js/ape/app/livecs.js:55-68 start *)
definition visit_start :: "visit \<Rightarrow> visit" where
  "visit_start s =
     (let s1 = vs_send ''start'' [(''uin'', JStr (op_uname (u_opts (vs_chat s))))] s
      in if vo_restore (vs_opts s) then vs_send ''getSession'' [(''lcsCurrentPipe'', JUndef)] s1
         else vs_send ''LCS_JOIN'' [(''aname'', JStr (vs_pname s)), (''utime'', JNum (vs_utime s)),
            (''url'', JStr (vo_href (vs_opts s))), (''title'', JStr (vo_title (vs_opts s)))] s1)"

(* src/pop/fly/js/ape/app/livecs.js:59-61 start, its callback *)
definition visit_restored :: "bool \<Rightarrow> visit \<Rightarrow> visit" where
  "visit_restored found s = on_chat (\<lambda>c. c\<lparr>m_pipe := (if found then vs_stored s else None)\<rparr>) s"

definition name_of :: "jsv \<Rightarrow> string option" where
  "name_of v = (if v = JUndef \<or> v = JNull then None else Some (to_str v))"

(* src/pop/fly/js/ape/app/livecs.js:70-96 pipeCreate *)
definition visit_pipeCreate :: "jsv \<Rightarrow> visit \<Rightarrow> visit" where
  "visit_pipeCreate props s =
     (if loose_eq (fld props ''pname'') (JStr (vs_pname s)) then
        (let s1 = on_chat (\<lambda>c. c\<lparr>u_opts := (u_opts c)\<lparr>op_aname := name_of (fld props ''aname'')\<rparr>\<rparr>) s;
             s2 = (if vs_ready s1 then s1 else (on_chat initUI s1)\<lparr>vs_ready := True\<rparr>);
             s3 = (if vo_restore (vs_opts s2) then
                     vs_send ''LCS_VISIT'' [(''aname'', fld props ''aname''), (''pname'', JStr (vs_pname s2)),
                       (''url'', JStr (vo_href (vs_opts s2))), (''title'', JStr (vo_title (vs_opts s2)))] s2
                   else s2)
         in if vo_restore_msg (vs_opts s3) then
              s3\<lparr>vs_reqs := vs_reqs s3 @ [\<lparr>r_method = GET, r_url = ''http://www.bomdoo.com/json/msg?JsonCallback=?'',
                 r_params = [(''name'', fld props ''aname''), (''name2'', JStr (op_uname (u_opts (vs_chat s3))))]\<rparr>]\<rparr>
            else s3)
      else s)"

text \<open>What comes from the server, by the name of its command; the time is given as text.\<close>

(* src/pop/fly/js/ape/app/livecs.js:39-41 initialize, the handlers *)
definition visit_raw :: "string \<Rightarrow> string \<Rightarrow> string \<Rightarrow> jsv \<Rightarrow> visit \<Rightarrow> visit" where
  "visit_raw name tm pipe data =
     on_chat (\<lambda>c. if name = ''RAW_RECENTLY'' then rawLcsRecently tm data c
       else if name = ''LCS_DATA'' then rawLcsData tm pipe data c
       else if name = ''RAW_VHOST'' then chat_throw ReferenceError c else c)"

text \<open>The stored messages: each is a text that \<open>parse\<close> makes a message of; \<open>route\<close> and \<open>clock\<close> read it.\<close>

fun stored_raws :: "(jsv \<Rightarrow> js_error + jsv) \<Rightarrow> (jsv \<Rightarrow> string) \<Rightarrow> (jsv \<Rightarrow> string) \<Rightarrow> jsv list \<Rightarrow> visit \<Rightarrow> visit" where
  "stored_raws parse route clock [] s = s"
| "stored_raws parse route clock (v # vs) s =
     (case parse v of
        Inl e \<Rightarrow> on_chat (chat_throw e) s
      | Inr raw \<Rightarrow> stored_raws parse route clock vs
          (if truthy raw then visit_raw (route raw) (clock raw) '''' (fld raw ''data'') s else s))"

(* src/pop/fly/js/ape/app/livecs.js:84-93 pipeCreate, its callback *)
definition visit_messages :: "(jsv \<Rightarrow> js_error + jsv) \<Rightarrow> (jsv \<Rightarrow> string) \<Rightarrow> (jsv \<Rightarrow> string) \<Rightarrow> jsv \<Rightarrow> visit \<Rightarrow> visit" where
  "visit_messages parse route clock data s =
     (if data = JUndef \<or> data = JNull then on_chat (chat_throw TypeError) s
      else case fld data ''raws'' of
        JArr vs \<Rightarrow> if is_one (fld data ''success'') then stored_raws parse route clock vs s else s
      | _ \<Rightarrow> s)"

text \<open>An administrator comes: his pipe is stored in the session too, and stays there when he leaves.\<close>

(* src/pop/fly/js/ape/app/livecs.js:98-105 createUser *)
definition visit_join :: "bool \<Rightarrow> string \<Rightarrow> jsv \<Rightarrow> jsv \<Rightarrow> visit \<Rightarrow> visit" where
  "visit_join found pubid user_props pipe_props s =
     (if loose_eq (fld pipe_props ''pname'') (JStr (vs_pname s)) \<and> truthy (fld user_props ''isadmin'') then
        on_chat (\<lambda>c. adminOn (JObj [(''pname'', JStr (op_pname (u_opts c))), (''aname'', fld pipe_props ''aname'')])
          (c\<lparr>m_pipe := (if found then Some pubid else None)\<rparr>)) (s\<lparr>vs_stored := Some pubid\<rparr>)
      else s)"

definition visit_leave :: "jsv \<Rightarrow> jsv \<Rightarrow> visit \<Rightarrow> visit" where
  "visit_leave user_props pipe_props = on_chat (deleteUser user_props pipe_props)"

text \<open>An error of the server, by its code.\<close>

definition clearing_codes :: "string set" where
  "clearing_codes = {''110'', ''111'', ''112'', ''113''}"

(* src/pop/fly/js/ape/app/livecs.js:43-46 initialize, the errors *)
definition visit_error :: "string \<Rightarrow> visit \<Rightarrow> visit" where
  "visit_error code s = (if code \<in> clearing_codes then s\<lparr>vs_stored := None\<rparr> else s)"

datatype visit_ev =
    VLoad | VRestored bool | VPipe jsv | VJoin bool string jsv jsv | VLeave jsv jsv | VRaw string string string jsv
  | VMessages jsv | VUi ui_ev | VType string | VSend string | VError string

(* src/pop/fly/js/ape/app/livecs.js:39-52 initialize, the events *)
fun visit_step :: "(jsv \<Rightarrow> js_error + jsv) \<Rightarrow> (jsv \<Rightarrow> string) \<Rightarrow> (jsv \<Rightarrow> string) \<Rightarrow> visit_ev \<Rightarrow> visit \<Rightarrow> visit" where
  "visit_step parse route clock VLoad = visit_start"
| "visit_step parse route clock (VRestored found) = visit_restored found"
| "visit_step parse route clock (VPipe ps) = visit_pipeCreate ps"
| "visit_step parse route clock (VJoin found p u ps) = visit_join found p u ps"
| "visit_step parse route clock (VLeave u ps) = visit_leave u ps"
| "visit_step parse route clock (VRaw n tm p d) = visit_raw n tm p d"
| "visit_step parse route clock (VMessages d) = visit_messages parse route clock d"
| "visit_step parse route clock (VUi e) = on_chat (ui_step e)"
| "visit_step parse route clock (VType v) = on_chat (\<lambda>c. c\<lparr>m_input := v\<rparr>)"
| "visit_step parse route clock (VSend tm) = on_chat (msgSend tm)"
| "visit_step parse route clock (VError code) = visit_error code"

text \<open>The next page of the site, or the same one again: cookies and session go along.\<close>

definition next_page :: "visit_opts \<Rightarrow> visit \<Rightarrow> visit" where
  "next_page opts s = visit_initialize opts (vs_jar s) (vs_stored s)"

subsection \<open>An administrator's page\<close>

record admin_session =
  as_aname :: jsv
  as_masn :: jsv
  as_waiting :: bool
  as_restore :: bool
  as_sent :: "command list"
  as_admin :: admin

text \<open>Without the cookies of the login nothing is bound, not even the timer that gives up waiting.\<close>

(* src/pop/fly/js/ape/app/livecsb.js:3-33 initialize *)
definition admin_initialize :: "jsv \<Rightarrow> (string \<rightharpoonup> string) \<Rightarrow> bool \<Rightarrow> admin \<Rightarrow> admin_session" where
  "admin_initialize aname jar restore a =
     (let an = js_or aname (case jar ''aname_esc'' of Some v \<Rightarrow> JStr v | None \<Rightarrow> JNull);
          masn = (case jar ''masn'' of Some v \<Rightarrow> JStr v | None \<Rightarrow> JNull)
      in \<lparr>as_aname = an, as_masn = masn, as_waiting = truthy an \<and> truthy masn, as_restore = restore, as_sent = [],
          as_admin = a\<lparr>ad_aname := to_str an, ad_pipe := None\<rparr>\<rparr>)"

(* src/pop/fly/js/ape/app/livecsb.js:35-43 start *)
definition admin_start_session :: "admin_session \<Rightarrow> admin_session" where
  "admin_start_session s =
     (if as_waiting s then
        s\<lparr>as_sent := as_sent s @ [\<lparr>co_name = ''start'', co_params = [(''uin'', as_aname s)], co_pipe = None\<rparr>] @
          (if as_restore s then [] else [\<lparr>co_name = ''LCS_JOINB'', co_params = [(''aname'', as_aname s), (''masn'', as_masn s)], co_pipe = None\<rparr>])\<rparr>
      else s)"

(* src/pop/fly/js/ape/app/livecsb.js:45-48 needMoreAdmin *)
definition session_refused :: "admin_session \<Rightarrow> admin_session" where
  "session_refused s = (if as_waiting s then s\<lparr>as_admin := needMoreAdmin (as_admin s)\<rparr> else s)"

(* src/pop/fly/js/ape/app/livecsb.js:32-32 initialize, its timer *)
definition session_timer :: "admin_session \<Rightarrow> admin_session" where
  "session_timer s = (if as_waiting s then s\<lparr>as_admin := judgeReady (as_admin s)\<rparr> else s)"

subsection \<open>Where an old browser puts the box\<close>

record window =
  wi_top :: rat
  wi_left :: rat
  wi_height :: rat
  wi_width :: rat

(* src/pop/fly/js/ape/app/bmoon.chat.js:53-56 _getCssV *)
definition getCssV :: "jsv \<Rightarrow> rat \<Rightarrow> jnum" where
  "getCssV v ttl =
     (case v of
        JStr s \<Rightarrow> if s \<noteq> [] \<and> last s = CHR ''%'' then (case parseInt s of Fin q \<Rightarrow> Fin (ttl * q / 100) | n \<Rightarrow> n) else parseInt s
      | _ \<Rightarrow> parseInt (to_str v))"


definition plus_num :: "rat \<Rightarrow> jnum \<Rightarrow> jnum" where
  "plus_num q n = (case n of Fin p \<Rightarrow> Fin (q + p) | _ \<Rightarrow> NaN)"

definition minus_num :: "rat \<Rightarrow> jnum \<Rightarrow> jnum" where
  "minus_num q n = (case n of Fin p \<Rightarrow> Fin (q - p) | _ \<Rightarrow> NaN)"

text \<open>Where the box goes; a browser that knows fixed positions does not ask.\<close>

(* src/pop/fly/js/ape/app/bmoon.chat.js:58-79 _rendBox *)
definition rendBox :: "bool \<Rightarrow> window \<Rightarrow> rat \<times> rat \<Rightarrow> jsv \<Rightarrow> (jnum \<times> jnum) option" where
  "rendBox ielow w box pos =
     (if ielow then
        (let (rh, rw) = box
         in Some (if fld pos ''top'' = JUndef then minus_num (wi_top w + wi_height w - rh) (getCssV (fld pos ''bottom'') (wi_height w))
                  else plus_num (wi_top w) (getCssV (fld pos ''top'') (wi_height w)),
                  if fld pos ''left'' = JUndef then minus_num (wi_left w + wi_width w - rw) (getCssV (fld pos ''right'') (wi_width w))
                  else plus_num (wi_left w) (getCssV (fld pos ''left'') (wi_width w))))
      else None)"

subsection \<open>Lemmas\<close>

lemma on_chat_frame [simp]:
  "vs_stored (on_chat f s) = vs_stored s" "vs_jar (on_chat f s) = vs_jar s" "vs_opts (on_chat f s) = vs_opts s"
  "vs_chat (on_chat f s) = f (vs_chat s)"
  by (simp_all add: on_chat_def)

lemma vs_send_frame [simp]:
  "vs_stored (vs_send n ps s) = vs_stored s" "vs_jar (vs_send n ps s) = vs_jar s" "vs_opts (vs_send n ps s) = vs_opts s"
  by (simp_all add: vs_send_def)

lemma raws_stored [simp]: "vs_stored (stored_raws parse route clock vs s) = vs_stored s" "vs_jar (stored_raws parse route clock vs s) = vs_jar s"
  by (induction vs arbitrary: s) (auto simp: visit_raw_def split: sum.splits)

text \<open>Only an administrator who comes and an error that clears the session change what is stored.\<close>

definition clears :: "visit_ev \<Rightarrow> bool" where
  "clears e \<longleftrightarrow> (\<exists>code\<in>clearing_codes. e = VError code)"

lemma stored_step:
  assumes "\<And>found p u ps. e \<noteq> VJoin found p u ps"
  shows "vs_stored (visit_step parse route clock e s) = (if clears e then None else vs_stored s)"
  using assms
  by (cases e) (auto simp: visit_start_def visit_restored_def visit_pipeCreate_def visit_leave_def visit_raw_def visit_messages_def
      visit_error_def clears_def Let_def split: jsv.splits)

lemma stored_run:
  "(\<And>found p u ps. VJoin found p u ps \<notin> set es) \<Longrightarrow>
   vs_stored (fold (visit_step parse route clock) es s) = (if list_ex clears es then None else vs_stored s)"
proof (induction es arbitrary: s)
  case (Cons e es)
  have "vs_stored (visit_step parse route clock e s) = (if clears e then None else vs_stored s)"
    using Cons.prems by (intro stored_step) auto
  then show ?case using Cons.IH [of "visit_step parse route clock e s"] Cons.prems by auto
qed simp

lemma initialize_stored [simp]: "vs_stored (visit_initialize opts jar st) = st"
  by (simp add: visit_initialize_def Let_def split: prod.split)

lemma deleteUser_pipe:
  "loose_eq (fld ps ''pname'') (JStr (op_pname (u_opts c))) \<Longrightarrow> truthy (fld u ''isadmin'') \<Longrightarrow> m_pipe (deleteUser u ps c) = None"
  by (simp add: deleteUser_def adminOff_def)

lemma adminOn_frame [simp]: "u_opts (adminOn d c) = u_opts c"
  by (simp add: adminOn_def soundRemind_def)

text \<open>A box that is placed from the bottom and leaves room is within the window.\<close>

lemma box_in_view:
  assumes "getCssV (fld pos ''bottom'') (wi_height w) = Fin b" "0 \<le> b" "b + rh \<le> wi_height w" "fld pos ''top'' = JUndef"
  shows "\<exists>y x. rendBox True w (rh, rw) pos = Some (Fin y, x) \<and> wi_top w \<le> y \<and> y + rh \<le> wi_top w + wi_height w"
  using assms by (simp add: rendBox_def minus_num_def)

lemma per_cent_of: "parseInt (s @ ''%'') = Fin q \<Longrightarrow> getCssV (JStr (s @ ''%'')) ttl = Fin (ttl * q / 100)"
  by (simp add: getCssV_def)

text \<open>An administrator's page without the cookies of a login waits for ever: not even the hint that it failed comes.\<close>

lemma no_login_waits:
  assumes "jar ''masn'' = None"
  shows "session_timer (admin_start_session (admin_initialize an jar restore a)) = admin_initialize an jar restore a"
  using assms by (simp add: admin_initialize_def admin_start_session_def session_timer_def Let_def)

subsection \<open>Properties\<close>

text \<open>
  C35. What a later page goes on with after an administrator came and left: his leaving takes his pipe from the page, but it
  stays in the session.  If no other administrator comes, the next page of the site, when it restores the session, has
  his pipe again if the library then still finds it, unless the server reported an error that clears the session (110
  to 113) in between; then, and if the library does not find it, the page has no pipe.
\<close>

theorem departed_pipe_is_restored:
  assumes "loose_eq (fld ps ''pname'') (JStr (vs_pname s))" "truthy (fld u ''isadmin'')" "\<And>f q v qs. VJoin f q v qs \<notin> set es"
  shows "let step = visit_step parse route clock; t = step (VLeave u ps) (step (VJoin f p u ps) s)
     in m_pipe (vs_chat t) = None \<and>
        m_pipe (vs_chat (step (VRestored found) (next_page opts (fold step es t)))) =
          (if found \<and> \<not> list_ex clears es then Some p else None)"
proof -
  define t where "t = visit_step parse route clock (VLeave u ps) (visit_step parse route clock (VJoin f p u ps) s)"
  have "m_pipe (vs_chat t) = None" using assms(1,2) by (simp add: t_def visit_leave_def visit_join_def deleteUser_pipe)
  moreover have "vs_stored t = Some p" using assms(1,2) by (simp add: t_def visit_leave_def visit_join_def)
  ultimately show ?thesis using assms(3) unfolding Let_def t_def [symmetric]
    by (simp add: visit_restored_def next_page_def stored_run)
qed

definition plain_visit :: visit_opts where
  "plain_visit = \<lparr>vo_aname = JStr ''site'', vo_domain = ''d'', vo_word = ''w'', vo_default_ui = JUndef, vo_restore_ui = False, vo_ui_cookie = None,
     vo_hidemid = False, vo_minable = False, vo_maxevent = ''click'', vo_restore_msg = False, vo_restore = True, vo_href = '''', vo_title = ''''\<rparr>"

text \<open>A message is sent into nothing, the page is left; and the same with an error of the server.\<close>

theorem departed_pipe_is_restored_witness:
  "let ps = JObj [(''pname'', JStr ''site'')]; u = JObj [(''isadmin'', jint 1)]; st = visit_step Inr (\<lambda>_. '''') (\<lambda>_. '''');
       s = st (VLeave u ps) (st (VJoin True ''q'' u ps) (visit_initialize plain_visit Map.empty None))
   in m_pipe (vs_chat (st (VRestored True) (next_page plain_visit (fold st [VSend ''10:00''] s)))) = Some ''q'' \<and>
      m_pipe (vs_chat (st (VRestored True) (next_page plain_visit (fold st [VSend ''10:00'', VError ''111''] s)))) = None"
proof -
  let ?ps = "JObj [(''pname'', JStr ''site'')]" and ?u = "JObj [(''isadmin'', jint 1)]" and ?s = "visit_initialize plain_visit Map.empty None"
  have h: "loose_eq (fld ?ps ''pname'') (JStr (vs_pname ?s))" "truthy (fld ?u ''isadmin'')"
    by (simp_all add: visit_initialize_def Let_def non_empty_def plain_visit_def fresh_chat_def js_or_def)
  have c: "\<not> clears (VSend ''10:00'')" "clears (VError ''111'')"
    by (simp_all add: clears_def clearing_codes_def)
  show ?thesis
    using departed_pipe_is_restored [OF h, of "[VSend ''10:00'']" Inr "\<lambda>_. ''''" "\<lambda>_. ''''" True "''q''" True plain_visit]
      departed_pipe_is_restored [OF h, of "[VSend ''10:00'', VError ''111'']" Inr "\<lambda>_. ''''" "\<lambda>_. ''''" True "''q''" True plain_visit]
    by (simp add: Let_def c del: visit_step.simps fold.simps)
qed

end
