(* ===== verification/UtlMore.thy ===== *)
theory UtlMore
  imports Index Post Complex_Main
begin

text \<open>
  The rest of \<open>lib/js/bmoon.js\<close>: the distance of two places, the version of the Internet Explorer, the exchange
  of two elements, and what only calls the browser.

  The distance is computed on the reals with the rounding of the browser as a parameter, and therefore not by
  evaluation; the other theories have it as the function \<open>dis\<close>, of which they assume nothing.
\<close>

subsection \<open>Distances\<close>

text \<open>
  The numbers of the browser: every operation rounds, and the sine, the cosine and the inverse are those of its
  library.  \<open>exact\<close> does not round.
\<close>

record arith =
  rnd :: "real \<Rightarrow> real"
  ar_sin :: "real \<Rightarrow> real"
  ar_cos :: "real \<Rightarrow> real"
  ar_acos :: "real \<Rightarrow> real"

definition exact :: arith where
  "exact = \<lparr>rnd = (\<lambda>x. x), ar_sin = sin, ar_cos = cos, ar_acos = arccos\<rparr>"

definition radian :: "arith \<Rightarrow> real \<Rightarrow> real" where
  "radian m x = rnd m (rnd m (rnd m pi / 180) * x)"

definition central_cos :: "arith \<Rightarrow> real \<times> real \<Rightarrow> real \<times> real \<Rightarrow> real" where
  "central_cos m p q =
     (let lat1 = radian m (fst p); lat2 = radian m (fst q); lon1 = radian m (snd p); lon2 = radian m (snd q)
      in rnd m (rnd m (ar_sin m lat1 * ar_sin m lat2) +
           rnd m (rnd m (ar_cos m lat1 * ar_cos m lat2) * ar_cos m (rnd m (lon1 - lon2)))))"

definition earth_km :: "arith \<Rightarrow> real \<Rightarrow> real" where
  "earth_km m c = rnd m (rnd m (rnd m (ar_acos m c * rnd m (180 / rnd m pi)) * 60) * rnd m (1852 / 1000))"

text \<open>\<open>x.toFixed(2)\<close> of a real that is not negative.\<close>

definition real_fixed2 :: "real \<Rightarrow> string" where
  "real_fixed2 x = to_fixed 2 (Fin (of_int \<lfloor>x * 100 + 1 / 2\<rfloor> / 100))"

text \<open>\<open>acos\<close> of a number that is not between -1 and 1 is \<open>NaN\<close>, and so is the distance.\<close>

(* src/lib/js/bmoon.js:124-142 earthDis *)
definition earthDis :: "arith \<Rightarrow> real \<times> real \<Rightarrow> real \<times> real \<Rightarrow> string" where
  "earthDis m p q =
     (let c = central_cos m p q in if c < -1 \<or> 1 < c then ''NaN'' else real_fixed2 (earth_km m c))"

subsection \<open>Versions\<close>

text \<open>
  A comment with the condition \<open>gt IE v\<close> is read by the Internet Explorer only, and holds for a version
  above \<open>v\<close>; \<open>None\<close> is another browser.
\<close>

definition comment_holds :: "nat option \<Rightarrow> nat \<Rightarrow> bool" where
  "comment_holds version v = (case version of Some n \<Rightarrow> n > v | None \<Rightarrow> False)"

function ie_loop :: "nat option \<Rightarrow> nat \<Rightarrow> nat" where
  "ie_loop version v = (let w = v + 1 in if comment_holds version w then ie_loop version w else w)"
  by pat_completeness auto
termination
  by (relation "measure (\<lambda>(version, v). (case version of Some n \<Rightarrow> n | None \<Rightarrow> 0) - v)")
    (auto simp: comment_holds_def split: option.splits)

declare ie_loop.simps [simp del]

(* src/lib/js/bmoon.js:79-90 ie *)
definition ie :: "nat option \<Rightarrow> nat option" where
  "ie version = (let v = ie_loop version 3 in if v > 4 then Some v else None)"

subsection \<open>Elements\<close>

text \<open>The children of each element, in order.\<close>

type_synonym 'e tree = "'e \<Rightarrow> 'e list"

definition parent_of :: "'e list \<Rightarrow> 'e tree \<Rightarrow> 'e \<Rightarrow> 'e option" where
  "parent_of els t x = find (\<lambda>p. x \<in> set (t p)) els"

definition detach :: "'e \<Rightarrow> 'e tree \<Rightarrow> 'e tree" where
  "detach x t = (\<lambda>p. removeAll x (t p))"

definition append_child :: "'e option \<Rightarrow> 'e \<Rightarrow> 'e tree \<Rightarrow> 'e tree" where
  "append_child p x t = (case p of None \<Rightarrow> t | Some q \<Rightarrow> (let u = detach x t in u(q := u q @ [x])))"

(* src/lib/js/bmoon.js:58-63 swapNodes *)
definition swapNodes :: "'e list \<Rightarrow> 'e \<Rightarrow> 'e \<Rightarrow> 'e tree \<Rightarrow> 'e tree" where
  "swapNodes els a b t =
     (let aparent = parent_of els t a
      in append_child aparent b (append_child (parent_of els t b) a t))"

text \<open>A script is added to those in the head of the page.\<close>

(* src/lib/js/bmoon.js:117-122 loadJS *)
definition loadJS :: "string \<Rightarrow> string list \<Rightarrow> string list" where
  "loadJS url scripts = scripts @ [url]"

(* src/lib/js/bmoon.js:113-115 objToString *)
definition objToString :: "jsv \<Rightarrow> string" where
  "objToString v = stringify v"

subsection \<open>Lemmas\<close>

lemma ie_loop_none: "ie_loop None v = v + 1"
  by (subst ie_loop.simps) (simp add: comment_holds_def)

lemma ie_loop_some: "ie_loop (Some n) v = max (v + 1) n"
proof (induction "n - v" arbitrary: v rule: less_induct)
  case less
  show ?case
  proof (cases "n > v + 1")
    case True
    then have "ie_loop (Some n) v = ie_loop (Some n) (v + 1)" by (subst ie_loop.simps) (simp add: comment_holds_def)
    then show ?thesis using less.hyps [of "v + 1"] True by simp
  next
    case False
    then show ?thesis by (subst ie_loop.simps) (simp add: comment_holds_def)
  qed
qed

text \<open>The version is found from 5 on, and nothing for older ones and other browsers.\<close>

lemma ie_is_version: "ie version = (case version of Some n \<Rightarrow> if n > 4 then Some n else None | None \<Rightarrow> None)"
  by (cases version) (auto simp: ie_def ie_loop_none ie_loop_some max_def)

text \<open>Without rounding, the argument is a combination of two cosines: it never leaves the domain of the inverse.\<close>

lemma central_bounds: "-1 \<le> central_cos exact p q" "central_cos exact p q \<le> 1"
proof -
  define a b c where "a = pi / 180 * fst p" and "b = pi / 180 * fst q" and "c = cos (pi / 180 * snd p - pi / 180 * snd q)"
  have c: "-1 \<le> c" "c \<le> 1" by (simp_all add: c_def)
  have e: "central_cos exact p q = (1 + c) / 2 * cos (a - b) - (1 - c) / 2 * cos (a + b)"
    by (simp add: central_cos_def radian_def exact_def a_def b_def c_def Let_def cos_add cos_diff algebra_simps) (simp add: field_simps)
  have "(1 + c) / 2 * cos (a - b) \<le> (1 + c) / 2 * 1" "(1 - c) / 2 * (- cos (a + b)) \<le> (1 - c) / 2 * 1"
    using c by (intro mult_left_mono; simp)+
  then show "central_cos exact p q \<le> 1" unfolding e by (simp add: field_simps)
  have "(1 + c) / 2 * (- cos (a - b)) \<le> (1 + c) / 2 * 1" "(1 - c) / 2 * cos (a + b) \<le> (1 - c) / 2 * 1"
    using c by (intro mult_left_mono; simp)+
  then show "-1 \<le> central_cos exact p q" unfolding e by (simp add: field_simps)
qed

lemma central_self: "central_cos exact p p = 1"
  by (simp add: central_cos_def exact_def Let_def flip: power2_eq_square)

lemma earth_km_bounds: "0 \<le> earth_km exact (central_cos exact p q)" "earth_km exact (central_cos exact p q) \<le> 20001.6"
proof -
  have "0 \<le> arccos (central_cos exact p q)" "arccos (central_cos exact p q) \<le> pi"
    using arccos_bounded [of "central_cos exact p q"] central_bounds by blast+
  then show "0 \<le> earth_km exact (central_cos exact p q)" "earth_km exact (central_cos exact p q) \<le> 20001.6"
    by (simp_all add: earth_km_def exact_def field_simps)
qed

lemma fixed2_nat: "to_fixed 2 (Fin (of_nat n / 100)) = nat_str (n div 100) @ ''.'' @ pad_left 2 (nat_str (n mod 100))"
proof -
  have "\<lfloor>of_nat n + (1 / 2 :: rat)\<rfloor> = int n" by linarith
  then show ?thesis by (simp add: to_fixed_def Let_def not_less)
qed

lemma real_fixed2_nat:
  assumes "0 \<le> x" "x \<le> of_nat m / 100"
  shows "\<exists>n \<le> m. real_fixed2 x = nat_str (n div 100) @ ''.'' @ pad_left 2 (nat_str (n mod 100))"
proof -
  define n where "n = nat \<lfloor>x * 100 + 1 / 2\<rfloor>"
  have "0 \<le> \<lfloor>x * 100 + 1 / 2\<rfloor>" using assms(1) by simp
  then have k: "of_int \<lfloor>x * 100 + 1 / 2\<rfloor> = (of_nat n :: rat)" by (simp add: n_def)
  have "x * 100 \<le> of_nat m" using assms(2) by simp
  then have "\<lfloor>x * 100 + 1 / 2\<rfloor> \<le> int m" by linarith
  then have "n \<le> m" by (simp add: n_def)
  moreover have "real_fixed2 x = to_fixed 2 (Fin (of_nat n / 100))" by (simp only: real_fixed2_def k)
  ultimately show ?thesis by (intro exI [of _ n]) (simp add: fixed2_nat)
qed

text \<open>
  \<open>swapNodes\<close> puts each element at the end of the other's parent, wherever it stood: it exchanges two
  last children, and moves any others.
\<close>

lemma parent_of_unique:
  assumes "p \<in> set els" "{q. x \<in> set (t q)} = {p}"
  shows "parent_of els t x = Some p"
proof -
  have x: "x \<in> set (t q) \<longleftrightarrow> q = p" for q using assms(2) by blast
  show ?thesis using assms(1) unfolding parent_of_def x by (induction els) auto
qed

lemma swap_appends:
  assumes "pa \<in> set els" "pb \<in> set els" "pa \<noteq> pb" "a \<noteq> b" "{q. a \<in> set (t q)} = {pa}" "{q. b \<in> set (t q)} = {pb}"
  shows "swapNodes els a b t pa = removeAll a (t pa) @ [b]" "swapNodes els a b t pb = removeAll b (t pb) @ [a]"
    "q \<noteq> pa \<Longrightarrow> q \<noteq> pb \<Longrightarrow> swapNodes els a b t q = t q"
proof -
  note p = parent_of_unique [OF assms(1,5)] parent_of_unique [OF assms(2,6)]
  have n: "a \<in> set (t q) \<longleftrightarrow> q = pa" "b \<in> set (t q) \<longleftrightarrow> q = pb" for q
    using assms(5,6) by blast+
  have r: "q \<noteq> pa \<Longrightarrow> removeAll a (t q) = t q" "q \<noteq> pb \<Longrightarrow> removeAll b (t q) = t q" for q
    by (simp_all add: n removeAll_id)
  have s: "swapNodes els a b t = (\<lambda>q. if q = pa then removeAll b (removeAll a (t pa)) @ [b]
      else if q = pb then removeAll b (removeAll a (t pb) @ [a]) else removeAll b (removeAll a (t q)))"
    using assms(3) by (auto simp: swapNodes_def p append_child_def detach_def Let_def)
  show "swapNodes els a b t pa = removeAll a (t pa) @ [b]" "swapNodes els a b t pb = removeAll b (t pb) @ [a]"
    "q \<noteq> pa \<Longrightarrow> q \<noteq> pb \<Longrightarrow> swapNodes els a b t q = t q"
    using assms(3,4) by (simp_all add: s r removeAll_id n)
qed

text \<open>Without rounding, a distance is a number of kilometres with two decimals up to 20001.60, half the way around the earth.\<close>

lemma distance_in_range:
  "\<exists>n \<le> 2000160. earthDis exact p q = nat_str (n div 100) @ ''.'' @ pad_left 2 (nat_str (n mod 100))"
proof -
  have "earthDis exact p q = real_fixed2 (earth_km exact (central_cos exact p q))"
    using central_bounds [of p q] by (simp add: earthDis_def Let_def)
  then show ?thesis
    using real_fixed2_nat [of "earth_km exact (central_cos exact p q)" 2000160] earth_km_bounds [of p q] by simp
qed

text \<open>
  With rounding the argument may be above 1, even from a place to itself: there is an arithmetic as exact as doubles are
  (a relative error of at most \<open>2 ^ -53\<close>) in which every place is \<open>NaN\<close> away from itself.
\<close>

definition rounding_up :: arith where
  "rounding_up = exact\<lparr>rnd := (\<lambda>x. x * (1 + 1 / 2 ^ 53))\<rparr>"

lemma rounding_up_error: "\<bar>rnd rounding_up x - x\<bar> \<le> \<bar>x\<bar> / 2 ^ 53"
  by (simp add: rounding_up_def exact_def algebra_simps)

lemma distance_to_itself_is_NaN: "earthDis rounding_up p p = ''NaN''"
proof -
  define e :: real where "e = 1 + 1 / 2 ^ 53"
  have e: "1 < e" by (simp add: e_def)
  have r: "rnd rounding_up x = e * x" "ar_sin rounding_up = sin" "ar_cos rounding_up = cos" for x
    by (simp_all add: rounding_up_def exact_def e_def)
  define a where "a = radian rounding_up (fst p)"
  have "central_cos rounding_up p p = e * (e * (sin a)\<^sup>2 + e * (e * (cos a)\<^sup>2))"
    by (simp add: central_cos_def Let_def r power2_eq_square flip: a_def)
  also have "\<dots> = e * e * ((sin a)\<^sup>2 + e * (cos a)\<^sup>2)"
    by (simp add: algebra_simps)
  finally have c: "central_cos rounding_up p p = e * e * ((sin a)\<^sup>2 + e * (cos a)\<^sup>2)" .
  have "(cos a)\<^sup>2 \<le> e * (cos a)\<^sup>2"
    using mult_right_mono [of 1 e "(cos a)\<^sup>2"] e by simp
  then have "1 \<le> (sin a)\<^sup>2 + e * (cos a)\<^sup>2"
    using sin_cos_squared_add [of a] by linarith
  moreover have "1 < e * e"
    using e by (simp add: less_1_mult)
  ultimately have "1 < e * e * ((sin a)\<^sup>2 + e * (cos a)\<^sup>2)"
    using mult_le_less_imp_less [of "1" "e * e" 1 1] by (smt (verit) mult_le_cancel_left1)
  then show ?thesis
    by (simp add: earthDis_def c)
qed

end
