(* ===== verification/RockTables.thy ===== *)
theory RockTables
  imports Rock Plugins Pager Table
begin

text \<open>
  The tables of the parked site (\<open>pager/admin/file/file.js\<close>, \<open>pager/admin/group/group.js\<close>): what is done
  with the answers that theory \<open>Rock\<close> only asks for.

  The cells with a button are made by functions that append them to the row and return nothing; the
  table plugin asks what they return to be appended.  What is made of an answer is kept beside the
  page in \<open>rt_page\<close>: the list that is shown, and the number of pages.
\<close>

subsection \<open>Files\<close>

record rock_tables =
  rt_page :: rock
  rt_files :: "table option"
  rt_groups :: "list_item list option"
  rt_nav :: "jsv option"
  rt_seek :: "string option"
  rt_overlay :: bool
  rt_wrap :: string

definition on_rock :: "(rock \<Rightarrow> rock) \<Rightarrow> rock_tables \<Rightarrow> rock_tables" where
  "on_rock f s = s\<lparr>rt_page := f (rt_page s)\<rparr>"

text \<open>\<open>f(\<dots>).appendTo(td)\<close>: of nothing it throws.\<close>

definition returned :: "string option \<Rightarrow> js_error + string" where
  "returned r = (case r of Some h \<Rightarrow> Inr h | None \<Rightarrow> Inl TypeError)"

(* src/memorypark/rock/pager/admin/file/file.js:10-28 heads *)
definition file_heads :: heads where
  "file_heads = HObj [(''id'', Title ''ID''), (''pid'', Title (utf8 [231, 136, 182, 73, 68])), (''uri'', Title ''uri''), (''remark'', Title (utf8 [229, 144, 141, 231, 167, 176])),
     (''uname'', Title (utf8 [229, 136, 155, 229, 187, 186, 232, 128, 133])), (''intime'', Title (utf8 [229, 138, 160, 229, 133, 165, 230, 151, 182, 233, 151, 180])), (''_delete'', Custom (utf8 [229, 136, 160, 233, 153, 164]) (\<lambda>row col val. returned None))]"

text \<open>The ids the rows are given.\<close>

(* src/memorypark/rock/pager/admin/file/file.js:3-9 opts_mntable *)
definition row_id :: "jsv \<Rightarrow> string" where
  "row_id row = ''mntrow'' @ to_str (fld row ''id'')"

(* src/memorypark/rock/pager/admin/file/file.js:20-27 heads, the button *)
definition file_delete :: "bool \<Rightarrow> string \<Rightarrow> rock \<Rightarrow> rock" where
  "file_delete confirmed fid s = (if confirmed then file_manageRow ''delete'' fid '''' '''' ''false'' s else s)"

text \<open>Four boxes for the four low bits of a mode; a click asks the server to change one.\<close>

(* src/memorypark/rock/pager/admin/file/file.js:29-38 displayMode *)
definition mode_boxes :: "jnum \<Rightarrow> bool list" where
  "mode_boxes m = map (\<lambda>b. to_int32 m AND b \<noteq> 0) [1, 2, 4, 8]"

(* src/memorypark/rock/pager/admin/file/file.js:39-59 displayMode, the boxes *)
definition mode_click :: "string \<Rightarrow> string \<Rightarrow> nat \<Rightarrow> bool \<Rightarrow> rock \<Rightarrow> rock" where
  "mode_click fid area i checked = file_manageRow ''modify'' fid area (nat_str (2 ^ i)) (if checked then ''true'' else ''false'')"

definition raise_on :: "js_error \<Rightarrow> rock_tables \<Rightarrow> rock_tables" where
  "raise_on e = on_rock (raise e)"

(* src/memorypark/rock/pager/admin/file/file.js:99-107 showFile, its callback *)
definition showFile_reply :: "jsv \<Rightarrow> rock_tables \<Rightarrow> rock_tables" where
  "showFile_reply data s =
     (case jsonCbkSuc data True (utf8 [232, 142, 183, 229, 143, 150, 230, 150, 135, 228, 187, 182, 229, 136, 151, 232, 161, 168, 229, 164, 177, 232, 180, 165, 33]) ''/admin/file.html'' (rt_page s) of
        (False, p) \<Rightarrow> s\<lparr>rt_page := p\<rparr>
      | (True, p) \<Rightarrow>
          (let s1 = s\<lparr>rt_page := p\<rparr>
           in case mntable file_heads (fld data ''files'') of
                Inl e \<Rightarrow> raise_on e s1
              | Inr t \<Rightarrow> s1\<lparr>rt_files := Some t, rt_nav := Some (fld data ''ttnum'')\<rparr>))"

text \<open>A file was added: to the table there is, or, where none was made, to a variable that does not exist.\<close>

(* src/memorypark/rock/pager/admin/file/file.js:128-137 opt_fileadd *)
definition fileadd_reply :: "jsv \<Rightarrow> rock_tables \<Rightarrow> rock_tables" where
  "fileadd_reply data s =
     (case jsonCbkSuc data True (utf8 [230, 147, 141, 228, 189, 156, 229, 164, 177, 232, 180, 165]) ''/admin/file.html'' (rt_page s) of
        (False, p) \<Rightarrow> s\<lparr>rt_page := p\<rparr>
      | (True, p) \<Rightarrow>
          (let s1 = s\<lparr>rt_page := p\<rparr>
           in case rt_files s1 of
                None \<Rightarrow> raise_on ReferenceError s1
              | Some t \<Rightarrow>
                  (case makeRows (snd (makeHead file_heads)) (fld data ''files'') of
                     Inl e \<Rightarrow> raise_on e s1
                   | Inr rs \<Rightarrow>
                       (let s2 = s1\<lparr>rt_files := Some (t\<lparr>tb_rows := tb_rows t @ rs, tb_rown := tb_rown t + length rs\<rparr>)\<rparr>
                        in case bind_sum (js_get (fld data ''files'') ''0'') (\<lambda>f. bind_sum (js_get f ''id'') (\<lambda>i. Inr f)) of
                             Inl e \<Rightarrow> raise_on e s2
                           | Inr f \<Rightarrow> s2\<lparr>rt_seek := Some (row_id f), rt_overlay := False\<rparr>))))"

(* src/memorypark/rock/pager/admin/file/file.js:146-155 overlay_file *)
definition file_overlay :: "string \<Rightarrow> rock_tables \<Rightarrow> rock_tables" where
  "file_overlay href s = (if rt_wrap s = [] then on_rock (send GET href []) s else s)\<lparr>rt_overlay := True\<rparr>"

subsection \<open>Groups\<close>

(* src/memorypark/rock/pager/admin/group/group.js:8-60 heads *)
definition group_heads :: heads where
  "group_heads = HObj [(''uid'', Title (utf8 [231, 148, 168, 230, 136, 183, 73, 68])), (''mode'', Custom (utf8 [230, 157, 131, 233, 153, 144, 229, 177, 158, 230, 128, 167]) (\<lambda>row col val. returned None)),
     (''status'', Custom (utf8 [231, 138, 182, 230, 128, 129]) (\<lambda>row col val. returned None)), (''_delete'', Custom (utf8 [229, 136, 160, 233, 153, 164]) (\<lambda>row col val. returned None))]"

(* src/memorypark/rock/pager/admin/group/group.js:110-115 rendRow *)
definition rendRow :: "jsv \<Rightarrow> js_error + table" where
  "rendRow row = bind_sum (js_get row ''groupinfo'') (\<lambda>g. bind_sum (js_get g ''members'') (mntable group_heads))"

(* src/memorypark/rock/pager/admin/group/group.js:117-123 opt_list *)
definition group_list :: list_opts where
  "group_list = \<lparr>lo_title = ''uri'', lo_time = ''intime'', lo_click_name = (utf8 [230, 183, 187, 229, 138, 160, 231, 148, 168, 230, 136, 183]), lo_click_href = '''', lo_toggle = True,
     lo_content = JUndef, lo_make = (\<lambda>_. '''')\<rparr>"

(* src/memorypark/rock/pager/admin/group/group.js:125-131 showGroup *)
definition showGroup :: "string \<Rightarrow> rock \<Rightarrow> rock" where
  "showGroup pg = send GET ''/admin/group'' [(''data'', JStr (pair_str ''pg'' pg))]"

text \<open>
  The rows of the groups as the list makes them; the content of a row is made by the function
  \<open>rendRow\<close>, which is called here where the list calls it.
\<close>

fun group_rows :: "type_fun \<Rightarrow> jsv list \<Rightarrow> js_error + list_item list" where
  "group_rows ty [] = Inr []"
| "group_rows ty (r # rs) =
     bind_sum (list_row ty group_list r) (\<lambda>i. bind_sum (rendRow r) (\<lambda>t. bind_sum (group_rows ty rs) (\<lambda>is. Inr (i # is))))"

(* src/memorypark/rock/pager/admin/group/group.js:133-141 showGroup, its callback *)
definition showGroup_reply :: "type_fun \<Rightarrow> jsv \<Rightarrow> rock_tables \<Rightarrow> rock_tables" where
  "showGroup_reply ty data s =
     (case jsonCbkSuc data True (utf8 [232, 142, 183, 229, 143, 150, 231, 187, 132, 229, 136, 151, 232, 161, 168, 229, 164, 177, 232, 180, 165]) ''/admin/group.html'' (rt_page s) of
        (False, p) \<Rightarrow> s\<lparr>rt_page := p\<rparr>
      | (True, p) \<Rightarrow>
          (let s1 = s\<lparr>rt_page := p\<rparr>
           in case bind_sum (call_type ty (fld data ''groups'')) (\<lambda>k.
                if k \<noteq> ''Array'' then Inl TypeError
                else case fld data ''groups'' of JArr rs \<Rightarrow> group_rows ty rs | _ \<Rightarrow> Inr []) of
                Inl e \<Rightarrow> raise_on e s1
              | Inr is \<Rightarrow> s1\<lparr>rt_groups := Some is, rt_nav := Some (fld data ''ttnum'')\<rparr>))"

(* src/memorypark/rock/pager/admin/group/group.js:98-101 addMember, its callback *)
definition groupadd_reply :: "jsv \<Rightarrow> rock \<Rightarrow> rock" where
  "groupadd_reply data s =
     (case jsonCbkSuc data True (utf8 [230, 147, 141, 228, 189, 156, 229, 164, 177, 232, 180, 165]) ''/admin/group.html'' s of (False, p) \<Rightarrow> p | (True, p) \<Rightarrow> p\<lparr>rk_group := False\<rparr>)"

subsection \<open>Lemmas\<close>

text \<open>A table with a cell that is made by a function throws at its first row.\<close>

lemma made_cell_throws:
  assumes "(k, Custom t f) \<in> set hs" "\<And>row v. f row k v = Inl TypeError"
  shows "\<exists>e. makeSpecRow hs row = Inl e"
proof -
  have "\<exists>e. map_sum_list g xs = Inl e" if "x \<in> set xs" "\<exists>e. g x = Inl e" for x xs and g :: "string \<times> head \<Rightarrow> js_error + string option \<times> string"
    using that
  proof (induction xs)
    case (Cons y ys)
    then show ?case by (cases "g y"; cases "x = y") auto
  qed simp
  moreover have "\<exists>e. spec_cell row (k, Custom t f) = Inl e"
    using assms(2) [of row] by (cases "js_get row k") (simp_all del: js_get.simps)
  moreover have "(k, Custom t f) \<in> set (filter (\<lambda>(k, h). \<not> (k = [] \<and> (case h of Title _ \<Rightarrow> True | _ \<Rightarrow> False))) hs)"
    using assms(1) by simp
  ultimately show ?thesis unfolding makeSpecRow_def by blast
qed

lemma made_table_throws:
  assumes "(k, Custom t f) \<in> set hs" "\<And>row v. f row k v = Inl TypeError" "rows \<noteq> []"
  shows "\<exists>e. mntable (HObj hs) (JArr rows) = Inl e"
proof -
  obtain r rs where r: "rows = r # rs" using assms(3) by (cases rows) auto
  obtain e where "makeSpecRow hs r = Inl e" using made_cell_throws [OF assms(1,2)] by blast
  moreover have "hs \<noteq> []" using assms(1) by auto
  ultimately have "makeRows hs (JArr rows) = Inl e" by (simp add: makeRows_def r)
  then show ?thesis by (simp add: mntable_def Let_def)
qed

subsection \<open>Properties\<close>

text \<open>
  The lists of files and of groups are never shown: an answer with a file, or with the members of a group, throws
  where the table is made, so neither the list nor its pages change, whatever the rows hold.
\<close>

theorem lists_of_the_parked_site_throw:
  assumes "loose_eq (fld data ''success'') (JStr ''1'')" "data \<noteq> JUndef" "data \<noteq> JNull" "fld data ''files'' = JArr (f # fs)"
    "fld row ''groupinfo'' = JObj gs" "fld (JObj gs) ''members'' = JArr (m # ms)"
  shows "rt_files (showFile_reply data s) = rt_files s \<and> rt_nav (showFile_reply data s) = rt_nav s \<and>
    length (thrown (rt_page (showFile_reply data s))) = length (thrown (rt_page s)) + 1 \<and> isl (rendRow row)"
proof -
  have "\<exists>e. mntable file_heads (JArr (f # fs)) = Inl e"
    unfolding file_heads_def by (rule made_table_throws [of "''_delete''"]) (simp_all add: returned_def)
  then obtain e where e: "mntable file_heads (JArr (f # fs)) = Inl e" by blast
  have "\<exists>e. mntable group_heads (JArr (m # ms)) = Inl e"
    unfolding group_heads_def by (rule made_table_throws [of "''_delete''"]) (simp_all add: returned_def)
  then obtain e' where g: "mntable group_heads (JArr (m # ms)) = Inl e'" by blast
  have "isl (rendRow row)"
  proof (cases "js_get row ''groupinfo''")
    case (Inr v)
    then have "v = JObj gs" using assms(5) by (simp add: fld_def)
    then show ?thesis using Inr assms(6) g by (simp add: rendRow_def)
  qed (simp add: rendRow_def)
  then show ?thesis using assms(1-4) e
    by (simp add: showFile_reply_def jsonCbkSuc_def raise_on_def on_rock_def raise_def alert_def)
qed


theorem lists_of_the_parked_site_throw_witness:
  "\<exists>s. length (thrown (rt_page (showFile_reply (JObj [(''success'', JStr ''1''), (''files'', JArr [JObj [(''id'', jint 1)]])]) s))) =
     length (thrown (rt_page s)) + 1 \<and> isl (rendRow (JObj [(''groupinfo'', JObj [(''members'', JArr [JObj []])])]))"
  using lists_of_the_parked_site_throw [of "JObj [(''success'', JStr ''1''), (''files'', JArr [JObj [(''id'', jint 1)]])]"
      "JObj [(''id'', jint 1)]" "[]" "JObj [(''groupinfo'', JObj [(''members'', JArr [JObj []])])]" "[(''members'', JArr [JObj []])]" "JObj []" "[]"]
  by simp

end
