(* ===== verification/JsDate.thy ===== *)
theory JsDate
  imports JsValue
begin

text \<open>
  The dates of the language: a date is a number of milliseconds since 1970, or invalid.  The time
  is kept as the local one; the offset of the time zone is taken to be the same all year (the sites
  are for China, which has no summer time), so that getting and setting the local fields is the
  arithmetic of the ECMAScript standard: \<open>day_from_year\<close>, \<open>make_day\<close> and \<open>time_clip\<close> are its
  \<open>DayFromYear\<close>, \<open>MakeDay\<close> and \<open>TimeClip\<close>.  The theorems say that days and calendar dates are in
  bijection (\<open>civil_day_no\<close>, \<open>day_no_civil\<close>), in the order of the calendar.
\<close>

subsection \<open>Years\<close>

definition leap :: "int \<Rightarrow> bool" where
  "leap y \<longleftrightarrow> (4 dvd y \<and> \<not> 100 dvd y) \<or> 400 dvd y"

definition day_from_year :: "int \<Rightarrow> int" where
  "day_from_year y = 365 * (y - 1970) + (y - 1969) div 4 - (y - 1901) div 100 + (y - 1601) div 400"

definition year_len :: "int \<Rightarrow> int" where
  "year_len y = (if leap y then 366 else 365)"

lemma div_step: "0 < (k :: int) \<Longrightarrow> (n + 1) div k = n div k + (if k dvd n + 1 then 1 else 0)"
proof -
  assume k: "0 < k"
  show ?thesis
  proof (cases "k dvd n + 1")
    case True
    then obtain q where "n + 1 = k * q" by (auto elim: dvdE)
    moreover from this have "n = k * (q - 1) + (k - 1)" by (simp add: algebra_simps)
    then have "n div k = q - 1" using k by (intro int_div_pos_eq [where r = "k - 1"]) auto
    ultimately show ?thesis using k by simp
  next
    case False
    have n: "n = k * (n div k) + n mod k" by simp
    have "n mod k \<noteq> k - 1"
    proof
      assume "n mod k = k - 1"
      then have "n + 1 = k * (n div k + 1)" using n by (simp only: distrib_left mult_1_right)
      then show False using False by simp
    qed
    then have "0 \<le> n mod k + 1" "n mod k + 1 < k" using k pos_mod_bound [of k n] pos_mod_sign [of k n] by linarith+
    then have "(n + 1) div k = n div k" by (intro int_div_pos_eq [where r = "n mod k + 1"]) (use n in linarith)+
    then show ?thesis using False by simp
  qed
qed

lemma dvd_shift: "k dvd c \<Longrightarrow> k dvd y - c \<longleftrightarrow> k dvd (y :: int)"
  by (metis dvd_diff_commute dvd_diff dvd_add diff_add_cancel)

lemma year_steps:
  "(y + 1 - 1969) div 4 = (y - 1969) div 4 + (if 4 dvd y then 1 else 0)"
  "(y + 1 - 1901) div 100 = (y - 1901) div 100 + (if 100 dvd y then 1 else 0)"
  "(y + 1 - 1601) div 400 = (y - 1601) div 400 + (if 400 dvd y then 1 else (0 :: int))"
proof -
  have d: "4 dvd y - 1968 \<longleftrightarrow> 4 dvd y" "100 dvd y - 1900 \<longleftrightarrow> 100 dvd y" "400 dvd y - 1600 \<longleftrightarrow> 400 dvd y"
    by (rule dvd_shift, simp)+
  have e: "y + 1 - 1969 = y - 1969 + 1" "y + 1 - 1901 = y - 1901 + 1" "y + 1 - 1601 = y - 1601 + 1"
    "y - 1969 + 1 = y - 1968" "y - 1901 + 1 = y - 1900" "y - 1601 + 1 = y - 1600" by simp_all
  show "(y + 1 - 1969) div 4 = (y - 1969) div 4 + (if 4 dvd y then 1 else 0)"
    unfolding e(1) using div_step [of 4 "y - 1969"] unfolding e(4) d by simp
  show "(y + 1 - 1901) div 100 = (y - 1901) div 100 + (if 100 dvd y then 1 else 0)"
    unfolding e(2) using div_step [of 100 "y - 1901"] unfolding e(5) d by simp
  show "(y + 1 - 1601) div 400 = (y - 1601) div 400 + (if 400 dvd y then 1 else 0)"
    unfolding e(3) using div_step [of 400 "y - 1601"] unfolding e(6) d by simp
qed

lemma day_from_year_step: "day_from_year (y + 1) = day_from_year y + year_len y"
proof -
  obtain a b c where abc: "(y - 1969) div 4 = a" "(y - 1901) div 100 = b" "(y - 1601) div 400 = c" by simp
  have "100 dvd y \<Longrightarrow> 4 dvd y" "400 dvd y \<Longrightarrow> 100 dvd y"
    using dvd_trans [of 4 100 y] dvd_trans [of 100 400 y] by simp_all
  then show ?thesis unfolding day_from_year_def year_len_def leap_def year_steps abc by auto
qed

lemma day_from_year_mono: "x < y \<Longrightarrow> day_from_year x + 365 \<le> day_from_year y"
proof (induction y rule: int_gr_induct)
  case base
  then show ?case by (simp add: day_from_year_step year_len_def)
next
  case (step i)
  then show ?case using day_from_year_step [of i] by (simp add: year_len_def split: if_splits)
qed

text \<open>\<open>YearFromTime\<close>: the year whose days the day is among, from an estimate that is off by one at most.\<close>

definition year_of_day :: "int \<Rightarrow> int" where
  "year_of_day d =
     (let y = 1970 + d * 400 div 146097
      in if d < day_from_year y then y - 1 else if day_from_year (y + 1) \<le> d then y + 1 else y)"

lemma div_bounds: "0 < k \<Longrightarrow> k * (n div k) \<le> n" "0 < k \<Longrightarrow> n < k * (n div k) + (k :: int)"
  using mult_div_mod_eq [of k n] pos_mod_bound [of k n] pos_mod_sign [of k n] by linarith+

lemma day_from_year_estimate:
  "146097 * (y - 1970) - 600 \<le> 400 * day_from_year y \<and> 400 * day_from_year y \<le> 146097 * (y - 1970) + 600"
proof -
  define a where "a = (y - 1969) div 4"
  define b where "b = (y - 1901) div 100"
  define c where "c = (y - 1601) div 400"
  have "4 * a \<le> y - 1969" "y - 1969 < 4 * a + 4" "100 * b \<le> y - 1901" "y - 1901 < 100 * b + 100"
    "400 * c \<le> y - 1601" "y - 1601 < 400 * c + 400"
    unfolding a_def b_def c_def by (simp_all only: div_bounds zero_less_numeral)
  then show ?thesis
    unfolding day_from_year_def a_def [symmetric] b_def [symmetric] c_def [symmetric]
    by (simp only: distrib_left right_diff_distrib) linarith
qed

lemma year_of_day_iff: "year_of_day d = y \<longleftrightarrow> day_from_year y \<le> d \<and> d < day_from_year (y + 1)"
proof -
  define z where "z = 1970 + d * 400 div 146097"
  have z: "146097 * (z - 1970) \<le> 400 * d \<and> 400 * d < 146097 * (z - 1970) + 146097"
  proof -
    obtain q r where qr: "q = d * 400 div 146097" "r = d * 400 mod 146097" by simp
    have "d * 400 = q * 146097 + r" unfolding qr by (rule div_mult_mod_eq [symmetric])
    moreover have "0 \<le> r" "r < 146097" by (simp_all add: qr)
    moreover have z: "z - 1970 = q" by (simp add: z_def qr)
    ultimately show ?thesis unfolding z by (intro conjI) linarith+
  qed
  have "day_from_year (z - 1) \<le> d"
    using day_from_year_estimate [of "z - 1"] z by (auto simp: right_diff_distrib)
  moreover have "d < day_from_year (z + 2)"
    using day_from_year_estimate [of "z + 2"] z by (auto simp: right_diff_distrib distrib_left)
  ultimately have in_year: "day_from_year (year_of_day d) \<le> d \<and> d < day_from_year (year_of_day d + 1)"
    unfolding year_of_day_def z_def [symmetric] Let_def by (auto simp: add.assoc)
  show ?thesis
  proof
    assume y: "day_from_year y \<le> d \<and> d < day_from_year (y + 1)"
    show "year_of_day d = y"
    proof (rule ccontr)
      assume "year_of_day d \<noteq> y"
      then consider "year_of_day d + 1 \<le> y" | "y + 1 \<le> year_of_day d" by linarith
      then show False
      proof cases
        case 1
        then have "day_from_year (year_of_day d + 1) \<le> day_from_year y"
          using day_from_year_mono [of "year_of_day d + 1" y] by (cases "year_of_day d + 1 = y") auto
        then show False using in_year y by linarith
      next
        case 2
        then have "day_from_year (y + 1) \<le> day_from_year (year_of_day d)"
          using day_from_year_mono [of "y + 1" "year_of_day d"] by (cases "year_of_day d = y + 1") auto
        then show False using in_year y by linarith
      qed
    qed
  qed (use in_year in auto)
qed


subsection \<open>Months and days\<close>

definition month_lens :: "int \<Rightarrow> int list" where
  "month_lens y = [31, if leap y then 29 else 28, 31, 30, 31, 30, 31, 31, 30, 31, 30, 31]"

fun split_month :: "int list \<Rightarrow> int \<Rightarrow> int \<times> int" where
  "split_month [] r = (0, r)"
| "split_month (n # ns) r = (if r < n then (0, r) else (let (m, q) = split_month ns (r - n) in (m + 1, q)))"

lemma length_month_lens [simp]: "length (month_lens y) = 12"
  by (simp add: month_lens_def)

lemma sum_month_lens: "sum_list (month_lens y) = year_len y"
  by (simp add: month_lens_def year_len_def)

lemma month_lens_pos: "n \<in> set (month_lens y) \<Longrightarrow> 28 \<le> n \<and> n \<le> 31"
  by (auto simp: month_lens_def)

lemma split_month_sum:
  "m < length ns \<Longrightarrow> (\<And>n. n \<in> set ns \<Longrightarrow> 0 \<le> n) \<Longrightarrow> 0 \<le> r \<Longrightarrow> r < ns ! m \<Longrightarrow>
     split_month ns (sum_list (take m ns) + r) = (int m, r)"
proof (induction ns arbitrary: m)
  case (Cons n ns)
  show ?case
  proof (cases m)
    case (Suc k)
    have "0 \<le> sum_list (take k ns)" using Cons.prems(2) by (intro sum_list_nonneg) (auto dest: in_set_takeD)
    then show ?thesis using Cons Suc by (simp add: add.assoc)
  qed (use Cons.prems in simp)
qed simp

lemma split_month_inv:
  "0 \<le> r \<Longrightarrow> r < sum_list ns \<Longrightarrow>
     (case split_month ns r of (m, q) \<Rightarrow> 0 \<le> m \<and> nat m < length ns \<and> 0 \<le> q \<and> q < ns ! nat m \<and> sum_list (take (nat m) ns) + q = r)"
proof (induction ns arbitrary: r)
  case (Cons n ns)
  show ?case
  proof (cases "r < n")
    case False
    obtain m q where mq: "split_month ns (r - n) = (m, q)" by fastforce
    have "0 \<le> m \<and> nat m < length ns \<and> 0 \<le> q \<and> q < ns ! nat m \<and> sum_list (take (nat m) ns) + q = r - n"
      using Cons.IH [of "r - n"] Cons.prems False by (simp add: mq)
    then show ?thesis using False by (simp add: mq Let_def nat_add_distrib)
  qed (use Cons.prems in simp)
qed simp

definition month_start :: "int \<Rightarrow> nat \<Rightarrow> int" where
  "month_start y m = sum_list (take m (month_lens y))"

definition month_len :: "int \<Rightarrow> int \<Rightarrow> int" where
  "month_len y m = month_lens y ! nat m"

text \<open>\<open>MakeDay\<close>: months before January and after December are those of other years, days may be any.\<close>

definition make_day :: "int \<Rightarrow> int \<Rightarrow> int \<Rightarrow> int" where
  "make_day y m d = day_from_year (y + m div 12) + month_start (y + m div 12) (nat (m mod 12)) + d - 1"

text \<open>The year, the month from 0 and the day of the month of a day.\<close>

definition civil :: "int \<Rightarrow> int \<times> int \<times> int" where
  "civil d = (let y = year_of_day d; (m, q) = split_month (month_lens y) (d - day_from_year y) in (y, m, q + 1))"

definition valid_civil :: "int \<times> int \<times> int \<Rightarrow> bool" where
  "valid_civil = (\<lambda>(y, m, d). 0 \<le> m \<and> m < 12 \<and> 1 \<le> d \<and> d \<le> month_len y m)"

lemma month_len_bounds: "0 \<le> m \<Longrightarrow> m < 12 \<Longrightarrow> 28 \<le> month_len y m \<and> month_len y m \<le> 31"
  unfolding month_len_def by (intro month_lens_pos [where y = y] nth_mem) simp

lemma month_start_Suc: "m < 12 \<Longrightarrow> month_start y (Suc m) = month_start y m + month_len y (int m)"
  by (simp add: month_start_def month_len_def take_Suc_conv_app_nth)

lemma month_start_12: "month_start y 12 = year_len y"
  by (simp add: month_start_def sum_month_lens)

lemma month_start_nonneg: "0 \<le> month_start y m"
  unfolding month_start_def by (intro sum_list_nonneg) (use month_lens_pos in \<open>fastforce dest: in_set_takeD\<close>)

lemma month_start_mono: "m \<le> n \<Longrightarrow> month_start y m \<le> month_start y n"
proof -
  assume "m \<le> n"
  then have "take n (month_lens y) = take m (month_lens y) @ take (n - m) (drop m (month_lens y))"
    by (metis le_add_diff_inverse take_add)
  moreover have "0 \<le> sum_list (take (n - m) (drop m (month_lens y)))"
    by (intro sum_list_nonneg) (use month_lens_pos in \<open>fastforce dest: in_set_takeD in_set_dropD\<close>)
  ultimately show ?thesis by (simp add: month_start_def)
qed

lemma civil_day_no:
  assumes "valid_civil (y, m, d)"
  shows "civil (make_day y m d) = (y, m, d)"
proof -
  have v: "0 \<le> m" "m < 12" "1 \<le> d" "d \<le> month_len y m" using assms by (simp_all add: valid_civil_def)
  define s where "s = month_start y (nat m)"
  have "s + month_len y m \<le> year_len y"
    using month_start_Suc [of "nat m" y] month_start_mono [of "Suc (nat m)" 12 y] v by (simp add: s_def month_start_12)
  moreover have "0 \<le> s" by (simp add: s_def month_start_nonneg)
  moreover have md: "make_day y m d = day_from_year y + s + (d - 1)"
    using v by (simp add: make_day_def s_def)
  ultimately have "year_of_day (make_day y m d) = y"
    using v by (simp add: year_of_day_iff day_from_year_step)
  moreover have "split_month (month_lens y) (s + (d - 1)) = (int (nat m), d - 1)"
    unfolding s_def month_start_def using v
    by (intro split_month_sum) (auto simp: month_len_def dest: month_lens_pos)
  ultimately show ?thesis using v by (simp add: civil_def md add.assoc)
qed

lemma day_no_civil: "case civil x of (y, m, d) \<Rightarrow> valid_civil (y, m, d) \<and> make_day y m d = x"
proof -
  define y where "y = year_of_day x"
  have y: "day_from_year y \<le> x" "x < day_from_year y + year_len y"
    using year_of_day_iff [of x y] by (simp_all add: y_def day_from_year_step)
  obtain m q where mq: "split_month (month_lens y) (x - day_from_year y) = (m, q)" by fastforce
  have "0 \<le> m \<and> nat m < 12 \<and> 0 \<le> q \<and> q < month_lens y ! nat m \<and> sum_list (take (nat m) (month_lens y)) + q = x - day_from_year y"
    using split_month_inv [of "x - day_from_year y" "month_lens y"] y by (simp add: mq sum_month_lens)
  moreover from this have "m div 12 = 0" "m mod 12 = m" "m < 12" by auto
  ultimately show ?thesis
    by (simp add: civil_def y_def [symmetric] mq valid_civil_def month_len_def make_day_def month_start_def)
qed


lemma civil_make_day_shift:
  assumes "0 \<le> m mod 12" "1 \<le> d" "d \<le> month_len (y + m div 12) (m mod 12)"
  shows "civil (make_day y m d) = (y + m div 12, m mod 12, d)"
proof -
  have "make_day y m d = make_day (y + m div 12) (m mod 12) d" by (simp add: make_day_def)
  then show ?thesis using assms civil_day_no [of "y + m div 12" "m mod 12" d] by (simp add: valid_civil_def)
qed

lemma make_day_add: "make_day y m (d + k) = make_day y m d + k"
  by (simp add: make_day_def)

text \<open>The first day of the next month is the one after the last.\<close>

lemma make_day_next_month: "make_day y (m + 1) d = make_day y m (month_len (y + m div 12) (m mod 12) + d)"
proof (cases "m mod 12 = 11")
  case True
  then obtain q where q: "m = 12 * q + 11" by (metis mult_div_mod_eq)
  then have "m + 1 = 12 * (q + 1)" "m div 12 = q" by simp_all
  then have "(m + 1) div 12 = m div 12 + 1" "(m + 1) mod 12 = 0" by (metis nonzero_mult_div_cancel_left zero_neq_numeral, simp)
  moreover have "month_start z 11 + month_len z 11 = year_len z" for z
    using month_start_Suc [of 11 z] month_start_12 [of z] by (simp add: eval_nat_numeral)
  ultimately show ?thesis using True day_from_year_step [of "y + m div 12"]
    by (simp add: make_day_def month_start_def algebra_simps)
next
  case False
  have r: "0 \<le> m mod 12" "m mod 12 < 12" by simp_all
  then have l: "0 \<le> m mod 12" "m mod 12 + 1 < 12" using False by linarith+
  have "m + 1 = m div 12 * 12 + (m mod 12 + 1)" by simp
  then have "(m + 1) div 12 = m div 12 \<and> (m + 1) mod 12 = m mod 12 + 1"
    using l by (metis int_div_pos_eq int_mod_pos_eq add_nonneg_nonneg mult.commute zero_le_one)
  moreover have "month_start z (nat (m mod 12 + 1)) = month_start z (nat (m mod 12)) + month_len z (m mod 12)" for z
    using month_start_Suc [of "nat (m mod 12)" z] l by (simp add: nat_add_distrib)
  ultimately show ?thesis by (simp add: make_day_def)
qed

subsection \<open>Order\<close>

text \<open>Days are in the order of their months, and within a month in that of their dates.\<close>

definition month_no :: "int \<Rightarrow> int \<Rightarrow> int" where
  "month_no y m = 12 * y + m"

lemma make_day_month_mono: "month_no y m < month_no z n \<Longrightarrow> make_day y m 1 + 28 \<le> make_day z n 1"
proof -
  have norm: "make_day y m d = make_day 0 (month_no y m) d" for y m d
    by (simp add: make_day_def month_no_def)
  have step: "make_day 0 k 1 + 28 \<le> make_day 0 (k + 1) 1" for k
    using make_day_next_month [of 0 k 1] month_len_bounds [of "k mod 12" "k div 12"]
      make_day_add [of 0 k 1 "month_len (k div 12) (k mod 12)"] by (simp add: add.commute)
  assume "month_no y m < month_no z n"
  then have "make_day 0 (month_no y m) 1 + 28 \<le> make_day 0 (month_no z n) 1"
  proof (induction "month_no z n" arbitrary: z n rule: int_gr_induct)
    case base
    then show ?case using step [of "month_no y m"] by metis
  next
    case (step i)
    have "make_day 0 (month_no y m) 1 + 28 \<le> make_day 0 i 1" using step(2) [of 0 i] by (simp add: month_no_def)
    then show ?case using \<open>\<And>k. make_day 0 k 1 + 28 \<le> make_day 0 (k + 1) 1\<close> [of i] step(3) by simp
  qed
  then show ?thesis by (simp add: norm [of y m] norm [of z n])
qed

subsection \<open>Dates\<close>

definition ms_day :: int where
  "ms_day = 86400000"

text \<open>\<open>None\<close> is an invalid date.\<close>

type_synonym jsdate = "int option"

definition time_clip :: "int \<Rightarrow> jsdate" where
  "time_clip t = (if \<bar>t\<bar> \<le> 8640000000000000 then Some t else None)"

definition day_of :: "int \<Rightarrow> int" where
  "day_of t = t div ms_day"

definition time_of :: "int \<Rightarrow> int" where
  "time_of t = t mod ms_day"

definition getFullYear :: "int \<Rightarrow> int" where
  "getFullYear t = fst (civil (day_of t))"

definition getMonth :: "int \<Rightarrow> int" where
  "getMonth t = fst (snd (civil (day_of t)))"

definition getDate :: "int \<Rightarrow> int" where
  "getDate t = snd (snd (civil (day_of t)))"

definition getDay :: "int \<Rightarrow> int" where
  "getDay t = (day_of t + 4) mod 7"

definition at_time :: "int \<Rightarrow> int \<Rightarrow> int" where
  "at_time d tm = d * ms_day + tm"

text \<open>The setters, and \<open>new Date(y, m, d, h, 0, 0)\<close>, in which a year below 100 is one of the 1900s.\<close>

definition setFullYear :: "int \<Rightarrow> jsdate \<Rightarrow> jsdate" where
  "setFullYear y d = (let t = (case d of None \<Rightarrow> 0 | Some t \<Rightarrow> t)
     in time_clip (at_time (make_day y (getMonth t) (getDate t)) (time_of t)))"

definition full_year :: "int \<Rightarrow> int" where
  "full_year y = (if 0 \<le> y \<and> y \<le> 99 then 1900 + y else y)"

definition setYear :: "int \<Rightarrow> jsdate \<Rightarrow> jsdate" where
  "setYear y = setFullYear (full_year y)"

definition setMonth :: "int \<Rightarrow> jsdate \<Rightarrow> jsdate" where
  "setMonth m d = (case d of None \<Rightarrow> None
     | Some t \<Rightarrow> time_clip (at_time (make_day (getFullYear t) m (getDate t)) (time_of t)))"

definition setDate :: "int \<Rightarrow> jsdate \<Rightarrow> jsdate" where
  "setDate n d = (case d of None \<Rightarrow> None
     | Some t \<Rightarrow> time_clip (at_time (make_day (getFullYear t) (getMonth t) n) (time_of t)))"

definition setHours :: "int \<Rightarrow> jsdate \<Rightarrow> jsdate" where
  "setHours h d = (case d of None \<Rightarrow> None | Some t \<Rightarrow> time_clip (at_time (day_of t) (h * 3600000 + t mod 3600000)))"

definition setMinutes :: "int \<Rightarrow> jsdate \<Rightarrow> jsdate" where
  "setMinutes m d = (case d of None \<Rightarrow> None | Some t \<Rightarrow> time_clip (t div 3600000 * 3600000 + m * 60000 + t mod 60000))"

definition setSeconds :: "int \<Rightarrow> jsdate \<Rightarrow> jsdate" where
  "setSeconds s d = (case d of None \<Rightarrow> None | Some t \<Rightarrow> time_clip (t div 60000 * 60000 + s * 1000 + t mod 1000))"

definition setMilliseconds :: "int \<Rightarrow> jsdate \<Rightarrow> jsdate" where
  "setMilliseconds n d = (case d of None \<Rightarrow> None | Some t \<Rightarrow> time_clip (t div 1000 * 1000 + n))"

definition new_date :: "int \<Rightarrow> int \<Rightarrow> int \<Rightarrow> int \<Rightarrow> jsdate" where
  "new_date y m d h = time_clip (at_time (make_day (full_year y) m d) (h * 3600000))"

lemma day_at_time [simp]: "0 \<le> tm \<Longrightarrow> tm < ms_day \<Longrightarrow> day_of (at_time d tm) = d"
  by (simp add: day_of_def at_time_def ms_day_def)

lemma time_at_time [simp]: "0 \<le> tm \<Longrightarrow> tm < ms_day \<Longrightarrow> time_of (at_time d tm) = tm"
  by (simp add: time_of_def at_time_def ms_day_def)

lemma time_of_bounds [simp]: "0 \<le> time_of t" "time_of t < ms_day"
  by (simp_all add: time_of_def ms_day_def)

lemma at_time_day_of [simp]: "at_time (day_of t) (time_of t) = t"
  by (simp add: at_time_def day_of_def time_of_def)

lemma at_time_le: "d \<le> e \<Longrightarrow> at_time d tm \<le> at_time e tm"
  by (simp add: at_time_def ms_day_def)

lemma fields_eq: "civil (day_of t) = (getFullYear t, getMonth t, getDate t)"
  by (simp add: getFullYear_def getMonth_def getDate_def)

lemma fields_valid: "valid_civil (getFullYear t, getMonth t, getDate t)"
  using day_no_civil [of "day_of t"] by (simp add: fields_eq)

lemma fields_bounds: "0 \<le> getMonth t" "getMonth t < 12" "1 \<le> getDate t" "getDate t \<le> month_len (getFullYear t) (getMonth t)"
  using fields_valid [of t] by (simp_all add: valid_civil_def)

lemma make_day_fields [simp]: "make_day (getFullYear t) (getMonth t) (getDate t) = day_of t"
  using day_no_civil [of "day_of t"] by (simp add: fields_eq)

lemma fields_at_time:
  assumes "valid_civil (y, m, d)" "0 \<le> tm" "tm < ms_day"
  shows "getFullYear (at_time (make_day y m d) tm) = y" "getMonth (at_time (make_day y m d) tm) = m"
    "getDate (at_time (make_day y m d) tm) = d"
  using assms civil_day_no [of y m d] by (simp_all add: getFullYear_def getMonth_def getDate_def)

end
