(* ===== verification/DateExt.thy ===== *)
theory DateExt
  imports JsDate JsMatch FormPanel
begin

text \<open>
  The extension of dates that the calendars use (\<open>lib/js/datepicker/date.js\<close>), with its Chinese names
  (\<open>date_zh.js\<close>): the calendar functions, the sums of dates, and dates as text in a format.

  The theorems say that adding months keeps the day, or takes the last one of a shorter month; that
  a date is read back from its text in the format of the sites, and by
  \<open>setDayOfYear_getDayOfYear\<close> that the two functions on the day of the year count from different days.

  \<open>new Date('1/1/' + y)\<close>, which engines read as the first of January of a year written with three digits or more, is
  \<open>make_day y 0 1\<close>.  In the pattern that is made of a format, a separator stands for itself: the
  formats of the file separate with a space, a slash or a hyphen.
\<close>

subsection \<open>Names\<close>

record date_names =
  dayNames :: "string list"
  abbrDayNames :: "string list"
  monthNames :: "string list"
  abbrMonthNames :: "string list"
  firstDayOfWeek :: int
  date_format :: string

(* src/lib/js/datepicker/date.js:30-88 Date.dayNames to Date.format *)
definition en_names :: date_names where
  "en_names = \<lparr>
     dayNames = [''Sunday'', ''Monday'', ''Tuesday'', ''Wednesday'', ''Thursday'', ''Friday'', ''Saturday''],
     abbrDayNames = [''Sun'', ''Mon'', ''Tue'', ''Wed'', ''Thu'', ''Fri'', ''Sat''],
     monthNames = [''January'', ''February'', ''March'', ''April'', ''May'', ''June'', ''July'', ''August'',
       ''September'', ''October'', ''November'', ''December''],
     abbrMonthNames = [''Jan'', ''Feb'', ''Mar'', ''Apr'', ''May'', ''Jun'', ''Jul'', ''Aug'', ''Sep'', ''Oct'', ''Nov'', ''Dec''],
     firstDayOfWeek = 1,
     date_format = ''yyyy-mm-dd''\<rparr>"

(* src/lib/js/datepicker/date_zh.js:2-8 the Chinese names *)
definition zh_names :: date_names where
  "zh_names = \<lparr>
     dayNames = [(utf8 [230, 151, 165]), (utf8 [228, 184, 128]), (utf8 [228, 186, 140]), (utf8 [228, 184, 137]), (utf8 [229, 155, 155]), (utf8 [228, 186, 148]), (utf8 [229, 133, 173])],
     abbrDayNames = [(utf8 [230, 151, 165]), (utf8 [228, 184, 128]), (utf8 [228, 186, 140]), (utf8 [228, 184, 137]), (utf8 [229, 155, 155]), (utf8 [228, 186, 148]), (utf8 [229, 133, 173])],
     monthNames = [(utf8 [228, 184, 128, 230, 156, 136]), (utf8 [228, 186, 140, 230, 156, 136]), (utf8 [228, 184, 137, 230, 156, 136]), (utf8 [229, 155, 155, 230, 156, 136]), (utf8 [228, 186, 148, 230, 156, 136]), (utf8 [229, 133, 173, 230, 156, 136]), (utf8 [228, 184, 131, 230, 156, 136]), (utf8 [229, 133, 171, 230, 156, 136]), (utf8 [228, 185, 157, 230, 156, 136]), (utf8 [229, 141, 129, 230, 156, 136]), (utf8 [229, 141, 129, 228, 184, 128, 230, 156, 136]), (utf8 [229, 141, 129, 228, 186, 140, 230, 156, 136])],
     abbrMonthNames = [(utf8 [228, 184, 128]), (utf8 [228, 186, 140]), (utf8 [228, 184, 137]), (utf8 [229, 155, 155]), (utf8 [228, 186, 148]), (utf8 [229, 133, 173]), (utf8 [228, 184, 131]), (utf8 [229, 133, 171]), (utf8 [228, 185, 157]), (utf8 [229, 141, 129]), (utf8 [229, 141, 129, 228, 184, 128]), (utf8 [229, 141, 129, 228, 186, 140])],
     firstDayOfWeek = 1,
     date_format = ''yyyy-mmm-dd''\<rparr>"

subsection \<open>The calendar\<close>

(* src/lib/js/datepicker/date.js:128-131 isLeapYear *)
definition isLeapYear :: "int \<Rightarrow> bool" where
  "isLeapYear t = (let y = getFullYear t in (y mod 4 = 0 \<and> y mod 100 \<noteq> 0) \<or> y mod 400 = 0)"

(* src/lib/js/datepicker/date.js:144-146 isWeekend *)
definition isWeekend :: "int \<Rightarrow> bool" where
  "isWeekend t \<longleftrightarrow> getDay t = 0 \<or> getDay t = 6"

(* src/lib/js/datepicker/date.js:159-161 isWeekDay *)
definition isWeekDay :: "int \<Rightarrow> bool" where
  "isWeekDay t \<longleftrightarrow> \<not> isWeekend t"

(* src/lib/js/datepicker/date.js:174-176 getDaysInMonth *)
definition getDaysInMonth :: "int \<Rightarrow> int" where
  "getDaysInMonth t = [31, if isLeapYear t then 29 else 28, 31, 30, 31, 30, 31, 31, 30, 31, 30, 31] ! nat (getMonth t)"

(* src/lib/js/datepicker/date.js:194-196 getDayName *)
definition getDayName :: "date_names \<Rightarrow> bool \<Rightarrow> int \<Rightarrow> string" where
  "getDayName nm abbreviated t = (if abbreviated then abbrDayNames nm else dayNames nm) ! nat (getDay t)"

(* src/lib/js/datepicker/date.js:214-216 getMonthName *)
definition getMonthName :: "date_names \<Rightarrow> bool \<Rightarrow> int \<Rightarrow> string" where
  "getMonthName nm abbreviated t = (if abbreviated then abbrMonthNames nm else monthNames nm) ! nat (getMonth t)"

(* src/lib/js/datepicker/date.js:229-232 getDayOfYear *)
definition getDayOfYear :: "int \<Rightarrow> int" where
  "getDayOfYear t = (t - at_time (make_day (getFullYear t) 0 1) 0) div 86400000"

(* src/lib/js/datepicker/date.js:245-247 getWeekOfYear *)
definition getWeekOfYear :: "int \<Rightarrow> int" where
  "getWeekOfYear t = - (- getDayOfYear t div 7)"

(* src/lib/js/datepicker/date.js:261-265 setDayOfYear *)
definition setDayOfYear :: "int \<Rightarrow> jsdate \<Rightarrow> jsdate" where
  "setDayOfYear day d = setDate day (setMonth 0 d)"

text \<open>An invalid date stays one: its fields are \<open>NaN\<close>, and so is every sum with them.\<close>

(* src/lib/js/datepicker/date.js:279-282 addYears *)
definition addYears :: "int \<Rightarrow> jsdate \<Rightarrow> jsdate" where
  "addYears num d = Option.bind d (\<lambda>t. setFullYear (getFullYear t + num) d)"

(* src/lib/js/datepicker/date.js:319-323 addDays *)
definition addDays :: "int \<Rightarrow> jsdate \<Rightarrow> jsdate" where
  "addDays num d = Option.bind d (\<lambda>t. time_clip (t + num * 86400000))"

(* src/lib/js/datepicker/date.js:296-305 addMonths *)
definition addMonths :: "int \<Rightarrow> jsdate \<Rightarrow> jsdate" where
  "addMonths num d = Option.bind d (\<lambda>t. let tmpdtm = getDate t
     in Option.bind (setMonth (getMonth t + num) d) (\<lambda>u.
          if tmpdtm > getDate u then addDays (- getDate u) (Some u) else Some u))"

(* src/lib/js/datepicker/date.js:337-340 addHours *)
definition addHours :: "int \<Rightarrow> jsdate \<Rightarrow> jsdate" where
  "addHours num d = Option.bind d (\<lambda>t. setHours (time_of t div 3600000 + num) d)"

(* src/lib/js/datepicker/date.js:354-357 addMinutes *)
definition addMinutes :: "int \<Rightarrow> jsdate \<Rightarrow> jsdate" where
  "addMinutes num d = Option.bind d (\<lambda>t. setMinutes (t mod 3600000 div 60000 + num) d)"

(* src/lib/js/datepicker/date.js:371-374 addSeconds *)
definition addSeconds :: "int \<Rightarrow> jsdate \<Rightarrow> jsdate" where
  "addSeconds num d = Option.bind d (\<lambda>t. setSeconds (t mod 60000 div 1000 + num) d)"

(* src/lib/js/datepicker/date.js:389-395 zeroTime *)
definition zeroTime :: "jsdate \<Rightarrow> jsdate" where
  "zeroTime d = setHours 0 (setMinutes 0 (setSeconds 0 (setMilliseconds 0 d)))"

subsection \<open>Dates as text\<close>

(* src/lib/js/datepicker/date.js:501-505 _zeroPad *)
definition zeroPad :: "int \<Rightarrow> string" where
  "zeroPad num = (let s = CHR ''0'' # int_str num in drop (length s - 2) s)"

text \<open>\<open>r.split(l).join(x)\<close>\<close>

definition subst_all :: "string \<Rightarrow> string \<Rightarrow> string \<Rightarrow> string" where
  "subst_all l x r = join x (split_str l [] r)"

text \<open>
  The text of a date: for an invalid one every number is \<open>NaN\<close>, padded to its last two letters, and the missing name of
  a month joins with commas.
\<close>

(* src/lib/js/datepicker/date.js:410-424 asString *)
definition asString :: "date_names \<Rightarrow> string \<Rightarrow> jsdate \<Rightarrow> string" where
  "asString nm f d =
     (let mname = (\<lambda>ab. case d of Some t \<Rightarrow> getMonthName nm ab t | None \<Rightarrow> '','');
          num = (\<lambda>g. case d of Some t \<Rightarrow> int_str (g t) | None \<Rightarrow> ''NaN'');
          pad = (\<lambda>g. case d of Some t \<Rightarrow> zeroPad (g t) | None \<Rightarrow> ''aN'');
          r1 = (if 1 < length (split_str ''mm'' [] f)
                then subst_all ''mm'' (pad (\<lambda>t. getMonth t + 1))
                       (subst_all ''mmm'' (mname True) (subst_all ''mmmm'' (mname False) f))
                else subst_all ''m'' (num (\<lambda>t. getMonth t + 1)) f)
      in subst_all ''d'' (num getDate) (subst_all ''dd'' (pad getDate)
           (subst_all ''yy'' (drop 2 (num getFullYear)) (subst_all ''yyyy'' (num getFullYear) r1))))"


subsection \<open>Dates from text\<close>

text \<open>
  A format is read as the letters of its fields, each with the separator after it, by the expression
  \<open>/(dd?d?|mm?m?|yy?yy?)+([^(m|d|y)])?/g\<close>: of fields without a separator between them the last one counts.
\<close>

definition is_sep :: "char \<Rightarrow> bool" where
  "is_sep c \<longleftrightarrow> c \<notin> set ''(m|d|y)''"

text \<open>One field at the front: its length is at most 3, or from 2 to 4 for a year.\<close>

definition field_at :: "string \<Rightarrow> string" where
  "field_at s = (case s of [] \<Rightarrow> [] | c # _ \<Rightarrow>
     (let n = length (takeWhile ((=) c) s)
      in if c = CHR ''d'' \<or> c = CHR ''m'' then replicate (min n 3) c
         else if c = CHR ''y'' \<and> 2 \<le> n then replicate (min n 4) c else []))"

lemma length_field_at: "length (field_at s) \<le> length s"
proof (cases s)
  case (Cons c t)
  have "length (takeWhile ((=) c) s) \<le> length s" by (rule length_takeWhile_le)
  then show ?thesis by (auto simp: field_at_def Cons Let_def)
qed (simp add: field_at_def)

text \<open>\<open>(...)+\<close>: the last of the fields at the front, with what follows.\<close>

function last_field :: "string \<Rightarrow> string \<Rightarrow> string \<times> string" where
  "last_field l s = (if field_at s = [] then (l, s) else last_field (field_at s) (drop (length (field_at s)) s))"
  by pat_completeness auto
termination
proof (relation "measure (\<lambda>(l, s). length s)", goal_cases)
  case (2 l s)
  then have "s \<noteq> []" by (auto simp: field_at_def)
  then show ?case using 2 by simp
qed simp

declare last_field.simps [simp del]

lemma length_last_field: "length (snd (last_field l s)) \<le> length s"
proof (induction l s rule: last_field.induct)
  case (1 l s)
  show ?case
  proof (cases "field_at s = []")
    case False
    then show ?thesis using 1 [OF False] by (subst last_field.simps) (simp add: le_diff_conv2)
  qed (subst last_field.simps, simp)
qed

lemma last_field_less: "field_at s \<noteq> [] \<Longrightarrow> length (snd (last_field l s)) < length s"
proof -
  assume f: "field_at s \<noteq> []"
  then have "s \<noteq> []" by (auto simp: field_at_def)
  moreover have "length (snd (last_field (field_at s) (drop (length (field_at s)) s))) \<le> length s - length (field_at s)"
    using length_last_field [of "field_at s" "drop (length (field_at s)) s"] by simp
  ultimately show ?thesis using f by (subst last_field.simps) (simp add: le_less_trans diff_less)
qed

function format_fields :: "string \<Rightarrow> (string \<times> char option) list" where
  "format_fields s =
     (if s = [] then []
      else if field_at s = [] then format_fields (tl s)
      else (case last_field [] s of (l, r) \<Rightarrow>
              (case r of c # t \<Rightarrow> if is_sep c then (l, Some c) # format_fields t else (l, None) # format_fields r
                 | [] \<Rightarrow> [(l, None)])))"
  by pat_completeness auto
termination
proof (relation "measure length", goal_cases)
  case (2 s)
  then show ?case by (cases s) auto
next
  case (3 s x)
  then show ?case using last_field_less [of s "[]"] by (cases "last_field [] s") auto
next
  case (4 s x)
  then show ?case using last_field_less [of s "[]"] by (cases "last_field [] s") auto
qed simp

declare format_fields.simps [simp del]

text \<open>The pattern made of the fields: digits, three letters, or a separator.  \<open>(\<backslash>d+...)+\<close> captures as many digits as the rest lets it.\<close>

datatype dpat = PDigits | PLetters | PSep char

definition field_pattern :: "string \<times> char option \<Rightarrow> dpat list" where
  "field_pattern = (\<lambda>(l, c).
     (if l \<in> {''d'', ''dd'', ''m'', ''mm'', ''yy'', ''yyyy''} then [PDigits] else if l = ''mmm'' then [PLetters] else [])
     @ (case c of Some x \<Rightarrow> [PSep x] | None \<Rightarrow> []))"

definition field_order :: "string \<times> char option \<Rightarrow> char list" where
  "field_order = (\<lambda>(l, c).
     (if l \<in> {''d'', ''dd'', ''m'', ''mm'', ''yy'', ''yyyy''} then [hd l] else if l = ''mmm'' then [CHR ''M''] else []))"

definition is_lower :: "char \<Rightarrow> bool" where
  "is_lower c \<longleftrightarrow> 97 \<le> byte c \<and> byte c \<le> 122"

fun first_some :: "('a \<Rightarrow> 'b option) \<Rightarrow> 'a list \<Rightarrow> 'b option" where
  "first_some f [] = None"
| "first_some f (x # xs) = (case f x of Some y \<Rightarrow> Some y | None \<Rightarrow> first_some f xs)"

lemma first_some_cong [fundef_cong]:
  "xs = ys \<Longrightarrow> (\<And>x. x \<in> set ys \<Longrightarrow> f x = g x) \<Longrightarrow> first_some f xs = first_some g ys"
  by (induction xs arbitrary: ys) (auto split: option.split)

fun match_pat :: "dpat list \<Rightarrow> string \<Rightarrow> string list option" where
  "match_pat [] s = Some []"
| "match_pat (PSep c # ps) s = (case s of x # t \<Rightarrow> if x = c then match_pat ps t else None | [] \<Rightarrow> None)"
| "match_pat (PLetters # ps) s =
     (if 3 \<le> length s \<and> list_all is_lower (take 3 s)
      then map_option (\<lambda>cs. take 3 s # cs) (match_pat ps (drop 3 s)) else None)"
| "match_pat (PDigits # ps) s =
     first_some (\<lambda>n. map_option (\<lambda>cs. take n s # cs) (match_pat ps (drop n s)))
       (rev [1..<Suc (length (takeWhile is_digit s))])"

text \<open>\<open>s.match(dm)\<close>: the first place where the pattern matches.\<close>

fun search_pat :: "dpat list \<Rightarrow> string \<Rightarrow> string list option" where
  "search_pat ps [] = match_pat ps []"
| "search_pat ps (c # s) = (case match_pat ps (c # s) of Some cs \<Rightarrow> Some cs | None \<Rightarrow> search_pat ps s)"

definition js_lower :: "string \<Rightarrow> string" where
  "js_lower = map (\<lambda>c. if 65 \<le> byte c \<and> byte c \<le> 90 then char_of (byte c + 32) else c)"

text \<open>The index of a name, or the number of names when none is equal.\<close>

fun name_index :: "string \<Rightarrow> string list \<Rightarrow> int" where
  "name_index r [] = 0"
| "name_index r (n # ns) = (if js_lower n = r then 0 else name_index r ns + 1)"

(* src/lib/js/datepicker/date.js:479-495 fromString, one captured part *)
definition set_part :: "date_names \<Rightarrow> char \<Rightarrow> string \<Rightarrow> jsdate \<Rightarrow> jsdate" where
  "set_part nm part res d =
     (if part = CHR ''d'' then setDate (int (dec_val res)) d
      else if part = CHR ''m'' then setMonth (int (dec_val res) - 1) d
      else if part = CHR ''M'' then setMonth (name_index res (abbrMonthNames nm)) d
      else setYear (int (dec_val res)) d)"

text \<open>A text that the pattern does not match has no parts to read: the loop throws.\<close>

(* src/lib/js/datepicker/date.js:439-499 fromString *)
definition fromString :: "date_names \<Rightarrow> string \<Rightarrow> js_error + jsdate" where
  "fromString nm s0 =
     (if s0 = '''' then Inr (Some 0)
      else (let s = js_lower s0; fs = format_fields (date_format nm);
                matcher = concat (map field_pattern fs); order = concat (map field_order fs)
            in case search_pat matcher s of
                 None \<Rightarrow> (if order = [] then Inr (Some 0) else Inl TypeError)
               | Some result \<Rightarrow> Inr (fold (\<lambda>(part, res). set_part nm part res) (zip order result) (Some 0))))"


subsection \<open>What the calendar functions compute\<close>

lemma isLeapYear_leap: "isLeapYear t \<longleftrightarrow> leap (getFullYear t)"
  by (simp add: isLeapYear_def leap_def Let_def dvd_eq_mod_eq_0)

lemma getDaysInMonth_len: "getDaysInMonth t = month_len (getFullYear t) (getMonth t)"
  by (simp add: getDaysInMonth_def month_len_def month_lens_def isLeapYear_leap)

lemma time_clip_in: "\<bar>t\<bar> \<le> 8640000000000000 \<Longrightarrow> time_clip t = Some t"
  by (simp add: time_clip_def)

lemma at_time_bounds: "d * ms_day \<le> at_time d (time_of t) \<and> at_time d (time_of t) < (d + 1) * ms_day"
  using time_of_bounds [of t] by (simp add: at_time_def distrib_right)

lemma at_time_add_days: "at_time d tm + k * 86400000 = at_time (d + k) tm"
  by (simp add: at_time_def ms_day_def distrib_right)

text \<open>Days that are well within the range of dates: about 250000 years each way.\<close>

definition near :: "int \<Rightarrow> bool" where
  "near d \<longleftrightarrow> \<bar>d\<bar> \<le> 90000000"

lemma near_clip: "\<bar>k\<bar> \<le> 1000 \<Longrightarrow> near d \<Longrightarrow> time_clip (at_time (d + k) (time_of t)) = Some (at_time (d + k) (time_of t))"
  using at_time_bounds [of "d + k" t] by (intro time_clip_in) (auto simp: near_def ms_day_def abs_le_iff)

text \<open>The day stays, or is the last one of a month that is too short for it.\<close>

lemma addMonths_sum:
  assumes y: "y = getFullYear t + (getMonth t + n) div 12" and m: "m = (getMonth t + n) mod 12"
    and near: "near (make_day y m 1)"
  shows "\<exists>u. addMonths n (Some t) = Some u \<and> getFullYear u = y \<and> getMonth u = m \<and>
           getDate u = min (getDate t) (month_len y m) \<and> time_of u = time_of t"
proof -
  define d where "d = getDate t"
  have mb: "0 \<le> m" "m < 12" by (simp_all add: m)
  have len: "28 \<le> month_len y m" "month_len y m \<le> 31" using month_len_bounds [OF mb] by auto
  have d: "1 \<le> d" "d \<le> 31"
    using fields_bounds [of t] month_len_bounds [of "getMonth t" "getFullYear t"] by (auto simp: d_def)
  have md: "make_day (getFullYear t) (getMonth t + n) k = make_day y m k" for k
    by (simp add: make_day_def y m)
  have day: "make_day y m k = make_day y m 1 + (k - 1)" for k by (simp add: make_day_def)
  have clip: "time_clip (at_time (make_day y m k) (time_of t)) = Some (at_time (make_day y m k) (time_of t))" if "\<bar>k - 1\<bar> \<le> 1000" for k
    using near_clip [OF that near] by (simp add: day [of k])
  have set: "setMonth (getMonth t + n) (Some t) = Some (at_time (make_day y m d) (time_of t))"
    using clip [of d] d by (simp add: setMonth_def md d_def)
  show ?thesis
  proof (cases "d \<le> month_len y m")
    case True
    then have v: "valid_civil (y, m, d)" using mb d by (simp add: valid_civil_def)
    have "addMonths n (Some t) = Some (at_time (make_day y m d) (time_of t))"
      by (simp add: addMonths_def set fields_at_time [OF v] flip: d_def)
    then show ?thesis using True fields_at_time [OF v, of "time_of t"] by (simp flip: d_def)
  next
    case False
    define k where "k = d - month_len y m"
    have k: "1 \<le> k" "k \<le> 3" "k < d" using False d len by (simp_all add: k_def)
    have "make_day y (m + 1) k = make_day y m d" using mb make_day_next_month [of y m k] by (simp add: k_def)
    moreover have "k \<le> month_len (y + (m + 1) div 12) ((m + 1) mod 12)"
      using month_len_bounds [of "(m + 1) mod 12" "y + (m + 1) div 12"] k by simp
    ultimately have "civil (make_day y m d) = (y + (m + 1) div 12, (m + 1) mod 12, k)"
      using civil_make_day_shift [of "m + 1" k y] k by simp
    then have u: "getDate (at_time (make_day y m d) (time_of t)) = k" by (simp add: getDate_def)
    have shift: "at_time (make_day y m d) (time_of t) + - k * 86400000 = at_time (make_day y m (month_len y m)) (time_of t)"
      unfolding at_time_add_days by (simp add: k_def make_day_def algebra_simps)
    have "addDays (- k) (Some (at_time (make_day y m d) (time_of t))) = Some (at_time (make_day y m (month_len y m)) (time_of t))"
      using clip [of "month_len y m"] len shift by (simp add: addDays_def)
    then have r: "addMonths n (Some t) = Some (at_time (make_day y m (month_len y m)) (time_of t))"
      using k by (simp add: addMonths_def set u flip: d_def)
    have v: "valid_civil (y, m, month_len y m)" using mb len by (simp add: valid_civil_def)
    show ?thesis using r False fields_at_time [OF v, of "time_of t"] by (simp flip: d_def)
  qed
qed

lemma getDayOfYear_days: "getDayOfYear t = day_of t - make_day (getFullYear t) 0 1"
proof -
  have "t - at_time (make_day (getFullYear t) 0 1) 0 = (day_of t - make_day (getFullYear t) 0 1) * 86400000 + time_of t"
    using at_time_day_of [of t] by (simp add: at_time_def ms_day_def left_diff_distrib)
  moreover have "(k * 86400000 + time_of t) div 86400000 = k" for k
    using time_of_bounds [of t] by (simp add: ms_day_def)
  ultimately show ?thesis by (simp add: getDayOfYear_def)
qed

text \<open>The day of the year counts from 0 when it is read and from 1 when it is set.\<close>

lemma setDayOfYear_getDayOfYear:
  assumes near: "near (make_day (getFullYear t) 0 1)"
  shows "setDayOfYear (getDayOfYear t) (Some t) = Some (t - ms_day)"
proof -
  define y where "y = getFullYear t"
  have d: "1 \<le> getDate t" "getDate t \<le> 31"
    using fields_bounds [of t] month_len_bounds [of "getMonth t" y] by (auto simp: y_def)
  have v: "valid_civil (y, 0, getDate t)" using d by (simp add: valid_civil_def month_len_def month_lens_def)
  have "make_day y 0 (getDate t) = make_day y 0 1 + (getDate t - 1)" by (simp add: make_day_def)
  then have "setMonth 0 (Some t) = Some (at_time (make_day y 0 (getDate t)) (time_of t))"
    using near_clip [of "getDate t - 1" "make_day y 0 1" t] near d by (simp add: setMonth_def flip: y_def)
  moreover have md: "make_day y 0 (day_of t - make_day y 0 1) = day_of t - 1" by (simp add: make_day_def)
  moreover have "time_clip (at_time (day_of t - 1) (time_of t)) = Some (at_time (day_of t - 1) (time_of t))"
  proof -
    have "year_of_day (day_of t) = y" by (simp add: y_def getFullYear_def civil_def Let_def split: prod.split)
    then have "day_from_year y \<le> day_of t \<and> day_of t < day_from_year y + year_len y"
      by (simp add: year_of_day_iff day_from_year_step)
    then have "\<bar>day_of t - 1 - make_day y 0 1\<bar> \<le> 1000"
      by (simp add: make_day_def month_start_def year_len_def abs_le_iff split: if_splits)
    from near_clip [OF this near [folded y_def], of t] show ?thesis by simp
  qed
  moreover have "at_time (day_of t - 1) (time_of t) = t - ms_day"
    using at_time_day_of [of t] by (simp add: at_time_def left_diff_distrib)
  ultimately show ?thesis
    by (simp add: setDayOfYear_def setDate_def fields_at_time [OF v] getDayOfYear_days flip: y_def)
qed


lemma coarser: "0 < k \<Longrightarrow> 0 < j \<Longrightarrow> k * (n div k) div (k * j) = n div (k * (j :: int))"
  by (simp add: zdiv_zmult2_eq)

lemma zeroTime_day:
  assumes "\<bar>t\<bar> \<le> 8000000000000000"
  shows "zeroTime (Some t) = Some (at_time (day_of t) 0)"
proof -
  have b: "\<bar>u\<bar> \<le> 8640000000000000" if "t - 86400000 \<le> u" "u \<le> t" for u using assms that by (simp add: abs_le_iff)
  have lo: "k * (n div k) \<le> n \<and> n - k < k * (n div k)" if "0 < k" for n k :: int
    using that mult_div_mod_eq [of k n] pos_mod_bound [of k n] pos_mod_sign [of k n] by linarith
  define t1 where "t1 = 1000 * (t div 1000)"
  define t2 where "t2 = 60000 * (t1 div 60000)"
  define t3 where "t3 = 3600000 * (t2 div 3600000)"
  have t1: "t1 \<le> t" "t - 1000 < t1" using lo [of 1000 t] by (simp_all add: t1_def)
  have t2: "t2 \<le> t1" "t1 - 60000 < t2" using lo [of 60000 t1] by (simp_all add: t2_def)
  have t3: "t3 \<le> t2" "t2 - 3600000 < t3" using lo [of 3600000 t2] by (simp_all add: t3_def)
  have dv: "t1 mod 1000 = 0" "t2 mod 60000 = 0" "t3 mod 3600000 = 0" by (simp_all add: t1_def t2_def t3_def)
  have "t3 div 86400000 = t2 div 86400000" using coarser [of 3600000 24 t2] by (simp add: t3_def)
  also have "\<dots> = t1 div 86400000" using coarser [of 60000 1440 t1] by (simp add: t2_def)
  also have "\<dots> = t div 86400000" using coarser [of 1000 86400 t] by (simp add: t1_def)
  finally have day: "day_of t3 = day_of t" by (simp add: day_of_def ms_day_def)
  have s1: "setMilliseconds 0 (Some t) = Some t1"
    using b [of t1] t1 by (simp add: setMilliseconds_def t1_def time_clip_in)
  have s2: "setSeconds 0 (Some t1) = Some t2"
    using b [of t2] t1 t2 dv(1) by (simp add: setSeconds_def t2_def time_clip_in mult.commute)
  have s3: "setMinutes 0 (Some t2) = Some t3"
    using b [of t3] t1 t2 t3 dv(2) by (simp add: setMinutes_def t3_def time_clip_in mult.commute)
  have "at_time (day_of t) 0 \<le> t \<and> t - 86400000 \<le> at_time (day_of t) 0"
    using lo [of ms_day t] by (simp add: at_time_def day_of_def ms_day_def mult.commute)
  then have "setHours 0 (Some t3) = Some (at_time (day_of t) 0)"
    using b [of "at_time (day_of t) 0"] dv(3) by (simp add: setHours_def day time_clip_in)
  then show ?thesis by (simp add: zeroTime_def s1 s2 s3)
qed

text \<open>Dates in the format of the sites.\<close>

lemma zeroPad_two: "0 \<le> n \<Longrightarrow> n < 100 \<Longrightarrow> zeroPad n = [digit_chr (nat n div 10), digit_chr (nat n mod 10)]"
proof -
  assume n: "0 \<le> n" "n < 100"
  show ?thesis
  proof (cases "nat n < 10")
    case True
    then have "nat_str (nat n) = [digit_chr (nat n)]" by (subst nat_str.simps) simp
    moreover have "digit_chr 0 = CHR ''0''" by code_simp
    ultimately show ?thesis using n True by (simp add: zeroPad_def int_str_def Let_def)
  next
    case False
    then have "nat n div 10 < 10" "0 < nat n div 10" using n by linarith+
    then have "nat_str (nat n) = [digit_chr (nat n div 10), digit_chr (nat n mod 10)]"
      using False by (subst nat_str.simps, subst nat_str.simps) simp
    then show ?thesis using n by (simp add: zeroPad_def int_str_def Let_def)
  qed
qed

lemma split_str_absent: "x \<notin> set s \<Longrightarrow> split_str (x # l) acc s = [acc @ s]"
  by (induction s arbitrary: acc) auto

lemma split_str_once: "x \<notin> set s \<Longrightarrow> split_str (x # l) acc (s @ x # l @ t) = (acc @ s) # split_str (x # l) [] t"
  by (induction s arbitrary: acc) auto

lemma subst_all_absent: "x \<notin> set s \<Longrightarrow> subst_all (x # l) v s = s"
  by (simp add: subst_all_def split_str_absent)

lemma subst_all_once: "x \<notin> set s \<Longrightarrow> x \<notin> set t \<Longrightarrow> subst_all (x # l) v (s @ x # l @ t) = s @ v @ t"
  by (simp add: subst_all_def split_str_once split_str_absent)

lemma digits_no: "list_all is_digit s \<Longrightarrow> \<not> is_digit c \<Longrightarrow> c \<notin> set s"
  by (auto simp: list_all_iff)

lemma letters: "\<not> is_digit (CHR ''m'')" "\<not> is_digit (CHR ''y'')" "\<not> is_digit (CHR ''d'')" "\<not> is_digit (CHR ''-'')"
  by (simp_all add: is_digit_def)

definition two_digits :: "int \<Rightarrow> string" where
  "two_digits n = [digit_chr (nat n div 10), digit_chr (nat n mod 10)]"

lemma two_digits_digits: "0 \<le> n \<Longrightarrow> n < 100 \<Longrightarrow> list_all is_digit (two_digits n)"
  by (simp add: two_digits_def)

lemma two_digits_val: "0 \<le> n \<Longrightarrow> n < 100 \<Longrightarrow> dec_val (two_digits n) = nat n"
  by (simp add: two_digits_def dec_val_def)

lemma field_ranges: "0 \<le> getMonth t + 1" "getMonth t + 1 < 100" "0 \<le> getDate t" "getDate t < 100"
  using fields_bounds [of t] month_len_bounds [of "getMonth t" "getFullYear t"] by linarith+

lemma fill_format:
  assumes "CHR ''y'' \<notin> set M" "CHR ''d'' \<notin> set M" "list_all is_digit Y" "list_all is_digit D"
  shows "subst_all ''d'' v (subst_all ''dd'' D (subst_all ''yy'' w (subst_all ''yyyy'' Y (''yyyy-'' @ M @ ''-dd''))))
    = Y @ CHR ''-'' # M @ CHR ''-'' # D"
proof -
  have n: "CHR ''y'' \<notin> set Y" "CHR ''d'' \<notin> set Y" "CHR ''d'' \<notin> set D"
    using digits_no [OF assms(3)] digits_no [OF assms(4)] letters by blast+
  have "subst_all ''yyyy'' Y (''yyyy-'' @ M @ ''-dd'') = Y @ CHR ''-'' # M @ ''-dd''"
    using subst_all_once [of "CHR ''y''" "[]" "CHR ''-'' # M @ ''-dd''" "''yyy''" Y] assms n by simp
  moreover have "subst_all ''yy'' w (Y @ CHR ''-'' # M @ ''-dd'') = Y @ CHR ''-'' # M @ ''-dd''"
    using assms n by (intro subst_all_absent) auto
  moreover have "subst_all ''dd'' D (Y @ CHR ''-'' # M @ ''-dd'') = Y @ CHR ''-'' # M @ CHR ''-'' # D"
    using subst_all_once [of "CHR ''d''" "Y @ CHR ''-'' # M @ ''-''" "[]" "''d''" D] assms n by simp
  moreover have "subst_all ''d'' v (Y @ CHR ''-'' # M @ CHR ''-'' # D) = Y @ CHR ''-'' # M @ CHR ''-'' # D"
    using assms n by (intro subst_all_absent) auto
  ultimately show ?thesis by simp
qed

lemma digits_of: "list_all is_digit (nat_str n)" "list_all is_digit (two_digits (getMonth t + 1))" "list_all is_digit (two_digits (getDate t))"
  using nat_str_digits [of n] field_ranges [of t] two_digits_digits [of "getMonth t + 1"] two_digits_digits [of "getDate t"]
  by (simp_all add: list_all_iff)

lemma asString_iso:
  assumes "0 \<le> getFullYear t"
  shows "asString nm ''yyyy-mm-dd'' (Some t) =
    nat_str (nat (getFullYear t)) @ CHR ''-'' # two_digits (getMonth t + 1) @ CHR ''-'' # two_digits (getDate t)"
proof -
  define M where "M = two_digits (getMonth t + 1)"
  have n: "CHR ''y'' \<notin> set M" "CHR ''d'' \<notin> set M"
    using digits_no [OF digits_of(2) [of t, folded M_def]] letters by blast+
  have s: "split_str ''mm'' [] ''yyyy-mm-dd'' = [''yyyy-'', ''-dd'']" by code_simp
  have "split_str ''mmmm'' [] ''yyyy-mm-dd'' = [''yyyy-mm-dd'']" "split_str ''mmm'' [] ''yyyy-mm-dd'' = [''yyyy-mm-dd'']" by code_simp+
  then have f: "subst_all ''mmmm'' v ''yyyy-mm-dd'' = ''yyyy-mm-dd''" "subst_all ''mmm'' v ''yyyy-mm-dd'' = ''yyyy-mm-dd''" for v
    by (simp_all only: subst_all_def join.simps)
  have "subst_all ''mm'' M ''yyyy-mm-dd'' = ''yyyy-'' @ M @ ''-dd''" by (simp only: subst_all_def s join.simps)
  then show ?thesis
    using assms field_ranges [of t] zeroPad_two fill_format [OF n digits_of(1) digits_of(3)]
    by (simp add: asString_def f s Let_def int_str_def flip: M_def two_digits_def)
qed

text \<open>The Chinese format: the month is the name of its number.\<close>

lemma zh_month_name: "\<forall>c \<in> set (getMonthName zh_names True t). 128 \<le> byte c"
proof -
  have "nat (getMonth t) < 12" using fields_bounds [of t] by simp
  moreover have "list_all (list_all (\<lambda>c. 128 \<le> byte c)) (abbrMonthNames zh_names)" "length (abbrMonthNames zh_names) = 12"
    by (simp_all add: zh_names_def utf8_def)
  ultimately show ?thesis
    using nth_mem [of "nat (getMonth t)" "abbrMonthNames zh_names"] by (auto simp: getMonthName_def list_all_iff)
qed

lemma asString_zh:
  assumes "0 \<le> getFullYear t"
  shows "asString zh_names ''yyyy-mmm-dd'' (Some t) =
    nat_str (nat (getFullYear t)) @ CHR ''-'' # getMonthName zh_names True t @ CHR ''-'' # two_digits (getDate t)"
proof -
  define M where "M = getMonthName zh_names True t"
  have "c \<notin> set M" if "byte c < 128" for c using zh_month_name [of t] that unfolding M_def by (auto simp: not_le [symmetric])
  then have n: "CHR ''y'' \<notin> set M" "CHR ''d'' \<notin> set M" "CHR ''m'' \<notin> set M" by simp_all
  have s: "1 < length (split_str ''mm'' [] ''yyyy-mmm-dd'')" "split_str ''mmmm'' [] ''yyyy-mmm-dd'' = [''yyyy-mmm-dd'']"
    "split_str ''mmm'' [] ''yyyy-mmm-dd'' = [''yyyy-'', ''-dd'']" by code_simp+
  then have f: "subst_all ''mmmm'' v ''yyyy-mmm-dd'' = ''yyyy-mmm-dd''" "subst_all ''mmm'' M ''yyyy-mmm-dd'' = ''yyyy-'' @ M @ ''-dd''" for v
    by (simp_all only: subst_all_def join.simps)
  have "subst_all ''mm'' v (''yyyy-'' @ M @ ''-dd'') = ''yyyy-'' @ M @ ''-dd''" for v
    using n by (intro subst_all_absent) auto
  then show ?thesis
    using assms field_ranges [of t] zeroPad_two fill_format [OF n(1,2) digits_of(1) digits_of(3)]
    by (simp add: asString_def f s Let_def int_str_def flip: M_def two_digits_def)
qed

lemma match_digits:
  assumes "ds \<noteq> []" "list_all is_digit ds" "rest = [] \<or> \<not> is_digit (hd rest)" "match_pat ps rest = Some cs"
  shows "match_pat (PDigits # ps) (ds @ rest) = Some (ds # cs)"
proof -
  have "takeWhile is_digit (ds @ rest) = ds"
    using assms(2,3) by (cases rest) (auto simp: takeWhile_append list_all_iff takeWhile_eq_all_conv)
  moreover obtain k where "length ds = Suc k" using assms(1) by (cases ds) auto
  ultimately show ?thesis using assms(4) by simp
qed

lemma search_at_once: "match_pat ps s = Some cs \<Longrightarrow> search_pat ps s = Some cs"
  by (cases s) simp_all

lemma js_lower_digits: "list_all (\<lambda>c. is_digit c \<or> c = CHR ''-'') s \<Longrightarrow> js_lower s = s"
  unfolding js_lower_def by (rule map_idI) (auto simp: list_all_iff is_digit_def)

lemma iso_fields: "format_fields ''yyyy-mm-dd'' = [(''yyyy'', Some CHR ''-''), (''mm'', Some CHR ''-''), (''dd'', None)]"
  by code_simp

lemma fromString_iso:
  assumes nm: "date_format nm = ''yyyy-mm-dd''"
    and Y: "Y \<noteq> []" "list_all is_digit Y" and M: "M \<noteq> []" "list_all is_digit M" and D: "D \<noteq> []" "list_all is_digit D"
  shows "fromString nm (Y @ CHR ''-'' # M @ CHR ''-'' # D) =
    Inr (setDate (int (dec_val D)) (setMonth (int (dec_val M) - 1) (setYear (int (dec_val Y)) (Some 0))))"
proof -
  define s where "s = Y @ CHR ''-'' # M @ CHR ''-'' # D"
  have "js_lower s = s" using Y M D by (intro js_lower_digits) (auto simp: s_def list_all_iff)
  moreover have "s \<noteq> ''''" by (simp add: s_def)
  moreover have "match_pat [PDigits] D = Some [D]" using match_digits [OF D, of "[]" "[]"] by simp
  then have "match_pat [PSep (CHR ''-''), PDigits] (CHR ''-'' # D) = Some [D]" by simp
  from match_digits [OF M _ this] letters
  have "match_pat [PSep (CHR ''-''), PDigits, PSep (CHR ''-''), PDigits] (CHR ''-'' # M @ CHR ''-'' # D) = Some [M, D]" by simp
  from match_digits [OF Y _ this] letters
  have "search_pat [PDigits, PSep (CHR ''-''), PDigits, PSep (CHR ''-''), PDigits] s = Some [Y, M, D]"
    unfolding s_def by (intro search_at_once) simp
  ultimately show ?thesis
    by (simp add: fromString_def nm iso_fields field_pattern_def field_order_def set_part_def flip: s_def)
qed

text \<open>The three fields, set one after the other from 1970 on.\<close>

lemma set_fields:
  assumes v: "valid_civil (y, m, d)" and y: "100 \<le> y" and near: "near (make_day y 0 1)"
  shows "setDate d (setMonth m (setYear y (Some 0))) = Some (at_time (make_day y m d) 0)"
proof -
  have z: "civil 0 = (1970, 0, 1)" by code_simp
  have v1: "valid_civil (y, 0, 1)" "valid_civil (y, m, 1)" using v by (auto simp: valid_civil_def month_len_def month_lens_def)
  have off: "make_day y m k = make_day y 0 1 + (month_start y (nat m) + k - 1)" for k
    using v by (simp add: make_day_def month_start_def valid_civil_def)
  have "nat m \<le> 12" using v by (auto simp: valid_civil_def)
  then have "month_start y (nat m) \<le> 366"
    using month_start_mono [of "nat m" 12 y] by (auto simp: month_start_12 valid_civil_def year_len_def split: if_splits)
  then have clip: "time_clip (at_time (make_day y m k) 0) = Some (at_time (make_day y m k) 0)" if "1 \<le> k" "k \<le> 31" for k
    using near_clip [of "month_start y (nat m) + k - 1" "make_day y 0 1" 0] near that month_start_nonneg [of y "nat m"]
    by (simp add: off [of k] time_of_def)
  have "time_clip (at_time (make_day y 0 1) 0) = Some (at_time (make_day y 0 1) 0)"
    using near_clip [of 0 "make_day y 0 1" 0] near by (simp add: time_of_def)
  then have "setYear y (Some 0) = Some (at_time (make_day y 0 1) 0)"
    using y z by (simp add: setYear_def setFullYear_def full_year_def getMonth_def getDate_def time_of_def day_of_def)
  moreover have "setMonth m (Some (at_time (make_day y 0 1) 0)) = Some (at_time (make_day y m 1) 0)"
    using clip [of 1] fields_at_time [OF v1(1), of 0] by (simp add: setMonth_def ms_day_def)
  moreover have "setDate d (Some (at_time (make_day y m 1) 0)) = Some (at_time (make_day y m d) 0)"
    using clip [of d] fields_at_time [OF v1(2), of 0] v month_len_bounds [of m y]
    by (simp add: setDate_def ms_day_def valid_civil_def)
  ultimately show ?thesis by simp
qed

text \<open>A date is read back as the midnight it began with.\<close>

lemma iso_read_back:
  assumes nm: "date_format nm = ''yyyy-mm-dd''" and y: "100 \<le> getFullYear t" and near: "near (make_day (getFullYear t) 0 1)"
  shows "fromString nm (asString nm ''yyyy-mm-dd'' (Some t)) = Inr (Some (at_time (day_of t) 0))"
proof -
  define Y where "Y = nat_str (nat (getFullYear t))"
  define M where "M = two_digits (getMonth t + 1)"
  define D where "D = two_digits (getDate t)"
  have "list_all is_digit Y" "list_all is_digit M" "list_all is_digit D" "Y \<noteq> []" "M \<noteq> []" "D \<noteq> []"
    using field_ranges [of t] by (simp_all add: Y_def M_def D_def two_digits_digits two_digits_def nat_str_digits list_all_iff)
  moreover have "asString nm ''yyyy-mm-dd'' (Some t) = Y @ CHR ''-'' # M @ CHR ''-'' # D"
    using y by (simp add: asString_iso Y_def M_def D_def)
  moreover have "int (dec_val Y) = getFullYear t" using y by (simp add: Y_def)
  moreover have "int (dec_val M) - 1 = getMonth t" "int (dec_val D) = getDate t"
    using field_ranges [of t] by (simp_all add: M_def D_def two_digits_val)
  ultimately show ?thesis using fromString_iso [OF nm, of Y M D] set_fields [OF fields_valid y near] by simp
qed

text \<open>
  The Chinese format names the months with signs that the pattern, which looks for three Latin letters, does not match:
  what it writes it cannot read.
\<close>

lemma zh_fields: "format_fields ''yyyy-mmm-dd'' = [(''yyyy'', Some CHR ''-''), (''mmm'', Some CHR ''-''), (''dd'', None)]"
  by code_simp

lemma no_letters_no_match:
  assumes "PLetters \<in> set ps" "\<forall>c \<in> set s. \<not> is_lower c"
  shows "match_pat ps s = None"
  using assms
proof (induction ps s rule: match_pat.induct)
  case (2 c ps s)
  then show ?case by (cases s) auto
next
  case (3 ps s)
  then obtain a t where "3 \<le> length s \<Longrightarrow> s = a # t" by (cases s) auto
  then show ?case using 3 by auto
next
  case (4 ps s)
  have "match_pat ps (drop n s) = None" if "n \<in> set (rev [1..<Suc (length (takeWhile is_digit s))])" for n
    using 4 that by (auto dest: in_set_dropD)
  then have "first_some (\<lambda>n. map_option ((#) (take n s)) (match_pat ps (drop n s))) xs = None"
    if "set xs \<subseteq> set (rev [1..<Suc (length (takeWhile is_digit s))])" for xs
    using that by (induction xs) auto
  then show ?case by auto
qed simp

lemma no_letters_no_search: "PLetters \<in> set ps \<Longrightarrow> \<forall>c \<in> set s. \<not> is_lower c \<Longrightarrow> search_pat ps s = None"
  by (induction s) (auto simp: no_letters_no_match)

lemma no_letters_digits: "list_all is_digit s \<Longrightarrow> c \<in> set (js_lower s) \<Longrightarrow> \<not> is_lower c"
  by (auto simp: js_lower_def is_lower_def is_digit_def list_all_iff)

lemma zh_date_unreadable:
  assumes "0 \<le> getFullYear t"
  shows "fromString zh_names (asString zh_names (date_format zh_names) (Some t)) = Inl TypeError"
proof -
  define s where "s = asString zh_names ''yyyy-mmm-dd'' (Some t)"
  have s: "s = nat_str (nat (getFullYear t)) @ CHR ''-'' # getMonthName zh_names True t @ CHR ''-'' # two_digits (getDate t)"
    unfolding s_def by (rule asString_zh [OF assms])
  have "\<not> is_lower c" if "c \<in> set (js_lower (getMonthName zh_names True t))" for c
    using that zh_month_name [of t] by (auto simp: js_lower_def is_lower_def)
  moreover have "\<not> is_lower (CHR ''-'')" by (simp add: is_lower_def)
  moreover have "js_lower (a @ CHR ''-'' # b @ CHR ''-'' # c) = js_lower a @ CHR ''-'' # js_lower b @ CHR ''-'' # js_lower c" for a b c
    by (simp add: js_lower_def)
  ultimately have "\<forall>c \<in> set (js_lower s). \<not> is_lower c"
    unfolding s using no_letters_digits [OF digits_of(1)] no_letters_digits [OF digits_of(3)] by auto
  then have "search_pat [PDigits, PSep (CHR ''-''), PLetters, PSep (CHR ''-''), PDigits] (js_lower s) = None"
    by (intro no_letters_no_search) simp_all
  moreover have "s \<noteq> ''''" by (simp add: s)
  moreover have "date_format zh_names = ''yyyy-mmm-dd''" by (simp add: zh_names_def)
  ultimately show ?thesis
    by (simp add: fromString_def zh_fields field_pattern_def field_order_def flip: s_def)
qed


subsection \<open>The properties\<close>

text \<open>
  C20. Adding months, forwards or backwards, to a date within 240000 years of 1970: the year and the month are those of the
  sum, the time stays, and the day stays too, or is the last one of a month that is too short for it.
\<close>

theorem addMonths_clamps:
  assumes "near (make_day (getFullYear t + (getMonth t + n) div 12) ((getMonth t + n) mod 12) 1)"
  shows "case addMonths n (Some t) of
      Some u \<Rightarrow> getFullYear u = getFullYear t + (getMonth t + n) div 12 \<and> getMonth u = (getMonth t + n) mod 12 \<and>
        getDate u = min (getDate t) (month_len (getFullYear u) (getMonth u)) \<and> time_of u = time_of t
    | None \<Rightarrow> False"
  using addMonths_sum [OF refl refl assms] by auto

lemma addMonths_clamps_witness:
  "near (make_day (getFullYear 951782400000 + (getMonth 951782400000 + 12) div 12) ((getMonth 951782400000 + 12) mod 12) 1) \<and>
   (case addMonths 12 (Some 951782400000) of
      Some u \<Rightarrow> getFullYear u = getFullYear 951782400000 + (getMonth 951782400000 + 12) div 12 \<and> getMonth u = (getMonth 951782400000 + 12) mod 12 \<and>
        getDate u = min (getDate 951782400000) (month_len (getFullYear u) (getMonth u)) \<and> time_of u = time_of 951782400000
    | None \<Rightarrow> False)"
proof -
  have "near (make_day (getFullYear 951782400000 + (getMonth 951782400000 + 12) div 12) ((getMonth 951782400000 + 12) mod 12) 1)"
    by code_simp
  from this addMonths_clamps [OF this] show ?thesis by (rule conjI)
qed

text \<open>
  C19. A date from the year 100 up to 240000 years from now, written in the format of the sites, is read back as the midnight it
  began with; and with the Chinese names and their format no date can be read back, reading what was written throws.
\<close>

theorem iso_roundtrip:
  assumes "100 \<le> getFullYear t" "near (make_day (getFullYear t) 0 1)"
  shows "fromString en_names (asString en_names (date_format en_names) (Some t)) = Inr (zeroTime (Some t)) \<and>
    fromString zh_names (asString zh_names (date_format zh_names) (Some t)) = Inl TypeError"
proof -
  have f: "date_format en_names = ''yyyy-mm-dd''" by (simp add: en_names_def)
  define y where "y = getFullYear t"
  have "year_of_day (day_of t) = y" by (simp add: y_def getFullYear_def civil_def Let_def split: prod.split)
  then have "day_from_year y \<le> day_of t \<and> day_of t < day_from_year y + year_len y"
    by (simp add: year_of_day_iff day_from_year_step)
  moreover have "make_day y 0 1 = day_from_year y" by (simp add: make_day_def month_start_def)
  moreover have "day_of t * ms_day \<le> t \<and> t < (day_of t + 1) * ms_day" using at_time_bounds [of "day_of t" t] by simp
  ultimately have "\<bar>t\<bar> \<le> 8000000000000000"
    using assms(2) by (auto simp: near_def ms_day_def year_len_def abs_le_iff simp flip: y_def split: if_splits)
  then show ?thesis using iso_read_back [OF f assms] zh_date_unreadable [of t] assms(1) by (simp add: f zeroTime_day)
qed

lemma iso_roundtrip_witness:
  "fromString en_names (asString en_names (date_format en_names) (Some 1330500000000)) = Inr (zeroTime (Some 1330500000000)) \<and>
   fromString zh_names (asString zh_names (date_format zh_names) (Some 1330500000000)) = Inl TypeError"
proof -
  have "100 \<le> getFullYear 1330500000000" "near (make_day (getFullYear 1330500000000) 0 1)" by code_simp+
  then show ?thesis by (rule iso_roundtrip)
qed

end
