(* ===== verification/DatePicker.thy ===== *)
theory DatePicker
  imports DateExt
begin

text \<open>
  The calendar that pops up beside a date field (\<open>lib/js/datepicker/jquery.datePicker.js\<close>), as the pages of the chat
  site use it: the table of a month, the controller of a field, the popup and the events.

  A page has several fields, each with its controller, but one popup: what a controller marks or draws goes to the
  popup that is open, whosever it is.  \<open>pop_owner\<close> is the controller of the popup's buttons, \<open>cal_owner\<close> that of its cells.
  Dates are objects that the code changes in place: a cell keeps the date its click handler holds, and \<open>end_is_start\<close>
  says that the two bounds of a controller are one object.  An operation that throws keeps what it did before.

  Left out are calendars inside the page (option \<open>inline\<close>), the functions a page may give to be called for each cell, the hover
  classes, positions in pixels, and the focus that goes to the field or the next one.
\<close>

subsection \<open>Data\<close>

datatype num_arg = NNull | NNaN | NInt int

datatype date_arg = NoDate | DateText string | DateObj jsdate

(* src/lib/js/datepicker/jquery.datePicker.js:1180-1203 defaults *)
record dp_opts =
  o_month :: num_arg
  o_year :: num_arg
  o_startDate :: date_arg
  o_endDate :: date_arg
  o_createButton :: bool
  o_showYearNavigation :: bool
  o_closeOnSelect :: bool
  o_displayClose :: bool
  o_selectMultiple :: bool
  o_numSelectable :: int
  o_clickInput :: bool
  o_rememberViewedMonth :: bool
  o_selectWeek :: bool

text \<open>\<open>Number.MAX_VALUE\<close>\<close>

definition max_value :: int where
  "max_value = (2 ^ 53 - 1) * 2 ^ 971"

(* src/lib/js/datepicker/jquery.datePicker.js:1180-1203 defaults *)
definition dp_defaults :: dp_opts where
  "dp_defaults = \<lparr>o_month = NNaN, o_year = NNaN, o_startDate = NoDate, o_endDate = NoDate, o_createButton = True,
     o_showYearNavigation = True, o_closeOnSelect = True, o_displayClose = False, o_selectMultiple = False,
     o_numSelectable = max_value, o_clickInput = False, o_rememberViewedMonth = True, o_selectWeek = False\<rparr>"

record cell =
  td_date :: jsdate
  td_data :: string
  td_text :: "int option"
  td_current :: bool
  td_weekend :: bool
  td_today :: bool
  td_disabled :: bool
  td_selected :: bool
  td_unselectable :: bool

record week =
  wk_selected :: bool
  wk_cells :: "cell list"

(* src/lib/js/datepicker/jquery.datePicker.js:546-572 DatePicker *)
record picker =
  displayedMonth :: num_arg
  displayedYear :: num_arg
  startDate :: "jsdate option"
  endDate :: "jsdate option"
  end_is_start :: bool
  closeOnSelect :: bool
  selectMultiple :: bool
  numSelectable :: int
  numSelected :: int
  selectedDates :: "(string \<times> bool) list"
  settings :: dp_opts
  dp_disabled :: bool
  dp_button :: bool
  field_val :: string

record popup =
  pop_owner :: nat
  cal_owner :: nat
  pop_title :: string
  pop_weeks :: "week list"
  pop_drawn :: nat
  prev_disabled :: bool
  next_disabled :: bool

datatype dp_event = DateSelected nat string bool | Changed nat | MonthChanged nat num_arg num_arg | Closed nat "jsdate list" | Displayed nat

record dpage =
  pg_names :: date_names
  pg_now :: int
  pickers :: "nat \<Rightarrow> picker"
  the_popup :: "popup option"
  dp_log :: "dp_event list"
  listening :: "nat option"

text \<open>What an operation leaves, done or thrown half-way.\<close>

datatype outcome = Done dpage | Threw dpage

definition andthen :: "outcome \<Rightarrow> (dpage \<Rightarrow> outcome) \<Rightarrow> outcome" where
  "andthen r f = (case r of Done s \<Rightarrow> f s | Threw s \<Rightarrow> Threw s)"

lemma andthen_simps [simp]: "andthen (Done s) f = f s" "andthen (Threw s) f = Threw s"
  by (simp_all add: andthen_def)

definition upd :: "nat \<Rightarrow> (picker \<Rightarrow> picker) \<Rightarrow> dpage \<Rightarrow> dpage" where
  "upd i f s = s\<lparr>pickers := (pickers s)(i := f (pickers s i))\<rparr>"

definition log_ev :: "dp_event \<Rightarrow> dpage \<Rightarrow> dpage" where
  "log_ev e s = s\<lparr>dp_log := dp_log s @ [e]\<rparr>"

text \<open>The comparisons of dates and numbers: an invalid date is in no order.\<close>

fun date_lt :: "jsdate \<Rightarrow> jsdate \<Rightarrow> bool" where
  "date_lt (Some a) (Some b) = (a < b)"
| "date_lt _ _ = False"

fun num_falsy :: "num_arg \<Rightarrow> bool" where
  "num_falsy (NInt k) = (k = 0)"
| "num_falsy _ = True"

fun num_of :: "num_arg \<Rightarrow> int option" where
  "num_of NNaN = None"
| "num_of NNull = Some 0"
| "num_of (NInt k) = Some k"

fun num_neq :: "num_arg \<Rightarrow> num_arg \<Rightarrow> bool" where
  "num_neq NNaN _ = True"
| "num_neq _ NNaN = True"
| "num_neq a b = (a \<noteq> b)"

definition num_add :: "num_arg \<Rightarrow> int \<Rightarrow> num_arg" where
  "num_add a k = (case num_of a of Some n \<Rightarrow> NInt (n + k) | None \<Rightarrow> NNaN)"

definition month_num :: "jsdate \<Rightarrow> num_arg" where
  "month_num d = (case d of Some t \<Rightarrow> NInt (getMonth t) | None \<Rightarrow> NNaN)"

definition year_num :: "jsdate \<Rightarrow> num_arg" where
  "year_num d = (case d of Some t \<Rightarrow> NInt (getFullYear t) | None \<Rightarrow> NNaN)"

text \<open>\<open>new Date(y, m, d, h, 0, 0)\<close> with numbers that may be missing\<close>

definition new_date_num :: "num_arg \<Rightarrow> num_arg \<Rightarrow> int \<Rightarrow> int \<Rightarrow> jsdate" where
  "new_date_num y m d h = (case (num_of y, num_of m) of (Some y', Some m') \<Rightarrow> new_date y' m' d h | _ \<Rightarrow> None)"

subsection \<open>The table of a month\<close>

text \<open>One day: the date at noon, and the classes the table gives it.\<close>

(* src/lib/js/datepicker/jquery.datePicker.js:119-129 renderCalendar, the cell *)
definition render_cell :: "date_names \<Rightarrow> int \<Rightarrow> num_arg \<Rightarrow> jsdate \<Rightarrow> cell" where
  "render_cell nm today month d =
     (let thisMonth = \<not> num_neq (month_num d) month
      in \<lparr>td_date = d, td_data = asString nm (date_format nm) d, td_text = map_option getDate d,
          td_current = thisMonth, td_weekend = (case d of Some t \<Rightarrow> isWeekend t | None \<Rightarrow> False),
          td_today = (thisMonth \<and> d = Some today), td_disabled = False, td_selected = False, td_unselectable = False\<rparr>)"

(* src/lib/js/datepicker/jquery.datePicker.js:134-137 renderCalendar, the next day *)
definition next_day :: "jsdate \<Rightarrow> jsdate" where
  "next_day d = Option.bind d (\<lambda>t. new_date (getFullYear t) (getMonth t) (getDate t + 1) 12)"

fun render_days :: "date_names \<Rightarrow> int \<Rightarrow> num_arg \<Rightarrow> nat \<Rightarrow> jsdate \<Rightarrow> cell list" where
  "render_days nm today month 0 d = []"
| "render_days nm today month (Suc n) d = render_cell nm today month d # render_days nm today month n (next_day d)"

fun render_weeks :: "date_names \<Rightarrow> int \<Rightarrow> num_arg \<Rightarrow> nat \<Rightarrow> jsdate \<Rightarrow> week list" where
  "render_weeks nm today month 0 d = []"
| "render_weeks nm today month (Suc w) d =
     \<lparr>wk_selected = False, wk_cells = render_days nm today month 7 d\<rparr> # render_weeks nm today month w ((next_day ^^ 7) d)"

text \<open>\<open>firstDayOffset\<close> and \<open>weeksToDraw\<close>\<close>

definition first_offset :: "int \<Rightarrow> int \<Rightarrow> int" where
  "first_offset fdow wd = (let k = fdow - wd + 1 in if k > 1 then k - 7 else k)"

definition weeks_to_draw :: "int \<Rightarrow> int \<Rightarrow> nat" where
  "weeks_to_draw off len = nat (- (- (- off + 1 + len) div 7))"

(* src/lib/js/datepicker/jquery.datePicker.js:79-140 renderCalendar *)
definition renderCalendar :: "date_names \<Rightarrow> int \<Rightarrow> num_arg \<Rightarrow> num_arg \<Rightarrow> week list" where
  "renderCalendar nm now month syear =
     (let noon = setHours 12 (zeroTime (Some now));
          today = (case noon of Some t \<Rightarrow> t | None \<Rightarrow> now);
          year = (if num_falsy syear then NInt (getFullYear today) else syear)
      in case new_date_num year month 1 12 of
           None \<Rightarrow> []
         | Some t \<Rightarrow>
             (let off = first_offset (firstDayOfWeek nm) (getDay t)
              in render_weeks nm today month (weeks_to_draw off (getDaysInMonth t)) (addDays (off - 1) (Some t))))"


subsection \<open>The cells of the popup\<close>

definition map_cells :: "(cell \<Rightarrow> cell) \<Rightarrow> week list \<Rightarrow> week list" where
  "map_cells f = map (\<lambda>w. w\<lparr>wk_cells := map f (wk_cells w)\<rparr>)"

definition on_weeks :: "(week list \<Rightarrow> week list) \<Rightarrow> dpage \<Rightarrow> dpage" where
  "on_weeks f s = s\<lparr>the_popup := map_option (\<lambda>p. p\<lparr>pop_weeks := f (pop_weeks p)\<rparr>) (the_popup s)\<rparr>"

(* src/lib/js/datepicker/jquery.datePicker.js:755-758 isSelected *)
definition isSelected :: "date_names \<Rightarrow> jsdate \<Rightarrow> picker \<Rightarrow> bool option" where
  "isSelected nm d c = map_of (selectedDates c) (asString nm (date_format nm) d)"

text \<open>The marks that \<open>cellRender\<close> puts on the cells of a table it draws, and on their weeks.\<close>

(* src/lib/js/datepicker/jquery.datePicker.js:965-973 cellRender, the marks *)
definition cell_marks :: "date_names \<Rightarrow> picker \<Rightarrow> week \<Rightarrow> week" where
  "cell_marks nm c w =
     (let sel = (\<lambda>x. isSelected nm (td_date x) c = Some True)
      in \<lparr>wk_selected = (o_selectWeek (settings c) \<and> (\<exists>x \<in> set (wk_cells w). sel x)),
          wk_cells = map (\<lambda>x. if sel x then x\<lparr>td_selected := True\<rparr>
                              else if selectMultiple c \<and> numSelected c = numSelectable c then x\<lparr>td_unselectable := True\<rparr>
                              else x) (wk_cells w)\<rparr>)"

text \<open>\<open>Number(text)\<close> of a cell, compared with a number: false for one without a number.\<close>

definition text_lt :: "cell \<Rightarrow> int \<Rightarrow> bool" where
  "text_lt x n = (case td_text x of Some k \<Rightarrow> k < n | None \<Rightarrow> False)"

definition text_gt :: "cell \<Rightarrow> int \<Rightarrow> bool" where
  "text_gt x n = (case td_text x of Some k \<Rightarrow> k > n | None \<Rightarrow> False)"

definition disable_if :: "(cell \<Rightarrow> bool) \<Rightarrow> week list \<Rightarrow> week list" where
  "disable_if p = map_cells (\<lambda>x. if p x then x\<lparr>td_disabled := True\<rparr> else x)"

definition date_field :: "(int \<Rightarrow> int) \<Rightarrow> jsdate \<Rightarrow> num_arg" where
  "date_field g d = (case d of Some t \<Rightarrow> NInt (g t) | None \<Rightarrow> NNaN)"

definition date_day :: "jsdate \<Rightarrow> int option" where
  "date_day d = map_option getDate d"

definition same_month :: "picker \<Rightarrow> jsdate \<Rightarrow> bool" where
  "same_month c d \<longleftrightarrow> \<not> num_neq (displayedYear c) (year_num d) \<and> \<not> num_neq (displayedMonth c) (month_num d)"

text \<open>
  The days before the first and after the last one that may be chosen.  The first reads the text of each cell back, and
  \<open>Date.fromString\<close> throws on a text that is not in the format.  The pages that have a calendar load \<open>date.js\<close> without the
  Chinese names, so the format is yyyy-mm-dd, in which the text of a day reads back (\<open>DateExt.iso_roundtrip\<close>); with another
  format the exception would leave the drawing half-way, which is not modelled: the branch of \<open>Inl\<close> is not reached.
\<close>

(* src/lib/js/datepicker/jquery.datePicker.js:1025-1061 _renderCalendar, before the start *)
definition disable_before :: "date_names \<Rightarrow> picker \<Rightarrow> jsdate \<Rightarrow> week list \<Rightarrow> week list" where
  "disable_before nm c st ws =
     (if same_month c st
      then (let ws1 = disable_if (\<lambda>x. \<not> td_current x \<and> text_gt x 20) ws
            in case date_day st of Some d \<Rightarrow> disable_if (\<lambda>x. td_current x \<and> text_lt x d) ws1 | None \<Rightarrow> ws1)
      else (case date_day st of
              Some d \<Rightarrow>
                (if d > 20 \<and> same_month c (addMonths 1 st)
                 then disable_if (\<lambda>x. \<not> td_current x \<and> (case fromString nm (td_data x) of Inr y \<Rightarrow> date_lt y st | Inl _ \<Rightarrow> False)) ws
                 else ws)
            | None \<Rightarrow> ws))"

(* src/lib/js/datepicker/jquery.datePicker.js:1062-1100 _renderCalendar, after the end *)
definition disable_after :: "picker \<Rightarrow> jsdate \<Rightarrow> week list \<Rightarrow> week list" where
  "disable_after c en ws =
     (if same_month c en
      then (let ws1 = disable_if (\<lambda>x. \<not> td_current x \<and> text_lt x 14) ws
            in case date_day en of Some d \<Rightarrow> disable_if (\<lambda>x. td_current x \<and> text_gt x d) ws1 | None \<Rightarrow> ws1)
      else (case date_day en of
              Some d \<Rightarrow>
                (if d < 13 \<and> same_month c (addMonths (- 1) en)
                 then disable_if (\<lambda>x. \<not> td_current x \<and> text_lt x 13 \<and> text_gt x d) ws
                 else ws)
            | None \<Rightarrow> ws))"

definition bound :: "jsdate option \<Rightarrow> jsdate" where
  "bound b = (case b of Some d \<Rightarrow> d | None \<Rightarrow> None)"

(* src/lib/js/datepicker/jquery.datePicker.js:1007-1101 _renderCalendar, the weeks *)
definition month_weeks :: "date_names \<Rightarrow> int \<Rightarrow> picker \<Rightarrow> week list" where
  "month_weeks nm now c =
     disable_after c (bound (endDate c))
       (disable_before nm c (bound (startDate c))
          (map (cell_marks nm c) (renderCalendar nm now (displayedMonth c) (displayedYear c))))"

(* src/lib/js/datepicker/jquery.datePicker.js:1001-1102 _renderCalendar *)
definition pop_render :: "nat \<Rightarrow> dpage \<Rightarrow> dpage" where
  "pop_render i s =
     (let c = pickers s i; nm = pg_names s
      in s\<lparr>the_popup := map_option (\<lambda>p. p\<lparr>
            cal_owner := i, pop_drawn := Suc (pop_drawn p),
            pop_title := asString nm ''mmmm yyyy'' (new_date_num (displayedYear c) (displayedMonth c) 1 0),
            pop_weeks := month_weeks nm (pg_now s) c,
            prev_disabled := same_month c (bound (startDate c)),
            next_disabled := same_month c (bound (endDate c))\<rparr>) (the_popup s)\<rparr>)"

subsection \<open>The controller\<close>

text \<open>The month asked for, moved into the months of the bounds.\<close>

definition asked_month :: "dpage \<Rightarrow> picker \<Rightarrow> num_arg \<Rightarrow> num_arg \<Rightarrow> jsdate" where
  "asked_month s c m y =
     (if (num_falsy m \<and> num_falsy y) \<or> (m = NNaN \<and> y = NNaN) then setDate 1 (zeroTime (Some (pg_now s)))
      else if m = NNaN then new_date_num y (displayedMonth c) 1 0
      else if y = NNaN then new_date_num (displayedYear c) m 1 0
      else new_date_num y m 1 0)"

definition clamp_date :: "jsdate \<Rightarrow> jsdate \<Rightarrow> jsdate \<Rightarrow> jsdate" where
  "clamp_date s e t = (if date_lt t s then s else if date_lt e t then e else t)"

(* src/lib/js/datepicker/jquery.datePicker.js:655-696 setDisplayedMonth *)
definition setDisplayedMonth :: "nat \<Rightarrow> num_arg \<Rightarrow> num_arg \<Rightarrow> bool \<Rightarrow> dpage \<Rightarrow> dpage" where
  "setDisplayedMonth i m y rerender s =
     (let c = pickers s i
      in case (startDate c, endDate c) of
           (Some st, Some en) \<Rightarrow>
             (let t = clamp_date (setDate 1 st) (setDate 1 en) (asked_month s c m y);
                  s1 = upd i (\<lambda>c. c\<lparr>displayedMonth := month_num t, displayedYear := year_num t\<rparr>) s
              in if rerender \<and> (num_neq (month_num t) (displayedMonth c) \<or> num_neq (year_num t) (displayedYear c))
                 then log_ev (MonthChanged i (month_num t) (year_num t)) (pop_render i s1)
                 else s1)
         | _ \<Rightarrow> s)"

text \<open>A bound given as text is read in the format; an empty text is none.\<close>

definition read_bound :: "date_names \<Rightarrow> date_arg \<Rightarrow> js_error + jsdate option" where
  "read_bound nm a = (case a of NoDate \<Rightarrow> Inr None | DateObj d \<Rightarrow> Inr (Some d)
     | DateText t \<Rightarrow> (if t = '''' then Inr None else map_sum id Some (fromString nm t)))"

(* src/lib/js/datepicker/jquery.datePicker.js:600-613 setStartDate *)
definition setStartDate :: "nat \<Rightarrow> date_arg \<Rightarrow> dpage \<Rightarrow> outcome" where
  "setStartDate i a s =
     (case read_bound (pg_names s) a of
        Inl _ \<Rightarrow> Threw s
      | Inr r \<Rightarrow>
          (let s1 = upd i (\<lambda>c. case r of
                 Some d \<Rightarrow> c\<lparr>startDate := Some d, end_is_start := False\<rparr>
               | None \<Rightarrow> if startDate c = None then c\<lparr>startDate := Some (zeroTime (Some (pg_now s))), end_is_start := False\<rparr> else c) s;
               c1 = pickers s1 i
           in Done (setDisplayedMonth i (displayedMonth c1) (displayedYear c1) False s1)))"

(* src/lib/js/datepicker/jquery.datePicker.js:614-630 setEndDate *)
definition setEndDate :: "nat \<Rightarrow> date_arg \<Rightarrow> dpage \<Rightarrow> outcome" where
  "setEndDate i a s =
     (case read_bound (pg_names s) a of
        Inl _ \<Rightarrow> Threw s
      | Inr r \<Rightarrow>
          (let s1 = upd i (\<lambda>c.
                 let c1 = (case r of
                       Some d \<Rightarrow> c\<lparr>endDate := Some d, end_is_start := False\<rparr>
                     | None \<Rightarrow> if endDate c = None then c\<lparr>endDate := Some (new_date 2999 11 31 0), end_is_start := False\<rparr> else c)
                 in if date_lt (bound (endDate c1)) (bound (startDate c1)) then c1\<lparr>endDate := startDate c1, end_is_start := True\<rparr> else c1) s;
               c1 = pickers s1 i
           in Done (setDisplayedMonth i (displayedMonth c1) (displayedYear c1) False s1)))"

(* src/lib/js/datepicker/jquery.datePicker.js:770-774 clearSelected *)
definition clearSelected :: "nat \<Rightarrow> dpage \<Rightarrow> dpage" where
  "clearSelected i s =
     on_weeks (map (\<lambda>w. if \<exists>x \<in> set (wk_cells w). td_selected x
                        then w\<lparr>wk_selected := False, wk_cells := map (\<lambda>x. x\<lparr>td_selected := False\<rparr>) (wk_cells w)\<rparr> else w))
       (upd i (\<lambda>c. c\<lparr>selectedDates := [], numSelected := 0\<rparr>) s)"

text \<open>\<open>r.push(Date.fromString(s))\<close> for the dates that are selected\<close>

fun read_dates :: "date_names \<Rightarrow> (string \<times> bool) list \<Rightarrow> js_error + jsdate list" where
  "read_dates nm [] = Inr []"
| "read_dates nm ((k, v) # r) =
     (if v then (case fromString nm k of Inl e \<Rightarrow> Inl e | Inr d \<Rightarrow> map_sum id ((#) d) (read_dates nm r)) else read_dates nm r)"

(* src/lib/js/datepicker/jquery.datePicker.js:759-769 getSelected *)
definition getSelected :: "date_names \<Rightarrow> picker \<Rightarrow> js_error + jsdate list" where
  "getSelected nm c = read_dates nm (selectedDates c)"

text \<open>Setting a property of an object: a new one goes to the end.\<close>

fun obj_set :: "string \<Rightarrow> bool \<Rightarrow> (string \<times> bool) list \<Rightarrow> (string \<times> bool) list" where
  "obj_set k v [] = [(k, v)]"
| "obj_set k v ((k', v') # r) = (if k' = k then (k, v) # r else (k', v') # obj_set k v r)"


text \<open>The part of \<open>setSelected\<close> that decides: the date as it is after the checks, which change it, and whether it goes on.\<close>

(* src/lib/js/datepicker/jquery.datePicker.js:699-723 setSelected, the checks *)
definition sel_check :: "nat \<Rightarrow> jsdate \<Rightarrow> bool \<Rightarrow> dpage \<Rightarrow> dpage \<times> jsdate \<times> bool" where
  "sel_check i d v s =
     (let nm = pg_names s; c = pickers s i
      in if date_lt d (bound (startDate c)) then (s, d, False)
         else (let d1 = zeroTime d; en = zeroTime (bound (endDate c));
                   s1 = upd i (\<lambda>c. c\<lparr>endDate := Some en, startDate := if end_is_start c then Some en else startDate c\<rparr>) s;
                   c1 = pickers s1 i
               in if date_lt en d1 then (s1, d1, False)
                  else (let week = o_selectWeek (settings c1);
                            d2 = (if week then (case d1 of Some t \<Rightarrow> addDays (- ((getDay t - firstDayOfWeek nm + 7) mod 7)) d1 | None \<Rightarrow> None) else d1)
                        in if week \<and> date_lt d2 (bound (startDate c1)) then (s1, d2, False)
                           else if isSelected nm d2 c1 = Some v then (s1, d2, False)
                           else if selectMultiple c1 \<and> v \<and> numSelected c1 = numSelectable c1 then (s1, d2, False)
                           else (s1, d2, True))))"

text \<open>The marks on the popup's cells.\<close>

(* src/lib/js/datepicker/jquery.datePicker.js:730-745 setSelected, the marks *)
definition mark_selected :: "nat \<Rightarrow> jsdate \<Rightarrow> bool \<Rightarrow> dpage \<Rightarrow> dpage" where
  "mark_selected i d v s =
     (let nm = pg_names s; c = pickers s i; key = asString nm (date_format nm) d;
          cur = (\<not> num_neq (month_num d) (displayedMonth c));
          hit = (\<lambda>x. td_current x = cur \<and> td_data x = key);
          full = (selectMultiple c \<and> numSelected c = numSelectable c)
      in on_weeks (map (\<lambda>w. w\<lparr>
            wk_selected := (if o_selectWeek (settings c) \<and> (\<exists>x \<in> set (wk_cells w). hit x) then v else wk_selected w),
            wk_cells := map (\<lambda>x. let y = (if hit x then x\<lparr>td_selected := v\<rparr> else x)
                                 in if td_selected y then y else y\<lparr>td_unselectable := full\<rparr>) (wk_cells w)\<rparr>)) s)"

(* src/lib/js/datepicker/jquery.datePicker.js:697-745 setSelected, up to the events *)
definition sel_change :: "nat \<Rightarrow> jsdate \<Rightarrow> bool \<Rightarrow> bool \<Rightarrow> dpage \<Rightarrow> dpage \<times> jsdate \<times> bool" where
  "sel_change i d0 v moveToMonth s =
     (case sel_check i d0 v s of (s1, d, go) \<Rightarrow>
        if \<not> go then (s1, d, False)
        else (let nm = pg_names s; key = asString nm (date_format nm) d;
                  s2 = (if selectMultiple (pickers s1 i) then s1 else clearSelected i s1);
                  c2 = pickers s2 i;
                  s3 = (if moveToMonth \<and> (num_neq (displayedMonth c2) (month_num d) \<or> num_neq (displayedYear c2) (year_num d))
                        then setDisplayedMonth i (month_num d) (year_num d) True s2 else s2);
                  s4 = upd i (\<lambda>c. c\<lparr>selectedDates := obj_set key v (selectedDates c),
                                    numSelected := numSelected c + (if v then 1 else - 1)\<rparr>) s3
              in (mark_selected i d v s4, d, True)))"

(* src/lib/js/datepicker/jquery.datePicker.js:244-257 datePicker, a change of the field *)
definition on_change :: "nat \<Rightarrow> dpage \<Rightarrow> outcome" where
  "on_change i s =
     (if field_val (pickers s i) = '''' then Done (clearSelected i s)
      else (case fromString (pg_names s) (field_val (pickers s i)) of
              Inl _ \<Rightarrow> Threw s
            | Inr d \<Rightarrow> Done (fst (sel_change i d True True s))))"

text \<open>The events: the field takes the date, then is told that it changed.\<close>

(* src/lib/js/datepicker/jquery.datePicker.js:697-754 setSelected *)
definition setSelected :: "nat \<Rightarrow> jsdate \<Rightarrow> bool \<Rightarrow> bool \<Rightarrow> bool \<Rightarrow> dpage \<Rightarrow> outcome \<times> jsdate" where
  "setSelected i d0 v moveToMonth dispatchEvents s =
     (case sel_change i d0 v moveToMonth s of (s1, d, went) \<Rightarrow>
        if went \<and> dispatchEvents
        then (let nm = pg_names s; key = asString nm (date_format nm) d
              in case fromString nm key of
                   Inl _ \<Rightarrow> (Threw s1, d)
                 | Inr dClone \<Rightarrow>
                     (let s2 = upd i (\<lambda>c. c\<lparr>field_val := asString nm (date_format nm) dClone\<rparr>)
                                (log_ev (DateSelected i key v) s1)
                      in (on_change i (log_ev (Changed i) s2), d)))
        else (Done s1, d))"

(* src/lib/js/datepicker/jquery.datePicker.js:1103-1116 _closeCalendar *)
definition closeCalendar :: "nat \<Rightarrow> bool \<Rightarrow> dpage \<Rightarrow> outcome" where
  "closeCalendar i programatic s =
     (let s1 = s\<lparr>the_popup := None, listening := None\<rparr>
      in if programatic then Done s1
         else (case getSelected (pg_names s) (pickers s i) of
                 Inl _ \<Rightarrow> Threw s1
               | Inr ds \<Rightarrow> Done (log_ev (Closed i ds) s1)))"

text \<open>
  Opening: any popup goes, the keys and presses of the page are listened to for this controller, and
  unless the month is remembered the one of the first date is shown.
\<close>

(* src/lib/js/datepicker/jquery.datePicker.js:775-926 display *)
definition display :: "nat \<Rightarrow> dpage \<Rightarrow> outcome" where
  "display i s =
     (if dp_disabled (pickers s i) then Done s
      else (let s1 = s\<lparr>the_popup := None, listening := Some i\<rparr>;
                open_it = (\<lambda>s. Done (log_ev (Displayed i) (pop_render i (s\<lparr>the_popup := Some
                   \<lparr>pop_owner = i, cal_owner = i, pop_title = '''', pop_weeks = [], pop_drawn = 0, prev_disabled = False, next_disabled = False\<rparr>\<rparr>))))
            in if o_rememberViewedMonth (settings (pickers s i)) then open_it s1
               else (case getSelected (pg_names s1) (pickers s1 i) of
                       Inl _ \<Rightarrow> Threw s1
                     | Inr [] \<Rightarrow> open_it s1
                     | Inr (d # _) \<Rightarrow> open_it (setDisplayedMonth i (month_num d) (year_num d) False s1))))"

text \<open>A press of one of the buttons of the popup: \<open>m\<close> and \<open>y\<close> are the steps, back or on.\<close>

(* src/lib/js/datepicker/jquery.datePicker.js:990-1000 _displayNewMonth *)
definition displayNewMonth :: "int \<Rightarrow> int \<Rightarrow> dpage \<Rightarrow> dpage" where
  "displayNewMonth m y s =
     (case the_popup s of None \<Rightarrow> s
      | Some p \<Rightarrow>
          (let i = pop_owner p; c = pickers s i; blocked = (if m < 0 \<or> y < 0 then prev_disabled p else next_disabled p)
           in if blocked then s
              else setDisplayedMonth i (num_add (displayedMonth c) m) (num_add (displayedYear c) y) True s))"

text \<open>The date that a click leaves in its cell, unless the table was drawn anew meanwhile.\<close>

definition set_cell_date :: "nat \<Rightarrow> nat \<Rightarrow> nat \<Rightarrow> jsdate \<Rightarrow> dpage \<Rightarrow> dpage" where
  "set_cell_date n r k d s =
     s\<lparr>the_popup := map_option (\<lambda>p. if pop_drawn p = n \<and> r < length (pop_weeks p)
        then p\<lparr>pop_weeks := (pop_weeks p)[r := (pop_weeks p ! r)\<lparr>wk_cells :=
                 (wk_cells (pop_weeks p ! r))[k := (wk_cells (pop_weeks p ! r) ! k)\<lparr>td_date := d\<rparr>]\<rparr>]\<rparr>
        else p) (the_popup s)\<rparr>"

fun map_outcome :: "(dpage \<Rightarrow> dpage) \<Rightarrow> outcome \<Rightarrow> outcome" where
  "map_outcome f (Done s) = Done (f s)"
| "map_outcome f (Threw s) = Threw (f s)"

definition the_cell :: "nat \<Rightarrow> nat \<Rightarrow> popup \<Rightarrow> cell option" where
  "the_cell r k p = (if r < length (pop_weeks p) \<and> k < length (wk_cells (pop_weeks p ! r))
     then Some (wk_cells (pop_weeks p ! r) ! k) else None)"

text \<open>A click on a day: it is chosen, or left when it was and several may be, and the calendar closes.\<close>

(* src/lib/js/datepicker/jquery.datePicker.js:933-964 cellRender, the click *)
definition click_cell :: "nat \<Rightarrow> nat \<Rightarrow> dpage \<Rightarrow> outcome" where
  "click_cell r k s =
     (case the_popup s of None \<Rightarrow> Done s
      | Some p \<Rightarrow> (case the_cell r k p of None \<Rightarrow> Done s
        | Some x \<Rightarrow>
           (let i = cal_owner p; c = pickers s i
            in if td_disabled x then Done s
               else (case setSelected i (td_date x) (\<not> td_selected x \<or> \<not> selectMultiple c) False True s of
                       (res, d) \<Rightarrow> andthen (map_outcome (set_cell_date (pop_drawn p) r k d) res) (\<lambda>s1.
                          if closeOnSelect (pickers s1 i) then closeCalendar i False s1 else Done s1)))))"

subsection \<open>Making a calendar, and the events\<close>

(* src/lib/js/datepicker/jquery.datePicker.js:546-572 DatePicker *)
definition new_picker :: "string \<Rightarrow> picker" where
  "new_picker v = \<lparr>displayedMonth = NNull, displayedYear = NNull, startDate = None, endDate = None, end_is_start = False,
     closeOnSelect = False, selectMultiple = False, numSelectable = 0, numSelected = 0, selectedDates = [],
     settings = dp_defaults, dp_disabled = False, dp_button = False, field_val = v\<rparr>"

definition num_arg_of :: "num_arg \<Rightarrow> num_arg" where
  "num_arg_of a = (case num_of a of Some n \<Rightarrow> NInt n | None \<Rightarrow> NNaN)"

(* src/lib/js/datepicker/jquery.datePicker.js:576-599 init *)
definition dp_init :: "nat \<Rightarrow> dp_opts \<Rightarrow> dpage \<Rightarrow> outcome" where
  "dp_init i o1 s =
     andthen (setStartDate i (o_startDate o1) s) (\<lambda>s1.
     andthen (setEndDate i (o_endDate o1) s1) (\<lambda>s2.
       Done (upd i (\<lambda>c. c\<lparr>closeOnSelect := o_closeOnSelect o1, selectMultiple := o_selectMultiple o1,
                         numSelectable := (if o_selectMultiple o1 then o_numSelectable o1 else 1),
                         numSelected := 0, settings := o1\<rparr>)
              (setDisplayedMonth i (num_arg_of (o_month o1)) (num_arg_of (o_year o1)) False s2))))"

text \<open>A field with the text \<open>v\<close> gets its calendar; the text it has is read when there is one.\<close>

(* src/lib/js/datepicker/jquery.datePicker.js:188-272 datePicker *)
definition datePicker :: "nat \<Rightarrow> string \<Rightarrow> dp_opts \<Rightarrow> dpage \<Rightarrow> outcome" where
  "datePicker i v o1 s =
     andthen (dp_init i o1 (upd i (\<lambda>_. new_picker v) s)) (\<lambda>s1.
       let s2 = upd i (\<lambda>c. c\<lparr>dp_button := o_createButton o1\<rparr>) s1
       in case fromString (pg_names s2) v of
            Inl _ \<Rightarrow> Threw s2
          | Inr d \<Rightarrow> if v \<noteq> '''' then Done (fst (sel_change i d True True s2)) else Done s2)"

(* src/lib/js/datepicker/jquery.datePicker.js:640-654 setDisabled *)
definition setDisabled :: "nat \<Rightarrow> bool \<Rightarrow> dpage \<Rightarrow> dpage" where
  "setDisabled i b = upd i (\<lambda>c. c\<lparr>dp_disabled := b\<rparr>)"

text \<open>The functions of the element: \<open>dpSetSelected\<close> reads a text, with \<open>true\<close> for what is not given.\<close>

(* src/lib/js/datepicker/jquery.datePicker.js:376-382 dpSetSelected *)
definition dpSetSelected :: "nat \<Rightarrow> string \<Rightarrow> bool \<Rightarrow> bool \<Rightarrow> bool \<Rightarrow> dpage \<Rightarrow> outcome" where
  "dpSetSelected i t v m e s =
     (case fromString (pg_names s) t of Inl _ \<Rightarrow> Threw s | Inr d \<Rightarrow> fst (setSelected i d v m e s))"

(* src/lib/js/datepicker/jquery.datePicker.js:398-401 dpSetDisplayedMonth *)
definition dpSetDisplayedMonth :: "nat \<Rightarrow> num_arg \<Rightarrow> num_arg \<Rightarrow> dpage \<Rightarrow> dpage" where
  "dpSetDisplayedMonth i m y = setDisplayedMonth i (num_arg_of m) (num_arg_of y) True"

datatype dp_user =
    ClickButton nat | ClickField nat | ClickDay nat nat | ClickNav int int | ClickClose | PressOutside | PressEscape
  | TypeDate nat string

text \<open>
  What a user does.  The button and, when so set, the field open the calendar; a press outside of it and the escape
  key close it for the controller that listens; typing ends with a change of the field.
\<close>

(* src/lib/js/datepicker/jquery.datePicker.js:213-268 datePicker, the events *)
fun dp_user_step :: "dp_user \<Rightarrow> dpage \<Rightarrow> outcome" where
  "dp_user_step (ClickButton i) s = (if dp_button (pickers s i) then display i s else Done s)"
| "dp_user_step (ClickField i) s =
     (if o_clickInput (settings (pickers s i)) then andthen (on_change i s) (display i) else Done s)"
| "dp_user_step (ClickDay r k) s = click_cell r k s"
| "dp_user_step (ClickNav m y) s = Done (displayNewMonth m y s)"
| "dp_user_step ClickClose s = (case the_popup s of None \<Rightarrow> Done s
     | Some p \<Rightarrow> if o_displayClose (settings (pickers s (pop_owner p))) then closeCalendar (pop_owner p) False s else Done s)"
| "dp_user_step PressOutside s = (case (the_popup s, listening s) of (Some _, Some i) \<Rightarrow> closeCalendar i False s | _ \<Rightarrow> Done s)"
| "dp_user_step PressEscape s = (case listening s of None \<Rightarrow> Done s | Some i \<Rightarrow> closeCalendar i False s)"
| "dp_user_step (TypeDate i v) s = on_change i (upd i (\<lambda>c. c\<lparr>field_val := v\<rparr>) s)"

text \<open>An exception ends what it interrupts; the page goes on with the next event.\<close>

definition after_outcome :: "outcome \<Rightarrow> dpage" where
  "after_outcome r = (case r of Done s \<Rightarrow> s | Threw s \<Rightarrow> s)"

definition dp_run :: "dp_user list \<Rightarrow> dpage \<Rightarrow> dpage" where
  "dp_run es s = fold (\<lambda>e s. after_outcome (dp_user_step e s)) es s"


subsection \<open>Months by number\<close>

definition first_day :: "int \<Rightarrow> int" where
  "first_day M = make_day (M div 12) (M mod 12) 1"

definition month_days :: "int \<Rightarrow> int" where
  "month_days M = month_len (M div 12) (M mod 12)"

definition noon :: "int \<Rightarrow> int" where
  "noon d = at_time d 43200000"

lemma first_day_month: "0 \<le> m \<Longrightarrow> m < 12 \<Longrightarrow> first_day (month_no y m) = make_day y m 1"
  by (simp add: first_day_def month_no_def)

lemma make_day_month_no: "make_day y m 1 = first_day (month_no y m)"
proof -
  have "make_day y m d = make_day (y + m div 12) (m mod 12) d" for d by (simp add: make_day_def)
  moreover have "(12 * y + m) div 12 = y + m div 12" "(12 * y + m) mod 12 = m mod 12" by simp_all
  ultimately show ?thesis by (simp add: first_day_def month_no_def)
qed

lemma month_days_bounds: "28 \<le> month_days M" "month_days M \<le> 31"
  using month_len_bounds [of "M mod 12" "M div 12"] by (simp_all add: month_days_def)

lemma first_day_Suc: "first_day (M + 1) = first_day M + month_days M"
proof -
  have "first_day (M + 1) = make_day 0 (M + 1) 1" by (simp add: make_day_month_no month_no_def)
  also have "\<dots> = make_day 0 M (month_days M + 1)" using make_day_next_month [of 0 M 1] by (simp add: month_days_def)
  also have "\<dots> = make_day 0 M 1 + month_days M" using make_day_add [of 0 M 1 "month_days M"] by (simp add: add.commute)
  also have "make_day 0 M 1 = first_day M" by (simp add: make_day_month_no month_no_def)
  finally show ?thesis .
qed

lemma first_day_pred: "first_day M = first_day (M - 1) + month_days (M - 1)"
  using first_day_Suc [of "M - 1"] by simp

lemma first_day_less: "M < N \<Longrightarrow> first_day M + 28 \<le> first_day N"
  using make_day_month_mono [of 0 M 0 N] by (simp add: month_no_def make_day_month_no)

lemma civil_first_day:
  assumes "0 \<le> j" "j < month_days M"
  shows "civil (first_day M + j) = (M div 12, M mod 12, j + 1)"
proof -
  have "valid_civil (M div 12, M mod 12, j + 1)" using assms by (simp add: valid_civil_def month_days_def)
  from civil_day_no [OF this] show ?thesis by (simp add: first_day_def make_day_add [of _ _ 1 j, simplified add.commute] add.commute)
qed

text \<open>A day is in month \<open>M\<close> when it is among its days.\<close>

definition month_idx :: "int \<Rightarrow> int" where
  "month_idx t = month_no (getFullYear t) (getMonth t)"

lemma month_idx_eq: "month_idx t = M \<longleftrightarrow> first_day M \<le> day_of t \<and> day_of t < first_day M + month_days M"
proof -
  have v: "0 \<le> getMonth t" "getMonth t < 12" "1 \<le> getDate t" "getDate t \<le> month_len (getFullYear t) (getMonth t)"
    using fields_bounds by blast+
  have ix: "month_idx t div 12 = getFullYear t" "month_idx t mod 12 = getMonth t"
    using v by (simp_all add: month_idx_def month_no_def)
  have day: "day_of t = first_day (month_idx t) + (getDate t - 1)"
    using make_day_add [of "getFullYear t" "getMonth t" 1 "getDate t - 1"] by (simp add: first_day_def ix)
  have mine: "first_day (month_idx t) \<le> day_of t \<and> day_of t < first_day (month_idx t) + month_days (month_idx t)"
    using v by (simp add: day month_days_def ix)
  show ?thesis
  proof
    assume r: "first_day M \<le> day_of t \<and> day_of t < first_day M + month_days M"
    consider "month_idx t + 1 \<le> M" | "M + 1 \<le> month_idx t" | "month_idx t = M" by linarith
    then show "month_idx t = M"
    proof cases
      case 1
      then have "first_day (month_idx t + 1) \<le> first_day M" using first_day_less [of "month_idx t + 1" M] by (cases "month_idx t + 1 = M") auto
      then show ?thesis using r mine by (simp add: first_day_Suc)
    next
      case 2
      then have "first_day (M + 1) \<le> first_day (month_idx t)" using first_day_less [of "M + 1" "month_idx t"] by (cases "M + 1 = month_idx t") auto
      then show ?thesis using r mine by (simp add: first_day_Suc)
    qed
  qed (use mine in auto)
qed

lemma getDate_first_day: "month_idx t = M \<Longrightarrow> getDate t = day_of t - first_day M + 1"
  using civil_first_day [of "day_of t - first_day M" M] month_idx_eq [of t M] by (simp add: getDate_def)

lemma month_year_idx: "getMonth t = M mod 12 \<and> getFullYear t = M div 12 \<longleftrightarrow> month_idx t = M"
  using fields_bounds(1,2) [of t] by (auto simp: month_idx_def month_no_def)

lemma noon_simps [simp]: "day_of (noon d) = d" "time_of (noon d) = 43200000"
  by (simp_all add: noon_def ms_day_def)

subsection \<open>The table shows its month, in whole weeks\<close>

text \<open>Days from the year 100 on, well within the range of dates.\<close>

definition plain_day :: "int \<Rightarrow> bool" where
  "plain_day d \<longleftrightarrow> day_from_year 100 \<le> d \<and> d \<le> 89000000"

lemma getFullYear_year: "getFullYear t = year_of_day (day_of t)"
  by (simp add: getFullYear_def civil_def Let_def split: prod.split)

lemma plain_day_year: "plain_day (day_of t) \<Longrightarrow> 100 \<le> getFullYear t"
proof -
  assume p: "plain_day (day_of t)"
  have "day_of t < day_from_year (getFullYear t + 1)"
    using year_of_day_iff [of "day_of t" "getFullYear t"] by (simp add: getFullYear_year)
  then have "\<not> getFullYear t + 1 < 100 \<and> getFullYear t + 1 \<noteq> 100"
    using p day_from_year_mono [of "getFullYear t + 1" 100] by (auto simp: plain_day_def)
  then show ?thesis by linarith
qed

lemma plain_day_near: "plain_day d \<Longrightarrow> near d"
  by (simp add: plain_day_def near_def day_from_year_def abs_le_iff)

lemma next_day_noon:
  assumes "plain_day d"
  shows "next_day (Some (noon d)) = Some (noon (d + 1))"
proof -
  have y: "100 \<le> getFullYear (noon d)" using plain_day_year [of "noon d"] assms by simp
  have "make_day (getFullYear (noon d)) (getMonth (noon d)) (getDate (noon d) + 1) = d + 1"
    using make_day_fields [of "noon d"] by (simp add: make_day_add)
  moreover have "time_clip (noon (d + 1)) = Some (noon (d + 1))"
    using near_clip [of 1 d "noon 0"] plain_day_near [OF assms] unfolding noon_simps by (simp add: noon_def)
  ultimately show ?thesis using y by (simp add: next_day_def new_date_def full_year_def noon_def)
qed

lemma render_days_noon:
  "plain_day d \<Longrightarrow> plain_day (d + int n) \<Longrightarrow>
    render_days nm today month n (Some (noon d)) = map (\<lambda>k. render_cell nm today month (Some (noon (d + int k)))) [0..<n]"
proof (induction n arbitrary: d)
  case (Suc n)
  have "plain_day (d + 1)" using Suc.prems by (auto simp: plain_day_def)
  moreover have "[0..<Suc n] = 0 # map Suc [0..<n]" by (simp add: map_Suc_upt upt_conv_Cons del: upt_Suc)
  ultimately show ?case using Suc by (simp add: next_day_noon add.assoc comp_def del: upt_Suc)
qed simp

lemma next_days_noon: "plain_day d \<Longrightarrow> plain_day (d + int n) \<Longrightarrow> (next_day ^^ n) (Some (noon d)) = Some (noon (d + int n))"
proof (induction n)
  case (Suc n)
  then have "plain_day (d + int n)" by (auto simp: plain_day_def)
  then show ?case using Suc by (simp add: next_day_noon add.assoc) (simp add: add.commute)
qed simp

definition week_row :: "date_names \<Rightarrow> int \<Rightarrow> num_arg \<Rightarrow> int \<Rightarrow> week" where
  "week_row nm today month d =
     \<lparr>wk_selected = False, wk_cells = map (\<lambda>k. render_cell nm today month (Some (noon (d + int k)))) [0..<7]\<rparr>"

lemma render_weeks_noon:
  "plain_day d \<Longrightarrow> plain_day (d + 7 * int w) \<Longrightarrow>
    render_weeks nm today month w (Some (noon d)) = map (\<lambda>j. week_row nm today month (d + 7 * int j)) [0..<w]"
proof (induction w arbitrary: d)
  case (Suc w)
  have p: "plain_day (d + 7)" using Suc.prems by (auto simp: plain_day_def)
  then have "(next_day ^^ 7) (Some (noon d)) = Some (noon (d + 7))" using next_days_noon [of d 7] Suc.prems by simp
  moreover have "render_days nm today month 7 (Some (noon d)) = wk_cells (week_row nm today month d)"
    using render_days_noon [of d 7] p Suc.prems by (simp add: week_row_def)
  moreover have "[0..<Suc w] = 0 # map Suc [0..<w]" by (simp add: map_Suc_upt upt_conv_Cons del: upt_Suc)
  ultimately show ?case using Suc.IH [of "d + 7"] Suc.prems p
    by (simp add: comp_def week_row_def algebra_simps del: upt_Suc)
qed simp


definition grid_start :: "int \<Rightarrow> int \<Rightarrow> int" where
  "grid_start fdow f = f + first_offset fdow ((f + 4) mod 7) - 1"

definition grid_weeks :: "int \<Rightarrow> int \<Rightarrow> nat" where
  "grid_weeks fdow M = weeks_to_draw (first_offset fdow ((first_day M + 4) mod 7)) (month_days M)"

lemma grid_start_props:
  assumes "0 \<le> fdow" "fdow < 7"
  shows "(grid_start fdow f + 4) mod 7 = fdow" "grid_start fdow f \<le> f" "f - 6 \<le> grid_start fdow f"
proof -
  obtain q r where qr: "f + 4 = 7 * q + r" "0 \<le> r" "r < 7" "(f + 4) mod 7 = r"
    using mult_div_mod_eq [of 7 "f + 4"] by (metis pos_mod_bound pos_mod_sign zero_less_numeral)
  have m: "(7 * k + fdow) mod 7 = fdow" for k using assms by simp
  have gs: "grid_start fdow f = f + first_offset fdow r - 1" by (simp only: grid_start_def qr(4))
  show "(grid_start fdow f + 4) mod 7 = fdow"
  proof (cases "fdow - r + 1 > 1")
    case True
    then have "grid_start fdow f + 4 = 7 * (q - 1) + fdow" using qr(1) by (simp add: gs first_offset_def)
    then show ?thesis by (simp only: m)
  next
    case False
    then have "grid_start fdow f + 4 = 7 * q + fdow" using qr(1) by (simp add: gs first_offset_def)
    then show ?thesis by (simp only: m)
  qed
  show "grid_start fdow f \<le> f" "f - 6 \<le> grid_start fdow f"
    using qr(2,3) assms by (auto simp: gs first_offset_def Let_def)
qed

lemma ceil7: "0 < n \<Longrightarrow> 7 * (int (nat (- (- n div 7))) - 1) < n \<and> n \<le> 7 * int (nat (- (- n div 7)))"
proof -
  assume n: "0 < n"
  obtain q r where qr: "- n = 7 * q + r" "0 \<le> r" "r < 7" "- n div 7 = q"
    using mult_div_mod_eq [of 7 "- n"] by (metis pos_mod_bound pos_mod_sign zero_less_numeral)
  then have "q < 0" using n by linarith
  then have "int (nat (- q)) = - q" by simp
  then show ?thesis using qr by simp
qed

lemma grid_weeks_cover:
  assumes "0 \<le> fdow" "fdow < 7" and s_def: "s = grid_start fdow (first_day M)"
  shows "first_day M + month_days M \<le> s + 7 * int (grid_weeks fdow M)"
    "s + 7 * (int (grid_weeks fdow M) - 1) < first_day M + month_days M"
proof -
  have e: "- first_offset fdow ((first_day M + 4) mod 7) + 1 + month_days M = first_day M - s + month_days M"
    by (simp add: s_def grid_start_def)
  have "0 < first_day M - s + month_days M" using grid_start_props(2) [OF assms(1,2), of "first_day M"] month_days_bounds [of M] by (simp add: s_def)
  from ceil7 [OF this]
  show "first_day M + month_days M \<le> s + 7 * int (grid_weeks fdow M)"
    "s + 7 * (int (grid_weeks fdow M) - 1) < first_day M + month_days M"
    unfolding grid_weeks_def weeks_to_draw_def e by simp_all
qed

lemma grid_weeks_le:
  assumes "0 \<le> fdow" "fdow < 7"
  shows "grid_weeks fdow M \<le> 6"
  using grid_weeks_cover(2) [OF assms refl, of M] grid_start_props(3) [OF assms, of "first_day M"] month_days_bounds [of M]
  by (simp add: right_diff_distrib)

text \<open>Months whose tables have plain days only.\<close>

definition plain_month :: "int \<Rightarrow> bool" where
  "plain_month M \<longleftrightarrow> plain_day (first_day M - 31) \<and> plain_day (first_day M + 73)"

lemma plain_month_day: "plain_month M \<Longrightarrow> first_day M - 31 \<le> d \<Longrightarrow> d \<le> first_day M + 73 \<Longrightarrow> plain_day d"
  by (auto simp: plain_month_def plain_day_def)

lemma plain_month_year: "plain_month M \<Longrightarrow> 100 \<le> M div 12"
proof -
  assume "plain_month M"
  then have "plain_day (day_of (noon (first_day M)))" using plain_month_day [of M "first_day M"] by simp
  from plain_day_year [OF this] show ?thesis using month_year_idx [of "noon (first_day M)" M] month_idx_eq [of "noon (first_day M)" M] month_days_bounds [of M] by simp
qed

lemma renderCalendar_grid:
  assumes fdow: "0 \<le> firstDayOfWeek nm" "firstDayOfWeek nm < 7" and M: "plain_month M"
  shows "\<exists>today. renderCalendar nm now (NInt (M mod 12)) (NInt (M div 12)) =
    map (\<lambda>j. week_row nm today (NInt (M mod 12)) (grid_start (firstDayOfWeek nm) (first_day M) + 7 * int j))
      [0..<grid_weeks (firstDayOfWeek nm) M]"
proof -
  define f where "f = first_day M"
  define off where "off = first_offset (firstDayOfWeek nm) ((f + 4) mod 7)"
  have y: "100 \<le> M div 12" by (rule plain_month_year [OF M])
  have pf: "plain_day f" using plain_month_day [OF M, of f] by (simp add: f_def)
  have clip: "time_clip (noon f) = Some (noon f)"
    using near_clip [of 0 f "noon 0"] plain_day_near [OF pf] unfolding noon_simps by (simp add: noon_def)
  then have nd: "new_date_num (NInt (M div 12)) (NInt (M mod 12)) 1 12 = Some (noon f)"
    using y by (simp add: new_date_num_def new_date_def full_year_def noon_def f_def first_day_def)
  have ix: "month_idx (noon f) = M" using month_days_bounds [of M] by (simp add: month_idx_eq f_def)
  have len: "getDaysInMonth (noon f) = month_days M"
    using ix month_year_idx [of "noon f" M] by (simp add: getDaysInMonth_len month_days_def)
  have wd: "getDay (noon f) = (f + 4) mod 7" by (simp add: getDay_def)
  have s: "grid_start (firstDayOfWeek nm) f = f + (off - 1)" by (simp add: grid_start_def off_def)
  have sb: "f - 6 \<le> f + (off - 1)" "f + (off - 1) \<le> f"
    using grid_start_props(2,3) [OF fdow, of f] by (simp_all only: s)
  have ps: "plain_day (f + (off - 1))" using plain_month_day [OF M, of "f + (off - 1)"] sb by (simp add: f_def)
  have add: "addDays (off - 1) (Some (noon f)) = Some (noon (f + (off - 1)))"
  proof -
    have "noon f + (off - 1) * 86400000 = noon (f + (off - 1))" unfolding noon_def by (rule at_time_add_days)
    moreover have "time_clip (noon (f + (off - 1))) = Some (noon (f + (off - 1)))"
      using near_clip [of 0 "f + (off - 1)" "noon 0"] plain_day_near [OF ps] unfolding noon_simps by (simp add: noon_def)
    ultimately show ?thesis by (simp add: addDays_def)
  qed
  have "grid_weeks (firstDayOfWeek nm) M \<le> 6" by (rule grid_weeks_le [OF fdow])
  then have pe: "plain_day (f + (off - 1) + 7 * int (grid_weeks (firstDayOfWeek nm) M))"
    using plain_month_day [OF M] sb by (simp add: f_def)
  have gw: "weeks_to_draw off (month_days M) = grid_weeks (firstDayOfWeek nm) M" by (simp add: grid_weeks_def off_def f_def)
  have nf: "\<not> num_falsy (NInt (M div 12))" using y by simp
  show ?thesis
    using render_weeks_noon [OF ps pe] nf
    unfolding renderCalendar_def Let_def f_def [symmetric] s
    by (simp add: nd len wd gw off_def [symmetric] add del: num_falsy.simps) blast
qed


subsection \<open>The days that cannot be chosen\<close>

definition cells_of :: "week list \<Rightarrow> cell list" where
  "cells_of ws = concat (map wk_cells ws)"

definition before_p :: "date_names \<Rightarrow> picker \<Rightarrow> jsdate \<Rightarrow> cell \<Rightarrow> bool" where
  "before_p nm c st x \<longleftrightarrow>
     (if same_month c st then (\<not> td_current x \<and> text_gt x 20) \<or> (td_current x \<and> (case date_day st of Some d \<Rightarrow> text_lt x d | None \<Rightarrow> False))
      else (case date_day st of
              Some d \<Rightarrow> d > 20 \<and> same_month c (addMonths 1 st) \<and> \<not> td_current x \<and>
                (case fromString nm (td_data x) of Inr y \<Rightarrow> date_lt y st | Inl _ \<Rightarrow> False)
            | None \<Rightarrow> False))"

definition after_p :: "picker \<Rightarrow> jsdate \<Rightarrow> cell \<Rightarrow> bool" where
  "after_p c en x \<longleftrightarrow>
     (if same_month c en then (\<not> td_current x \<and> text_lt x 14) \<or> (td_current x \<and> (case date_day en of Some d \<Rightarrow> text_gt x d | None \<Rightarrow> False))
      else (case date_day en of
              Some d \<Rightarrow> d < 13 \<and> same_month c (addMonths (- 1) en) \<and> \<not> td_current x \<and> text_lt x 13 \<and> text_gt x d
            | None \<Rightarrow> False))"

lemma text_disabled [simp]:
  "text_lt (x\<lparr>td_disabled := b\<rparr>) n = text_lt x n" "text_gt (x\<lparr>td_disabled := b\<rparr>) n = text_gt x n"
  by (simp_all add: text_lt_def text_gt_def)

lemma disable_if_cong: "(\<And>x. p x = q x) \<Longrightarrow> disable_if p ws = disable_if q ws"
  by (simp add: disable_if_def)

lemma disable_if_False: "disable_if (\<lambda>x. False) ws = ws"
  by (simp add: disable_if_def map_cells_def)

lemma disable_if_none: "(\<And>x. \<not> p x) \<Longrightarrow> ws = disable_if p ws"
  by (simp add: disable_if_def map_cells_def)

lemma disable_if_twice:
  assumes "\<And>x. p (x\<lparr>td_disabled := True\<rparr>) = p x"
  shows "disable_if p (disable_if q ws) = disable_if (\<lambda>x. q x \<or> p x) ws"
  using assms by (auto simp: disable_if_def map_cells_def)

lemma disable_before_eq: "disable_before nm c st ws = disable_if (before_p nm c st) ws"
proof (cases "date_day st")
  case None
  then show ?thesis by (simp add: disable_before_def before_p_def [abs_def] disable_if_False Let_def if_distrib cong: if_cong)
next
  case (Some d)
  then show ?thesis
    by (auto simp: disable_before_def before_p_def disable_if_twice Let_def intro!: disable_if_cong disable_if_none)
qed

lemma disable_after_eq: "disable_after c en ws = disable_if (after_p c en) ws"
proof (cases "date_day en")
  case None
  then show ?thesis by (simp add: disable_after_def after_p_def [abs_def] disable_if_False Let_def if_distrib cong: if_cong)
next
  case (Some d)
  then show ?thesis
    by (auto simp: disable_after_def after_p_def disable_if_twice Let_def intro!: disable_if_cong disable_if_none)
qed

lemma cells_of_disable_if: "cells_of (disable_if p ws) = map (\<lambda>x. if p x then x\<lparr>td_disabled := True\<rparr> else x) (cells_of ws)"
  by (simp add: cells_of_def disable_if_def map_cells_def map_concat comp_def)

text \<open>The marks of the controller: only whether a cell is selected or still selectable.\<close>

definition cell_mark :: "date_names \<Rightarrow> picker \<Rightarrow> cell \<Rightarrow> cell" where
  "cell_mark nm c x = (if isSelected nm (td_date x) c = Some True then x\<lparr>td_selected := True\<rparr>
     else if selectMultiple c \<and> numSelected c = numSelectable c then x\<lparr>td_unselectable := True\<rparr> else x)"

lemma cell_mark_frame [simp]:
  "td_date (cell_mark nm c x) = td_date x" "td_data (cell_mark nm c x) = td_data x" "td_text (cell_mark nm c x) = td_text x"
  "td_current (cell_mark nm c x) = td_current x" "td_disabled (cell_mark nm c x) = td_disabled x"
  "td_selected (cell_mark nm c x) = (td_selected x \<or> isSelected nm (td_date x) c = Some True)"
  by (simp_all add: cell_mark_def)

lemma cells_of_marks: "cells_of (map (cell_marks nm c) ws) = map (cell_mark nm c) (cells_of ws)"
  by (simp add: cells_of_def cell_marks_def cell_mark_def [abs_def] map_concat comp_def Let_def)

lemma cells_of_month:
  "cells_of (month_weeks nm now c) =
     map (\<lambda>x. let y = cell_mark nm c x in if before_p nm c (bound (startDate c)) y \<or> after_p c (bound (endDate c)) y then y\<lparr>td_disabled := True\<rparr> else y)
       (cells_of (renderCalendar nm now (displayedMonth c) (displayedYear c)))"
proof -
  have "after_p c en (x\<lparr>td_disabled := True\<rparr>) = after_p c en x" for en x
    by (simp add: after_p_def split: option.split)
  then show ?thesis
    by (simp add: month_weeks_def disable_after_eq disable_before_eq disable_if_twice cells_of_disable_if cells_of_marks comp_def Let_def)
qed

lemma concat_rows: "concat (map (\<lambda>j. map (\<lambda>k. f (7 * int j + int k)) [0..<7]) [0..<w]) = map (\<lambda>n. f (int n)) [0..<7 * w]"
proof (induction w)
  case (Suc w)
  have "[0..<7 * Suc w] = [0..<7 * w] @ [7 * w..<7 * w + 7]" using upt_add_eq_append [of 0 "7 * w" 7] by (simp add: add.commute)
  also have "[7 * w..<7 * w + 7] = map (\<lambda>k. k + 7 * w) [0..<7]" by (simp only: map_add_upt add.commute)
  finally have "map (\<lambda>n. f (int n)) [0..<7 * Suc w] = map (\<lambda>n. f (int n)) [0..<7 * w] @ map (\<lambda>k. f (7 * int w + int k)) [0..<7]"
    by (simp only: map_append map_map comp_def of_nat_add of_nat_mult of_nat_numeral add.commute)
  then show ?case using Suc by (simp only: upt_Suc_append map_append concat_append list.map concat.simps append_Nil2 le0 zero_le)
qed simp

text \<open>The cells of a month: one for each day from the start of the table to its end.\<close>

lemma cells_of_grid:
  assumes "0 \<le> firstDayOfWeek nm" "firstDayOfWeek nm < 7" "plain_month M"
  shows "\<exists>today. cells_of (renderCalendar nm now (NInt (M mod 12)) (NInt (M div 12))) =
    map (\<lambda>n. render_cell nm today (NInt (M mod 12)) (Some (noon (grid_start (firstDayOfWeek nm) (first_day M) + int n))))
      [0..<7 * grid_weeks (firstDayOfWeek nm) M]"
proof -
  obtain today where "renderCalendar nm now (NInt (M mod 12)) (NInt (M div 12)) =
    map (\<lambda>j. week_row nm today (NInt (M mod 12)) (grid_start (firstDayOfWeek nm) (first_day M) + 7 * int j)) [0..<grid_weeks (firstDayOfWeek nm) M]"
    using renderCalendar_grid [OF assms] by blast
  then show ?thesis
    using concat_rows [of "\<lambda>n. render_cell nm today (NInt (M mod 12)) (Some (noon (grid_start (firstDayOfWeek nm) (first_day M) + n)))"]
    by (auto simp: cells_of_def week_row_def comp_def add.assoc)
qed


text \<open>A month that shows, between the months of two bounds at midnight.\<close>

definition shows_month :: "int \<Rightarrow> int \<Rightarrow> int \<Rightarrow> picker \<Rightarrow> bool" where
  "shows_month M sd ed c \<longleftrightarrow>
     displayedMonth c = NInt (M mod 12) \<and> displayedYear c = NInt (M div 12) \<and>
     startDate c = Some (Some (at_time sd 0)) \<and> endDate c = Some (Some (at_time ed 0)) \<and>
     sd \<le> ed \<and> month_idx (at_time sd 0) \<le> M \<and> M \<le> month_idx (at_time ed 0)"

lemma midnight_simps [simp]: "day_of (at_time d 0) = d" "time_of (at_time d 0) = 0"
  by (simp_all add: ms_day_def)

lemma same_month_idx:
  assumes "displayedMonth c = NInt (M mod 12)" "displayedYear c = NInt (M div 12)"
  shows "same_month c (Some t) \<longleftrightarrow> month_idx t = M"
  using assms month_year_idx [of t M] by (auto simp: same_month_def month_num_def year_num_def)

text \<open>Where a day of the table is: before, in or after the month, with its number.\<close>

lemma day_place:
  assumes "first_day M - 6 \<le> d" "d < first_day M + month_days M + 6"
  shows "d < first_day M \<Longrightarrow> month_idx (noon d) = M - 1 \<and> 22 < getDate (noon d)"
    "first_day M \<le> d \<Longrightarrow> d < first_day M + month_days M \<Longrightarrow> month_idx (noon d) = M \<and> getDate (noon d) = d - first_day M + 1"
    "first_day M + month_days M \<le> d \<Longrightarrow> month_idx (noon d) = M + 1 \<and> getDate (noon d) = d - first_day (M + 1) + 1 \<and> getDate (noon d) < 7"
proof -
  have p: "first_day M = first_day (M - 1) + month_days (M - 1)" by (rule first_day_pred)
  show "month_idx (noon d) = M - 1 \<and> 22 < getDate (noon d)" if "d < first_day M"
  proof -
    have ix: "month_idx (noon d) = M - 1"
      unfolding month_idx_eq noon_simps using that assms p month_days_bounds [of "M - 1"] by simp
    then show ?thesis using getDate_first_day [OF ix] assms p month_days_bounds [of "M - 1"] by simp
  qed
  show "month_idx (noon d) = M \<and> getDate (noon d) = d - first_day M + 1" if "first_day M \<le> d" "d < first_day M + month_days M"
  proof -
    have ix: "month_idx (noon d) = M" unfolding month_idx_eq noon_simps using that by simp
    then show ?thesis using getDate_first_day [OF ix] by simp
  qed
  show "month_idx (noon d) = M + 1 \<and> getDate (noon d) = d - first_day (M + 1) + 1 \<and> getDate (noon d) < 7"
    if "first_day M + month_days M \<le> d"
  proof -
    have ix: "month_idx (noon d) = M + 1"
      unfolding month_idx_eq noon_simps using that assms first_day_Suc [of M] month_days_bounds [of "M + 1"] by simp
    then show ?thesis using getDate_first_day [OF ix] assms first_day_Suc [of M] by simp
  qed
qed

lemma bound_day: "month_idx (at_time b 0) = N \<longleftrightarrow> first_day N \<le> b \<and> b < first_day N + month_days N"
  by (simp add: month_idx_eq)

lemma bound_date: "getDate (at_time b 0) = b - first_day (month_idx (at_time b 0)) + 1"
  using getDate_first_day [OF refl, of "at_time b 0"] by simp

lemma bound_in: "first_day (month_idx (at_time b 0)) \<le> b" "b < first_day (month_idx (at_time b 0)) + month_days (month_idx (at_time b 0))"
  using bound_day [of b "month_idx (at_time b 0)"] by simp_all

text \<open>A month on from, or back from, a bound.\<close>

lemma bound_addMonths:
  assumes "plain_day b" "\<bar>n\<bar> \<le> 1"
  shows "\<exists>u. addMonths n (Some (at_time b 0)) = Some u \<and> month_idx u = month_idx (at_time b 0) + n"
proof -
  define t where "t = at_time b 0"
  define y where "y = getFullYear t + (getMonth t + n) div 12"
  define m where "m = (getMonth t + n) mod 12"
  have ix: "month_no y m = month_idx t + n"
  proof -
    have "12 * ((getMonth t + n) div 12) + (getMonth t + n) mod 12 = getMonth t + n" by simp
    then show ?thesis by (simp add: month_no_def y_def m_def month_idx_def)
  qed
  have fd: "make_day y m 1 = first_day (month_idx t + n)" by (simp add: make_day_month_no ix)
  have db: "first_day (month_idx t) \<le> b" "b < first_day (month_idx t) + month_days (month_idx t)"
    using bound_in [of b] by (simp_all add: t_def)
  have "\<bar>first_day (month_idx t + n) - b\<bar> \<le> 62"
  proof -
    consider "n = 0" | "n = 1" | "n = - 1" using assms(2) by linarith
    then show ?thesis
      using db month_days_bounds [of "month_idx t"] month_days_bounds [of "month_idx t - 1"]
        first_day_Suc [of "month_idx t"] first_day_pred [of "month_idx t"]
      by cases (auto simp: abs_le_iff)
  qed
  then have near: "near (make_day y m 1)"
  proof -
    have "\<bar>make_day y m 1 - b\<bar> \<le> 62" using \<open>\<bar>first_day (month_idx t + n) - b\<bar> \<le> 62\<close> by (simp add: fd)
    moreover have "- 700000 \<le> b" "b \<le> 89000000" using assms(1) by (simp_all add: plain_day_def day_from_year_def)
    ultimately show ?thesis by (simp add: near_def abs_le_iff)
  qed
  show ?thesis
    using addMonths_sum [OF y_def m_def near] ix by (auto simp: t_def month_idx_def)
qed


lemma cell_before:
  assumes c: "displayedMonth c = NInt (M mod 12)" "displayedYear c = NInt (M div 12)" and le: "month_idx (at_time sd 0) \<le> M"
    and sd: "plain_day sd" and d: "plain_day d" "first_day M - 6 \<le> d" "d < first_day M + month_days M + 6"
    and nm: "date_format nm = ''yyyy-mm-dd''"
    and x: "td_text x = Some (getDate (noon d))" "td_current x = (month_idx (noon d) = M)" "td_data x = asString nm (date_format nm) (Some (noon d))"
  shows "before_p nm c (Some (at_time sd 0)) x \<longleftrightarrow> d < sd"
proof -
  define S where "S = month_idx (at_time sd 0)"
  have sb: "first_day S \<le> sd" "sd < first_day S + month_days S" using bound_in [of sd] by (simp_all add: S_def)
  have sdate: "getDate (at_time sd 0) = sd - first_day S + 1" using bound_date [of sd] by (simp add: S_def)
  have same: "same_month c (Some (at_time sd 0)) \<longleftrightarrow> S = M" by (simp add: same_month_idx [OF c] S_def)
  have read: "fromString nm (td_data x) = Inr (Some (at_time d 0))"
  proof -
    have "100 \<le> getFullYear (noon d)" using plain_day_year [of "noon d"] d(1) by simp
    moreover have "near (make_day (getFullYear (noon d)) 0 1)"
    proof -
      have "day_from_year (getFullYear (noon d)) \<le> d \<and> d < day_from_year (getFullYear (noon d)) + 366"
        using year_of_day_iff [of d "getFullYear (noon d)"] by (auto simp: getFullYear_year day_from_year_step year_len_def split: if_splits)
      then show ?thesis using d(1) by (simp add: make_day_def month_start_def near_def plain_day_def day_from_year_def abs_le_iff)
    qed
    ultimately show ?thesis using iso_read_back [OF nm, of "noon d"] by (simp add: x(3) nm)
  qed
  show ?thesis
  proof (cases "S = M")
    case True
    consider "d < first_day M" | "first_day M \<le> d" "d < first_day M + month_days M" | "first_day M + month_days M \<le> d" by linarith
    then show ?thesis
    proof cases
      case 1
      then show ?thesis using day_place(1) [OF d(2,3) 1] sb True by (simp add: before_p_def same x text_gt_def)
    next
      case 2
      then show ?thesis using day_place(2) [OF d(2,3) 2] sb True sdate
        by (auto simp: before_p_def same x text_gt_def text_lt_def date_day_def)
    next
      case 3
      then show ?thesis using day_place(3) [OF d(2,3) 3] sb True by (simp add: before_p_def same x text_gt_def)
    qed
  next
    case False
    then have less: "S < M" using le by (simp add: S_def)
    obtain u where u: "addMonths 1 (Some (at_time sd 0)) = Some u" "month_idx u = S + 1"
      using bound_addMonths [OF sd, of 1] by (auto simp: S_def)
    have next': "same_month c (addMonths 1 (Some (at_time sd 0))) \<longleftrightarrow> S + 1 = M" by (simp add: u same_month_idx [OF c])
    have mid: "at_time d 0 < at_time sd 0 \<longleftrightarrow> d < sd" by (simp add: at_time_def ms_day_def)
    have before: "before_p nm c (Some (at_time sd 0)) x \<longleftrightarrow> 20 < sd - first_day S + 1 \<and> S + 1 = M \<and> month_idx (noon d) \<noteq> M \<and> d < sd"
      using False by (auto simp: before_p_def same date_day_def sdate next' read mid x(2))
    have "d < sd \<Longrightarrow> 20 < sd - first_day S + 1 \<and> S + 1 = M \<and> month_idx (noon d) \<noteq> M"
    proof -
      assume lt: "d < sd"
      have SM: "S + 1 = M"
      proof (rule ccontr)
        assume "S + 1 \<noteq> M"
        then have "S + 1 < M" using less by linarith
        then have "first_day (S + 1) + 28 \<le> first_day M" by (rule first_day_less)
        then show False using lt sb d(2) by (simp add: first_day_Suc)
      qed
      then have f: "first_day M = first_day S + month_days S" using first_day_Suc [of S] by simp
      then have "d < first_day M" using lt sb by simp
      from day_place(1) [OF d(2,3) this] show ?thesis using SM f lt d(2) month_days_bounds [of S] by simp
    qed
    then show ?thesis using before by blast
  qed
qed

lemma cell_after:
  assumes c: "displayedMonth c = NInt (M mod 12)" "displayedYear c = NInt (M div 12)" and le: "M \<le> month_idx (at_time ed 0)"
    and ed: "plain_day ed" and d: "first_day M - 6 \<le> d" "d < first_day M + month_days M + 6"
    and x: "td_text x = Some (getDate (noon d))" "td_current x = (month_idx (noon d) = M)"
  shows "after_p c (Some (at_time ed 0)) x \<longleftrightarrow> ed < d"
proof -
  define E where "E = month_idx (at_time ed 0)"
  have eb: "first_day E \<le> ed" "ed < first_day E + month_days E" using bound_in [of ed] by (simp_all add: E_def)
  have edate: "getDate (at_time ed 0) = ed - first_day E + 1" using bound_date [of ed] by (simp add: E_def)
  have same: "same_month c (Some (at_time ed 0)) \<longleftrightarrow> E = M" by (simp add: same_month_idx [OF c] E_def)
  consider (prev) "d < first_day M" | (here) "first_day M \<le> d" "d < first_day M + month_days M" | (post) "first_day M + month_days M \<le> d" by linarith
  note places = this
  show ?thesis
  proof (cases "E = M")
    case True
    from places show ?thesis
    proof cases
      case prev
      then show ?thesis using day_place(1) [OF d prev] eb True by (simp add: after_p_def same x text_lt_def)
    next
      case here
      then show ?thesis using day_place(2) [OF d here] eb True edate
        by (auto simp: after_p_def same x text_gt_def text_lt_def date_day_def)
    next
      case post
      then show ?thesis using day_place(3) [OF d post] eb True by (simp add: after_p_def same x text_lt_def)
    qed
  next
    case False
    then have less: "M < E" using le by (simp add: E_def)
    obtain u where u: "addMonths (- 1) (Some (at_time ed 0)) = Some u" "month_idx u = E - 1"
      using bound_addMonths [OF ed, of "- 1"] by (auto simp: E_def)
    have prev': "same_month c (addMonths (- 1) (Some (at_time ed 0))) \<longleftrightarrow> E - 1 = M" by (simp add: u same_month_idx [OF c])
    have after: "after_p c (Some (at_time ed 0)) x \<longleftrightarrow>
      ed - first_day E + 1 < 13 \<and> E - 1 = M \<and> month_idx (noon d) \<noteq> M \<and> getDate (noon d) < 13 \<and> ed - first_day E + 1 < getDate (noon d)"
      using False by (simp add: after_p_def same date_day_def edate prev' x text_lt_def text_gt_def)
    have fE: "first_day (M + 1) \<le> first_day E" using first_day_less [of "M + 1" E] less by (cases "M + 1 = E") auto
    from places show ?thesis
    proof cases
      case prev
      then have "\<not> ed < d" using eb fE first_day_Suc [of M] month_days_bounds [of M] by linarith
      moreover have "22 < getDate (noon d)" using day_place(1) [OF d prev] by blast
      ultimately show ?thesis using after by linarith
    next
      case here
      then have "\<not> ed < d" using eb fE first_day_Suc [of M] by linarith
      moreover have "month_idx (noon d) = M" using day_place(2) [OF d here] by blast
      ultimately show ?thesis using after by blast
    next
      case post
      note pl = day_place(3) [OF d post]
      show ?thesis
      proof (cases "E - 1 = M")
        case True
        then have "E = M + 1" by simp
        then show ?thesis using after pl eb by auto
      next
        case False
        then have "first_day (M + 1) + 28 \<le> first_day E" using first_day_less [of "M + 1" E] less by simp
        then have "\<not> ed < d" using eb d(2) first_day_Suc [of M] by linarith
        then show ?thesis using after False by blast
      qed
    qed
  qed
qed


text \<open>What a cell of the open calendar of controller \<open>c\<close> is.\<close>

definition cell_for :: "date_names \<Rightarrow> picker \<Rightarrow> int \<Rightarrow> int \<Rightarrow> int \<Rightarrow> int \<Rightarrow> cell \<Rightarrow> bool" where
  "cell_for nm c M sd ed d x \<longleftrightarrow>
     td_date x = Some (noon d) \<and> td_data x = asString nm (date_format nm) (Some (noon d)) \<and>
     td_text x = Some (getDate (noon d)) \<and> td_current x = (month_idx (noon d) = M) \<and>
     td_disabled x = (d < sd \<or> ed < d) \<and> td_selected x = (isSelected nm (Some (noon d)) c = Some True)"

lemma calendar_cells:
  assumes shows_month: "shows_month M sd ed c" and plain: "plain_month M" "plain_day sd" "plain_day ed"
    and nm: "date_format nm = ''yyyy-mm-dd''" "0 \<le> firstDayOfWeek nm" "firstDayOfWeek nm < 7"
  defines "s \<equiv> grid_start (firstDayOfWeek nm) (first_day M)"
  shows "list_all2 (cell_for nm c M sd ed) [s..s + 7 * int (grid_weeks (firstDayOfWeek nm) M) - 1] (cells_of (month_weeks nm now c)) \<and>
    (s + 4) mod 7 = firstDayOfWeek nm \<and> s \<le> first_day M \<and> first_day M \<le> s + 6 \<and>
    s + 7 * (int (grid_weeks (firstDayOfWeek nm) M) - 1) \<le> first_day M + month_days M - 1 \<and>
    first_day M + month_days M - 1 < s + 7 * int (grid_weeks (firstDayOfWeek nm) M)"
proof -
  define w where "w = grid_weeks (firstDayOfWeek nm) M"
  have c: "displayedMonth c = NInt (M mod 12)" "displayedYear c = NInt (M div 12)"
    "bound (startDate c) = Some (at_time sd 0)" "bound (endDate c) = Some (at_time ed 0)"
    "month_idx (at_time sd 0) \<le> M" "M \<le> month_idx (at_time ed 0)"
    using shows_month by (simp_all add: shows_month_def bound_def)
  have sb: "s \<le> first_day M" "first_day M - 6 \<le> s" "(s + 4) mod 7 = firstDayOfWeek nm"
    unfolding s_def using grid_start_props [OF nm(2,3)] by blast+
  have cover: "first_day M + month_days M \<le> s + 7 * int w" "s + 7 * (int w - 1) < first_day M + month_days M"
    using grid_weeks_cover [OF nm(2,3) refl, of M] by (simp_all add: s_def w_def)
  obtain today where cells: "cells_of (renderCalendar nm now (displayedMonth c) (displayedYear c)) =
      map (\<lambda>n. render_cell nm today (NInt (M mod 12)) (Some (noon (s + int n)))) [0..<7 * w]"
    using cells_of_grid [OF nm(2,3) plain(1), of now] unfolding c s_def w_def by blast
  have one: "cell_for nm c M sd ed d (let y = cell_mark nm c (render_cell nm today (NInt (M mod 12)) (Some (noon d)))
      in if before_p nm c (Some (at_time sd 0)) y \<or> after_p c (Some (at_time ed 0)) y then y\<lparr>td_disabled := True\<rparr> else y)"
    if d: "s \<le> d" "d < s + 7 * int w" for d
  proof -
    define y where "y = cell_mark nm c (render_cell nm today (NInt (M mod 12)) (Some (noon d)))"
    have db: "first_day M - 6 \<le> d" "d < first_day M + month_days M + 6"
      using d sb cover(1) cover(2) [unfolded right_diff_distrib] by linarith+
    have pd: "plain_day d" using plain_month_day [OF plain(1), of d] db month_days_bounds [of M] by simp
    have "month_idx (noon d) \<in> {M - 1, M, M + 1}" using day_place [OF db] by fastforce
    moreover have "(M - 1) mod 12 \<noteq> M mod 12" "(M + 1) mod 12 \<noteq> M mod 12" by presburger+
    moreover have "getMonth (noon d) = month_idx (noon d) mod 12"
      using fields_bounds(1,2) [of "noon d"] by (simp add: month_idx_def month_no_def)
    ultimately have cur: "getMonth (noon d) = M mod 12 \<longleftrightarrow> month_idx (noon d) = M" by auto
    have y: "td_text y = Some (getDate (noon d))" "td_current y = (month_idx (noon d) = M)"
      "td_data y = asString nm (date_format nm) (Some (noon d))" "td_date y = Some (noon d)" "\<not> td_disabled y"
      "td_selected y = (isSelected nm (Some (noon d)) c = Some True)"
      by (simp_all add: y_def render_cell_def month_num_def cur Let_def)
    have "before_p nm c (Some (at_time sd 0)) y \<longleftrightarrow> d < sd"
      by (rule cell_before [OF c(1,2,5) plain(2) pd db nm(1) y(1,2,3)])
    moreover have "after_p c (Some (at_time ed 0)) y \<longleftrightarrow> ed < d"
      by (rule cell_after [OF c(1,2,6) plain(3) db y(1,2)])
    ultimately show ?thesis unfolding y_def [symmetric] Let_def cell_for_def using y by auto
  qed
  have "[s..s + 7 * int w - 1] = map (\<lambda>n. s + int n) [0..<7 * w]"
    by (simp add: list_eq_iff_nth_eq nth_upto nat_mult_distrib)
  then have "list_all2 (cell_for nm c M sd ed) [s..s + 7 * int w - 1] (cells_of (month_weeks nm now c))"
    unfolding cells_of_month c(3,4) cells
    by (simp add: list_all2_map1 list_all2_map2 list_all2_same one)
  then show ?thesis using sb cover by (simp add: w_def)
qed


subsection \<open>The month shown stays within the bounds\<close>

definition month_start_date :: "int \<Rightarrow> jsdate" where
  "month_start_date K = Some (at_time (first_day K) 0)"

lemma setDate_1:
  assumes "plain_day b"
  shows "setDate 1 (Some (at_time b 0)) = month_start_date (month_idx (at_time b 0))"
proof -
  have f: "make_day (getFullYear (at_time b 0)) (getMonth (at_time b 0)) 1 = first_day (month_idx (at_time b 0))"
    by (simp add: make_day_month_no month_idx_def)
  have "\<bar>first_day (month_idx (at_time b 0)) - b\<bar> \<le> 1000" using bound_in [of b] month_days_bounds [of "month_idx (at_time b 0)"] by simp
  then show ?thesis
    using near_clip [of "first_day (month_idx (at_time b 0)) - b" b "at_time 0 0"] plain_day_near [OF assms] unfolding midnight_simps
    by (simp add: setDate_def f month_start_date_def)
qed

lemma month_start_idx [simp]: "month_idx (at_time (first_day K) 0) = K"
  unfolding month_idx_eq using month_days_bounds [of K] by simp

lemma month_start_lt: "date_lt (month_start_date K) (month_start_date L) \<longleftrightarrow> K < L"
proof -
  consider "K < L" | "K = L" | "L < K" by linarith
  then show ?thesis
    using first_day_less [of K L] first_day_less [of L K] by cases (simp_all add: month_start_date_def at_time_def ms_day_def)
qed

definition clamp :: "int \<Rightarrow> int \<Rightarrow> int \<Rightarrow> int" where
  "clamp a b k = max a (min b k)"

lemma clamp_month: "S \<le> E \<Longrightarrow> clamp_date (month_start_date S) (month_start_date E) (month_start_date K) = month_start_date (clamp S E K)"
  by (auto simp: clamp_date_def month_start_lt clamp_def)

lemma month_idx_mono: "a \<le> b \<Longrightarrow> month_idx (at_time a 0) \<le> month_idx (at_time b 0)"
  using bound_in [of a] bound_in [of b] first_day_less [of "month_idx (at_time b 0) + 1" "month_idx (at_time a 0)"]
    first_day_Suc [of "month_idx (at_time b 0)"]
  by (cases "month_idx (at_time b 0) + 1 = month_idx (at_time a 0)") (auto simp: not_less [symmetric])

lemma month_start_nums: "month_num (month_start_date K) = NInt (K mod 12)" "year_num (month_start_date K) = NInt (K div 12)"
  using month_year_idx [of "at_time (first_day K) 0" K] by (simp_all add: month_num_def year_num_def month_start_date_def)

lemma setDisplayedMonth_pickers:
  "pickers (setDisplayedMonth j m y r s) i =
     (case (startDate (pickers s j), endDate (pickers s j)) of
        (Some st, Some en) \<Rightarrow>
          if i = j then (let t = clamp_date (setDate 1 st) (setDate 1 en) (asked_month s (pickers s j) m y)
                         in (pickers s j)\<lparr>displayedMonth := month_num t, displayedYear := year_num t\<rparr>)
          else pickers s i
      | _ \<Rightarrow> pickers s i)"
  by (auto simp: setDisplayedMonth_def Let_def upd_def log_ev_def pop_render_def split: option.split)

text \<open>The bounds of a controller, at midnight, and the month it shows.\<close>

definition dp_ok :: "int \<Rightarrow> int \<Rightarrow> picker \<Rightarrow> bool" where
  "dp_ok sd ed c \<longleftrightarrow> (\<exists>M. shows_month M sd ed c) \<and> (end_is_start c \<longrightarrow> sd = ed) \<and> o_rememberViewedMonth (settings c)"

lemma setDisplayedMonth_shows:
  assumes c: "startDate (pickers s j) = Some (Some (at_time sd 0))" "endDate (pickers s j) = Some (Some (at_time ed 0))" "sd \<le> ed"
    and plain: "plain_day sd" "plain_day ed"
    and asked: "asked_month s (pickers s j) m y = month_start_date K"
  defines "M \<equiv> clamp (month_idx (at_time sd 0)) (month_idx (at_time ed 0)) K"
  shows "pickers (setDisplayedMonth j m y r s) j = (pickers s j)\<lparr>displayedMonth := NInt (M mod 12), displayedYear := NInt (M div 12)\<rparr>"
    "shows_month M sd ed (pickers (setDisplayedMonth j m y r s) j)"
proof -
  have le: "month_idx (at_time sd 0) \<le> month_idx (at_time ed 0)" by (rule month_idx_mono [OF c(3)])
  show "pickers (setDisplayedMonth j m y r s) j = (pickers s j)\<lparr>displayedMonth := NInt (M mod 12), displayedYear := NInt (M div 12)\<rparr>"
    using c by (simp add: setDisplayedMonth_pickers setDate_1 plain asked clamp_month [OF le] month_start_nums Let_def flip: M_def)
  then show "shows_month M sd ed (pickers (setDisplayedMonth j m y r s) j)"
    using c le by (simp add: shows_month_def M_def clamp_def)
qed

lemma asked_now:
  assumes "num_falsy m \<and> num_falsy y \<or> m = NNaN \<and> y = NNaN" "plain_day (day_of (pg_now s))"
  shows "asked_month s c m y = month_start_date (month_idx (pg_now s))"
proof -
  have "\<bar>pg_now s\<bar> \<le> 8000000000000000"
  proof -
    have "day_of (pg_now s) * ms_day \<le> pg_now s \<and> pg_now s < (day_of (pg_now s) + 1) * ms_day"
      using at_time_bounds [of "day_of (pg_now s)" "pg_now s"] by simp
    then show ?thesis using assms(2) by (auto simp: plain_day_def ms_day_def day_from_year_def abs_le_iff)
  qed
  then have "zeroTime (Some (pg_now s)) = Some (at_time (day_of (pg_now s)) 0)" by (rule zeroTime_day)
  moreover have "month_idx (at_time (day_of (pg_now s)) 0) = month_idx (pg_now s)"
    using month_idx_eq [of "pg_now s" "month_idx (pg_now s)"] by (simp add: bound_day)
  ultimately show ?thesis using assms(1) setDate_1 [OF assms(2)] by (simp add: asked_month_def)
qed

text \<open>Asking for the month of a day, or for a month by its number.\<close>

lemma new_date_month:
  assumes "plain_month (month_no y m)" "100 \<le> y"
  shows "new_date_num (NInt y) (NInt m) 1 0 = month_start_date (month_no y m)"
proof -
  have "plain_day (first_day (month_no y m))" using plain_month_day [OF assms(1), of "first_day (month_no y m)"] by simp
  then have "time_clip (at_time (first_day (month_no y m)) 0) = Some (at_time (first_day (month_no y m)) 0)"
    using near_clip [of 0 "first_day (month_no y m)" "at_time 0 0"] plain_day_near unfolding midnight_simps by simp
  then show ?thesis using assms(2)
    by (simp add: new_date_num_def new_date_def full_year_def month_start_date_def make_day_month_no)
qed

text \<open>Days of the years from 1000 to 9999.\<close>

definition usual_day :: "int \<Rightarrow> bool" where
  "usual_day d \<longleftrightarrow> day_from_year 1000 \<le> d \<and> d < day_from_year 10000"

lemma usual_plain: "usual_day d \<Longrightarrow> plain_day d"
  by (simp add: usual_day_def plain_day_def day_from_year_def)

lemma usual_month:
  assumes "usual_day b" "\<bar>k\<bar> \<le> 12"
  shows "plain_month (month_idx (at_time b 0) + k)"
proof -
  define B where "B = month_idx (at_time b 0)"
  have b: "first_day B \<le> b" "b < first_day B + month_days B" using bound_in [of b] by (simp_all add: B_def)
  have step: "first_day (L + int n) \<le> first_day L + 31 * int n" "first_day L - 31 * int n \<le> first_day (L - int n)" for L n
  proof (induction n)
    case (Suc n)
    have e: "L + int (Suc n) = (L + int n) + 1" "L - int n - 1 = L - int (Suc n)" by simp_all
    have "first_day (L + int (Suc n)) = first_day (L + int n) + month_days (L + int n)"
      unfolding e by (rule first_day_Suc)
    moreover have "first_day (L - int n) = first_day (L - int (Suc n)) + month_days (L - int (Suc n))"
      using first_day_pred [of "L - int n"] unfolding e .
    ultimately
    show "first_day (L + int (Suc n)) \<le> first_day L + 31 * int (Suc n)" "first_day L - 31 * int (Suc n) \<le> first_day (L - int (Suc n))"
      using Suc month_days_bounds [of "L + int n"] month_days_bounds [of "L - int (Suc n)"] by simp_all
  qed simp_all
  have "first_day (B + k) \<le> first_day B + 372 \<and> first_day B - 372 \<le> first_day (B + k)"
  proof (cases "0 \<le> k")
    case True
    then have "first_day B \<le> first_day (B + k)" using first_day_less [of B "B + k"] by (cases "k = 0") auto
    then show ?thesis using step(1) [of B "nat k"] True assms(2) by simp
  next
    case False
    then have "first_day (B + k) \<le> first_day B" using first_day_less [of "B + k" B] by auto
    then show ?thesis using step(2) [of B "nat (- k)"] False assms(2) by simp
  qed
  then show ?thesis
    using b assms(1) month_days_bounds [of B] by (auto simp: plain_month_def plain_day_def usual_day_def day_from_year_def B_def)
qed

lemma usual_year:
  assumes "usual_day (day_of t)"
  shows "1000 \<le> getFullYear t" "getFullYear t < 10000"
proof -
  have r: "day_from_year (getFullYear t) \<le> day_of t" "day_of t < day_from_year (getFullYear t + 1)"
    using year_of_day_iff [of "day_of t" "getFullYear t"] by (simp_all add: getFullYear_year)
  have u: "day_from_year 1000 \<le> day_of t" "day_of t < day_from_year 10000" using assms by (simp_all add: usual_day_def)
  have "\<not> getFullYear t + 1 < 1000 \<and> getFullYear t + 1 \<noteq> 1000"
    using r(2) u(1) day_from_year_mono [of "getFullYear t + 1" 1000] by auto
  then show "1000 \<le> getFullYear t" by linarith
  show "getFullYear t < 10000"
    using r(1) u(2) day_from_year_mono [of 10000 "getFullYear t"] by (cases "getFullYear t = 10000") (simp, linarith)
qed

text \<open>The month of a date that is in the bounds, or of none.\<close>

lemma asked_for_date:
  assumes "plain_day (day_of (pg_now s))" "case d of None \<Rightarrow> True | Some t \<Rightarrow> usual_day (day_of t)"
  shows "\<exists>K. asked_month s c (month_num d) (year_num d) = month_start_date K"
proof (cases d)
  case None
  then show ?thesis using asked_now [OF _ assms(1), of NNaN NNaN c] by (auto simp: month_num_def year_num_def)
next
  case (Some t)
  then have u: "usual_day (day_of t)" using assms(2) by simp
  have y: "100 \<le> getFullYear t" "getFullYear t \<noteq> 0" using usual_year(1) [OF u] by linarith+
  have "month_idx t = month_idx (at_time (day_of t) 0)" using month_idx_eq [of t "month_idx t"] by (metis bound_day)
  then have "plain_month (month_no (getFullYear t) (getMonth t))" using usual_month [OF u, of 0] by (simp add: month_idx_def)
  from new_date_month [OF this y(1)] y(2) show ?thesis
    by (auto simp: asked_month_def month_num_def year_num_def Some)
qed

text \<open>The month that a step leads to can be asked for.\<close>

lemma step_month:
  assumes shows_month: "shows_month M sd ed c" and usual: "usual_day sd" "usual_day ed"
    and step: "(m, y) \<in> {(- 1, 0), (1, 0), (0, - 1), (0, 1)}"
  shows "new_date_num (NInt (M div 12 + y)) (NInt (M mod 12 + m)) 1 0 = month_start_date (M + m + 12 * y) \<and> 100 \<le> M div 12 + y"
proof -
  have c: "month_idx (at_time sd 0) \<le> M" "M \<le> month_idx (at_time ed 0)"
    using shows_month by (simp_all add: shows_month_def)
  define S where "S = month_idx (at_time sd 0)"
  have plS: "plain_month (S + k)" if "\<bar>k\<bar> \<le> 12" for k using usual_month [OF usual(1) that] by (simp add: S_def)
  have e: "month_no (M div 12 + y) (M mod 12 + m) = M + m + 12 * y" by (simp add: month_no_def)
  have lo: "first_day (S - 12) \<le> first_day (M + m + 12 * y)"
    using first_day_less [of "S - 12" "M + m + 12 * y"] c(1) step by (cases "S - 12 = M + m + 12 * y") (auto simp: S_def)
  have hi: "first_day (M + m + 12 * y) \<le> first_day (month_idx (at_time ed 0) + 12)"
    using first_day_less [of "M + m + 12 * y" "month_idx (at_time ed 0) + 12"] c(2) step
    by (cases "M + m + 12 * y = month_idx (at_time ed 0) + 12") auto
  have pl: "plain_month (M + m + 12 * y)"
    using lo hi plS [of "- 12"] usual_month [OF usual(2), of 12] by (simp add: plain_month_def plain_day_def)
  have yr: "100 \<le> M div 12 + y"
  proof -
    have "month_idx (at_time sd 0) div 12 = getFullYear (at_time sd 0)" using month_year_idx [of "at_time sd 0"] by metis
    moreover have "1000 \<le> getFullYear (at_time sd 0)" using usual_year(1) [of "at_time sd 0"] usual(1) by simp
    moreover have "month_idx (at_time sd 0) div 12 \<le> M div 12" using c(1) by (rule zdiv_mono1) simp
    moreover have "- 1 \<le> y" using step by auto
    ultimately show ?thesis by linarith
  qed
  then show ?thesis using new_date_month [of "M div 12 + y" "M mod 12 + m"] pl by (simp add: e)
qed

text \<open>A press of a button moves the month by one, or by a year, and not beyond the bounds.\<close>

theorem navigation_clamps:
  assumes popup: "the_popup s = Some p" "pop_owner p = i" "prev_disabled p = (M = month_idx (at_time sd 0))" "next_disabled p = (M = month_idx (at_time ed 0))"
    and shows_month: "shows_month M sd ed (pickers s i)" and usual: "usual_day sd" "usual_day ed"
    and step: "(m, y) \<in> {(- 1, 0), (1, 0), (0, - 1), (0, 1)}"
  shows "shows_month (clamp (month_idx (at_time sd 0)) (month_idx (at_time ed 0)) (M + m + 12 * y)) sd ed (pickers (displayNewMonth m y s) i)"
proof -
  define c where "c = pickers s i"
  have c: "displayedMonth c = NInt (M mod 12)" "displayedYear c = NInt (M div 12)"
    "startDate c = Some (Some (at_time sd 0))" "endDate c = Some (Some (at_time ed 0))" "sd \<le> ed"
    "month_idx (at_time sd 0) \<le> M" "M \<le> month_idx (at_time ed 0)"
    using shows_month by (simp_all add: shows_month_def c_def)
  show ?thesis
  proof (cases "(m < 0 \<or> y < 0) \<and> prev_disabled p \<or> \<not> (m < 0 \<or> y < 0) \<and> next_disabled p")
    case True
    then have "displayNewMonth m y s = s" by (auto simp: displayNewMonth_def popup)
    moreover have "clamp (month_idx (at_time sd 0)) (month_idx (at_time ed 0)) (M + m + 12 * y) = M"
      using True step c(6,7) popup(3,4) by (auto simp: clamp_def)
    ultimately show ?thesis using shows_month by simp
  next
    case False
    note st = step_month [OF shows_month usual step]
    have "num_add (displayedMonth c) m = NInt (M mod 12 + m)" "num_add (displayedYear c) y = NInt (M div 12 + y)"
      using c by (simp_all add: num_add_def)
    moreover have "asked_month s c (NInt (M mod 12 + m)) (NInt (M div 12 + y)) = month_start_date (M + m + 12 * y)"
      using st by (simp add: asked_month_def)
    ultimately show ?thesis
      using setDisplayedMonth_shows(2) [of s i sd ed "NInt (M mod 12 + m)" "NInt (M div 12 + y)" "M + m + 12 * y" True]
        c usual_plain usual False popup
      by (auto simp: displayNewMonth_def Let_def simp flip: c_def)
  qed
qed


lemma zeroTime_cases: "zeroTime (Some t) = None \<or> zeroTime (Some t) = Some (at_time (day_of t) 0)"
proof -
  define t1 where "t1 = t div 1000 * 1000"
  define t2 where "t2 = t1 div 60000 * 60000"
  define t3 where "t3 = t2 div 3600000 * 3600000"
  have dv: "t1 mod 1000 = 0" "t2 mod 60000 = 0" "t3 mod 3600000 = 0" by (simp_all add: t1_def t2_def t3_def)
  have "t3 div 86400000 = t2 div 86400000" using coarser [of 3600000 24 t2] by (simp add: t3_def mult.commute)
  also have "\<dots> = t1 div 86400000" using coarser [of 60000 1440 t1] by (simp add: t2_def mult.commute)
  also have "\<dots> = t div 86400000" using coarser [of 1000 86400 t] by (simp add: t1_def mult.commute)
  finally have day: "day_of t3 = day_of t" by (simp add: day_of_def ms_day_def)
  have r: "setMilliseconds 0 None = None" "setSeconds 0 None = None" "setMinutes 0 None = None" "setHours 0 None = None"
    by (simp_all add: setMilliseconds_def setSeconds_def setMinutes_def setHours_def)
  have "setMilliseconds 0 (Some t) = time_clip t1" "setSeconds 0 (Some t1) = time_clip t2" "setMinutes 0 (Some t2) = time_clip t3"
    "setHours 0 (Some t3) = time_clip (at_time (day_of t) 0)"
    by (simp add: setMilliseconds_def t1_def) (simp_all add: setSeconds_def setMinutes_def setHours_def dv day flip: t2_def t3_def)
  then show ?thesis using r by (auto simp: zeroTime_def time_clip_def)
qed

lemma zeroTime_None [simp]: "zeroTime None = None"
  by (simp add: zeroTime_def setMilliseconds_def setSeconds_def setMinutes_def setHours_def)

lemma zeroTime_midnight:
  assumes "plain_day b"
  shows "zeroTime (Some (at_time b 0)) = Some (at_time b 0)"
proof -
  have "\<bar>at_time b 0\<bar> \<le> 8000000000000000"
    using assms by (auto simp: plain_day_def at_time_def ms_day_def day_from_year_def abs_le_iff)
  then show ?thesis using zeroTime_day by simp
qed

lemma at_time_lt_midnight: "t < at_time b 0 \<longleftrightarrow> day_of t < b"
proof -
  obtain q where q: "t div 86400000 = q" by simp
  then have "86400000 * q \<le> t" "t < 86400000 * q + 86400000" using div_bounds [of 86400000 t] by simp_all
  then have "t < b * 86400000 \<longleftrightarrow> q < b" by (auto; linarith)
  then show ?thesis by (simp add: at_time_def day_of_def ms_day_def q)
qed


definition in_bounds :: "int \<Rightarrow> int \<Rightarrow> jsdate \<Rightarrow> bool" where
  "in_bounds sd ed d \<longleftrightarrow> (case d of None \<Rightarrow> True | Some t \<Rightarrow> sd \<le> day_of t \<and> day_of t \<le> ed)"

lemma dp_ok_bounds:
  assumes "dp_ok sd ed c"
  shows "startDate c = Some (Some (at_time sd 0))" "endDate c = Some (Some (at_time ed 0))" "sd \<le> ed"
    "end_is_start c \<Longrightarrow> sd = ed" "o_rememberViewedMonth (settings c)"
  using assms by (auto simp: dp_ok_def shows_month_def)

text \<open>The checks leave the controller as it is, and what they let through is in its bounds.\<close>

lemma upd_same: "f (pickers s j) = pickers s j \<Longrightarrow> upd j f s = s"
  by (simp add: upd_def)

lemma sel_check_ok:
  assumes ok: "dp_ok sd ed (pickers s j)" and plain: "plain_day sd" "plain_day ed" and r: "sel_check j d v s = (s1, d1, go)"
  shows "s1 = s \<and> (go \<longrightarrow> in_bounds sd ed d1)"
proof -
  note b = dp_ok_bounds [OF ok]
  have "upd j (\<lambda>c. c\<lparr>endDate := Some (zeroTime (Some (at_time ed 0))),
                     startDate := if end_is_start c then Some (zeroTime (Some (at_time ed 0))) else startDate c\<rparr>) s = s"
  proof -
    have "(pickers s j)\<lparr>endDate := Some (Some (at_time ed 0)),
            startDate := if end_is_start (pickers s j) then Some (Some (at_time ed 0)) else startDate (pickers s j)\<rparr> = pickers s j"
      using b by (cases "pickers s j") auto
    then show ?thesis using b(2) zeroTime_midnight [OF plain(2)] by (intro upd_same) (auto simp: bound_def)
  qed
  note same = this
  show ?thesis
  proof (cases "date_lt d (Some (at_time sd 0))")
    case True
    then show ?thesis using r b(1) by (auto simp: sel_check_def bound_def Let_def)
  next
    case False
    have st: "bound (startDate (pickers s j)) = Some (at_time sd 0)" "bound (endDate (pickers s j)) = Some (at_time ed 0)"
      using b by (simp_all add: bound_def)
    define z where "z = zeroTime d"
    have z: "z = None \<or> (\<exists>t. d = Some t \<and> z = Some (at_time (day_of t) 0) \<and> sd \<le> day_of t)"
      using False zeroTime_cases by (cases d) (auto simp: z_def at_time_lt_midnight not_less)
    define w where "w = (if o_selectWeek (settings (pickers s j)) then (case z of Some t \<Rightarrow> addDays (- ((getDay t - firstDayOfWeek (pg_names s) + 7) mod 7)) z | None \<Rightarrow> None) else z)"
    have se: "s1 = s" "d1 = (if date_lt (Some (at_time ed 0)) z then z else w)"
      "go \<Longrightarrow> \<not> date_lt (Some (at_time ed 0)) z \<and> \<not> (o_selectWeek (settings (pickers s j)) \<and> date_lt w (Some (at_time sd 0)))"
      using r False zeroTime_midnight [OF plain(2)]
      unfolding sel_check_def Let_def same st z_def [symmetric] w_def [symmetric] by (auto split: if_splits)
    have "in_bounds sd ed w" if g: "\<not> date_lt (Some (at_time ed 0)) z" "\<not> (o_selectWeek (settings (pickers s j)) \<and> date_lt w (Some (at_time sd 0)))"
    proof (cases z)
      case None
      then show ?thesis by (simp add: w_def in_bounds_def)
    next
      case (Some t)
      then obtain u where u: "t = at_time (day_of u) 0" "sd \<le> day_of u" using z by auto
      have "day_of u \<le> ed" using g(1) by (simp add: Some u(1) at_time_def ms_day_def)
      show ?thesis
      proof (cases "o_selectWeek (settings (pickers s j))")
        case False
        then show ?thesis using u \<open>day_of u \<le> ed\<close> by (simp add: w_def in_bounds_def Some)
      next
        case True
        define k where "k = (getDay t - firstDayOfWeek (pg_names s) + 7) mod 7"
        have k: "0 \<le> k" by (simp add: k_def)
        have "addDays (- k) (Some (at_time (day_of u) 0)) = time_clip (at_time (day_of u + - k) 0)"
          unfolding addDays_def bind.simps at_time_add_days ..
        then have w: "w = time_clip (at_time (day_of u + - k) 0)"
          using True unfolding w_def Some option.case k_def u(1) by simp
        show ?thesis
        proof (cases "w = None")
          case False
          then have "w = Some (at_time (day_of u + - k) 0)" using w by (simp add: time_clip_def split: if_splits)
          then show ?thesis using g(2) True k \<open>day_of u \<le> ed\<close> by (simp add: in_bounds_def at_time_lt_midnight)
        qed (simp add: in_bounds_def)
      qed
    qed
    then show ?thesis using se by auto
  qed
qed

lemma pickers_frame [simp]:
  "pickers (on_weeks f s) = pickers s" "pickers (log_ev e s) = pickers s" "pickers (mark_selected i d v s) = pickers s"
  "pickers (set_cell_date n r k d s) = pickers s" "pickers (pop_render i s) = pickers s"
  by (simp_all add: on_weeks_def log_ev_def mark_selected_def set_cell_date_def pop_render_def Let_def)

lemma pickers_upd [simp]: "pickers (upd j f s) i = (if i = j then f (pickers s j) else pickers s i)"
  by (simp add: upd_def)

lemma pickers_clear [simp]:
  "pickers (clearSelected j s) i = (if i = j then (pickers s j)\<lparr>selectedDates := [], numSelected := 0\<rparr> else pickers s i)"
  by (simp add: clearSelected_def)

lemma now_frame [simp]:
  "pg_now (upd j f s) = pg_now s" "pg_now (clearSelected j s) = pg_now s" "pg_now (on_weeks g s) = pg_now s" "pg_now (log_ev e s) = pg_now s"
  "pg_now (mark_selected j d v s) = pg_now s" "pg_now (pop_render j s) = pg_now s" "pg_now (setDisplayedMonth j m y r s) = pg_now s"
  "pg_now (set_cell_date n q k d s) = pg_now s"
  by (simp_all add: upd_def on_weeks_def log_ev_def mark_selected_def pop_render_def clearSelected_def setDisplayedMonth_def set_cell_date_def
      Let_def split: option.split)

lemma dp_ok_fields [simp]:
  "dp_ok sd ed (c\<lparr>selectedDates := x\<rparr>) = dp_ok sd ed c" "dp_ok sd ed (c\<lparr>numSelected := n\<rparr>) = dp_ok sd ed c"
  "dp_ok sd ed (c\<lparr>field_val := t\<rparr>) = dp_ok sd ed c" "dp_ok sd ed (c\<lparr>selectedDates := x, numSelected := n\<rparr>) = dp_ok sd ed c"
  by (simp_all add: dp_ok_def shows_month_def)

text \<open>An operation keeps the controller \<open>i\<close> within its bounds, and the clock.\<close>

definition keeps_ok :: "nat \<Rightarrow> int \<Rightarrow> int \<Rightarrow> dpage \<Rightarrow> dpage \<Rightarrow> bool" where
  "keeps_ok i sd ed s s' \<longleftrightarrow> (dp_ok sd ed (pickers s i) \<longrightarrow> dp_ok sd ed (pickers s' i)) \<and> pg_now s' = pg_now s"

lemma keeps_okI: "(dp_ok sd ed (pickers s i) \<Longrightarrow> dp_ok sd ed (pickers s' i)) \<Longrightarrow> pg_now s' = pg_now s \<Longrightarrow> keeps_ok i sd ed s s'"
  by (simp add: keeps_ok_def)

lemma keeps_ok_trans: "keeps_ok i sd ed s t \<Longrightarrow> keeps_ok i sd ed t u \<Longrightarrow> keeps_ok i sd ed s u"
  by (simp add: keeps_ok_def)

lemma setDisplayedMonth_keeps:
  assumes "usual_day sd" "usual_day ed" "plain_day (day_of (pg_now s))"
    and "dp_ok sd ed (pickers s i)" "j = i \<Longrightarrow> \<exists>K. asked_month s (pickers s j) m y = month_start_date K"
  shows "dp_ok sd ed (pickers (setDisplayedMonth j m y r s) i)"
proof (cases "i = j")
  case True
  then obtain K where K: "asked_month s (pickers s j) m y = month_start_date K" using assms(5) by blast
  note b = dp_ok_bounds [OF assms(4) [unfolded True]]
  show ?thesis
    using setDisplayedMonth_shows [OF b(1,2,3) usual_plain [OF assms(1)] usual_plain [OF assms(2)] K, of r] b True
    by (auto simp: dp_ok_def)
next
  case False
  then show ?thesis using assms(4) by (auto simp: setDisplayedMonth_pickers split: option.split)
qed

lemma sel_change_keeps:
  assumes usual: "usual_day sd" "usual_day ed" and now: "plain_day (day_of (pg_now s))"
  shows "keeps_ok i sd ed s (fst (sel_change j d v mv s))"
proof -
  obtain s1 d1 go where r: "sel_check j d v s = (s1, d1, go)" by (metis prod_cases3)
  have n1: "pg_now s1 = pg_now s" using r by (auto simp: sel_check_def Let_def split: if_splits)
  have p1: "pickers s1 i = pickers s i \<and> (j = i \<and> go \<longrightarrow> in_bounds sd ed d1)" if ok: "dp_ok sd ed (pickers s i)"
  proof (cases "j = i")
    case True
    then show ?thesis using sel_check_ok [OF ok [folded True] usual_plain [OF usual(1)] usual_plain [OF usual(2)] r] by simp
  next
    case False
    then show ?thesis using r by (auto simp: sel_check_def Let_def split: if_splits)
  qed
  have ask: "\<exists>K. asked_month t c (month_num d1) (year_num d1) = month_start_date K"
    if "in_bounds sd ed d1" "pg_now t = pg_now s" for t c
  proof -
    have "case d1 of None \<Rightarrow> True | Some t \<Rightarrow> usual_day (day_of t)"
      using that(1) usual by (auto simp: in_bounds_def usual_day_def split: option.splits)
    then show ?thesis using asked_for_date [of t d1 c] now that(2) by simp
  qed
  show ?thesis
  proof (rule keeps_okI)
    assume ok: "dp_ok sd ed (pickers s i)"
    then have ok1: "dp_ok sd ed (pickers s1 i)" using p1 by simp
    show "dp_ok sd ed (pickers (fst (sel_change j d v mv s)) i)"
    proof (cases go)
      case True
      define s2 where "s2 = (if selectMultiple (pickers s1 j) then s1 else clearSelected j s1)"
      have ok2: "dp_ok sd ed (pickers s2 i)" "pg_now s2 = pg_now s" using ok1 n1 by (auto simp: s2_def)
      have "dp_ok sd ed (pickers (setDisplayedMonth j (month_num d1) (year_num d1) True s2) i)"
        using p1 [OF ok] True now ok2 by (intro setDisplayedMonth_keeps [OF usual]) (auto intro: ask)
      then show ?thesis using ok2 True by (auto simp: sel_change_def r Let_def simp flip: s2_def)
    qed (use ok1 in \<open>simp add: sel_change_def r\<close>)
  next
    show "pg_now (fst (sel_change j d v mv s)) = pg_now s" using n1 by (simp add: sel_change_def r Let_def)
  qed
qed


lemma keeps_frame [intro]:
  "keeps_ok i sd ed s (log_ev e s)" "keeps_ok i sd ed s (on_weeks f s)" "keeps_ok i sd ed s (clearSelected j s)"
  "keeps_ok i sd ed s (set_cell_date n r k d s)" "keeps_ok i sd ed s s" "keeps_ok i sd ed s (pop_render j s)"
  "keeps_ok i sd ed s (upd j (\<lambda>c. c\<lparr>field_val := t\<rparr>) s)"
  "keeps_ok i sd ed s (s\<lparr>the_popup := p, listening := l\<rparr>)" "keeps_ok i sd ed s (s\<lparr>the_popup := p\<rparr>)"
  by (auto simp: keeps_ok_def)

definition keeps_out :: "nat \<Rightarrow> int \<Rightarrow> int \<Rightarrow> dpage \<Rightarrow> outcome \<Rightarrow> bool" where
  "keeps_out i sd ed s r \<longleftrightarrow> keeps_ok i sd ed s (after_outcome r)"

lemma keeps_out_simps [simp]:
  "keeps_out i sd ed s (Done t) = keeps_ok i sd ed s t" "keeps_out i sd ed s (Threw t) = keeps_ok i sd ed s t"
  by (simp_all add: keeps_out_def after_outcome_def)

lemma keeps_andthen:
  assumes "keeps_out i sd ed s r" "\<And>t. r = Done t \<Longrightarrow> keeps_ok i sd ed s t \<Longrightarrow> keeps_out i sd ed s (f t)"
  shows "keeps_out i sd ed s (andthen r f)"
  using assms by (cases r) auto

lemma keeps_map_outcome: "keeps_out i sd ed s r \<Longrightarrow> keeps_out i sd ed s (map_outcome (set_cell_date n q k d) r)"
  by (cases r) (auto intro: keeps_ok_trans)

lemma on_change_keeps:
  assumes "usual_day sd" "usual_day ed" "plain_day (day_of (pg_now s))"
  shows "keeps_out i sd ed s (on_change j s)"
  using sel_change_keeps [OF assms] by (auto simp: on_change_def split: sum.split)

lemma setSelected_keeps:
  assumes usual: "usual_day sd" "usual_day ed" and now: "plain_day (day_of (pg_now s))"
  shows "keeps_out i sd ed s (fst (setSelected j d v mv ev s))"
proof -
  obtain s1 d1 went where r: "sel_change j d v mv s = (s1, d1, went)" by (metis prod_cases3)
  have k: "keeps_ok i sd ed s s1" using sel_change_keeps [OF assms, of i j d v mv] by (simp add: r)
  have "keeps_out i sd ed s (on_change j (log_ev (Changed j) (upd j (\<lambda>c. c\<lparr>field_val := t\<rparr>) (log_ev e s1))))" for t e
  proof -
    define u where "u = log_ev (Changed j) (upd j (\<lambda>c. c\<lparr>field_val := t\<rparr>) (log_ev e s1))"
    have ku: "keeps_ok i sd ed s u" unfolding u_def by (intro keeps_ok_trans [OF k]) (auto simp: keeps_ok_def)
    then have "plain_day (day_of (pg_now u))" using now by (simp add: keeps_ok_def)
    from on_change_keeps [OF usual this, of i j] ku show ?thesis
      unfolding u_def [symmetric] by (auto simp: keeps_out_def intro: keeps_ok_trans)
  qed
  then show ?thesis using k by (auto simp: setSelected_def r Let_def split: sum.split)
qed

lemma closeCalendar_keeps: "keeps_out i sd ed s (closeCalendar j b s)"
  by (auto simp: closeCalendar_def Let_def keeps_ok_def split: sum.split)

lemma display_keeps:
  assumes usual: "usual_day sd" "usual_day ed" and now: "plain_day (day_of (pg_now s))"
  shows "keeps_out i sd ed s (display j s)"
proof (cases "dp_disabled (pickers s j) \<or> o_rememberViewedMonth (settings (pickers s j))")
  case True
  then show ?thesis by (auto simp: display_def Let_def keeps_ok_def)
next
  case False
  have "\<not> dp_ok sd ed (pickers s i)" if "i = j" using False that by (auto simp: dp_ok_def)
  moreover have "dp_ok sd ed (pickers (setDisplayedMonth j m y False t) i)" if "i \<noteq> j" "dp_ok sd ed (pickers t i)" for m y t
    using that by (auto simp: setDisplayedMonth_pickers split: option.split)
  ultimately show ?thesis using False
    by (cases "i = j") (auto simp: display_def Let_def keeps_ok_def split: sum.split list.split)
qed

lemma displayNewMonth_keeps:
  assumes usual: "usual_day sd" "usual_day ed" and now: "plain_day (day_of (pg_now s))"
    and step: "(m, y) \<in> {(- 1, 0), (1, 0), (0, - 1), (0, 1)}"
  shows "keeps_ok i sd ed s (displayNewMonth m y s)"
proof (cases "the_popup s")
  case (Some p)
  define j where "j = pop_owner p"
  show ?thesis
  proof (rule keeps_okI)
    assume ok: "dp_ok sd ed (pickers s i)"
    show "dp_ok sd ed (pickers (displayNewMonth m y s) i)"
    proof (cases "displayNewMonth m y s = s")
      case False
      then have d: "displayNewMonth m y s = setDisplayedMonth j (num_add (displayedMonth (pickers s j)) m) (num_add (displayedYear (pickers s j)) y) True s"
        by (auto simp: displayNewMonth_def Some Let_def j_def split: if_splits)
      show ?thesis unfolding d
      proof (rule setDisplayedMonth_keeps [OF usual now ok])
        assume ji: "j = i"
        obtain M where M: "shows_month M sd ed (pickers s i)" using ok by (auto simp: dp_ok_def)
        have "num_add (displayedMonth (pickers s j)) m = NInt (M mod 12 + m)" "num_add (displayedYear (pickers s j)) y = NInt (M div 12 + y)"
          using M by (simp_all add: shows_month_def num_add_def ji)
        then show "\<exists>K. asked_month s (pickers s j) (num_add (displayedMonth (pickers s j)) m) (num_add (displayedYear (pickers s j)) y) = month_start_date K"
          using step_month [OF M usual step] by (auto simp: asked_month_def)
      qed
    qed (use ok in simp)
  qed (auto simp: displayNewMonth_def Some Let_def)
qed (auto simp: displayNewMonth_def)


lemma user_step_keeps:
  assumes usual: "usual_day sd" "usual_day ed" and now: "plain_day (day_of (pg_now s))"
    and nav: "\<And>m y. e = ClickNav m y \<Longrightarrow> (m, y) \<in> {(- 1, 0), (1, 0), (0, - 1), (0, 1)}"
  shows "keeps_out i sd ed s (dp_user_step e s)"
proof -
  have later: "keeps_out i sd ed s r" if "keeps_ok i sd ed s t" "\<And>t. plain_day (day_of (pg_now t)) \<Longrightarrow> keeps_out i sd ed t (f t)" "r = f t" for t r f
    using that now by (auto simp: keeps_out_def keeps_ok_def)
  show ?thesis
  proof (cases e)
    case (ClickButton j)
    then show ?thesis using display_keeps [OF usual now] by (auto simp: keeps_ok_def)
  next
    case (ClickField j)
    have "keeps_out i sd ed s (display j t)" if "keeps_ok i sd ed s t" for t
      by (rule later [where f = "display j", OF that display_keeps [OF usual] refl])
    then have "keeps_out i sd ed s (andthen (on_change j s) (display j))"
      by (intro keeps_andthen on_change_keeps [OF usual now])
    then show ?thesis using ClickField by (auto simp: keeps_ok_def)
  next
    case (ClickDay r k)
    have "keeps_out i sd ed s (andthen (map_outcome (set_cell_date n r k d) res) (\<lambda>s1. if b s1 then closeCalendar j False s1 else Done s1))"
      if res: "keeps_out i sd ed s res" for n d res b j
    proof (rule keeps_andthen [OF keeps_map_outcome [OF res]])
      fix t
      assume "keeps_ok i sd ed s t"
      then show "keeps_out i sd ed s (if b t then closeCalendar j False t else Done t)"
        by (rule later [where f = "\<lambda>s1. if b s1 then closeCalendar j False s1 else Done s1"]) (auto simp: closeCalendar_keeps)
    qed
    moreover have "keeps_out i sd ed s (fst (setSelected j d v mv ev s))" for j d v mv ev
      by (rule setSelected_keeps [OF usual now])
    ultimately show ?thesis using ClickDay
      by (auto simp: click_cell_def Let_def keeps_ok_def split: option.split prod.split) (metis fst_conv)+
  next
    case (ClickNav m y)
    then show ?thesis using displayNewMonth_keeps [OF usual now nav] by simp
  next
    case ClickClose
    then show ?thesis using closeCalendar_keeps by (auto simp: keeps_ok_def split: option.split)
  next
    case PressOutside
    then show ?thesis using closeCalendar_keeps by (auto simp: keeps_ok_def split: option.split)
  next
    case PressEscape
    then show ?thesis using closeCalendar_keeps by (auto simp: keeps_ok_def split: option.split)
  next
    case (TypeDate j v)
    have "keeps_out i sd ed s (on_change j (upd j (\<lambda>c. c\<lparr>field_val := v\<rparr>) s))"
      by (rule later [where f = "on_change j", OF _ on_change_keeps [OF usual] refl]) auto
    then show ?thesis using TypeDate by simp
  qed
qed

text \<open>The bounds and the month, over a run of events.\<close>

lemma run_keeps_month:
  assumes usual: "usual_day sd" "usual_day ed" and now: "plain_day (day_of (pg_now s))"
    and ok: "dp_ok sd ed (pickers s i)"
    and nav: "\<And>m y. ClickNav m y \<in> set es \<Longrightarrow> (m, y) \<in> {(- 1, 0), (1, 0), (0, - 1), (0, 1)}"
  shows "\<exists>M. shows_month M sd ed (pickers (dp_run es s) i)"
proof -
  have "keeps_ok i sd ed s (dp_run es s)"
    using now nav
  proof (induction es arbitrary: s)
    case (Cons e es)
    have k: "keeps_ok i sd ed s (after_outcome (dp_user_step e s))"
      using user_step_keeps [OF usual Cons.prems(1)] Cons.prems(2) by (force simp: keeps_out_def)
    then have "plain_day (day_of (pg_now (after_outcome (dp_user_step e s))))" using Cons.prems(1) by (simp add: keeps_ok_def)
    from Cons.IH [OF this] Cons.prems(2) k show ?case by (auto simp: dp_run_def intro: keeps_ok_trans)
  qed (auto simp: dp_run_def)
  then show ?thesis using ok by (auto simp: keeps_ok_def dp_ok_def)
qed


subsection \<open>Choosing a day\<close>

definition day_text :: "date_names \<Rightarrow> int \<Rightarrow> string" where
  "day_text nm d = asString nm (date_format nm) (Some (at_time d 0))"

lemma getters_day: "day_of t = day_of u \<Longrightarrow> getFullYear t = getFullYear u \<and> getMonth t = getMonth u \<and> getDate t = getDate u"
  by (simp add: getFullYear_def getMonth_def getDate_def)

lemma usual_near:
  assumes "usual_day (day_of t)"
  shows "near (make_day (getFullYear t) 0 1)"
proof -
  have "day_from_year (getFullYear t) \<le> day_of t \<and> day_of t < day_from_year (getFullYear t) + 366"
    using year_of_day_iff [of "day_of t" "getFullYear t"] by (auto simp: getFullYear_year day_from_year_step year_len_def split: if_splits)
  then show ?thesis using assms by (simp add: make_day_def month_start_def near_def usual_day_def day_from_year_def abs_le_iff)
qed

lemma day_text_reads:
  assumes "usual_day d" "date_format nm = ''yyyy-mm-dd''"
  shows "fromString nm (day_text nm d) = Inr (Some (at_time d 0))"
  using iso_read_back [OF assms(2), of "at_time d 0"] usual_near [of "at_time d 0"] usual_year(1) [of "at_time d 0"] assms
  by (simp add: day_text_def)

lemma day_text_not_empty: "usual_day d \<Longrightarrow> date_format nm = ''yyyy-mm-dd'' \<Longrightarrow> day_text nm d \<noteq> ''''"
  using usual_year(1) [of "at_time d 0"] by (simp add: day_text_def asString_iso)

lemma zeroTime_usual:
  assumes "usual_day (day_of t)"
  shows "zeroTime (Some t) = Some (at_time (day_of t) 0)"
proof -
  have "day_of t * ms_day \<le> t \<and> t < (day_of t + 1) * ms_day" using at_time_bounds [of "day_of t" t] by simp
  then have "\<bar>t\<bar> \<le> 8000000000000000" using assms by (auto simp: usual_day_def ms_day_def day_from_year_def abs_le_iff)
  then show ?thesis by (rule zeroTime_day)
qed

text \<open>The checks, for a day in the bounds.\<close>

lemma sel_check_day:
  assumes ok: "dp_ok sd ed (pickers s i)" and usual: "usual_day sd" "usual_day ed"
    and t: "sd \<le> day_of t" "day_of t \<le> ed" and week: "\<not> o_selectWeek (settings (pickers s i))"
  shows "sel_check i (Some t) v s = (s, Some (at_time (day_of t) 0),
    isSelected (pg_names s) (Some (at_time (day_of t) 0)) (pickers s i) \<noteq> Some v \<and>
    \<not> (selectMultiple (pickers s i) \<and> v \<and> numSelected (pickers s i) = numSelectable (pickers s i)))"
proof -
  obtain s1 d1 go where r: "sel_check i (Some t) v s = (s1, d1, go)" by (metis prod_cases3)
  have s1: "s1 = s" using sel_check_ok [OF ok usual_plain [OF usual(1)] usual_plain [OF usual(2)] r] by simp
  note b = dp_ok_bounds [OF ok]
  have st: "bound (startDate (pickers s i)) = Some (at_time sd 0)" "bound (endDate (pickers s i)) = Some (at_time ed 0)"
    using b by (simp_all add: bound_def)
  have u: "usual_day (day_of t)" using t usual by (simp add: usual_day_def)
  have lt: "\<not> date_lt (Some t) (Some (at_time sd 0))" "\<not> date_lt (Some (at_time ed 0)) (Some (at_time (day_of t) 0))"
    using t by (simp_all add: at_time_lt_midnight)
  define e where "e = zeroTime (Some (at_time ed 0))"
  have e: "e = Some (at_time ed 0)" unfolding e_def by (rule zeroTime_midnight [OF usual_plain [OF usual(2)]])
  define f where "f = (\<lambda>c :: picker. c\<lparr>endDate := Some e, startDate := if end_is_start c then Some e else startDate c\<rparr>)"
  have "f (pickers s i) = pickers s i" using b by (auto simp: f_def e)
  then have f: "upd i f s = s" by (rule upd_same)
  show ?thesis using lt week
    unfolding sel_check_def Let_def st zeroTime_usual [OF u] e_def [symmetric] f_def [symmetric] f by (simp add: e st)
qed

lemma obj_set_same: "map_of l k = Some v \<Longrightarrow> obj_set k v l = l"
  by (induction l) (auto split: if_splits)

lemma obj_set_again: "obj_set k v (obj_set k w l) = obj_set k v l"
  by (induction l) auto

lemma map_of_obj_set [simp]: "map_of (obj_set k v l) k = Some v"
  by (induction l) auto

lemma names_frame [simp]:
  "pg_names (upd j f s) = pg_names s" "pg_names (clearSelected j s) = pg_names s" "pg_names (on_weeks g s) = pg_names s"
  "pg_names (log_ev e s) = pg_names s" "pg_names (mark_selected j d v s) = pg_names s" "pg_names (pop_render j s) = pg_names s"
  "pg_names (setDisplayedMonth j m y r s) = pg_names s" "pg_names (set_cell_date n q k d s) = pg_names s"
  by (simp_all add: upd_def on_weeks_def log_ev_def mark_selected_def pop_render_def clearSelected_def setDisplayedMonth_def set_cell_date_def
      Let_def split: option.split)

text \<open>A click on a free day of a calendar for one date: the field takes it, it is the one that is selected, and the calendar closes.\<close>

text \<open>As the pages make them: \<open>$('.datep').datePicker({startDate: '2010-10-10'})\<close> on an empty field.\<close>

definition site_opts :: dp_opts where
  "site_opts = dp_defaults\<lparr>o_startDate := DateText ''2010-10-10''\<rparr>"

definition last_day :: int where
  "last_day = make_day 2999 11 31"

lemma site_bounds: "usual_day (make_day 2010 9 10)" "usual_day last_day" "make_day 2010 9 10 \<le> last_day"
  by (simp_all add: last_day_def usual_day_def make_day_def month_start_def month_lens_def day_from_year_def leap_def)

lemma site_start: "fromString en_names ''2010-10-10'' = Inr (Some (at_time (make_day 2010 9 10) 0))"
  by code_simp

text \<open>The calendar of October 2010 with a cell for the 12th, for one date and for several.\<close>

definition october :: picker where
  "october = (new_picker '''')\<lparr>displayedMonth := NInt 9, displayedYear := NInt 2010,
     startDate := Some (Some (at_time (make_day 2010 9 10) 0)), endDate := Some (Some (at_time last_day 0))\<rparr>"

lemma october_shown: "shows_month 24129 (make_day 2010 9 10) last_day october" "plain_month 24129"
proof -
  have "month_idx (at_time (make_day 2010 9 10) 0) = 24129" unfolding bound_day by code_simp
  moreover have "month_idx (at_time last_day 0) = 35999" unfolding bound_day by code_simp
  ultimately show "shows_month 24129 (make_day 2010 9 10) last_day october"
    using site_bounds by (simp add: shows_month_def october_def new_picker_def)
  show "plain_month 24129" by code_simp
qed

definition october_page :: "picker \<Rightarrow> bool \<Rightarrow> dpage" where
  "october_page c sel = \<lparr>pg_names = en_names, pg_now = 1330500000000, pickers = (\<lambda>_. c),
     the_popup = Some \<lparr>pop_owner = 0, cal_owner = 0, pop_title = ''October 2010'',
       pop_weeks = [\<lparr>wk_selected = False, wk_cells = [(render_cell en_names 0 (NInt 9) (Some (noon (make_day 2010 9 12))))\<lparr>td_selected := sel\<rparr>]\<rparr>],
       pop_drawn = 1, prev_disabled = True, next_disabled = False\<rparr>, dp_log = [], listening = Some 0\<rparr>"

text \<open>
  C18. A click on a day that can be chosen and is not yet: the field holds the date, it is the only one selected, nothing is
  thrown by the event that the field's own change sets off, and the calendar is closed.
\<close>

theorem click_chooses_day:
  assumes ok: "dp_ok sd ed c" and usual: "usual_day sd" "usual_day ed"
    and c: "c = pickers s (cal_owner p)" "\<not> selectMultiple c" "closeOnSelect c" "\<not> o_selectWeek (settings c)"
    and nm: "date_format (pg_names s) = ''yyyy-mm-dd''"
    and cell: "the_popup s = Some p" "the_cell r k p = Some x" "\<not> td_disabled x" "td_date x = Some t" "sd \<le> day_of t" "day_of t \<le> ed"
    and free: "isSelected (pg_names s) (Some (at_time (day_of t) 0)) c \<noteq> Some True"
  shows "\<exists>s'. click_cell r k s = Done s' \<and> the_popup s' = None \<and> field_val (pickers s' (cal_owner p)) = day_text (pg_names s) (day_of t) \<and>
    getSelected (pg_names s') (pickers s' (cal_owner p)) = Inr [Some (at_time (day_of t) 0)]"
proof -
  define i where "i = cal_owner p"
  define nm where "nm = pg_names s"
  define d where "d = day_of t"
  define key where "key = day_text nm d"
  have ci: "pickers s i = c" by (simp add: c(1) i_def)
  have u: "usual_day d" using cell(5,6) usual by (simp add: usual_day_def d_def)
  have read: "fromString nm key = Inr (Some (at_time d 0))" unfolding key_def using day_text_reads [OF u] nm by (simp add: nm_def)
  have nonempty: "key \<noteq> ''''" unfolding key_def using day_text_not_empty [OF u] nm by (simp add: nm_def)
  have keyd: "asString nm (date_format nm) (Some (at_time d 0)) = key" by (simp add: key_def day_text_def)
  have chk: "sel_check i (Some t) True s = (s, Some (at_time d 0), True)"
    using sel_check_day [of sd ed s i t True] ok usual c cell free by (simp add: i_def d_def)
  define s1 where "s1 = fst (sel_change i (Some t) True False s)"
  have chg: "sel_change i (Some t) True False s = (s1, Some (at_time d 0), True)"
    by (simp add: s1_def sel_change_def chk Let_def)
  have p1: "pickers s1 i = c\<lparr>selectedDates := [(key, True)], numSelected := 1\<rparr>"
    using c(2) ci by (simp add: s1_def sel_change_def chk Let_def keyd flip: nm_def)
  have n1: "pg_names s1 = nm" by (simp add: s1_def sel_change_def chk Let_def nm_def)
  define s2 where "s2 = log_ev (Changed i) (upd i (\<lambda>c. c\<lparr>field_val := key\<rparr>) (log_ev (DateSelected i key True) s1))"
  have p2: "pickers s2 i = c\<lparr>selectedDates := [(key, True)], numSelected := 1, field_val := key\<rparr>" by (simp add: s2_def p1)
  have n2: "pg_names s2 = nm" by (simp add: s2_def n1)
  have ok2: "dp_ok sd ed (pickers s2 i)" using ok by (simp add: p2)
  have chk2: "sel_check i (Some (at_time d 0)) True s2 = (s2, Some (at_time d 0), False)"
    using sel_check_day [OF ok2 usual, of "at_time d 0" True] cell(5,6) c
    by (simp add: p2 n2 isSelected_def keyd d_def flip: d_def)
  have "on_change i s2 = Done s2"
    using nonempty by (simp add: on_change_def p2 n2 read sel_change_def chk2)
  then have set: "setSelected i (Some t) True False True s = (Done s2, Some (at_time d 0))"
    by (simp add: setSelected_def chg keyd read s2_def Let_def flip: nm_def)
  define s3 where "s3 = set_cell_date (pop_drawn p) r k (Some (at_time d 0)) s2"
  have p3: "pickers s3 = pickers s2" "pg_names s3 = nm" by (simp_all add: s3_def n2)
  have close: "closeCalendar i False s3 = Done (log_ev (Closed i [Some (at_time d 0)]) (s3\<lparr>the_popup := None, listening := None\<rparr>))"
    by (simp add: closeCalendar_def getSelected_def p3 p2 read Let_def)
  have "click_cell r k s = closeCalendar i False s3"
    using cell c set by (simp add: click_cell_def s3_def [symmetric] p3 p2 flip: i_def)
  then show ?thesis
    by (simp add: close log_ev_def p3 p2 getSelected_def read key_def [symmetric] flip: nm_def i_def d_def)
qed


lemma log_frame [simp]:
  "dp_log (upd j f s) = dp_log s" "dp_log (on_weeks g s) = dp_log s" "dp_log (mark_selected j d v s) = dp_log s"
  "dp_log (log_ev e s) = dp_log s @ [e]" "dp_log (set_cell_date n q k d s) = dp_log s"
  by (simp_all add: upd_def on_weeks_def log_ev_def mark_selected_def set_cell_date_def Let_def)

lemma setDisplayedMonth_frame:
  "set (dp_log s) \<subseteq> set (dp_log (setDisplayedMonth j m y r s))"
  "selectedDates (pickers (setDisplayedMonth j m y r s) i) = selectedDates (pickers s i)"
  "numSelected (pickers (setDisplayedMonth j m y r s) i) = numSelected (pickers s i)"
  "field_val (pickers (setDisplayedMonth j m y r s) i) = field_val (pickers s i)"
  "closeOnSelect (pickers (setDisplayedMonth j m y r s) i) = closeOnSelect (pickers s i)"
  by (auto simp: setDisplayedMonth_def Let_def pop_render_def upd_def log_ev_def split: option.split)

text \<open>
  C12. With several dates to choose, a click on a selected one announces that it is no longer selected, but
  the field gets the date all the same, is told that it changed, reads it, and selects it again: afterwards the
  selection is what it was.
\<close>

theorem deselected_day_comes_back:
  assumes ok: "dp_ok sd ed c" and usual: "usual_day sd" "usual_day ed"
    and c: "c = pickers s (cal_owner p)" "selectMultiple c" "\<not> closeOnSelect c" "\<not> o_selectWeek (settings c)" "numSelected c \<le> numSelectable c"
    and nm: "date_format (pg_names s) = ''yyyy-mm-dd''"
    and cell: "the_popup s = Some p" "the_cell r k p = Some x" "\<not> td_disabled x" "td_selected x" "td_date x = Some t" "sd \<le> day_of t" "day_of t \<le> ed"
    and selected: "isSelected (pg_names s) (Some (at_time (day_of t) 0)) c = Some True"
  shows "\<exists>s'. click_cell r k s = Done s' \<and> DateSelected (cal_owner p) (day_text (pg_names s) (day_of t)) False \<in> set (dp_log s') \<and>
    selectedDates (pickers s' (cal_owner p)) = selectedDates c \<and> numSelected (pickers s' (cal_owner p)) = numSelected c \<and>
    field_val (pickers s' (cal_owner p)) = day_text (pg_names s) (day_of t)"
proof -
  define i where "i = cal_owner p"
  define nm where "nm = pg_names s"
  define d where "d = day_of t"
  define key where "key = day_text nm d"
  have ci: "pickers s i = c" by (simp add: c(1) i_def)
  have u: "usual_day d" using cell(6,7) usual by (simp add: usual_day_def d_def)
  have read: "fromString nm key = Inr (Some (at_time d 0))" unfolding key_def using day_text_reads [OF u] nm by (simp add: nm_def)
  have nonempty: "key \<noteq> ''''" unfolding key_def using day_text_not_empty [OF u] nm by (simp add: nm_def)
  have keyd: "asString nm (date_format nm) (Some (at_time d 0)) = key" by (simp add: key_def day_text_def)
  have sel: "map_of (selectedDates c) key = Some True" using selected by (simp add: isSelected_def keyd flip: nm_def d_def)
  have chk: "sel_check i (Some t) False s = (s, Some (at_time d 0), True)"
    using sel_check_day [of sd ed s i t False] ok usual c cell selected by (simp add: i_def d_def)
  define s1 where "s1 = fst (sel_change i (Some t) False False s)"
  have chg: "sel_change i (Some t) False False s = (s1, Some (at_time d 0), True)" by (simp add: s1_def sel_change_def chk Let_def)
  have p1: "pickers s1 i = c\<lparr>selectedDates := obj_set key False (selectedDates c), numSelected := numSelected c - 1\<rparr>"
    using c(2) ci by (simp add: s1_def sel_change_def chk Let_def keyd flip: nm_def)
  have n1: "pg_names s1 = nm" by (simp add: s1_def sel_change_def chk Let_def nm_def)
  define s2 where "s2 = log_ev (Changed i) (upd i (\<lambda>c. c\<lparr>field_val := key\<rparr>) (log_ev (DateSelected i key False) s1))"
  have p2: "pickers s2 i = c\<lparr>selectedDates := obj_set key False (selectedDates c), numSelected := numSelected c - 1, field_val := key\<rparr>"
    by (simp add: s2_def p1)
  have n2: "pg_names s2 = nm" by (simp add: s2_def n1)
  have l2: "DateSelected i key False \<in> set (dp_log s2)" by (simp add: s2_def)
  have ok2: "dp_ok sd ed (pickers s2 i)" using ok by (simp add: p2)
  have chk2: "sel_check i (Some (at_time d 0)) True s2 = (s2, Some (at_time d 0), True)"
    using sel_check_day [OF ok2 usual, of "at_time d 0" True] cell(6,7) c
    by (simp add: p2 n2 isSelected_def keyd d_def flip: d_def)
  define s3 where "s3 = fst (sel_change i (Some (at_time d 0)) True True s2)"
  have p3: "selectedDates (pickers s3 i) = selectedDates c" "numSelected (pickers s3 i) = numSelected c" "field_val (pickers s3 i) = key"
    "closeOnSelect (pickers s3 i) = closeOnSelect c"
    using c(2) by (simp_all add: s3_def sel_change_def chk2 Let_def p2 n2 keyd setDisplayedMonth_frame obj_set_again obj_set_same [OF sel])
  have l3: "DateSelected i key False \<in> set (dp_log s3)"
    using c(2) l2 subsetD [OF setDisplayedMonth_frame(1) l2] by (auto simp: s3_def sel_change_def chk2 Let_def p2)
  have "on_change i s2 = Done s3"
    using nonempty by (simp add: on_change_def p2 n2 read s3_def)
  then have set: "setSelected i (Some t) False False True s = (Done s3, Some (at_time d 0))"
    by (simp add: setSelected_def chg keyd read s2_def Let_def flip: nm_def)
  define s4 where "s4 = set_cell_date (pop_drawn p) r k (Some (at_time d 0)) s3"
  have "click_cell r k s = Done s4"
    using cell c set by (simp add: click_cell_def s4_def [symmetric] p3 flip: i_def)
  moreover have "pickers s4 = pickers s3" "dp_log s4 = dp_log s3" by (simp_all add: s4_def)
  ultimately show ?thesis using p3 l3 by (simp add: key_def [symmetric] flip: nm_def i_def d_def)
qed

subsection \<open>The calendars of the pages\<close>

lemma site_picker_ok:
  assumes "pg_names s = en_names" "plain_day (day_of (pg_now s))"
  shows "\<exists>s'. datePicker i '''' site_opts s = Done s' \<and> dp_ok (make_day 2010 9 10) last_day (pickers s' i) \<and>
    pg_names s' = en_names \<and> pg_now s' = pg_now s \<and> (\<forall>j. j \<noteq> i \<longrightarrow> pickers s' j = pickers s j)"
proof -
  define sd where "sd = make_day 2010 9 10"
  define s0 where "s0 = upd i (\<lambda>_. new_picker '''') s"
  have "pickers s0 i = new_picker ''''" by (simp add: s0_def)
  define s1 where "s1 = upd i (\<lambda>c. c\<lparr>startDate := Some (Some (at_time sd 0)), end_is_start := False\<rparr>) s0"
  have p1: "pickers s1 i = (new_picker '''')\<lparr>startDate := Some (Some (at_time sd 0)), end_is_start := False\<rparr>" by (simp add: s1_def s0_def)
  have n1: "pg_names s1 = en_names" "pg_now s1 = pg_now s" using assms by (simp_all add: s1_def s0_def)
  have "setDisplayedMonth i m y b s1 = s1" for m y b by (simp add: setDisplayedMonth_def p1 new_picker_def)
  then have start: "setStartDate i (o_startDate site_opts) s0 = Done s1"
    using assms site_start by (simp add: setStartDate_def site_opts_def dp_defaults_def read_bound_def s0_def s1_def sd_def)
  have "new_date 2999 11 31 0 = Some (at_time last_day 0)" by code_simp
  moreover have "\<not> date_lt (Some (at_time last_day 0)) (Some (at_time sd 0))" by (simp add: at_time_lt_midnight) (use site_bounds in \<open>simp add: sd_def\<close>)
  ultimately have e2: "upd i (\<lambda>c. let c1 = (if endDate c = None then c\<lparr>endDate := Some (new_date 2999 11 31 0), end_is_start := False\<rparr> else c)
      in if date_lt (bound (endDate c1)) (bound (startDate c1)) then c1\<lparr>endDate := startDate c1, end_is_start := True\<rparr> else c1) s1 =
      upd i (\<lambda>c. c\<lparr>endDate := Some (Some (at_time last_day 0)), end_is_start := False\<rparr>) s1"
    by (simp add: upd_def p1 new_picker_def bound_def)
  define s2 where "s2 = upd i (\<lambda>c. c\<lparr>endDate := Some (Some (at_time last_day 0)), end_is_start := False\<rparr>) s1"
  have p2: "pickers s2 i = (new_picker '''')\<lparr>startDate := Some (Some (at_time sd 0)), endDate := Some (Some (at_time last_day 0)), end_is_start := False\<rparr>"
    by (simp add: s2_def p1)
  have n2: "pg_names s2 = en_names" "pg_now s2 = pg_now s" using n1 by (simp_all add: s2_def)
  have o2: "o_endDate site_opts = NoDate" "o_month site_opts = NNaN" "o_year site_opts = NNaN" "o_rememberViewedMonth site_opts"
    by (simp_all add: site_opts_def dp_defaults_def)
  define s3 where "s3 = setDisplayedMonth i NNull NNull False s2"
  have d2: "displayedMonth (pickers s2 i) = NNull" "displayedYear (pickers s2 i) = NNull" by (simp_all add: p2 new_picker_def)
  have end': "setEndDate i (o_endDate site_opts) s1 = Done s3"
    by (simp only: setEndDate_def o2 read_bound_def date_arg.case sum.case option.case e2 s2_def [symmetric])
      (simp add: d2 s3_def Let_def)
  have b2: "startDate (pickers s2 i) = Some (Some (at_time sd 0))" "endDate (pickers s2 i) = Some (Some (at_time last_day 0))"
    by (simp_all add: p2)
  have a2: "asked_month s2 (pickers s2 i) NNull NNull = month_start_date (month_idx (pg_now s2))"
    using asked_now [of NNull NNull s2 "pickers s2 i"] assms n2 by simp
  have bd: "sd \<le> last_day" "plain_day sd" "plain_day last_day" using site_bounds usual_plain by (simp_all add: sd_def)
  obtain M where p3: "pickers s3 i = (pickers s2 i)\<lparr>displayedMonth := NInt (M mod 12), displayedYear := NInt (M div 12)\<rparr>"
    using setDisplayedMonth_shows(1) [OF b2 bd a2] by (auto simp: s3_def)
  have n3: "pg_names s3 = en_names" "pg_now s3 = pg_now s" using n2 by (simp_all add: s3_def)
  have b3: "startDate (pickers s3 i) = Some (Some (at_time sd 0))" "endDate (pickers s3 i) = Some (Some (at_time last_day 0))"
    by (simp_all add: p3 b2)
  have a3: "asked_month s3 (pickers s3 i) NNaN NNaN = month_start_date (month_idx (pg_now s3))"
    using asked_now [of NNaN NNaN s3 "pickers s3 i"] assms n3 by simp
  define s4 where "s4 = setDisplayedMonth i NNaN NNaN False s3"
  obtain N where sh4: "shows_month N sd last_day (pickers s4 i)" using setDisplayedMonth_shows(2) [OF b3 bd a3] by (auto simp: s4_def)
  have e4: "\<not> end_is_start (pickers s4 i)"
    using setDisplayedMonth_shows(1) [OF b3 bd a3] by (simp add: s4_def p3 p2)
  define s5 where "s5 = upd i (\<lambda>c. c\<lparr>dp_button := o_createButton site_opts\<rparr>)
    (upd i (\<lambda>c. c\<lparr>closeOnSelect := o_closeOnSelect site_opts, selectMultiple := o_selectMultiple site_opts,
        numSelectable := (if o_selectMultiple site_opts then o_numSelectable site_opts else 1), numSelected := 0, settings := site_opts\<rparr>) s4)"
  have "datePicker i '''' site_opts s = Done s5"
    by (simp add: datePicker_def dp_init_def start end' [unfolded o2] o2 num_arg_of_def fromString_def flip: s0_def s4_def)
      (simp add: s5_def)
  moreover have "dp_ok sd last_day (pickers s5 i)"
    using sh4 e4 o2 by (auto simp: dp_ok_def shows_month_def s5_def)
  moreover have "pg_names s5 = en_names" "pg_now s5 = pg_now s" using n3 by (simp_all add: s5_def s4_def)
  moreover have "pickers s5 j = pickers s j" if "j \<noteq> i" for j
    using that by (simp add: s5_def s4_def s3_def s2_def s1_def s0_def setDisplayedMonth_pickers split: option.split)
  ultimately show ?thesis by (auto simp: sd_def)
qed


subsection \<open>The properties\<close>

text \<open>
  C10. The table of a month shows whole weeks, beginning on the first day of the week: the consecutive days from
  the last such day not after the first of the month up to the end of the week of its last day, and no week more.  Each
  cell has its date, number and text, is marked as of the month exactly when it is, as selected exactly when
  the controller has it selected, and cannot be chosen exactly when it lies before the start or
  after the end: the tests by the number of the day (above 20, below 14) are right for every month and every bound.
\<close>

theorem calendar_offers_range:
  assumes "shows_month M sd ed c" "plain_month M" "plain_day sd" "plain_day ed"
    and "date_format nm = ''yyyy-mm-dd''" "0 \<le> firstDayOfWeek nm" "firstDayOfWeek nm < 7"
  shows "let s = grid_start (firstDayOfWeek nm) (first_day M); w = int (grid_weeks (firstDayOfWeek nm) M); last = first_day M + month_days M - 1
    in list_all2 (cell_for nm c M sd ed) [s..s + 7 * w - 1] (cells_of (month_weeks nm now c)) \<and>
       (s + 4) mod 7 = firstDayOfWeek nm \<and> s \<le> first_day M \<and> first_day M \<le> s + 6 \<and> s + 7 * (w - 1) \<le> last \<and> last < s + 7 * w"
  using calendar_cells [OF assms, of now] by (simp add: Let_def)

lemma calendar_offers_range_witness:
  "list_all2 (cell_for en_names october 24129 (make_day 2010 9 10) last_day)
     [grid_start 1 (first_day 24129)..grid_start 1 (first_day 24129) + 7 * int (grid_weeks 1 24129) - 1] (cells_of (month_weeks en_names 0 october))"
proof -
  have n: "date_format en_names = ''yyyy-mm-dd''" "firstDayOfWeek en_names = 1" by (simp_all add: en_names_def)
  show ?thesis
    using calendar_offers_range [OF october_shown usual_plain [OF site_bounds(1)] usual_plain [OF site_bounds(2)] n(1), of 0]
    by (simp add: n Let_def)
qed

text \<open>
  C11. The calendars of the page, made with the start of October 10, 2010: whatever a user does on the page, with this
  calendar or with others that share the popup, in any order and with any text typed, dates of no calendar included,
  the month a calendar shows stays between October 2010 and December 2999, and its bounds stay as they were set.
\<close>

theorem shown_month_in_bounds:
  assumes "pg_names s = en_names" "plain_day (day_of (pg_now s))"
    and "\<And>m y. ClickNav m y \<in> set es \<Longrightarrow> (m, y) \<in> {(- 1, 0), (1, 0), (0, - 1), (0, 1)}"
  shows "\<exists>M. 24129 \<le> M \<and> M \<le> 35999 \<and>
    shows_month M (make_day 2010 9 10) last_day (pickers (dp_run es (after_outcome (datePicker i '''' site_opts s))) i)"
proof -
  obtain s' where s': "datePicker i '''' site_opts s = Done s'" "dp_ok (make_day 2010 9 10) last_day (pickers s' i)" "pg_now s' = pg_now s"
    using site_picker_ok [OF assms(1,2)] by blast
  have "\<exists>M. shows_month M (make_day 2010 9 10) last_day (pickers (dp_run es s') i)"
    using run_keeps_month [OF site_bounds(1,2) _ s'(2) assms(3)] assms(2) s'(3) by simp
  moreover have "month_idx (at_time (make_day 2010 9 10) 0) = 24129" "month_idx (at_time last_day 0) = 35999"
    unfolding bound_day by code_simp+
  ultimately show ?thesis by (auto simp: s'(1) after_outcome_def shows_month_def)
qed

definition site_page :: dpage where
  "site_page = \<lparr>pg_names = en_names, pg_now = 1330500000000, pickers = (\<lambda>_. new_picker ''''), the_popup = None, dp_log = [], listening = None\<rparr>"

lemma shown_month_in_bounds_witness:
  "\<exists>M. 24129 \<le> M \<and> M \<le> 35999 \<and> shows_month M (make_day 2010 9 10) last_day
     (pickers (dp_run [ClickButton 0, ClickNav (- 1) 0, TypeDate 1 ''x'', ClickDay 2 3] (after_outcome (datePicker 0 '''' site_opts site_page))) 0)"
proof -
  have "plain_day (day_of (pg_now site_page))" by code_simp
  then show ?thesis by (intro shown_month_in_bounds) (auto simp: site_page_def)
qed


lemma october_ok:
  "dp_ok (make_day 2010 9 10) last_day (october\<lparr>closeOnSelect := b, selectMultiple := m, numSelectable := k, numSelected := n, selectedDates := l\<rparr>)"
  using october_shown(1) by (auto simp: dp_ok_def shows_month_def october_def new_picker_def dp_defaults_def intro!: exI [of _ 24129])

lemma october_cell:
  "the_cell 0 0 (the (the_popup (october_page c sel))) = Some ((render_cell en_names 0 (NInt 9) (Some (noon (make_day 2010 9 12))))\<lparr>td_selected := sel\<rparr>)"
  by (simp add: the_cell_def october_page_def)

lemma click_chooses_day_witness:
  "\<exists>s'. click_cell 0 0 (october_page (october\<lparr>closeOnSelect := True\<rparr>) False) = Done s' \<and> the_popup s' = None \<and>
    field_val (pickers s' 0) = day_text en_names (make_day 2010 9 12) \<and>
    getSelected (pg_names s') (pickers s' 0) = Inr [Some (at_time (make_day 2010 9 12) 0)]"
proof -
  define c where "c = october\<lparr>closeOnSelect := True\<rparr>"
  define s where "s = october_page c False"
  define p where "p = the (the_popup s)"
  have c: "c = october\<lparr>closeOnSelect := True, selectMultiple := False, numSelectable := 0, numSelected := 0, selectedDates := []\<rparr>"
    by (simp add: c_def october_def new_picker_def)
  have s: "pickers s (cal_owner p) = c" "pg_names s = en_names" "the_popup s = Some p" "cal_owner p = 0"
    by (simp_all add: s_def p_def october_page_def)
  have ok: "dp_ok (make_day 2010 9 10) last_day c" unfolding c by (rule october_ok)
  have x: "the_cell 0 0 p = Some (render_cell en_names 0 (NInt 9) (Some (noon (make_day 2010 9 12))))"
    using october_cell [of c False] by (simp add: p_def s_def render_cell_def Let_def)
  have d: "make_day 2010 9 10 \<le> make_day 2010 9 12" "make_day 2010 9 12 \<le> last_day" by (simp_all add: last_day_def make_day_def) code_simp
  have f: "date_format en_names = ''yyyy-mm-dd''" by (simp add: en_names_def)
  show ?thesis
    using click_chooses_day [OF ok site_bounds(1,2) s(1) [symmetric] _ _ _ _ s(3) x, of "noon (make_day 2010 9 12)"] d
    by (simp add: s f render_cell_def Let_def isSelected_def c_def [symmetric] s_def [symmetric])
      (simp add: c october_def new_picker_def dp_defaults_def isSelected_def)
qed


lemma deselected_day_comes_back_witness:
  "let c = october\<lparr>closeOnSelect := False, selectMultiple := True, numSelectable := 5, numSelected := 1,
             selectedDates := [(day_text en_names (make_day 2010 9 12), True)]\<rparr>
   in \<exists>s'. click_cell 0 0 (october_page c True) = Done s' \<and> DateSelected 0 (day_text en_names (make_day 2010 9 12)) False \<in> set (dp_log s') \<and>
        selectedDates (pickers s' 0) = selectedDates c \<and> numSelected (pickers s' 0) = numSelected c \<and>
        field_val (pickers s' 0) = day_text en_names (make_day 2010 9 12)"
proof -
  define c where "c = october\<lparr>closeOnSelect := False, selectMultiple := True, numSelectable := 5, numSelected := 1,
             selectedDates := [(day_text en_names (make_day 2010 9 12), True)]\<rparr>"
  define s where "s = october_page c True"
  define p where "p = the (the_popup s)"
  have s: "pickers s (cal_owner p) = c" "pg_names s = en_names" "the_popup s = Some p" "cal_owner p = 0"
    by (simp_all add: s_def p_def october_page_def)
  have ok: "dp_ok (make_day 2010 9 10) last_day c" unfolding c_def by (rule october_ok)
  have x: "the_cell 0 0 p = Some ((render_cell en_names 0 (NInt 9) (Some (noon (make_day 2010 9 12))))\<lparr>td_selected := True\<rparr>)"
    using october_cell [of c True] by (simp add: p_def s_def)
  have d: "make_day 2010 9 10 \<le> make_day 2010 9 12" "make_day 2010 9 12 \<le> last_day" by (simp_all add: last_day_def make_day_def) code_simp
  have f: "date_format en_names = ''yyyy-mm-dd''" by (simp add: en_names_def)
  have cf: "selectMultiple c" "\<not> closeOnSelect c" "\<not> o_selectWeek (settings c)" "numSelected c \<le> numSelectable c"
    by (simp_all add: c_def october_def new_picker_def dp_defaults_def)
  have sel: "isSelected en_names (Some (at_time (make_day 2010 9 12) 0)) c = Some True"
    by (simp add: isSelected_def c_def day_text_def)
  show ?thesis unfolding Let_def c_def [symmetric]
    using deselected_day_comes_back [OF ok site_bounds(1,2) s(1) [symmetric] cf _ s(3) x, of "noon (make_day 2010 9 12)"] d sel
    by (simp add: s f render_cell_def Let_def flip: s_def)
qed

end
