(* ===== verification/TableSorter.thy ===== *)
theory TableSorter
  imports DateExt "HOL-Library.Multiset"
begin

text \<open>
  The plugin that sorts a table by a click on its head (\<open>lib/js/jquery.tablesorter.js\<close>), which the page of the
  statistics uses: finding out what a column holds, the cache of its values, the comparison over several columns, the
  events, and the stripes of the rows.

  Arrays that several tables share are in a store: every table that is made without a list of its own has the list
  of the defaults, the tables of one call have the list of the call, and all of them have the list of heads of the
  defaults, which holds the heads of the table made last.  A click sorts in a timer (\<open>ts_jobs\<close>).

  What depends on the browser is a parameter: lower case in the language of the reader (\<open>lower\<close>) and the reading of a date
  (\<open>parse_date\<close>, the milliseconds or \<open>NaN\<close>).  Left out are the options that a page may set to functions of its own, \<open>sortForce\<close>,
  metadata and the widths of columns.
\<close>

subsection \<open>What a column holds\<close>

record ts_env =
  lower :: "string \<Rightarrow> string"
  parse_date :: "string \<Rightarrow> jnum"

(* src/lib/js/jquery.tablesorter.js:884-1004 the parsers *)
datatype ts_parser = PText | PDigit | PCurrency | PIpAddress | PUrl | PIsoDate | PPercent | PUsLongDate | PShortDate | PTime | PMetadata

definition all_parsers :: "ts_parser list" where
  "all_parsers = [PText, PDigit, PCurrency, PIpAddress, PUrl, PIsoDate, PPercent, PUsLongDate, PShortDate, PTime, PMetadata]"

fun parser_id :: "ts_parser \<Rightarrow> string" where
  "parser_id PText = ''text''"
| "parser_id PDigit = ''digit''"
| "parser_id PCurrency = ''currency''"
| "parser_id PIpAddress = ''ipAddress''"
| "parser_id PUrl = ''url''"
| "parser_id PIsoDate = ''isoDate''"
| "parser_id PPercent = ''percent''"
| "parser_id PUsLongDate = ''usLongDate''"
| "parser_id PShortDate = ''shortDate''"
| "parser_id PTime = ''time''"
| "parser_id PMetadata = ''metadata''"

definition numeric_parser :: "ts_parser \<Rightarrow> bool" where
  "numeric_parser p \<longleftrightarrow> p \<noteq> PText \<and> p \<noteq> PUrl"

text \<open>The expressions.\<close>

definition rdig :: rx where
  "rdig = RSet is_digit"

definition rone :: "string \<Rightarrow> rx" where
  "rone cs = RSet (\<lambda>c. c \<in> set cs)"

definition rfrom :: "nat \<Rightarrow> nat \<Rightarrow> rx" where
  "rfrom a b = RSet (\<lambda>c. a \<le> byte c \<and> byte c \<le> b)"

definition rspace :: rx where
  "rspace = RSet is_space"

definition digit_rx :: rx where
  "digit_rx = RSeq (ropt (rone ''-+'')) (RStar rdig)"

definition ip_rx :: rx where
  "ip_rx = rseq [rrange 2 3 rdig, rchr (CHR ''.''), rrange 2 3 rdig, rchr (CHR ''.''), rrange 2 3 rdig, rchr (CHR ''.''), rrange 2 3 rdig]"

definition scheme_rx :: rx where
  "scheme_rx = RSeq (ralt [rseq [rstr ''http'', ropt (rchr (CHR ''s''))], rstr ''ftp'', rstr ''file'']) (rstr ''://'')"

definition iso_rx :: rx where
  "iso_rx = rseq [rpow 4 rdig, rone ''/-'', rrange 1 2 rdig, rone ''/-'', rrange 1 2 rdig]"

definition any_rx :: rx where
  "any_rx = RStar (RSet (\<lambda>_. True))"

definition short_rx :: rx where
  "short_rx = rseq [any_rx, rrange 1 2 rdig, rone ''/-'', rrange 1 2 rdig, rone ''/-'', rrange 2 4 rdig, any_rx]"

definition clock_rx :: "string list \<Rightarrow> rx" where
  "clock_rx halves = ralt [
     rseq [ropt (rfrom 48 50), rdig, rchr (CHR '':''), rfrom 48 53, rdig],
     rseq [ropt (rfrom 48 49), rdig, rchr (CHR '':''), rfrom 48 53, rdig, rspace, ralt (map rstr halves)]]"

definition letter_rx :: rx where
  "letter_rx = RAlt (rfrom 65 90) (rfrom 97 122)"

definition us_rx :: rx where
  "us_rx = rseq [rrange 3 10 letter_rx, ropt (rchr (CHR ''.'')), rchr (CHR '' ''), rrange 1 2 rdig, rstr '', '',
     RAlt (rpow 4 rdig) (RSeq (ropt (rchr (char_of (39 :: nat)))) (rpow 2 rdig)), rchr (CHR '' ''), clock_rx [''AM'', ''PM'']]"

text \<open>The signs of pound and euro, in UTF-8\<close>

definition pound :: string where "pound = utf8 [194, 163]"
definition euro :: string where "euro = utf8 [226, 130, 172]"

definition drop_chars :: "string \<Rightarrow> string \<Rightarrow> string" where
  "drop_chars cs = filter (\<lambda>c. c \<notin> set cs)"

(* src/lib/js/jquery.tablesorter.js:857-860 isDigit *)
definition ts_isDigit :: "string \<Rightarrow> bool" where
  "ts_isDigit s \<longleftrightarrow> rx_test digit_rx (jq_trim (drop_chars [CHR '','', CHR ''.'', char_of (39 :: nat)] s))"

(* src/lib/js/jquery.tablesorter.js:884-1004 the parsers, is *)
fun parser_is :: "ts_parser \<Rightarrow> string \<Rightarrow> bool" where
  "parser_is PText s = True"
| "parser_is PDigit s = ts_isDigit s"
| "parser_is PCurrency s = (take 2 s = pound \<or> take 3 s = euro \<or> (s \<noteq> [] \<and> hd s \<in> set ''$?.''))"
| "parser_is PIpAddress s = rx_test ip_rx s"
| "parser_is PUrl s = rx_test scheme_rx s"
| "parser_is PIsoDate s = rx_test iso_rx s"
| "parser_is PPercent s = (jq_trim s \<noteq> [] \<and> last (jq_trim s) = CHR ''%'')"
| "parser_is PUsLongDate s = rx_test us_rx s"
| "parser_is PShortDate s = rx_test short_rx s"
| "parser_is PTime s = rx_test (clock_rx [''am'', ''pm'']) s"
| "parser_is PMetadata s = False"

subsection \<open>The value of a cell\<close>

datatype ts_val = TText string | TNum jnum

definition num_or_0 :: "jnum \<Rightarrow> jnum" where
  "num_or_0 n = (if n = NaN then Fin 0 else n)"

(* src/lib/js/jquery.tablesorter.js:849-852 formatFloat *)
definition formatFloat :: "string \<Rightarrow> jnum" where
  "formatFloat s = num_or_0 (parseFloat s)"

fun drop_signs :: "string \<Rightarrow> string" where
  "drop_signs [] = []"
| "drop_signs (c # s) =
     (if c = CHR ''$'' then drop_signs s
      else if c # take 1 s = pound then drop_signs (drop 1 s)
      else if c # take 2 s = euro then drop_signs (drop 2 s)
      else c # drop_signs s)"

definition slashes :: "string \<Rightarrow> string" where
  "slashes = map (\<lambda>c. if c = CHR ''-'' then CHR ''/'' else c)"

definition ip_pad :: "string \<Rightarrow> string" where
  "ip_pad item = (if length item = 2 then CHR ''0'' # item else item)"

text \<open>The first three runs of digits that a date is made of, with what is before and after them.\<close>

definition jdig :: jrx where
  "jdig = JSet is_digit"

definition jsep :: jrx where
  "jsep = JSet (\<lambda>c. c \<in> set ''/-'')"

definition short_jrx :: jrx where
  "short_jrx = JSeq (JGrp 1 (JAlt (JSeq jdig jdig) jdig)) (JSeq jsep (JSeq (JGrp 2 (JAlt (JSeq jdig jdig) jdig)) (JSeq jsep
     (JGrp 3 (JSeq jdig (JSeq jdig (JSeq jdig jdig)))))))"

definition reorder_date :: "(run \<Rightarrow> string) \<Rightarrow> string \<Rightarrow> string" where
  "reorder_date f s = (case js_match False short_jrx s of
       Some m \<Rightarrow> take (length s - length (fst m) - length (fst (snd m))) s @ f m @ fst (snd m)
     | None \<Rightarrow> s)"

definition scheme_jrx :: jrx where
  "scheme_jrx = JSeq (JAlt (JSeq (JSet ((=) (CHR ''h''))) (JSeq (JSet ((=) (CHR ''t''))) (JSeq (JSet ((=) (CHR ''t''))) (JSeq (JSet ((=) (CHR ''p'')))
       (JAlt (JSet ((=) (CHR ''s''))) JEps)))))
     (JAlt (JSeq (JSet ((=) (CHR ''f''))) (JSeq (JSet ((=) (CHR ''t''))) (JSet ((=) (CHR ''p'')))))
       (JSeq (JSet ((=) (CHR ''f''))) (JSeq (JSet ((=) (CHR ''i''))) (JSeq (JSet ((=) (CHR ''l''))) (JSet ((=) (CHR ''e''))))))))
     (JSeq (JSet ((=) (CHR '':''))) (JSeq (JSet ((=) (CHR ''/''))) (JSet ((=) (CHR ''/'')))))"

definition drop_scheme :: "string \<Rightarrow> string" where
  "drop_scheme s = (case js_match False scheme_jrx s of
       Some m \<Rightarrow> take (length s - length (fst m) - length (fst (snd m))) s @ fst (snd m)
     | None \<Rightarrow> s)"

(* src/lib/js/jquery.tablesorter.js:973-985 the parser shortDate, format *)
definition format_shortDate :: "ts_env \<Rightarrow> string \<Rightarrow> string \<Rightarrow> jnum" where
  "format_shortDate env fmt s0 =
     (let s = slashes s0
      in num_or_0 (parse_date env
           (if fmt = ''us'' then reorder_date (\<lambda>m. grp 3 m @ ''/'' @ grp 1 m @ ''/'' @ grp 2 m) s
            else if fmt = ''uk'' then reorder_date (\<lambda>m. grp 3 m @ ''/'' @ grp 2 m @ ''/'' @ grp 1 m) s
            else s)))"

text \<open>The format of dates is that of the table; it is missing where a call does not pass the table.  What is \<open>None\<close> throws:
  the metadata plugin is not there.\<close>

(* src/lib/js/jquery.tablesorter.js:884-1004 the parsers, format *)
fun parser_format :: "ts_env \<Rightarrow> string option \<Rightarrow> ts_parser \<Rightarrow> string \<Rightarrow> ts_val option" where
  "parser_format env fmt PText s = Some (TText (jq_trim (lower env s)))"
| "parser_format env fmt PDigit s = Some (TNum (formatFloat s))"
| "parser_format env fmt PCurrency s = Some (TNum (formatFloat (drop_signs s)))"
| "parser_format env fmt PIpAddress s = Some (TNum (formatFloat (concat (map ip_pad (split_on (CHR ''.'') s)))))"
| "parser_format env fmt PUrl s = Some (TText (jq_trim (drop_scheme s)))"
| "parser_format env fmt PIsoDate s = Some (TNum (if s \<noteq> [] then num_or_0 (parse_date env (slashes s)) else Fin 0))"
| "parser_format env fmt PPercent s = Some (TNum (formatFloat (drop_chars ''%'' s)))"
| "parser_format env fmt PUsLongDate s = Some (TNum (num_or_0 (parse_date env s)))"
| "parser_format env fmt PShortDate s = map_option (\<lambda>f. TNum (format_shortDate env f s)) fmt"
| "parser_format env fmt PTime s = Some (TNum (num_or_0 (parse_date env (''2000/01/01 '' @ s))))"
| "parser_format env fmt PMetadata s = None"

(* src/lib/js/jquery.tablesorter.js:236-244 getParserById *)
definition getParserById :: "string \<Rightarrow> ts_parser option" where
  "getParserById name = find (\<lambda>p. js_lower (parser_id p) = js_lower name) all_parsers"

subsection \<open>Rows, heads and tables\<close>

text \<open>A cell: its text, its HTML, and the HTML of its first child where that has children.\<close>

record ts_cell =
  tc_text :: string
  tc_html :: string
  tc_first :: "string option"

record ts_row =
  tr_child :: bool
  tr_visible :: bool
  tr_css :: "string list"
  tr_cells :: "ts_cell list"

text \<open>A cell of the head of the table: whether it is a \<open>th\<close>, and its spans.\<close>

record ts_slot =
  sl_th :: bool
  sl_rows :: nat
  sl_cols :: nat

datatype ts_sorter = NoSorter | Sorter string

record ts_colopt =
  co_sorter :: "ts_sorter option"
  co_locked :: nat

(* src/lib/js/jquery.tablesorter.js:112-135 defaults *)
record ts_opts =
  op_order :: string
  op_simple :: bool
  op_cols :: "(nat \<times> ts_colopt) list"
  op_date :: string
  op_widgets :: "string list"

definition ts_defaults :: ts_opts where
  "ts_defaults = \<lparr>op_order = ''asc'', op_simple = True, op_cols = [], op_date = ''us'', op_widgets = []\<rparr>"

text \<open>What the plugin writes into a \<open>th\<close>.\<close>

record ts_head =
  h_column :: nat
  h_order :: nat
  h_count :: nat
  h_disabled :: bool
  h_locked :: "nat option"
  h_css :: "string list"

text \<open>A row of the cache: the values of its cells and its place.\<close>

type_synonym ts_line = "ts_val list \<times> nat"

text \<open>A table: its head and body in the document (rows by number), its heads, what \<open>config\<close> holds, and the variable \<open>cache\<close> of
  the handlers; \<open>tt_live\<close> says whether the handlers are bound, \<open>tt_log\<close> what events were sent.\<close>

record ts_table =
  tt_thead :: "ts_slot list list option"
  tt_body :: "nat list option"
  tt_heads :: "ts_head list"
  tt_opts :: ts_opts
  tt_parsers :: "ts_parser list option"
  tt_textok :: bool
  tt_list :: nat
  tt_rows :: "nat list list"
  tt_norm :: "ts_line list"
  tt_live :: bool
  tt_log :: "string list"

datatype ts_job = JSort nat | JUpdate nat | JEnd nat

record ts_page =
  tp_table :: "nat \<Rightarrow> ts_table"
  tp_row :: "nat \<Rightarrow> ts_row"
  tp_arr :: "nat \<Rightarrow> (nat \<times> nat) list"
  tp_next :: nat
  tp_headList :: "(nat \<times> nat) list"
  tp_jobs :: "ts_job list"

text \<open>A step throws with what was done till then (\<open>Inl\<close>) or ends (\<open>Inr\<close>).\<close>

type_synonym ts_out = "ts_page + ts_page"

definition on_tab :: "nat \<Rightarrow> (ts_table \<Rightarrow> ts_table) \<Rightarrow> ts_page \<Rightarrow> ts_page" where
  "on_tab t f w = w\<lparr>tp_table := (tp_table w)(t := f (tp_table w t))\<rparr>"

definition sort_list :: "nat \<Rightarrow> ts_page \<Rightarrow> (nat \<times> nat) list" where
  "sort_list t w = tp_arr w (tt_list (tp_table w t))"

subsection \<open>The text of a cell and the parsers of a table\<close>

text \<open>\<open>supportsTextContent\<close> is asked for until a cell has text; the result is the text and the flag.\<close>

(* src/lib/js/jquery.tablesorter.js:294-320 getElementText *)
definition getElementText :: "ts_opts \<Rightarrow> bool \<Rightarrow> ts_cell option \<Rightarrow> string \<times> bool" where
  "getElementText opts u node = (case node of
       None \<Rightarrow> ('''', u)
     | Some c \<Rightarrow>
         (let u1 = (u \<or> tc_text c \<noteq> [])
          in (if op_simple opts \<and> \<not> u1 then (case tc_first c of Some h \<Rightarrow> h | None \<Rightarrow> tc_html c) else tc_text c, u1)))"

definition cell_at :: "ts_row \<Rightarrow> nat \<Rightarrow> ts_cell option" where
  "cell_at r i = (if i < length (tr_cells r) then Some (tr_cells r ! i) else None)"

(* src/lib/js/jquery.tablesorter.js:207-218 detectParserForColumn, the loop over the rows *)
fun first_value :: "ts_opts \<Rightarrow> nat \<Rightarrow> bool \<Rightarrow> ts_row list \<Rightarrow> string \<times> bool" where
  "first_value opts i u [] = ('''', u)"
| "first_value opts i u (r # rs) =
     (let (v, u1) = getElementText opts u (cell_at r i)
      in if jq_trim v = [] then first_value opts i u1 rs else (jq_trim v, u1))"

definition parser_of :: "string \<Rightarrow> ts_parser" where
  "parser_of v = (case find (\<lambda>p. parser_is p v) (tl all_parsers) of Some p \<Rightarrow> p | None \<Rightarrow> PText)"

(* src/lib/js/jquery.tablesorter.js:202-226 detectParserForColumn *)
definition detectParserForColumn :: "ts_opts \<Rightarrow> ts_row list \<Rightarrow> nat \<Rightarrow> bool \<Rightarrow> ts_parser \<times> bool" where
  "detectParserForColumn opts rows i u = (let (v, u1) = first_value opts i u rows in (parser_of v, u1))"

definition named_parser :: "ts_opts \<Rightarrow> nat \<Rightarrow> ts_parser option" where
  "named_parser opts i = (case map_of (op_cols opts) i of
       Some co \<Rightarrow> (case co_sorter co of Some (Sorter n) \<Rightarrow> if n = [] then None else getParserById n | _ \<Rightarrow> None)
     | None \<Rightarrow> None)"

fun parsers_from :: "ts_opts \<Rightarrow> ts_row list \<Rightarrow> nat list \<Rightarrow> bool \<Rightarrow> ts_parser list \<times> bool" where
  "parsers_from opts rows [] u = ([], u)"
| "parsers_from opts rows (i # is) u =
     (let (p, u1) = (case named_parser opts i of Some p \<Rightarrow> (p, u) | None \<Rightarrow> detectParserForColumn opts rows i u);
          (ps, u2) = parsers_from opts rows is u1
      in (p # ps, u2))"

(* src/lib/js/jquery.tablesorter.js:155-200 buildParserCache *)
definition buildParserCache :: "ts_opts \<Rightarrow> ts_row list option \<Rightarrow> bool \<Rightarrow> ts_parser list option \<times> bool" where
  "buildParserCache opts body u = (case body of
       None \<Rightarrow> (None, u)
     | Some [] \<Rightarrow> (None, u)
     | Some (r # rs) \<Rightarrow>
         (let (ps, u1) = parsers_from opts (r # rs) [0..<length (tr_cells r)] u in (Some ps, u1)))"

subsection \<open>The cache\<close>

fun format_cells :: "ts_env \<Rightarrow> ts_opts \<Rightarrow> ts_row \<Rightarrow> (nat \<times> ts_parser) list \<Rightarrow> bool \<Rightarrow> ts_val list option \<times> bool" where
  "format_cells env opts r [] u = (Some [], u)"
| "format_cells env opts r ((j, p) # ps) u =
     (let (v, u1) = getElementText opts u (cell_at r j)
      in case parser_format env (Some (op_date opts)) p v of
           None \<Rightarrow> (None, u1)
         | Some x \<Rightarrow> (let (xs, u2) = format_cells env opts r ps u1 in (map_option ((#) x) xs, u2)))"

text \<open>Lines and groups of rows so far; a child row goes to the group of the row before it.\<close>

(* src/lib/js/jquery.tablesorter.js:262-285 buildCache, the loop *)
fun cache_rows :: "ts_env \<Rightarrow> ts_opts \<Rightarrow> ts_parser list \<Rightarrow> (nat \<times> ts_row) list \<Rightarrow> nat list list \<Rightarrow> ts_line list \<Rightarrow> bool
    \<Rightarrow> (nat list list \<times> ts_line list) option \<times> bool" where
  "cache_rows env opts ps [] g n u = (Some (g, n), u)"
| "cache_rows env opts ps ((i, r) # rs) g n u =
     (if tr_child r then
        (if g = [] then (None, u) else cache_rows env opts ps rs (butlast g @ [last g @ [i]]) n u)
      else (case format_cells env opts r (enumerate 0 ps) u of
          (None, u1) \<Rightarrow> (None, u1)
        | (Some xs, u1) \<Rightarrow> cache_rows env opts ps rs (g @ [[i]]) (n @ [(xs, length n)]) u1))"

definition body_rows :: "nat \<Rightarrow> ts_page \<Rightarrow> ts_row list option" where
  "body_rows t w = map_option (map (tp_row w)) (tt_body (tp_table w t))"

(* src/lib/js/jquery.tablesorter.js:248-292 buildCache *)
definition buildCache :: "ts_env \<Rightarrow> nat \<Rightarrow> ts_page \<Rightarrow> (nat list list \<times> ts_line list) option \<times> bool" where
  "buildCache env t w =
     (let T = tp_table w t
      in case tt_body T of
           None \<Rightarrow> (None, tt_textok T)
         | Some is \<Rightarrow> cache_rows env (tt_opts T) (case tt_parsers T of Some ps \<Rightarrow> ps | None \<Rightarrow> [])
             (map (\<lambda>i. (i, tp_row w i)) is) [] [] (tt_textok T))"

text \<open>The parsers and then the cache, which stays as it was when a row throws.\<close>

definition read_table :: "ts_env \<Rightarrow> nat \<Rightarrow> ts_page \<Rightarrow> ts_out" where
  "read_table env t w =
     (let (ps, u) = buildParserCache (tt_opts (tp_table w t)) (body_rows t w) (tt_textok (tp_table w t));
          w1 = on_tab t (\<lambda>T. T\<lparr>tt_parsers := ps, tt_textok := u\<rparr>) w;
          (c, u1) = buildCache env t w1;
          w2 = on_tab t (\<lambda>T. T\<lparr>tt_textok := u1\<rparr>) w1
      in case c of
           None \<Rightarrow> Inl w2
         | Some (g, n) \<Rightarrow> Inr (on_tab t (\<lambda>T. T\<lparr>tt_rows := g, tt_norm := n\<rparr>) w2))"

subsection \<open>The heads\<close>

text \<open>A row of the matrix says which columns are taken.\<close>

definition take_columns :: "nat \<Rightarrow> nat \<Rightarrow> bool list \<Rightarrow> bool list" where
  "take_columns from n xs =
     (let ys = xs @ replicate (from + n - length xs) False
      in take from ys @ replicate n True @ drop (from + n) ys)"

definition firstAvailCol :: "bool list \<Rightarrow> nat" where
  "firstAvailCol xs = length (takeWhile id xs)"

definition span_of :: "nat \<Rightarrow> nat" where
  "span_of n = (if n = 0 then 1 else n)"

(* src/lib/js/jquery.tablesorter.js:430-458 computeTableHeaderCellIndexes, the cells of a row *)
fun header_cells :: "nat \<Rightarrow> ts_slot list \<Rightarrow> (nat \<Rightarrow> bool list) \<Rightarrow> nat list \<times> (nat \<Rightarrow> bool list)" where
  "header_cells r [] m = ([], m)"
| "header_cells r (c # cs) m =
     (let col = firstAvailCol (m r);
          m1 = (\<lambda>k. if r \<le> k \<and> k < r + span_of (sl_rows c) then take_columns col (span_of (sl_cols c)) (m k) else m k);
          (xs, m2) = header_cells r cs m1
      in (col # xs, m2))"

(* src/lib/js/jquery.tablesorter.js:422-461 computeTableHeaderCellIndexes *)
fun header_rows :: "nat \<Rightarrow> ts_slot list list \<Rightarrow> (nat \<Rightarrow> bool list) \<Rightarrow> nat list list" where
  "header_rows r [] m = []"
| "header_rows r (cs # rs) m = (let (xs, m1) = header_cells r cs m in xs # header_rows (Suc r) rs m1)"

definition computeTableHeaderCellIndexes :: "ts_slot list list \<Rightarrow> nat list list" where
  "computeTableHeaderCellIndexes rows = header_rows 0 rows (\<lambda>_. [])"

(* src/lib/js/jquery.tablesorter.js:521-527 formatSortingOrder *)
definition formatSortingOrder :: "string \<Rightarrow> nat" where
  "formatSortingOrder v = (if js_lower v = ''desc'' then 1 else 0)"

(* src/lib/js/jquery.tablesorter.js:490-495 checkHeaderOptions *)
definition checkHeaderOptions :: "ts_opts \<Rightarrow> nat \<Rightarrow> bool" where
  "checkHeaderOptions opts i = (case map_of (op_cols opts) i of Some co \<Rightarrow> co_sorter co = Some NoSorter | None \<Rightarrow> False)"

(* src/lib/js/jquery.tablesorter.js:497-500 checkHeaderOptionsSortingLocked *)
definition checkHeaderOptionsSortingLocked :: "ts_opts \<Rightarrow> nat \<Rightarrow> nat option" where
  "checkHeaderOptionsSortingLocked opts i =
     (case map_of (op_cols opts) i of Some co \<Rightarrow> if co_locked co \<noteq> 0 then Some (co_locked co) else None | None \<Rightarrow> None)"

definition add_css :: "string \<Rightarrow> string list \<Rightarrow> string list" where
  "add_css c cs = (if c \<in> set cs then cs else cs @ [c])"

definition remove_css :: "string \<Rightarrow> string list \<Rightarrow> string list" where
  "remove_css c = filter (\<lambda>d. d \<noteq> c)"

(* src/lib/js/jquery.tablesorter.js:387-406 buildHeaders, a head *)
definition make_head :: "ts_opts \<Rightarrow> nat \<Rightarrow> nat \<Rightarrow> ts_head" where
  "make_head opts i col =
     (let ord = formatSortingOrder (op_order opts);
          lock = checkHeaderOptionsSortingLocked opts i;
          off = checkHeaderOptions opts i
      in \<lparr>h_column = col, h_order = (case lock of Some k \<Rightarrow> k | None \<Rightarrow> ord), h_count = ord, h_disabled = off,
          h_locked = lock, h_css = (if off then [] else [''header''])\<rparr>)"

definition th_columns :: "ts_slot list list \<Rightarrow> nat list" where
  "th_columns rows = concat (map2 (\<lambda>cs xs. map snd (filter (\<lambda>(c, x). sl_th c) (zip cs xs)))
     rows (computeTableHeaderCellIndexes rows))"

text \<open>The heads go into the list of the defaults, over what another table left there.\<close>

(* src/lib/js/jquery.tablesorter.js:377-415 buildHeaders *)
definition buildHeaders :: "ts_slot list list \<Rightarrow> nat \<Rightarrow> ts_page \<Rightarrow> ts_page" where
  "buildHeaders rows t w =
     (let hs = map (\<lambda>(i, col). make_head (tt_opts (tp_table w t)) i col) (enumerate 0 (th_columns rows));
          w1 = on_tab t (\<lambda>T. T\<lparr>tt_heads := hs\<rparr>) w
      in w1\<lparr>tp_headList := map (Pair t) [0..<length hs] @ drop (length hs) (tp_headList w1)\<rparr>)"

text \<open>The names \<open>cssDesc\<close> and \<open>cssAsc\<close>, by the order.\<close>

definition sortCSS :: "string list" where
  "sortCSS = [''headerSortDown'', ''headerSortUp'']"

definition on_head :: "nat \<Rightarrow> nat \<Rightarrow> (ts_head \<Rightarrow> ts_head) \<Rightarrow> ts_page \<Rightarrow> ts_page" where
  "on_head t k f = on_tab t (\<lambda>T. T\<lparr>tt_heads := (tt_heads T)[k := f (tt_heads T ! k)]\<rparr>)"

text \<open>The head of a column: the last one that is not disabled.\<close>

definition head_of_column :: "ts_head list \<Rightarrow> nat \<Rightarrow> nat option" where
  "head_of_column hs c = find (\<lambda>k. \<not> h_disabled (hs ! k) \<and> h_column (hs ! k) = c) (rev [0..<length hs])"

fun mark_heads :: "nat \<Rightarrow> (nat \<times> nat) list \<Rightarrow> ts_page \<Rightarrow> ts_out" where
  "mark_heads t [] w = Inr w"
| "mark_heads t ((c, ord) # sl) w =
     (case head_of_column (tt_heads (tp_table w t)) c of
        None \<Rightarrow> Inl w
      | Some k \<Rightarrow> mark_heads t sl
          (if ord < 2 then on_head t k (\<lambda>h. h\<lparr>h_css := add_css (sortCSS ! ord) (h_css h)\<rparr>) w else w))"

(* src/lib/js/jquery.tablesorter.js:539-554 setHeadersCss *)
definition setHeadersCss :: "nat \<Rightarrow> (nat \<times> nat) list \<Rightarrow> ts_page \<Rightarrow> ts_out" where
  "setHeadersCss t sl w =
     mark_heads t sl (on_tab t (\<lambda>T. T\<lparr>tt_heads := map (\<lambda>h. h\<lparr>h_css := remove_css (sortCSS ! 1) (remove_css (sortCSS ! 0) (h_css h))\<rparr>) (tt_heads T)\<rparr>) w)"

(* src/lib/js/jquery.tablesorter.js:567-576 updateHeaderSortCount *)
fun updateHeaderSortCount :: "(nat \<times> nat) list \<Rightarrow> ts_page \<Rightarrow> ts_out" where
  "updateHeaderSortCount [] w = Inr w"
| "updateHeaderSortCount ((c, ord) # sl) w =
     (if c < length (tp_headList w) then
        (case tp_headList w ! c of (t, k) \<Rightarrow> updateHeaderSortCount sl (on_head t k (\<lambda>h. h\<lparr>h_count := ord + 1\<rparr>) w))
      else Inl w)"

subsection \<open>Sorting\<close>

fun num_minus :: "jnum \<Rightarrow> jnum \<Rightarrow> jnum" where
  "num_minus NaN b = NaN"
| "num_minus a NaN = NaN"
| "num_minus (Fin a) (Fin b) = Fin (a - b)"
| "num_minus PInf b = (if b = PInf then NaN else PInf)"
| "num_minus NInf b = (if b = NInf then NaN else NInf)"
| "num_minus (Fin a) b = (if b = PInf then NInf else PInf)"

fun val_num :: "ts_val \<Rightarrow> jnum" where
  "val_num (TNum n) = n"
| "val_num (TText s) = str_to_num s"

fun val_lt :: "ts_val \<Rightarrow> ts_val \<Rightarrow> bool" where
  "val_lt (TText s) (TText t) = str_lt s t"
| "val_lt a b = num_lt (val_num a) (val_num b)"

text \<open>The function that is made for a column, of type text or numeric; no value is null.\<close>

(* src/lib/js/jquery.tablesorter.js:636-646 makeSortFunction *)
definition makeSortFunction :: "bool \<Rightarrow> bool \<Rightarrow> ts_val \<Rightarrow> ts_val \<Rightarrow> jnum" where
  "makeSortFunction isText asc a b =
     (if isText then (if a = b then Fin 0 else if (if asc then val_lt a b else val_lt b a) then Fin (-1) else Fin 1)
      else if asc then num_minus (val_num a) (val_num b) else num_minus (val_num b) (val_num a))"

text \<open>Type, direction and number of the columns of a list, as far as they have parsers.\<close>

fun sort_keys :: "ts_parser list option \<Rightarrow> (nat \<times> nat) list \<Rightarrow> (bool \<times> bool \<times> nat) list option" where
  "sort_keys ps [] = Some []"
| "sort_keys ps ((c, ord) # sl) =
     (case ps of
        None \<Rightarrow> None
      | Some qs \<Rightarrow>
          (if c < length qs then map_option ((#) (\<not> numeric_parser (qs ! c), ord = 0, c)) (sort_keys ps sl) else None))"

text \<open>The function that is written as text and evaluated.\<close>

(* src/lib/js/jquery.tablesorter.js:586-620 multisort, dynamicExp *)
fun sortWrapper :: "(bool \<times> bool \<times> nat) list \<Rightarrow> ts_line \<Rightarrow> ts_line \<Rightarrow> jnum" where
  "sortWrapper [] a b = Fin (of_nat (snd a) - of_nat (snd b))"
| "sortWrapper ((isText, asc, c) # ks) a b =
     (let e = makeSortFunction isText asc (fst a ! c) (fst b ! c)
      in if e \<noteq> Fin 0 \<and> e \<noteq> NaN then e else sortWrapper ks a b)"

text \<open>\<open>sort\<close> of an array, with a function that compares: the order of the result does not depend on the algorithm
  (\<open>sorted_unique\<close>).\<close>

fun ins_by :: "('a \<Rightarrow> 'a \<Rightarrow> jnum) \<Rightarrow> 'a \<Rightarrow> 'a list \<Rightarrow> 'a list" where
  "ins_by f x [] = [x]"
| "ins_by f x (y # ys) = (if num_lt (f y x) (Fin 0) then y # ins_by f x ys else x # y # ys)"

definition sort_arr :: "('a \<Rightarrow> 'a \<Rightarrow> jnum) \<Rightarrow> 'a list \<Rightarrow> 'a list" where
  "sort_arr f xs = foldr (ins_by f) xs []"

(* src/lib/js/jquery.tablesorter.js:580-634 multisort *)
definition multisort :: "nat \<Rightarrow> (nat \<times> nat) list \<Rightarrow> ts_page \<Rightarrow> ts_out" where
  "multisort t sl w =
     (case sort_keys (tt_parsers (tp_table w t)) sl of
        None \<Rightarrow> Inl w
      | Some ks \<Rightarrow>
          (if tt_norm (tp_table w t) = [] then Inl w
           else Inr (on_tab t (\<lambda>T. T\<lparr>tt_norm := sort_arr (sortWrapper ks) (tt_norm T)\<rparr>) w)))"

subsection \<open>The stripes\<close>

text \<open>The rows that can be seen, with the number of the row so far; child rows have that of the row above.\<close>

(* src/lib/js/jquery.tablesorter.js:1007-1029 zebra *)
fun zebra :: "nat list \<Rightarrow> int \<Rightarrow> (nat \<Rightarrow> ts_row) \<Rightarrow> nat \<Rightarrow> ts_row" where
  "zebra [] k R = R"
| "zebra (i # is) k R =
     (if tr_visible (R i) then
        (let k1 = (if tr_child (R i) then k else k + 1);
             odd = (k1 mod 2 = 0)
         in zebra is k1 (R(i := (R i)\<lparr>tr_css := add_css (if odd then ''odd'' else ''even'')
              (remove_css (if odd then ''even'' else ''odd'') (tr_css (R i)))\<rparr>)))
      else zebra is k R)"

(* src/lib/js/jquery.tablesorter.js:512-519 getWidgetById *)
definition getWidgetById :: "string \<Rightarrow> string option" where
  "getWidgetById name = find (\<lambda>w. js_lower w = js_lower name) [''zebra'']"

definition run_widget :: "nat \<Rightarrow> string \<Rightarrow> ts_page \<Rightarrow> ts_out" where
  "run_widget t name w =
     (case getWidgetById name of
        Some _ \<Rightarrow> Inr (w\<lparr>tp_row := zebra (case tt_body (tp_table w t) of Some is \<Rightarrow> is | None \<Rightarrow> []) (-1) (tp_row w)\<rparr>)
      | None \<Rightarrow> Inl w)"

fun run_widgets :: "nat \<Rightarrow> string list \<Rightarrow> ts_page \<Rightarrow> ts_out" where
  "run_widgets t [] w = Inr w"
| "run_widgets t (n # ns) w = bind_sum (run_widget t n w) (run_widgets t ns)"

(* src/lib/js/jquery.tablesorter.js:502-510 applyWidget *)
definition applyWidget :: "nat \<Rightarrow> ts_page \<Rightarrow> ts_out" where
  "applyWidget t w = run_widgets t (op_widgets (tt_opts (tp_table w t))) w"

text \<open>The rows of the cache are moved to the end of the body, in the order of its lines.\<close>

(* src/lib/js/jquery.tablesorter.js:322-375 appendToTable *)
definition appendToTable :: "nat \<Rightarrow> ts_page \<Rightarrow> ts_out" where
  "appendToTable t w =
     (let T = tp_table w t; moved = concat (map (\<lambda>l. tt_rows T ! snd l) (tt_norm T))
      in if tt_norm T = [] then Inl w
         else bind_sum (applyWidget t
                (on_tab t (\<lambda>T. T\<lparr>tt_body := map_option (\<lambda>is. filter (\<lambda>i. i \<notin> set moved) is @ moved) (tt_body T)\<rparr>) w))
              (\<lambda>w1. Inr (w1\<lparr>tp_jobs := tp_jobs w1 @ [JEnd t]\<rparr>)))"

subsection \<open>The events\<close>

definition log_event :: "nat \<Rightarrow> string \<Rightarrow> ts_page \<Rightarrow> ts_page" where
  "log_event t e = on_tab t (\<lambda>T. T\<lparr>tt_log := tt_log T @ [e]\<rparr>)"

text \<open>Heads, lines and rows by the current list.\<close>

definition show_sorted :: "nat \<Rightarrow> ts_page \<Rightarrow> ts_out" where
  "show_sorted t w =
     bind_sum (setHeadersCss t (sort_list t w) w) (\<lambda>w1.
     bind_sum (multisort t (sort_list t w1) w1) (appendToTable t))"

text \<open>A new array with the pairs \<open>sl\<close>; its number is that of the first free one.\<close>

definition new_arr :: "(nat \<times> nat) list \<Rightarrow> ts_page \<Rightarrow> ts_page" where
  "new_arr sl w = w\<lparr>tp_arr := (tp_arr w)(tp_next w := sl), tp_next := Suc (tp_next w)\<rparr>"

(* src/lib/js/jquery.tablesorter.js:804-814 sorton *)
definition sorton :: "nat \<Rightarrow> nat \<Rightarrow> ts_page \<Rightarrow> ts_out" where
  "sorton t a w =
     (let w1 = on_tab t (\<lambda>T. T\<lparr>tt_list := a\<rparr>) (log_event t ''sortStart'' w)
      in bind_sum (updateHeaderSortCount (sort_list t w1) w1) (show_sorted t))"

(* src/lib/js/jquery.tablesorter.js:529-537 isValueInArray *)
definition isValueInArray :: "nat \<Rightarrow> (nat \<times> nat) list \<Rightarrow> bool" where
  "isValueInArray v a = list_ex (\<lambda>p. fst p = v) a"

text \<open>The direction of a column that is in the list already is reversed, in the array itself.\<close>

(* src/lib/js/jquery.tablesorter.js:750-758 click, the loop *)
fun reverse_column :: "nat \<Rightarrow> (nat \<times> nat) list \<Rightarrow> ts_page \<Rightarrow> ((nat \<times> nat) list \<times> ts_page) option" where
  "reverse_column i [] w = Some ([], w)"
| "reverse_column i ((c, ord) # sl) w =
     (if c \<noteq> i then map_option (\<lambda>(xs, w1). ((c, ord) # xs, w1)) (reverse_column i sl w)
      else if c < length (tp_headList w) then
        (case tp_headList w ! c of (t, k) \<Rightarrow>
           map_option (\<lambda>(xs, w1). ((c, (ord + 1) mod 2) # xs, w1))
             (reverse_column i sl (on_head t k (\<lambda>h. h\<lparr>h_count := ord + 1\<rparr>) w)))
      else None)"

text \<open>The new list after a click on a column: without the shift key it is a new array.\<close>

definition choose_column :: "nat \<Rightarrow> bool \<Rightarrow> nat \<Rightarrow> nat \<Rightarrow> ts_page \<Rightarrow> ts_out" where
  "choose_column t shift i ord w =
     (if \<not> shift then Inr (new_arr [(i, ord)] (on_tab t (\<lambda>T. T\<lparr>tt_list := tp_next w\<rparr>) w))
      else if isValueInArray i (sort_list t w) then
        (case reverse_column i (sort_list t w) w of
           None \<Rightarrow> Inl w
         | Some (xs, w1) \<Rightarrow> Inr (w1\<lparr>tp_arr := (tp_arr w1)(tt_list (tp_table w t) := xs)\<rparr>))
      else Inr (w\<lparr>tp_arr := (tp_arr w)(tt_list (tp_table w t) := sort_list t w @ [(i, ord)])\<rparr>))"

(* src/lib/js/jquery.tablesorter.js:716-778 click *)
definition head_click :: "nat \<Rightarrow> nat \<Rightarrow> bool \<Rightarrow> ts_page \<Rightarrow> ts_out" where
  "head_click t k shift w =
     (let T = tp_table w t
      in if k < length (tt_heads T) \<and> \<not> h_disabled (tt_heads T ! k) \<and> tt_body T \<notin> {None, Some []} then
           (let h = tt_heads T ! k;
                ord = (case h_locked h of Some l \<Rightarrow> l | None \<Rightarrow> h_count h mod 2);
                w1 = on_head t k (\<lambda>h. h\<lparr>h_order := ord, h_count := h_count h + 1\<rparr>) (log_event t ''sortStart'' w)
            in bind_sum (choose_column t shift (h_column h) ord w1)
                 (\<lambda>w2. Inr (w2\<lparr>tp_jobs := tp_jobs w2 @ [JSort t]\<rparr>)))
         else Inr w)"

text \<open>The cell \<open>c\<close> of the row \<open>i\<close> of the body: its number in the table is counted with the rows of the head, and one head row is
  assumed.  The call passes the cell where the table is expected.\<close>

(* src/lib/js/jquery.tablesorter.js:797-803 updateCell *)
definition updateCell :: "ts_env \<Rightarrow> nat \<Rightarrow> nat \<Rightarrow> nat \<Rightarrow> ts_page \<Rightarrow> ts_out" where
  "updateCell env t i c w =
     (let T = tp_table w t;
          row = (case tt_thead T of Some hs \<Rightarrow> length hs | None \<Rightarrow> 0) + i;
          cell = (case tt_body T of Some is \<Rightarrow> if i < length is then cell_at (tp_row w (is ! i)) c else None | None \<Rightarrow> None)
      in case tt_parsers T of
           None \<Rightarrow> Inl w
         | Some ps \<Rightarrow>
             (if cell \<noteq> None \<and> c < length ps \<and> 0 < row \<and> row - 1 < length (tt_norm T) then
                (let (v, u) = getElementText (tt_opts T) (tt_textok T) cell;
                     w1 = on_tab t (\<lambda>T. T\<lparr>tt_textok := u\<rparr>) w
                 in case parser_format env None (ps ! c) v of
                      None \<Rightarrow> Inl w1
                    | Some x \<Rightarrow> Inr (on_tab t (\<lambda>T. T\<lparr>tt_norm := (tt_norm T)[row - 1 :=
                        ((fst (tt_norm T ! (row - 1)))[c := x], snd (tt_norm T ! (row - 1)))]\<rparr>) w1))
              else Inl w))"

text \<open>A table is made with the options of the call and the array of its list, that of the defaults (number 0) if it has none.\<close>

(* src/lib/js/jquery.tablesorter.js:688-712,823-832 construct, a table *)
definition make_table :: "ts_env \<Rightarrow> ts_opts \<Rightarrow> nat \<Rightarrow> nat \<Rightarrow> ts_page \<Rightarrow> ts_out" where
  "make_table env opts a t w =
     (case tt_thead (tp_table w t) of
        None \<Rightarrow> Inr w
      | Some rows \<Rightarrow>
          bind_sum (read_table env t (buildHeaders rows t
             (on_tab t (\<lambda>T. T\<lparr>tt_opts := opts, tt_list := a, tt_textok := False\<rparr>) w))) (\<lambda>w1.
          let w2 = on_tab t (\<lambda>T. T\<lparr>tt_live := True\<rparr>) w1
          in bind_sum (if sort_list t w2 \<noteq> [] then sorton t a w2 else Inr w2) (applyWidget t)))"

fun make_tables :: "ts_env \<Rightarrow> ts_opts \<Rightarrow> nat \<Rightarrow> nat list \<Rightarrow> ts_page \<Rightarrow> ts_out" where
  "make_tables env opts a [] w = Inr w"
| "make_tables env opts a (t # ts) w = bind_sum (make_table env opts a t w) (make_tables env opts a ts)"

(* src/lib/js/jquery.tablesorter.js:687-833 construct *)
definition tablesorter :: "ts_env \<Rightarrow> ts_opts \<Rightarrow> (nat \<times> nat) list option \<Rightarrow> nat list \<Rightarrow> ts_page \<Rightarrow> ts_out" where
  "tablesorter env opts sl ts w =
     (case sl of
        None \<Rightarrow> make_tables env opts 0 ts w
      | Some xs \<Rightarrow> make_tables env opts (tp_next w) ts (new_arr xs w))"

fun run_job :: "ts_env \<Rightarrow> ts_job \<Rightarrow> ts_page \<Rightarrow> ts_out" where
  "run_job env (JSort t) w = show_sorted t w"
| "run_job env (JUpdate t) w = read_table env t w"
| "run_job env (JEnd t) w = Inr (log_event t ''sortEnd'' w)"

text \<open>What happens to a page: a call, an event that a table listens to, a timer (the one at a place of the list), and what the page itself
  does to the rows of a body.\<close>

datatype ts_ev =
    Tablesorter ts_opts "(nat \<times> nat) list option" "nat list"
  | HeadClick nat nat bool
  | Updated nat
  | CellUpdated nat nat nat
  | SortOn nat "(nat \<times> nat) list"
  | AppendCache nat
  | ApplyWidgetId nat string
  | ApplyWidgets nat
  | Timer nat
  | SetBody nat "nat list"
  | SetRow nat ts_row

text \<open>The events of a table that has no handlers do nothing.\<close>

definition listens :: "nat \<Rightarrow> (ts_page \<Rightarrow> ts_out) \<Rightarrow> ts_page \<Rightarrow> ts_out" where
  "listens t f w = (if tt_live (tp_table w t) then f w else Inr w)"

(* src/lib/js/jquery.tablesorter.js:788-822 construct, the handlers *)
fun ts_event :: "ts_env \<Rightarrow> ts_ev \<Rightarrow> ts_page \<Rightarrow> ts_out" where
  "ts_event env (Tablesorter opts sl ts) w = tablesorter env opts sl ts w"
| "ts_event env (HeadClick t k shift) w = listens t (head_click t k shift) w"
| "ts_event env (Updated t) w = listens t (\<lambda>w. Inr (w\<lparr>tp_jobs := tp_jobs w @ [JUpdate t]\<rparr>)) w"
| "ts_event env (CellUpdated t i c) w = listens t (updateCell env t i c) w"
| "ts_event env (SortOn t sl) w = listens t (\<lambda>w. sorton t (tp_next w) (new_arr sl w)) w"
| "ts_event env (AppendCache t) w = listens t (appendToTable t) w"
| "ts_event env (ApplyWidgetId t n) w = listens t (run_widget t n) w"
| "ts_event env (ApplyWidgets t) w = listens t (applyWidget t) w"
| "ts_event env (Timer n) w =
     (if n < length (tp_jobs w) then
        run_job env (tp_jobs w ! n) (w\<lparr>tp_jobs := take n (tp_jobs w) @ drop (Suc n) (tp_jobs w)\<rparr>)
      else Inr w)"
| "ts_event env (SetBody t is) w = Inr (on_tab t (\<lambda>T. T\<lparr>tt_body := Some is\<rparr>) w)"
| "ts_event env (SetRow i r) w = Inr (w\<lparr>tp_row := (tp_row w)(i := r)\<rparr>)"

text \<open>An exception ends the event; what was done stays.\<close>

definition ts_step :: "ts_env \<Rightarrow> ts_page \<Rightarrow> ts_ev \<Rightarrow> ts_page" where
  "ts_step env w e = (case ts_event env e w of Inl v \<Rightarrow> v | Inr v \<Rightarrow> v)"

subsection \<open>The order of the lines\<close>

text \<open>What a value of a column is: a number (that is none of \<open>NaN\<close>) or a text, by the parser.\<close>

definition val_ok :: "ts_parser \<Rightarrow> ts_val \<Rightarrow> bool" where
  "val_ok p v \<longleftrightarrow> (case v of TNum n \<Rightarrow> numeric_parser p \<and> n \<noteq> NaN | TText s \<Rightarrow> \<not> numeric_parser p)"

definition line_ok :: "ts_parser list \<Rightarrow> ts_line \<Rightarrow> bool" where
  "line_ok ps l \<longleftrightarrow> length (fst l) = length ps \<and> (\<forall>c<length ps. val_ok (ps ! c) (fst l ! c))"

lemma parser_format_ok: "parser_format env fmt p s = Some v \<Longrightarrow> val_ok p v"
  by (induction env fmt p s rule: parser_format.induct)
     (auto simp: val_ok_def numeric_parser_def formatFloat_def num_or_0_def format_shortDate_def Let_def split: if_splits)

text \<open>The order the user asked for: by the first column that tells two lines apart, else by their places.\<close>

definition col_less :: "bool \<times> bool \<times> nat \<Rightarrow> ts_line \<Rightarrow> ts_line \<Rightarrow> bool" where
  "col_less k a b \<longleftrightarrow> (case k of (isText, asc, c) \<Rightarrow> if asc then val_lt (fst a ! c) (fst b ! c) else val_lt (fst b ! c) (fst a ! c))"

fun comes_before :: "(bool \<times> bool \<times> nat) list \<Rightarrow> ts_line \<Rightarrow> ts_line \<Rightarrow> bool" where
  "comes_before [] a b \<longleftrightarrow> snd a < snd b"
| "comes_before (k # ks) a b \<longleftrightarrow> col_less k a b \<or> \<not> col_less k b a \<and> comes_before ks a b"

lemma str_lt_irrefl: "\<not> str_lt s s"
  by (induction s) auto

lemma str_lt_trans: "str_lt s t \<Longrightarrow> str_lt t u \<Longrightarrow> str_lt s u"
proof (induction s t arbitrary: u rule: str_lt.induct)
  case (3 a s b t)
  then show ?case by (cases u) auto
qed (auto simp: neq_Nil_conv elim: str_lt.elims)

lemma str_lt_total: "s \<noteq> t \<Longrightarrow> str_lt s t \<or> str_lt t s"
  by (induction s t rule: str_lt.induct) (auto simp: neq_iff neq_Nil_conv)

lemma num_lt_trans: "num_lt a b \<Longrightarrow> num_lt b c \<Longrightarrow> num_lt a c"
  by (cases a; cases b; cases c) auto

lemma num_lt_irrefl: "\<not> num_lt a a"
  by (cases a) auto

lemma num_lt_total: "a \<noteq> NaN \<Longrightarrow> b \<noteq> NaN \<Longrightarrow> a \<noteq> b \<Longrightarrow> num_lt a b \<or> num_lt b a"
  by (cases a; cases b) auto

lemma val_lt_irrefl: "\<not> val_lt v v"
  by (cases v) (auto simp: str_lt_irrefl num_lt_irrefl)

lemma val_lt_trans:
  assumes "val_ok p u" "val_ok p v" "val_ok p w" "val_lt u v" "val_lt v w"
  shows "val_lt u w"
  using assms by (cases u; cases v; cases w) (auto simp: val_ok_def intro: str_lt_trans num_lt_trans)

lemma val_lt_total:
  assumes "val_ok p u" "val_ok p v" "u \<noteq> v"
  shows "val_lt u v \<or> val_lt v u"
  using assms by (cases u; cases v) (auto simp: val_ok_def dest: str_lt_total num_lt_total)

text \<open>A key belongs to a column with a parser of that type.\<close>

definition key_ok :: "ts_parser list \<Rightarrow> bool \<times> bool \<times> nat \<Rightarrow> bool" where
  "key_ok ps k \<longleftrightarrow> (case k of (isText, asc, c) \<Rightarrow> c < length ps \<and> isText = (\<not> numeric_parser (ps ! c)))"

lemma sort_keys_ok: "sort_keys (Some ps) sl = Some ks \<Longrightarrow> list_all (key_ok ps) ks"
  by (induction sl arbitrary: ks) (auto simp: key_ok_def split: if_splits)

lemma sort_keys_Some: "\<forall>(c, ord) \<in> set sl. c < length ps \<Longrightarrow>
    sort_keys (Some ps) sl = Some (map (\<lambda>(c, ord). (\<not> numeric_parser (ps ! c), ord = 0, c)) sl)"
  by (induction sl) auto

lemma made_function:
  assumes "key_ok ps (isText, asc, c)" "line_ok ps a" "line_ok ps b"
  shows "num_lt (makeSortFunction isText asc (fst a ! c) (fst b ! c)) (Fin 0) \<longleftrightarrow> col_less (isText, asc, c) a b"
    and "makeSortFunction isText asc (fst a ! c) (fst b ! c) \<in> {Fin 0, NaN} \<longleftrightarrow>
         \<not> col_less (isText, asc, c) a b \<and> \<not> col_less (isText, asc, c) b a"
proof -
  have "val_ok (ps ! c) (fst a ! c)" "val_ok (ps ! c) (fst b ! c)" "isText = (\<not> numeric_parser (ps ! c))"
    using assms by (auto simp: key_ok_def line_ok_def)
  then show "num_lt (makeSortFunction isText asc (fst a ! c) (fst b ! c)) (Fin 0) \<longleftrightarrow> col_less (isText, asc, c) a b"
    and "makeSortFunction isText asc (fst a ! c) (fst b ! c) \<in> {Fin 0, NaN} \<longleftrightarrow>
         \<not> col_less (isText, asc, c) a b \<and> \<not> col_less (isText, asc, c) b a"
    unfolding makeSortFunction_def col_less_def val_ok_def atomize_conj
    by (cases "fst a ! c"; cases "fst b ! c"; (cases "val_num (fst a ! c)"; cases "val_num (fst b ! c)")?)
       (auto simp: str_lt_irrefl dest: str_lt_total str_lt_trans)
qed

lemma sortWrapper_before:
  assumes "list_all (key_ok ps) ks" "line_ok ps a" "line_ok ps b"
  shows "num_lt (sortWrapper ks a b) (Fin 0) \<longleftrightarrow> comes_before ks a b"
  using assms(1)
proof (induction ks)
  case (Cons k ks)
  obtain isText asc c where k: "k = (isText, asc, c)"
    by (cases k)
  show ?case
    using Cons made_function [of ps isText asc c a b] assms(2,3) made_function(1) [of ps isText asc c b a]
    unfolding k by (auto simp: Let_def)
qed simp

lemma col_less_trans:
  assumes "key_ok ps k" "line_ok ps a" "line_ok ps b" "line_ok ps d" "col_less k a b" "col_less k b d"
  shows "col_less k a d"
proof -
  obtain isText asc c where k: "k = (isText, asc, c)"
    by (cases k)
  have v: "val_ok (ps ! c) (fst a ! c)" "val_ok (ps ! c) (fst b ! c)" "val_ok (ps ! c) (fst d ! c)"
    using assms(1-4) by (auto simp: key_ok_def line_ok_def k)
  show ?thesis
    using assms(5,6) val_lt_trans [OF v(1,2,3)] val_lt_trans [OF v(3,2,1)] by (cases asc) (simp_all add: k col_less_def)
qed

lemma col_same:
  assumes "key_ok ps (isText, asc, c)" "line_ok ps a" "line_ok ps b"
  shows "\<not> col_less (isText, asc, c) a b \<and> \<not> col_less (isText, asc, c) b a \<longleftrightarrow> fst a ! c = fst b ! c"
proof -
  have "val_ok (ps ! c) (fst a ! c)" "val_ok (ps ! c) (fst b ! c)"
    using assms by (auto simp: key_ok_def line_ok_def)
  then show ?thesis
    using val_lt_total val_lt_irrefl unfolding col_less_def by (cases asc) (simp, metis)+
qed

lemma col_less_irrefl [simp]: "\<not> col_less k a a"
  by (auto simp: col_less_def val_lt_irrefl split: prod.splits)

lemma col_less_cong:
  assumes "key_ok ps k" "line_ok ps a" "line_ok ps b" "\<not> col_less k a b" "\<not> col_less k b a"
  shows "col_less k a d = col_less k b d" "col_less k d a = col_less k d b"
proof -
  obtain isText asc c where k: "k = (isText, asc, c)"
    by (cases k)
  have "fst a ! c = fst b ! c"
    using col_same [of ps isText asc c a b] assms unfolding k by simp
  then show "col_less k a d = col_less k b d" "col_less k d a = col_less k d b"
    by (simp_all add: k col_less_def)
qed

lemma comes_before_trans:
  assumes "list_all (key_ok ps) ks" "line_ok ps a" "line_ok ps b" "line_ok ps d"
    "comes_before ks a b" "comes_before ks b d"
  shows "comes_before ks a d"
  using assms(1,5,6)
proof (induction ks)
  case (Cons k ks)
  then have key: "key_ok ps k"
    by simp
  have rest: "comes_before ks a b \<Longrightarrow> comes_before ks b d \<Longrightarrow> comes_before ks a d"
    using Cons by simp
  show ?case
  proof (cases "col_less k a b")
    case True
    then show ?thesis
      using Cons.prems(3) col_less_trans [OF key assms(2-4)] col_less_cong(2) [OF key assms(3,4), where d = a] by auto
  next
    case False
    then have ab: "\<not> col_less k b a" "comes_before ks a b"
      using Cons.prems(2) by auto
    show ?thesis
      using Cons.prems(3) rest [OF ab(2)] col_less_cong [OF key assms(2,3) False ab(1), where d = d] by auto
  qed
qed (use assms in auto)

lemma comes_before_asym:
  assumes "list_all (key_ok ps) ks" "line_ok ps a" "line_ok ps b" "comes_before ks a b"
  shows "\<not> comes_before ks b a"
  using assms(1,4)
proof (induction ks)
  case (Cons k ks)
  have "\<not> (col_less k a b \<and> col_less k b a)"
    using col_less_trans [of ps k a b a] Cons.prems assms(2,3) by auto
  then show ?case
    using Cons by auto
qed simp

lemma comes_before_total:
  "list_all (key_ok ps) ks \<Longrightarrow> snd a \<noteq> snd b \<Longrightarrow> comes_before ks a b \<or> comes_before ks b a"
  by (induction ks) auto

subsection \<open>Sorting an array\<close>

lemma mset_ins_by [simp]: "mset (ins_by f x xs) = add_mset x (mset xs)"
  by (induction xs) auto

lemma set_ins_by [simp]: "set (ins_by f x xs) = insert x (set xs)"
  by (induction xs) auto

lemma mset_sort_arr [simp]: "mset (sort_arr f xs) = mset xs"
  unfolding sort_arr_def by (induction xs) auto

lemma set_sort_arr [simp]: "set (sort_arr f xs) = set xs"
  by (metis mset_sort_arr set_mset_mset)

text \<open>\<open>f\<close> decides the strict order \<open>R\<close> on \<open>A\<close>.\<close>

definition decides :: "('a \<Rightarrow> 'a \<Rightarrow> jnum) \<Rightarrow> ('a \<Rightarrow> 'a \<Rightarrow> bool) \<Rightarrow> 'a set \<Rightarrow> bool" where
  "decides f R A \<longleftrightarrow> (\<forall>a\<in>A. \<forall>b\<in>A. (num_lt (f a b) (Fin 0) \<longleftrightarrow> R a b) \<and> (R a b \<longrightarrow> \<not> R b a) \<and> (a \<noteq> b \<longrightarrow> R a b \<or> R b a)) \<and>
     (\<forall>a\<in>A. \<forall>b\<in>A. \<forall>c\<in>A. R a b \<longrightarrow> R b c \<longrightarrow> R a c)"

lemma decidesD:
  assumes "decides f R A" "a \<in> A" "b \<in> A"
  shows "num_lt (f a b) (Fin 0) \<longleftrightarrow> R a b" "R a b \<Longrightarrow> \<not> R b a" "a \<noteq> b \<Longrightarrow> R a b \<or> R b a"
    "c \<in> A \<Longrightarrow> R a b \<Longrightarrow> R b c \<Longrightarrow> R a c"
  using assms unfolding decides_def by blast+

lemma sorted_ins_by:
  assumes "decides f R A" "x \<in> A" "set xs \<subseteq> A" "x \<notin> set xs" "sorted_wrt R xs"
  shows "sorted_wrt R (ins_by f x xs)"
  using assms(3-)
proof (induction xs)
  case (Cons y ys)
  then have y: "y \<in> A" "x \<noteq> y" and ys: "\<forall>z\<in>set ys. z \<in> A \<and> R y z"
    by auto
  show ?case
  proof (cases "R y x")
    case True
    then show ?thesis
      using Cons decidesD(1) [OF assms(1) y(1) assms(2)] by auto
  next
    case False
    then have "R x y"
      using decidesD(3) [OF assms(1,2) y(1)] y by auto
    then show ?thesis
      using False Cons.prems ys decidesD(1) [OF assms(1) y(1) assms(2)] decidesD(4) [OF assms(1,2) y(1)] by auto
  qed
qed simp

lemma sorted_sort_arr:
  assumes "decides f R (set xs)" "distinct xs"
  shows "sorted_wrt R (sort_arr f xs)"
proof -
  have "sorted_wrt R (foldr (ins_by f) ys []) \<and> set (foldr (ins_by f) ys []) = set ys"
    if "set ys \<subseteq> set xs" "distinct ys" for ys
    using that by (induction ys) (auto intro!: sorted_ins_by [OF assms(1)])
  then show ?thesis
    using assms(2) by (simp add: sort_arr_def)
qed

lemma sorted_unique:
  assumes "\<And>a b. a \<in> set xs \<Longrightarrow> b \<in> set xs \<Longrightarrow> R a b \<Longrightarrow> \<not> R b a"
  shows "sorted_wrt R xs \<Longrightarrow> sorted_wrt R ys \<Longrightarrow> mset xs = mset ys \<Longrightarrow> xs = ys"
  using assms
proof (induction xs arbitrary: ys)
  case (Cons x xs)
  obtain y zs where ys: "ys = y # zs"
    using Cons.prems(3) by (cases ys) auto
  have "x = y"
  proof (rule ccontr)
    assume "x \<noteq> y"
    then have "x \<in> set zs" "y \<in> set xs"
      using Cons.prems(3) ys by (metis insert_iff list.simps(15) set_mset_mset)+
    then show False
      using Cons.prems(1,2,4) ys by auto
  qed
  then show ?case
    using Cons ys by auto
qed simp

text \<open>The columns of a list, with the types their parsers give them.\<close>

definition columns_of :: "ts_parser list \<Rightarrow> (nat \<times> nat) list \<Rightarrow> (bool \<times> bool \<times> nat) list" where
  "columns_of ps sl = map (\<lambda>(c, ord). (\<not> numeric_parser (ps ! c), ord = 0, c)) sl"

lemma columns_key_ok: "\<forall>(c, ord) \<in> set sl. c < length ps \<Longrightarrow> list_all (key_ok ps) (columns_of ps sl)"
  by (auto simp: columns_of_def list_all_iff key_ok_def)

lemma wrapper_decides:
  assumes "list_all (key_ok ps) ks" "\<forall>l\<in>A. line_ok ps l" "inj_on snd A"
  shows "decides (sortWrapper ks) (comes_before ks) A"
proof -
  have "num_lt (sortWrapper ks a b) (Fin 0) \<longleftrightarrow> comes_before ks a b" "comes_before ks a b \<longrightarrow> \<not> comes_before ks b a"
    "a \<noteq> b \<longrightarrow> comes_before ks a b \<or> comes_before ks b a" if "a \<in> A" "b \<in> A" for a b
    using that assms sortWrapper_before comes_before_asym comes_before_total inj_onD [OF assms(3)] by metis+
  moreover have "comes_before ks a b \<longrightarrow> comes_before ks b d \<longrightarrow> comes_before ks a d" if "a \<in> A" "b \<in> A" "d \<in> A" for a b d
    using that assms comes_before_trans by metis
  ultimately show ?thesis
    unfolding decides_def by blast
qed

lemma sort_lines:
  assumes "list_all (key_ok ps) ks" "\<forall>l\<in>set n. line_ok ps l" "distinct (map snd n)"
  shows "sorted_wrt (comes_before ks) (sort_arr (sortWrapper ks) n)"
  using assms by (intro sorted_sort_arr wrapper_decides) (auto simp: distinct_map)

text \<open>Whatever the algorithm of the browser, it leaves the lines in this order.\<close>

lemma sort_lines_unique:
  assumes "list_all (key_ok ps) ks" "\<forall>l\<in>set n. line_ok ps l" "distinct (map snd n)"
    "mset m = mset n" "sorted_wrt (comes_before ks) m"
  shows "m = sort_arr (sortWrapper ks) n"
proof (rule sorted_unique [where R = "comes_before ks"])
  have "set m = set n"
    using assms(4) by (metis set_mset_mset)
  then show "\<And>a b. a \<in> set m \<Longrightarrow> b \<in> set m \<Longrightarrow> comes_before ks a b \<Longrightarrow> \<not> comes_before ks b a"
    using comes_before_asym [OF assms(1)] assms(2) by blast
qed (use assms sort_lines in auto)

subsection \<open>Rows are moved, not lost\<close>

lemma tp_on_tab [simp]:
  "tp_table (on_tab t f w) u = (if u = t then f (tp_table w t) else tp_table w u)"
  "tp_row (on_tab t f w) = tp_row w" "tp_arr (on_tab t f w) = tp_arr w" "tp_next (on_tab t f w) = tp_next w"
  "tp_headList (on_tab t f w) = tp_headList w" "tp_jobs (on_tab t f w) = tp_jobs w"
  by (simp_all add: on_tab_def)

text \<open>No row is twice in a body, and the groups of the cache are the rows of the body, a line for each.\<close>

definition in_sync :: "ts_table \<Rightarrow> bool" where
  "in_sync T \<longleftrightarrow> (\<forall>is. tt_body T = Some is \<longrightarrow> distinct is \<and>
     (tt_norm T \<noteq> [] \<longrightarrow> mset (concat (tt_rows T)) = mset is \<and> mset (map snd (tt_norm T)) = mset [0..<length (tt_rows T)]))"

definition rows_of :: "nat \<Rightarrow> ts_page \<Rightarrow> nat multiset option" where
  "rows_of t w = map_option mset (tt_body (tp_table w t))"

definition keeps_rows :: "ts_page \<Rightarrow> ts_page \<Rightarrow> bool" where
  "keeps_rows w v \<longleftrightarrow> ((\<forall>t. in_sync (tp_table w t)) \<longrightarrow> (\<forall>t. in_sync (tp_table v t) \<and> rows_of t v = rows_of t w))"

definition out_page :: "ts_out \<Rightarrow> ts_page" where
  "out_page r = (case r of Inl v \<Rightarrow> v | Inr v \<Rightarrow> v)"

lemma out_page_simps [simp]: "out_page (Inl v) = v" "out_page (Inr v) = v"
  by (simp_all add: out_page_def)

lemma keeps_refl [simp]: "keeps_rows w w"
  by (simp add: keeps_rows_def)

lemma keeps_trans: "keeps_rows u v \<Longrightarrow> keeps_rows v w \<Longrightarrow> keeps_rows u w"
  by (simp add: keeps_rows_def)

lemma keeps_same:
  assumes "\<And>t. tt_body (tp_table v t) = tt_body (tp_table w t)" "\<And>t. tt_rows (tp_table v t) = tt_rows (tp_table w t)"
    "\<And>t. map snd (tt_norm (tp_table v t)) = map snd (tt_norm (tp_table w t))"
  shows "keeps_rows w v"
proof -
  have "tt_norm (tp_table v t) = [] \<longleftrightarrow> tt_norm (tp_table w t) = []" for t
    using assms(3) [of t] by auto
  then show ?thesis
    unfolding keeps_rows_def in_sync_def rows_of_def using assms by simp
qed

lemma keeps_bind:
  assumes "keeps_rows w (out_page r)" "\<And>v. keeps_rows v (out_page (f v))"
  shows "keeps_rows w (out_page (bind_sum r f))"
  using assms by (cases r) (auto intro: keeps_trans)

lemma groups_of_lines:
  assumes "mset (map snd n) = mset [0..<length g]"
  shows "mset (concat (map (\<lambda>l. g ! snd l) n)) = mset (concat g)"
proof -
  have "mset (map ((!) g) (map snd n)) = mset (map ((!) g) [0..<length g])"
    using assms by (metis mset_map)
  then have "mset (map (\<lambda>l. g ! snd l) n) = mset g"
    by (simp add: map_nth comp_def)
  then show ?thesis
    by (metis mset_concat mset_map sum_mset_sum_list)
qed

lemma all_moved:
  assumes "in_sync T" "tt_norm T \<noteq> []" "tt_body T = Some is"
  shows "mset (concat (map (\<lambda>l. tt_rows T ! snd l) (tt_norm T))) = mset is"
    and "filter (\<lambda>i. i \<notin> set (concat (map (\<lambda>l. tt_rows T ! snd l) (tt_norm T)))) is = []"
proof -
  show "mset (concat (map (\<lambda>l. tt_rows T ! snd l) (tt_norm T))) = mset is"
    using assms groups_of_lines unfolding in_sync_def by metis
  then have "set (concat (map (\<lambda>l. tt_rows T ! snd l) (tt_norm T))) = set is"
    by (metis set_mset_mset)
  then show "filter (\<lambda>i. i \<notin> set (concat (map (\<lambda>l. tt_rows T ! snd l) (tt_norm T)))) is = []"
    by (simp add: filter_empty_conv)
qed

lemma keeps_tab: "(\<And>T. tt_body (f T) = tt_body T \<and> tt_rows (f T) = tt_rows T \<and> map snd (tt_norm (f T)) = map snd (tt_norm T)) \<Longrightarrow>
    keeps_rows w (on_tab t f w)"
  by (rule keeps_same) auto

lemma keeps_log [simp]: "keeps_rows w (log_event t e w)"
  by (simp add: log_event_def keeps_tab)

lemma keeps_head [simp]: "keeps_rows w (on_head t k f w)"
  by (simp add: on_head_def keeps_tab)

lemma keeps_fields [simp]:
  "keeps_rows w (w\<lparr>tp_row := a\<rparr>)" "keeps_rows w (w\<lparr>tp_arr := b\<rparr>)" "keeps_rows w (w\<lparr>tp_jobs := c\<rparr>)" "keeps_rows w (new_arr sl w)"
  by (rule keeps_same; simp add: new_arr_def)+

lemma keeps_mark_heads: "keeps_rows w (out_page (mark_heads t sl w))"
  by (induction t sl w rule: mark_heads.induct) (auto split: option.splits intro: keeps_trans [OF keeps_head])

lemma keeps_setHeadersCss: "keeps_rows w (out_page (setHeadersCss t sl w))"
  unfolding setHeadersCss_def by (rule keeps_trans [OF _ keeps_mark_heads]) (simp add: keeps_tab)

lemma keeps_updateHeaderSortCount: "keeps_rows w (out_page (updateHeaderSortCount sl w))"
  by (induction sl w rule: updateHeaderSortCount.induct) (auto split: prod.splits intro: keeps_trans [OF keeps_head])

lemma keeps_run_widget: "keeps_rows w (out_page (run_widget t n w))"
  by (simp add: run_widget_def split: option.split)

lemma keeps_widgets: "keeps_rows w (out_page (run_widgets t ns w))"
  by (induction ns arbitrary: w) (auto intro: keeps_bind keeps_run_widget)

lemma keeps_applyWidget: "keeps_rows w (out_page (applyWidget t w))"
  by (simp add: applyWidget_def keeps_widgets)

lemma keeps_multisort: "keeps_rows w (out_page (multisort t sl w))"
proof (cases "sort_keys (tt_parsers (tp_table w t)) sl")
  case (Some ks)
  let ?f = "\<lambda>T. T\<lparr>tt_norm := sort_arr (sortWrapper ks) (tt_norm T)\<rparr>"
  have "in_sync (?f T) \<longleftrightarrow> in_sync T" for T
  proof -
    have "mset (map snd (sort_arr (sortWrapper ks) (tt_norm T))) = mset (map snd (tt_norm T))"
      by (simp only: mset_map mset_sort_arr)
    moreover have "sort_arr (sortWrapper ks) (tt_norm T) = [] \<longleftrightarrow> tt_norm T = []"
      by (metis mset_sort_arr mset_zero_iff)
    ultimately show ?thesis
      by (simp add: in_sync_def)
  qed
  then show ?thesis
    by (simp add: multisort_def Some keeps_rows_def rows_of_def)
qed (simp add: multisort_def)

lemma keeps_append: "keeps_rows w (out_page (appendToTable t w))"
proof (cases "tt_norm (tp_table w t) = []")
  case False
  let ?T = "tp_table w t"
  let ?m = "concat (map (\<lambda>l. tt_rows ?T ! snd l) (tt_norm ?T))"
  let ?v = "on_tab t (\<lambda>T. T\<lparr>tt_body := map_option (\<lambda>is. filter (\<lambda>i. i \<notin> set ?m) is @ ?m) (tt_body T)\<rparr>) w"
  have "keeps_rows w ?v"
    unfolding keeps_rows_def
  proof (intro impI allI)
    fix u
    assume ok: "\<forall>t. in_sync (tp_table w t)"
    show "in_sync (tp_table ?v u) \<and> rows_of u ?v = rows_of u w"
    proof (cases "u = t \<and> tt_body ?T \<noteq> None")
      case True
      then obtain "is" where b: "tt_body ?T = Some is"
        by auto
      note moved = all_moved [OF ok [rule_format, of t] False b]
      have "distinct is"
        using ok b unfolding in_sync_def by blast
      then have "distinct ?m"
        using moved(1) by (metis mset_eq_imp_distinct_iff)
      then show ?thesis
        using True b ok False moved unfolding in_sync_def rows_of_def by (simp del: filter_concat) 
    qed (use ok in \<open>auto simp: in_sync_def rows_of_def\<close>)
  qed
  then show ?thesis
    using False unfolding appendToTable_def
    by (auto simp: Let_def intro!: keeps_bind intro: keeps_trans [OF _ keeps_applyWidget])
qed (simp add: appendToTable_def)

lemma keeps_show_sorted: "keeps_rows w (out_page (show_sorted t w))"
  unfolding show_sorted_def by (intro keeps_bind keeps_setHeadersCss keeps_multisort keeps_append)

lemma keeps_sorton: "keeps_rows w (out_page (sorton t a w))"
  unfolding sorton_def Let_def
  by (intro keeps_bind keeps_show_sorted keeps_trans [OF _ keeps_updateHeaderSortCount]
      keeps_trans [OF keeps_log keeps_tab]) simp

lemma cache_rows_groups:
  "cache_rows env opts ps rs g n u = (Some (g1, n1), u1) \<Longrightarrow> map snd n = [0..<length g] \<Longrightarrow>
   concat g1 = concat g @ map fst rs \<and> map snd n1 = [0..<length g1]"
proof (induction env opts ps rs g n u rule: cache_rows.induct)
  case (2 env opts ps i r rs g n u)
  have len: "length n = length g"
    using 2(4) by (metis length_map diff_zero length_upt)
  show ?case
  proof (cases "tr_child r")
    case True
    then have g: "g \<noteq> []"
      using 2(3) by (auto split: if_splits)
    then have "concat (butlast g @ [last g @ [i]]) = concat g @ [i]"
      by (metis append.assoc append_butlast_last_id concat.simps concat_append append_Nil2)
    then show ?thesis
      using 2(1) [OF True g] 2(3,4) True g by auto
  next
    case False
    obtain xs u2 where x: "format_cells env opts r (enumerate 0 ps) u = (Some xs, u2)"
      using 2(3) False by (cases "format_cells env opts r (enumerate 0 ps) u"; cases "fst (format_cells env opts r (enumerate 0 ps) u)") auto
    show ?thesis
      using 2(2) [OF False x [symmetric] refl] 2(3,4) False x len by auto
  qed
qed auto

lemma keeps_read_table: "keeps_rows w (out_page (read_table env t w))"
proof -
  obtain ps u where p: "buildParserCache (tt_opts (tp_table w t)) (body_rows t w) (tt_textok (tp_table w t)) = (ps, u)"
    by (cases "buildParserCache (tt_opts (tp_table w t)) (body_rows t w) (tt_textok (tp_table w t))")
  define w1 where "w1 = on_tab t (\<lambda>T. T\<lparr>tt_parsers := ps, tt_textok := u\<rparr>) w"
  obtain c u1 where c: "buildCache env t w1 = (c, u1)"
    by (cases "buildCache env t w1")
  define w2 where "w2 = on_tab t (\<lambda>T. T\<lparr>tt_textok := u1\<rparr>) w1"
  have w2: "keeps_rows w w2"
    unfolding w2_def w1_def by (rule keeps_trans [OF keeps_tab keeps_tab]) simp_all
  show ?thesis
  proof (cases c)
    case None
    then show ?thesis
      using w2 by (simp add: read_table_def p c w1_def [symmetric] w2_def [symmetric])
  next
    case (Some gn)
    obtain g n where gn: "gn = (g, n)"
      by (cases gn)
    have "keeps_rows w2 (on_tab t (\<lambda>T. T\<lparr>tt_rows := g, tt_norm := n\<rparr>) w2)"
    proof -
      have "concat g = is \<and> map snd n = [0..<length g]" if "tt_body (tp_table w2 t) = Some is" for "is"
        using cache_rows_groups [of env _ _ _ "[]" "[]" _ g n u1] c that
        by (auto simp: buildCache_def Some gn w2_def comp_def Let_def)
      moreover have "image_mset snd (mset n) = mset_set {0..<length g}" if "map snd n = [0..<length g]"
        using arg_cong [OF that, of mset] by simp
      ultimately show ?thesis
        unfolding keeps_rows_def rows_of_def by (auto simp: in_sync_def)
    qed
    then show ?thesis
      using w2 by (auto simp: read_table_def p c w1_def [symmetric] w2_def [symmetric] Some gn intro: keeps_trans)
  qed
qed

lemma keeps_reverse: "reverse_column i sl w = Some (xs, v) \<Longrightarrow> keeps_rows w v"
  by (induction i sl w arbitrary: xs v rule: reverse_column.induct)
     (auto split: if_splits prod.splits intro: keeps_trans [OF keeps_head])

lemma keeps_choose: "keeps_rows w (out_page (choose_column t shift i ord w))"
proof -
  have "keeps_rows w (new_arr [(i, ord)] (on_tab t (\<lambda>T. T\<lparr>tt_list := tp_next w\<rparr>) w))"
    by (rule keeps_trans [OF keeps_tab keeps_fields(4)]) simp
  moreover have "keeps_rows w (v\<lparr>tp_arr := a\<rparr>)" if "reverse_column i sl w = Some (xs, v)" for sl xs v a
    by (rule keeps_trans [OF keeps_reverse [OF that] keeps_fields(2)])
  ultimately show ?thesis
    unfolding choose_column_def by (simp split: option.split prod.split)
qed

lemma keeps_click: "keeps_rows w (out_page (head_click t k shift w))"
  unfolding head_click_def Let_def
  by (auto intro!: keeps_bind intro: keeps_trans [OF keeps_trans [OF keeps_log keeps_head] keeps_choose])

lemma keeps_updateCell: "keeps_rows w (out_page (updateCell env t i c w))"
proof -
  have "map snd (xs[k := (v, snd (xs ! k))]) = map snd xs" for xs :: "ts_line list" and k v
    by (metis list_update_id map_update snd_conv)
  then show ?thesis
    unfolding updateCell_def Let_def
    by (auto split: option.splits prod.splits intro!: keeps_trans [OF keeps_tab keeps_tab] keeps_tab)
qed

lemma keeps_buildHeaders: "keeps_rows w (buildHeaders hs t w)"
  by (rule keeps_same) (auto simp: buildHeaders_def Let_def)

lemma keeps_make_table: "keeps_rows w (out_page (make_table env opts a t w))"
proof (cases "tt_thead (tp_table w t)")
  case (Some rows)
  have "keeps_rows w (out_page (read_table env t (buildHeaders rows t
      (on_tab t (\<lambda>T. T\<lparr>tt_opts := opts, tt_list := a, tt_textok := False\<rparr>) w))))"
    by (rule keeps_trans [OF keeps_trans [OF keeps_tab keeps_buildHeaders] keeps_read_table]) simp
  moreover have "keeps_rows v (out_page (sorton t a (on_tab t (tt_live_update (\<lambda>_. True)) v)))"
    "keeps_rows v (on_tab t (tt_live_update (\<lambda>_. True)) v)" for v
    by (rule keeps_trans [OF keeps_tab keeps_sorton]; simp) (rule keeps_tab; simp)
  ultimately show ?thesis
    unfolding make_table_def Let_def Some by (auto intro!: keeps_bind keeps_applyWidget)
qed (simp add: make_table_def)

lemma keeps_make_tables: "keeps_rows w (out_page (make_tables env opts a ts w))"
  by (induction ts arbitrary: w) (auto intro: keeps_bind keeps_make_table)

lemma keeps_job: "keeps_rows w (out_page (run_job env j w))"
  by (cases j) (simp_all add: keeps_show_sorted keeps_read_table)

lemma keeps_step:
  assumes "\<forall>t is. e \<noteq> SetBody t is"
  shows "keeps_rows w (ts_step env w e)"
proof -
  have "keeps_rows w (out_page (ts_event env e w))"
    using assms
    by (cases e) (auto simp: listens_def tablesorter_def keeps_click keeps_updateCell keeps_append keeps_run_widget keeps_applyWidget
        split: option.splits intro: keeps_trans [OF _ keeps_make_tables] keeps_trans [OF _ keeps_sorton]
        keeps_trans [OF _ keeps_job])
  then show ?thesis
    by (simp add: ts_step_def out_page_def)
qed

lemma keeps_run:
  assumes "\<forall>e\<in>set es. \<forall>t is. e \<noteq> SetBody t is"
  shows "keeps_rows w (foldl (ts_step env) w es)"
  using assms by (induction es arbitrary: w) (auto intro: keeps_trans [OF keeps_step])

subsection \<open>What a table shows after it was sorted\<close>

text \<open>A step that writes into heads only.\<close>

definition heads_only :: "ts_page \<Rightarrow> ts_page \<Rightarrow> bool" where
  "heads_only w v \<longleftrightarrow> tp_headList v = tp_headList w \<and> tp_arr v = tp_arr w \<and>
     (\<forall>u. (tp_table v u)\<lparr>tt_heads := []\<rparr> = (tp_table w u)\<lparr>tt_heads := []\<rparr> \<and>
          map (\<lambda>h. (h_disabled h, h_column h)) (tt_heads (tp_table v u)) =
          map (\<lambda>h. (h_disabled h, h_column h)) (tt_heads (tp_table w u)))"

lemma heads_only_refl: "heads_only w w"
  by (simp add: heads_only_def)

lemma heads_only_trans: "heads_only u v \<Longrightarrow> heads_only v w \<Longrightarrow> heads_only u w"
  by (simp add: heads_only_def)

lemma heads_only_head: "(\<And>h. h_disabled (f h) = h_disabled h \<and> h_column (f h) = h_column h) \<Longrightarrow> heads_only w (on_head t k f w)"
  by (cases "k < length (tt_heads (tp_table w t))") (auto simp: heads_only_def on_head_def map_update list_update_beyond
      list_update_same_conv)

lemma heads_only_fields:
  assumes "heads_only w v"
  shows "tt_parsers (tp_table v u) = tt_parsers (tp_table w u)" "tt_norm (tp_table v u) = tt_norm (tp_table w u)"
    "tt_rows (tp_table v u) = tt_rows (tp_table w u)" "tt_body (tp_table v u) = tt_body (tp_table w u)"
    "tt_opts (tp_table v u) = tt_opts (tp_table w u)" "tt_list (tp_table v u) = tt_list (tp_table w u)"
    "tp_headList v = tp_headList w" "sort_list u v = sort_list u w"
proof -
  have eq: "(tp_table v u)\<lparr>tt_heads := []\<rparr> = (tp_table w u)\<lparr>tt_heads := []\<rparr>"
    using assms by (simp add: heads_only_def)
  show "tt_parsers (tp_table v u) = tt_parsers (tp_table w u)" "tt_norm (tp_table v u) = tt_norm (tp_table w u)"
    "tt_rows (tp_table v u) = tt_rows (tp_table w u)" "tt_body (tp_table v u) = tt_body (tp_table w u)"
    "tt_opts (tp_table v u) = tt_opts (tp_table w u)" "tt_list (tp_table v u) = tt_list (tp_table w u)"
    using arg_cong [OF eq, of tt_parsers] arg_cong [OF eq, of tt_norm] arg_cong [OF eq, of tt_rows]
      arg_cong [OF eq, of tt_body] arg_cong [OF eq, of tt_opts] arg_cong [OF eq, of tt_list] by simp_all
  then show "tp_headList v = tp_headList w" "sort_list u v = sort_list u w"
    using assms by (simp_all add: heads_only_def sort_list_def)
qed

lemma head_of_column_cong:
  assumes "map (\<lambda>h. (h_disabled h, h_column h)) hs = map (\<lambda>h. (h_disabled h, h_column h)) ks"
  shows "head_of_column hs c = head_of_column ks c"
proof -
  have len: "length hs = length ks"
    using map_eq_imp_length_eq [OF assms] .
  have "h_disabled (hs ! k) = h_disabled (ks ! k) \<and> h_column (hs ! k) = h_column (ks ! k)" if "k < length hs" for k
    using arg_cong [OF assms, of "\<lambda>xs. xs ! k"] that len by simp
  then show ?thesis
    unfolding head_of_column_def len by (intro find_cong) (auto simp: len)
qed

lemma heads_only_column: "heads_only w v \<Longrightarrow> head_of_column (tt_heads (tp_table v u)) c = head_of_column (tt_heads (tp_table w u)) c"
  by (rule head_of_column_cong) (simp add: heads_only_def)

lemma counts_updated: "\<forall>(c, ord) \<in> set sl. c < length (tp_headList w) \<Longrightarrow>
    \<exists>v. updateHeaderSortCount sl w = Inr v \<and> heads_only w v"
proof (induction sl arbitrary: w)
  case (Cons p sl)
  obtain c ord where p: "p = (c, ord)"
    by (cases p)
  obtain t k where h: "tp_headList w ! c = (t, k)"
    by (cases "tp_headList w ! c")
  define x where "x = on_head t k (\<lambda>h. h\<lparr>h_count := ord + 1\<rparr>) w"
  have ho: "heads_only w x"
    unfolding x_def by (rule heads_only_head) simp
  obtain v where "updateHeaderSortCount sl x = Inr v" "heads_only x v"
    using Cons.IH [of x] Cons.prems by (auto simp: heads_only_fields(7) [OF ho])
  moreover have "updateHeaderSortCount (p # sl) w = updateHeaderSortCount sl x"
    using Cons.prems h by (simp add: p x_def)
  ultimately show ?case
    using ho by (auto intro: heads_only_trans)
qed (simp add: heads_only_refl)

lemma heads_marked: "\<forall>(c, ord) \<in> set sl. head_of_column (tt_heads (tp_table w t)) c \<noteq> None \<Longrightarrow>
    \<exists>v. mark_heads t sl w = Inr v \<and> heads_only w v"
proof (induction sl arbitrary: w)
  case (Cons p sl)
  obtain c ord where p: "p = (c, ord)"
    by (cases p)
  obtain k where k: "head_of_column (tt_heads (tp_table w t)) c = Some k"
    using Cons.prems p by auto
  define v where "v = (if ord < 2 then on_head t k (\<lambda>h. h\<lparr>h_css := add_css (sortCSS ! ord) (h_css h)\<rparr>) w else w)"
  have ho: "heads_only w v"
    unfolding v_def by (auto intro: heads_only_head heads_only_refl)
  then obtain x where "mark_heads t sl v = Inr x" "heads_only v x"
    using Cons.IH [of v] Cons.prems by (auto simp: heads_only_column [OF ho])
  then show ?case
    using ho by (auto simp: p k v_def [symmetric] intro: heads_only_trans)
qed (simp add: heads_only_refl)

lemma headers_set:
  assumes "\<forall>(c, ord) \<in> set sl. head_of_column (tt_heads (tp_table w t)) c \<noteq> None"
  shows "\<exists>v. setHeadersCss t sl w = Inr v \<and> heads_only w v"
proof -
  define x where "x = on_tab t (\<lambda>T. T\<lparr>tt_heads := map (\<lambda>h. h\<lparr>h_css := remove_css (sortCSS ! 1) (remove_css (sortCSS ! 0) (h_css h))\<rparr>) (tt_heads T)\<rparr>) w"
  have ho: "heads_only w x"
    by (simp add: heads_only_def comp_def x_def)
  obtain v where "mark_heads t sl x = Inr v" "heads_only x v"
    using heads_marked [of sl x t] assms unfolding heads_only_column [OF ho] by blast
  then show ?thesis
    using ho unfolding setHeadersCss_def x_def [symmetric] by (auto intro: heads_only_trans)
qed

lemma widgets_done:
  assumes "\<forall>n\<in>set ns. getWidgetById n \<noteq> None"
  shows "\<exists>v. run_widgets t ns w = Inr v \<and> tp_table v = tp_table w"
  using assms
proof (induction ns arbitrary: w)
  case (Cons n ns)
  then obtain z where z: "getWidgetById n = Some z"
    by auto
  let ?w = "w\<lparr>tp_row := zebra (case tt_body (tp_table w t) of Some is \<Rightarrow> is | None \<Rightarrow> []) (-1) (tp_row w)\<rparr>"
  obtain v where "run_widgets t ns ?w = Inr v" "tp_table v = tp_table ?w"
    using Cons.IH [of ?w] Cons.prems by auto
  then show ?case
    by (simp add: run_widget_def z)
qed simp

lemma shown_sorted:
  assumes T: "T = tp_table w t" "in_sync T" "tt_norm T \<noteq> []" "tt_body T \<noteq> None"
    and ps: "tt_parsers T = Some ps" "\<forall>l\<in>set (tt_norm T). line_ok ps l"
    and sl: "\<forall>(c, ord) \<in> set (sort_list t w). c < length ps \<and> head_of_column (tt_heads T) c \<noteq> None"
    and wd: "\<forall>n\<in>set (op_widgets (tt_opts T)). getWidgetById n \<noteq> None"
  shows "\<exists>v n. show_sorted t w = Inr v \<and> mset n = mset (tt_norm T) \<and>
    sorted_wrt (comes_before (columns_of ps (sort_list t w))) n \<and>
    tt_body (tp_table v t) = Some (concat (map (\<lambda>l. tt_rows T ! snd l) n))"
proof -
  let ?sl = "sort_list t w"
  obtain "is" where b: "tt_body T = Some is"
    using T(4) by auto
  obtain w1 where w1: "setHeadersCss t ?sl w = Inr w1" and ho: "heads_only w w1"
    using headers_set [of ?sl w t] sl T(1) by fastforce
  note same = heads_only_fields(1-6,8) [OF ho, of t, folded T(1)]
  define n where "n = sort_arr (sortWrapper (columns_of ps ?sl)) (tt_norm T)"
  define w2 where "w2 = on_tab t (\<lambda>T. T\<lparr>tt_norm := n\<rparr>) w1"
  have keys: "sort_keys (Some ps) ?sl = Some (columns_of ps ?sl)" "list_all (key_ok ps) (columns_of ps ?sl)"
    using sl sort_keys_Some [of ?sl ps] columns_key_ok [of ?sl ps] unfolding columns_of_def by fastforce+
  have ms: "multisort t ?sl w1 = Inr w2"
    using T(3) by (simp add: multisort_def same keys ps(1) w2_def n_def on_tab_def)
  have n: "mset n = mset (tt_norm T)" "n \<noteq> []" "mset (map snd n) = mset (map snd (tt_norm T))"
    using T(3) by (auto simp: n_def mset_eq_setD simp del: mset_map) (metis mset_sort_arr mset_zero_iff, metis mset_map mset_sort_arr)
  have lines: "mset (map snd (tt_norm T)) = mset [0..<length (tt_rows T)]"
    using T(2,3) b by (auto simp: in_sync_def)
  then have "distinct (map snd (tt_norm T))"
    by (metis distinct_upt mset_eq_imp_distinct_iff)
  then have sorted: "sorted_wrt (comes_before (columns_of ps ?sl)) n"
    unfolding n_def by (rule sort_lines [OF keys(2) ps(2)])
  have T2: "tt_norm (tp_table w2 t) = n" "tt_rows (tp_table w2 t) = tt_rows T" "tt_body (tp_table w2 t) = Some is"
    "op_widgets (tt_opts (tp_table w2 t)) = op_widgets (tt_opts T)"
    by (simp_all add: w2_def same b)
  have sync: "in_sync (tp_table w2 t)"
    using T(2,3) b n lines by (simp add: in_sync_def T2 del: mset_map)
  define m where "m = concat (map (\<lambda>l. tt_rows T ! snd l) n)"
  note moved = all_moved [OF sync _ T2(3), unfolded T2, OF n(2), folded m_def]
  define w3 where "w3 = on_tab t (\<lambda>T. T\<lparr>tt_body := map_option (\<lambda>is. filter (\<lambda>i. i \<notin> set m) is @ m) (tt_body T)\<rparr>) w2"
  have w3: "tt_body (tp_table w3 t) = Some m" "op_widgets (tt_opts (tp_table w3 t)) = op_widgets (tt_opts T)"
    using moved by (simp_all add: w3_def T2)
  obtain w4 where w4: "applyWidget t w3 = Inr w4" "tp_table w4 = tp_table w3"
    using widgets_done [OF wd, of t w3] by (auto simp: applyWidget_def w3)
  have "appendToTable t w2 = Inr (w4\<lparr>tp_jobs := tp_jobs w4 @ [JEnd t]\<rparr>)"
    using n(2) w4(1) by (simp add: appendToTable_def T2 m_def [symmetric] w3_def [symmetric])
  then have "show_sorted t w = Inr (w4\<lparr>tp_jobs := tp_jobs w4 @ [JEnd t]\<rparr>)"
    by (simp add: show_sorted_def w1 same(7) ms)
  then show ?thesis
    using n(1) sorted w3(1) w4(2) by (auto simp: m_def)
qed

subsection \<open>Addresses are taken for numbers\<close>

primrec rx_over :: "(char \<Rightarrow> bool) \<Rightarrow> rx \<Rightarrow> bool" where
  "rx_over P RNone \<longleftrightarrow> True"
| "rx_over P REps \<longleftrightarrow> True"
| "rx_over P (RSet p) \<longleftrightarrow> (\<forall>c. p c \<longrightarrow> P c)"
| "rx_over P (RSeq a b) \<longleftrightarrow> rx_over P a \<and> rx_over P b"
| "rx_over P (RAlt a b) \<longleftrightarrow> rx_over P a \<and> rx_over P b"
| "rx_over P (RStar a) \<longleftrightarrow> rx_over P a"

lemma lang_over: "rx_over P r \<Longrightarrow> s \<in> lang r \<Longrightarrow> list_all P s"
  by (induction r arbitrary: s) (auto simp: list_all_iff, blast+)

lemma over_parts:
  "rx_over P r \<Longrightarrow> rx_over P (rpow n r)" "rx_over P r \<Longrightarrow> rx_over P (rupto n r)"
  by (induction n) auto

lemma address_chars: "rx_test ip_rx s \<Longrightarrow> list_all (\<lambda>c. is_digit c \<or> c = CHR ''.'') s"
proof -
  have "rx_over (\<lambda>c. is_digit c \<or> c = CHR ''.'') ip_rx"
    by (simp add: ip_rx_def rdig_def rchr_def rrange_def over_parts)
  then show "rx_test ip_rx s \<Longrightarrow> list_all (\<lambda>c. is_digit c \<or> c = CHR ''.'') s"
    unfolding rx_test_lang by (rule lang_over)
qed

lemma strip_left_digits:
  assumes "list_all is_digit s" "\<forall>w\<in>set ws. \<forall>c t. w = c # t \<longrightarrow> \<not> is_digit c"
  shows "strip_left ws s = s"
proof (cases s)
  case (Cons c t)
  have "find (\<lambda>w. w \<noteq> [] \<and> take (length w) (c # t) = w) ws = None"
    using assms unfolding Cons find_None_iff by (auto simp: neq_Nil_conv)
  then show ?thesis
    using assms(1) by (simp add: Cons is_digit_not_space)
qed simp

lemma jq_trim_digits: "list_all is_digit s \<Longrightarrow> jq_trim s = s"
proof -
  assume s: "list_all is_digit s"
  have "\<forall>w\<in>set wide_spaces. \<forall>c t. w = c # t \<longrightarrow> \<not> is_digit c"
    "\<forall>w\<in>set (map rev wide_spaces). \<forall>c t. w = c # t \<longrightarrow> \<not> is_digit c"
    by (auto simp: wide_spaces_def is_digit_def)
  with s show ?thesis
    by (simp add: jq_trim_def strip_left_digits)
qed

lemma address_is_digits: "rx_test ip_rx s \<Longrightarrow> ts_isDigit s"
proof -
  assume "rx_test ip_rx s"
  then have "list_all is_digit (drop_chars [CHR '','', CHR ''.'', char_of (39 :: nat)] s)"
    using address_chars [of s] by (auto simp: drop_chars_def list_all_iff)
  then have "list_all is_digit (jq_trim (drop_chars [CHR '','', CHR ''.'', char_of (39 :: nat)] s))"
    by (simp add: jq_trim_digits)
  then have "jq_trim (drop_chars [CHR '','', CHR ''.'', char_of (39 :: nat)] s) \<in> lang (RStar rdig)"
    unfolding rdig_def lang_star_set .
  then show ?thesis
    unfolding ts_isDigit_def digit_rx_def rx_test_lang ropt_def by (auto simp del: lang.simps(6))
qed

lemma parser_of_cases: "parser_of v = (if ts_isDigit v then PDigit else if parser_is PCurrency v then PCurrency
     else if parser_is PUrl v then PUrl else if parser_is PIsoDate v then PIsoDate
     else if parser_is PPercent v then PPercent else if parser_is PUsLongDate v then PUsLongDate
     else if parser_is PShortDate v then PShortDate else if parser_is PTime v then PTime else PText)"
  using address_is_digits [of v] by (auto simp: parser_of_def all_parsers_def)

lemma span_digits:
  "list_all is_digit a \<Longrightarrow> \<not> is_digit c \<Longrightarrow> takeWhile is_digit (a @ c # s) = a \<and> dropWhile is_digit (a @ c # s) = c # s"
  by (induction a) auto

lemma two_parts_read:
  assumes "list_all is_digit a" "list_all is_digit b" "a \<noteq> []"
  shows "parseFloat (a @ ''.'' @ b @ ''.'' @ r) = Fin (scale10 (of_nat (dec_val (a @ b))) (- int (length b)))"
proof -
  obtain c t where a: "a = c # t" "is_digit c"
    using assms(1,3) by (cases a) auto
  have c: "\<not> is_space c" "c \<noteq> CHR ''-''" "c \<noteq> CHR ''+''" "c \<noteq> CHR ''I''" "\<not> is_digit (CHR ''.'')"
    using a(2) is_digit_not_space by (auto simp: is_digit_def)
  have "take_decimal (a @ ''.'' @ b @ ''.'' @ r) = Some (scale10 (of_nat (dec_val (a @ b))) (- int (length b)), CHR ''.'' # r)"
    using span_digits [OF assms(1) c(5), of "b @ ''.'' @ r"] span_digits [OF assms(2) c(5), of r] assms(3)
    by (simp add: take_decimal_def take_exp_def)
  then show ?thesis
    using c by (simp add: parseFloat_def a(1))
qed

text \<open>
  The parser for addresses is never found: whatever the cells of a column hold, \<open>detectParserForColumn\<close> does not
  answer \<open>ipAddress\<close>, since what its expression matches is a number without its points, and numbers are asked for
  first.  So addresses are compared by their first two parts only: those that agree there have the same value.
\<close>

theorem addresses_are_numbers:
  "fst (detectParserForColumn opts rows i u) \<noteq> PIpAddress \<and>
   (rx_test ip_rx s \<longrightarrow> parser_of s = PDigit) \<and>
   (list_all is_digit a \<and> list_all is_digit b \<and> a \<noteq> [] \<longrightarrow>
    parser_format env fmt PDigit (a @ ''.'' @ b @ ''.'' @ r) = parser_format env fmt PDigit (a @ ''.'' @ b @ ''.'' @ q))"
  using address_is_digits [of s]
  by (simp_all add: detectParserForColumn_def parser_of_cases formatFloat_def two_parts_read [simplified] split: prod.split)

text \<open>Such as two machines of a network\<close>

theorem addresses_are_numbers_witness:
  "parser_of ''192.168.100.19'' = PDigit \<and>
   (\<forall>env fmt. parser_format env fmt PDigit ''192.168.100.19'' = parser_format env fmt PDigit ''192.168.200.11'')"
proof -
  have "rx_test ip_rx ''192.168.100.19''"
    by code_simp
  moreover have "list_all is_digit ''192'' \<and> list_all is_digit ''168'' \<and> ''192'' \<noteq> ([] :: string)"
    by code_simp
  ultimately show ?thesis
    using addresses_are_numbers [of ts_defaults "[]" 0 False "''192.168.100.19''" "''192''" "''168''" _ _ "''100.19''" "''200.11''"]
    by simp
qed

subsection \<open>What the events do to a table\<close>

lemma sorted_on:
  assumes T: "T = tp_table w t" "in_sync T" "tt_norm T \<noteq> []" "tt_body T \<noteq> None"
    and ps: "tt_parsers T = Some ps" "\<forall>l\<in>set (tt_norm T). line_ok ps l"
    and sl: "\<forall>(c, ord) \<in> set sl. c < length ps \<and> c < length (tp_headList w) \<and> head_of_column (tt_heads T) c \<noteq> None"
    and wd: "\<forall>n\<in>set (op_widgets (tt_opts T)). getWidgetById n \<noteq> None"
    and a: "tp_arr w a = sl"
  shows "\<exists>v n. sorton t a w = Inr v \<and> mset n = mset (tt_norm T) \<and> sorted_wrt (comes_before (columns_of ps sl)) n \<and>
    tt_body (tp_table v t) = Some (concat (map (\<lambda>l. tt_rows T ! snd l) n))"
proof -
  define w1 where "w1 = on_tab t (\<lambda>T. T\<lparr>tt_list := a\<rparr>) (log_event t ''sortStart'' w)"
  have w1: "tp_headList w1 = tp_headList w" "sort_list t w1 = sl" "tt_heads (tp_table w1 t) = tt_heads T"
    "tt_body (tp_table w1 t) = tt_body T" "tt_norm (tp_table w1 t) = tt_norm T" "tt_rows (tp_table w1 t) = tt_rows T"
    "tt_parsers (tp_table w1 t) = tt_parsers T" "tt_opts (tp_table w1 t) = tt_opts T"
    by (simp_all add: w1_def log_event_def sort_list_def a T(1))
  have "\<forall>(c, ord) \<in> set sl. c < length (tp_headList w1)"
    using sl by (auto simp: w1)
  then obtain v where v: "updateHeaderSortCount sl w1 = Inr v" "heads_only w1 v"
    using counts_updated by blast
  note same = heads_only_fields(1-5) [OF v(2), of t, unfolded w1] heads_only_fields(8) [OF v(2), of t, unfolded w1]
  have col: "head_of_column (tt_heads (tp_table v t)) c = head_of_column (tt_heads T) c" for c
    using heads_only_column [OF v(2), of t] by (simp add: w1)
  have "\<exists>x n. show_sorted t v = Inr x \<and> mset n = mset (tt_norm (tp_table v t)) \<and>
      sorted_wrt (comes_before (columns_of ps (sort_list t v))) n \<and>
      tt_body (tp_table x t) = Some (concat (map (\<lambda>l. tt_rows (tp_table v t) ! snd l) n))"
  proof (rule shown_sorted [OF refl])
    show "in_sync (tp_table v t)"
      using T(2) by (simp add: in_sync_def same)
    show "\<forall>(c, ord) \<in> set (sort_list t v). c < length ps \<and> head_of_column (tt_heads (tp_table v t)) c \<noteq> None"
      using sl unfolding same col by blast
  qed (use T ps wd in \<open>simp_all add: same\<close>)
  then show ?thesis
    by (simp add: sorton_def Let_def w1_def [symmetric] w1 v(1) same)
qed

text \<open>
  C40. Sorting a table: when a table has its cache and a list names columns that have a parser and a head that is not disabled,
  \<open>sorton\<close> ends without an exception, and the body then holds the groups of rows (a row with its child rows) in the order
  of the list: by the first of its columns that tells two rows apart, in the direction asked for, texts as texts and
  everything else as numbers, and rows that no column tells apart as they were.
\<close>

theorem sorting_orders_rows:
  assumes "T = tp_table w t" "tt_live T" "in_sync T" "tt_norm T \<noteq> []" "tt_body T \<noteq> None"
    and "tt_parsers T = Some ps" "\<forall>l\<in>set (tt_norm T). line_ok ps l"
    and "\<forall>(c, ord) \<in> set sl. c < length ps \<and> c < length (tp_headList w) \<and> head_of_column (tt_heads T) c \<noteq> None"
    and "\<forall>n\<in>set (op_widgets (tt_opts T)). getWidgetById n \<noteq> None"
  shows "\<exists>v n. ts_event env (SortOn t sl) w = Inr v \<and> mset n = mset (tt_norm T) \<and>
    sorted_wrt (comes_before (columns_of ps sl)) n \<and>
    tt_body (tp_table v t) = Some (concat (map (\<lambda>l. tt_rows T ! snd l) n))"
  using sorted_on [of T "new_arr sl w" t ps sl "tp_next w"] assms
  by (simp add: listens_def new_arr_def)

text \<open>Pages and their visits, sorted by the visits from the most to the fewest\<close>

definition visits_table :: ts_table where
  "visits_table = \<lparr>tt_thead = None, tt_body = Some [10, 20, 30], tt_heads = [make_head ts_defaults 0 0, make_head ts_defaults 1 1],
     tt_opts = ts_defaults, tt_parsers = Some [PText, PDigit], tt_textok = True, tt_list = 0, tt_rows = [[10], [20], [30]],
     tt_norm = [([TText ''b'', TNum (Fin 7)], 0), ([TText ''c'', TNum (Fin 12)], 1), ([TText ''a'', TNum (Fin 7)], 2)],
     tt_live = True, tt_log = []\<rparr>"

definition visits_page :: ts_page where
  "visits_page = \<lparr>tp_table = (\<lambda>_. visits_table), tp_row = (\<lambda>_. \<lparr>tr_child = False, tr_visible = True, tr_css = [], tr_cells = []\<rparr>),
     tp_arr = (\<lambda>_. []), tp_next = 1, tp_headList = [(0, 0), (0, 1)], tp_jobs = []\<rparr>"

lemma visits_ready:
  "in_sync visits_table" "\<forall>l\<in>set (tt_norm visits_table). line_ok [PText, PDigit] l"
  "head_of_column (tt_heads visits_table) 1 = Some 1"
  by (simp_all add: visits_table_def in_sync_def line_ok_def val_ok_def numeric_parser_def All_less_Suc nth_Cons' upt_rec
      make_head_def head_of_column_def checkHeaderOptions_def ts_defaults_def Let_def)

lemma sorting_orders_rows_witness:
  "\<exists>v n. ts_event \<lparr>lower = js_lower, parse_date = (\<lambda>_. NaN)\<rparr> (SortOn 0 [(1, 1)]) visits_page = Inr v \<and>
     mset n = mset (tt_norm visits_table) \<and> sorted_wrt (comes_before [(False, False, 1)]) n \<and>
     tt_body (tp_table v 0) = Some (concat (map (\<lambda>l. tt_rows visits_table ! snd l) n))"
proof -
  have "columns_of [PText, PDigit] [(1, 1)] = [(False, False, 1)]"
    by (simp add: columns_of_def numeric_parser_def)
  moreover have "visits_table = tp_table visits_page 0" "tt_live visits_table" "tt_norm visits_table \<noteq> []" "tt_body visits_table \<noteq> None"
      "tt_parsers visits_table = Some [PText, PDigit]" "tp_headList visits_page = [(0, 0), (0, 1)]" "op_widgets (tt_opts visits_table) = []"
    by (simp_all add: visits_page_def visits_table_def ts_defaults_def)
  ultimately show ?thesis
    using sorting_orders_rows [of visits_table visits_page 0 "[PText, PDigit]" "[(1, 1)]"] visits_ready by simp
qed

text \<open>
  No row is lost and none comes twice: whatever tables are made, heads clicked, events sent and timers run in whatever
  order, and whatever exception ends one of them, the body of every table holds the same rows as long as the page itself
  takes none out and puts none in.
\<close>

theorem sorting_keeps_rows:
  assumes "\<forall>t. in_sync (tp_table w t)" and "\<forall>e\<in>set es. \<forall>t is. e \<noteq> SetBody t is"
  shows "map_option mset (tt_body (tp_table (foldl (ts_step env) w es) t)) = map_option mset (tt_body (tp_table w t))"
  using keeps_run [OF assms(2), of w env] assms(1) by (simp add: keeps_rows_def rows_of_def)

lemma marked_only_heads: "(\<exists>v. mark_heads t sl w = Inr v) \<longrightarrow> (\<forall>(c, ord) \<in> set sl. c \<in> h_column ` set (tt_heads (tp_table w t)))"
proof (induction sl arbitrary: w)
  case (Cons p sl)
  obtain c ord where p: "p = (c, ord)"
    by (cases p)
  show ?case
  proof (cases "head_of_column (tt_heads (tp_table w t)) c")
    case (Some k)
    then have k: "k < length (tt_heads (tp_table w t))" "h_column (tt_heads (tp_table w t) ! k) = c"
      by (auto simp: head_of_column_def find_Some_iff rev_nth)
    define v where "v = (if ord < 2 then on_head t k (\<lambda>h. h\<lparr>h_css := add_css (sortCSS ! ord) (h_css h)\<rparr>) w else w)"
    have "heads_only w v"
      unfolding v_def by (auto intro: heads_only_head heads_only_refl)
    then have "map snd (map (\<lambda>h. (h_disabled h, h_column h)) (tt_heads (tp_table v t))) =
        map snd (map (\<lambda>h. (h_disabled h, h_column h)) (tt_heads (tp_table w t)))"
      by (simp only: heads_only_def)
    then have "h_column ` set (tt_heads (tp_table v t)) = h_column ` set (tt_heads (tp_table w t))"
      by (simp add: comp_def) (metis list.set_map)
    moreover have "mark_heads t (p # sl) w = mark_heads t sl v"
      by (simp add: p Some v_def)
    moreover have "c \<in> h_column ` set (tt_heads (tp_table w t))"
      using k by (metis image_eqI nth_mem)
    ultimately show ?thesis
      using Cons.IH [of v] by (simp add: p)
  qed (simp add: p)
qed simp

lemma updated_heads_only: "updateHeaderSortCount sl w = Inr v \<Longrightarrow> heads_only w v"
proof (induction sl w rule: updateHeaderSortCount.induct)
  case (2 c ord sl w)
  have count: "heads_only w (on_head u k (h_count_update f) w)" for u k f
    by (rule heads_only_head) simp
  show ?case
    using 2 by (auto split: if_splits prod.splits intro: heads_only_trans [OF count])
qed (simp add: heads_only_refl)

lemma marked_heads_only: "mark_heads t sl w = Inr v \<Longrightarrow> heads_only w v"
proof (induction t sl w rule: mark_heads.induct)
  case (2 t c ord sl w)
  have mark: "heads_only w (on_head u k (\<lambda>h. h\<lparr>h_css := f h\<rparr>) w)" for u k f
    by (rule heads_only_head) simp
  show ?case
    using 2 by (auto split: if_splits option.splits intro: heads_only_trans [OF mark])
qed (simp add: heads_only_refl)

lemma css_heads_only: "setHeadersCss t sl w = Inr v \<Longrightarrow> heads_only w v"
  unfolding setHeadersCss_def
  by (drule marked_heads_only, erule heads_only_trans [rotated]) (simp add: heads_only_def comp_def)

lemma heads_only_columns: "heads_only w v \<Longrightarrow> map h_column (tt_heads (tp_table v u)) = map h_column (tt_heads (tp_table w u))"
proof -
  assume "heads_only w v"
  then have "map snd (map (\<lambda>h. (h_disabled h, h_column h)) (tt_heads (tp_table v u))) =
      map snd (map (\<lambda>h. (h_disabled h, h_column h)) (tt_heads (tp_table w u)))"
    by (simp only: heads_only_def)
  then show ?thesis
    by (simp add: comp_def)
qed

lemma sorton_needs_heads:
  assumes "(c, ord) \<in> set (tp_arr w a)" "c \<notin> set (map h_column (tt_heads (tp_table w t)))"
  shows "\<exists>v. sorton t a w = Inl v"
proof -
  define w1 where "w1 = on_tab t (\<lambda>T. T\<lparr>tt_list := a\<rparr>) (log_event t ''sortStart'' w)"
  have w1: "sort_list t w1 = tp_arr w a" "tt_heads (tp_table w1 t) = tt_heads (tp_table w t)"
    by (simp_all add: w1_def log_event_def sort_list_def)
  show ?thesis
  proof (cases "updateHeaderSortCount (tp_arr w a) w1")
    case (Inr v)
    then have ho: "heads_only w1 v"
      by (rule updated_heads_only)
    define x where "x = on_tab t (\<lambda>T. T\<lparr>tt_heads := map (\<lambda>h. h\<lparr>h_css := remove_css (sortCSS ! 1) (remove_css (sortCSS ! 0) (h_css h))\<rparr>) (tt_heads T)\<rparr>) v"
    have "map h_column (tt_heads (tp_table x t)) = map h_column (tt_heads (tp_table w t))"
      using heads_only_columns [OF ho, of t] by (simp add: x_def w1 comp_def)
    then have "c \<notin> h_column ` set (tt_heads (tp_table x t))"
      using assms(2) by (metis list.set_map)
    then have "\<not> (\<exists>y. mark_heads t (tp_arr w a) x = Inr y)"
      using marked_only_heads [of t "tp_arr w a" x] assms(1) by blast
    then obtain y where "setHeadersCss t (tp_arr w a) v = Inl y"
      unfolding setHeadersCss_def x_def [symmetric] by (cases "mark_heads t (tp_arr w a) x") auto
    then show ?thesis
      by (simp add: sorton_def Let_def w1_def [symmetric] w1 Inr show_sorted_def heads_only_fields(8) [OF ho])
  qed (simp add: sorton_def Let_def w1_def [symmetric] w1)
qed

lemma read_table_frame:
  assumes "read_table env t w = Inr v"
  shows "tp_arr v = tp_arr w" "tt_heads (tp_table v t) = tt_heads (tp_table w t)" "tt_list (tp_table v t) = tt_list (tp_table w t)"
    "tt_body (tp_table v t) = tt_body (tp_table w t)" "tt_opts (tp_table v t) = tt_opts (tp_table w t)"
  using assms by (auto simp: read_table_def Let_def split: prod.splits option.splits)

text \<open>The heads that \<open>buildHeaders\<close> makes, by their columns.\<close>

lemma built_heads:
  "map h_column (tt_heads (tp_table (buildHeaders rows t w) t)) = th_columns rows"
  "tp_arr (buildHeaders rows t w) = tp_arr w" "tt_list (tp_table (buildHeaders rows t w) t) = tt_list (tp_table w t)"
  "tt_body (tp_table (buildHeaders rows t w) t) = tt_body (tp_table w t)"
proof -
  have cols: "map h_column (map (\<lambda>(i, col). make_head opts i col) xs) = map snd xs" for xs :: "(nat \<times> nat) list" and opts
    by (induction xs) (auto simp: make_head_def Let_def)
  have "tt_heads (tp_table (buildHeaders rows t w) t) =
      map (\<lambda>(i, col). make_head (tt_opts (tp_table w t)) i col) (enumerate 0 (th_columns rows))"
    by (simp add: buildHeaders_def Let_def)
  then show "map h_column (tt_heads (tp_table (buildHeaders rows t w) t)) = th_columns rows"
    by (simp only: cols map_snd_enumerate)
qed (simp_all add: buildHeaders_def Let_def)

lemma make_table_throws:
  assumes "tt_thead (tp_table w t) = Some rows" "(c, ord) \<in> set (tp_arr w a)" "c \<notin> set (th_columns rows)"
  shows "\<exists>v. make_table env opts a t w = Inl v"
proof -
  define w1 where "w1 = buildHeaders rows t (on_tab t (\<lambda>T. T\<lparr>tt_opts := opts, tt_list := a, tt_textok := False\<rparr>) w)"
  show ?thesis
  proof (cases "read_table env t w1")
    case (Inr v)
    define v1 where "v1 = on_tab t (\<lambda>T. T\<lparr>tt_live := True\<rparr>) v"
    have "map h_column (tt_heads (tp_table v1 t)) = th_columns rows" "tp_arr v1 a = tp_arr w a" "sort_list t v1 = tp_arr w a"
      using read_table_frame [OF Inr] by (simp_all add: v1_def w1_def built_heads sort_list_def)
    moreover have "tp_arr w a \<noteq> []"
      using assms(2) by auto
    ultimately show ?thesis
      using sorton_needs_heads [of c ord v1 a t] assms(2,3) list.set_map
      by (auto simp: make_table_def assms(1) w1_def [symmetric] Inr v1_def [symmetric])
  qed (simp add: make_table_def assms(1) w1_def [symmetric])
qed

text \<open>
  Tables that are made without a list of their own share that of the defaults: after a click with the shift key on such a
  table the column is in it, every other table of this kind has it too, and a table that is made later without a list
  and has no head for this column throws when it is made.
\<close>

theorem shift_click_reaches_other_tables:
  assumes "tt_live (tp_table w t)" "tt_list (tp_table w t) = 0" "k < length (tt_heads (tp_table w t))"
    and "\<not> h_disabled (tt_heads (tp_table w t) ! k)" "tt_body (tp_table w t) \<notin> {None, Some []}"
    and "c = h_column (tt_heads (tp_table w t) ! k)" "\<not> isValueInArray c (tp_arr w 0)"
    and "u \<noteq> t" "tt_thead (tp_table w u) = Some rows" "c \<notin> set (th_columns rows)"
  shows "\<exists>v ord. ts_event env (HeadClick t k True) w = Inr v \<and> tp_arr v 0 = tp_arr w 0 @ [(c, ord)] \<and>
    (\<exists>x. ts_event env (Tablesorter opts None [u]) v = Inl x)"
proof -
  let ?h = "tt_heads (tp_table w t) ! k"
  define ord where "ord = (case h_locked ?h of Some l \<Rightarrow> l | None \<Rightarrow> h_count ?h mod 2)"
  define w1 where "w1 = on_head t k (\<lambda>h. h\<lparr>h_order := ord, h_count := Suc (h_count h)\<rparr>) (log_event t ''sortStart'' w)"
  have w1: "sort_list t w1 = tp_arr w 0" "tp_arr w1 = tp_arr w" "tt_list (tp_table w1 t) = 0"
    "tt_thead (tp_table w1 u) = tt_thead (tp_table w u)"
    using assms(2) by (simp_all add: w1_def on_head_def log_event_def sort_list_def)
  define v where "v = w1\<lparr>tp_arr := (tp_arr w)(0 := tp_arr w 0 @ [(c, ord)]), tp_jobs := tp_jobs w1 @ [JSort t]\<rparr>"
  have "ts_event env (HeadClick t k True) w = Inr v"
    using assms(1,3-7) unfolding v_def
    by (simp add: listens_def head_click_def Let_def ord_def [symmetric] w1_def [symmetric] choose_column_def w1)
  moreover have "\<exists>x. make_table env opts 0 u v = Inl x"
    using make_table_throws [of v u rows c ord 0] assms(9,10) by (simp add: v_def w1)
  then have "\<exists>x. ts_event env (Tablesorter opts None [u]) v = Inl x"
    by (auto simp: tablesorter_def)
  moreover have "tp_arr v 0 = tp_arr w 0 @ [(c, ord)]"
    by (simp add: v_def)
  ultimately show ?thesis
    by blast
qed

text \<open>A table without rows cannot be made with a list, as the page of the statistics does when there is nothing to count.\<close>

lemma empty_table_throws:
  assumes "tt_thead (tp_table w t) = Some rows" "tt_body (tp_table w t) = Some []" "sl \<noteq> []"
  shows "\<exists>v. ts_event env (Tablesorter opts (Some sl) [t]) w = Inl v"
proof -
  let ?w0 = "new_arr sl w"
  define w1 where "w1 = buildHeaders rows t (on_tab t (\<lambda>T. T\<lparr>tt_opts := opts, tt_list := tp_next w, tt_textok := False\<rparr>) ?w0)"
  have b: "tt_body (tp_table w1 t) = Some []"
    using assms(2) by (simp add: w1_def built_heads new_arr_def)
  then obtain v where v: "read_table env t w1 = Inr v" "tt_norm (tp_table v t) = []" "tt_parsers (tp_table v t) = None"
    by (simp add: read_table_def buildCache_def buildParserCache_def body_rows_def Let_def)
  define v1 where "v1 = on_tab t (\<lambda>T. T\<lparr>tt_live := True\<rparr>) v"
  have v1: "tt_norm (tp_table v1 t) = []" "tt_parsers (tp_table v1 t) = None" "sort_list t v1 = sl" "tp_arr v1 (tp_next w) = sl"
    using v read_table_frame [OF v(1)] by (simp_all add: v1_def w1_def built_heads sort_list_def new_arr_def)
  have "\<exists>x. sorton t (tp_next w) v1 = Inl x"
  proof -
    define w2 where "w2 = on_tab t (\<lambda>T. T\<lparr>tt_list := tp_next w\<rparr>) (log_event t ''sortStart'' v1)"
    have w2: "sort_list t w2 = sl" "tt_parsers (tp_table w2 t) = None"
      by (simp_all add: w2_def log_event_def sort_list_def v1)
    have "\<exists>x. show_sorted t w3 = Inl x" if ho: "heads_only w2 w3" for w3
    proof (cases "setHeadersCss t sl w3")
      case (Inr w4)
      then have "heads_only w2 w4"
        using ho css_heads_only heads_only_trans by blast
      then have "multisort t sl w4 = Inl w4" "sort_list t w4 = sl"
        using assms(3) by (cases sl; auto simp: multisort_def heads_only_fields w2)+
      then show ?thesis
        by (simp add: show_sorted_def heads_only_fields [OF ho] w2 Inr)
    qed (simp add: show_sorted_def heads_only_fields [OF ho] w2)
    then show ?thesis
      by (cases "updateHeaderSortCount sl w2") (auto simp: sorton_def Let_def w2_def [symmetric] w2 dest: updated_heads_only)
  qed
  then show ?thesis
    using v(1) assms(1,3) v1(3) by (auto simp: tablesorter_def make_table_def new_arr_def w1_def v1_def Let_def)
qed

end
