(* ===== verification/Spec2Isabelle.thy ===== *)
theory Spec2Isabelle
  imports Md5_Correct PopApp DidaMember PopOms ChatAdmin Comments Gb2312 Post Rock Readers RobotG Demo IndexG OldChat Thread Plugins ChatSession UtlMore RockTables DatePicker TableSorter
begin

text \<open>
  A model of the browser code of the cmoon sites: the customer-service chat and its account pages
  (\<open>pop/fly/js\<close>), the site for shared rides (\<open>dida/fly/js\<close>) and the plugins both use (\<open>lib/js\<close>).  The
  servers are written in other languages; they are seen here by the requests the pages make and by
  their answers, which are arbitrary JavaScript values.

  How the program is modelled.  Every page is a record: the elements it looks up (value, markup,
  classes, visibility, attributes, notes under it), the requests it has sent, its alerts, the
  exceptions that ended a handler, and the fields of the page's object.  A handler, a callback and a
  timer are functions from that record to itself; what happens to a page is a list of events.  A
  callback is applied to any answer at any time, so every interleaving the browser allows is a list of
  events.  An expression that can throw is a sum with \<open>js_error\<close>, and what was done before the
  exception stays done.  Objects that outlive the handler that made them (the routes of the robots) are
  in a store.

  The theories, from the bottom:

    \<^item> \<open>Prelude\<close>: lists, words and the array operations \<open>splice\<close>, \<open>inArray\<close>.
    \<^item> \<open>JsValue\<close>: values, conversions, comparison, numbers as text; numbers are exact rationals.
    \<^item> \<open>Dom\<close>, \<open>FormPanel\<close>: elements, pages, requests; the locales \<open>form_panel\<close>, \<open>form_request\<close> (a
      button, its request and its answer) and \<open>machine\<close> (an invariant kept by every event).
    \<^item> \<open>Md5\<close>, \<open>Md5_Correct\<close> (\<open>jquery.md5.js\<close>): the plugin on 32-bit words, RFC 1321 beside it, and that
      the two agree; the encoding to UTF-8.
    \<^item> \<open>Gb2312\<close> (\<open>GB2312UTF8.js\<close>): escaped UTF-8 and back.
    \<^item> \<open>Regex\<close>, \<open>Validate\<close> (\<open>jquery.mninpval.js\<close>, \<open>jquery.bmoon.js\<close>, \<open>jquery.formval.js\<close>): matching by derivatives, the rules
      of the fields and the loop over them.
    \<^item> \<open>Utl\<close> (\<open>bmoon.js\<close>), \<open>Cookie\<close> (\<open>jquery.cookie.js\<close>), \<open>Pager\<close> (\<open>jquery.mnnav.js\<close>, \<open>jquery.mnpagenav.js\<close>,
      \<open>jquery.mnscrollpage.js\<close>), \<open>Table\<close> (\<open>jquery.mntable.js\<close>).
    \<^item> \<open>Login\<close> (\<open>bmoon.lcs.js\<close>, \<open>bmoon.dida.js\<close>): login, logout and the cookies of both sites.
    \<^item> \<open>Forms\<close>, \<open>PopApp\<close> (\<open>app/\<close>), \<open>DidaMember\<close> (\<open>member/\<close>), \<open>PopOms\<close> (\<open>oms/\<close>): the pages with forms,
      each an interpretation of the locales above.
    \<^item> \<open>Chat\<close> (\<open>bmoon.chat.js\<close>, \<open>livecs.js\<close>) and \<open>ChatAdmin\<close> (\<open>bmoon.chatb.js\<close>, \<open>livecsb.js\<close>, \<open>oms.js\<close>):
      the visitor's and the administrator's side of the chat; what a box looks like, who is on line, in
      which order, and what is sent where.
    \<^item> \<open>Comments\<close> (\<open>blog/\<close>, \<open>zero/\<close>, \<open>bore/\<close>): the pages with comments.
    \<^item> \<open>Geo\<close> (\<open>bmoon.dida.js\<close>): points as text, and the search for a city.
    \<^item> \<open>Index\<close> (\<open>index.js\<close>): the front page of the ride site; the cursor over the routes found refines a
      counter (locale \<open>simulation\<close>), the object of the query is shared with the form that leaves a route.
    \<^item> \<open>Spd\<close> (\<open>admin/spd/robot.js\<close>, \<open>admin/pos.js\<close>) and \<open>Post\<close> (\<open>admin/spd/post.js\<close>): the robots that complete
      collected routes and the desk where it is done by hand.
    \<^item> \<open>JsMatch\<close>: the backtracking matcher of JavaScript with its groups; its matches are the words of the
      language of \<open>Regex\<close>, and a test by it is the test by derivatives.
    \<^item> \<open>Readers\<close> (\<open>admin/spd/58.js\<close>, \<open>ganji.js\<close>, \<open>edeng.js\<close>, \<open>liebiao.js\<close>): the scripts that read rides off the
      pages of other sites.
    \<^item> \<open>Rock\<close> (\<open>memorypark/rock\<close>, \<open>jquery.form.js\<close>): a parked site; forms that the form plugin hands to the
      page, to the collection of the fields and to the validation, in this order.

    \<^item> \<open>RobotG\<close> (\<open>admin/spd/robot-g.js\<close>): the robot for the other map, its state an extension of that of
      \<open>Spd\<close>; the questions it puts to the map are objects of a store.
    \<^item> \<open>Kol\<close> (\<open>bmoon.kol.js\<close>) and \<open>Demo\<close> (\<open>demo.js\<close>): the loader that brings the visitor chat to a foreign
      page, and the page where its position and its account can be tried out.
    \<^item> \<open>IndexG\<close> (\<open>index-g.js\<close>): the front page for the other map; what it shares with \<open>index.js\<close> is that of
      \<open>Index\<close>.
    \<^item> \<open>OldChat\<close> (\<open>livecs_uninstanceable.js\<close>, \<open>okol.js\<close>): the client of the chat server before
      \<open>livecs.js\<close>, which refines a cell with the last administrator, and the figures of the visits.
    \<^item> \<open>Thread\<close> (\<open>jquery.mncomment.js\<close>, \<open>ksa/tpl/about.js\<close>): comments as a tree of blocks.
    \<^item> \<open>Plugins\<close> (\<open>jquery.flobu.js\<close>, \<open>jquery.mnlist.js\<close>, \<open>jquery.mnsuperfish.js\<close>, \<open>jquery.mnuiplug.js\<close>,
      \<open>jquery.mntips.js\<close>, \<open>plan/info.js\<close>, \<open>memorypark/ksc\<close>): the small plugins, the page of one route, the
      parked shop.
    \<^item> \<open>ChatSession\<close> (\<open>livecs.js\<close>, \<open>livecsb.js\<close>): how a page of the chat begins, and what one page leaves to the
      next in cookies and in the session of the chat server.
    \<^item> \<open>UtlMore\<close> (\<open>bmoon.js\<close>): distances (how the browser rounds and computes is a parameter), versions, the exchange of
      elements.
    \<^item> \<open>JsDate\<close>, \<open>DateExt\<close> (\<open>datepicker/date.js\<close>, \<open>date_zh.js\<close>), \<open>DatePicker\<close> (\<open>jquery.datePicker.js\<close>): the dates of the
      language, their extension, and the calendar of the date fields of the pages \<open>bill.js\<close>, \<open>stat.js\<close> and \<open>okol.js\<close>.
    \<^item> \<open>TableSorter\<close> (\<open>jquery.tablesorter.js\<close>): tables that are sorted by their heads, with the arrays that the tables of a
      page share in a store; sorting gives the rows in the order asked for and loses none.
    \<^item> \<open>RockTables\<close> (\<open>file.js\<close>, \<open>group.js\<close>): the tables of the parked site.

  This theory holds the properties that span pages: that passwords leave hashed, and what the pages
  with passwords have in common.

  What the lemmas show: for every page the frame of each operation (what it leaves alone), its effect on
  each branch, exceptions included; for the event systems an invariant; for the encodings a round
  trip; for the plugins equality with a reference definition.  Where the code does not do what it
  means to, the theorem states what it does and under which condition.

  Bounds.  Loops are recursive functions with a measure; only \<open>Geo.drive\<close>, the search together with its
  server, has fuel, and one unit for each part of an address is enough for it to end
  (\<open>Geo.city_search_settles\<close>).  \<open>rat_str\<close> prints at most 17 decimals, which is exact for the coordinates and
  amounts of the program; the claims on printed points ask for 12.

  Not modelled: jQuery and the other libraries beyond what \<open>Dom\<close> says of them; animation, focus,
  positions in pixels and sound; the drawing of maps and plots;
  \<open>earthDis\<close> is a parameter where it is used (\<open>UtlMore\<close> has it), and so is \<open>clotheHTML\<close>, which lets the browser parse a text;
  the rounding of doubles elsewhere; the widgets for uploads and markup; a change of the offset of the time zone; pages that only bind a library
  call to an element.
\<close>

section \<open>Properties that span the pages\<close>

text \<open>
  C2. No password leaves a page in the clear. Whatever the user types and clicks, whatever the
  server replies and in whatever order the timers run, every parameter named asn or msn in a request
  of the login of either site, of the registration and password pages of either site, and of the
  page of the customer-service accounts is a digest: 32 lower-case hexadecimal digits.
\<close>

theorem passwords_leave_hashed:
  "all_hashed (fold lcs_step es1 ((s1 :: lcs)\<lparr>reqs := []\<rparr>)) \<and>
   all_hashed (fold dida_step es2 ((s2 :: dida)\<lparr>reqs := []\<rparr>)) \<and>
   all_hashed (fold new_step es3 ((s3 :: app_new)\<lparr>reqs := [], nw_lcs := s1\<lparr>reqs := []\<rparr>\<rparr>)) \<and>
   all_hashed (fold pass_step es4 (s4\<lparr>reqs := []\<rparr>)) \<and>
   all_hashed (fold regist_step es5 ((s5 :: regist)\<lparr>reqs := [], rg_dida := s2\<lparr>reqs := []\<rparr>\<rparr>)) \<and>
   all_hashed (fold mpass_step es6 (s6\<lparr>reqs := []\<rparr>)) \<and>
   all_hashed (fold users_step es7 ((s7 :: users)\<lparr>reqs := []\<rparr>))"
proof -
  have "app_new_hashed (s3\<lparr>reqs := [], nw_lcs := s1\<lparr>reqs := []\<rparr>\<rparr>)"
    by (simp add: app_new_hashed_def all_hashed_fresh)
  moreover have "regist_hashed (s5\<lparr>reqs := [], rg_dida := s2\<lparr>reqs := []\<rparr>\<rparr>)"
    by (simp add: regist_hashed_def all_hashed_fresh)
  ultimately have "app_new_hashed (fold new_step es3 (s3\<lparr>reqs := [], nw_lcs := s1\<lparr>reqs := []\<rparr>\<rparr>))"
    "regist_hashed (fold regist_step es5 (s5\<lparr>reqs := [], rg_dida := s2\<lparr>reqs := []\<rparr>\<rparr>))"
    by (auto intro: app_new.run_inv regist.run_inv)
  then show ?thesis
    by (auto simp: app_new_hashed_def regist_hashed_def
      intro!: lcs.run_inv dida.run_inv app_pass.run_inv mpass.run_inv users.run_inv all_hashed_fresh)
qed

text \<open>
  C24. The registration pages keep the digest in the password field: when a registration is refused
  and the button clicked again, the password is hashed again, so the second request carries the
  digest of a digest and the password it would register is not the one that was typed.
\<close>

theorem retry_hashes_the_digest:
  assumes "ready [NwAname, NwEmail, NwAsn] s" "ready [NwAname, NwEmail, NwAsn] (appAdd_reply d (appAdd s))"
    and "ready [RgMnick, RgMname, RgMsn] t" "ready [RgMnick, RgMname, RgMsn] (memberAdd_reply d (memberAdd t))"
    and "ready [UsAname, UsEmail, UsAsn] u" "ready [UsAname, UsEmail, UsAsn] (userAdd_reply d (userAdd u))"
  shows "map (\<lambda>r. map_of (r_params r) ''asn'') (reqs (appAdd (appAdd_reply d (appAdd s)))) =
       map (\<lambda>r. map_of (r_params r) ''asn'') (reqs s) @
         [Some (JStr (md5md5 (e_val (dom s NwAsn)))), Some (JStr (md5md5 (md5md5 (e_val (dom s NwAsn)))))] \<and>
     map (\<lambda>r. map_of (r_params r) ''msn'') (reqs (memberAdd (memberAdd_reply d (memberAdd t)))) =
       map (\<lambda>r. map_of (r_params r) ''msn'') (reqs t) @
         [Some (JStr (md5md5 (e_val (dom t RgMsn)))), Some (JStr (md5md5 (md5md5 (e_val (dom t RgMsn)))))] \<and>
     map (\<lambda>r. map_of (r_params r) ''asn'') (reqs (userAdd (userAdd_reply d (userAdd u)))) =
       map (\<lambda>r. map_of (r_params r) ''asn'') (reqs u) @
         [Some (JStr (md5md5 (e_val (dom u UsAsn)))), Some (JStr (md5md5 (md5md5 (e_val (dom u UsAsn)))))]"
  using assms
  by (simp add: appAdd_reqs appAdd_asn appAdd_reply_frame memberAdd_reqs memberAdd_msn memberAdd_reply_frame
      userAdd_reqs userAdd_asn userAdd_reply_frame)

text \<open>A field as the templates have it: required, with what was typed in it.\<close>

definition required :: "string \<Rightarrow> elem" where
  "required v = blank\<lparr>e_val := v, e_cls := {''vrequire''}\<rparr>"

lemma required_ok: "v \<noteq> [] \<Longrightarrow> field_ok (required v)"
  by (simp add: required_def field_ok_def len_ok_def blank_def class_rules_def)

lemma field_ok_retyped: "field_ok (set_val v (mark_valid (required w)))" if "v \<noteq> []"
  using that by (simp add: required_def field_ok_def len_ok_def blank_def class_rules_def mark_valid_def dom_defs)

lemma retry_hashes_the_digest_witness:
  "let s = (\<lparr>dom = (\<lambda>_. required ''x''), reqs = [], alerts = [], thrown = [], nw_lcs = fresh_lcs '''' []\<rparr> :: app_new);
       t = (\<lparr>dom = (\<lambda>_. required ''x''), reqs = [], alerts = [], thrown = [], rg_dida = fresh_dida '''' []\<rparr> :: regist);
       u = (\<lparr>dom = (\<lambda>_. required ''x''), reqs = [], alerts = [], thrown = [], us_rows = []\<rparr> :: users);
       d = JObj [(''success'', jint 0)]
   in map (\<lambda>r. map_of (r_params r) ''asn'') (reqs (appAdd (appAdd_reply d (appAdd s)))) =
       map (\<lambda>r. map_of (r_params r) ''asn'') (reqs s) @
         [Some (JStr (md5md5 (e_val (dom s NwAsn)))), Some (JStr (md5md5 (md5md5 (e_val (dom s NwAsn)))))] \<and>
     map (\<lambda>r. map_of (r_params r) ''msn'') (reqs (memberAdd (memberAdd_reply d (memberAdd t)))) =
       map (\<lambda>r. map_of (r_params r) ''msn'') (reqs t) @
         [Some (JStr (md5md5 (e_val (dom t RgMsn)))), Some (JStr (md5md5 (md5md5 (e_val (dom t RgMsn)))))] \<and>
     map (\<lambda>r. map_of (r_params r) ''asn'') (reqs (userAdd (userAdd_reply d (userAdd u)))) =
       map (\<lambda>r. map_of (r_params r) ''asn'') (reqs u) @
         [Some (JStr (md5md5 (e_val (dom u UsAsn)))), Some (JStr (md5md5 (md5md5 (e_val (dom u UsAsn)))))]"
  unfolding Let_def
  by (rule retry_hashes_the_digest)
    (simp_all add: ready_def required_ok appAdd_def appAdd_reply_def memberAdd_def memberAdd_reply_def
      userAdd_def userAdd_reply_def settle_said_def said_done_def when_valid_ready Let_def field_ok_retyped)

text \<open>
  C25. Changing a password: a request goes out exactly when both fields pass and agree, with the
  digest of what they hold. When they pass and do not agree, the click says nothing: the panels keep
  the marks they had, also a success left from the last time the fields were compared.
\<close>

theorem mismatch_is_silent:
  "reqs (appPass s) = (if ready [PsAsn, PsAsnr] s \<and> e_val (dom s PsAsn) = e_val (dom s PsAsnr)
     then reqs s @ [\<lparr>r_method = POST, r_url = ''/json/oms/edit'',
       r_params = [(''_op'', JStr ''mod''), (''asn'', JStr (md5md5 (e_val (dom s PsAsn))))]\<rparr>]
     else reqs s) \<and>
   dom (appPass s) PsAsnrPanel = dom s PsAsnrPanel \<and>
   (if e_val (dom s PsAsn) = e_val (dom s PsAsnr) then True
    else dom (appPass s) PsSubmitPanel = dom s PsSubmitPanel) \<and>
   reqs (memberPass t) = (if ready [MpMsn, MpMsnr] t \<and> e_val (dom t MpMsn) = e_val (dom t MpMsnr)
     then reqs t @ [\<lparr>r_method = POST, r_url = ''/json/member/edit'',
       r_params = [(''_op'', JStr ''mod''), (''msn'', JStr (md5md5 (e_val (dom t MpMsn))))]\<rparr>]
     else reqs t) \<and>
   dom (memberPass t) MpMsnrPanel = dom t MpMsnrPanel \<and>
   (if e_val (dom t MpMsn) = e_val (dom t MpMsnr) then True
    else dom (memberPass t) MpSubmitPanel = dom t MpSubmitPanel)"
  by (simp add: appPass_reqs memberPass_reqs appPass_other memberPass_other
      appPass.submit_refused memberPass.submit_refused)

end
